(* ===== verification/Prelude.thy ===== *)
theory Prelude imports Complex_Main "HOL-Library.Char_ord" "HOL-Library.List_Lexorder" "HOL-Library.Product_Lexorder" "HOL-Library.Word" "HOL-Library.Multiset" "HOL-Library.AList" begin

text \<open>
  Shared vocabulary of the development: the named collections the component theories feed, the
  type synonyms for the values every component handles (bytes, UUIDs, timestamps), and generic
  lemmas on lists, association lists and sorting that several components use.
\<close>

section \<open>Collections\<close>

named_theorems state_simps \<open>unfolding rules for state transformers of the data plane\<close>
named_theorems bound_intros \<open>range facts for scores, weights and rounded amounts\<close>
named_theorems inv_intros \<open>one preservation lemma per operation of a component\<close>

section \<open>Types shared by the components\<close>

type_synonym byte = "8 word"
type_synonym bytes = "byte list"

text \<open>
  A UUID is its 128-bit value. Python orders UUIDs here by their lower-case hexadecimal text of
  fixed width, which is the order of the values.
\<close>

type_synonym uuid = "128 word"

text \<open>
  An aware \<^verbatim>\<open>datetime\<close> is the number of microseconds since the Unix epoch in UTC: the database
  layer hands every component timestamps in UTC.
\<close>

type_synonym timestamp = int

definition microsecond :: int where
  "microsecond = 1000000"

definition day_micros :: int where
  "day_micros = 86400 * microsecond"

text \<open>The calendar day of a timestamp, \<^verbatim>\<open>datetime.date()\<close>, as days since the epoch.\<close>

definition date_of :: "timestamp \<Rightarrow> int" where
  "date_of t = t div day_micros"

text \<open>\<^verbatim>\<open>abs((b - a).total_seconds())\<close>, kept in microseconds, and its truncation to seconds.\<close>

definition delta_abs :: "timestamp \<Rightarrow> timestamp \<Rightarrow> int" where
  "delta_abs a b = \<bar>b - a\<bar>"

definition whole_seconds :: "int \<Rightarrow> int" where
  "whole_seconds d = (if d < 0 then - ((- d) div microsecond) else d div microsecond)"

lemma delta_abs_commute: "delta_abs a b = delta_abs b a"
  by (simp add: delta_abs_def)

lemma delta_abs_nonneg [simp]: "0 \<le> delta_abs a b"
  by (simp add: delta_abs_def)

section \<open>Python containers\<close>

text \<open>\<^verbatim>\<open>dict.fromkeys\<close>: the distinct elements in the order of their first occurrence.\<close>

fun uniq_acc :: "'a list \<Rightarrow> 'a list \<Rightarrow> 'a list" where
  "uniq_acc seen [] = []"
| "uniq_acc seen (x # xs) =
     (if x \<in> set seen then uniq_acc seen xs else x # uniq_acc (x # seen) xs)"

definition uniq :: "'a list \<Rightarrow> 'a list" where
  "uniq xs = uniq_acc [] xs"

lemma set_uniq_acc: "set (uniq_acc seen xs) = set xs - set seen"
  by (induction seen xs rule: uniq_acc.induct) auto

lemma distinct_uniq_acc: "distinct (uniq_acc seen xs)"
  by (induction seen xs rule: uniq_acc.induct) (auto simp: set_uniq_acc)

lemma set_uniq [simp]: "set (uniq xs) = set xs"
  by (simp add: uniq_def set_uniq_acc)

lemma distinct_uniq [simp]: "distinct (uniq xs)"
  by (simp add: uniq_def distinct_uniq_acc)

text \<open>A set built from a list and then sorted: \<^verbatim>\<open>sorted(set(xs))\<close>.\<close>

definition sorted_set :: "'a::linorder list \<Rightarrow> 'a list" where
  "sorted_set xs = sort (remdups xs)"

lemma set_sorted_set [simp]: "set (sorted_set xs) = set xs"
  by (simp add: sorted_set_def)

lemma sorted_sorted_set [simp]: "sorted (sorted_set xs)"
  by (simp add: sorted_set_def)

lemma distinct_sorted_set [simp]: "distinct (sorted_set xs)"
  by (simp add: sorted_set_def)

lemma sorted_set_cong: "set xs = set ys \<Longrightarrow> sorted_set xs = sorted_set ys"
  by (rule sorted_distinct_set_unique) auto

text \<open>
  A dictionary whose iteration order matters is an association list: \<open>AList.update\<close> keeps the
  place of a key that is present and appends a new one, as a Python dictionary does.
\<close>

type_synonym ('k, 'v) dict = "('k \<times> 'v) list"

text \<open>\<^verbatim>\<open>d.setdefault(k, []).append(v)\<close>\<close>

definition dict_push :: "'k \<Rightarrow> 'v \<Rightarrow> ('k, 'v list) dict \<Rightarrow> ('k, 'v list) dict" where
  "dict_push k v d = (case map_of d k of
      None \<Rightarrow> d @ [(k, [v])]
    | Some vs \<Rightarrow> AList.update k (vs @ [v]) d)"

lemma map_of_dict_push:
  "map_of (dict_push k v d) =
     (map_of d)(k \<mapsto> (case map_of d k of None \<Rightarrow> [v] | Some vs \<Rightarrow> vs @ [v]))"
  by (auto simp: dict_push_def update_conv' map_add_def fun_eq_iff split: option.splits)

lemma keys_dict_push: "fst ` set (dict_push k v d) = insert k (fst ` set d)"
  by (simp add: dom_map_of_conv_image_fst [symmetric] map_of_dict_push)

lemma distinct_dict_push:
  "distinct (map fst d) \<Longrightarrow> distinct (map fst (dict_push k v d))"
  by (auto simp: dict_push_def distinct_update map_of_eq_None_iff split: option.splits)

section \<open>Sorting\<close>

text \<open>
  Sorting by a key that tells the elements apart does not depend on the order of the input, so a
  component that sorts its input first is deterministic.
\<close>

lemma sort_key_unique:
  assumes "mset xs = mset ys" and "inj_on f (set xs)"
  shows "sort_key f xs = sort_key f ys"
  using assms by (intro sort_key_inj_key_eq) auto

lemma in_map_filter: "x \<in> set (List.map_filter f xs) \<longleftrightarrow> (\<exists>y \<in> set xs. f y = Some x)"
  by (induction xs) (auto simp: List.map_filter_simps split: option.splits)

lemma map_filter_distinct: "distinct (map f xs) \<Longrightarrow> distinct (map f (filter P xs))"
  by (induction xs) auto

lemma sorted_map_filter: "sorted (map f xs) \<Longrightarrow> sorted (map f (filter P xs))"
  by (induction xs) auto

section \<open>Options\<close>

lemma map_of_Some_fst: "map_of d k = Some v \<Longrightarrow> k \<in> fst ` set d"
  by (force dest: map_of_SomeD)

section \<open>Loops that may fail to return\<close>

text \<open>
  A \<^verbatim>\<open>for\<close> loop over a list whose body may not return (\<open>None\<close>). The locale states once what every
  such loop of the program needs: a body that returns and keeps an invariant on every element gives
  a loop that returns and keeps it.
\<close>

fun loop :: "('x \<Rightarrow> 's \<Rightarrow> 's option) \<Rightarrow> 'x list \<Rightarrow> 's \<Rightarrow> 's option" where
  "loop f [] s = Some s"
| "loop f (x # xs) s = (case f x s of None \<Rightarrow> None | Some s' \<Rightarrow> loop f xs s')"

locale total_loop =
  fixes body :: "'x \<Rightarrow> 's \<Rightarrow> 's option"
    and inv :: "'s \<Rightarrow> bool"
    and step :: "'x \<Rightarrow> 's \<Rightarrow> 's \<Rightarrow> bool"
  assumes body_returns: "inv s \<Longrightarrow> \<exists>s'. body x s = Some s' \<and> inv s' \<and> step x s s'"
begin

lemma loop_returns: "inv s \<Longrightarrow> \<exists>s'. loop body xs s = Some s' \<and> inv s'"
proof (induction xs arbitrary: s)
  case (Cons x xs)
  then show ?case using body_returns [of s x] by fastforce
qed simp

text \<open>A property that every step preserves, for the elements of the list, holds at the end.\<close>

lemma loop_preserves:
  assumes "inv s" and "P s"
    and "\<And>x s s'. x \<in> set xs \<Longrightarrow> inv s \<Longrightarrow> P s \<Longrightarrow> step x s s' \<Longrightarrow> P s'"
  shows "\<exists>s'. loop body xs s = Some s' \<and> inv s' \<and> P s'"
  using assms
proof (induction xs arbitrary: s)
  case (Cons x xs)
  from body_returns [OF Cons.prems(1), of x] obtain s1 where
    s1: "body x s = Some s1" "inv s1" "step x s s1" by blast
  then have "P s1" using Cons.prems by auto
  have "\<exists>s'. loop body xs s1 = Some s' \<and> inv s' \<and> P s'"
    by (rule Cons.IH [OF s1(2) \<open>P s1\<close>]) (use Cons.prems(3) in auto)
  then show ?case using s1(1) by simp
qed simp

text \<open>A relation that holds between the states before and after every step, and composes.\<close>

lemma loop_relates:
  assumes "inv s" and "\<And>s. R s s" and "\<And>a b c. R a b \<Longrightarrow> R b c \<Longrightarrow> R a c"
    and "\<And>x s s'. inv s \<Longrightarrow> step x s s' \<Longrightarrow> R s s'"
  shows "\<exists>s'. loop body xs s = Some s' \<and> inv s' \<and> R s s'"
  using loop_preserves [of s "R s" xs] assms by blast

end

text \<open>The results of a list of computations that may raise: the first error, or all values.\<close>

fun collect :: "('e + 'a) list \<Rightarrow> 'e + 'a list" where
  "collect [] = Inr []"
| "collect (Inl e # xs) = Inl e"
| "collect (Inr x # xs) = (case collect xs of Inl e \<Rightarrow> Inl e | Inr ys \<Rightarrow> Inr (x # ys))"

lemma collect_Inr: "list_all (\<lambda>x. \<exists>y. f x = Inr y) xs \<Longrightarrow> collect (map f xs) = Inr (map (projr \<circ> f) xs)"
  by (induction xs) auto

text \<open>Sequencing of computations that may raise.\<close>

definition attempt :: "'e + 'a \<Rightarrow> ('a \<Rightarrow> 'e + 'b) \<Rightarrow> 'e + 'b" where
  "attempt x f = (case x of Inl e \<Rightarrow> Inl e | Inr a \<Rightarrow> f a)"

lemma attempt_simps [simp]: "attempt (Inl e) f = Inl e" "attempt (Inr a) f = f a"
  by (simp_all add: attempt_def)

lemma attempt_eq_Inr: "attempt x f = Inr y \<longleftrightarrow> (\<exists>a. x = Inr a \<and> f a = Inr y)"
  by (cases x) auto

lemma map_sum_Inr: "map_sum id g x = Inr y \<longleftrightarrow> (\<exists>z. x = Inr z \<and> y = g z)"
  by (cases x) auto

text \<open>A loop whose body may raise.\<close>

fun attempt_all :: "('a \<Rightarrow> 's \<Rightarrow> 'e + 's) \<Rightarrow> 'a list \<Rightarrow> 's \<Rightarrow> 'e + 's" where
  "attempt_all f [] s = Inr s"
| "attempt_all f (x # xs) s = attempt (f x s) (attempt_all f xs)"

lemma attempt_all_append: "attempt_all f (xs @ ys) s = attempt (attempt_all f xs s) (attempt_all f ys)"
proof (induction xs arbitrary: s)
  case (Cons x xs)
  then show ?case by (cases "f x s") simp_all
qed simp

text \<open>An invariant over the part of the list already processed.\<close>

lemma attempt_all_invariant:
  assumes "P [] s" and "\<And>ys x zs s s'. xs = ys @ x # zs \<Longrightarrow> P ys s \<Longrightarrow> f x s = Inr s' \<Longrightarrow> P (ys @ [x]) s'"
    and "attempt_all f xs s = Inr s'"
  shows "P xs s'"
proof -
  have "P ys t" if "attempt_all f ys s = Inr t" "\<exists>zs. xs = ys @ zs" for ys t
    using that
  proof (induction ys arbitrary: t rule: rev_induct)
    case Nil
    then show ?case using assms(1) by simp
  next
    case (snoc y ys)
    then obtain u where u: "attempt_all f ys s = Inr u" "f y u = Inr t"
      by (auto simp: attempt_all_append attempt_eq_Inr)
    with snoc have "P ys u" by auto
    from snoc.prems(2) obtain zs where "xs = ys @ y # zs" by auto
    from assms(2) [OF this \<open>P ys u\<close> u(2)] show ?case .
  qed
  then show ?thesis using assms(3) by blast
qed

lemma attempt_all_keeps:
  assumes "attempt_all f xs s = Inr s'" and "P s" and "\<And>x s s'. P s \<Longrightarrow> f x s = Inr s' \<Longrightarrow> P s'"
  shows "P s'"
  by (rule attempt_all_invariant [OF _ _ assms(1), where P = "\<lambda>_. P"]) (use assms in auto)

lemma attempt_all_filter:
  assumes "\<And>x s. \<not> Q x \<Longrightarrow> f x s = Inr s"
  shows "attempt_all f (filter Q xs) s = attempt_all f xs s"
proof (induction xs arbitrary: s)
  case (Cons x xs)
  have "attempt_all f (filter Q xs) = attempt_all f xs" using Cons by (intro ext)
  then show ?case by (simp add: assms)
qed simp

end
