(* ===== verification/PyText.thy ===== *)
theory PyText imports Prelude begin

text \<open>
  The part of Python's \<^verbatim>\<open>str\<close> the program uses, on the Latin-1 repertoire: a \<open>string\<close> is a list
  of the code points U+0000 to U+00FF (the RCH parser decodes Latin-1, and the Italian texts the
  program matches stay inside it). White space, upper case and the compatibility decomposition
  are the tables of Python's \<^verbatim>\<open>unicodedata\<close> for these code points. Five values whose image lies
  outside the repertoire (the micro sign, the three fractions, and the upper case of y with
  diaeresis) are left as they are.
\<close>

section \<open>Characters\<close>

definition code :: "char \<Rightarrow> nat" where
  "code c = of_char c"

definition chr :: "nat \<Rightarrow> char" where
  "chr n = char_of n"

lemma code_chr: "n < 256 \<Longrightarrow> code (chr n) = n"
  by (simp add: code_def chr_def)

lemma chr_code [simp]: "chr (code c) = c"
  by (simp add: code_def chr_def)

lemma code_less: "code c < 256"
  by (simp add: code_def)

lemma code_inj: "code c = code d \<longleftrightarrow> c = d"
  by (simp add: code_def)

definition is_space :: "char \<Rightarrow> bool" where
  "is_space c = (let n = code c in
     (9 \<le> n \<and> n \<le> 13) \<or> (28 \<le> n \<and> n \<le> 32) \<or> n = 133 \<or> n = 160)"

definition is_digit :: "char \<Rightarrow> bool" where
  "is_digit c = (48 \<le> code c \<and> code c \<le> 57)"

text \<open>\<^verbatim>\<open>str.isalnum\<close> of one character.\<close>

definition is_alnum :: "char \<Rightarrow> bool" where
  "is_alnum c = (let n = code c in
     (48 \<le> n \<and> n \<le> 57) \<or> (65 \<le> n \<and> n \<le> 90) \<or> (97 \<le> n \<and> n \<le> 122) \<or>
     n = 170 \<or> n = 178 \<or> n = 179 \<or> n = 181 \<or> n = 185 \<or> n = 186 \<or>
     (188 \<le> n \<and> n \<le> 190) \<or> (192 \<le> n \<and> n \<le> 214) \<or> (216 \<le> n \<and> n \<le> 246) \<or> 248 \<le> n)"

text \<open>\<^verbatim>\<open>str.upper\<close> of one character; the sharp s becomes two letters.\<close>

definition upper_code :: "nat \<Rightarrow> nat list" where
  "upper_code n =
     (if 97 \<le> n \<and> n \<le> 122 then [n - 32]
      else if n = 223 then [83, 83]
      else if 224 \<le> n \<and> n \<le> 254 \<and> n \<noteq> 247 then [n - 32]
      else [n])"

definition upper :: "string \<Rightarrow> string" where
  "upper s = concat (map (\<lambda>c. map chr (upper_code (code c))) s)"

text \<open>\<^verbatim>\<open>unicodedata.normalize("NFKD", c)\<close> without its combining marks.\<close>

definition fold_code :: "nat \<Rightarrow> nat list" where
  "fold_code n =
     (if n < 160 then [n]
      else if n \<in> {160, 168, 175, 180, 184} then [32]
      else if n = 170 then [97] else if n = 186 then [111]
      else if n = 178 then [50] else if n = 179 then [51] else if n = 185 then [49]
      else if 192 \<le> n \<and> n \<le> 197 then [65] else if n = 199 then [67]
      else if 200 \<le> n \<and> n \<le> 203 then [69] else if 204 \<le> n \<and> n \<le> 207 then [73]
      else if n = 209 then [78] else if 210 \<le> n \<and> n \<le> 214 then [79]
      else if 217 \<le> n \<and> n \<le> 220 then [85] else if n = 221 then [89]
      else if 224 \<le> n \<and> n \<le> 229 then [97] else if n = 231 then [99]
      else if 232 \<le> n \<and> n \<le> 235 then [101] else if 236 \<le> n \<and> n \<le> 239 then [105]
      else if n = 241 then [110] else if 242 \<le> n \<and> n \<le> 246 then [111]
      else if 249 \<le> n \<and> n \<le> 252 then [117] else if n = 253 \<or> n = 255 then [121]
      else [n])"

definition strip_marks :: "string \<Rightarrow> string" where
  "strip_marks s = concat (map (\<lambda>c. map chr (fold_code (code c))) s)"

section \<open>Splitting and joining\<close>

text \<open>\<^verbatim>\<open>s.split()\<close>: the maximal runs of characters that are not white space.\<close>

fun split_ws :: "string \<Rightarrow> string \<Rightarrow> string list" where
  "split_ws w [] = (if w = [] then [] else [w])"
| "split_ws w (c # cs) =
     (if is_space c then (if w = [] then split_ws [] cs else w # split_ws [] cs)
      else split_ws (w @ [c]) cs)"

definition words_of :: "string \<Rightarrow> string list" where
  "words_of s = split_ws [] s"

text \<open>\<^verbatim>\<open>sep.join(xs)\<close>\<close>

fun join :: "string \<Rightarrow> string list \<Rightarrow> string" where
  "join sep [] = []"
| "join sep [x] = x"
| "join sep (x # xs) = x @ sep @ join sep xs"

text \<open>\<^verbatim>\<open>" ".join(s.split())\<close>\<close>

definition squeeze :: "string \<Rightarrow> string" where
  "squeeze s = join '' '' (words_of s)"

text \<open>\<^verbatim>\<open>s.strip()\<close>\<close>

definition strip :: "string \<Rightarrow> string" where
  "strip s = rev (dropWhile is_space (rev (dropWhile is_space s)))"

definition starts_with :: "string \<Rightarrow> string \<Rightarrow> bool" where
  "starts_with p s = (take (length p) s = p)"

text \<open>Words are non-empty and free of white space; a list of such words survives join and split.\<close>

definition word_ok :: "string \<Rightarrow> bool" where
  "word_ok w = (w \<noteq> [] \<and> (\<forall>c \<in> set w. \<not> is_space c))"

lemma is_space_blank [simp]: "is_space (CHR '' '')"
  by (simp add: is_space_def code_def)

lemma split_ws_append:
  "\<forall>c \<in> set v. \<not> is_space c \<Longrightarrow> split_ws w (v @ s) = split_ws (w @ v) s"
  by (induction v arbitrary: w) auto

lemma split_ws_words:
  assumes "\<forall>c \<in> set w. \<not> is_space c" and "v \<in> set (split_ws w s)"
  shows "word_ok v"
  using assms
proof (induction w s rule: split_ws.induct)
  case (1 w)
  then show ?case by (simp add: word_ok_def split: if_splits)
next
  case (2 w c cs)
  show ?case
  proof (cases "is_space c")
    case True
    with 2 show ?thesis by (cases "w = []") (auto simp: word_ok_def)
  next
    case False
    with 2 show ?thesis by simp
  qed
qed

lemma words_of_ok: "v \<in> set (words_of s) \<Longrightarrow> word_ok v"
  using split_ws_words [of "[]" v s] by (simp add: words_of_def)

lemma words_of_single: "word_ok x \<Longrightarrow> words_of x = [x]"
  using split_ws_append [of x "[]" "[]"] by (simp add: words_of_def word_ok_def)

lemma words_of_word_blank: "word_ok x \<Longrightarrow> words_of (x @ '' '' @ s) = x # words_of s"
  using split_ws_append [of x "[]" "'' '' @ s"] by (simp add: words_of_def word_ok_def)

lemma words_of_join:
  "list_all word_ok ws \<Longrightarrow> words_of (join '' '' ws) = ws"
proof (induction ws)
  case Nil
  show ?case by (simp add: words_of_def)
next
  case (Cons x ws)
  then show ?case
    by (cases ws) (simp_all add: words_of_single words_of_word_blank del: append_Cons)
qed

lemma words_of_squeeze [simp]: "words_of (squeeze s) = words_of s"
  by (simp add: squeeze_def words_of_join words_of_ok list_all_iff)

lemma squeeze_idem [simp]: "squeeze (squeeze s) = squeeze s"
  by (metis squeeze_def words_of_squeeze)

section \<open>Parts of names\<close>

text \<open>\<^verbatim>\<open>s.rsplit(c, 1)[-1]\<close>, \<^verbatim>\<open>s.endswith(sfx)\<close>, \<^verbatim>\<open>s.removesuffix(sfx)\<close>\<close>

definition after_last :: "char \<Rightarrow> string \<Rightarrow> string" where
  "after_last c s = rev (takeWhile (\<lambda>x. x \<noteq> c) (rev s))"

definition ends_with :: "string \<Rightarrow> string \<Rightarrow> bool" where
  "ends_with sfx s = (length sfx \<le> length s \<and> drop (length s - length sfx) s = sfx)"

definition removesuffix :: "string \<Rightarrow> string \<Rightarrow> string" where
  "removesuffix sfx s = (if ends_with sfx s then take (length s - length sfx) s else s)"

text \<open>\<^verbatim>\<open>s.split(c)\<close>, from a part already begun.\<close>

fun split_on :: "char \<Rightarrow> string \<Rightarrow> string \<Rightarrow> string list" where
  "split_on c w [] = [w]"
| "split_on c w (d # ds) = (if d = c then w # split_on c [] ds else split_on c (w @ [d]) ds)"

end
