(* ===== verification/PyValue.thy ===== *)
theory PyValue imports PyText begin

text \<open>
  The values a JSON document or a \<^verbatim>\<open>raw_metadata\<close> dictionary holds, with the operations the program
  applies to them: \<^verbatim>\<open>dict.get\<close>, truth value, \<^verbatim>\<open>str\<close>. Floating-point members are not modelled: the
  records the data plane writes and the metadata keys the engines read hold none.
\<close>

section \<open>Numbers as text\<close>

fun digits :: "nat \<Rightarrow> string" where
  "digits n = (if n < 10 then [chr (48 + n)] else digits (n div 10) @ [chr (48 + n mod 10)])"

declare digits.simps [simp del]

definition show_int :: "int \<Rightarrow> string" where
  "show_int i = (if i < 0 then CHR ''-'' # digits (nat (- i)) else digits (nat i))"

fun digits_value :: "nat \<Rightarrow> string \<Rightarrow> nat" where
  "digits_value acc [] = acc"
| "digits_value acc (c # cs) = digits_value (10 * acc + (code c - 48)) cs"

lemma is_digit_chr: "n < 10 \<Longrightarrow> is_digit (chr (48 + n))"
  by (simp add: is_digit_def code_chr)

lemma digits_digit: "c \<in> set (digits n) \<Longrightarrow> is_digit c"
proof (induction n rule: digits.induct)
  case (1 n)
  then show ?case
    by (subst (asm) (2) digits.simps) (auto simp: is_digit_chr split: if_splits)
qed

lemma digits_nonempty [simp]: "digits n \<noteq> []"
  by (subst digits.simps) simp

lemma digits_value_append: "digits_value acc (xs @ ys) = digits_value (digits_value acc xs) ys"
  by (induction xs arbitrary: acc) auto

lemma digits_value_digits: "digits_value 0 (digits n) = n"
proof (induction n rule: digits.induct)
  case (1 n)
  show ?case
  proof (cases "n < 10")
    case True
    then show ?thesis by (subst digits.simps) (simp add: code_chr)
  next
    case False
    with 1 have "digits_value 0 (digits (n div 10)) = n div 10" by simp
    with False show ?thesis
      by (subst digits.simps) (simp add: digits_value_append code_chr)
  qed
qed

lemma digits_inj: "digits m = digits n \<longleftrightarrow> m = n"
  by (metis digits_value_digits)

text \<open>\<^verbatim>\<open>int(text)\<close>: white space around, a sign, digits with single underscores between them.\<close>

fun digit_groups :: "string \<Rightarrow> bool" where
  "digit_groups [] = False"
| "digit_groups [c] = is_digit c"
| "digit_groups (c # d # r) = (is_digit c \<and> (if d = CHR ''_'' then digit_groups r else digit_groups (d # r)))"

definition int_of_text :: "string \<Rightarrow> int option" where
  "int_of_text t = (let s = strip t;
       ds = (if s \<noteq> [] \<and> (hd s = CHR ''-'' \<or> hd s = CHR ''+'') then tl s else s);
       n = int (digits_value 0 (filter is_digit ds))
     in if digit_groups ds then Some (if hd s = CHR ''-'' then - n else n) else None)"

text \<open>\<^verbatim>\<open>Decimal(text)\<close> for finite numbers: white space around, underscores, sign, digits, exponent.\<close>

definition power10 :: "int \<Rightarrow> rat" where
  "power10 x = (if 0 \<le> x then 10 ^ nat x else 1 / 10 ^ nat (- x))"

definition split_sign :: "string \<Rightarrow> bool \<times> string" where
  "split_sign s = (if s \<noteq> [] \<and> (hd s = CHR ''-'' \<or> hd s = CHR ''+'') then (hd s = CHR ''-'', tl s) else (False, s))"

definition exponent_of :: "string \<Rightarrow> int option" where
  "exponent_of q = (if q = [] then Some 0
     else if hd q \<noteq> CHR ''e'' \<and> hd q \<noteq> CHR ''E'' then None
     else case split_sign (tl q) of (neg, ds) \<Rightarrow>
       if ds = [] \<or> \<not> list_all is_digit ds then None
       else Some (if neg then - int (digits_value 0 ds) else int (digits_value 0 ds)))"

definition decimal_of_text :: "string \<Rightarrow> rat option" where
  "decimal_of_text t = (case split_sign (filter (\<lambda>c. c \<noteq> CHR ''_'') (strip t)) of (neg, r) \<Rightarrow>
     (let ip = takeWhile is_digit r; r1 = dropWhile is_digit r;
          dot = (r1 \<noteq> [] \<and> hd r1 = CHR ''.'');
          fp = (if dot then takeWhile is_digit (tl r1) else []);
          q = (if dot then dropWhile is_digit (tl r1) else r1);
          m = of_nat (digits_value 0 (ip @ fp)) / 10 ^ length fp
      in if ip @ fp = [] then None
         else map_option (\<lambda>x. (if neg then - m else m) * power10 x) (exponent_of q)))"

section \<open>JSON values\<close>

datatype jval =
    JNull
  | JBool bool
  | JInt int
  | JStr string
  | JList "jval list"
  | JObj "(string \<times> jval) list"

type_synonym metadata = "(string \<times> jval) list"

text \<open>\<^verbatim>\<open>d.get(key)\<close>: an absent key gives \<^verbatim>\<open>None\<close>.\<close>

definition get :: "metadata \<Rightarrow> string \<Rightarrow> jval" where
  "get d k = (case map_of d k of None \<Rightarrow> JNull | Some v \<Rightarrow> v)"

definition truthy :: "jval \<Rightarrow> bool" where
  "truthy v = (case v of
      JNull \<Rightarrow> False
    | JBool b \<Rightarrow> b
    | JInt i \<Rightarrow> i \<noteq> 0
    | JStr s \<Rightarrow> s \<noteq> []
    | JList xs \<Rightarrow> xs \<noteq> []
    | JObj ms \<Rightarrow> ms \<noteq> [])"

definition hex_digit :: "nat \<Rightarrow> char" where
  "hex_digit n = chr (if n < 10 then 48 + n else 87 + n)"

text \<open>\<^verbatim>\<open>repr\<close> of a string on the Latin-1 repertoire.\<close>

definition repr_char :: "char \<Rightarrow> char \<Rightarrow> string" where
  "repr_char quote c = (let n = code c in
     if c = quote \<or> n = 92 then [chr 92, c]
     else if n = 10 then [chr 92, CHR ''n'']
     else if n = 13 then [chr 92, CHR ''r'']
     else if n = 9 then [chr 92, CHR ''t'']
     else if n < 32 \<or> (127 \<le> n \<and> n \<le> 160) \<or> n = 173
       then [chr 92, CHR ''x'', hex_digit (n div 16), hex_digit (n mod 16)]
     else [c])"

definition repr_str :: "string \<Rightarrow> string" where
  "repr_str s = (let q = (if chr 39 \<in> set s \<and> chr 34 \<notin> set s then chr 34 else chr 39)
     in q # concat (map (repr_char q) s) @ [q])"

fun py_repr :: "jval \<Rightarrow> string"
  and repr_items :: "jval list \<Rightarrow> string list"
  and repr_members :: "(string \<times> jval) list \<Rightarrow> string list" where
  "py_repr JNull = ''None''"
| "py_repr (JBool b) = (if b then ''True'' else ''False'')"
| "py_repr (JInt i) = show_int i"
| "py_repr (JStr s) = repr_str s"
| "py_repr (JList xs) = ''['' @ join '', '' (repr_items xs) @ '']''"
| "py_repr (JObj ms) = ''{'' @ join '', '' (repr_members ms) @ ''}''"
| "repr_items [] = []"
| "repr_items (x # xs) = py_repr x # repr_items xs"
| "repr_members [] = []"
| "repr_members ((k, v) # ms) = (repr_str k @ '': '' @ py_repr v) # repr_members ms"

text \<open>\<^verbatim>\<open>str(value)\<close>\<close>

definition py_str :: "jval \<Rightarrow> string" where
  "py_str v = (case v of JStr s \<Rightarrow> s | _ \<Rightarrow> py_repr v)"

end
