(* ===== verification/Decimals.thy ===== *)
theory Decimals imports PyText begin

text \<open>
  Python's \<^verbatim>\<open>Decimal\<close> as an exact rational with the rounding of the operations that round. Amounts
  are \<^verbatim>\<open>Money\<close> (19 digits, 4 of them after the point), so sums and differences are exact in the
  default context of 28 digits; products and quotients go through \<open>ctx\<close>, the context rounding, and
  \<open>quantize\<close> and \<open>half_even\<close> round half to even as the default context does.
\<close>

section \<open>Rounding\<close>

text \<open>\<^verbatim>\<open>Decimal.to_integral_value()\<close> in the default rounding \<^verbatim>\<open>ROUND_HALF_EVEN\<close>.\<close>

definition half_even :: "rat \<Rightarrow> int" where
  "half_even x = (let f = \<lfloor>x\<rfloor>; r = x - of_int f
     in if r < 1 / 2 then f else if 1 / 2 < r then f + 1 else if even f then f else f + 1)"

text \<open>\<^verbatim>\<open>x.quantize(Decimal("1e-k"))\<close>\<close>

definition quantize :: "nat \<Rightarrow> rat \<Rightarrow> rat" where
  "quantize k x = of_int (half_even (x * 10 ^ k)) / 10 ^ k"

text \<open>\<^verbatim>\<open>int(x)\<close>: truncation towards zero.\<close>

definition trunc :: "rat \<Rightarrow> int" where
  "trunc x = (if x < 0 then - \<lfloor>- x\<rfloor> else \<lfloor>x\<rfloor>)"

fun ndigits :: "nat \<Rightarrow> nat" where
  "ndigits n = (if n < 10 then 1 else Suc (ndigits (n div 10)))"

declare ndigits.simps [simp del]

text \<open>The adjusted exponent of a positive value: \<open>10 ^ e \<le> x < 10 ^ (e + 1)\<close>.\<close>

definition adjusted :: "rat \<Rightarrow> int" where
  "adjusted x = (if 1 \<le> x then int (ndigits (nat \<lfloor>x\<rfloor>)) - 1
                 else - int (ndigits (nat (\<lceil>1 / x\<rceil> - 1))))"

definition precision :: int where
  "precision = 28"

text \<open>Rounding to the 28 significant digits of the default context.\<close>

definition ctx :: "rat \<Rightarrow> rat" where
  "ctx x = (if x = 0 then 0
     else let k = precision - 1 - adjusted \<bar>x\<bar>
          in if 0 \<le> k then quantize (nat k) x
             else of_int (half_even (x / 10 ^ nat (- k))) * 10 ^ nat (- k))"

definition dec_mul :: "rat \<Rightarrow> rat \<Rightarrow> rat" where
  "dec_mul a b = ctx (a * b)"

definition dec_div :: "rat \<Rightarrow> rat \<Rightarrow> rat" where
  "dec_div a b = ctx (a / b)"

section \<open>Facts about rounding\<close>

lemma half_even_of_int [simp]: "half_even (of_int n) = n"
  by (simp add: half_even_def)

lemma half_even_0 [simp]: "half_even 0 = 0"
  using half_even_of_int [of 0] by simp

lemma half_even_bounds: "\<lfloor>x\<rfloor> \<le> half_even x \<and> half_even x \<le> \<lceil>x\<rceil>"
proof -
  have "half_even x = \<lfloor>x\<rfloor>" if "x - of_int \<lfloor>x\<rfloor> < 1 / 2"
    using that by (simp add: half_even_def)
  moreover have "half_even x \<in> {\<lfloor>x\<rfloor>, \<lfloor>x\<rfloor> + 1}"
    by (simp add: half_even_def Let_def)
  moreover have "\<lfloor>x\<rfloor> + 1 = \<lceil>x\<rceil>" if "\<not> x - of_int \<lfloor>x\<rfloor> < 1 / 2"
    using that by linarith
  ultimately show ?thesis by fastforce
qed

lemma half_even_le: "x \<le> of_int n \<Longrightarrow> half_even x \<le> n"
  using half_even_bounds [of x] by linarith

lemma half_even_ge: "of_int n \<le> x \<Longrightarrow> n \<le> half_even x"
  using half_even_bounds [of x] by linarith

lemma half_even_error: "\<bar>of_int (half_even x) - x\<bar> \<le> 1 / 2"
proof -
  have "0 \<le> x - of_int \<lfloor>x\<rfloor>" and "x - of_int \<lfloor>x\<rfloor> < 1" by linarith+
  then show ?thesis by (auto simp: half_even_def Let_def abs_le_iff)
qed

lemma half_even_mono: "x \<le> y \<Longrightarrow> half_even x \<le> half_even y"
proof -
  assume le: "x \<le> y"
  show ?thesis
  proof (cases "\<lfloor>x\<rfloor> = \<lfloor>y\<rfloor>")
    case True
    with le show ?thesis by (auto simp: half_even_def Let_def)
  next
    case False
    with le have "\<lfloor>x\<rfloor> + 1 \<le> \<lfloor>y\<rfloor>" by (metis floor_mono order_le_less zless_imp_add1_zle)
    moreover have "half_even x \<le> \<lfloor>x\<rfloor> + 1" by (simp add: half_even_def Let_def)
    moreover have "\<lfloor>y\<rfloor> \<le> half_even y" using half_even_bounds [of y] by simp
    ultimately show ?thesis by linarith
  qed
qed

lemma quantize_mono: "x \<le> y \<Longrightarrow> quantize k x \<le> quantize k y"
  by (simp add: quantize_def divide_right_mono half_even_mono mult_right_mono)

lemma quantize_of_int [simp]: "quantize k (of_int n) = of_int n"
proof -
  have "half_even (of_int n * 10 ^ k) = n * 10 ^ k"
    using half_even_of_int [of "n * 10 ^ k"] by simp
  then show ?thesis by (simp add: quantize_def)
qed

lemma quantize_le: "x \<le> of_int n \<Longrightarrow> quantize k x \<le> of_int n"
  using quantize_mono [of x "of_int n" k] by simp

lemma quantize_ge: "of_int n \<le> x \<Longrightarrow> of_int n \<le> quantize k x"
  using quantize_mono [of "of_int n" x k] by simp

lemma quantize_error: "\<bar>quantize k x - x\<bar> \<le> 1 / (2 * 10 ^ k)"
proof -
  have "\<bar>quantize k x - x\<bar> = \<bar>of_int (half_even (x * 10 ^ k)) - x * 10 ^ k\<bar> / 10 ^ k"
    by (simp add: quantize_def field_simps abs_divide [symmetric])
  also have "\<dots> \<le> (1 / 2) / 10 ^ k"
    by (intro divide_right_mono half_even_error) simp
  finally show ?thesis by simp
qed

lemma floor_numeral_div [simp]:
  "\<lfloor>numeral a / numeral b :: rat\<rfloor> = numeral a div numeral b"
  using floor_divide_of_int_eq [of "numeral a" "numeral b", where ?'a = rat] by simp

lemma ndigits_le: "n < 10 ^ d \<Longrightarrow> 0 < d \<Longrightarrow> ndigits n \<le> d"
proof (induction n arbitrary: d rule: ndigits.induct)
  case (1 n)
  show ?case
  proof (cases "n < 10")
    case True
    with 1 show ?thesis by (subst ndigits.simps) simp
  next
    case False
    obtain e where d: "d = Suc e" using 1 by (cases d) auto
    have "0 < e" using 1 False d by (cases e) auto
    with 1 False d have "ndigits (n div 10) \<le> e" by (auto simp: less_mult_imp_div_less mult.commute)
    with d False show ?thesis by (subst ndigits.simps) simp
  qed
qed

lemma adjusted_le:
  assumes "x \<le> of_int n" and "n < 10 ^ 28"
  shows "adjusted x \<le> 27"
proof (cases "1 \<le> x")
  case True
  from assms have "\<lfloor>x\<rfloor> \<le> n" by linarith
  with assms(2) have "\<lfloor>x\<rfloor> < 10 ^ 28" by linarith
  then have "nat \<lfloor>x\<rfloor> < 10 ^ 28" using True by (simp add: nat_less_iff)
  then have "ndigits (nat \<lfloor>x\<rfloor>) \<le> 28" by (rule ndigits_le) simp
  with True show ?thesis by (simp add: adjusted_def)
next
  case False
  then show ?thesis by (simp add: adjusted_def)
qed

text \<open>Context rounding keeps a value between the integers it lies between.\<close>

lemma ctx_quantize_abs:
  assumes "\<bar>x\<bar> \<le> of_int n" and "n < 10 ^ 28"
  shows "\<exists>k. ctx x = quantize k x"
proof (cases "x = 0")
  case True
  then have "ctx x = quantize 0 x" by (simp add: ctx_def quantize_def)
  then show ?thesis by blast
next
  case False
  have "0 \<le> precision - 1 - adjusted \<bar>x\<bar>"
    using adjusted_le [of "\<bar>x\<bar>" n] assms by (simp add: precision_def)
  with False show ?thesis by (auto simp: ctx_def Let_def)
qed

lemma ctx_quantize:
  assumes "0 \<le> x" and "x \<le> of_int n" and "n < 10 ^ 28"
  shows "\<exists>k. ctx x = quantize k x"
  using ctx_quantize_abs [of x n] assms by simp

lemma ctx_abs_le [bound_intros]:
  assumes "\<bar>x\<bar> \<le> of_int n" and "n < 10 ^ 28"
  shows "\<bar>ctx x\<bar> \<le> of_int n"
proof -
  from ctx_quantize_abs [OF assms] obtain k where "ctx x = quantize k x" by blast
  moreover have "x \<le> of_int n" "of_int (- n) \<le> x" using assms(1) by (simp_all add: abs_le_iff)
  ultimately show ?thesis using quantize_le [of x n k] quantize_ge [of "- n" x k] by (simp add: abs_le_iff)
qed

lemma ctx_between [bound_intros]:
  assumes "0 \<le> x" and "x \<le> of_int n" and "n < 10 ^ 28"
  shows "0 \<le> ctx x \<and> ctx x \<le> of_int n"
proof -
  from ctx_quantize [OF assms] obtain k where "ctx x = quantize k x" by blast
  then show ?thesis using quantize_ge [of 0 x k] quantize_le [of x n k] assms by simp
qed

lemma ctx_ge_int:
  assumes "of_int m \<le> x" and "0 \<le> x" and "x \<le> of_int n" and "n < 10 ^ 28"
  shows "of_int m \<le> ctx x"
proof -
  from ctx_quantize [OF assms(2-4)] obtain k where "ctx x = quantize k x" by blast
  then show ?thesis using quantize_ge [OF assms(1), of k] by simp
qed

lemma ctx_of_int: "0 \<le> n \<Longrightarrow> n < 10 ^ 28 \<Longrightarrow> ctx (of_int n) = of_int n"
  using ctx_quantize [of "of_int n" n] by auto

lemma trunc_nonneg: "0 \<le> x \<Longrightarrow> 0 \<le> trunc x"
  by (simp add: trunc_def)

lemma trunc_le: "0 \<le> x \<Longrightarrow> x \<le> of_int n \<Longrightarrow> trunc x \<le> n"
  by (simp add: trunc_def) linarith

lemma trunc_mono: "x \<le> y \<Longrightarrow> trunc x \<le> trunc y"
proof -
  assume le: "x \<le> y"
  have "- \<lfloor>- x\<rfloor> \<le> \<lfloor>y\<rfloor>" if "x < 0" "\<not> y < 0"
  proof -
    have "0 \<le> \<lfloor>- x\<rfloor>" and "0 \<le> \<lfloor>y\<rfloor>" using that by simp_all
    then show ?thesis by linarith
  qed
  with le show ?thesis by (simp add: trunc_def floor_mono)
qed

lemma trunc_of_int [simp]: "trunc (of_int n) = n"
  by (simp add: trunc_def)

section \<open>The adjusted exponent\<close>

lemma adjusted_less:
  assumes "x < 10 ^ d" and "0 < d"
  shows "adjusted x \<le> int d - 1"
proof (cases "1 \<le> x")
  case True
  have "\<lfloor>x\<rfloor> < 10 ^ d" using assms(1) by (simp add: floor_less_iff)
  then have "nat \<lfloor>x\<rfloor> < 10 ^ d" using True by (simp add: nat_less_iff)
  then have "ndigits (nat \<lfloor>x\<rfloor>) \<le> d" using assms(2) by (rule ndigits_le)
  with True show ?thesis by (simp add: adjusted_def)
next
  case False
  then show ?thesis using assms(2) by (simp add: adjusted_def)
qed

lemma ndigits_ge: "0 < n \<Longrightarrow> 10 ^ (ndigits n - 1) \<le> n"
proof (induction n rule: ndigits.induct)
  case (1 n)
  show ?case
  proof (cases "n < 10")
    case True
    then show ?thesis using 1(2) by (simp add: ndigits.simps [of n])
  next
    case False
    then have "10 ^ (ndigits (n div 10) - 1) \<le> n div 10" using 1(1) by simp
    moreover have "ndigits n - 1 = Suc (ndigits (n div 10) - 1)"
      using False by (simp add: ndigits.simps [of n] ndigits.simps [of "n div 10"])
    ultimately show ?thesis by simp
  qed
qed

lemma adjusted_ge:
  assumes "1 \<le> x"
  shows "(10 :: rat) ^ nat (adjusted x) \<le> x"
proof -
  have n: "0 < nat \<lfloor>x\<rfloor>" using assms by (simp add: le_floor_iff)
  have "nat (adjusted x) = ndigits (nat \<lfloor>x\<rfloor>) - 1" using assms by (simp add: adjusted_def nat_diff_distrib)
  then have "10 ^ nat (adjusted x) \<le> nat \<lfloor>x\<rfloor>" using ndigits_ge [OF n] by simp
  then have "(of_nat (10 ^ nat (adjusted x)) :: rat) \<le> of_nat (nat \<lfloor>x\<rfloor>)" by (simp only: of_nat_le_iff)
  then have "(10 :: rat) ^ nat (adjusted x) \<le> of_nat (nat \<lfloor>x\<rfloor>)" by simp
  also have "\<dots> \<le> x" using assms by simp
  finally show ?thesis .
qed

text \<open>A value too large for the digits of the context stays large.\<close>

lemma ctx_big:
  assumes "10 ^ 26 \<le> \<bar>x\<bar>"
  shows "10 ^ 26 \<le> \<bar>ctx x\<bar>"
proof -
  let ?k = "precision - 1 - adjusted \<bar>x\<bar>"
  have x: "of_int (10 ^ 26) \<le> x \<or> x \<le> of_int (- (10 ^ 26))" using assms by auto
  show ?thesis
  proof (cases "0 \<le> ?k")
    case True
    then have "ctx x = quantize (nat ?k) x" using assms by (auto simp: ctx_def Let_def)
    with x quantize_ge [of "10 ^ 26" x "nat ?k"] quantize_le [of x "- (10 ^ 26)" "nat ?k"] show ?thesis by auto
  next
    case False
    let ?j = "nat (- ?k)"
    have "nat (adjusted \<bar>x\<bar>) = 27 + ?j" using False by (simp add: precision_def)
    moreover have "1 \<le> \<bar>x\<bar>" using assms by simp
    ultimately have "(10 :: rat) ^ 27 * 10 ^ ?j \<le> \<bar>x\<bar>" using adjusted_ge [of "\<bar>x\<bar>"] by (simp only: power_add)
    moreover have "(10 :: rat) ^ 26 * 10 ^ ?j \<le> 10 ^ 27 * 10 ^ ?j" by simp
    ultimately have "10 ^ 26 * 10 ^ ?j \<le> \<bar>x\<bar>" by linarith
    have p: "1 \<le> (10 :: rat) ^ ?j" by simp
    from \<open>10 ^ 26 * 10 ^ ?j \<le> \<bar>x\<bar>\<close>
    have "of_int (10 ^ 26) \<le> x / 10 ^ ?j \<or> x / 10 ^ ?j \<le> of_int (- (10 ^ 26))"
      by (cases "0 \<le> x") (simp_all add: field_simps)
    then have "10 ^ 26 \<le> half_even (x / 10 ^ ?j) \<or> half_even (x / 10 ^ ?j) \<le> - (10 ^ 26)"
      using half_even_ge half_even_le by blast
    then have "10 ^ 26 \<le> \<bar>half_even (x / 10 ^ ?j)\<bar>" by linarith
    then have "of_int (10 ^ 26) \<le> (of_int \<bar>half_even (x / 10 ^ ?j)\<bar> :: rat)" by (simp only: of_int_le_iff)
    then have h: "(10 :: rat) ^ 26 \<le> \<bar>of_int (half_even (x / 10 ^ ?j))\<bar>" by simp
    have "ctx x = of_int (half_even (x / 10 ^ ?j)) * 10 ^ ?j" using False assms by (auto simp: ctx_def Let_def)
    then have "\<bar>ctx x\<bar> = \<bar>of_int (half_even (x / 10 ^ ?j))\<bar> * 10 ^ ?j" by (simp add: abs_mult)
    also have "\<dots> \<ge> \<bar>of_int (half_even (x / 10 ^ ?j))\<bar> * 1" using p by (intro mult_left_mono) simp_all
    finally show ?thesis using h by simp
  qed
qed

lemma ctx_nonneg: "0 \<le> x \<Longrightarrow> 0 \<le> ctx x"
  using quantize_ge [of 0 x] half_even_ge [of 0] by (simp add: ctx_def Let_def)

lemma ctx_ge:
  assumes "of_int m \<le> x" and "0 \<le> m" and "m \<le> 10 ^ 26"
  shows "of_int m \<le> ctx x"
proof (cases "x \<le> of_int (10 ^ 26)")
  case True
  have "0 \<le> x" using assms(1,2) by (meson of_int_0_le_iff order_trans)
  then show ?thesis by (rule ctx_ge_int [OF assms(1) _ True]) simp
next
  case False
  then have "10 ^ 26 \<le> \<bar>ctx x\<bar>" by (intro ctx_big) simp
  moreover have "0 \<le> ctx x" using False by (intro ctx_nonneg) simp
  moreover have "(of_int m :: rat) \<le> of_int (10 ^ 26)" using assms(3) by (simp only: of_int_le_iff)
  ultimately show ?thesis by simp
qed

text \<open>A fifth survives the context rounding of a quotient.\<close>

lemma ctx_ge_fifth:
  assumes "1 / 5 \<le> x"
  shows "1 / 5 \<le> ctx x"
proof (cases "1 \<le> x")
  case True
  then show ?thesis using ctx_ge [of 1 x] by simp
next
  case False
  with assms have x: "0 < x" "x < 1" by simp_all
  have "1 < 1 / x" "1 / x \<le> 5" using assms x by (simp_all add: field_simps)
  then have "nat (\<lceil>1 / x\<rceil> - 1) < 10" by linarith
  then have "adjusted x = - 1"
    using x by (simp add: adjusted_def ndigits.simps [of "nat (\<lceil>1 / x\<rceil> - 1)"])
  then have "ctx x = quantize 28 x"
    using x by (simp add: ctx_def precision_def)
  moreover have "quantize 28 (1 / 5) = (1 / 5 :: rat)"
    using half_even_of_int [of "2 * 10 ^ 27"] by (simp add: quantize_def)
  ultimately show ?thesis using quantize_mono [OF assms, of 28] by simp
qed

end
