(* ===== verification/Domain.thy ===== *)
theory Domain imports PyValue Decimals begin

text \<open>
  The document model of \<^verbatim>\<open>common/domain.py\<close>: enumerations as datatypes, the frozen pydantic classes
  as records, their validators as checks that return an error. Field names are the source's, with
  a prefix where Isabelle reserves the name (\<open>doc_type\<close> for \<^verbatim>\<open>type\<close>, \<open>doc_id\<close> for \<^verbatim>\<open>id\<close>, and so on).
\<close>

section \<open>Identifiers\<close>

text \<open>\<^verbatim>\<open>str(uuid)\<close>: 32 hexadecimal digits in groups of 8, 4, 4, 4 and 12.\<close>

definition hex_text :: "nat \<Rightarrow> uuid \<Rightarrow> nat \<Rightarrow> string" where
  "hex_text n u low = map (\<lambda>i. hex_digit (unat (drop_bit (4 * (low + n - 1 - i)) u) mod 16)) [0..<n]"

definition uuid_text :: "uuid \<Rightarrow> string" where
  "uuid_text u = hex_text 8 u 24 @ ''-'' @ hex_text 4 u 20 @ ''-'' @ hex_text 4 u 16 @ ''-''
     @ hex_text 4 u 12 @ ''-'' @ hex_text 12 u 0"

section \<open>Enumerations\<close>

datatype document_type =
    ORDER
  | ORDER_CHANGE
  | KITCHEN_ORDER
  | PRE_BILL
  | MANAGEMENT_DOCUMENT
  | COMMERCIAL_DOCUMENT
  | SHIFT_END_REPORT
  | INVOICE
  | CONFORMING_COPY
  | CANCELLATION
  | REFUND
  | REPRINT
  | PAYMENT
  | DEVICE_RESPONSE
  | UNKNOWN

definition non_sale_document_types :: "document_type set" where
  "non_sale_document_types = {SHIFT_END_REPORT, INVOICE}"

datatype order_event_type =
    ORDER_CREATED
  | ITEM_ADDED
  | ITEM_REMOVED
  | EV_QUANTITY_CHANGED
  | EV_PRICE_CHANGED
  | DISCOUNT_APPLIED
  | DISCOUNT_REMOVED
  | ORDER_VOIDED
  | TABLE_CHANGED
  | ORDER_SPLIT
  | ORDER_MERGED
  | PRE_BILL_PRINTED
  | FISCAL_DOCUMENT_ISSUED
  | PAYMENT_RECORDED
  | COPY_PRINTED
  | ORDER_CLOSED

datatype alert_status = OPEN | UNDER_REVIEW | ALERT_CONFIRMED | FALSE_POSITIVE | JUSTIFIED | CLOSED

datatype alert_severity = LOW | MEDIUM | HIGH | CRITICAL

datatype evidence_level = CONFIRMED | INFERRED | UNKNOWN_EVIDENCE

section \<open>Records\<close>

record source_span =
  direction :: string
  span_offset :: nat
  span_length :: nat
  frame_id :: "string option"

record document_line =
  sequence :: nat
  course_code :: "string option"
  item_code :: "string option"
  description :: "string option"
  quantity :: "rat option"
  unit_price :: "rat option"
  original_unit_price :: "rat option"
  modified_unit_price :: "rat option"
  discount :: "rat option"
  surcharge :: "rat option"
  tax_rate :: "rat option"
  line_total :: "rat option"
  line_state :: "string option"
  cancelled :: bool
  removed :: bool
  raw_text :: "string option"
  line_source :: "source_span option"

record payment_record =
  pay_method :: "string option"
  amount :: rat
  currency :: string
  pay_evidence :: evidence_level

record receipt_header =
  merchant_name :: "string option"
  legal_name :: "string option"
  address_lines :: "string list"
  phone :: "string option"
  tax_code :: "string option"
  vat_number :: "string option"
  header_evidence :: string

record document =
  doc_id :: uuid
  source_device_id :: string
  source_session_id :: "string option"
  source_job_id :: string
  doc_type :: document_type
  subtype :: string
  external_document_code :: "string option"
  external_document_code_suffix :: "string option"
  commercial_reference_code :: "string option"
  order_code :: "string option"
  table_code :: "string option"
  operator_code :: "string option"
  terminal_code :: "string option"
  header :: "receipt_header option"
  application_timestamp :: "timestamp option"
  rch_footer_timestamp :: "timestamp option"
  rch_serial_number :: "string option"
  document_timestamp :: "timestamp option"
  captured_at :: timestamp
  gross_total :: "rat option"
  net_total :: "rat option"
  discount_total :: "rat option"
  tax_total :: "rat option"
  doc_status :: string
  normalized_text :: string
  encoding :: "string option"
  parser_name :: string
  parser_version :: string
  parse_confidence :: nat
  doc_evidence :: evidence_level
  source_manifest_sha256 :: string
  source_payload_sha256 :: string
  source_path :: string
  complete :: bool
  warnings :: "string list"
  doc_lines :: "document_line list"
  payments :: "payment_record list"
  raw_metadata :: metadata

record order_event =
  event_id :: uuid
  event_order_id :: uuid
  event_type :: order_event_type
  occurred_at :: timestamp
  source_document_id :: "uuid option"
  event_operator_code :: "string option"
  details :: metadata
  event_previous_hash :: "string option"
  event_record_hash :: "string option"

record correlation_result =
  cr_transaction_id :: uuid
  document_ids :: "uuid list"
  cr_score :: int
  algorithm_version :: string
  matched_criteria :: "string list"
  unmatched_criteria :: "string list"
  explanation :: string

section \<open>Validators\<close>

text \<open>
  What building a result raises: the refusals of the frozen models, and \<open>PercentOverflow\<close>, the
  \<^verbatim>\<open>decimal.InvalidOperation\<close> of a percentage that does not fit the context at four decimal places.
\<close>

datatype validation_error =
    ScoreOutOfRange
  | FewerThanTwoDocuments
  | EmptyTransaction
  | EmptyReceiptHeader
  | ReceiptHeaderField
  | NotASha256
  | MoneyOutOfRange
  | PercentOverflow

text \<open>\<^verbatim>\<open>CorrelationResult\<close>: the score bounds and \<^verbatim>\<open>at_least_two_documents\<close>.\<close>

definition make_correlation_result ::
    "uuid \<Rightarrow> uuid list \<Rightarrow> int \<Rightarrow> string \<Rightarrow> string list \<Rightarrow> string list \<Rightarrow> string
     \<Rightarrow> validation_error + correlation_result" where
  "make_correlation_result tid ids score version matched unmatched expl =
     (if score < 0 \<or> 100 < score then Inl ScoreOutOfRange
      else if length (remdups ids) < 2 then Inl FewerThanTwoDocuments
      else Inr \<lparr>cr_transaction_id = tid, document_ids = ids, cr_score = score,
                algorithm_version = version, matched_criteria = matched,
                unmatched_criteria = unmatched, explanation = expl\<rparr>)"

text \<open>\<^verbatim>\<open>NormalizedDocument.sha256_hex\<close>: lower-cased, 64 hexadecimal digits.\<close>

definition lower :: "string \<Rightarrow> string" where
  "lower s = map (\<lambda>c. let n = code c in
     if 65 \<le> n \<and> n \<le> 90 then chr (n + 32)
     else if 192 \<le> n \<and> n \<le> 222 \<and> n \<noteq> 215 then chr (n + 32) else c) s"

definition is_hex_lower :: "char \<Rightarrow> bool" where
  "is_hex_lower c = (is_digit c \<or> (97 \<le> code c \<and> code c \<le> 102))"

definition sha256_hex :: "string \<Rightarrow> validation_error + string" where
  "sha256_hex value = (let normalized = lower value in
     if length normalized \<noteq> 64 \<or> list_ex (\<lambda>c. \<not> is_hex_lower c) normalized
     then Inl NotASha256 else Inr normalized)"

text \<open>
  \<^verbatim>\<open>ReceiptHeader\<close>: optional texts are stripped and an empty text is dropped; the bounds of the
  fields are checked; a header without any field is rejected.
\<close>

definition strip_optional_text :: "string option \<Rightarrow> string option" where
  "strip_optional_text v = (case v of None \<Rightarrow> None
     | Some s \<Rightarrow> (if strip s = [] then None else Some (strip s)))"

definition text_within :: "nat \<Rightarrow> string option \<Rightarrow> bool" where
  "text_within n v = (case v of None \<Rightarrow> True | Some s \<Rightarrow> length s \<le> n)"

definition make_receipt_header ::
    "string option \<Rightarrow> string option \<Rightarrow> string list \<Rightarrow> string option \<Rightarrow> string option
     \<Rightarrow> string option \<Rightarrow> string \<Rightarrow> validation_error + receipt_header" where
  "make_receipt_header merchant legal addresses ph tax vat ev =
     (let h = \<lparr>merchant_name = strip_optional_text merchant,
               legal_name = strip_optional_text legal,
               address_lines = map strip addresses,
               phone = strip_optional_text ph,
               tax_code = strip_optional_text tax,
               vat_number = strip_optional_text vat,
               header_evidence = ev\<rparr>
      in if \<not> text_within 191 (merchant_name h) \<or> \<not> text_within 191 (legal_name h)
            \<or> list_ex (\<lambda>l. l = [] \<or> 191 < length l) (address_lines h) \<or> 8 < length (address_lines h)
            \<or> \<not> text_within 64 (phone h) \<or> \<not> text_within 32 (tax_code h)
            \<or> \<not> text_within 32 (vat_number h)
            \<or> ev \<notin> {''RCH_PRINTED_HEADER'', ''DEVICE_METADATA_CONFIGURED''}
         then Inl ReceiptHeaderField
         else if merchant_name h = None \<and> legal_name h = None \<and> address_lines h = []
            \<and> phone h = None \<and> tax_code h = None \<and> vat_number h = None
         then Inl EmptyReceiptHeader else Inr h)"

text \<open>
  \<^verbatim>\<open>Money\<close>: at most 19 digits, 4 of them after the point, which leaves 15 before it. The constructors of
  lines, payments and documents check it for each amount that is present; the document also checks
  and lower-cases its two digests.
\<close>

definition money_ok :: "rat \<Rightarrow> bool" where
  "money_ok x = (of_int \<lfloor>x * 10 ^ 4\<rfloor> = x * 10 ^ 4 \<and> \<bar>x\<bar> < 10 ^ 15)"

definition moneys_ok :: "rat option list \<Rightarrow> bool" where
  "moneys_ok vs = list_all (\<lambda>v. case v of None \<Rightarrow> True | Some x \<Rightarrow> money_ok x) vs"

definition make_line :: "document_line \<Rightarrow> validation_error + document_line" where
  "make_line l = (if moneys_ok [quantity l, unit_price l, original_unit_price l, modified_unit_price l,
      discount l, surcharge l, tax_rate l, line_total l] then Inr l else Inl MoneyOutOfRange)"

definition make_payment :: "payment_record \<Rightarrow> validation_error + payment_record" where
  "make_payment p = (if money_ok (amount p) then Inr p else Inl MoneyOutOfRange)"

definition make_document :: "document \<Rightarrow> validation_error + document" where
  "make_document d = (if \<not> moneys_ok [gross_total d, net_total d, discount_total d, tax_total d] then Inl MoneyOutOfRange
     else if 100 < parse_confidence d then Inl ScoreOutOfRange
     else attempt (sha256_hex (source_manifest_sha256 d)) (\<lambda>m. attempt (sha256_hex (source_payload_sha256 d)) (\<lambda>p.
       Inr (d\<lparr>source_manifest_sha256 := m, source_payload_sha256 := p\<rparr>))))"

section \<open>A document to build examples from\<close>

definition blank_line :: document_line where
  "blank_line = \<lparr>sequence = 1, course_code = None, item_code = None, description = None,
     quantity = None, unit_price = None, original_unit_price = None, modified_unit_price = None,
     discount = None, surcharge = None, tax_rate = None, line_total = None, line_state = None,
     cancelled = False, removed = False, raw_text = None, line_source = None\<rparr>"

definition blank_document :: document where
  "blank_document = \<lparr>doc_id = 0, source_device_id = ''d'', source_session_id = None,
     source_job_id = ''j'', doc_type = UNKNOWN, subtype = [], external_document_code = None,
     external_document_code_suffix = None, commercial_reference_code = None, order_code = None,
     table_code = None, operator_code = None, terminal_code = None, header = None,
     application_timestamp = None, rch_footer_timestamp = None, rch_serial_number = None,
     document_timestamp = None, captured_at = 0, gross_total = None, net_total = None,
     discount_total = None, tax_total = None, doc_status = ''COMPLETE'', normalized_text = [],
     encoding = None, parser_name = [], parser_version = [], parse_confidence = 0,
     doc_evidence = UNKNOWN_EVIDENCE, source_manifest_sha256 = [], source_payload_sha256 = [],
     source_path = [], complete = True, warnings = [], doc_lines = [], payments = [],
     raw_metadata = []\<rparr>"

end
