(* ===== verification/Lines.thy ===== *)
theory Lines imports Domain begin

text \<open>
  The line level of \<^verbatim>\<open>correlation/engine.py\<close>: normalised text, the identity of a line, aggregation of
  a document's lines by that identity, the semantic diff of two documents, and the application of
  signed change tickets to an order.
\<close>

section \<open>Normalised text\<close>

text \<open>\<^verbatim>\<open>_normalise\<close>: accents removed, upper case, white space squeezed; empty text counts as absent.\<close>

definition normalise :: "string option \<Rightarrow> string option" where
  "normalise v = (case v of None \<Rightarrow> None
     | Some s \<Rightarrow> (let r = squeeze (upper (strip_marks s)) in if r = [] then None else Some r))"

definition document_time :: "document \<Rightarrow> timestamp" where
  "document_time d = (case document_timestamp d of Some t \<Rightarrow> t | None \<Rightarrow> captured_at d)"

text \<open>\<^verbatim>\<open>_total\<close>\<close>

definition total :: "document \<Rightarrow> rat option" where
  "total d = (case gross_total d of Some g \<Rightarrow> Some g | None \<Rightarrow> net_total d)"

definition line_key :: "document_line \<Rightarrow> nat \<Rightarrow> string" where
  "line_key line ordinal =
     (case normalise (item_code line) of
        Some c \<Rightarrow> ''CODE:'' @ c
      | None \<Rightarrow> (case normalise (description line) of
            Some d \<Rightarrow> ''DESC:'' @ d
          | None \<Rightarrow> ''POSITION:'' @ digits ordinal))"

definition effective_unit_price :: "document_line \<Rightarrow> rat option" where
  "effective_unit_price line = (case modified_unit_price line of
      Some p \<Rightarrow> Some p | None \<Rightarrow> unit_price line)"

section \<open>Aggregation\<close>

record aggregate =
  agg_description :: "string option"
  agg_quantity :: rat
  agg_unit_price :: "rat option"
  agg_discount :: "rat option"
  agg_total :: "rat option"
  agg_source :: "source_span option"

text \<open>\<^verbatim>\<open>line.quantity if line.quantity is not None else Decimal("1")\<close>\<close>

definition line_quantity :: "document_line \<Rightarrow> rat" where
  "line_quantity line = (case quantity line of Some q \<Rightarrow> q | None \<Rightarrow> 1)"

definition first_aggregate :: "document_line \<Rightarrow> aggregate" where
  "first_aggregate line = \<lparr>agg_description = description line, agg_quantity = line_quantity line,
     agg_unit_price = effective_unit_price line, agg_discount = discount line,
     agg_total = line_total line, agg_source = line_source line\<rparr>"

definition merge_line :: "aggregate \<Rightarrow> document_line \<Rightarrow> aggregate" where
  "merge_line a line = a\<lparr>
     agg_quantity := agg_quantity a + line_quantity line,
     agg_total := (case (agg_total a, line_total line) of
         (Some t, Some u) \<Rightarrow> Some (t + u)
       | (None, Some u) \<Rightarrow> Some u
       | (t, None) \<Rightarrow> t),
     agg_unit_price := (if agg_unit_price a \<noteq> effective_unit_price line
       then effective_unit_price line else agg_unit_price a)\<rparr>"

definition add_line ::
    "(string, aggregate) dict \<Rightarrow> nat \<Rightarrow> document_line \<Rightarrow> (string, aggregate) dict" where
  "add_line d ordinal line = (let key = line_key line ordinal in
     case map_of d key of
       None \<Rightarrow> d @ [(key, first_aggregate line)]
     | Some a \<Rightarrow> AList.update key (merge_line a line) d)"

fun aggregate_from ::
    "nat \<Rightarrow> (string, aggregate) dict \<Rightarrow> document_line list \<Rightarrow> (string, aggregate) dict" where
  "aggregate_from n d [] = d"
| "aggregate_from n d (l # ls) = aggregate_from (Suc n) (add_line d n l) ls"

definition aggregate_lines :: "document_line list \<Rightarrow> (string, aggregate) dict" where
  "aggregate_lines ls = aggregate_from 0 [] ls"

text \<open>\<^verbatim>\<open>set(_aggregate_lines(lines))\<close>: the line identities of a document.\<close>

definition line_keys :: "document_line list \<Rightarrow> string list" where
  "line_keys ls = map fst (aggregate_lines ls)"

section \<open>Semantic diff\<close>

datatype line_change_type =
    ADDED | REMOVED | QUANTITY_CHANGED | PRICE_CHANGED | DISCOUNT_CHANGED | UNCHANGED

record line_change =
  item_key :: string
  chg_description :: "string option"
  change_type :: line_change_type
  before_quantity :: "rat option"
  after_quantity :: "rat option"
  before_unit_price :: "rat option"
  after_unit_price :: "rat option"
  before_discount :: "rat option"
  after_discount :: "rat option"
  before_total :: "rat option"
  after_total :: "rat option"
  before_source :: "source_span option"
  after_source :: "source_span option"

fun classify_change :: "aggregate option \<Rightarrow> aggregate option \<Rightarrow> line_change_type" where
  "classify_change None new = ADDED"
| "classify_change (Some old) None = REMOVED"
| "classify_change (Some old) (Some new) =
     (if agg_quantity old \<noteq> agg_quantity new then QUANTITY_CHANGED
      else if agg_unit_price old \<noteq> agg_unit_price new then PRICE_CHANGED
      else if agg_discount old \<noteq> agg_discount new then DISCOUNT_CHANGED
      else UNCHANGED)"

definition field :: "('a \<Rightarrow> 'b option) \<Rightarrow> 'a option \<Rightarrow> 'b option" where
  "field f v = (case v of None \<Rightarrow> None | Some a \<Rightarrow> f a)"

definition make_change :: "string \<Rightarrow> aggregate option \<Rightarrow> aggregate option \<Rightarrow> line_change" where
  "make_change key old new = \<lparr>
     item_key = key,
     chg_description = field agg_description (case new of None \<Rightarrow> old | Some n \<Rightarrow> Some n),
     change_type = classify_change old new,
     before_quantity = map_option agg_quantity old,
     after_quantity = map_option agg_quantity new,
     before_unit_price = field agg_unit_price old,
     after_unit_price = field agg_unit_price new,
     before_discount = field agg_discount old,
     after_discount = field agg_discount new,
     before_total = field agg_total old,
     after_total = field agg_total new,
     before_source = field agg_source old,
     after_source = field agg_source new\<rparr>"

definition compare_document_lines ::
    "document_line list \<Rightarrow> document_line list \<Rightarrow> line_change list" where
  "compare_document_lines before after =
     (let left = aggregate_lines before; right = aggregate_lines after
      in map (\<lambda>key. make_change key (map_of left key) (map_of right key))
             (sorted_set (map fst left @ map fst right)))"

section \<open>Change tickets\<close>

text \<open>\<^verbatim>\<open>value or default\<close> for an optional \<^verbatim>\<open>Decimal\<close>: zero is false in Python.\<close>

definition or_else :: "rat option \<Rightarrow> rat \<Rightarrow> rat" where
  "or_else v d = (case v of None \<Rightarrow> d | Some q \<Rightarrow> if q = 0 then d else q)"

definition or_opt :: "string option \<Rightarrow> string option \<Rightarrow> string option" where
  "or_opt a b = (case a of None \<Rightarrow> b | Some s \<Rightarrow> if s = [] then b else Some s)"

text \<open>The residual order: the keys in their order and the line stored under each of them.\<close>

record order_state =
  ord_keys :: "string list"
  ord_line :: "string \<Rightarrow> document_line option"

definition empty_order :: order_state where
  "empty_order = \<lparr>ord_keys = [], ord_line = (\<lambda>_. None)\<rparr>"

definition load_line :: "order_state \<Rightarrow> nat \<Rightarrow> document_line \<Rightarrow> order_state" where
  "load_line s ordinal line = (let key = line_key line ordinal in
     case ord_line s key of
       None \<Rightarrow> s\<lparr>ord_keys := ord_keys s @ [key], ord_line := (ord_line s)(key \<mapsto> line)\<rparr>
     | Some current \<Rightarrow> s\<lparr>ord_line := (ord_line s)(key \<mapsto>
         current\<lparr>quantity := Some (or_else (quantity current) 1 + or_else (quantity line) 1)\<rparr>)\<rparr>)"

fun load_lines :: "nat \<Rightarrow> order_state \<Rightarrow> document_line list \<Rightarrow> order_state" where
  "load_lines n s [] = s"
| "load_lines n s (l # ls) = load_lines (Suc n) (load_line s n l) ls"

definition changed_line :: "document_line \<Rightarrow> document_line \<Rightarrow> rat \<Rightarrow> document_line" where
  "changed_line current delta residual = current\<lparr>
     quantity := Some residual,
     line_total := (case effective_unit_price current of
         Some p \<Rightarrow> Some (dec_mul p residual) | None \<Rightarrow> line_total current),
     line_state := Some ''CHANGED'',
     raw_text := or_opt (raw_text delta) (raw_text current),
     line_source := (case line_source delta of None \<Rightarrow> line_source current | Some x \<Rightarrow> Some x)\<rparr>"

definition apply_delta :: "order_state \<Rightarrow> nat \<Rightarrow> document_line \<Rightarrow> order_state" where
  "apply_delta s ordinal delta =
     (let key = line_key delta ordinal;
          delta_quantity = or_else (quantity delta) 0;
          explicitly_removed = removed delta \<or> cancelled delta
      in case ord_line s key of
           None \<Rightarrow>
             if explicitly_removed \<or> delta_quantity \<le> 0 then s
             else s\<lparr>ord_keys := ord_keys s @ [key], ord_line := (ord_line s)(key \<mapsto> delta)\<rparr>
         | Some current \<Rightarrow>
             let residual = or_else (quantity current) 1 + delta_quantity
             in if explicitly_removed \<or> residual \<le> 0
                then s\<lparr>ord_keys := remove1 key (ord_keys s), ord_line := (ord_line s)(key := None)\<rparr>
                else s\<lparr>ord_line := (ord_line s)(key \<mapsto> changed_line current delta residual)\<rparr>)"

fun apply_deltas :: "nat \<Rightarrow> order_state \<Rightarrow> document_line list \<Rightarrow> order_state" where
  "apply_deltas n s [] = s"
| "apply_deltas n s (d # ds) = apply_deltas (Suc n) (apply_delta s n d) ds"

definition order_result :: "order_state \<Rightarrow> document_line list" where
  "order_result s = List.map_filter (ord_line s) (ord_keys s)"

definition apply_order_change_lines ::
    "document_line list \<Rightarrow> document_line list \<Rightarrow> document_line list" where
  "apply_order_change_lines before deltas =
     order_result (apply_deltas 0 (load_lines 0 empty_order before) deltas)"

section \<open>Counters printed on documents\<close>

text \<open>The maximal run of digits at the end of a text, and what precedes it.\<close>

definition digit_suffix :: "string \<Rightarrow> string" where
  "digit_suffix s = rev (takeWhile is_digit (rev s))"

definition before_digits :: "string \<Rightarrow> string" where
  "before_digits s = rev (dropWhile is_digit (rev s))"

text \<open>\<^verbatim>\<open>numeric_suffix\<close>: \<^verbatim>\<open>re.fullmatch(r"(.*?)(\d+)", value.strip())\<close>; a dot does not match a newline.\<close>

definition numeric_suffix :: "string option \<Rightarrow> (string \<times> nat) option" where
  "numeric_suffix value = (case value of None \<Rightarrow> None
     | Some v \<Rightarrow> (let t = strip v in
         if v = [] \<or> digit_suffix t = [] \<or> chr 10 \<in> set (before_digits t) then None
         else Some (before_digits t, digits_value 0 (digit_suffix t))))"

text \<open>\<^verbatim>\<open>_printed_counter_suffix\<close>: one to eight final digits after the start, a hyphen or a slash.\<close>

definition printed_counter_suffix :: "string option \<Rightarrow> string option" where
  "printed_counter_suffix value = (case normalise value of None \<Rightarrow> None
     | Some s \<Rightarrow> (let suffix = digit_suffix s; rest = before_digits s in
         if suffix \<noteq> [] \<and> length suffix \<le> 8 \<and> (rest = [] \<or> last rest \<in> {CHR ''-'', CHR ''/''})
         then Some suffix else None))"

section \<open>Normalisation is idempotent\<close>

definition fold_upper :: "nat \<Rightarrow> nat list" where
  "fold_upper n = concat (map upper_code (fold_code n))"

text \<open>A character the folding leaves alone.\<close>

definition folded :: "char \<Rightarrow> bool" where
  "folded c = (fold_upper (code c) = [code c])"

lemma fold_upper_high:
  "list_all (\<lambda>n. list_all (\<lambda>m. fold_upper m = [m] \<and> m < 256) (fold_upper n)) [160..<256]"
  by (simp add: fold_upper_def fold_code_def upper_code_def upt_rec_numeral)

lemma fold_upper_low:
  "n < 160 \<Longrightarrow> list_all (\<lambda>m. fold_upper m = [m] \<and> m < 256) (fold_upper n)"
  by (auto simp: fold_upper_def fold_code_def upper_code_def)

lemma fold_upper_stable:
  assumes "n < 256" and "m \<in> set (fold_upper n)"
  shows "fold_upper m = [m] \<and> m < 256"
proof (cases "n < 160")
  case True
  then show ?thesis using fold_upper_low [of n] assms(2) by (auto simp only: list_all_iff)
next
  case False
  then have "n \<in> set [160..<256]" unfolding set_upt using assms(1) by (simp add: not_less)
  then show ?thesis using fold_upper_high assms(2) unfolding list_all_iff by blast
qed

lemma fold_code_small: "n < 256 \<Longrightarrow> list_all (\<lambda>m. m < 256) (fold_code n)"
  unfolding fold_code_def by simp

lemma upper_single: "n < 256 \<Longrightarrow> upper (map chr (fold_code n)) = map chr (fold_upper n)"
  using fold_code_small [of n]
  by (simp add: upper_def fold_upper_def map_concat comp_def code_chr list_all_iff cong: map_cong)

lemma upper_append: "upper (s @ t) = upper s @ upper t"
  by (simp add: upper_def)

lemma upper_strip_marks: "upper (strip_marks s) = concat (map (\<lambda>c. map chr (fold_upper (code c))) s)"
  by (induction s)
    (simp_all add: strip_marks_def upper_append upper_single code_less, simp add: upper_def)

lemma folded_upper_strip_marks: "c \<in> set (upper (strip_marks s)) \<Longrightarrow> folded c"
  using fold_upper_stable [OF code_less]
  by (force simp: upper_strip_marks folded_def code_chr)

lemma folded_fixed: "\<forall>c \<in> set s. folded c \<Longrightarrow> upper (strip_marks s) = s"
  by (induction s) (auto simp: upper_strip_marks folded_def)

lemma set_split_ws: "w' \<in> set (split_ws w s) \<Longrightarrow> set w' \<subseteq> set w \<union> set s"
  by (induction w s rule: split_ws.induct) (auto split: if_splits)

lemma set_join_blank: "set (join '' '' ws) \<subseteq> insert (CHR '' '') (\<Union>(set ` set ws))"
  by (induction "'' ''" ws rule: join.induct) auto

lemma set_squeeze: "set (squeeze s) \<subseteq> insert (CHR '' '') (set s)"
  using set_join_blank [of "words_of s"] set_split_ws [of _ "[]" s]
  by (fastforce simp: squeeze_def words_of_def)

lemma folded_blank [simp]: "folded (CHR '' '')"
  by (simp add: folded_def fold_upper_def fold_code_def upper_code_def code_def)

lemma normalise_Some:
  assumes "normalise v = Some r"
  shows "squeeze r = r" and "r \<noteq> []" and "\<forall>c \<in> set r. folded c"
  using assms set_squeeze folded_upper_strip_marks
  by (fastforce simp: normalise_def Let_def split: option.splits if_splits)+

lemma normalise_idem [simp]: "normalise (normalise v) = normalise v"
proof (cases "normalise v")
  case None
  then show ?thesis by (simp add: normalise_def)
next
  case (Some r)
  then show ?thesis using normalise_Some [OF Some] by (simp add: normalise_def folded_fixed)
qed

section \<open>Aggregation adds up\<close>

text \<open>The identity and quantity every line contributes, and the quantity an aggregation holds.\<close>

fun keyed :: "nat \<Rightarrow> document_line list \<Rightarrow> (string \<times> rat) list" where
  "keyed n [] = []"
| "keyed n (l # ls) = (line_key l n, line_quantity l) # keyed (Suc n) ls"

definition quantity_of :: "string \<Rightarrow> (string \<times> rat) list \<Rightarrow> rat" where
  "quantity_of k kq = sum_list (map snd (filter (\<lambda>p. fst p = k) kq))"

definition held :: "(string, aggregate) dict \<Rightarrow> string \<Rightarrow> rat" where
  "held d k = (case map_of d k of None \<Rightarrow> 0 | Some a \<Rightarrow> agg_quantity a)"

lemma agg_quantity_merge [simp]: "agg_quantity (merge_line a l) = agg_quantity a + line_quantity l"
  by (simp add: merge_line_def)

lemma agg_quantity_first [simp]: "agg_quantity (first_aggregate l) = line_quantity l"
  by (simp add: first_aggregate_def)

lemma map_of_add_line:
  "map_of (add_line d n l) = (map_of d)(line_key l n \<mapsto>
     (case map_of d (line_key l n) of None \<Rightarrow> first_aggregate l | Some a \<Rightarrow> merge_line a l))"
  by (auto simp: add_line_def Let_def update_conv' map_add_def fun_eq_iff split: option.splits)

lemma distinct_add_line: "distinct (map fst d) \<Longrightarrow> distinct (map fst (add_line d n l))"
  by (auto simp: add_line_def Let_def distinct_update map_of_eq_None_iff split: option.splits)

lemma held_add_line:
  "held (add_line d n l) k = held d k + (if k = line_key l n then line_quantity l else 0)"
  by (auto simp: held_def map_of_add_line split: option.splits)

lemma keys_add_line: "fst ` set (add_line d n l) = insert (line_key l n) (fst ` set d)"
  by (simp add: dom_map_of_conv_image_fst [symmetric] map_of_add_line)

lemma distinct_aggregate_from:
  "distinct (map fst d) \<Longrightarrow> distinct (map fst (aggregate_from n d ls))"
  by (induction n d ls rule: aggregate_from.induct) (auto simp: distinct_add_line)

lemma held_aggregate_from: "held (aggregate_from n d ls) k = held d k + quantity_of k (keyed n ls)"
  by (induction n d ls rule: aggregate_from.induct) (auto simp: held_add_line quantity_of_def)

lemma keys_aggregate_from:
  "fst ` set (aggregate_from n d ls) = fst ` set d \<union> fst ` set (keyed n ls)"
  by (induction n d ls rule: aggregate_from.induct) (auto simp: keys_add_line)

lemma distinct_line_keys [simp]: "distinct (line_keys ls)"
  by (simp add: line_keys_def aggregate_lines_def distinct_aggregate_from)

lemma set_line_keys: "set (line_keys ls) = fst ` set (keyed 0 ls)"
  by (simp add: line_keys_def aggregate_lines_def keys_aggregate_from)

lemma held_aggregate_lines: "held (aggregate_lines ls) k = quantity_of k (keyed 0 ls)"
  by (simp add: aggregate_lines_def held_aggregate_from) (simp add: held_def)

lemma map_of_aggregate_lines_None:
  "map_of (aggregate_lines ls) k = None \<longleftrightarrow> k \<notin> set (line_keys ls)"
  by (simp add: map_of_eq_None_iff line_keys_def)

lemma sum_quantity_of:
  "distinct ks \<Longrightarrow> fst ` set kq \<subseteq> set ks \<Longrightarrow> (\<Sum>k\<leftarrow>ks. quantity_of k kq) = sum_list (map snd kq)"
proof (induction kq)
  case Nil
  show ?case by (simp add: quantity_of_def)
next
  case (Cons p kq)
  have "(\<Sum>k\<leftarrow>ks. quantity_of k (p # kq))
      = (\<Sum>k\<leftarrow>ks. (if k = fst p then snd p else 0) + quantity_of k kq)"
    by (rule arg_cong [where f = sum_list]) (auto simp: quantity_of_def)
  also have "\<dots> = (\<Sum>k\<leftarrow>ks. if k = fst p then snd p else 0) + sum_list (map snd kq)"
    using Cons by (simp add: sum_list_addf)
  also have "(\<Sum>k\<leftarrow>ks. if k = fst p then snd p else 0) = snd p"
    using Cons.prems by (simp add: sum_list_distinct_conv_sum_set sum.delta')
  finally show ?case by simp
qed

lemma map_snd_keyed: "map snd (keyed n ls) = map line_quantity ls"
  by (induction n ls rule: keyed.induct) auto

section \<open>The diff is a faithful account of both documents\<close>

definition or_zero :: "rat option \<Rightarrow> rat" where
  "or_zero v = (case v of None \<Rightarrow> 0 | Some q \<Rightarrow> q)"

lemma or_zero_held: "or_zero (map_option agg_quantity (map_of d k)) = held d k"
  by (simp add: or_zero_def held_def split: option.splits)

lemma item_keys_compare:
  "map item_key (compare_document_lines b a) = sorted_set (line_keys b @ line_keys a)"
  by (simp add: compare_document_lines_def Let_def line_keys_def make_change_def comp_def)

lemma compare_member:
  assumes "c \<in> set (compare_document_lines b a)"
  obtains key where "key \<in> set (line_keys b) \<union> set (line_keys a)"
    and "c = make_change key (map_of (aggregate_lines b) key) (map_of (aggregate_lines a) key)"
  using assms by (auto simp: compare_document_lines_def Let_def line_keys_def)

text \<open>
  The diff of two documents lists every line identity of either exactly once, in order, and the
  quantity differences it reports add up to the difference of the documents' total quantities.
\<close>

theorem compare_conserves_quantity:
  "map item_key (compare_document_lines b a) = sorted_set (line_keys b @ line_keys a) \<and>
   (\<Sum>c\<leftarrow>compare_document_lines b a. or_zero (after_quantity c) - or_zero (before_quantity c))
     = (\<Sum>l\<leftarrow>a. line_quantity l) - (\<Sum>l\<leftarrow>b. line_quantity l)"
proof -
  let ?ks = "sorted_set (line_keys b @ line_keys a)"
  have total: "(\<Sum>k\<leftarrow>?ks. held (aggregate_lines ls) k) = (\<Sum>l\<leftarrow>ls. line_quantity l)"
    if "ls = a \<or> ls = b" for ls
    using sum_quantity_of [of ?ks "keyed 0 ls"] that
    by (auto simp: held_aggregate_lines set_line_keys map_snd_keyed)
  have "(\<Sum>c\<leftarrow>compare_document_lines b a. or_zero (after_quantity c) - or_zero (before_quantity c))
      = (\<Sum>k\<leftarrow>?ks. held (aggregate_lines a) k - held (aggregate_lines b) k)"
    by (simp add: compare_document_lines_def Let_def line_keys_def make_change_def comp_def or_zero_held)
  also have "\<dots> = (\<Sum>l\<leftarrow>a. line_quantity l) - (\<Sum>l\<leftarrow>b. line_quantity l)"
    by (simp add: sum_list_subtractf total)
  finally show ?thesis by (simp add: item_keys_compare)
qed

lemma classify_change_cases:
  "classify_change old new = ADDED \<longleftrightarrow> old = None"
  "old \<noteq> None \<Longrightarrow> classify_change old new = REMOVED \<longleftrightarrow> new = None"
  by (cases "(old, new)" rule: classify_change.cases; simp)+

lemma classify_change_unchanged:
  "old \<noteq> None \<or> new \<noteq> None \<Longrightarrow> classify_change old new = UNCHANGED \<longleftrightarrow>
     map_option agg_quantity old = map_option agg_quantity new \<and>
     field agg_unit_price old = field agg_unit_price new \<and>
     field agg_discount old = field agg_discount new"
  by (cases "(old, new)" rule: classify_change.cases) (auto simp: field_def)

text \<open>
  Every entry of the diff is classified by the two documents alone: added when the identity is
  absent before, removed when it is absent after, unchanged exactly when quantity, effective unit
  price and discount agree.
\<close>

theorem compare_classification:
  assumes "c \<in> set (compare_document_lines b a)"
  shows "(change_type c = ADDED \<longleftrightarrow> item_key c \<notin> set (line_keys b))
    \<and> (change_type c = REMOVED \<longleftrightarrow> item_key c \<notin> set (line_keys a))
    \<and> (change_type c = UNCHANGED \<longleftrightarrow> before_quantity c = after_quantity c
         \<and> before_unit_price c = after_unit_price c \<and> before_discount c = after_discount c)"
proof -
  from assms obtain key where key: "key \<in> set (line_keys b) \<union> set (line_keys a)"
    and c: "c = make_change key (map_of (aggregate_lines b) key) (map_of (aggregate_lines a) key)"
    by (rule compare_member)
  have some: "map_of (aggregate_lines b) key \<noteq> None \<or> map_of (aggregate_lines a) key \<noteq> None"
    using key map_of_aggregate_lines_None by blast
  then have "change_type c = REMOVED \<longleftrightarrow> map_of (aggregate_lines a) key = None"
    by (cases "map_of (aggregate_lines b) key") (auto simp: c make_change_def classify_change_cases)
  with some show ?thesis
    by (simp add: c make_change_def classify_change_cases classify_change_unchanged
        map_of_aggregate_lines_None)
qed

text \<open>The part of an entry a swap of the two documents mirrors.\<close>

fun mirror_type :: "line_change_type \<Rightarrow> line_change_type" where
  "mirror_type ADDED = REMOVED"
| "mirror_type REMOVED = ADDED"
| "mirror_type ty = ty"

definition entry :: "line_change \<Rightarrow> string \<times> line_change_type \<times> (rat option \<times> rat option) list" where
  "entry c = (item_key c, change_type c, [(before_quantity c, after_quantity c),
     (before_unit_price c, after_unit_price c), (before_discount c, after_discount c),
     (before_total c, after_total c)])"

definition mirror ::
    "string \<times> line_change_type \<times> (rat option \<times> rat option) list
     \<Rightarrow> string \<times> line_change_type \<times> (rat option \<times> rat option) list" where
  "mirror e = (case e of (k, ty, fs) \<Rightarrow> (k, mirror_type ty, map prod.swap fs))"

lemma mirror_classify:
  "old \<noteq> None \<or> new \<noteq> None \<Longrightarrow>
     classify_change new old = mirror_type (classify_change old new)"
  by (cases "(old, new)" rule: classify_change.cases; cases new) auto

text \<open>
  Swapping the two documents mirrors the diff: additions become removals and the before and
  after columns are exchanged, entry by entry.
\<close>

lemma compare_mirror:
  "map entry (compare_document_lines a b) = map (mirror \<circ> entry) (compare_document_lines b a)"
proof -
  let ?l = "aggregate_lines b" and ?r = "aggregate_lines a"
  let ?ks = "sorted_set (map fst ?l @ map fst ?r)"
  have ks: "sorted_set (map fst ?r @ map fst ?l) = ?ks"
    by (rule sorted_set_cong) auto
  have "entry (make_change k (map_of ?r k) (map_of ?l k))
      = mirror (entry (make_change k (map_of ?l k) (map_of ?r k)))" if "k \<in> set ?ks" for k
  proof -
    have "map_of ?l k \<noteq> None \<or> map_of ?r k \<noteq> None"
      using that by (auto simp: map_of_eq_None_iff)
    then show ?thesis
      by (simp add: entry_def mirror_def make_change_def mirror_classify)
  qed
  then show ?thesis by (simp add: compare_document_lines_def Let_def ks)
qed

theorem compare_classification_witness:
  "let beer = blank_line\<lparr>item_code := Some ''B1'', quantity := Some 2\<rparr>;
       c = hd (compare_document_lines [beer] [])
   in change_type c = REMOVED \<and> item_key c = ''CODE:B1'' \<and>
      item_key c \<notin> set (line_keys ([] :: document_line list))"
proof -
  let ?beer = "blank_line\<lparr>item_code := Some ''B1'', quantity := Some 2\<rparr>"
  let ?c = "hd (compare_document_lines [?beer] [])"
  have "compare_document_lines [?beer] [] \<noteq> [] \<and> item_key ?c = ''CODE:B1'' \<and> change_type ?c = REMOVED"
    by code_simp
  moreover from this have "?c \<in> set (compare_document_lines [?beer] [])" by simp
  moreover have "line_keys ([] :: document_line list) = []"
    by (simp add: line_keys_def aggregate_lines_def)
  ultimately show ?thesis using compare_classification [of ?c "[?beer]" "[]"] by (simp add: Let_def)
qed

section \<open>Change tickets refine a map of quantities\<close>

text \<open>The abstract order: the effective quantity of every line identity that is still on it.\<close>

type_synonym order_map = "string \<Rightarrow> rat option"

definition residual :: "order_state \<Rightarrow> order_map" where
  "residual s k = map_option (\<lambda>l. or_else (quantity l) 1) (ord_line s k)"

definition spec_load :: "order_map \<Rightarrow> string \<Rightarrow> rat \<Rightarrow> order_map" where
  "spec_load m k q = m(k \<mapsto> (case m k of None \<Rightarrow> q | Some r \<Rightarrow> r + q))"

definition spec_delta :: "order_map \<Rightarrow> string \<Rightarrow> rat \<Rightarrow> bool \<Rightarrow> order_map" where
  "spec_delta m k q gone = (case m k of
      None \<Rightarrow> if gone \<or> q \<le> 0 then m else m(k \<mapsto> q)
    | Some r \<Rightarrow> if gone \<or> r + q \<le> 0 then m(k := None) else m(k \<mapsto> r + q))"

fun spec_loads :: "nat \<Rightarrow> order_map \<Rightarrow> document_line list \<Rightarrow> order_map" where
  "spec_loads n m [] = m"
| "spec_loads n m (l # ls) =
     spec_loads (Suc n) (spec_load m (line_key l n) (or_else (quantity l) 1)) ls"

fun spec_deltas :: "nat \<Rightarrow> order_map \<Rightarrow> document_line list \<Rightarrow> order_map" where
  "spec_deltas n m [] = m"
| "spec_deltas n m (d # ds) = spec_deltas (Suc n)
     (spec_delta m (line_key d n) (or_else (quantity d) 0) (removed d \<or> cancelled d)) ds"

text \<open>The keys listed are the keys stored, and every stored line has a positive quantity.\<close>

definition order_ok :: "order_state \<Rightarrow> bool" where
  "order_ok s \<longleftrightarrow> distinct (ord_keys s) \<and> (\<forall>k. k \<in> set (ord_keys s) \<longleftrightarrow> ord_line s k \<noteq> None)
     \<and> (\<forall>k l. ord_line s k = Some l \<longrightarrow> 0 < or_else (quantity l) 1)"

definition positive_lines :: "document_line list \<Rightarrow> bool" where
  "positive_lines ls \<longleftrightarrow> (\<forall>l \<in> set ls. 0 < or_else (quantity l) 1)"

lemma order_ok_empty [inv_intros]: "order_ok empty_order"
  by (simp add: order_ok_def empty_order_def)

lemma or_else_pos: "0 < q \<Longrightarrow> or_else (Some q) d = q"
  by (simp add: or_else_def)

lemma or_else_zero_pos: "0 < or_else v 0 \<Longrightarrow> or_else v d = or_else v 0"
  by (auto simp: or_else_def split: option.splits if_splits)

lemma load_line_ok:
  assumes "order_ok s" and "0 < or_else (quantity l) 1"
  shows "order_ok (load_line s n l)"
    and "residual (load_line s n l) = spec_load (residual s) (line_key l n) (or_else (quantity l) 1)"
proof -
  let ?k = "line_key l n"
  show "order_ok (load_line s n l)"
  proof (cases "ord_line s ?k")
    case None
    with assms show ?thesis by (auto simp: order_ok_def load_line_def Let_def)
  next
    case (Some c)
    with assms have "0 < or_else (quantity c) 1 + or_else (quantity l) 1"
      by (auto simp: order_ok_def intro: add_pos_pos)
    with Some assms show ?thesis by (auto simp: order_ok_def load_line_def Let_def or_else_pos)
  qed
  show "residual (load_line s n l) = spec_load (residual s) ?k (or_else (quantity l) 1)"
  proof (cases "ord_line s ?k")
    case None
    then show ?thesis by (auto simp: residual_def load_line_def Let_def spec_load_def fun_eq_iff)
  next
    case (Some c)
    with assms have "0 < or_else (quantity c) 1 + or_else (quantity l) 1"
      by (auto simp: order_ok_def intro: add_pos_pos)
    with Some show ?thesis
      by (auto simp: residual_def load_line_def Let_def spec_load_def fun_eq_iff or_else_pos)
  qed
qed

lemma load_lines_ok:
  "order_ok s \<Longrightarrow> positive_lines ls \<Longrightarrow>
     order_ok (load_lines n s ls) \<and> residual (load_lines n s ls) = spec_loads n (residual s) ls"
  by (induction n s ls rule: load_lines.induct) (auto simp: load_line_ok positive_lines_def)

lemma apply_delta_ok:
  assumes "order_ok s"
  shows "order_ok (apply_delta s n d)"
    and "residual (apply_delta s n d) = spec_delta (residual s) (line_key d n)
           (or_else (quantity d) 0) (removed d \<or> cancelled d)"
proof -
  let ?k = "line_key d n"
  have pos: "or_else (quantity d) 1 = or_else (quantity d) 0" if "0 < or_else (quantity d) 0"
    using that by (rule or_else_zero_pos)
  show "order_ok (apply_delta s n d)"
  proof (cases "ord_line s ?k")
    case None
    with assms show ?thesis by (auto simp: order_ok_def apply_delta_def Let_def pos)
  next
    case (Some c)
    with assms show ?thesis
      by (auto simp: order_ok_def apply_delta_def Let_def changed_line_def or_else_pos)
  qed
  show "residual (apply_delta s n d) = spec_delta (residual s) ?k
      (or_else (quantity d) 0) (removed d \<or> cancelled d)"
  proof (cases "ord_line s ?k")
    case None
    then show ?thesis
      by (auto simp: residual_def apply_delta_def Let_def spec_delta_def fun_eq_iff pos)
  next
    case (Some c)
    then show ?thesis
      by (auto simp: residual_def apply_delta_def Let_def spec_delta_def fun_eq_iff
          changed_line_def or_else_pos)
  qed
qed

lemma apply_deltas_ok:
  "order_ok s \<Longrightarrow>
     order_ok (apply_deltas n s ds) \<and> residual (apply_deltas n s ds) = spec_deltas n (residual s) ds"
  by (induction n s ds rule: apply_deltas.induct) (auto simp: apply_delta_ok)

lemma map_order_result:
  "\<forall>k \<in> set ks. f k \<noteq> None \<Longrightarrow> map g (List.map_filter f ks) = map (\<lambda>k. g (the (f k))) ks"
  by (induction ks) (auto simp: List.map_filter_simps)

text \<open>
  Applying change tickets to an order with positive quantities refines the abstract map of
  quantities: the residual order lists, once each, exactly the identities the map still holds, each
  with the quantity of the map, and all of them positive. A delta without a matching line never
  creates a non-positive one.
\<close>

theorem apply_order_change_refines:
  assumes "positive_lines before"
  shows "\<exists>ks. distinct ks
    \<and> set ks = dom (spec_deltas 0 (spec_loads 0 Map.empty before) deltas)
    \<and> map (\<lambda>l. or_else (quantity l) 1) (apply_order_change_lines before deltas)
        = map (\<lambda>k. the (spec_deltas 0 (spec_loads 0 Map.empty before) deltas k)) ks
    \<and> positive_lines (apply_order_change_lines before deltas)"
proof -
  let ?s = "apply_deltas 0 (load_lines 0 empty_order before) deltas"
  let ?m = "spec_deltas 0 (spec_loads 0 Map.empty before) deltas"
  have empty: "residual empty_order = Map.empty"
    by (simp add: residual_def empty_order_def fun_eq_iff)
  have ok: "order_ok ?s" and res: "residual ?s = ?m"
    using load_lines_ok [OF order_ok_empty assms] apply_deltas_ok by (auto simp: empty)
  have m: "?m k = map_option (\<lambda>l. or_else (quantity l) 1) (ord_line ?s k)" for k
    using fun_cong [OF res, of k] by (simp add: residual_def)
  have keys: "ord_line ?s k \<noteq> None" if "k \<in> set (ord_keys ?s)" for k
    using ok that by (simp add: order_ok_def)
  have "dom ?m = set (ord_keys ?s)"
    using ok by (auto simp: m dom_def order_ok_def)
  moreover have "map (\<lambda>l. or_else (quantity l) 1) (apply_order_change_lines before deltas)
      = map (\<lambda>k. the (?m k)) (ord_keys ?s)"
    by (simp add: apply_order_change_lines_def order_result_def map_order_result keys m option.map_sel)
  moreover have "positive_lines (apply_order_change_lines before deltas)"
    using ok by (auto simp: positive_lines_def apply_order_change_lines_def order_result_def
        List.map_filter_def order_ok_def)
  ultimately show ?thesis using ok by (auto simp: order_ok_def)
qed

theorem apply_order_change_refines_witness:
  "let pizza = blank_line\<lparr>item_code := Some ''P1'', quantity := Some 3\<rparr>;
       less = blank_line\<lparr>item_code := Some ''P1'', quantity := Some (- 1)\<rparr>
   in positive_lines [pizza] \<and> positive_lines (apply_order_change_lines [pizza] [less]) \<and>
      map quantity (apply_order_change_lines [pizza] [less]) = [Some 2]"
proof -
  let ?pizza = "blank_line\<lparr>item_code := Some ''P1'', quantity := Some 3\<rparr>"
  let ?less = "blank_line\<lparr>item_code := Some ''P1'', quantity := Some (- 1)\<rparr>"
  have pos: "positive_lines [?pizza]" by code_simp
  have run: "map quantity (apply_order_change_lines [?pizza] [?less]) = [Some 2]" by code_simp
  show ?thesis using pos run apply_order_change_refines [OF pos, of "[?less]"] unfolding Let_def by blast
qed

section \<open>Zero quantities in the order before\<close>

text \<open>
  \<^verbatim>\<open>current.quantity or Decimal("1")\<close> reads a quantity that is zero as one: two lines of the same
  item whose quantities cancel out count as one unit for the ticket that follows.
\<close>

text \<open>
  Where the lines of one item of the prior order sum to zero (a line and its storno), the next
  ticket for the item leaves one unit more than the quantities add up to.
\<close>

lemma apply_order_change_zero_counts_one:
  "(let line = \<lambda>q. blank_line\<lparr>item_code := Some ''P1'', quantity := Some q\<rparr>
    in map quantity (apply_order_change_lines [line 2, line (- 2)] [line 3])) = [Some 4]"
  by code_simp

section \<open>Numbering suffixes\<close>

lemma is_digit_not_space: "is_digit c \<Longrightarrow> \<not> is_space c"
  by (auto simp: is_digit_def is_space_def Let_def)

lemma split_digit_suffix:
  assumes "\<And>c. c \<in> set ds \<Longrightarrow> is_digit c"
    and "takeWhile is_digit (rev p) = [] \<and> dropWhile is_digit (rev p) = rev p"
  shows "digit_suffix (p @ ds) = ds \<and> before_digits (p @ ds) = p"
  using assms takeWhile_append2 [of "rev ds" is_digit "rev p"]
    dropWhile_append2 [of "rev ds" is_digit "rev p"]
  by (simp add: digit_suffix_def before_digits_def)

text \<open>
  \<^verbatim>\<open>numeric_suffix\<close> reads back a printed counter: a prefix without line breaks that neither
  starts with white space nor ends in a digit, followed by the decimal digits of a counter (leading
  zeros allowed), gives exactly the prefix and the counter.
\<close>

lemma numeric_suffix_roundtrip:
  assumes "p = [] \<or> \<not> is_space (hd p)" and "p = [] \<or> \<not> is_digit (last p)" and "chr 10 \<notin> set p"
  shows "numeric_suffix (Some (p @ replicate z (CHR ''0'') @ digits n)) = Some (p, n)"
proof -
  let ?d = "replicate z (CHR ''0'') @ digits n"
  have d: "is_digit c" if "c \<in> set ?d" for c
    using that digits_digit by (auto simp: is_digit_def code_def)
  have ne: "?d \<noteq> []" by simp
  have hd_ok: "\<not> is_space (hd (p @ ?d))"
    using assms(1) d [of "hd ?d"] ne by (cases p) (auto simp: is_digit_not_space hd_append)
  have last_ok: "\<not> is_space (hd (rev (p @ ?d)))"
    using d [of "last ?d"] ne is_digit_not_space by (simp add: hd_rev)
  have strip: "strip (p @ ?d) = p @ ?d"
  proof -
    have "dropWhile is_space (p @ ?d) = p @ ?d" and "dropWhile is_space (rev (p @ ?d)) = rev (p @ ?d)"
      using hd_ok last_ok by (simp_all only: dropWhile_eq_self_iff simp_thms)
    then show ?thesis by (simp only: strip_def rev_rev_ident)
  qed
  have stop: "takeWhile is_digit (rev p) = [] \<and> dropWhile is_digit (rev p) = rev p"
    using assms(2) by (cases "rev p") (auto simp: rev_eq_Cons_iff)
  have "digit_suffix (p @ ?d) = ?d \<and> before_digits (p @ ?d) = p"
    by (rule split_digit_suffix) (use d stop in auto)
  moreover have "digits_value 0 ?d = n"
    by (induction z) (simp_all add: digits_value_digits code_def)
  ultimately show ?thesis
    using strip ne assms(3) by (simp add: numeric_suffix_def Let_def)
qed

theorem numeric_suffix_roundtrip_witness:
  "numeric_suffix (Some (''2026/'' @ replicate 2 (CHR ''0'') @ digits 41)) = Some (''2026/'', 41)"
  by (rule numeric_suffix_roundtrip) code_simp+

end
