(* ===== verification/Forest.thy ===== *)
theory Forest imports Prelude begin

text \<open>
  The union-find structure inside \<^verbatim>\<open>CorrelationEngine._correlate_pairs\<close>: parent links with path halving,
  and the member set of every root. The interface the engine relies on is the locale
  \<open>disjoint_sets\<close>, interpreted below on the model.
\<close>

section \<open>State and operations\<close>

text \<open>
  The dictionaries \<^verbatim>\<open>parent\<close> and \<^verbatim>\<open>component_members\<close>, initialised for every document; identifiers
  of no document are never looked up and are their own root here. A set of identifiers is a list
  without repetition; a root that was popped has no members.
\<close>

record forest =
  parent :: "uuid \<Rightarrow> uuid"
  component_members :: "uuid \<Rightarrow> uuid list"

definition singletons :: forest where
  "singletons = \<lparr>parent = (\<lambda>v. v), component_members = (\<lambda>v. [v])\<rparr>"

text \<open>
  \<^verbatim>\<open>find\<close>: the loop may run forever on a cyclic parent map, so it is a partial function; it is shown
  to return on every state the engine reaches.
\<close>

partial_function (option) find_root ::
    "(uuid \<Rightarrow> uuid) \<Rightarrow> uuid \<Rightarrow> ((uuid \<Rightarrow> uuid) \<times> uuid) option" where
  [code]: "find_root p v = (if p v = v then Some (p, v)
     else (let p' = p(v := p (p v)) in find_root p' (p' v)))"

definition find_in :: "forest \<Rightarrow> uuid \<Rightarrow> (forest \<times> uuid) option" where
  "find_in s v = map_option (\<lambda>(p, r). (s\<lparr>parent := p\<rparr>, r)) (find_root (parent s) v)"

text \<open>The last lines of \<^verbatim>\<open>union\<close>: the smaller root becomes the parent of the other.\<close>

definition link :: "forest \<Rightarrow> uuid \<Rightarrow> uuid \<Rightarrow> forest" where
  "link s left_root right_root =
     (let first = min left_root right_root; second = max left_root right_root;
          proposed_ids = component_members s left_root @ component_members s right_root
      in \<lparr>parent = (parent s)(second := first),
          component_members = (component_members s)(first := proposed_ids, second := [])\<rparr>)"

section \<open>The representative of a parent map\<close>

definition descending :: "(uuid \<Rightarrow> uuid) \<Rightarrow> bool" where
  "descending p \<longleftrightarrow> (\<forall>v. p v \<le> v)"

definition root :: "(uuid \<Rightarrow> uuid) \<Rightarrow> uuid \<Rightarrow> uuid" where
  "root p v = (p ^^ unat v) v"

lemma fixpoint_reached:
  assumes "descending p" and "unat v \<le> n"
  shows "p ((p ^^ n) v) = (p ^^ n) v"
  using assms(2)
proof (induction n arbitrary: v)
  case 0
  then have "v = 0" by (simp add: unat_eq_0)
  then show ?case using assms(1) by (simp add: descending_def) (metis word_le_0_iff)
next
  case (Suc n)
  show ?case
  proof (cases "p v = v")
    case True
    then have "(p ^^ k) v = v" for k by (induction k) auto
    then show ?thesis using True by metis
  next
    case False
    then have "p v < v" using assms(1) by (simp add: descending_def order_less_le)
    then have "unat (p v) \<le> n" using Suc.prems by (simp add: word_less_nat_alt)
    from Suc.IH [OF this] show ?thesis by (simp add: funpow_Suc_right del: funpow.simps)
  qed
qed

lemma root_fixpoint: "descending p \<Longrightarrow> p (root p v) = root p v"
  by (simp add: root_def fixpoint_reached)

lemma root_unfold:
  assumes "descending p"
  shows "root p v = (if p v = v then v else root p (p v))"
proof (cases "p v = v")
  case True
  then have "(p ^^ k) v = v" for k by (induction k) auto
  then show ?thesis using True by (simp add: root_def)
next
  case False
  then have "p v < v" using assms by (simp add: descending_def order_less_le)
  then have less: "unat (p v) \<le> unat v - 1" and pos: "0 < unat v"
    by (simp_all add: word_less_nat_alt)
  have stable: "(p ^^ (unat (p v) + k)) (p v) = (p ^^ unat (p v)) (p v)" for k
    by (induction k) (simp_all add: fixpoint_reached [OF assms])
  from pos obtain n where n: "unat v = Suc n" by (cases "unat v") auto
  have "root p v = (p ^^ (unat v - 1)) (p v)"
    by (simp only: root_def n funpow_Suc_right comp_apply diff_Suc_1)
  also have "\<dots> = root p (p v)"
    using stable [of "unat v - 1 - unat (p v)"] less by (simp only: root_def le_add_diff_inverse)
  finally show ?thesis using False by simp
qed

lemma root_unique:
  assumes "descending p" and "\<And>v. r v = (if p v = v then v else r (p v))"
  shows "root p = r"
proof
  fix v show "root p v = r v"
  proof (induction "unat v" arbitrary: v rule: less_induct)
    case less
    show ?case
    proof (cases "p v = v")
      case True
      then show ?thesis using root_unfold [OF assms(1), of v] assms(2) [of v] by simp
    next
      case False
      then have "p v < v" using assms(1) by (simp add: descending_def order_less_le)
      then have "root p (p v) = r (p v)" by (intro less) (simp add: word_less_nat_alt)
      with False show ?thesis using root_unfold [OF assms(1), of v] assms(2) [of v] by simp
    qed
  qed
qed

lemma root_le: "descending p \<Longrightarrow> root p v \<le> v"
proof (induction "unat v" arbitrary: v rule: less_induct)
  case less
  show ?case
  proof (cases "p v = v")
    case True
    then show ?thesis using root_unfold [OF less.prems, of v] by simp
  next
    case False
    then have "p v < v" using less.prems by (simp add: descending_def order_less_le)
    moreover from this have "root p (p v) \<le> p v"
      by (intro less) (simp_all add: word_less_nat_alt less.prems)
    ultimately show ?thesis using root_unfold [OF less.prems, of v] False by simp
  qed
qed

lemma halving:
  assumes "descending p"
  shows "descending (p(v := p (p v)))" and "root (p(v := p (p v))) = root p"
proof -
  have le: "p w \<le> w" for w using assms by (simp add: descending_def)
  then show d: "descending (p(v := p (p v)))"
    by (auto simp: descending_def intro: order_trans)
  have up: "root p (p w) = root p w" for w
    using root_unfold [OF assms, of w] by (auto split: if_splits)
  show "root (p(v := p (p v))) = root p"
  proof (rule root_unique [OF d])
    fix w
    show "root p w = (if (p(v := p (p v))) w = w then w else root p ((p(v := p (p v))) w))"
    proof (cases "w = v \<and> p (p v) = v")
      case True
      then have "p v = v" using le [of v] le [of "p v"] by simp
      with True root_unfold [OF assms, of v] show ?thesis by simp
    next
      case False
      moreover have "root p w = w" if "p w = w" using root_unfold [OF assms, of w] that by simp
      ultimately show ?thesis by (auto simp: up)
    qed
  qed
qed

lemma find_root_total:
  assumes "descending p"
  shows "\<exists>p'. find_root p v = Some (p', root p v) \<and> descending p' \<and> root p' = root p"
  using assms
proof (induction "unat v" arbitrary: p v rule: less_induct)
  case less
  show ?case
  proof (cases "p v = v")
    case True
    then show ?thesis
      using less.prems root_unfold [OF less.prems, of v] by (subst find_root.simps) simp
  next
    case False
    let ?p = "p(v := p (p v))"
    have "p v < v" and "p (p v) \<le> p v"
      using False less.prems by (auto simp: descending_def order_less_le)
    then have "unat (?p v) < unat v" by (simp add: word_less_nat_alt word_le_nat_alt)
    from less.hyps [OF this halving(1) [OF less.prems, of v]] halving(2) [OF less.prems, of v]
    obtain p' where "find_root ?p (?p v) = Some (p', root p (?p v))"
      and "descending p'" and "root p' = root p" by (auto simp del: fun_upd_apply)
    moreover have "root p (?p v) = root p v"
      using root_unfold [OF less.prems, of v] root_unfold [OF less.prems, of "p v"] by (auto split: if_splits)
    ultimately show ?thesis using False by (subst find_root.simps) (simp add: Let_def)
  qed
qed

lemma root_link:
  assumes "descending p" and "p a = a" and "p b = b" and "a < b"
  shows "descending (p(b := a))" and "root (p(b := a)) = (\<lambda>v. if root p v = b then a else root p v)"
proof -
  show d: "descending (p(b := a))" using assms by (simp add: descending_def)
  have r: "root p a = a" "root p b = b"
    using assms root_unfold [OF assms(1)] by (metis (full_types))+
  show "root (p(b := a)) = (\<lambda>v. if root p v = b then a else root p v)"
  proof (rule root_unique [OF d])
    fix v
    show "(if root p v = b then a else root p v) = (if (p(b := a)) v = v then v
        else if root p ((p(b := a)) v) = b then a else root p ((p(b := a)) v))"
      using assms r root_unfold [OF assms(1), of v] by auto
  qed
qed

section \<open>The interface of disjoint sets\<close>

text \<open>
  What the engine relies on: looking up the representative of an element returns and changes neither
  representatives nor members; joining two roots merges exactly their two sets; the members of a
  representative are its set.
\<close>

locale disjoint_sets =
  fixes inv :: "'s \<Rightarrow> bool"
    and rep :: "'s \<Rightarrow> 'a \<Rightarrow> 'a"
    and elems :: "'s \<Rightarrow> 'a \<Rightarrow> 'a list"
    and find :: "'s \<Rightarrow> 'a \<Rightarrow> ('s \<times> 'a) option"
    and join :: "'s \<Rightarrow> 'a \<Rightarrow> 'a \<Rightarrow> 's"
  assumes rep_rep: "inv s \<Longrightarrow> rep s (rep s v) = rep s v"
    and elems_rep: "inv s \<Longrightarrow> distinct (elems s (rep s v)) \<and> set (elems s (rep s v)) = {w. rep s w = rep s v}"
    and find_returns: "inv s \<Longrightarrow>
      \<exists>s'. find s v = Some (s', rep s v) \<and> inv s' \<and> rep s' = rep s \<and> elems s' = elems s"
    and join_inv: "inv s \<Longrightarrow> rep s a = a \<Longrightarrow> rep s b = b \<Longrightarrow> a \<noteq> b \<Longrightarrow> inv (join s a b)"
    and join_rep: "inv s \<Longrightarrow> rep s a = a \<Longrightarrow> rep s b = b \<Longrightarrow> a \<noteq> b \<Longrightarrow>
      rep (join s a b) x = rep (join s a b) y \<longleftrightarrow>
        rep s x = rep s y \<or> rep s x \<in> {a, b} \<and> rep s y \<in> {a, b}"
begin

text \<open>Two lookups in a row, as \<^verbatim>\<open>union\<close> makes them.\<close>

lemma find_two:
  assumes "inv s"
  shows "\<exists>s1 s2. find s a = Some (s1, rep s a) \<and> find s1 b = Some (s2, rep s b) \<and>
    inv s2 \<and> rep s2 = rep s \<and> elems s2 = elems s"
  using find_returns [OF assms, of a] find_returns by metis

lemma elems_disjoint:
  "inv s \<Longrightarrow> rep s a \<noteq> rep s b \<Longrightarrow> set (elems s (rep s a)) \<inter> set (elems s (rep s b)) = {}"
  using elems_rep by fastforce

lemma join_elems:
  assumes "inv s" and "rep s a \<noteq> rep s b"
  shows "set (elems (join s (rep s a) (rep s b)) (rep (join s (rep s a) (rep s b)) v)) =
    (if rep s v = rep s a \<or> rep s v = rep s b
     then set (elems s (rep s a)) \<union> set (elems s (rep s b)) else set (elems s (rep s v)))"
proof -
  have r: "rep s (rep s a) = rep s a" "rep s (rep s b) = rep s b"
    using rep_rep assms(1) by auto
  have "set (elems (join s (rep s a) (rep s b)) (rep (join s (rep s a) (rep s b)) v))
      = {w. rep (join s (rep s a) (rep s b)) w = rep (join s (rep s a) (rep s b)) v}"
    using elems_rep [OF join_inv [OF assms(1) r assms(2)]] by blast
  also have "\<dots> = {w. rep s w = rep s v \<or>
      rep s w \<in> {rep s a, rep s b} \<and> rep s v \<in> {rep s a, rep s b}}"
    using join_rep [OF assms(1) r assms(2)] by blast
  finally show ?thesis using elems_rep [OF assms(1)] by auto
qed

end

section \<open>The model provides it\<close>

definition rep :: "forest \<Rightarrow> uuid \<Rightarrow> uuid" where
  "rep s v = root (parent s) v"

definition forest_ok :: "forest \<Rightarrow> bool" where
  "forest_ok s \<longleftrightarrow> descending (parent s) \<and>
     (\<forall>v. distinct (component_members s (rep s v)) \<and>
          set (component_members s (rep s v)) = {w. rep s w = rep s v})"

lemma root_self: "descending p \<Longrightarrow> root p v = v \<longleftrightarrow> p v = v"
  using root_fixpoint [of p v] root_unfold [of p v] by auto

lemma forest_ok_rep_rep: "forest_ok s \<Longrightarrow> rep s (rep s v) = rep s v"
  by (simp add: forest_ok_def rep_def root_self root_fixpoint)

lemma forest_ok_find:
  assumes "forest_ok s"
  shows "\<exists>s'. find_in s v = Some (s', rep s v) \<and> forest_ok s' \<and> rep s' = rep s \<and>
    component_members s' = component_members s"
proof -
  from find_root_total [of "parent s" v] assms obtain p where
    p: "find_root (parent s) v = Some (p, rep s v)" "descending p" "root p = root (parent s)"
    by (auto simp: forest_ok_def rep_def)
  then have "rep (s\<lparr>parent := p\<rparr>) = rep s" by (simp add: rep_def fun_eq_iff)
  with p assms show ?thesis by (simp add: find_in_def forest_ok_def)
qed

lemma rep_link:
  assumes "forest_ok s" and "rep s a = a" and "rep s b = b" and "a \<noteq> b"
  shows "descending (parent (link s a b))"
    and "rep (link s a b) v = (if rep s v = max a b then min a b else rep s v)"
proof -
  have d: "descending (parent s)" using assms by (simp add: forest_ok_def)
  have self: "parent s a = a" "parent s b = b"
    using assms root_self [OF d] by (simp_all add: rep_def)
  have "parent s (min a b) = min a b" "parent s (max a b) = max a b" "min a b < max a b"
    using self assms(4) by (auto simp: min_def max_def)
  note l = root_link [OF d this]
  then show "descending (parent (link s a b))"
    and "rep (link s a b) v = (if rep s v = max a b then min a b else rep s v)"
    by (simp_all add: link_def Let_def rep_def)
qed

lemma merge_iff:
  "m \<noteq> M \<Longrightarrow> (if x = M then m else x) = (if y = M then m else y) \<longleftrightarrow>
     x = y \<or> x \<in> {m, M} \<and> y \<in> {m, M}"
  by auto

lemma forest_ok_link:
  assumes "forest_ok s" and "rep s a = a" and "rep s b = b" and "a \<noteq> b"
  shows "forest_ok (link s a b)"
proof -
  note l = rep_link [OF assms]
  have m: "component_members (link s a b) =
      (component_members s)(min a b := component_members s a @ component_members s b, max a b := [])"
    by (simp add: link_def Let_def)
  have ne: "min a b \<noteq> max a b" using assms(4) by (auto simp: min_def max_def)
  have mem: "distinct (component_members s (rep s v)) \<and>
      set (component_members s (rep s v)) = {w. rep s w = rep s v}" for v
    using assms(1) by (simp add: forest_ok_def)
  have ab: "{min a b, max a b} = {a, b}" by (auto simp: min_def max_def)
  have "distinct (component_members (link s a b) (rep (link s a b) v)) \<and>
      set (component_members (link s a b) (rep (link s a b) v)) =
        {w. rep (link s a b) w = rep (link s a b) v}" for v
  proof (cases "rep s v \<in> {a, b}")
    case True
    then have "rep (link s a b) v = min a b" using ab l(2) [of v] by auto
    moreover have "{w. rep (link s a b) w = min a b} = {w. rep s w \<in> {a, b}}"
      using ab ne by (auto simp: l(2))
    ultimately show ?thesis using mem [of a] mem [of b] ne assms(2-4) by (auto simp: m)
  next
    case False
    then have "rep (link s a b) v = rep s v" and "rep s v \<noteq> min a b" and "rep s v \<noteq> max a b"
      using ab l(2) [of v] by auto
    moreover from this have "{w. rep (link s a b) w = rep s v} = {w. rep s w = rep s v}"
      by (auto simp: l(2))
    ultimately show ?thesis using mem [of v] by (simp add: m)
  qed
  with l(1) show ?thesis by (simp add: forest_ok_def)
qed

interpretation forests: disjoint_sets forest_ok rep component_members find_in link
proof
  fix s a b x y
  assume ok: "forest_ok s" "rep s a = a" "rep s b = b" "a \<noteq> b"
  then show "forest_ok (link s a b)" by (rule forest_ok_link)
  have "{a, b} = {min a b, max a b}" and "min a b \<noteq> max a b"
    using ok(4) by (auto simp: min_def max_def)
  then show "rep (link s a b) x = rep (link s a b) y \<longleftrightarrow>
      rep s x = rep s y \<or> rep s x \<in> {a, b} \<and> rep s y \<in> {a, b}"
    by (simp only: rep_link(2) [OF ok] merge_iff not_False_eq_True)
qed (auto simp: forest_ok_rep_rep forest_ok_find, auto simp: forest_ok_def)

lemma singletons_ok [inv_intros]: "forest_ok singletons"
  and rep_singletons: "rep singletons v = v"
proof -
  have "descending (parent singletons)" by (simp add: descending_def singletons_def)
  moreover have "root (parent singletons) = (\<lambda>v. v)"
    by (rule root_unique) (simp_all add: descending_def singletons_def)
  ultimately show "forest_ok singletons" "rep singletons v = v"
    by (simp_all add: forest_ok_def rep_def singletons_def)
qed

end
