(* ===== verification/Scores.thy ===== *)
theory Scores imports Lines begin

text \<open>
  Pair scoring in \<^verbatim>\<open>correlation/engine.py\<close>: the predicates on document types and identities, the
  conflicts that reject a pair, the weighted criteria of \<^verbatim>\<open>score_pair\<close>, and the protocol-specific
  links \<^verbatim>\<open>score_candidate_pair\<close> tries before it. Durations are microseconds; the float seconds of
  the source are exact for every interval shorter than 285 years.
\<close>

section \<open>Line overlap and references\<close>

definition keys_of :: "document \<Rightarrow> string list" where
  "keys_of d = line_keys (doc_lines d)"

definition shared_items :: "document \<Rightarrow> document \<Rightarrow> string list" where
  "shared_items a b = filter (\<lambda>k. k \<in> set (keys_of b)) (keys_of a)"

definition line_similarity :: "document \<Rightarrow> document \<Rightarrow> rat option" where
  "line_similarity left right = (let l = keys_of left; r = keys_of right in
     if l = [] \<or> r = [] then None
     else Some (dec_div (of_nat (length (shared_items left right)))
                        (of_nat (length (remdups (l @ r))))))"

definition reference_keys :: "string list" where
  "reference_keys = [''reference'', ''order_reference'', ''document_reference'',
     ''transaction_reference'']"

text \<open>\<^verbatim>\<open>_normalise(str(value))\<close> of a metadata member that is present.\<close>

definition metadata_text :: "document \<Rightarrow> string \<Rightarrow> string option" where
  "metadata_text d k = (case get (raw_metadata d) k of
      JNull \<Rightarrow> None | v \<Rightarrow> normalise (Some (py_str v)))"

definition metadata_references :: "document \<Rightarrow> string list" where
  "metadata_references d = List.map_filter (metadata_text d) reference_keys"

definition common_reference :: "document \<Rightarrow> document \<Rightarrow> bool" where
  "common_reference a b = list_ex (\<lambda>r. r \<in> set (metadata_references b)) (metadata_references a)"

section \<open>Predicates on documents\<close>

definition source_types :: "document_type set" where
  "source_types = {ORDER, ORDER_CHANGE, KITCHEN_ORDER, PRE_BILL, MANAGEMENT_DOCUMENT}"

definition fiscal_types :: "document_type set" where
  "fiscal_types = {COMMERCIAL_DOCUMENT}"

definition followup_types :: "document_type set" where
  "followup_types = fiscal_types \<union> {REFUND} \<union> {PAYMENT, CANCELLATION}"

definition fiscal_sibling_types :: "document_type set" where
  "fiscal_sibling_types = {COMMERCIAL_DOCUMENT, REFUND, PAYMENT}"

definition auxiliary_types :: "document_type set" where
  "auxiliary_types = {CONFORMING_COPY, REPRINT, DEVICE_RESPONSE, REFUND, SHIFT_END_REPORT, INVOICE}"

datatype namespace = MANAGEMENT | COMMERCIAL

definition progressive_namespace :: "document \<Rightarrow> namespace option" where
  "progressive_namespace d =
     (if doc_type d \<in> {PRE_BILL, MANAGEMENT_DOCUMENT} then Some MANAGEMENT
      else if doc_type d \<in> {COMMERCIAL_DOCUMENT, REFUND} then Some COMMERCIAL
      else None)"

text \<open>\<^verbatim>\<open>bool(raw_metadata.get("economic_close"))\<close> or a room charge.\<close>

definition economic_close :: "document \<Rightarrow> bool" where
  "economic_close d = (truthy (get (raw_metadata d) ''economic_close'')
     \<or> get (raw_metadata d) ''settlement_kind'' = JStr ''ROOM_CHARGE'')"

definition is_auxiliary :: "document \<Rightarrow> bool" where
  "is_auxiliary d = (doc_type d \<in> auxiliary_types
     \<or> (doc_type d = MANAGEMENT_DOCUMENT \<and> commercial_reference_code d \<noteq> None
        \<and> \<not> economic_close d))"

definition is_prebill_source :: "document \<Rightarrow> bool" where
  "is_prebill_source d = (doc_type d = PRE_BILL
     \<or> (doc_type d = MANAGEMENT_DOCUMENT \<and> complete d \<and> total d \<noteq> None
        \<and> commercial_reference_code d = None \<and> \<not> economic_close d))"

definition authoritative_payments :: "document list \<Rightarrow> document list \<Rightarrow> payment_record list" where
  "authoritative_payments documents fiscal_documents =
     (let fiscal = concat (map payments fiscal_documents);
          explicit = concat (map payments (filter (\<lambda>d. doc_type d = PAYMENT) documents))
      in if fiscal \<noteq> [] then fiscal
         else if explicit \<noteq> [] then explicit
         else concat (map payments documents))"

text \<open>\<^verbatim>\<open>_compatible\<close>: which document types may be linked by weight.\<close>

definition compatible :: "document \<Rightarrow> document \<Rightarrow> bool" where
  "compatible left right = (let l = doc_type left; r = doc_type right; types = {l, r} in
     if DEVICE_RESPONSE \<in> types then False
     else if types \<inter> {CONFORMING_COPY, REPRINT} \<noteq> {} then types \<inter> fiscal_types \<noteq> {}
     else if types \<subseteq> fiscal_types then False
     else if l \<in> source_types \<and> r \<in> source_types then True
     else (l \<in> source_types \<and> r \<in> followup_types) \<or> (r \<in> source_types \<and> l \<in> followup_types))"

definition strong_reference :: "document \<Rightarrow> string option" where
  "strong_reference d = (case metadata_text d ''order_reference'' of
      Some r \<Rightarrow> Some r | None \<Rightarrow> metadata_text d ''transaction_reference'')"

text \<open>\<^verbatim>\<open>all(values) and len(set(values)) == 1\<close>; a normalised text is never empty.\<close>

definition all_same :: "string option list \<Rightarrow> bool" where
  "all_same vs = (list_all (\<lambda>v. v \<noteq> None) vs \<and> length (remdups vs) = 1)"

definition shared_strong_sale_identity :: "document list \<Rightarrow> bool" where
  "shared_strong_sale_identity items =
     (if length items < 2 then False
      else if all_same (map (\<lambda>d. normalise (order_code d)) items) then True
      else all_same (map strong_reference items))"

section \<open>Conflicts\<close>

definition both_differ :: "string option \<Rightarrow> string option \<Rightarrow> bool" where
  "both_differ a b = (a \<noteq> None \<and> b \<noteq> None \<and> a \<noteq> b)"

definition identity_conflict :: "document \<Rightarrow> document \<Rightarrow> string option" where
  "identity_conflict left right =
     (if both_differ (normalise (order_code left)) (normalise (order_code right))
        then Some ''order_code in conflitto''
      else if both_differ (normalise (table_code left)) (normalise (table_code right))
        then Some ''table_code in conflitto''
      else if both_differ (strong_reference left) (strong_reference right)
        then Some ''riferimento ordine in conflitto''
      else None)"

text \<open>The order of time, ties broken by the identifier, in which the engine visits documents.\<close>

definition doc_order :: "document \<Rightarrow> timestamp \<times> nat" where
  "doc_order d = (document_time d, unat (doc_id d))"

definition is_close :: "document \<Rightarrow> bool" where
  "is_close d = (doc_type d = COMMERCIAL_DOCUMENT
     \<or> (doc_type d = MANAGEMENT_DOCUMENT \<and> economic_close d))"

definition starts_episode :: "document \<Rightarrow> bool" where
  "starts_episode d = (doc_type d \<in> {ORDER, KITCHEN_ORDER, PRE_BILL})"

definition episode_boundary_conflict :: "document \<Rightarrow> document \<Rightarrow> string option" where
  "episode_boundary_conflict left right =
     (let earlier = (if doc_order left \<le> doc_order right then left else right);
          later = (if doc_order left \<le> doc_order right then right else left)
      in if is_close earlier \<and> starts_episode later \<and> document_time later > document_time earlier
         then Some ''nuovo episodio osservato dopo una chiusura economica'' else None)"

section \<open>Scores\<close>

record criterion =
  crit_name :: string
  weight :: int
  matched :: bool
  detail :: string

record pair_score =
  left_id :: uuid
  right_id :: uuid
  pscore :: int
  criteria :: "criterion list"

record engine =
  minimum_score :: int
  time_window_seconds :: int

datatype engine_error = MinimumScoreRange | TimeWindowRange

definition make_engine :: "int \<Rightarrow> int \<Rightarrow> engine_error + engine" where
  "make_engine minimum window =
     (if \<not> (0 \<le> minimum \<and> minimum \<le> 100) then Inl MinimumScoreRange
      else if window \<le> 0 then Inl TimeWindowRange
      else Inr \<lparr>minimum_score = minimum, time_window_seconds = window\<rparr>)"

definition crit :: "string \<Rightarrow> int \<Rightarrow> bool \<Rightarrow> string \<Rightarrow> criterion" where
  "crit n w m d = \<lparr>crit_name = n, weight = w, matched = m, detail = d\<rparr>"

definition pair_of :: "document \<Rightarrow> document \<Rightarrow> int \<Rightarrow> criterion list \<Rightarrow> pair_score" where
  "pair_of left right s cs =
     \<lparr>left_id = doc_id left, right_id = doc_id right, pscore = s, criteria = cs\<rparr>"

definition rejected_pair :: "document \<Rightarrow> document \<Rightarrow> string \<Rightarrow> pair_score" where
  "rejected_pair left right reason =
     pair_of left right 0 [crit ''identity_compatibility'' 100 False reason]"

definition matched_weight :: "criterion list \<Rightarrow> int" where
  "matched_weight cs = sum_list (map weight (filter matched cs))"

definition delta :: "document \<Rightarrow> document \<Rightarrow> int" where
  "delta left right = delta_abs (document_time left) (document_time right)"

definition no_longer :: "int \<Rightarrow> int \<Rightarrow> bool" where
  "no_longer d seconds = (d \<le> seconds * microsecond)"

definition seconds_text :: "int \<Rightarrow> string" where
  "seconds_text d = show_int (whole_seconds d)"

definition distance_text :: "int \<Rightarrow> string" where
  "distance_text d = ''distanza '' @ seconds_text d @ '' secondi''"

text \<open>The text of \<^verbatim>\<open>q.quantize(Decimal("0.01"))\<close> for a ratio that is not negative.\<close>

definition hundredths_text :: "rat \<Rightarrow> string" where
  "hundredths_text q = (let n = nat (half_even (q * 100)) in
     digits (n div 100) @ ''.'' @ digits (n mod 100 div 10) @ digits (n mod 10))"

definition exact :: "string \<Rightarrow> int \<Rightarrow> string option \<Rightarrow> string option \<Rightarrow> criterion" where
  "exact name w first second =
     (let m = normalise first \<noteq> None \<and> normalise first = normalise second
      in crit name w m (if m then ''valore esatto'' else ''assente o differente''))"

definition namespace_text :: "namespace option \<Rightarrow> string" where
  "namespace_text n = (case n of None \<Rightarrow> ''None'' | Some MANAGEMENT \<Rightarrow> ''MANAGEMENT''
     | Some COMMERCIAL \<Rightarrow> ''COMMERCIAL'')"

definition same_progressive :: "document \<Rightarrow> document \<Rightarrow> bool" where
  "same_progressive left right = (progressive_namespace left \<noteq> None
     \<and> progressive_namespace left = progressive_namespace right
     \<and> normalise (external_document_code left) \<noteq> None
     \<and> normalise (external_document_code left) = normalise (external_document_code right))"

definition progressive_criterion :: "document \<Rightarrow> document \<Rightarrow> criterion" where
  "progressive_criterion left right = (let same = same_progressive left right in
     crit ''own_progressive_same_namespace'' 15 same
       (if same then ''progressivo proprio coincidente nel namespace ''
                     @ namespace_text (progressive_namespace left)
        else ''progressivi propri assenti, differenti o di namespace distinti''))"

definition time_weight :: "engine \<Rightarrow> int \<Rightarrow> int" where
  "time_weight e d = (if no_longer d 120 then 12 else if no_longer d 900 then 8
     else if no_longer d (time_window_seconds e) then 4 else 0)"

definition totals_equal :: "document \<Rightarrow> document \<Rightarrow> bool" where
  "totals_equal left right = (total left \<noteq> None \<and> total left = total right)"

definition plausible_partial :: "document \<Rightarrow> document \<Rightarrow> bool" where
  "plausible_partial left right = (case (total left, total right) of
      (Some l, Some r) \<Rightarrow> 0 \<le> min l r \<and> 0 < max l r \<and> min l r < max l r
    | _ \<Rightarrow> False)"

definition amount_criterion :: "document \<Rightarrow> document \<Rightarrow> criterion" where
  "amount_criterion left right =
     (let eq = totals_equal left right; partial = plausible_partial left right in
      crit ''amount_relationship'' (if eq then 8 else if partial then 3 else 0) (eq \<or> partial)
        (if eq then ''totali uguali'' else if partial then ''importo parziale plausibile''
         else ''totali non confrontabili''))"

definition line_criterion :: "document \<Rightarrow> document \<Rightarrow> criterion" where
  "line_criterion left right = (case line_similarity left right of
      None \<Rightarrow> crit ''line_similarity'' 0 False ''righe non disponibili''
    | Some s \<Rightarrow> crit ''line_similarity'' (half_even (dec_mul s 12)) (0 < s)
        (''similarit'' @ [chr 224] @ '' '' @ hundredths_text s))"

definition pair_criteria :: "engine \<Rightarrow> document \<Rightarrow> document \<Rightarrow> criterion list" where
  "pair_criteria e left right =
     (let d = delta left right; refs = common_reference left right;
          same_date = date_of (document_time left) = date_of (document_time right);
          comp = compatible left right;
          same_device = source_device_id left = source_device_id right
      in [exact ''order_code'' 35 (order_code left) (order_code right),
          progressive_criterion left right,
          exact ''table_code'' 12 (table_code left) (table_code right),
          exact ''operator_code'' 5 (operator_code left) (operator_code right),
          exact ''terminal_code'' 4 (terminal_code left) (terminal_code right),
          exact ''source_session'' 0 (source_session_id left) (source_session_id right),
          crit ''embedded_reference'' 20 refs
            (if refs then ''riferimento comune'' else ''nessun riferimento comune''),
          crit ''time_proximity'' (time_weight e d) (no_longer d (time_window_seconds e))
            (distance_text d),
          crit ''business_date'' 3 same_date
            (if same_date then ''stessa data'' else ''data differente''),
          amount_criterion left right,
          line_criterion left right,
          crit ''document_sequence'' 8 comp
            (if comp then ''tipi compatibili'' else ''tipi non collegabili''),
          crit ''device_context'' 2 same_device
            (if same_device then ''stesso dispositivo'' else ''dispositivi differenti'')])"

definition score_pair :: "engine \<Rightarrow> document \<Rightarrow> document \<Rightarrow> pair_score" where
  "score_pair e left right =
     (let cs = pair_criteria e left right; score = min 100 (matched_weight cs)
      in pair_of left right
           (if \<not> compatible left right \<or> \<not> no_longer (delta left right) (time_window_seconds e)
            then 0 else score) cs)"

section \<open>Protocol-specific links\<close>

definition common_items_text :: "document \<Rightarrow> document \<Rightarrow> string" where
  "common_items_text a b = digits (length (shared_items a b))
     @ '' articolo/i comuni per codice o descrizione normalizzata''"

text \<open>The normalised table code, when both documents print the same one.\<close>

definition same_table :: "document \<Rightarrow> document \<Rightarrow> string option" where
  "same_table a b = (case normalise (table_code a) of
      None \<Rightarrow> None
    | Some t \<Rightarrow> if normalise (table_code b) = Some t then Some t else None)"

text \<open>\<^verbatim>\<open>(time(later) - time(earlier)).total_seconds()\<close>, signed.\<close>

definition elapsed :: "document \<Rightarrow> document \<Rightarrow> int" where
  "elapsed earlier later = document_time later - document_time earlier"

definition prompt :: "int \<Rightarrow> int \<Rightarrow> bool" where
  "prompt d seconds = (0 \<le> d \<and> no_longer d seconds)"

definition suffix_reference :: "document \<Rightarrow> document \<Rightarrow> bool" where
  "suffix_reference referring fiscal =
     (let reference = normalise (commercial_reference_code referring);
          fiscal_suffix = external_document_code_suffix fiscal;
          reference_suffix = printed_counter_suffix reference
      in reference \<noteq> None \<and> fiscal_suffix \<noteq> None \<and> reference_suffix \<noteq> None
         \<and> reference_suffix = printed_counter_suffix fiscal_suffix
         \<and> get (raw_metadata fiscal) ''external_document_code_suffix_evidence''
             = JStr ''RCH_STATUS_RESPONSE_SUFFIX_SEQUENCE_CONFIRMED'')"

definition exact_reference :: "document \<Rightarrow> document \<Rightarrow> bool" where
  "exact_reference referring fiscal =
     (normalise (commercial_reference_code referring) \<noteq> None
      \<and> normalise (commercial_reference_code referring) = normalise (external_document_code fiscal))"

definition commercial_reference_pair ::
    "engine \<Rightarrow> document \<Rightarrow> document \<Rightarrow> pair_score option" where
  "commercial_reference_pair e left right =
     (let fiscal = (if doc_type left = COMMERCIAL_DOCUMENT then left else right);
          referring = (if doc_type left = COMMERCIAL_DOCUMENT then right else left);
          d = delta left right
      in if doc_type fiscal \<noteq> COMMERCIAL_DOCUMENT then None
         else if doc_type referring \<notin> {MANAGEMENT_DOCUMENT, CONFORMING_COPY, REPRINT} then None
         else if \<not> exact_reference referring fiscal \<and> \<not> suffix_reference referring fiscal then None
         else if \<not> no_longer d (time_window_seconds e) then None
         else if suffix_reference referring fiscal then
           (case same_table referring fiscal of
              None \<Rightarrow> None
            | Some table \<Rightarrow>
                if shared_items referring fiscal = [] \<or> \<not> no_longer d 300 then None
                else Some (pair_of left right 100
                  [crit ''commercial_reference_to_observed_fiscal_suffix'' 55 True
                     (''suffisso fiscale osservato nella risposta RCH uguale al suffisso ''
                      @ ''del riferimento commerciale''),
                   crit ''table_code'' 15 True (''stesso tavolo '' @ table),
                   crit ''line_identity_overlap'' 20 True (common_items_text referring fiscal),
                   crit ''time_proximity'' 10 True (distance_text d)]))
         else Some (pair_of left right 95
           [crit ''commercial_reference_to_fiscal_progressive'' 85 True
              ''riferimento commerciale uguale al progressivo proprio fiscale'',
            crit ''time_proximity'' 10 True (distance_text d)]))"

definition table_sale_sequence_pair :: "document \<Rightarrow> document \<Rightarrow> pair_score option" where
  "table_sale_sequence_pair left right =
     (let source = (if is_prebill_source left then left else right);
          fiscal = (if is_prebill_source left then right else left);
          d = elapsed source fiscal
      in if \<not> is_prebill_source source then None
         else if doc_type fiscal \<noteq> COMMERCIAL_DOCUMENT then None
         else case same_table source fiscal of
             None \<Rightarrow> None
           | Some table \<Rightarrow>
               if \<not> prompt d 300 then None
               else if shared_items source fiscal = [] then None
               else Some (pair_of left right 100
                 [crit ''table_sale_sequence'' 40 True
                    (''preconto/gestionale seguito da chiusura fiscale sul tavolo '' @ table),
                  crit ''line_identity_overlap'' 35 True (common_items_text source fiscal),
                  crit ''time_proximity'' 25 True
                    (''chiusura dopo '' @ seconds_text d @ '' secondi; limite episodio 300'')]))"

definition cross_department_dispatch_pair :: "document \<Rightarrow> document \<Rightarrow> pair_score option" where
  "cross_department_dispatch_pair left right =
     (let d = delta left right
      in if doc_type left \<noteq> KITCHEN_ORDER \<or> doc_type right \<noteq> KITCHEN_ORDER then None
         else if source_device_id left = source_device_id right then None
         else case same_table left right of
             None \<Rightarrow> None
           | Some table \<Rightarrow>
               if \<not> no_longer d 30 then None
               else Some (pair_of left right 85
                 [crit ''CROSS_DEPARTMENT_DISPATCH'' 75 True
                    (''stesso tavolo '' @ table @ '', ticket cucina su dispositivi differenti''),
                  crit ''time_proximity'' 10 True (distance_text d @ ''; limite dispatch 30'')]))"

definition kitchen_management_baseline_pair :: "document \<Rightarrow> document \<Rightarrow> pair_score option" where
  "kitchen_management_baseline_pair left right =
     (let kitchen = (if doc_type left = KITCHEN_ORDER then left else right);
          management = (if doc_type left = KITCHEN_ORDER then right else left);
          d = elapsed kitchen management
      in if doc_type kitchen \<noteq> KITCHEN_ORDER then None
         else if doc_type management \<noteq> MANAGEMENT_DOCUMENT then None
         else if \<not> is_prebill_source management then None
         else case same_table kitchen management of
             None \<Rightarrow> None
           | Some table \<Rightarrow>
               if shared_items kitchen management = [] then None
               else if \<not> prompt d 30 then None
               else Some (pair_of left right 100
                 [crit ''kitchen_to_management_baseline'' 40 True
                    (''comanda seguita dalla baseline gestionale sul tavolo '' @ table),
                  crit ''line_identity_overlap'' 35 True (common_items_text kitchen management),
                  crit ''time_proximity'' 25 True
                    (''baseline dopo '' @ seconds_text d @ '' secondi; limite apertura 30'')]))"

definition same_table_change_pair :: "document \<Rightarrow> document \<Rightarrow> pair_score option" where
  "same_table_change_pair left right =
     (let kitchen = (if doc_type left = KITCHEN_ORDER then left else right);
          change = (if doc_type left = ORDER_CHANGE then left else right);
          d = elapsed kitchen change
      in if {doc_type left, doc_type right} \<noteq> {KITCHEN_ORDER, ORDER_CHANGE} then None
         else if source_device_id kitchen \<noteq> source_device_id change then None
         else case same_table kitchen change of
             None \<Rightarrow> None
           | Some table \<Rightarrow>
               if shared_items kitchen change = [] then None
               else if \<not> prompt d 300 then None
               else Some (pair_of left right 100
                 [crit ''SAME_TABLE_CHANGE_SEQUENCE'' 80 True
                    (''ticket cucina seguito da variazione sullo stesso dispositivo e tavolo ''
                     @ table),
                  crit ''line_identity_overlap'' 10 True (common_items_text kitchen change),
                  crit ''time_proximity'' 10 True
                    (''variazione dopo '' @ seconds_text d @ '' secondi; limite sequenza 300'')]))"

definition fiscal_siblings :: "engine \<Rightarrow> document \<Rightarrow> document \<Rightarrow> pair_score option" where
  "fiscal_siblings e left right =
     (let d = delta left right;
          order_match = normalise (order_code left) \<noteq> None
            \<and> normalise (order_code left) = normalise (order_code right)
      in if doc_type left \<notin> fiscal_sibling_types \<or> doc_type right \<notin> fiscal_sibling_types then None
         else if \<not> no_longer d (time_window_seconds e) then None
         else if \<not> (common_reference left right \<or> order_match) then None
         else Some (pair_of left right 80
           [crit ''split_fiscal_reference'' 70 True
              ''documenti fiscali parziali con riferimento ordine comune'',
            crit ''time_proximity'' 10 True (distance_text d)]))"

definition same_job :: "document \<Rightarrow> document \<Rightarrow> bool" where
  "same_job left right = (source_job_id left \<noteq> [] \<and> source_job_id left = source_job_id right)"

definition device_response_pair :: "engine \<Rightarrow> document \<Rightarrow> document \<Rightarrow> pair_score option" where
  "device_response_pair e left right =
     (let d = delta left right
      in if DEVICE_RESPONSE \<notin> {doc_type left, doc_type right} then None
         else if \<not> no_longer d (time_window_seconds e)
           then Some (rejected_pair left right ''risposta RCH fuori dalla finestra del job'')
         else if \<not> same_job left right
           then Some (rejected_pair left right ''risposta RCH osservata in un job differente'')
         else let cs = [crit ''response_job_context'' 80 True ''stesso job duplex'',
                        crit ''time_proximity'' 10 True (distance_text d)]
              in Some (pair_of left right (min 100 (matched_weight cs)) cs))"

text \<open>\<^verbatim>\<open>a or b\<close> on optional scores (a score object is always true).\<close>

fun first_pair :: "pair_score option list \<Rightarrow> pair_score \<Rightarrow> pair_score" where
  "first_pair [] p = p"
| "first_pair (Some q # qs) p = q"
| "first_pair (None # qs) p = first_pair qs p"

definition score_candidate_pair :: "engine \<Rightarrow> document \<Rightarrow> document \<Rightarrow> pair_score" where
  "score_candidate_pair e left right =
     (case device_response_pair e left right of
        Some p \<Rightarrow> p
      | None \<Rightarrow> (case episode_boundary_conflict left right of
          Some boundary \<Rightarrow> rejected_pair left right boundary
        | None \<Rightarrow> (case identity_conflict left right of
            Some conflict \<Rightarrow> rejected_pair left right conflict
          | None \<Rightarrow> first_pair
              [commercial_reference_pair e left right,
               table_sale_sequence_pair left right,
               kitchen_management_baseline_pair left right,
               fiscal_siblings e left right,
               same_table_change_pair left right,
               cross_department_dispatch_pair left right]
              (score_pair e left right))))"

section \<open>What every score guarantees\<close>

lemma crit_sel [simp]:
  "crit_name (crit n w m d) = n" "weight (crit n w m d) = w"
  "matched (crit n w m d) = m" "detail (crit n w m d) = d"
  by (simp_all add: crit_def)

lemma pair_of_sel [simp]:
  "left_id (pair_of l r s cs) = doc_id l" "right_id (pair_of l r s cs) = doc_id r"
  "pscore (pair_of l r s cs) = s" "criteria (pair_of l r s cs) = cs"
  by (simp_all add: pair_of_def)

lemma matched_weight_simps [simp]:
  "matched_weight [] = 0"
  "matched_weight (c # cs) = (if matched c then weight c else 0) + matched_weight cs"
  by (simp_all add: matched_weight_def)

lemma microsecond_pos [simp]: "0 < microsecond"
  by (simp add: microsecond_def)

lemma no_longer_mono: "no_longer d s \<Longrightarrow> s \<le> u \<Longrightarrow> no_longer d u"
  unfolding no_longer_def by (erule order_trans) (simp add: mult_right_mono microsecond_def)

lemma prompt_delta: "prompt (elapsed a b) s \<Longrightarrow> no_longer (delta a b) s"
  by (simp add: prompt_def elapsed_def delta_def delta_abs_def no_longer_def)

lemma delta_commute: "delta a b = delta b a"
  by (simp add: delta_def delta_abs_commute)

text \<open>The longest interval a positive link may span.\<close>

definition link_window :: "engine \<Rightarrow> int" where
  "link_window e = max 300 (time_window_seconds e)"

lemma link_windowI:
  "no_longer d (time_window_seconds e) \<Longrightarrow> no_longer d (link_window e)"
  "no_longer d 300 \<Longrightarrow> no_longer d (link_window e)"
  "no_longer d 30 \<Longrightarrow> no_longer d (link_window e)"
  by (auto simp: link_window_def elim: no_longer_mono)

text \<open>
  A link between two documents: it names them, its score is the weight of its matched criteria, and
  they are close in time.
\<close>

definition sound_link :: "engine \<Rightarrow> document \<Rightarrow> document \<Rightarrow> pair_score \<Rightarrow> bool" where
  "sound_link e l r p \<longleftrightarrow> left_id p = doc_id l \<and> right_id p = doc_id r
     \<and> pscore p = matched_weight (criteria p) \<and> 0 < pscore p \<and> pscore p \<le> 100
     \<and> no_longer (delta l r) (link_window e)"

named_theorems link_rules \<open>each protocol-specific link is sound\<close>

lemma commercial_reference_sound [link_rules]:
  "commercial_reference_pair e l r = Some p \<Longrightarrow> sound_link e l r p"
  unfolding commercial_reference_pair_def Let_def
  by (auto simp: sound_link_def link_windowI split: if_splits option.splits)

lemma table_sale_sequence_sound [link_rules]:
  "table_sale_sequence_pair l r = Some p \<Longrightarrow> sound_link e l r p"
  unfolding table_sale_sequence_pair_def Let_def
  by (auto simp: sound_link_def delta_commute split: if_splits option.splits
      dest!: prompt_delta intro!: link_windowI(2))

lemma kitchen_management_baseline_sound [link_rules]:
  "kitchen_management_baseline_pair l r = Some p \<Longrightarrow> sound_link e l r p"
  unfolding kitchen_management_baseline_pair_def Let_def
  by (auto simp: sound_link_def delta_commute split: if_splits option.splits
      dest!: prompt_delta intro!: link_windowI(3))

lemma fiscal_siblings_sound [link_rules]:
  "fiscal_siblings e l r = Some p \<Longrightarrow> sound_link e l r p"
  unfolding fiscal_siblings_def Let_def
  by (auto simp: sound_link_def link_windowI split: if_splits)

lemma same_table_change_sound [link_rules]:
  "same_table_change_pair l r = Some p \<Longrightarrow> sound_link e l r p"
  unfolding same_table_change_pair_def Let_def doubleton_eq_iff
  by (auto simp: sound_link_def delta_commute split: if_splits option.splits
      dest!: prompt_delta intro!: link_windowI(2))

lemma cross_department_dispatch_sound [link_rules]:
  "cross_department_dispatch_pair l r = Some p \<Longrightarrow> sound_link e l r p"
  unfolding cross_department_dispatch_pair_def Let_def
  by (auto simp: sound_link_def link_windowI split: if_splits option.splits)

lemma length_shared_le: "length (shared_items a b) \<le> length (remdups (keys_of a @ keys_of b))"
proof -
  have "distinct (shared_items a b)"
    by (simp add: shared_items_def keys_of_def distinct_line_keys)
  then have "length (shared_items a b) = card (set (shared_items a b))"
    by (simp add: distinct_card)
  also have "\<dots> \<le> card (set (keys_of a @ keys_of b))"
    by (rule card_mono) (auto simp: shared_items_def)
  finally show ?thesis by (simp add: length_remdups_card_conv)
qed

lemma line_similarity_range:
  assumes "line_similarity a b = Some s"
  shows "0 \<le> s \<and> s \<le> 1"
proof -
  let ?x = "of_nat (length (shared_items a b)) / of_nat (length (remdups (keys_of a @ keys_of b))) :: rat"
  have s: "s = ctx ?x"
    using assms by (auto simp: line_similarity_def Let_def dec_div_def split: if_splits)
  have "0 \<le> ?x" "?x \<le> of_int 1"
    using length_shared_le [of a b] by (simp_all add: divide_le_eq_1 of_nat_le_iff)
  then show ?thesis using ctx_between [of ?x 1] by (simp add: s)
qed

lemma line_weight_range:
  assumes "0 \<le> s" and "s \<le> 1"
  shows "0 \<le> half_even (dec_mul s 12) \<and> half_even (dec_mul s 12) \<le> 12"
proof -
  have "0 \<le> dec_mul s 12 \<and> dec_mul s 12 \<le> of_int 12"
    unfolding dec_mul_def by (rule ctx_between) (use assms in simp_all)
  then show ?thesis
    using half_even_ge [of 0 "dec_mul s 12"] half_even_le [of "dec_mul s 12" 12] by simp
qed

lemma line_criterion_weight: "0 \<le> weight (line_criterion l r) \<and> weight (line_criterion l r) \<le> 12"
  using line_weight_range line_similarity_range
  by (simp add: line_criterion_def split: option.splits)

lemma exact_sel [simp]:
  "crit_name (exact n w a b) = n" "weight (exact n w a b) = w"
  "matched (exact n w a b) \<longleftrightarrow> normalise a \<noteq> None \<and> normalise a = normalise b"
  by (simp_all add: exact_def Let_def)

lemma progressive_sel [simp]:
  "crit_name (progressive_criterion l r) = ''own_progressive_same_namespace''"
  "weight (progressive_criterion l r) = 15"
  "matched (progressive_criterion l r) = same_progressive l r"
  by (simp_all add: progressive_criterion_def Let_def)

lemma amount_sel:
  "crit_name (amount_criterion l r) = ''amount_relationship''"
  "0 \<le> weight (amount_criterion l r) \<and> weight (amount_criterion l r) \<le> 8"
  by (simp_all add: amount_criterion_def Let_def)

lemma time_weight_range: "0 \<le> time_weight e d \<and> time_weight e d \<le> 12"
  by (simp add: time_weight_def)

lemma matched_weight_nonneg: "list_all (\<lambda>c. 0 \<le> weight c) cs \<Longrightarrow> 0 \<le> matched_weight cs"
  by (induction cs) auto

lemma pair_criteria_nonneg: "list_all (\<lambda>c. 0 \<le> weight c) (pair_criteria e l r)"
  using line_criterion_weight [of l r] amount_sel(2) [of l r] time_weight_range
  by (simp add: pair_criteria_def Let_def)

lemma add_if_le: "0 \<le> w \<Longrightarrow> x \<le> y \<Longrightarrow> (if b then w else (0 :: int)) + x \<le> w + y"
  by simp

text \<open>Without a common identity or a common line, the criteria of context weigh at most 54.\<close>

lemma context_only_weight:
  assumes "\<not> (normalise (order_code l) \<noteq> None \<and> normalise (order_code l) = normalise (order_code r))"
    and "\<not> same_progressive l r" and "\<not> common_reference l r" and "\<not> matched (line_criterion l r)"
  shows "matched_weight (pair_criteria e l r) \<le> 54"
proof -
  let ?t = "time_weight e (delta l r)" and ?a = "weight (amount_criterion l r)"
  have "matched_weight (pair_criteria e l r) \<le> 12 + (5 + (4 + (0 + (?t + (3 + (?a + (8 + (2 + 0))))))))"
    using assms time_weight_range [of e "delta l r"] amount_sel(2) [of l r]
    unfolding pair_criteria_def Let_def matched_weight_simps exact_sel progressive_sel crit_sel
    by (simp only: if_False add_0) (intro add_if_le, simp_all)
  with time_weight_range [of e "delta l r"] amount_sel(2) [of l r] show ?thesis by linarith
qed

lemma first_pair_cases:
  "first_pair qs p = q \<Longrightarrow> Some q \<in> set qs \<or> q = p"
  by (induction qs p rule: first_pair.induct) auto

lemma score_candidate_cases:
  obtains (response) p where "device_response_pair e l r = Some p" and "score_candidate_pair e l r = p"
  | (rejected) reason where "DEVICE_RESPONSE \<notin> {doc_type l, doc_type r}"
      and "episode_boundary_conflict l r \<noteq> None \<or> identity_conflict l r \<noteq> None"
      and "score_candidate_pair e l r = rejected_pair l r reason"
  | (link) "DEVICE_RESPONSE \<notin> {doc_type l, doc_type r}"
      and "episode_boundary_conflict l r = None" and "identity_conflict l r = None"
      and "sound_link e l r (score_candidate_pair e l r)"
      and "Some (score_candidate_pair e l r) \<in> {commercial_reference_pair e l r,
        table_sale_sequence_pair l r, kitchen_management_baseline_pair l r, fiscal_siblings e l r,
        same_table_change_pair l r, cross_department_dispatch_pair l r}"
  | (weights) "DEVICE_RESPONSE \<notin> {doc_type l, doc_type r}"
      and "episode_boundary_conflict l r = None" and "identity_conflict l r = None"
      and "score_candidate_pair e l r = score_pair e l r"
proof (cases "device_response_pair e l r")
  case (Some p)
  then show thesis by (intro response) (simp_all add: score_candidate_pair_def)
next
  case None
  then have types: "DEVICE_RESPONSE \<notin> {doc_type l, doc_type r}"
    by (auto simp: device_response_pair_def Let_def split: if_splits)
  show thesis
  proof (cases "episode_boundary_conflict l r = None \<and> identity_conflict l r = None")
    case False
    then show thesis
      using None by (intro rejected [OF types, of "case episode_boundary_conflict l r of
          Some b \<Rightarrow> b | None \<Rightarrow> the (identity_conflict l r)"])
        (auto simp: score_candidate_pair_def split: option.splits)
  next
    case True
    let ?links = "[commercial_reference_pair e l r, table_sale_sequence_pair l r,
      kitchen_management_baseline_pair l r, fiscal_siblings e l r,
      same_table_change_pair l r, cross_department_dispatch_pair l r]"
    have "score_candidate_pair e l r = first_pair ?links (score_pair e l r)"
      using None True by (simp add: score_candidate_pair_def)
    from first_pair_cases [OF this [symmetric]]
    consider "Some (score_candidate_pair e l r) \<in> set ?links"
      | "score_candidate_pair e l r = score_pair e l r" by blast
    then show thesis
    proof cases
      case 1
      then have "sound_link e l r (score_candidate_pair e l r)"
        using link_rules by (metis (no_types, lifting) empty_iff empty_set insert_iff list.simps(15))
      then show thesis using True 1 by (intro link [OF types]) auto
    next
      case 2
      then show thesis using True by (intro weights [OF types]) auto
    qed
  qed
qed

lemma score_pair_sel:
  "left_id (score_pair e l r) = doc_id l" "right_id (score_pair e l r) = doc_id r"
  "criteria (score_pair e l r) = pair_criteria e l r"
  "pscore (score_pair e l r) = (if compatible l r \<and> no_longer (delta l r) (time_window_seconds e)
     then min 100 (matched_weight (pair_criteria e l r)) else 0)"
  by (simp_all add: score_pair_def Let_def)

lemma rejected_pair_sel [simp]:
  "left_id (rejected_pair l r m) = doc_id l" "right_id (rejected_pair l r m) = doc_id r"
  "pscore (rejected_pair l r m) = 0"
  "matched_weight (criteria (rejected_pair l r m)) = 0"
  by (simp_all add: rejected_pair_def)

lemma device_response_cases:
  assumes "device_response_pair e l r = Some p"
  shows "left_id p = doc_id l \<and> right_id p = doc_id r \<and>
    (pscore p = 0 \<or> pscore p = 90 \<and> same_job l r \<and> no_longer (delta l r) (time_window_seconds e))
    \<and> pscore p = matched_weight (criteria p)"
  using assms by (auto simp: device_response_pair_def Let_def split: if_splits)

lemma device_response_types:
  "device_response_pair e l r = Some p \<Longrightarrow> DEVICE_RESPONSE \<in> {doc_type l, doc_type r}"
  by (auto simp: device_response_pair_def Let_def split: if_splits)

lemma score_candidate_range [bound_intros]:
  "0 \<le> pscore (score_candidate_pair e l r) \<and> pscore (score_candidate_pair e l r) \<le> 100"
  using matched_weight_nonneg [OF pair_criteria_nonneg [of e l r]]
  by (cases rule: score_candidate_cases [of e l r])
    (auto simp: sound_link_def score_pair_sel dest: device_response_cases)

lemma score_candidate_names:
  "left_id (score_candidate_pair e l r) = doc_id l \<and> right_id (score_candidate_pair e l r) = doc_id r"
  by (cases rule: score_candidate_cases [of e l r])
    (auto simp: sound_link_def score_pair_sel dest: device_response_cases)

text \<open>
  Every candidate score lies between 0 and 100, names the two documents it was asked about, and
  is either zero or exactly the weight of its matched criteria cut at one hundred; and a pair whose
  identities contradict each other, or that straddles a new episode after an economic close, scores
  zero unless a device response is involved.
\<close>

theorem score_candidate_bounds:
  "let p = score_candidate_pair e l r in
     0 \<le> pscore p \<and> pscore p \<le> 100 \<and> left_id p = doc_id l \<and> right_id p = doc_id r
     \<and> (pscore p = 0 \<or> pscore p = min 100 (matched_weight (criteria p)))
     \<and> (pscore p = 0 \<or> DEVICE_RESPONSE \<in> {doc_type l, doc_type r}
        \<or> identity_conflict l r = None \<and> episode_boundary_conflict l r = None)"
proof -
  have "pscore p = 0 \<or> DEVICE_RESPONSE \<in> {doc_type l, doc_type r} \<or>
      identity_conflict l r = None \<and> episode_boundary_conflict l r = None"
    and "pscore p = 0 \<or> pscore p = min 100 (matched_weight (criteria p))"
    if "p = score_candidate_pair e l r" for p
    using that device_response_cases [of e l r] device_response_types [of e l r]
      matched_weight_nonneg [OF pair_criteria_nonneg [of e l r]]
    by (cases rule: score_candidate_cases [of e l r]; fastforce simp: sound_link_def score_pair_sel)+
  then show ?thesis
    using score_candidate_range [of e l r] score_candidate_names [of e l r] by (simp add: Let_def)
qed

text \<open>
  A positive score means that the documents are close in time (the configured window, or the
  five minutes of the protocol-specific links), that no conflict was observed between them, and
  that a device response is linked only to a document of its own duplex job.
\<close>

theorem positive_score_evidence:
  assumes "0 < pscore (score_candidate_pair e l r)"
  shows "no_longer (delta l r) (link_window e) \<and>
    (if DEVICE_RESPONSE \<in> {doc_type l, doc_type r} then same_job l r
     else identity_conflict l r = None \<and> episode_boundary_conflict l r = None)"
proof (cases rule: score_candidate_cases [of e l r])
  case (response p)
  have "DEVICE_RESPONSE \<in> {doc_type l, doc_type r}"
    using response(1) by (rule device_response_types)
  with assms response device_response_cases [OF response(1)] show ?thesis
    by (auto intro: link_windowI)
next
  case (rejected reason)
  with assms show ?thesis by simp
next
  case link
  then show ?thesis by (auto simp: sound_link_def)
next
  case weights
  with assms show ?thesis by (auto simp: score_pair_sel link_windowI split: if_splits)
qed

text \<open>The evidence that goes beyond context: a common identity, line, reference, job or dispatch.\<close>

definition strong_evidence :: "document \<Rightarrow> document \<Rightarrow> bool" where
  "strong_evidence l r \<longleftrightarrow>
     (normalise (order_code l) \<noteq> None \<and> normalise (order_code l) = normalise (order_code r))
     \<or> same_progressive l r \<or> common_reference l r \<or> shared_items l r \<noteq> [] \<or> same_job l r
     \<or> exact_reference l r \<or> exact_reference r l
     \<or> (doc_type l = KITCHEN_ORDER \<and> doc_type r = KITCHEN_ORDER \<and> same_table l r \<noteq> None
        \<and> source_device_id l \<noteq> source_device_id r \<and> no_longer (delta l r) 30)"

lemma shared_items_swap: "shared_items a b = [] \<longleftrightarrow> shared_items b a = []"
  by (auto simp: shared_items_def filter_empty_conv)

lemma line_criterion_matched: "matched (line_criterion l r) \<Longrightarrow> shared_items l r \<noteq> []"
  by (auto simp: line_criterion_def line_similarity_def dec_div_def ctx_def Let_def
      split: option.splits if_splits)

lemma links_strong:
  assumes "Some p \<in> {commercial_reference_pair e l r,
        table_sale_sequence_pair l r, kitchen_management_baseline_pair l r, fiscal_siblings e l r,
        same_table_change_pair l r, cross_department_dispatch_pair l r}"
  shows "strong_evidence l r"
proof -
  have "shared_items l r \<noteq> []" if "table_sale_sequence_pair l r = Some p"
    using that by (auto simp: table_sale_sequence_pair_def Let_def shared_items_swap [of r]
        split: if_splits option.splits)
  moreover have "shared_items l r \<noteq> []" if "kitchen_management_baseline_pair l r = Some p"
    using that by (auto simp: kitchen_management_baseline_pair_def Let_def shared_items_swap [of r]
        split: if_splits option.splits)
  moreover have "shared_items l r \<noteq> []" if "same_table_change_pair l r = Some p"
    using that unfolding same_table_change_pair_def Let_def doubleton_eq_iff
    by (auto simp: shared_items_swap [of r] split: if_splits option.splits)
  moreover have "exact_reference l r \<or> exact_reference r l \<or> shared_items l r \<noteq> []"
    if "commercial_reference_pair e l r = Some p"
    using that by (auto simp: commercial_reference_pair_def Let_def shared_items_swap [of r]
        split: if_splits option.splits)
  moreover have "strong_evidence l r" if "fiscal_siblings e l r = Some p"
    using that by (auto simp: fiscal_siblings_def Let_def strong_evidence_def split: if_splits)
  moreover have "strong_evidence l r" if "cross_department_dispatch_pair l r = Some p"
    using that by (auto simp: cross_department_dispatch_pair_def Let_def strong_evidence_def
        split: if_splits option.splits)
  ultimately show ?thesis using assms unfolding strong_evidence_def by auto
qed

text \<open>
  C31: context alone (table, operator, terminal, device, date, closeness, amounts, document types)
  never reaches a link: a score above 54, hence one of the default threshold of 60, rests on a
  common order code, own progressive, reference, line or duplex job, or on the simultaneous dispatch
  of one table to two departments.
\<close>

theorem link_needs_strong_evidence:
  assumes "54 < pscore (score_candidate_pair e l r)"
  shows "strong_evidence l r"
proof (cases rule: score_candidate_cases [of e l r])
  case (response p)
  with assms device_response_cases [OF response(1)] show ?thesis
    by (auto simp: strong_evidence_def)
next
  case (rejected reason)
  with assms show ?thesis by simp
next
  case link
  then show ?thesis by (intro links_strong)
next
  case weights
  then show ?thesis
    using assms context_only_weight [of l r e] line_criterion_matched [of l r]
    by (fastforce simp: score_pair_sel strong_evidence_def split: if_splits)
qed

section \<open>Scores do not depend on the order of the pair\<close>

named_theorems commute \<open>predicates on a pair that its order does not change\<close>

lemma length_shared_commute [commute]: "length (shared_items a b) = length (shared_items b a)"
proof -
  have "distinct (shared_items a b)" and "distinct (shared_items b a)"
    by (simp_all add: shared_items_def keys_of_def)
  moreover have "set (shared_items a b) = set (shared_items b a)"
    by (auto simp: shared_items_def)
  ultimately show ?thesis by (metis distinct_card)
qed

lemma line_similarity_commute [commute]: "line_similarity a b = line_similarity b a"
  using length_shared_commute [of a b]
  by (auto simp: line_similarity_def Let_def length_remdups_card_conv Un_commute)

lemma predicates_commute [commute]:
  "delta a b = delta b a" "common_reference a b = common_reference b a" "same_job a b = same_job b a"
  "same_table a b = same_table b a" "compatible a b = compatible b a"
  "both_differ x y = both_differ y x"
  by (auto simp: delta_commute common_reference_def list_ex_iff same_job_def same_table_def
      compatible_def both_differ_def Let_def insert_commute split: option.splits)

lemma equalities_commute [commute]:
  "same_progressive a b = same_progressive b a" "totals_equal a b = totals_equal b a"
  "(document_time a = t) = (t = document_time a)"
  unfolding same_progressive_def totals_equal_def by metis+

lemma plausible_partial_commute [commute]: "plausible_partial a b = plausible_partial b a"
  by (simp add: plausible_partial_def min.commute max.commute split: option.splits)

lemma exact_commute [commute]: "exact n w x y = exact n w y x"
proof -
  have "(normalise x \<noteq> None \<and> normalise x = normalise y)
      = (normalise y \<noteq> None \<and> normalise y = normalise x)" by metis
  then show ?thesis by (simp only: exact_def Let_def)
qed

lemma progressive_commute [commute]: "progressive_criterion a b = progressive_criterion b a"
proof -
  have "progressive_namespace a = progressive_namespace b" if "same_progressive a b"
    using that by (simp add: same_progressive_def)
  with equalities_commute(1) [of a b] show ?thesis
    by (cases "same_progressive a b") (simp_all add: progressive_criterion_def Let_def)
qed

lemma criteria_commute [commute]:
  "amount_criterion a b = amount_criterion b a" "line_criterion a b = line_criterion b a"
  by (simp_all add: amount_criterion_def line_criterion_def equalities_commute(2) [of a b]
      plausible_partial_commute [of a b] line_similarity_commute [of a b])

lemma pair_criteria_commute [commute]: "pair_criteria e a b = pair_criteria e b a"
proof -
  have "(date_of (document_time a) = date_of (document_time b))
      = (date_of (document_time b) = date_of (document_time a))"
    and "(source_device_id a = source_device_id b) = (source_device_id b = source_device_id a)"
    by auto
  then show ?thesis
    unfolding pair_criteria_def Let_def
    by (simp only: predicates_commute(1,2,5) [of a b] exact_commute [of _ _ "order_code a"]
        exact_commute [of _ _ "table_code a"] exact_commute [of _ _ "operator_code a"]
        exact_commute [of _ _ "terminal_code a"] exact_commute [of _ _ "source_session_id a"]
        progressive_commute [of a b] criteria_commute [of a b])
qed

text \<open>What a score says beyond the order of its two documents.\<close>

definition verdict :: "pair_score \<Rightarrow> int \<times> criterion list" where
  "verdict p = (pscore p, criteria p)"

lemma verdict_pair_of [simp]: "verdict (pair_of l r s cs) = (s, cs)"
  by (simp add: verdict_def)

lemma common_items_text_commute [commute]: "common_items_text a b = common_items_text b a"
  by (simp add: common_items_text_def length_shared_commute [of a b])

lemma score_pair_commute: "verdict (score_pair e a b) = verdict (score_pair e b a)"
  by (simp add: score_pair_def Let_def predicates_commute(1,5) [of a b] pair_criteria_commute [of e a b])

lemma verdict_distrib:
  "map_option verdict (if c then x else y) = (if c then map_option verdict x else map_option verdict y)"
  "map_option verdict (case v of None \<Rightarrow> None | Some t \<Rightarrow> f t)
    = (case v of None \<Rightarrow> None | Some t \<Rightarrow> map_option verdict (f t))"
  by (simp_all split: option.split)

lemma commercial_reference_commute:
  "map_option verdict (commercial_reference_pair e a b) = map_option verdict (commercial_reference_pair e b a)"
proof -
  have "map_option verdict (commercial_reference_pair e a b) = map_option verdict (commercial_reference_pair e b a)"
    if "doc_type a = COMMERCIAL_DOCUMENT" for a b
  proof (cases "doc_type b = COMMERCIAL_DOCUMENT")
    case True
    with that show ?thesis by (simp add: commercial_reference_pair_def)
  next
    case False
    with that show ?thesis
      by (simp add: commercial_reference_pair_def Let_def predicates_commute(1) [of a b]
          split: option.split)
  qed
  from this [of a b] this [of b a] show ?thesis
    by (cases "doc_type a = COMMERCIAL_DOCUMENT"; cases "doc_type b = COMMERCIAL_DOCUMENT")
      (simp_all add: commercial_reference_pair_def)
qed

lemma prebill_not_commercial: "is_prebill_source d \<Longrightarrow> doc_type d \<noteq> COMMERCIAL_DOCUMENT"
  by (auto simp: is_prebill_source_def)

lemma table_sale_sequence_commute:
  "map_option verdict (table_sale_sequence_pair a b) = map_option verdict (table_sale_sequence_pair b a)"
  using prebill_not_commercial [of a] prebill_not_commercial [of b]
  by (cases "is_prebill_source a"; cases "is_prebill_source b")
    (simp_all add: table_sale_sequence_pair_def Let_def split: option.split)

lemma kitchen_management_baseline_commute:
  "map_option verdict (kitchen_management_baseline_pair a b)
    = map_option verdict (kitchen_management_baseline_pair b a)"
  by (cases "doc_type a = KITCHEN_ORDER"; cases "doc_type b = KITCHEN_ORDER")
    (simp_all add: kitchen_management_baseline_pair_def Let_def verdict_distrib
      cong: if_cong option.case_cong split del: if_split)

lemma same_table_change_commute:
  "map_option verdict (same_table_change_pair a b) = map_option verdict (same_table_change_pair b a)"
proof (cases "{doc_type a, doc_type b} = {KITCHEN_ORDER, ORDER_CHANGE}")
  case True
  then show ?thesis
    unfolding doubleton_eq_iff
    by (elim disjE) (simp_all add: same_table_change_pair_def Let_def insert_commute verdict_distrib
      cong: if_cong option.case_cong split del: if_split)
next
  case False
  then show ?thesis by (simp add: same_table_change_pair_def insert_commute)
qed

lemma fiscal_siblings_commute:
  "map_option verdict (fiscal_siblings e a b) = map_option verdict (fiscal_siblings e b a)"
proof -
  have "(normalise (order_code a) \<noteq> None \<and> normalise (order_code a) = normalise (order_code b))
    = (normalise (order_code b) \<noteq> None \<and> normalise (order_code b) = normalise (order_code a))"
    by metis
  then show ?thesis
    by (simp add: fiscal_siblings_def Let_def predicates_commute(1,2) [of a b] del: not_None_eq)
qed

lemma cross_department_dispatch_commute:
  "map_option verdict (cross_department_dispatch_pair a b)
    = map_option verdict (cross_department_dispatch_pair b a)"
  by (auto simp: cross_department_dispatch_pair_def Let_def predicates_commute(1,4) [of a b]
      split: option.split)

lemma device_response_commute:
  "map_option verdict (device_response_pair e a b) = map_option verdict (device_response_pair e b a)"
  by (simp add: device_response_pair_def Let_def predicates_commute(1,3) [of a b] insert_commute
      rejected_pair_def)

lemmas links_commute = commercial_reference_commute table_sale_sequence_commute
  kitchen_management_baseline_commute same_table_change_commute fiscal_siblings_commute
  cross_department_dispatch_commute

lemma identity_conflict_commute [commute]: "identity_conflict a b = identity_conflict b a"
  by (simp add: identity_conflict_def predicates_commute(6) [of "normalise (order_code a)"]
      predicates_commute(6) [of "normalise (table_code a)"]
      predicates_commute(6) [of "strong_reference a"])

lemma episode_boundary_commute [commute]:
  "episode_boundary_conflict a b = episode_boundary_conflict b a"
proof (cases "doc_order a = doc_order b")
  case True
  then have "document_time a = document_time b" by (simp add: doc_order_def)
  then show ?thesis by (simp add: episode_boundary_conflict_def Let_def)
next
  case False
  then show ?thesis by (auto simp: episode_boundary_conflict_def Let_def)
qed

lemma first_pair_verdict:
  "map (map_option verdict) qs = map (map_option verdict) qs' \<Longrightarrow> verdict p = verdict p'
    \<Longrightarrow> verdict (first_pair qs p) = verdict (first_pair qs' p')"
proof (induction qs p arbitrary: qs' rule: first_pair.induct)
  case (2 q qs p)
  then show ?case by (cases qs') (auto simp: map_option_case split: option.splits)
next
  case (3 qs p)
  then show ?case by (cases qs') (auto simp: map_option_case split: option.splits)
qed simp

lemma score_candidate_commute:
  "verdict (score_candidate_pair e a b) = verdict (score_candidate_pair e b a)"
proof (cases "device_response_pair e a b")
  case (Some p)
  then obtain q where "device_response_pair e b a = Some q" and "verdict q = verdict p"
    using device_response_commute [of e a b] by (cases "device_response_pair e b a") auto
  with Some show ?thesis by (simp add: score_candidate_pair_def)
next
  case None
  then have none: "device_response_pair e b a = None"
    using device_response_commute [of e a b] by simp
  show ?thesis
    unfolding score_candidate_pair_def None none option.case
      episode_boundary_commute [of a b] identity_conflict_commute [of a b]
    by (auto simp: rejected_pair_def split: option.split
        intro!: first_pair_verdict score_pair_commute links_commute)
qed

text \<open>
  Scoring is symmetric: exchanging the two documents exchanges the two identifiers and changes
  neither the score nor any criterion, its weight or its explanation.
\<close>

theorem score_candidate_symmetric:
  "let p = score_candidate_pair e a b; q = score_candidate_pair e b a in
     pscore p = pscore q \<and> criteria p = criteria q \<and> left_id p = right_id q \<and> right_id p = left_id q"
  using score_candidate_commute [of e a b] score_candidate_names
  by (simp add: verdict_def Let_def)

section \<open>Examples\<close>

text \<open>A pre-bill and the commercial document that closes it two minutes later.\<close>

definition example_prebill :: document where
  "example_prebill = blank_document\<lparr>doc_id := 1, doc_type := PRE_BILL, table_code := Some ''12'',
     gross_total := Some 20, doc_lines := [blank_line\<lparr>item_code := Some ''P1''\<rparr>],
     document_timestamp := Some 1000000\<rparr>"

definition example_fiscal :: document where
  "example_fiscal = blank_document\<lparr>doc_id := 2, doc_type := COMMERCIAL_DOCUMENT,
     table_code := Some ''12'', gross_total := Some 18,
     doc_lines := [blank_line\<lparr>item_code := Some ''P1''\<rparr>],
     document_timestamp := Some 121000000\<rparr>"

definition default_engine :: engine where
  "default_engine = \<lparr>minimum_score = 60, time_window_seconds = 7200\<rparr>"

lemma example_score: "pscore (score_candidate_pair default_engine example_prebill example_fiscal) = 100"
  by code_simp

theorem positive_score_evidence_witness:
  "no_longer (delta example_prebill example_fiscal) (link_window default_engine) \<and>
   identity_conflict example_prebill example_fiscal = None"
proof -
  have "DEVICE_RESPONSE \<notin> {doc_type example_prebill, doc_type example_fiscal}" by code_simp
  with positive_score_evidence [of default_engine example_prebill example_fiscal] example_score
  show ?thesis by simp
qed

theorem link_needs_strong_evidence_witness:
  "54 < pscore (score_candidate_pair default_engine example_prebill example_fiscal) \<and>
   strong_evidence example_prebill example_fiscal"
  using link_needs_strong_evidence [of default_engine example_prebill example_fiscal] example_score
  by simp

section \<open>A confirmed suffix can hide an exact reference\<close>

text \<open>
  Whenever the observed suffix of a fiscal document also confirms the reference, the exact
  match of the full progressive is no longer tried: without a common table the copy that names the
  document in full gets no reference link at all, although without the confirmation it would be
  linked with 95.
\<close>

theorem suffix_hides_exact_reference:
  assumes "doc_type fiscal = COMMERCIAL_DOCUMENT"
    and "doc_type copy \<in> {MANAGEMENT_DOCUMENT, CONFORMING_COPY, REPRINT}"
    and "exact_reference copy fiscal" and "same_table copy fiscal = None"
    and "no_longer (delta copy fiscal) (time_window_seconds e)"
  shows "commercial_reference_pair e copy fiscal =
    (if suffix_reference copy fiscal then None
     else Some (pair_of copy fiscal 95
       [crit ''commercial_reference_to_fiscal_progressive'' 85 True
          ''riferimento commerciale uguale al progressivo proprio fiscale'',
        crit ''time_proximity'' 10 True (distance_text (delta copy fiscal))]))"
  using assms by (auto simp: commercial_reference_pair_def Let_def)

definition example_copy :: document where
  "example_copy = blank_document\<lparr>doc_id := 3, doc_type := CONFORMING_COPY,
     commercial_reference_code := Some ''0042-0007''\<rparr>"

definition example_numbered_fiscal :: document where
  "example_numbered_fiscal = example_fiscal\<lparr>external_document_code := Some ''0042-0007'',
     external_document_code_suffix := Some ''0007'',
     raw_metadata := [(''external_document_code_suffix_evidence'',
       JStr ''RCH_STATUS_RESPONSE_SUFFIX_SEQUENCE_CONFIRMED'')]\<rparr>"

theorem suffix_hides_exact_reference_witness:
  "exact_reference example_copy example_numbered_fiscal \<and>
   commercial_reference_pair default_engine example_copy example_numbered_fiscal = None"
proof -
  have "doc_type example_numbered_fiscal = COMMERCIAL_DOCUMENT"
    and "doc_type example_copy \<in> {MANAGEMENT_DOCUMENT, CONFORMING_COPY, REPRINT}"
    and "exact_reference example_copy example_numbered_fiscal"
    and "same_table example_copy example_numbered_fiscal = None"
    and "no_longer (delta example_copy example_numbered_fiscal) (time_window_seconds default_engine)"
    and "suffix_reference example_copy example_numbered_fiscal"
    by code_simp+
  then show ?thesis
    using suffix_hides_exact_reference [of example_numbered_fiscal example_copy default_engine] by simp
qed

end
