(* ===== verification/Correlate.thy ===== *)
theory Correlate imports Scores Forest begin

text \<open>
  \<^verbatim>\<open>CorrelationEngine.correlate\<close> and \<^verbatim>\<open>correlate_candidates\<close>: the guarded union-find over the scored
  pairs, the attachment of auxiliary documents, the grouping, and the transaction view built from
  every group. The generated identifier \<^verbatim>\<open>uuid5(NAMESPACE_URL, name)\<close> is a parameter.
\<close>

section \<open>Guards of a union\<close>

definition is_kitchen :: "document \<Rightarrow> bool" where
  "is_kitchen d = (doc_type d = KITCHEN_ORDER)"

definition is_management :: "document \<Rightarrow> bool" where
  "is_management d = (doc_type d = MANAGEMENT_DOCUMENT)"

definition opening_source :: "document \<Rightarrow> bool" where
  "opening_source d = (is_kitchen d \<or> (is_management d \<and> is_prebill_source d))"

definition conflict :: "document \<Rightarrow> document \<Rightarrow> bool" where
  "conflict a b = (identity_conflict a b \<noteq> None \<or> episode_boundary_conflict a b \<noteq> None)"

fun conflict_free :: "document list \<Rightarrow> bool" where
  "conflict_free [] = True"
| "conflict_free (d # ds) = (list_all (\<lambda>x. \<not> conflict d x) ds \<and> conflict_free ds)"

text \<open>\<^verbatim>\<open>max(times) - min(times)\<close>\<close>

definition spread :: "document list \<Rightarrow> int" where
  "spread ds = Max (set (map document_time ds)) - Min (set (map document_time ds))"

definition admissible :: "document list \<Rightarrow> bool" where
  "admissible proposed =
     (conflict_free proposed
      \<and> \<not> (proposed \<noteq> [] \<and> list_all is_kitchen proposed \<and> \<not> no_longer (spread proposed) 30)
      \<and> (let opening = filter opening_source proposed in
         \<not> (list_ex is_kitchen opening \<and> list_ex is_management opening
            \<and> \<not> no_longer (spread opening) 30 \<and> \<not> shared_strong_sale_identity opening)))"

section \<open>Union\<close>

text \<open>\<^verbatim>\<open>by_id\<close>: the last document of an identifier wins, as in a dictionary comprehension.\<close>

definition by_id :: "document list \<Rightarrow> uuid \<Rightarrow> document option" where
  "by_id docs i = List.find (\<lambda>d. doc_id d = i) (rev docs)"

definition doc_of :: "document list \<Rightarrow> uuid \<Rightarrow> document" where
  "doc_of docs i = the (by_id docs i)"

definition union :: "document list \<Rightarrow> uuid \<Rightarrow> uuid \<Rightarrow> forest \<Rightarrow> (forest \<times> bool) option" where
  "union docs left right s = (case find_in s left of
      None \<Rightarrow> None
    | Some (s1, left_root) \<Rightarrow> (case find_in s1 right of
        None \<Rightarrow> None
      | Some (s2, right_root) \<Rightarrow>
          if left_root = right_root then Some (s2, True)
          else if \<not> admissible (map (doc_of docs)
              (component_members s2 left_root @ component_members s2 right_root))
          then Some (s2, False)
          else Some (link s2 left_root right_root, True)))"

section \<open>Edges\<close>

type_synonym edges = "((uuid \<times> uuid) \<times> pair_score) list"

definition pair_key :: "uuid \<Rightarrow> uuid \<Rightarrow> uuid \<times> uuid" where
  "pair_key a b = (min a b, max a b)"

definition unique_pairs :: "document list \<Rightarrow> (uuid \<times> uuid) list \<Rightarrow> (uuid \<times> uuid) list" where
  "unique_pairs docs candidates = sorted_set (map (\<lambda>(l, r). pair_key l r)
     (filter (\<lambda>(l, r). l \<noteq> r \<and> l \<in> doc_id ` set docs \<and> r \<in> doc_id ` set docs) candidates))"

definition score_edges :: "engine \<Rightarrow> document list \<Rightarrow> (uuid \<times> uuid) list \<Rightarrow> edges" where
  "score_edges e docs candidates = map
     (\<lambda>(l, r). ((l, r), score_candidate_pair e (doc_of docs l) (doc_of docs r)))
     (unique_pairs docs candidates)"

text \<open>The edges that reach the threshold, as \<^verbatim>\<open>(-score, delta, left, right)\<close>.\<close>

definition ranked :: "engine \<Rightarrow> document list \<Rightarrow> edges \<Rightarrow> (int \<times> int \<times> uuid \<times> uuid) list" where
  "ranked e docs edges = map
     (\<lambda>((l, r), p). (- pscore p, delta (doc_of docs l) (doc_of docs r), l, r))
     (filter (\<lambda>(_, p). minimum_score e \<le> pscore p) edges)"

definition aux :: "document list \<Rightarrow> uuid \<Rightarrow> bool" where
  "aux docs i = is_auxiliary (doc_of docs i)"

definition core_edges :: "engine \<Rightarrow> document list \<Rightarrow> edges \<Rightarrow> (int \<times> int \<times> uuid \<times> uuid) list" where
  "core_edges e docs edges =
     filter (\<lambda>(_, _, l, r). \<not> aux docs l \<and> \<not> aux docs r) (ranked e docs edges)"

definition push_auxiliary ::
    "document list \<Rightarrow> int \<times> int \<times> uuid \<times> uuid
     \<Rightarrow> (uuid, (int \<times> int \<times> uuid) list) dict \<Rightarrow> (uuid, (int \<times> int \<times> uuid) list) dict" where
  "push_auxiliary docs edge d = (case edge of (s, t, l, r) \<Rightarrow>
     if aux docs l \<and> aux docs r then d
     else if aux docs l then dict_push l (s, t, r) d
     else if aux docs r then dict_push r (s, t, l) d
     else d)"

definition auxiliary_edges ::
    "engine \<Rightarrow> document list \<Rightarrow> edges \<Rightarrow> (uuid, (int \<times> int \<times> uuid) list) dict" where
  "auxiliary_edges e docs edges = fold (push_auxiliary docs) (ranked e docs edges) []"

section \<open>The three loops\<close>

definition core_step :: "document list \<Rightarrow> int \<times> int \<times> uuid \<times> uuid \<Rightarrow> forest \<Rightarrow> forest option" where
  "core_step docs edge s = (case edge of (_, _, l, r) \<Rightarrow> map_option fst (union docs l r s))"

definition auxiliary_step ::
    "document list \<Rightarrow> uuid \<times> (int \<times> int \<times> uuid) list \<Rightarrow> forest \<Rightarrow> forest option" where
  "auxiliary_step docs item s = (case item of (auxiliary_id, candidates) \<Rightarrow>
     (case Min (set candidates) of (_, _, target) \<Rightarrow>
        map_option fst (union docs auxiliary_id target s)))"

definition group_step ::
    "document \<Rightarrow> forest \<times> (uuid, document list) dict
     \<Rightarrow> (forest \<times> (uuid, document list) dict) option" where
  "group_step d st = (case st of (s, groups) \<Rightarrow>
     map_option (\<lambda>(s', r). (s', dict_push r d groups)) (find_in s (doc_id d)))"

definition components ::
    "engine \<Rightarrow> document list \<Rightarrow> edges \<Rightarrow> (uuid, document list) dict option" where
  "components e ordered edges =
     (case loop (core_step ordered) (sort (core_edges e ordered edges)) singletons of
        None \<Rightarrow> None
      | Some s \<Rightarrow> (case loop (auxiliary_step ordered)
            (sort_key fst (auxiliary_edges e ordered edges)) s of
          None \<Rightarrow> None
        | Some s' \<Rightarrow> map_option snd (loop group_step ordered (s', []))))"

section \<open>The transaction view\<close>

record timeline_entry =
  tl_document_id :: uuid
  tl_document_type :: document_type
  tl_occurred_at :: timestamp
  tl_gross_total :: "rat option"
  tl_source_device_id :: string
  tl_source_job_id :: string

record transaction =
  transaction_id :: uuid
  correlation :: "correlation_result option"
  tx_documents :: "document list"
  prebill_total :: "rat option"
  fiscal_total :: rat
  observed_final_total :: rat
  payment_total :: rat
  difference_amount :: "rat option"
  difference_percent :: "rat option"
  split_payment :: bool
  tx_line_changes :: "line_change list"
  timeline :: "timeline_entry list"

definition algorithm_version_text :: string where
  "algorithm_version_text = ''rpg-correlation-1.5.0''"

text \<open>\<^verbatim>\<open>for index, left in enumerate(xs): for right in xs[index + 1:]\<close>\<close>

fun all_pairs :: "'a list \<Rightarrow> ('a \<times> 'a) list" where
  "all_pairs [] = []"
| "all_pairs (x # xs) = map (Pair x) xs @ all_pairs xs"

definition relevant_edges :: "engine \<Rightarrow> document list \<Rightarrow> edges \<Rightarrow> pair_score list" where
  "relevant_edges e docs edges = List.map_filter
     (\<lambda>(l, r). case map_of edges (pair_key (doc_id l) (doc_id r)) of
        None \<Rightarrow> None
      | Some p \<Rightarrow> if minimum_score e \<le> pscore p then Some p else None)
     (all_pairs docs)"

definition linked_scores :: "pair_score list \<Rightarrow> uuid \<Rightarrow> int list" where
  "linked_scores relevant i =
     map pscore (filter (\<lambda>p. i = left_id p \<or> i = right_id p) relevant)"

definition best_link :: "pair_score list \<Rightarrow> uuid \<Rightarrow> int" where
  "best_link relevant i = (let linked = linked_scores relevant i in
     if linked = [] then 0 else Max (set linked))"

definition build_correlation ::
    "engine \<Rightarrow> uuid \<Rightarrow> document list \<Rightarrow> edges \<Rightarrow> validation_error + correlation_result" where
  "build_correlation e tid docs edges =
     (let relevant = relevant_edges e docs edges;
          score = Min (set (map (\<lambda>d. best_link relevant (doc_id d)) docs));
          cs = concat (map criteria relevant);
          matched_names = sorted_set (map crit_name (filter matched cs));
          unmatched_names = sorted_set (filter (\<lambda>n. n \<notin> set matched_names)
            (map crit_name (filter (\<lambda>c. \<not> matched c) cs)));
          evidence = sorted_set (map detail (filter matched cs))
      in make_correlation_result tid (map doc_id docs) score algorithm_version_text
           matched_names unmatched_names
           (digits (length docs) @ '' documenti collegati con punteggio minimo '' @ show_int score
            @ ''; criteri: '' @ join '', '' matched_names
            @ ''; evidenze: '' @ join ''; '' evidence))"

definition last_option :: "'a list \<Rightarrow> 'a option" where
  "last_option xs = (if xs = [] then None else Some (last xs))"

definition valid_fiscal :: "document list \<Rightarrow> document list" where
  "valid_fiscal docs = filter (\<lambda>d. complete d \<and> total d \<noteq> None)
     (filter (\<lambda>d. doc_type d \<in> fiscal_types) docs)"

definition management_baseline :: "document \<Rightarrow> document \<Rightarrow> bool" where
  "management_baseline fiscal d = (is_prebill_source d \<and> is_management d
     \<and> document_time d \<le> document_time fiscal
     \<and> normalise (table_code fiscal) \<noteq> None
     \<and> normalise (table_code d) = normalise (table_code fiscal)
     \<and> shared_items d fiscal \<noteq> [])"

definition find_prebill :: "document list \<Rightarrow> document option" where
  "find_prebill docs = (case valid_fiscal docs of
      [] \<Rightarrow> last_option (filter (\<lambda>d. doc_type d = PRE_BILL) docs)
    | first_fiscal # _ \<Rightarrow>
        (case last_option (filter (\<lambda>d. doc_type d = PRE_BILL
              \<and> document_time d \<le> document_time first_fiscal) docs) of
           Some p \<Rightarrow> Some p
         | None \<Rightarrow> last_option (filter (management_baseline first_fiscal) docs)))"

definition management_closures :: "document option \<Rightarrow> document list \<Rightarrow> document list" where
  "management_closures prebill docs = filter (\<lambda>d. is_management d
     \<and> map_option doc_id prebill \<noteq> Some (doc_id d) \<and> total d \<noteq> None \<and> economic_close d) docs"

definition sum_totals :: "document list \<Rightarrow> rat" where
  "sum_totals ds = (\<Sum>d\<leftarrow>ds. or_else (total d) 0)"

definition timeline_entry_of :: "document \<Rightarrow> timeline_entry" where
  "timeline_entry_of d = \<lparr>tl_document_id = doc_id d, tl_document_type = doc_type d,
     tl_occurred_at = document_time d, tl_gross_total = total d,
     tl_source_device_id = source_device_id d, tl_source_job_id = source_job_id d\<rparr>"

definition economic_closures :: "document list \<Rightarrow> document list" where
  "economic_closures docs = (let fiscal = valid_fiscal docs in
     if fiscal \<noteq> [] then fiscal else management_closures (find_prebill docs) docs)"

definition prebill_total_of :: "document list \<Rightarrow> rat option" where
  "prebill_total_of docs = (case find_prebill docs of None \<Rightarrow> None | Some p \<Rightarrow> total p)"

text \<open>
  \<^verbatim>\<open>(difference / prebill_total * HUNDRED).quantize(Decimal("0.0001"))\<close>, which raises when the result has more
  digits than the context. The totals are added exactly, as the context does below 28 digits, that is for
  sums of money amounts below \<open>10 ^ 24\<close>.
\<close>

definition percent_of :: "rat option \<Rightarrow> rat \<Rightarrow> validation_error + rat option" where
  "percent_of pre comparison = (case pre of None \<Rightarrow> Inr None
     | Some t \<Rightarrow> if t = 0 then Inr None
         else let x = dec_mul (dec_div (t - comparison) t) 100 in
           if 10 ^ 28 \<le> \<bar>half_even (x * 10 ^ 4)\<bar> then Inl PercentOverflow else Inr (Some (quantize 4 x)))"

definition comparison_changes :: "document list \<Rightarrow> line_change list" where
  "comparison_changes docs = (let final_lines = concat (map doc_lines (economic_closures docs)) in
     case find_prebill docs of
       None \<Rightarrow> []
     | Some p \<Rightarrow> if doc_lines p \<noteq> [] \<and> final_lines \<noteq> []
         then compare_document_lines (doc_lines p) final_lines else [])"

definition transaction_name :: "document list \<Rightarrow> string" where
  "transaction_name docs = algorithm_version_text @ '':'' @
     join '':'' (map uuid_text (sort (map doc_id docs)))"

definition build_transaction ::
    "(string \<Rightarrow> uuid) \<Rightarrow> engine \<Rightarrow> document list \<Rightarrow> edges \<Rightarrow> validation_error + transaction" where
  "build_transaction uuid5 e documents edges =
     (let docs = sort_key doc_order documents;
          tid = uuid5 (transaction_name docs);
          fiscal = valid_fiscal docs;
          comparison = sum_totals (economic_closures docs)
      in case (if 1 < length docs then map_sum id Some (build_correlation e tid docs edges)
               else Inr None) of
           Inl err \<Rightarrow> Inl err
         | Inr corr \<Rightarrow> (case percent_of (prebill_total_of docs) comparison of
           Inl err \<Rightarrow> Inl err
         | Inr percent \<Rightarrow> if docs = [] then Inl EmptyTransaction else Inr \<lparr>
             transaction_id = tid,
             correlation = corr,
             tx_documents = docs,
             prebill_total = prebill_total_of docs,
             fiscal_total = sum_totals fiscal,
             observed_final_total = comparison,
             payment_total = (\<Sum>p\<leftarrow>authoritative_payments docs fiscal. amount p),
             difference_amount = map_option (\<lambda>t. t - comparison) (prebill_total_of docs),
             difference_percent = percent,
             split_payment = (1 < length fiscal \<and> 0 < sum_totals fiscal),
             tx_line_changes = comparison_changes docs,
             timeline = map timeline_entry_of docs\<rparr>))"

section \<open>Correlation\<close>

definition transaction_order :: "transaction \<Rightarrow> timestamp \<times> nat" where
  "transaction_order t = (tl_occurred_at (hd (timeline t)), unat (transaction_id t))"

definition correlate_pairs ::
    "(string \<Rightarrow> uuid) \<Rightarrow> engine \<Rightarrow> document list \<Rightarrow> (uuid \<times> uuid) list
     \<Rightarrow> (validation_error + transaction list) option" where
  "correlate_pairs uuid5 e ordered candidates =
     (if ordered = [] then Some (Inr [])
      else let edges = score_edges e ordered candidates in
        (case components e ordered edges of
           None \<Rightarrow> None
         | Some groups \<Rightarrow> Some (map_sum id (sort_key transaction_order)
             (collect (map (\<lambda>(_, group). build_transaction uuid5 e group edges)
                           (sort_key fst groups))))))"

definition correlate ::
    "(string \<Rightarrow> uuid) \<Rightarrow> engine \<Rightarrow> document list \<Rightarrow> (validation_error + transaction list) option" where
  "correlate uuid5 e docs = (let ordered = sort_key doc_order docs in
     correlate_pairs uuid5 e ordered (map (\<lambda>(l, r). (doc_id l, doc_id r)) (all_pairs ordered)))"

definition correlate_candidates ::
    "(string \<Rightarrow> uuid) \<Rightarrow> engine \<Rightarrow> document list \<Rightarrow> (uuid \<times> uuid) list
     \<Rightarrow> (validation_error + transaction list) option" where
  "correlate_candidates uuid5 e docs candidates =
     correlate_pairs uuid5 e (sort_key doc_order docs) candidates"

end
