(* ===== verification/Episodes.thy ===== *)
theory Episodes imports Correlate begin

text \<open>
  What the correlation engine guarantees: the invariants of the guarded union-find, carried through
  its two phases, and the properties of the transactions it returns.
\<close>

section \<open>What the guards guarantee\<close>

definition one_identity :: "document set \<Rightarrow> bool" where
  "one_identity D \<longleftrightarrow> (\<exists>c. \<forall>d \<in> D. normalise (order_code d) = Some c)
     \<or> (\<exists>c. \<forall>d \<in> D. strong_reference d = Some c)"

text \<open>
  A coherent episode: no two documents conflict; kitchen tickets alone span at most thirty seconds;
  kitchen tickets together with management baselines span at most thirty seconds unless they all
  carry one explicit identity.
\<close>

definition coherent :: "document set \<Rightarrow> bool" where
  "coherent D \<longleftrightarrow> (\<forall>a \<in> D. \<forall>b \<in> D. \<not> conflict a b)
     \<and> ((\<forall>d \<in> D. is_kitchen d) \<longrightarrow> (\<forall>a \<in> D. \<forall>b \<in> D. no_longer (delta a b) 30))
     \<and> ((\<exists>k \<in> D. is_kitchen k) \<and> (\<exists>m \<in> D. is_management m \<and> is_prebill_source m) \<longrightarrow>
          (\<forall>a \<in> D. \<forall>b \<in> D. opening_source a \<and> opening_source b \<longrightarrow> no_longer (delta a b) 30)
          \<or> one_identity {d \<in> D. opening_source d})"

lemma conflict_sym: "conflict a b = conflict b a"
  by (simp add: conflict_def identity_conflict_commute [of a b] episode_boundary_commute [of a b])

lemma conflict_irrefl: "\<not> conflict a a"
  by (simp add: conflict_def identity_conflict_def both_differ_def episode_boundary_conflict_def Let_def)

lemma conflict_free_set: "conflict_free ds \<Longrightarrow> a \<in> set ds \<Longrightarrow> b \<in> set ds \<Longrightarrow> \<not> conflict a b"
proof (induction ds)
  case (Cons d ds)
  then show ?case using conflict_sym conflict_irrefl by (auto simp: list_all_iff)
qed simp

lemma spread_delta:
  assumes "no_longer (spread ds) s" and "a \<in> set ds" and "b \<in> set ds"
  shows "no_longer (delta a b) s"
proof -
  have le: "document_time x \<le> Max (set (map document_time ds))"
    and ge: "Min (set (map document_time ds)) \<le> document_time x" if "x \<in> set ds" for x
    using that by simp_all
  have "delta a b \<le> spread ds"
    using le [OF assms(2)] ge [OF assms(2)] le [OF assms(3)] ge [OF assms(3)]
    by (simp add: delta_def delta_abs_def spread_def)
  with assms(1) show ?thesis by (simp add: no_longer_def)
qed

lemma all_same_Some: "all_same vs \<Longrightarrow> \<exists>c. \<forall>v \<in> set vs. v = Some c"
proof -
  assume same: "all_same vs"
  then obtain w where "remdups vs = [w]" by (auto simp: all_same_def length_Suc_conv)
  then have "set vs = {w}" by (metis set_remdups empty_set list.simps(15))
  with same show ?thesis by (auto simp: all_same_def list_all_iff)
qed

lemma shared_strong_one_identity: "shared_strong_sale_identity ds \<Longrightarrow> one_identity (set ds)"
  unfolding shared_strong_sale_identity_def one_identity_def
  by (auto split: if_splits dest!: all_same_Some)

lemma admissible_coherent: "admissible ds \<Longrightarrow> coherent (set ds)"
proof -
  assume adm: "admissible ds"
  let ?o = "filter opening_source ds"
  have "\<not> conflict a b" if "a \<in> set ds" "b \<in> set ds" for a b
    using adm that conflict_free_set [of ds a b] by (auto simp: admissible_def)
  moreover have "no_longer (delta a b) 30"
    if "\<forall>d \<in> set ds. is_kitchen d" "a \<in> set ds" "b \<in> set ds" for a b
  proof -
    have "ds \<noteq> []" using that by auto
    then have "no_longer (spread ds) 30" using adm that by (auto simp: admissible_def list_all_iff)
    with that show ?thesis using spread_delta by blast
  qed
  moreover have "(\<forall>a \<in> set ds. \<forall>b \<in> set ds. opening_source a \<and> opening_source b
        \<longrightarrow> no_longer (delta a b) 30) \<or> one_identity {d \<in> set ds. opening_source d}"
    if "k \<in> set ds" "is_kitchen k" "m \<in> set ds" "is_management m" "is_prebill_source m" for k m
  proof -
    have "list_ex is_kitchen ?o" "list_ex is_management ?o"
      using that by (auto simp: list_ex_iff opening_source_def)
    then have "no_longer (spread ?o) 30 \<or> shared_strong_sale_identity ?o"
      using adm by (auto simp: admissible_def Let_def)
    then show ?thesis
      using spread_delta [of ?o 30] shared_strong_one_identity [of ?o] by auto
  qed
  ultimately show ?thesis unfolding coherent_def by blast
qed

lemma coherent_single: "coherent {d}"
  by (simp add: coherent_def conflict_irrefl delta_def delta_abs_def no_longer_def microsecond_def)

section \<open>One union\<close>

text \<open>The identifiers in the component of an identifier.\<close>

definition component :: "forest \<Rightarrow> uuid \<Rightarrow> uuid set" where
  "component s v = {w. rep s w = rep s v}"

lemma component_self [simp]: "v \<in> component s v"
  by (simp add: component_def)

lemma component_eq: "w \<in> component s v \<Longrightarrow> component s w = component s v"
  by (simp add: component_def)

text \<open>
  What a union does to the components: nothing, or it merges the two components, and then the
  merged documents are coherent.
\<close>

definition union_step :: "document list \<Rightarrow> uuid \<Rightarrow> uuid \<Rightarrow> forest \<Rightarrow> forest \<Rightarrow> bool" where
  "union_step docs l r s s' \<longleftrightarrow>
     (\<forall>v. component s' v = component s v)
     \<or> coherent (doc_of docs ` (component s l \<union> component s r))
        \<and> (\<forall>v. component s' v =
             (if v \<in> component s l \<union> component s r then component s l \<union> component s r
              else component s v))"

lemma union_returns:
  assumes ok: "forest_ok s"
  shows "\<exists>s' b. union docs l r s = Some (s', b) \<and> forest_ok s' \<and> union_step docs l r s s'"
proof -
  from forests.find_two [OF ok, of l r] obtain s1 s2 where
    f: "find_in s l = Some (s1, rep s l)" "find_in s1 r = Some (s2, rep s r)" and
    s2: "forest_ok s2" "rep s2 = rep s" "component_members s2 = component_members s" by blast
  let ?ids = "component_members s2 (rep s l) @ component_members s2 (rep s r)"
  have keep: "union_step docs l r s s2" by (simp add: union_step_def component_def s2)
  have ids: "set ?ids = component s l \<union> component s r"
    using forests.elems_rep [OF ok] by (simp add: s2 component_def)
  show ?thesis
  proof (cases "rep s l = rep s r \<or> \<not> admissible (map (doc_of docs) ?ids)")
    case True
    then show ?thesis using f s2 keep by (auto simp: union_def)
  next
    case False
    let ?s = "link s2 (rep s2 l) (rep s2 r)"
    have reps: "rep s2 (rep s2 l) = rep s2 l" "rep s2 (rep s2 r) = rep s2 r"
      and ne: "rep s2 l \<noteq> rep s2 r"
      using False forests.rep_rep [OF s2(1)] by (auto simp: s2)
    have ok': "forest_ok ?s" by (rule forests.join_inv [OF s2(1) reps ne])
    have "component ?s v = (if v \<in> component s l \<union> component s r
        then component s l \<union> component s r else component s v)" for v
      using forests.join_rep [OF s2(1) reps ne] by (auto simp: component_def s2)
    moreover have "coherent (doc_of docs ` (component s l \<union> component s r))"
      using admissible_coherent [of "map (doc_of docs) ?ids"] False unfolding set_map ids by blast
    ultimately have "union_step docs l r s ?s" by (simp add: union_step_def)
    then show ?thesis using f False ok' by (auto simp: union_def s2)
  qed
qed

interpretation core_loop: total_loop "core_step docs" forest_ok
    "\<lambda>(_, _, l, r). union_step docs l r" for docs
proof
  fix s :: forest and x :: "int \<times> int \<times> uuid \<times> uuid"
  assume ok: "forest_ok s"
  obtain a b l r where x: "x = (a, b, l, r)" by (cases x)
  show "\<exists>s'. core_step docs x s = Some s' \<and> forest_ok s' \<and> (case x of (_, _, l, r) \<Rightarrow> union_step docs l r) s s'"
    using union_returns [OF ok, of docs l r] by (auto simp: x core_step_def)
qed

definition parent_of :: "(int \<times> int \<times> uuid) list \<Rightarrow> uuid" where
  "parent_of candidates = snd (snd (Min (set candidates)))"

interpretation auxiliary_loop: total_loop "auxiliary_step docs" forest_ok
    "\<lambda>(i, candidates). union_step docs i (parent_of candidates)" for docs
proof
  fix s :: forest and x :: "uuid \<times> (int \<times> int \<times> uuid) list"
  assume ok: "forest_ok s"
  obtain i cs where x: "x = (i, cs)" by (cases x)
  obtain a b t where m: "Min (set cs) = (a, b, t)" by (cases "Min (set cs)")
  show "\<exists>s'. auxiliary_step docs x s = Some s' \<and> forest_ok s' \<and> (case x of (i, cs) \<Rightarrow> union_step docs i (parent_of cs)) s s'"
    using union_returns [OF ok, of docs i t] by (auto simp: x m auxiliary_step_def parent_of_def)
qed

section \<open>Grouping\<close>

definition group_by :: "('d \<Rightarrow> 'k) \<Rightarrow> 'd list \<Rightarrow> ('k, 'd list) dict" where
  "group_by f ds = fold (\<lambda>d. dict_push (f d) d) ds []"

lemma loop_group:
  assumes "forest_ok s"
  shows "\<exists>s'. loop group_step ds (s, g) = Some (s', fold (\<lambda>d. dict_push (rep s (doc_id d)) d) ds g)"
  using assms
proof (induction ds arbitrary: s g)
  case (Cons d ds)
  from forest_ok_find [OF Cons.prems, of "doc_id d"] obtain s' where
    "find_in s (doc_id d) = Some (s', rep s (doc_id d))" "forest_ok s'" "rep s' = rep s" by blast
  then show ?case using Cons.IH [of s'] by (simp add: group_step_def)
qed simp

lemma distinct_group_from:
  "distinct (map fst g) \<Longrightarrow> distinct (map fst (fold (\<lambda>d. dict_push (f d) d) ds g))"
  by (induction ds arbitrary: g) (simp_all add: distinct_dict_push)

lemma map_of_group_from:
  "map_of (fold (\<lambda>d. dict_push (f d) d) ds g) k =
     (let new = filter (\<lambda>d. f d = k) ds in
      if new = [] then map_of g k
      else Some ((case map_of g k of None \<Rightarrow> [] | Some vs \<Rightarrow> vs) @ new))"
  by (induction ds arbitrary: g) (auto simp: map_of_dict_push Let_def split: option.splits)

lemma distinct_group_by [simp]: "distinct (map fst (group_by f ds))"
  by (simp add: group_by_def distinct_group_from)

lemma group_by_member:
  "(k, g) \<in> set (group_by f ds) \<longleftrightarrow> g = filter (\<lambda>d. f d = k) ds \<and> filter (\<lambda>d. f d = k) ds \<noteq> []"
proof -
  have "(k, g) \<in> set (group_by f ds) \<longleftrightarrow> map_of (group_by f ds) k = Some g"
    by simp
  also have "map_of (group_by f ds) k =
      (if filter (\<lambda>d. f d = k) ds = [] then None else Some (filter (\<lambda>d. f d = k) ds))"
    using map_of_group_from [of f ds "[]" k] by (simp add: group_by_def Let_def)
  finally show ?thesis by auto
qed

lemma mset_update:
  "distinct (map fst g) \<Longrightarrow> map_of g k = Some vs \<Longrightarrow>
     mset (concat (map snd (AList.update k (vs @ [v]) g))) = add_mset v (mset (concat (map snd g)))"
  by (induction g) auto

lemma mset_dict_push:
  "distinct (map fst g) \<Longrightarrow>
     mset (concat (map snd (dict_push k v g))) = add_mset v (mset (concat (map snd g)))"
  by (auto simp: dict_push_def mset_update split: option.split)

lemma mset_group_by: "mset (concat (map snd (group_by f ds))) = mset ds"
proof -
  have "mset (concat (map snd (fold (\<lambda>d. dict_push (f d) d) ds g))) = mset (concat (map snd g)) + mset ds"
    if "distinct (map fst g)" for g
    using that by (induction ds arbitrary: g) (simp_all add: distinct_dict_push mset_dict_push)
  from this [of "[]"] show ?thesis by (simp add: group_by_def)
qed

section \<open>Edges\<close>

definition ids :: "document list \<Rightarrow> uuid set" where
  "ids docs = doc_id ` set docs"

lemma doc_of_id [simp]:
  assumes "distinct (map doc_id docs)" and "d \<in> set docs"
  shows "doc_of docs (doc_id d) = d"
proof -
  obtain x where x: "by_id docs (doc_id d) = Some x"
    using assms(2) by (cases "by_id docs (doc_id d)") (auto simp: by_id_def find_None_iff)
  then have "x \<in> set docs" and "doc_id x = doc_id d"
    by (auto simp: by_id_def find_Some_iff) (metis length_rev nth_mem set_rev)
  then have "x = d" using assms by (auto simp: distinct_map dest: inj_onD)
  with x show ?thesis by (simp add: doc_of_def)
qed

lemma pair_key_commute: "pair_key a b = pair_key b a"
  by (simp add: pair_key_def min.commute max.commute)

lemma set_unique_pairs:
  "(l, r) \<in> set (unique_pairs docs cands) \<longleftrightarrow>
     l < r \<and> l \<in> ids docs \<and> r \<in> ids docs \<and> ((l, r) \<in> set cands \<or> (r, l) \<in> set cands)"
  by (fastforce simp: unique_pairs_def pair_key_def ids_def min_def max_def image_iff)

definition scored :: "engine \<Rightarrow> document list \<Rightarrow> uuid \<Rightarrow> uuid \<Rightarrow> pair_score" where
  "scored e docs l r = score_candidate_pair e (doc_of docs l) (doc_of docs r)"

lemma map_of_score_edges:
  "map_of (score_edges e docs cands) (l, r) =
     (if (l, r) \<in> set (unique_pairs docs cands) then Some (scored e docs l r) else None)"
proof -
  have "map_of (map (\<lambda>(l, r). ((l, r), f l r)) ps) (l, r) =
      (if (l, r) \<in> set ps then Some (f l r) else None)"
    for f :: "uuid \<Rightarrow> uuid \<Rightarrow> pair_score" and ps
    by (induction ps) auto
  then show ?thesis by (simp add: score_edges_def scored_def)
qed

text \<open>An edge that reaches the threshold.\<close>

definition linked :: "engine \<Rightarrow> edges \<Rightarrow> uuid \<Rightarrow> uuid \<Rightarrow> bool" where
  "linked e edges i j \<longleftrightarrow>
     (\<exists>p. map_of edges (pair_key i j) = Some p \<and> minimum_score e \<le> pscore p)"

lemma linked_sym: "linked e edges i j = linked e edges j i"
  by (simp add: linked_def pair_key_commute [of i j])

lemma ranked_score_edges:
  "ranked e docs (score_edges e docs cands) =
     map (\<lambda>(l, r). (- pscore (scored e docs l r), delta (doc_of docs l) (doc_of docs r), l, r))
       (filter (\<lambda>(l, r). minimum_score e \<le> pscore (scored e docs l r)) (unique_pairs docs cands))"
  unfolding ranked_def score_edges_def scored_def
  by (induction "unique_pairs docs cands" arbitrary: ) (simp_all add: filter_map comp_def case_prod_unfold)

lemma ranked_member:
  assumes "(s, t, l, r) \<in> set (ranked e docs (score_edges e docs cands))"
  shows "l \<in> ids docs \<and> r \<in> ids docs \<and> l \<noteq> r \<and> linked e (score_edges e docs cands) l r"
proof -
  have "(l, r) \<in> set (unique_pairs docs cands)" and "minimum_score e \<le> pscore (scored e docs l r)"
    using assms by (auto simp: ranked_score_edges)
  moreover from this(1) have "l < r" "l \<in> ids docs" "r \<in> ids docs"
    by (simp_all add: set_unique_pairs)
  ultimately show ?thesis
    by (simp add: linked_def pair_key_def map_of_score_edges min_def max_def order_less_imp_le not_le)
qed

text \<open>What the dictionary of auxiliary edges holds: auxiliary keys, each with targets that are not.\<close>

definition attached ::
    "engine \<Rightarrow> document list \<Rightarrow> edges \<Rightarrow> uuid \<Rightarrow> int \<times> int \<times> uuid \<Rightarrow> bool" where
  "attached e docs edges i c \<longleftrightarrow> (case c of (s, t, j) \<Rightarrow>
     aux docs i \<and> \<not> aux docs j \<and>
     ((s, t, i, j) \<in> set (ranked e docs edges) \<or> (s, t, j, i) \<in> set (ranked e docs edges)))"

definition attachments_ok ::
    "engine \<Rightarrow> document list \<Rightarrow> edges \<Rightarrow> (uuid, (int \<times> int \<times> uuid) list) dict \<Rightarrow> bool" where
  "attachments_ok e docs edges d \<longleftrightarrow> distinct (map fst d) \<and>
     (\<forall>i cs. map_of d i = Some cs \<longrightarrow> cs \<noteq> [] \<and> (\<forall>c \<in> set cs. attached e docs edges i c))"

lemma attachments_push:
  assumes "attachments_ok e docs edges d" and "attached e docs edges i c"
  shows "attachments_ok e docs edges (dict_push i c d)"
  using assms by (auto simp: attachments_ok_def distinct_dict_push map_of_dict_push split: option.splits)

lemma push_auxiliary_ok:
  assumes "attachments_ok e docs edges d" and "x \<in> set (ranked e docs edges)"
  shows "attachments_ok e docs edges (push_auxiliary docs x d)"
proof -
  obtain s t l r where x: "x = (s, t, l, r)" by (cases x)
  have "attached e docs edges l (s, t, r)" if "aux docs l" "\<not> aux docs r"
    using assms(2) that by (simp add: attached_def x)
  moreover have "attached e docs edges r (s, t, l)" if "aux docs r" "\<not> aux docs l"
    using assms(2) that by (simp add: attached_def x)
  ultimately show ?thesis
    using assms(1) attachments_push by (auto simp: push_auxiliary_def x)
qed

lemma auxiliary_edges_ok: "attachments_ok e docs edges (auxiliary_edges e docs edges)"
proof -
  have "attachments_ok e docs edges (fold (push_auxiliary docs) xs d)"
    if "set xs \<subseteq> set (ranked e docs edges)" "attachments_ok e docs edges d" for xs d
    using that by (induction xs arbitrary: d) (simp_all add: push_auxiliary_ok)
  moreover have "attachments_ok e docs edges []" by (simp add: attachments_ok_def)
  ultimately show ?thesis by (simp add: auxiliary_edges_def)
qed

lemma parent_of_member: "cs \<noteq> [] \<Longrightarrow> \<exists>s t. (s, t, parent_of cs) \<in> set cs"
proof -
  assume "cs \<noteq> []"
  then have "Min (set cs) \<in> set cs" by simp
  then show ?thesis unfolding parent_of_def by (metis prod.collapse)
qed

lemma auxiliary_edge:
  assumes "(i, cs) \<in> set (auxiliary_edges e docs edges)"
  shows "\<exists>c. attached e docs edges i c \<and> snd (snd c) = parent_of cs"
proof -
  have "map_of (auxiliary_edges e docs edges) i = Some cs"
    using auxiliary_edges_ok [of e docs edges] assms by (simp add: attachments_ok_def)
  then have "cs \<noteq> []" and att: "\<forall>c \<in> set cs. attached e docs edges i c"
    using auxiliary_edges_ok [of e docs edges] by (simp_all add: attachments_ok_def)
  from parent_of_member [OF this(1)] obtain s t where "(s, t, parent_of cs) \<in> set cs" by blast
  with att show ?thesis by (metis snd_conv)
qed

lemma auxiliary_edge_linked:
  assumes "(i, cs) \<in> set (auxiliary_edges e docs (score_edges e docs cands))"
  shows "i \<in> ids docs \<and> parent_of cs \<in> ids docs \<and> i \<noteq> parent_of cs
    \<and> linked e (score_edges e docs cands) i (parent_of cs) \<and> aux docs i \<and> \<not> aux docs (parent_of cs)"
proof -
  from auxiliary_edge [OF assms] obtain s t where
    "attached e docs (score_edges e docs cands) i (s, t, parent_of cs)"
    by (metis prod.collapse)
  then show ?thesis
    using ranked_member linked_sym by (fastforce simp: attached_def)
qed

section \<open>The components the engine ends with\<close>

text \<open>
  Every component stays inside the documents, is coherent, and links each of its documents to
  another one unless it is a single document.
\<close>

definition episodes :: "engine \<Rightarrow> document list \<Rightarrow> edges \<Rightarrow> forest \<Rightarrow> bool" where
  "episodes e docs edges s \<longleftrightarrow> (\<forall>v \<in> ids docs. component s v \<subseteq> ids docs
     \<and> coherent (doc_of docs ` component s v)
     \<and> (component s v = {v} \<or> (\<exists>w \<in> component s v. w \<noteq> v \<and> linked e edges v w)))"

lemma episodes_singletons [inv_intros]: "episodes e docs edges singletons"
  by (simp add: episodes_def component_def rep_singletons coherent_single)

lemma episodes_union [inv_intros]:
  assumes ep: "episodes e docs edges s" and step: "union_step docs l r s s'"
    and l: "l \<in> ids docs" and r: "r \<in> ids docs" and ne: "l \<noteq> r" and link: "linked e edges l r"
  shows "episodes e docs edges s'"
proof (cases "\<forall>v. component s' v = component s v")
  case True
  with ep show ?thesis by (simp add: episodes_def)
next
  case False
  let ?U = "component s l \<union> component s r"
  from False step have coh: "coherent (doc_of docs ` ?U)"
    and new: "component s' v = (if v \<in> ?U then ?U else component s v)" for v
    by (auto simp: union_step_def)
  have lr: "linked e edges r l" using link linked_sym by metis
  have sub: "?U \<subseteq> ids docs" using ep l r by (simp add: episodes_def)
  have partner: "\<exists>w \<in> ?U. w \<noteq> v \<and> linked e edges v w" if "v \<in> ?U" for v
  proof (cases "component s v = {v}")
    case True
    have "component s v = component s l \<or> component s v = component s r"
      using that component_eq [of v s l] component_eq [of v s r] by blast
    then have "l \<in> component s v \<or> r \<in> component s v"
      using component_self [of l s] component_self [of r s] by blast
    with True have "v = l \<or> v = r" by auto
    then show ?thesis using link lr ne component_self [of l s] component_self [of r s] by auto
  next
    case False
    moreover have "v \<in> ids docs" using that sub by blast
    ultimately obtain w where "w \<in> component s v" "w \<noteq> v" "linked e edges v w"
      using ep unfolding episodes_def by blast
    moreover have "component s v = component s l \<or> component s v = component s r"
      using that component_eq [of v s l] component_eq [of v s r] by blast
    ultimately show ?thesis by auto
  qed
  show ?thesis
    unfolding episodes_def
  proof
    fix v assume "v \<in> ids docs"
    then show "component s' v \<subseteq> ids docs \<and> coherent (doc_of docs ` component s' v)
      \<and> (component s' v = {v} \<or> (\<exists>w \<in> component s' v. w \<noteq> v \<and> linked e edges v w))"
      using ep coh sub partner by (cases "v \<in> ?U") (auto simp: new episodes_def)
  qed
qed

lemma core_phase:
  "\<exists>s. loop (core_step docs) (sort (core_edges e docs (score_edges e docs cands))) singletons = Some s
     \<and> forest_ok s \<and> episodes e docs (score_edges e docs cands) s"
proof (rule core_loop.loop_preserves
    [where P = "episodes e docs (score_edges e docs cands)", OF singletons_ok episodes_singletons])
  fix x and s s' :: forest
  assume x: "x \<in> set (sort (core_edges e docs (score_edges e docs cands)))"
    and ep: "episodes e docs (score_edges e docs cands) s"
    and step: "(case x of (_, _, l, r) \<Rightarrow> union_step docs l r) s s'"
  obtain a b l r where xe: "x = (a, b, l, r)" by (cases x)
  from x have "(a, b, l, r) \<in> set (ranked e docs (score_edges e docs cands))"
    by (simp add: core_edges_def xe)
  then have "l \<in> ids docs" "r \<in> ids docs" "l \<noteq> r" "linked e (score_edges e docs cands) l r"
    using ranked_member by blast+
  with ep step show "episodes e docs (score_edges e docs cands) s'"
    by (simp add: xe episodes_union)
qed

lemma auxiliary_phase:
  assumes "forest_ok s" and "episodes e docs (score_edges e docs cands) s"
  shows "\<exists>s'. loop (auxiliary_step docs)
      (sort_key fst (auxiliary_edges e docs (score_edges e docs cands))) s = Some s'
     \<and> forest_ok s' \<and> episodes e docs (score_edges e docs cands) s'"
proof (rule auxiliary_loop.loop_preserves
    [where P = "episodes e docs (score_edges e docs cands)", OF assms])
  fix x and s s' :: forest
  assume x: "x \<in> set (sort_key fst (auxiliary_edges e docs (score_edges e docs cands)))"
    and ep: "episodes e docs (score_edges e docs cands) s"
    and step: "(case x of (i, cs) \<Rightarrow> union_step docs i (parent_of cs)) s s'"
  obtain i cs where xe: "x = (i, cs)" by (cases x)
  from x have "(i, cs) \<in> set (auxiliary_edges e docs (score_edges e docs cands))" by (simp add: xe)
  from auxiliary_edge_linked [OF this] ep step
  show "episodes e docs (score_edges e docs cands) s'"
    by (simp add: xe episodes_union)
qed

lemma components_phases:
  obtains s1 s where
    "loop (core_step docs) (sort (core_edges e docs (score_edges e docs cands))) singletons = Some s1"
    and "loop (auxiliary_step docs)
      (sort_key fst (auxiliary_edges e docs (score_edges e docs cands))) s1 = Some s"
    and "forest_ok s" and "episodes e docs (score_edges e docs cands) s"
    and "components e docs (score_edges e docs cands) = Some (group_by (rep s \<circ> doc_id) docs)"
proof -
  from core_phase obtain s1 where s1:
    "loop (core_step docs) (sort (core_edges e docs (score_edges e docs cands))) singletons = Some s1"
    "forest_ok s1" "episodes e docs (score_edges e docs cands) s1" by blast
  from auxiliary_phase [OF s1(2,3)] obtain s2 where s2:
    "loop (auxiliary_step docs) (sort_key fst (auxiliary_edges e docs (score_edges e docs cands))) s1 = Some s2"
    "forest_ok s2" "episodes e docs (score_edges e docs cands) s2" by blast
  from loop_group [OF s2(2), of docs "[]"] s1(1) s2(1)
  have "components e docs (score_edges e docs cands) = Some (group_by (rep s2 \<circ> doc_id) docs)"
    by (auto simp: components_def group_by_def)
  with s1 s2 that show thesis by blast
qed

section \<open>The transaction of a group\<close>

lemma all_pairs_members:
  "a \<in> set xs \<Longrightarrow> b \<in> set xs \<Longrightarrow> a \<noteq> b \<Longrightarrow> (a, b) \<in> set (all_pairs xs) \<or> (b, a) \<in> set (all_pairs xs)"
  by (induction xs) auto

lemma all_pairs_subset: "(a, b) \<in> set (all_pairs xs) \<Longrightarrow> a \<in> set xs \<and> b \<in> set xs"
  by (induction xs) auto

definition scores_ok :: "edges \<Rightarrow> bool" where
  "scores_ok edges \<longleftrightarrow> (\<forall>k p. map_of edges k = Some p \<longrightarrow> 0 \<le> pscore p \<and> pscore p \<le> 100)"

lemma score_edges_ok: "scores_ok (score_edges e docs cands)"
  using score_candidate_range by (simp add: scores_ok_def map_of_score_edges scored_def)

lemma relevant_member:
  assumes "p \<in> set (relevant_edges e docs edges)"
  shows "\<exists>k. map_of edges k = Some p"
  using assms
  by (auto simp: relevant_edges_def List.map_filter_def simp del: split_paired_Ex
      split: option.splits if_splits)

lemma relevant_memberI:
  assumes "(a, b) \<in> set (all_pairs g)" and "map_of edges (pair_key (doc_id a) (doc_id b)) = Some p"
    and "minimum_score e \<le> pscore p"
  shows "p \<in> set (relevant_edges e g edges)"
proof -
  have "p \<in> set (List.map_filter f xs)" if "x \<in> set xs" "f x = Some p"
    for f :: "document \<times> document \<Rightarrow> pair_score option" and x xs
    using that by (induction xs) (auto simp: List.map_filter_simps split: option.split)
  from this [OF assms(1)] show ?thesis using assms(2,3) by (simp add: relevant_edges_def)
qed

lemma best_link_range:
  assumes "scores_ok edges"
  shows "0 \<le> best_link (relevant_edges e docs edges) i \<and> best_link (relevant_edges e docs edges) i \<le> 100"
proof (cases "linked_scores (relevant_edges e docs edges) i = []")
  case True
  then show ?thesis by (simp add: best_link_def)
next
  case False
  have "0 \<le> x \<and> x \<le> 100" if "x \<in> set (linked_scores (relevant_edges e docs edges) i)" for x
    using that relevant_member [of _ e docs edges] assms
    by (auto simp: linked_scores_def scores_ok_def)
  moreover have "Max (set (linked_scores (relevant_edges e docs edges) i))
      \<in> set (linked_scores (relevant_edges e docs edges) i)"
    using False by simp
  ultimately show ?thesis using False by (simp add: best_link_def Let_def)
qed

lemma best_link_linked:
  assumes "distinct (map doc_id docs)" and "a \<in> set g" and "b \<in> set g" and "a \<noteq> b"
    and "set g \<subseteq> set docs" and "linked e (score_edges e docs cands) (doc_id a) (doc_id b)"
  shows "minimum_score e \<le> best_link (relevant_edges e g (score_edges e docs cands)) (doc_id a)"
proof -
  let ?edges = "score_edges e docs cands"
  from assms(6) obtain p where p: "map_of ?edges (pair_key (doc_id a) (doc_id b)) = Some p"
    and high: "minimum_score e \<le> pscore p" by (auto simp: linked_def)
  have "a \<in> set docs" "b \<in> set docs" using assms by auto
  then have "left_id p = doc_id a \<or> right_id p = doc_id a"
    using p assms(1) score_candidate_names
    by (auto simp: pair_key_def min_def max_def map_of_score_edges scored_def split: if_splits)
  moreover have "p \<in> set (relevant_edges e g ?edges)"
    using all_pairs_members [OF assms(2-4)] p high relevant_memberI [of a b] relevant_memberI [of b a]
      pair_key_commute [of "doc_id a" "doc_id b"] by auto
  ultimately have "pscore p \<in> set (linked_scores (relevant_edges e g ?edges) (doc_id a))"
    by (auto simp: linked_scores_def)
  then show ?thesis using high
    by (auto simp: best_link_def Let_def intro: order_trans [OF _ Max_ge])
qed

lemma build_correlation_Inr:
  assumes "scores_ok edges" and "distinct (map doc_id g)" and "1 < length g"
  shows "\<exists>c. build_correlation e tid g edges = Inr c \<and>
    cr_score c = Min (set (map (\<lambda>d. best_link (relevant_edges e g edges) (doc_id d)) g))"
proof -
  let ?scores = "map (\<lambda>d. best_link (relevant_edges e g edges) (doc_id d)) g"
  have "Min (set ?scores) \<in> set ?scores" using assms(3) by (intro Min_in) auto
  then have "0 \<le> Min (set ?scores) \<and> Min (set ?scores) \<le> 100"
    using best_link_range [OF assms(1)] by auto
  moreover have "\<not> length (remdups (map doc_id g)) < 2"
    using assms(2,3) by (simp add: distinct_remdups_id)
  ultimately show ?thesis
    by (simp add: build_correlation_def Let_def make_correlation_result_def)
qed

text \<open>Whether the percentage of an episode overflows, the one way in which building its transaction raises.\<close>

definition overflows :: "document list \<Rightarrow> bool" where
  "overflows g = (let docs = sort_key doc_order g in
     percent_of (prebill_total_of docs) (sum_totals (economic_closures docs)) = Inl PercentOverflow)"

lemma percent_of_Inl: "percent_of p c = Inl err \<Longrightarrow> err = PercentOverflow"
  by (auto simp: percent_of_def Let_def split: option.splits if_split_asm)

lemma build_transaction_result:
  assumes "scores_ok edges" and "distinct (map doc_id g)" and "g \<noteq> []"
  shows "if overflows g then build_transaction uuid5 e g edges = Inl PercentOverflow
    else \<exists>t. build_transaction uuid5 e g edges = Inr t \<and> tx_documents t = sort_key doc_order g
    \<and> (if length g = 1 then correlation t = None
       else \<exists>c. correlation t = Some c \<and> cr_score c = Min (set (map (\<lambda>d. best_link
          (relevant_edges e (sort_key doc_order g) edges) (doc_id d)) (sort_key doc_order g))))
    \<and> timeline t = map timeline_entry_of (sort_key doc_order g)"
proof -
  let ?g = "sort_key doc_order g"
  let ?percent = "percent_of (prebill_total_of ?g) (sum_totals (economic_closures ?g))"
  have ne: "?g \<noteq> []" using assms(3) by (metis length_0_conv length_sort)
  have "\<exists>q. ?percent = (if overflows g then Inl PercentOverflow else Inr q)"
    by (cases ?percent) (auto simp: overflows_def Let_def dest: percent_of_Inl)
  then obtain q where percent: "?percent = (if overflows g then Inl PercentOverflow else Inr q)" by blast
  show ?thesis
  proof (cases "length g = 1")
    case True
    then show ?thesis using ne by (simp add: build_transaction_def Let_def percent)
  next
    case False
    have "distinct (map doc_id ?g)" using assms(2) by (simp add: distinct_map)
    moreover have len: "1 < length ?g" using False assms(3) by (cases g) auto
    ultimately obtain c where "build_correlation e tid ?g edges = Inr (c tid) \<and>
        cr_score (c tid) = Min (set (map (\<lambda>d. best_link (relevant_edges e ?g edges) (doc_id d)) ?g))" for tid
      using build_correlation_Inr [OF assms(1), of ?g e] by metis
    then show ?thesis using len ne False by (simp add: build_transaction_def Let_def percent)
  qed
qed

lemma build_transaction_Inr:
  assumes "scores_ok edges" and "distinct (map doc_id g)" and "g \<noteq> []" and "build_transaction uuid5 e g edges = Inr t"
  shows "tx_documents t = sort_key doc_order g"
    and "if length g = 1 then correlation t = None
       else \<exists>c. correlation t = Some c \<and> cr_score c = Min (set (map (\<lambda>d. best_link
          (relevant_edges e (sort_key doc_order g) edges) (doc_id d)) (sort_key doc_order g)))"
  using build_transaction_result [OF assms(1-3), of uuid5 e] assms(4) by (auto split: if_split_asm)

section \<open>The result of a run\<close>

text \<open>The transactions of a run: one per component of the final forest, over the ordered documents.\<close>

definition outcome ::
    "(string \<Rightarrow> uuid) \<Rightarrow> engine \<Rightarrow> document list \<Rightarrow> edges \<Rightarrow> forest \<Rightarrow> transaction list" where
  "outcome uuid5 e ordered edges s = sort_key transaction_order
     (map (\<lambda>(_, g). projr (build_transaction uuid5 e g edges))
        (sort_key fst (group_by (rep s \<circ> doc_id) ordered)))"

definition sound_groups :: "document list \<Rightarrow> forest \<Rightarrow> bool" where
  "sound_groups ordered s \<longleftrightarrow> (\<forall>(_, g) \<in> set (group_by (rep s \<circ> doc_id) ordered). \<not> overflows g)"

lemma group_result:
  assumes "distinct (map doc_id ordered)" and "(k, g) \<in> set (group_by (rep s \<circ> doc_id) ordered)"
  shows "distinct (map doc_id g)" and "g \<noteq> []" and "g = filter (\<lambda>d. rep s (doc_id d) = k) ordered"
proof -
  have "g = filter (\<lambda>d. (rep s \<circ> doc_id) d = k) ordered
      \<and> filter (\<lambda>d. (rep s \<circ> doc_id) d = k) ordered \<noteq> []"
    using assms(2) by (simp add: group_by_member)
  then show "distinct (map doc_id g)" "g \<noteq> []" "g = filter (\<lambda>d. rep s (doc_id d) = k) ordered"
    using assms(1) by (simp_all add: map_filter_distinct)
qed

lemma collect_same_error:
  assumes "\<And>x. x \<in> set xs \<Longrightarrow> if bad x then f x = Inl err else \<exists>y. f x = Inr y"
  shows "collect (map f xs) = (if list_ex bad xs then Inl err else Inr (map (projr \<circ> f) xs))"
  using assms by (induction xs) (fastforce split: if_split_asm)+

lemma correlate_pairs_result:
  assumes "distinct (map doc_id ordered)" and "ordered \<noteq> []"
  obtains s1 s where
    "loop (core_step ordered) (sort (core_edges e ordered (score_edges e ordered cands))) singletons = Some s1"
    and "loop (auxiliary_step ordered)
      (sort_key fst (auxiliary_edges e ordered (score_edges e ordered cands))) s1 = Some s"
    and "forest_ok s" and "episodes e ordered (score_edges e ordered cands) s"
    and "correlate_pairs uuid5 e ordered cands = Some (if sound_groups ordered s
      then Inr (outcome uuid5 e ordered (score_edges e ordered cands) s) else Inl PercentOverflow)"
proof -
  let ?edges = "score_edges e ordered cands"
  obtain s1 s where s:
    "loop (core_step ordered) (sort (core_edges e ordered ?edges)) singletons = Some s1"
    "loop (auxiliary_step ordered) (sort_key fst (auxiliary_edges e ordered ?edges)) s1 = Some s"
    "forest_ok s" "episodes e ordered ?edges s"
    "components e ordered ?edges = Some (group_by (rep s \<circ> doc_id) ordered)"
    by (rule components_phases)
  let ?groups = "sort_key fst (group_by (rep s \<circ> doc_id) ordered)"
  have "if (\<lambda>(_, g). overflows g) x then (\<lambda>(_, g). build_transaction uuid5 e g ?edges) x = Inl PercentOverflow
      else \<exists>t. (\<lambda>(_, g). build_transaction uuid5 e g ?edges) x = Inr t" if "x \<in> set ?groups" for x
  proof -
    obtain k g where x: "x = (k, g)" by (cases x)
    with that have "(k, g) \<in> set (group_by (rep s \<circ> doc_id) ordered)" by simp
    from build_transaction_result [OF score_edges_ok group_result(1,2) [OF assms(1) this], of uuid5 e e ordered cands]
    show ?thesis by (auto simp: x split: if_split_asm)
  qed
  from collect_same_error [of ?groups, OF this] have "collect (map (\<lambda>(_, g). build_transaction uuid5 e g ?edges) ?groups) =
      (if list_ex (\<lambda>(_, g). overflows g) ?groups then Inl PercentOverflow
       else Inr (map (\<lambda>(_, g). projr (build_transaction uuid5 e g ?edges)) ?groups))"
    by (simp add: comp_def case_prod_unfold)
  moreover have "list_ex (\<lambda>(_, g). overflows g) ?groups \<longleftrightarrow> \<not> sound_groups ordered s"
    by (auto simp: list_ex_iff sound_groups_def)
  ultimately have "correlate_pairs uuid5 e ordered cands = Some (if sound_groups ordered s
      then Inr (outcome uuid5 e ordered ?edges s) else Inl PercentOverflow)"
    using assms(2) s(5) by (simp add: correlate_pairs_def Let_def outcome_def)
  with s that show thesis by blast
qed

lemma outcome_member:
  assumes "distinct (map doc_id ordered)" and "sound_groups ordered s"
    and "t \<in> set (outcome uuid5 e ordered (score_edges e ordered cands) s)"
  obtains v where "v \<in> ids ordered"
    and "set (tx_documents t) = {d \<in> set ordered. doc_id d \<in> component s v}"
    and "tx_documents t = sort_key doc_order (filter (\<lambda>d. doc_id d \<in> component s v) ordered)"
    and "build_transaction uuid5 e (filter (\<lambda>d. doc_id d \<in> component s v) ordered)
      (score_edges e ordered cands) = Inr t"
proof -
  let ?edges = "score_edges e ordered cands"
  from assms(3) obtain k g where kg: "(k, g) \<in> set (group_by (rep s \<circ> doc_id) ordered)"
    and t: "t = projr (build_transaction uuid5 e g ?edges)"
    by (auto simp: outcome_def)
  note g = group_result [OF assms(1) kg]
  have sound: "\<not> overflows g" using assms(2) kg by (auto simp: sound_groups_def)
  from g(2) have "filter (\<lambda>d. rep s (doc_id d) = k) ordered \<noteq> []" unfolding g(3) .
  then obtain d where d: "d \<in> set ordered" "rep s (doc_id d) = k" by (auto simp: filter_empty_conv)
  have g': "g = filter (\<lambda>x. doc_id x \<in> component s (doc_id d)) ordered"
    by (subst g(3)) (simp add: component_def d(2))
  from build_transaction_result [OF score_edges_ok g(1,2), of uuid5 e e ordered cands] t sound
  have "build_transaction uuid5 e g ?edges = Inr t" "tx_documents t = sort_key doc_order g" by auto
  with d(1) g' show thesis
    by (intro that [of "doc_id d"]) (auto simp: ids_def)
qed

lemma candidates_result:
  assumes "distinct (map doc_id docs)"
    and "correlate_candidates uuid5 e docs cands = Some (Inr ts)" and "t \<in> set ts"
  obtains s v where "episodes e (sort_key doc_order docs) (score_edges e (sort_key doc_order docs) cands) s"
    and "v \<in> ids docs" and "set (tx_documents t) = {d \<in> set docs. doc_id d \<in> component s v}"
    and "build_transaction uuid5 e (filter (\<lambda>d. doc_id d \<in> component s v) (sort_key doc_order docs))
      (score_edges e (sort_key doc_order docs) cands) = Inr t"
    and "tx_documents t = sort_key doc_order
      (filter (\<lambda>d. doc_id d \<in> component s v) (sort_key doc_order docs))"
proof -
  let ?o = "sort_key doc_order docs"
  have o: "distinct (map doc_id ?o)" using assms(1) by (simp add: distinct_map)
  have "?o \<noteq> []" using assms(2,3) by (auto simp: correlate_candidates_def correlate_pairs_def)
  then obtain s where ep: "episodes e ?o (score_edges e ?o cands) s" and
    run: "correlate_pairs uuid5 e ?o cands =
      Some (if sound_groups ?o s then Inr (outcome uuid5 e ?o (score_edges e ?o cands) s) else Inl PercentOverflow)"
    by (rule correlate_pairs_result [OF o, of e cands uuid5])
  have "sound_groups ?o s \<and> ts = outcome uuid5 e ?o (score_edges e ?o cands) s"
    using assms(2) unfolding correlate_candidates_def run by (cases "sound_groups ?o s") simp_all
  then have "sound_groups ?o s" "t \<in> set (outcome uuid5 e ?o (score_edges e ?o cands) s)"
    using assms(3) by simp_all
  with ep outcome_member [OF o this] that show thesis by (auto simp: ids_def)
qed

lemma mset_concat_perm:
  assumes "mset xs = mset ys"
  shows "mset (concat (map h xs)) = mset (concat (map h ys))"
proof -
  have "mset (map (mset \<circ> h) xs) = mset (map (mset \<circ> h) ys)" using assms by simp
  then show ?thesis by (metis map_map mset_concat sum_mset_sum_list)
qed

lemma doc_of_image:
  assumes "distinct (map doc_id docs)" and "W \<subseteq> ids docs"
  shows "doc_of docs ` W = {d \<in> set docs. doc_id d \<in> W}"
proof -
  have "doc_of docs w \<in> set docs \<and> doc_id (doc_of docs w) = w" if "w \<in> W" for w
    using that assms by (auto simp: ids_def subset_iff)
  then show ?thesis using assms by (force simp: image_iff)
qed

lemma linked_score:
  assumes "distinct (map doc_id docs)" and "d \<in> set docs" and "x \<in> set docs"
    and "linked e (score_edges e docs cands) (doc_id d) (doc_id x)"
  shows "minimum_score e \<le> pscore (score_candidate_pair e d x)"
  using assms score_candidate_commute [of e d x]
  by (auto simp: linked_def pair_key_def min_def max_def map_of_score_edges scored_def verdict_def
      split: if_splits)

text \<open>In an episode of several documents each of them is linked to another one.\<close>

lemma episode_partner:
  assumes ep: "episodes e docs edges s" and dist: "distinct (map doc_id docs)"
    and d: "d \<in> set docs" "doc_id d \<in> component s v"
    and many: "1 < length (filter (\<lambda>d. doc_id d \<in> component s v) docs)"
  shows "\<exists>x \<in> set docs. doc_id x \<in> component s v \<and> x \<noteq> d \<and> linked e edges (doc_id d) (doc_id x)"
proof -
  let ?g = "filter (\<lambda>d. doc_id d \<in> component s v) docs"
  have comp: "component s (doc_id d) = component s v" using d(2) by (rule component_eq)
  have "component s (doc_id d) \<noteq> {doc_id d}"
  proof
    assume "component s (doc_id d) = {doc_id d}"
    then have "card (set (map doc_id ?g)) \<le> card {doc_id d}"
      by (intro card_mono) (auto simp: comp)
    then show False using many distinct_card [OF map_filter_distinct [OF dist]] by fastforce
  qed
  moreover have "doc_id d \<in> ids docs" using d by (simp add: ids_def)
  ultimately obtain w where w: "w \<in> component s v" "w \<noteq> doc_id d" "linked e edges (doc_id d) w"
    and "component s v \<subseteq> ids docs"
    using ep unfolding episodes_def comp [symmetric] by blast
  then obtain x where "x \<in> set docs" "w = doc_id x" by (auto simp: ids_def)
  with w show ?thesis by auto
qed

lemma outcome_partitions:
  assumes "distinct (map doc_id ordered)" and "sound_groups ordered s"
  shows "mset (concat (map tx_documents (outcome uuid5 e ordered (score_edges e ordered cands) s))) = mset ordered"
    and "\<forall>t \<in> set (outcome uuid5 e ordered (score_edges e ordered cands) s). tx_documents t \<noteq> []"
proof -
  let ?edges = "score_edges e ordered cands"
  let ?gs = "sort_key fst (group_by (rep s \<circ> doc_id) ordered)"
  have tx: "tx_documents (projr (build_transaction uuid5 e g ?edges)) = sort_key doc_order g \<and> g \<noteq> []"
    if "(k, g) \<in> set ?gs" for k g
  proof -
    have kg: "(k, g) \<in> set (group_by (rep s \<circ> doc_id) ordered)" using that by simp
    then have "\<not> overflows g" using assms(2) by (auto simp: sound_groups_def)
    with build_transaction_result [OF score_edges_ok group_result(1,2) [OF assms(1) kg], of uuid5 e e ordered cands]
      group_result(2) [OF assms(1) kg] show ?thesis by auto
  qed
  have "mset (concat (map (\<lambda>(_, g). tx_documents (projr (build_transaction uuid5 e g ?edges))) xs))
      = mset (concat (map snd xs))" if "set xs \<subseteq> set ?gs" for xs
    using that tx by (induction xs) (auto simp del: set_sort)
  from this [of ?gs] have "mset (concat (map (\<lambda>(_, g). tx_documents (projr (build_transaction uuid5 e g ?edges))) ?gs))
      = mset (concat (map snd (group_by (rep s \<circ> doc_id) ordered)))"
    using mset_concat_perm [of ?gs "group_by (rep s \<circ> doc_id) ordered" snd] by simp
  then show "mset (concat (map tx_documents (outcome uuid5 e ordered ?edges s))) = mset ordered"
    unfolding outcome_def
    by (subst mset_concat_perm [OF mset_sort]) (simp add: mset_group_by comp_def case_prod_unfold)
  show "\<forall>t \<in> set (outcome uuid5 e ordered ?edges s). tx_documents t \<noteq> []"
    using tx by (auto simp: outcome_def) (metis length_0_conv length_sort)
qed

section \<open>Properties of correlation\<close>

text \<open>
  C30: correlation always returns, whatever the documents and the candidate pairs: the path-halving
  loop of the union-find terminates in every state the engine reaches.
\<close>

theorem correlation_returns:
  "\<exists>r. correlate_candidates uuid5 e docs cands = Some r"
proof -
  obtain s where "components e (sort_key doc_order docs)
      (score_edges e (sort_key doc_order docs) cands) = Some (group_by (rep s \<circ> doc_id) (sort_key doc_order docs))"
    by (rule components_phases)
  then show ?thesis by (simp add: correlate_candidates_def correlate_pairs_def Let_def)
qed

text \<open>
  The bound below which no percentage overflows: amounts of money, that is multiples of a ten-thousandth, whose
  absolute values add up to less than \<open>10 ^ 17\<close>.
\<close>

definition moderate :: "document list \<Rightarrow> bool" where
  "moderate docs \<longleftrightarrow> list_all (\<lambda>d. money_ok (or_else (total d) 0)) docs \<and> (\<Sum>d\<leftarrow>docs. \<bar>or_else (total d) 0\<bar>) < 10 ^ 17"

lemma percent_of_moderate:
  assumes "money_ok p" and "\<bar>p - c\<bar> \<le> 2 * 10 ^ 17"
  shows "percent_of (Some p) c \<noteq> Inl PercentOverflow"
proof (cases "p = 0")
  case False
  have "p * 10 ^ 4 = of_int \<lfloor>p * 10 ^ 4\<rfloor>" using assms(1) unfolding money_ok_def by (elim conjE) (rule sym)
  moreover have "\<lfloor>p * 10 ^ 4\<rfloor> \<noteq> 0" using False calculation by auto
  then have "(1 :: rat) \<le> of_int \<bar>\<lfloor>p * 10 ^ 4\<rfloor>\<bar>" by simp
  ultimately have p: "1 \<le> \<bar>p\<bar> * 10 ^ 4" by (simp add: abs_mult)
  have "\<bar>p - c\<bar> * 1 \<le> (2 * 10 ^ 17) * (\<bar>p\<bar> * 10 ^ 4)"
    using assms(2) p by (intro mult_mono) simp_all
  then have "\<bar>(p - c) / p\<bar> \<le> of_int (2 * 10 ^ 21)"
    using False by (simp add: abs_divide field_simps)
  then have "\<bar>dec_div (p - c) p\<bar> \<le> of_int (2 * 10 ^ 21)"
    unfolding dec_div_def by (rule ctx_abs_le) simp
  then have "\<bar>dec_div (p - c) p * 100\<bar> \<le> of_int (2 * 10 ^ 23)" by (simp add: abs_mult)
  then have "\<bar>dec_mul (dec_div (p - c) p) 100\<bar> \<le> of_int (2 * 10 ^ 23)"
    unfolding dec_mul_def by (rule ctx_abs_le) simp
  then have "\<bar>dec_mul (dec_div (p - c) p) 100 * 10 ^ 4\<bar> \<le> of_int (2 * 10 ^ 27)" by (simp add: abs_mult)
  then have "\<bar>half_even (dec_mul (dec_div (p - c) p) 100 * 10 ^ 4)\<bar> \<le> 2 * 10 ^ 27"
    using half_even_le [of "dec_mul (dec_div (p - c) p) 100 * 10 ^ 4" "2 * 10 ^ 27"]
      half_even_ge [of "- (2 * 10 ^ 27)" "dec_mul (dec_div (p - c) p) 100 * 10 ^ 4"]
    by (simp add: abs_le_iff)
  then show ?thesis using False by (simp add: percent_of_def Let_def)
qed (simp add: percent_of_def)

lemma last_option_member: "last_option (filter P xs) = Some x \<Longrightarrow> x \<in> set xs"
  using last_in_set [of "filter P xs"] by (auto simp: last_option_def split: if_split_asm)

lemma find_prebill_member: "find_prebill docs = Some d \<Longrightarrow> d \<in> set docs"
  unfolding find_prebill_def
  by (auto split: list.splits option.splits dest!: last_option_member)

lemma sum_list_sort_key: "sum_list (map f (sort_key k xs)) = sum_list (map f xs)" for f :: "'a \<Rightarrow> rat"
  by (metis mset_map mset_sort sum_mset_sum_list)

text \<open>The totals of some of the documents, each at most once.\<close>

lemma sum_totals_filter:
  "\<bar>sum_totals (filter P ds)\<bar> \<le> (\<Sum>d\<leftarrow>ds. \<bar>or_else (total d) 0\<bar>)"
  by (induction ds) (auto simp: sum_totals_def)

lemma member_total:
  "d \<in> set ds \<Longrightarrow> \<bar>or_else (total d) 0\<bar> \<le> (\<Sum>d\<leftarrow>ds. \<bar>or_else (total d) 0\<bar>)"
  by (rule member_le_sum_list) auto

lemma economic_closures_filter: "\<exists>P. economic_closures docs = filter P docs"
proof (cases "valid_fiscal docs = []")
  case True
  then have "economic_closures docs = management_closures (find_prebill docs) docs" by (simp add: economic_closures_def)
  then show ?thesis unfolding management_closures_def by blast
next
  case False
  then have "economic_closures docs = valid_fiscal docs" by (simp add: economic_closures_def)
  then show ?thesis unfolding valid_fiscal_def filter_filter by blast
qed

lemma moderate_group:
  assumes "moderate docs"
  shows "\<not> overflows (filter P docs)"
proof -
  let ?g = "sort_key doc_order (filter P docs)"
  let ?S = "\<lambda>ds. \<Sum>d\<leftarrow>ds. \<bar>or_else (total d) 0\<bar>"
  have "?S ?g = ?S (filter P docs)" by (rule sum_list_sort_key)
  also have "\<dots> \<le> ?S docs" by (induction docs) auto
  finally have S: "?S ?g < 10 ^ 17" using assms by (simp add: moderate_def)
  obtain Q where Q: "economic_closures ?g = filter Q ?g" using economic_closures_filter by blast
  show ?thesis
  proof (cases "prebill_total_of ?g")
    case None
    then show ?thesis by (simp add: overflows_def Let_def percent_of_def)
  next
    case (Some p)
    then obtain d where d: "find_prebill ?g = Some d" "total d = Some p" by (auto simp: prebill_total_of_def split: option.splits)
    have "d \<in> set ?g" using find_prebill_member [OF d(1)] .
    then have "d \<in> set docs" "\<bar>p\<bar> \<le> ?S ?g" using member_total [of d ?g] d(2) by (auto simp: or_else_def)
    then have "money_ok p" using assms d(2) by (auto simp: moderate_def list_all_iff or_else_def)
    moreover have "\<bar>p - sum_totals (economic_closures ?g)\<bar> \<le> 2 * 10 ^ 17"
      using sum_totals_filter [of Q ?g] \<open>\<bar>p\<bar> \<le> ?S ?g\<close> S unfolding Q by linarith
    ultimately show ?thesis using percent_of_moderate Some by (simp add: overflows_def Let_def)
  qed
qed

text \<open>
  C1: with pairwise distinct identifiers, correlation either returns transactions that partition the documents, so
  that every document is in exactly one transaction, none is lost or duplicated and no transaction is empty; or it
  raises because the difference of an episode in percent does not fit the decimal context, which takes documents
  whose totals are not amounts of money or add up to \<open>10 ^ 17\<close> or more in absolute value.
\<close>

theorem correlation_partitions:
  assumes "distinct (map doc_id docs)"
  shows "case correlate_candidates uuid5 e docs cands of
      Some (Inr ts) \<Rightarrow> mset (concat (map tx_documents ts)) = mset docs \<and> (\<forall>t \<in> set ts. tx_documents t \<noteq> [])
    | Some (Inl err) \<Rightarrow> err = PercentOverflow \<and> \<not> moderate docs
    | None \<Rightarrow> False"
proof (cases "docs = []")
  case True
  then show ?thesis by (simp add: correlate_candidates_def correlate_pairs_def)
next
  case False
  let ?o = "sort_key doc_order docs"
  let ?edges = "score_edges e ?o cands"
  have o: "distinct (map doc_id ?o)" "?o \<noteq> []"
    using assms False by (simp_all add: distinct_map) (metis length_0_conv length_sort)
  obtain s where run: "correlate_pairs uuid5 e ?o cands =
      Some (if sound_groups ?o s then Inr (outcome uuid5 e ?o ?edges s) else Inl PercentOverflow)"
    by (rule correlate_pairs_result [OF o])
  show ?thesis
  proof (cases "sound_groups ?o s")
    case True
    then have "correlate_candidates uuid5 e docs cands = Some (Inr (outcome uuid5 e ?o ?edges s))"
      unfolding correlate_candidates_def run by simp
    with outcome_partitions [OF o(1) True, of uuid5 e cands] show ?thesis by simp
  next
    case unsound: False
    then obtain k g where kg: "(k, g) \<in> set (group_by (rep s \<circ> doc_id) ?o)" "overflows g" by (auto simp: sound_groups_def)
    have "moderate ?o = moderate docs"
      by (simp add: moderate_def list_all_iff sum_list_sort_key)
    with moderate_group [of ?o] kg group_result(3) [OF o(1) kg(1)] have "\<not> moderate docs" by metis
    moreover have "correlate_candidates uuid5 e docs cands = Some (Inl PercentOverflow)"
      unfolding correlate_candidates_def run using unsound by simp
    ultimately show ?thesis by simp
  qed
qed

text \<open>
  C2: every transaction is coherent: no two of its documents carry contradictory identities or
  straddle a new episode after a close; kitchen tickets alone span at most thirty seconds, and so
  do kitchen tickets and management baselines together unless all carry one explicit identity.
\<close>

theorem transactions_coherent:
  assumes "distinct (map doc_id docs)"
    and "correlate_candidates uuid5 e docs cands = Some (Inr ts)" and "t \<in> set ts"
  shows "coherent (set (tx_documents t))"
proof -
  let ?o = "sort_key doc_order docs"
  have o: "distinct (map doc_id ?o)" using assms(1) by (simp add: distinct_map)
  from candidates_result [OF assms] obtain s v where
    ep: "episodes e ?o (score_edges e ?o cands) s" and v: "v \<in> ids docs"
    and t: "set (tx_documents t) = {d \<in> set docs. doc_id d \<in> component s v}" by blast
  have "component s v \<subseteq> ids docs" "coherent (doc_of ?o ` component s v)"
    using ep v by (auto simp: episodes_def ids_def)
  moreover have "doc_of ?o ` component s v = {d \<in> set docs. doc_id d \<in> component s v}"
    using calculation(1) doc_of_image [OF o, of "component s v"] by (simp add: ids_def)
  ultimately show ?thesis by (simp add: t)
qed

text \<open>
  A transaction of several documents carries a correlation score between the configured minimum
  and one hundred, and each of its documents is linked to another one of the transaction by a pair
  score that reaches the minimum; a transaction of one document carries no score.
\<close>

theorem transaction_scores:
  assumes "distinct (map doc_id docs)"
    and "correlate_candidates uuid5 e docs cands = Some (Inr ts)" and "t \<in> set ts"
  shows "(case correlation t of
      None \<Rightarrow> length (tx_documents t) = 1
    | Some c \<Rightarrow> minimum_score e \<le> cr_score c \<and> cr_score c \<le> 100
        \<and> (\<forall>d \<in> set (tx_documents t). \<exists>x \<in> set (tx_documents t). x \<noteq> d
             \<and> minimum_score e \<le> pscore (score_candidate_pair e d x)))"
proof -
  let ?o = "sort_key doc_order docs"
  let ?edges = "score_edges e ?o cands"
  have o: "distinct (map doc_id ?o)" using assms(1) by (simp add: distinct_map)
  from candidates_result [OF assms] obtain s v where
    ep: "episodes e ?o ?edges s" and v: "v \<in> ids docs"
    and t: "set (tx_documents t) = {d \<in> set docs. doc_id d \<in> component s v}"
    and build: "build_transaction uuid5 e (filter (\<lambda>d. doc_id d \<in> component s v) ?o) ?edges = Inr t"
    and td: "tx_documents t = sort_key doc_order (filter (\<lambda>d. doc_id d \<in> component s v) ?o)" by blast
  let ?g = "filter (\<lambda>d. doc_id d \<in> component s v) ?o"
  have dist: "distinct (map doc_id ?g)" using o by (rule map_filter_distinct)
  from v obtain d0 where "d0 \<in> set docs" "doc_id d0 = v" by (auto simp: ids_def)
  then have "d0 \<in> set ?g" by simp
  then have ne: "?g \<noteq> []" by (metis empty_iff empty_set)
  let ?best = "\<lambda>d. best_link (relevant_edges e (tx_documents t) ?edges) (doc_id d)"
  from build_transaction_Inr(2) [OF score_edges_ok dist ne build]
  have corr: "if length ?g = 1 then correlation t = None
     else \<exists>c. correlation t = Some c \<and> cr_score c = Min (set (map ?best (tx_documents t)))"
    unfolding td .
  show ?thesis
  proof (cases "length ?g = 1")
    case True
    with corr td show ?thesis by simp
  next
    case False
    then have "1 < length ?g" using ne by (cases ?g) auto
    then have partner: "\<exists>x \<in> set (tx_documents t). x \<noteq> d \<and> linked e ?edges (doc_id d) (doc_id x)"
      if "d \<in> set (tx_documents t)" for d
      using episode_partner [OF ep o, of d v] that by (auto simp: t)
    from False corr obtain c where
      c: "correlation t = Some c" "cr_score c = Min (set (map ?best (tx_documents t)))" by auto
    have "tx_documents t \<noteq> []" using \<open>1 < length ?g\<close> td by (metis length_sort less_zeroE list.size(3))
    then have "cr_score c \<in> set (map ?best (tx_documents t))"
      unfolding c(2) by (intro Min_in) auto
    then obtain d where d: "d \<in> set (tx_documents t)" "cr_score c = ?best d" by auto
    from partner [OF d(1)] have "minimum_score e \<le> cr_score c"
      unfolding d(2) using best_link_linked [OF o d(1)] by (auto simp: t)
    moreover have "cr_score c \<le> 100" using best_link_range [OF score_edges_ok] by (simp add: d(2))
    moreover have "\<exists>x \<in> set (tx_documents t). x \<noteq> d \<and> minimum_score e \<le> pscore (score_candidate_pair e d x)"
      if "d \<in> set (tx_documents t)" for d
      using partner [OF that] linked_score [OF o, of d] that by (auto simp: t)
    ultimately show ?thesis by (simp add: c(1))
  qed
qed

section \<open>Determinism\<close>

lemma inj_doc_order: "distinct (map doc_id docs) \<Longrightarrow> inj_on doc_order (set docs)"
  by (auto simp: inj_on_def doc_order_def distinct_map dest: unsigned_word_eqI)

lemma ordered_unique:
  "distinct (map doc_id docs) \<Longrightarrow> mset docs = mset docs' \<Longrightarrow> sort_key doc_order docs = sort_key doc_order docs'"
  by (intro sort_key_unique inj_doc_order)

definition offered :: "(uuid \<times> uuid) list \<Rightarrow> uuid \<Rightarrow> uuid \<Rightarrow> bool" where
  "offered cands l r \<longleftrightarrow> (l, r) \<in> set cands \<or> (r, l) \<in> set cands"

lemma set_unique_pairs_offered:
  "(l, r) \<in> set (unique_pairs docs cands) \<longleftrightarrow>
     l < r \<and> l \<in> ids docs \<and> r \<in> ids docs \<and> offered cands l r"
  by (simp add: set_unique_pairs offered_def)

lemma unique_pairs_cong:
  assumes "\<And>l r. l < r \<Longrightarrow> l \<in> ids docs \<Longrightarrow> r \<in> ids docs \<Longrightarrow> offered cands l r = offered cands' l r"
  shows "unique_pairs docs cands = unique_pairs docs cands'"
proof -
  have "set (unique_pairs docs cands) = set (unique_pairs docs cands')"
    using assms by (auto simp: set_unique_pairs_offered)
  moreover have "sorted (unique_pairs docs c) \<and> distinct (unique_pairs docs c)" for c
    by (simp add: unique_pairs_def)
  ultimately show ?thesis by (metis sorted_distinct_set_unique)
qed

text \<open>
  C29: correlation is deterministic: neither the order of the documents nor the order, orientation
  or repetition of the candidate pairs changes the transactions, their order or any of their fields.
\<close>

theorem correlation_deterministic:
  assumes "distinct (map doc_id docs)" and "mset docs = mset docs'"
    and "\<And>l r. offered cands l r = offered cands' l r"
  shows "correlate_candidates uuid5 e docs cands = correlate_candidates uuid5 e docs' cands'"
proof -
  have "unique_pairs o' cands = unique_pairs o' cands'" for o'
    by (rule unique_pairs_cong) (rule assms(3))
  then have "score_edges e o' cands = score_edges e o' cands'" for o'
    by (simp add: score_edges_def)
  then show ?thesis
    using ordered_unique [OF assms(1,2)] by (simp add: correlate_candidates_def correlate_pairs_def)
qed

section \<open>Blocking\<close>

definition acceptable :: "engine \<Rightarrow> pair_score option \<Rightarrow> pair_score option" where
  "acceptable e v = (case v of None \<Rightarrow> None
     | Some p \<Rightarrow> if minimum_score e \<le> pscore p then Some p else None)"

lemma relevant_edges_acceptable:
  "relevant_edges e g edges = List.map_filter
     (\<lambda>(l, r). acceptable e (map_of edges (pair_key (doc_id l) (doc_id r)))) (all_pairs g)"
  by (simp add: relevant_edges_def acceptable_def)

lemma ranked_cong:
  assumes "\<And>l r. l < r \<Longrightarrow> l \<in> ids docs \<Longrightarrow> r \<in> ids docs \<Longrightarrow>
      minimum_score e \<le> pscore (scored e docs l r) \<Longrightarrow> offered cands l r = offered cands' l r"
  shows "ranked e docs (score_edges e docs cands) = ranked e docs (score_edges e docs cands')"
proof -
  let ?f = "\<lambda>c. filter (\<lambda>(l, r). minimum_score e \<le> pscore (scored e docs l r)) (unique_pairs docs c)"
  have "set (?f cands) = set (?f cands')"
    using assms by (auto simp: set_unique_pairs_offered)
  moreover have "sorted (?f c) \<and> distinct (?f c)" for c
    by (simp add: unique_pairs_def sorted_wrt_filter)
  ultimately have "?f cands = ?f cands'" by (metis sorted_distinct_set_unique)
  then show ?thesis by (simp only: ranked_score_edges)
qed

lemma acceptable_cong:
  assumes "\<And>l r. l < r \<Longrightarrow> l \<in> ids docs \<Longrightarrow> r \<in> ids docs \<Longrightarrow>
      minimum_score e \<le> pscore (scored e docs l r) \<Longrightarrow> offered cands l r = offered cands' l r"
  shows "acceptable e (map_of (score_edges e docs cands) k) = acceptable e (map_of (score_edges e docs cands') k)"
  using assms by (cases k) (auto simp: acceptable_def map_of_score_edges set_unique_pairs_offered)

lemma correlate_pairs_cong:
  assumes "ranked e docs (score_edges e docs cands) = ranked e docs (score_edges e docs cands')"
    and "\<And>k. acceptable e (map_of (score_edges e docs cands) k) = acceptable e (map_of (score_edges e docs cands') k)"
  shows "correlate_pairs uuid5 e docs cands = correlate_pairs uuid5 e docs cands'"
proof -
  have "build_transaction uuid5 e g (score_edges e docs cands) = build_transaction uuid5 e g (score_edges e docs cands')" for g
    unfolding build_transaction_def build_correlation_def relevant_edges_acceptable assms(2) ..
  moreover have "components e docs (score_edges e docs cands) = components e docs (score_edges e docs cands')"
    by (simp only: components_def core_edges_def auxiliary_edges_def assms(1))
  ultimately show ?thesis by (simp only: correlate_pairs_def Let_def)
qed

text \<open>
  Blocking is safe: when the candidate pairs contain every pair whose score reaches the minimum,
  \<^verbatim>\<open>correlate_candidates\<close> returns exactly what the quadratic \<^verbatim>\<open>correlate\<close> returns.
\<close>

theorem blocking_is_safe:
  assumes "distinct (map doc_id docs)"
    and "\<And>a b. a \<in> set docs \<Longrightarrow> b \<in> set docs \<Longrightarrow> a \<noteq> b \<Longrightarrow>
      minimum_score e \<le> pscore (score_candidate_pair e a b) \<Longrightarrow> offered cands (doc_id a) (doc_id b)"
  shows "correlate_candidates uuid5 e docs cands = correlate uuid5 e docs"
proof -
  let ?o = "sort_key doc_order docs"
  let ?all = "map (\<lambda>(l, r). (doc_id l, doc_id r)) (all_pairs ?o)"
  have dist: "distinct (map doc_id ?o)" using assms(1) by (simp add: distinct_map)
  have same: "offered cands l r = offered ?all l r"
    if lr: "l < r" "l \<in> ids ?o" "r \<in> ids ?o" "minimum_score e \<le> pscore (scored e ?o l r)" for l r
  proof -
    obtain a b where ab: "a \<in> set docs" "l = doc_id a" "b \<in> set docs" "r = doc_id b"
      using lr(2,3) by (auto simp: ids_def)
    then have "a \<noteq> b" using lr(1) by auto
    moreover have "doc_of ?o l = a" "doc_of ?o r = b" using ab dist by simp_all
    ultimately have "offered cands l r" using assms(2) [of a b] lr(4) ab by (simp add: scored_def)
    moreover have "offered ?all l r"
      using all_pairs_members [of a ?o b] ab \<open>a \<noteq> b\<close> by (force simp: offered_def)
    ultimately show ?thesis by simp
  qed
  show ?thesis
    unfolding correlate_candidates_def correlate_def Let_def
    by (rule correlate_pairs_cong [OF ranked_cong [OF same] acceptable_cong [OF same]])
qed

section \<open>Auxiliary documents do not bridge episodes\<close>

text \<open>A set of identifiers that no component crosses.\<close>

definition separated :: "uuid set \<Rightarrow> forest \<Rightarrow> bool" where
  "separated N s \<longleftrightarrow> (\<forall>v \<in> N. component s v \<subseteq> N)"

lemma separated_singletons [inv_intros]: "separated N singletons"
  by (simp add: separated_def component_def rep_singletons)

lemma separated_union [inv_intros]:
  assumes "separated N s" and "union_step docs l r s s'" and "l \<in> N" and "r \<in> N"
  shows "separated N s'"
proof -
  have "component s' v \<subseteq> component s v \<union> component s l \<union> component s r" for v
    using assms(2) unfolding union_step_def by (cases "v \<in> component s l \<union> component s r") auto
  then show ?thesis using assms(1,3,4) unfolding separated_def by blast
qed

lemma union_cong:
  assumes "forest_ok s" and "separated N s" and "l \<in> N" and "r \<in> N"
    and "\<And>v. v \<in> N \<Longrightarrow> doc_of docs v = doc_of docs' v"
  shows "union docs l r s = union docs' l r s"
proof -
  from forests.find_two [OF assms(1), of l r] obtain s1 s2 where
    f: "find_in s l = Some (s1, rep s l)" "find_in s1 r = Some (s2, rep s r)"
    and s2: "component_members s2 = component_members s" by blast
  have "set (component_members s (rep s l)) \<subseteq> N" "set (component_members s (rep s r)) \<subseteq> N"
    using assms(2-4) forests.elems_rep [OF assms(1)] by (auto simp: separated_def component_def)
  then have eq: "map (doc_of docs) (component_members s (rep s l) @ component_members s (rep s r))
      = map (doc_of docs') (component_members s (rep s l) @ component_members s (rep s r))"
    using assms(5) by auto
  show ?thesis by (simp only: union_def f option.case prod.case s2 eq)
qed

lemma core_loop_cong:
  assumes "forest_ok s" and "separated N s" and "\<forall>(_, _, l, r) \<in> set xs. l \<in> N \<and> r \<in> N"
    and "\<And>v. v \<in> N \<Longrightarrow> doc_of docs v = doc_of docs' v"
  shows "loop (core_step docs) xs s = loop (core_step docs') xs s
    \<and> (\<exists>s'. loop (core_step docs) xs s = Some s' \<and> forest_ok s' \<and> separated N s'
         \<and> (\<forall>v. v \<notin> N \<longrightarrow> component s' v = component s v))"
  using assms(1-3)
proof (induction xs arbitrary: s)
  case (Cons x xs)
  obtain a b l r where x: "x = (a, b, l, r)" by (cases x)
  have lr: "l \<in> N" "r \<in> N" "\<forall>(_, _, l, r) \<in> set xs. l \<in> N \<and> r \<in> N" using Cons.prems x by auto
  from union_returns [OF Cons.prems(1), of docs l r] obtain s' u where
    u: "union docs l r s = Some (s', u)" "forest_ok s'" "union_step docs l r s s'" by blast
  have sep: "separated N s'" using separated_union [OF Cons.prems(2) u(3) lr(1,2)] .
  have "component s' v = component s v" if "v \<notin> N" for v
  proof -
    have "v \<notin> component s l \<union> component s r"
      using Cons.prems(2) lr(1,2) that by (auto simp: separated_def)
    then show ?thesis using u(3) unfolding union_step_def by presburger
  qed
  moreover have "core_step docs x s = Some s'"
    using u(1) by (simp add: x core_step_def)
  moreover from this have "core_step docs' x s = Some s'"
    using union_cong [OF Cons.prems(1,2) lr(1,2) assms(4)] by (simp add: x core_step_def)
  moreover from Cons.IH [OF u(2) sep lr(3)] obtain s2 where
    "loop (core_step docs) xs s' = Some s2" "loop (core_step docs') xs s' = Some s2" "forest_ok s2"
    "separated N s2" "\<forall>v. v \<notin> N \<longrightarrow> component s2 v = component s' v" by force
  ultimately show ?case by simp
qed simp

text \<open>An auxiliary document joins the component of its parent and changes nothing else.\<close>

lemma auxiliary_loop_keeps:
  assumes "forest_ok s" and "distinct (map fst xs)"
    and "\<forall>(i, cs) \<in> set xs. P i \<and> \<not> P (parent_of cs)" and "\<forall>i. P i \<longrightarrow> i \<in> fst ` set xs \<longrightarrow> component s i = {i}"
    and "loop (auxiliary_step docs) xs s = Some s'" and "\<not> P x" and "\<not> P y"
  shows "y \<in> component s' x \<longleftrightarrow> y \<in> component s x"
  using assms(1-5)
proof (induction xs arbitrary: s)
  case (Cons z zs)
  obtain i cs where z: "z = (i, cs)" by (cases z)
  have i: "P i" "\<not> P (parent_of cs)" "component s i = {i}" "i \<notin> fst ` set zs"
    using Cons.prems z by auto
  from auxiliary_loop.body_returns [OF Cons.prems(1), of docs z] obtain t where
    t: "auxiliary_step docs z s = Some t" "forest_ok t" "union_step docs i (parent_of cs) s t"
    by (auto simp: z)
  have rest: "\<forall>j. P j \<longrightarrow> j \<in> fst ` set zs \<longrightarrow> component t j = {j}"
  proof (intro allI impI)
    fix j assume j: "P j" "j \<in> fst ` set zs"
    then have cj: "component s j = {j}" and ji: "j \<noteq> i" using Cons.prems(4) i(4) by auto
    have "j \<notin> component s (parent_of cs)"
    proof
      assume "j \<in> component s (parent_of cs)"
      then have "component s j = component s (parent_of cs)" by (rule component_eq)
      then have "parent_of cs \<in> {j}" using component_self [of "parent_of cs" s] cj by simp
      then show False using i(2) j(1) by simp
    qed
    then show "component t j = {j}" using t(3) cj ji by (auto simp: union_step_def i(3))
  qed
  have "y \<in> component t x \<longleftrightarrow> y \<in> component s x"
  proof (cases "x \<in> component s (parent_of cs)")
    case True
    moreover have "y \<noteq> i" using assms(7) i(1) by auto
    ultimately show ?thesis using t(3) component_eq [OF True] by (auto simp: union_step_def i(3))
  next
    case False
    moreover have "x \<noteq> i" using assms(6) i(1) by auto
    ultimately show ?thesis using t(3) by (auto simp: union_step_def i(3))
  qed
  moreover have "y \<in> component s' x \<longleftrightarrow> y \<in> component t x"
    using Cons.IH [OF t(2)] Cons.prems rest t(1) by (auto simp: z)
  ultimately show ?case by simp
qed simp

text \<open>Without its auxiliary documents a batch has the same core edges.\<close>

definition economic :: "document list \<Rightarrow> document list" where
  "economic docs = filter (\<lambda>d. \<not> is_auxiliary d) docs"

lemma economic_facts:
  assumes "distinct (map doc_id docs)" and "v \<in> ids (economic docs)"
  shows "v \<in> ids docs \<and> doc_of (economic docs) v = doc_of docs v \<and> \<not> aux docs v
    \<and> \<not> aux (economic docs) v"
proof -
  from assms(2) obtain d where d: "d \<in> set docs" "\<not> is_auxiliary d" "v = doc_id d"
    by (auto simp: ids_def economic_def)
  moreover have "distinct (map doc_id (economic docs))"
    using assms(1) by (simp add: economic_def map_filter_distinct)
  ultimately show ?thesis using assms(1) by (simp add: economic_def aux_def ids_def)
qed

lemma ids_economic:
  assumes "distinct (map doc_id docs)"
  shows "v \<in> ids docs \<and> \<not> aux docs v \<longleftrightarrow> v \<in> ids (economic docs)"
  using assms economic_facts [OF assms, of v] by (auto simp: ids_def economic_def aux_def)

lemma core_edges_economic:
  assumes "distinct (map doc_id docs)"
  shows "core_edges e (economic docs) (score_edges e (economic docs) cands)
    = core_edges e docs (score_edges e docs cands)"
proof -
  let ?key = "\<lambda>D (l, r). (- pscore (scored e D l r), delta (doc_of D l) (doc_of D r), l, r)"
  let ?ok = "\<lambda>D (l, r). minimum_score e \<le> pscore (scored e D l r) \<and> \<not> aux D l \<and> \<not> aux D r"
  have core: "core_edges e D (score_edges e D cands) = map (?key D) (filter (?ok D) (unique_pairs D cands))" for D
    by (simp add: core_edges_def ranked_score_edges filter_map comp_def case_prod_unfold
        conj_commute cong: filter_cong)
  have same: "?key (economic docs) p = ?key docs p \<and> ?ok (economic docs) p = ?ok docs p"
    if "p \<in> ids (economic docs) \<times> ids (economic docs)" for p
    using that economic_facts [OF assms] by (auto simp: scored_def)
  let ?L = "filter (?ok (economic docs)) (unique_pairs (economic docs) cands)"
  let ?R = "filter (?ok docs) (unique_pairs docs cands)"
  have in_eco: "p \<in> ids (economic docs) \<times> ids (economic docs)" if "p \<in> set ?L \<union> set ?R" for p
    using that ids_economic [OF assms] by (cases p) (auto simp: set_unique_pairs)
  have "p \<in> set ?L \<longleftrightarrow> p \<in> set ?R" for p
    using in_eco [of p] same [of p] ids_economic [OF assms] by (cases p) (auto simp: set_unique_pairs)
  then have "set ?L = set ?R" by blast
  moreover have "sorted ?L" "distinct ?L" "sorted ?R" "distinct ?R"
    by (simp_all add: unique_pairs_def sorted_wrt_filter)
  ultimately have "?L = ?R" by (intro sorted_distinct_set_unique)
  then have "map (?key (economic docs)) ?L = map (?key docs) ?R"
    by (rule map_cong) (use same in_eco in blast)
  then show ?thesis by (simp only: core)
qed

lemma auxiliary_edges_economic:
  assumes "distinct (map doc_id docs)"
  shows "auxiliary_edges e (economic docs) (score_edges e (economic docs) cands) = []"
  using auxiliary_edge_linked [of _ _ e "economic docs" cands] economic_facts [OF assms]
  by (metis list.set_intros(1) neq_Nil_conv surj_pair)

text \<open>Two documents of a run share a transaction exactly when they share a component.\<close>

definition together :: "transaction list \<Rightarrow> document \<Rightarrow> document \<Rightarrow> bool" where
  "together ts a b \<longleftrightarrow> (\<exists>t \<in> set ts. a \<in> set (tx_documents t) \<and> b \<in> set (tx_documents t))"

lemma together_outcome:
  assumes "distinct (map doc_id ordered)" and "sound_groups ordered s" and "a \<in> set ordered" and "b \<in> set ordered"
  shows "together (outcome uuid5 e ordered (score_edges e ordered cands) s) a b
    \<longleftrightarrow> doc_id b \<in> component s (doc_id a)"
proof
  assume "together (outcome uuid5 e ordered (score_edges e ordered cands) s) a b"
  then obtain t where "t \<in> set (outcome uuid5 e ordered (score_edges e ordered cands) s)"
    and ab: "a \<in> set (tx_documents t)" "b \<in> set (tx_documents t)" by (auto simp: together_def)
  from outcome_member [OF assms(1,2) this(1)] obtain v where
    "set (tx_documents t) = {d \<in> set ordered. doc_id d \<in> component s v}" by blast
  then show "doc_id b \<in> component s (doc_id a)" using ab by (simp add: component_def)
next
  assume b: "doc_id b \<in> component s (doc_id a)"
  let ?k = "rep s (doc_id a)"
  let ?g = "filter (\<lambda>d. (rep s \<circ> doc_id) d = ?k) ordered"
  let ?t = "projr (build_transaction uuid5 e ?g (score_edges e ordered cands))"
  have mem: "a \<in> set ?g" "b \<in> set ?g" using assms(3,4) b by (simp_all add: component_def)
  then have ne: "?g \<noteq> []" by (metis empty_iff empty_set)
  then have "(?k, ?g) \<in> set (group_by (rep s \<circ> doc_id) ordered)" by (simp only: group_by_member simp_thms)
  then have "?t \<in> set (outcome uuid5 e ordered (score_edges e ordered cands) s)"
    by (force simp: outcome_def image_iff)
  moreover have "\<not> overflows ?g" using assms(2) \<open>(?k, ?g) \<in> _\<close> by (auto simp: sound_groups_def)
  with build_transaction_result [OF score_edges_ok map_filter_distinct [OF assms(1)] ne, of uuid5 e e ordered cands]
  have "set (tx_documents ?t) = set ?g" by auto
  ultimately show "together (outcome uuid5 e ordered (score_edges e ordered cands) s) a b"
    unfolding together_def using mem by metis
qed

lemma component_phases:
  assumes "distinct (map doc_id docs)"
    and "loop (core_step docs) (sort (core_edges e docs (score_edges e docs cands))) singletons = Some s1"
    and "loop (auxiliary_step docs) (sort_key fst (auxiliary_edges e docs (score_edges e docs cands))) s1 = Some s2"
    and "x \<in> ids (economic docs)" and "y \<in> ids (economic docs)"
  shows "y \<in> component s2 x \<longleftrightarrow> y \<in> component s1 x"
proof -
  let ?N = "ids (economic docs)"
  let ?xs = "sort_key fst (auxiliary_edges e docs (score_edges e docs cands))"
  have "l \<in> ?N \<and> r \<in> ?N" if "(a, b, l, r) \<in> set (core_edges e docs (score_edges e docs cands))" for a b l r
    using that ranked_member [of a b l r e docs cands] ids_economic [OF assms(1)]
    by (auto simp: core_edges_def)
  then have "\<forall>(_, _, l, r) \<in> set (sort (core_edges e docs (score_edges e docs cands))). l \<in> ?N \<and> r \<in> ?N"
    by auto
  from core_loop_cong [OF singletons_ok separated_singletons this, of docs docs]
  have s1: "forest_ok s1" "\<forall>v. v \<notin> ?N \<longrightarrow> component s1 v = component singletons v"
    by (simp_all add: assms(2))
  show ?thesis
  proof (rule auxiliary_loop_keeps [where P = "aux docs", OF s1(1)])
    show "distinct (map fst ?xs)"
      using auxiliary_edges_ok [of e docs "score_edges e docs cands"]
      by (simp add: attachments_ok_def distinct_map)
    show "\<forall>(i, cs) \<in> set ?xs. aux docs i \<and> \<not> aux docs (parent_of cs)"
      using auxiliary_edge_linked [of _ _ e docs cands] by auto
    show "\<forall>i. aux docs i \<longrightarrow> i \<in> fst ` set ?xs \<longrightarrow> component s1 i = {i}"
      using s1(2) economic_facts [OF assms(1)] by (auto simp: component_def rep_singletons)
  qed (use assms economic_facts in auto)
qed

text \<open>
  Auxiliary documents (copies, reprints, device responses, refunds, invoices, shift reports)
  never bridge episodes: two economic documents share a transaction exactly when they would share
  one had no auxiliary document been observed at all.
\<close>

theorem auxiliary_never_bridges:
  assumes "distinct (map doc_id docs)"
    and "correlate_candidates uuid5 e docs cands = Some (Inr ts)"
    and "correlate_candidates uuid5 e (economic docs) cands = Some (Inr ts')"
    and "a \<in> set (economic docs)" and "b \<in> set (economic docs)"
  shows "together ts a b = together ts' a b"
proof -
  let ?o = "sort_key doc_order docs"
  have o: "distinct (map doc_id ?o)" using assms(1) by (simp add: distinct_map)
  have eo: "sort_key doc_order (economic docs) = economic ?o"
    by (simp add: economic_def filter_sort)
  have ab: "a \<in> set (economic ?o)" "b \<in> set (economic ?o)" "a \<in> set ?o" "b \<in> set ?o"
    using assms(4,5) by (simp_all add: economic_def)
  then have ne: "?o \<noteq> []" "economic ?o \<noteq> []" by (metis empty_iff empty_set)+
  have deo: "distinct (map doc_id (economic ?o))" using o by (simp add: economic_def map_filter_distinct)
  obtain s1 s2 where D: "loop (core_step ?o) (sort (core_edges e ?o (score_edges e ?o cands))) singletons = Some s1"
    "loop (auxiliary_step ?o) (sort_key fst (auxiliary_edges e ?o (score_edges e ?o cands))) s1 = Some s2"
    and sound: "sound_groups ?o s2" and ts: "ts = outcome uuid5 e ?o (score_edges e ?o cands) s2"
    using assms(2) by (auto simp: correlate_candidates_def split: if_split_asm intro: correlate_pairs_result [OF o ne(1), of e cands uuid5])
  obtain u1 u2 where E: "loop (core_step (economic ?o)) (sort (core_edges e (economic ?o) (score_edges e (economic ?o) cands))) singletons = Some u1"
    "loop (auxiliary_step (economic ?o)) (sort_key fst (auxiliary_edges e (economic ?o) (score_edges e (economic ?o) cands))) u1 = Some u2"
    and sound': "sound_groups (economic ?o) u2" and ts': "ts' = outcome uuid5 e (economic ?o) (score_edges e (economic ?o) cands) u2"
    using assms(3) by (auto simp: correlate_candidates_def eo split: if_split_asm intro: correlate_pairs_result [OF deo ne(2), of e cands uuid5])
  have "u2 = u1" using E(2) by (simp add: auxiliary_edges_economic [OF o])
  have edges: "\<forall>(_, _, l, r) \<in> set (sort (core_edges e ?o (score_edges e ?o cands))).
      l \<in> ids (economic ?o) \<and> r \<in> ids (economic ?o)"
    using ranked_member [of _ _ _ _ e ?o cands] ids_economic [OF o] by (fastforce simp: core_edges_def)
  from core_loop_cong [OF singletons_ok separated_singletons edges, of ?o "economic ?o"]
  have "u1 = s1" using D(1) E(1) economic_facts [OF o] by (simp add: core_edges_economic [OF o])
  have "doc_id a \<in> ids (economic ?o)" "doc_id b \<in> ids (economic ?o)" using ab by (simp_all add: ids_def)
  from component_phases [OF o D this] show ?thesis
    using together_outcome [OF o sound ab(3,4)] together_outcome [OF deo sound' ab(1,2)] \<open>u2 = u1\<close> \<open>u1 = s1\<close>
    by (simp add: ts ts')
qed

section \<open>The comparison of a transaction\<close>

text \<open>The documents the economic comparison may look at.\<close>

definition comparable :: "document list \<Rightarrow> document list" where
  "comparable docs =
     filter (\<lambda>d. doc_type d \<in> {PRE_BILL, MANAGEMENT_DOCUMENT, COMMERCIAL_DOCUMENT}) docs"

lemma valid_fiscal_comparable: "valid_fiscal (comparable docs) = valid_fiscal docs"
  by (auto simp: valid_fiscal_def comparable_def fiscal_types_def intro: filter_cong)

lemma find_prebill_comparable: "find_prebill (comparable docs) = find_prebill docs"
proof -
  have "filter (\<lambda>d. doc_type d = PRE_BILL) (comparable docs) = filter (\<lambda>d. doc_type d = PRE_BILL) docs"
    and "filter (\<lambda>d. doc_type d = PRE_BILL \<and> document_time d \<le> document_time x) (comparable docs)
      = filter (\<lambda>d. doc_type d = PRE_BILL \<and> document_time d \<le> document_time x) docs"
    and "filter (management_baseline x) (comparable docs) = filter (management_baseline x) docs" for x
    by (auto simp: comparable_def management_baseline_def is_management_def intro: filter_cong)
  then show ?thesis by (simp only: find_prebill_def valid_fiscal_comparable)
qed

lemma management_closures_comparable:
  "management_closures p (comparable docs) = management_closures p docs"
  by (auto simp: management_closures_def comparable_def is_management_def intro: filter_cong)

lemma build_transaction_fields:
  assumes "build_transaction uuid5 e docs edges = Inr t"
  shows "prebill_total t = prebill_total_of (sort_key doc_order docs)"
    and "fiscal_total t = sum_totals (valid_fiscal (sort_key doc_order docs))"
    and "observed_final_total t = sum_totals (economic_closures (sort_key doc_order docs))"
    and "difference_amount t = map_option (\<lambda>p. p - observed_final_total t) (prebill_total t)"
    and "percent_of (prebill_total t) (observed_final_total t) = Inr (difference_percent t)"
    and "split_payment t = (1 < length (valid_fiscal (sort_key doc_order docs)) \<and> 0 < fiscal_total t)"
    and "tx_line_changes t = comparison_changes (sort_key doc_order docs)"
  using assms unfolding build_transaction_def Let_def
  by (auto split: sum.splits if_splits)

lemma comparison_comparable:
  "economic_closures (comparable docs) = economic_closures docs"
  "prebill_total_of (comparable docs) = prebill_total_of docs"
  "comparison_changes (comparable docs) = comparison_changes docs"
  by (simp_all only: economic_closures_def prebill_total_of_def comparison_changes_def
      valid_fiscal_comparable find_prebill_comparable management_closures_comparable)

text \<open>
  Only pre-bills, management documents and commercial documents enter the comparison: leaving
  every other document of the episode out (refunds, copies, reprints, responses, kitchen tickets,
  payments) changes neither the totals nor the difference, its percentage, the split flag or the
  line changes.
\<close>

theorem comparison_ignores_other_documents:
  assumes "build_transaction uuid5 e docs edges = Inr t"
    and "build_transaction uuid5 e (comparable docs) edges = Inr u"
  shows "prebill_total t = prebill_total u \<and> fiscal_total t = fiscal_total u
    \<and> observed_final_total t = observed_final_total u
    \<and> difference_amount t = difference_amount u \<and> difference_percent t = difference_percent u
    \<and> split_payment t = split_payment u \<and> tx_line_changes t = tx_line_changes u"
proof -
  have "sort_key doc_order (comparable docs) = comparable (sort_key doc_order docs)"
    by (simp add: comparable_def filter_sort)
  then show ?thesis
    using build_transaction_fields [OF assms(1)] build_transaction_fields [OF assms(2)]
    by (simp add: comparison_comparable valid_fiscal_comparable)
qed

text \<open>
  When the observed final total lies between zero and a positive pre-bill total, the difference
  lies between zero and the pre-bill total and its percentage, despite the two roundings of the
  decimal context and the final quantisation, between zero and one hundred.
\<close>

lemma difference_percent_bounds:
  assumes "build_transaction uuid5 e docs edges = Inr t" and "prebill_total t = Some p" and "0 < p"
    and "0 \<le> observed_final_total t" and "observed_final_total t \<le> p"
  shows "\<exists>d q. difference_amount t = Some d \<and> 0 \<le> d \<and> d \<le> p
    \<and> difference_percent t = Some q \<and> 0 \<le> q \<and> q \<le> 100"
proof -
  let ?r = "dec_div (p - observed_final_total t) p"
  have "0 \<le> (p - observed_final_total t) / p" "(p - observed_final_total t) / p \<le> of_int 1"
    using assms(3-5) by simp_all
  from ctx_between [OF this] have r: "0 \<le> ?r" "?r \<le> 1" by (simp_all add: dec_div_def)
  have "0 \<le> dec_mul ?r 100 \<and> dec_mul ?r 100 \<le> of_int 100"
    unfolding dec_mul_def by (rule ctx_between) (use r in simp_all)
  then have "0 \<le> quantize 4 (dec_mul ?r 100) \<and> quantize 4 (dec_mul ?r 100) \<le> 100"
    using quantize_ge [of 0 "dec_mul ?r 100" 4] quantize_le [of "dec_mul ?r 100" 100 4] by simp
  then show ?thesis
    using build_transaction_fields(4,5) [OF assms(1)] assms(2-5) by (auto simp: percent_of_def Let_def split: if_split_asm dest: sym)
qed

section \<open>Examples\<close>

text \<open>A receipt and the device response observed in its job.\<close>

definition example_receipt :: document where
  "example_receipt = blank_document\<lparr>doc_id := 1, doc_type := COMMERCIAL_DOCUMENT,
     gross_total := Some 18, source_job_id := ''job-1'', document_timestamp := Some 1000000\<rparr>"

definition example_response :: document where
  "example_response = blank_document\<lparr>doc_id := 2, doc_type := DEVICE_RESPONSE,
     source_job_id := ''job-1'', document_timestamp := Some 2000000\<rparr>"

definition example_documents :: "document list" where
  "example_documents = [example_response, example_receipt]"

lemma example_distinct: "distinct (map doc_id example_documents)"
  by code_simp

lemma example_run:
  obtains t where "correlate_candidates (\<lambda>_. 7) default_engine example_documents [(1, 2)] = Some (Inr [t])"
    and "map doc_id (tx_documents t) = [1, 2]" and "map_option cr_score (correlation t) = Some 90"
proof -
  let ?f = "\<lambda>t. (map doc_id (tx_documents t), map_option cr_score (correlation t))"
  let ?r = "correlate_candidates (\<lambda>_. 7) default_engine example_documents [(1, 2)]"
  have run: "map_option (map_sum id (map ?f)) ?r = Some (Inr [([1, 2], Some 90)])"
    by code_simp
  then obtain x where x: "?r = Some x" "map_sum id (map ?f) x = Inr [([1, 2], Some 90)]"
    by (auto simp: map_option_eq_Some)
  then obtain ts where "?r = Some (Inr ts)" "map ?f ts = [([1, 2], Some 90)]"
    by (cases x) auto
  with that show thesis by auto
qed

text \<open>A pre-bill of a hundredth of a cent in an episode whose receipts add up to more than \<open>10 ^ 18\<close>.\<close>

lemma percent_overflows: "percent_of (Some (1 / 10000)) (11 * 10 ^ 17) = Inl PercentOverflow"
proof -
  have whole: "ctx (of_int n) = of_int n" if "\<bar>n\<bar> < 10 ^ 28" for n
    using ctx_quantize_abs [of "of_int n" "\<bar>n\<bar>"] that by auto
  have "(1 / 10000 - 11 * 10 ^ 17) / (1 / 10000) = (of_int (1 - 11 * 10 ^ 21) :: rat)" by simp
  then have "dec_div (1 / 10000 - 11 * 10 ^ 17) (1 / 10000) = of_int (1 - 11 * 10 ^ 21)"
    unfolding dec_div_def by (simp only:) (rule whole, simp)
  then have "dec_mul (dec_div (1 / 10000 - 11 * 10 ^ 17) (1 / 10000)) 100 = ctx (of_int ((1 - 11 * 10 ^ 21) * 100))"
    unfolding dec_mul_def by (simp only: of_int_mult of_int_numeral)
  also have "\<dots> = of_int ((1 - 11 * 10 ^ 21) * 100)" by (rule whole) simp
  finally have x: "dec_mul (dec_div (1 / 10000 - 11 * 10 ^ 17) (1 / 10000)) 100 = of_int ((1 - 11 * 10 ^ 21) * 100)" .
  have "half_even (of_int ((1 - 11 * 10 ^ 21) * 100) * 10 ^ 4) = (1 - 11 * 10 ^ 21) * 100 * 10 ^ 4"
    using half_even_of_int [of "(1 - 11 * 10 ^ 21) * 100 * 10 ^ 4"] by simp
  then show ?thesis unfolding percent_of_def Let_def option.case x by simp
qed

theorem correlation_partitions_witness:
  "distinct (map doc_id example_documents) \<and>
   (\<exists>ts. correlate_candidates (\<lambda>_. 7) default_engine example_documents [(1, 2)] = Some (Inr ts)
      \<and> mset (concat (map tx_documents ts)) = mset example_documents)"
proof -
  obtain t where "correlate_candidates (\<lambda>_. 7) default_engine example_documents [(1, 2)] = Some (Inr [t])"
    by (rule example_run)
  with correlation_partitions [OF example_distinct, of "\<lambda>_. 7" default_engine "[(1, 2)]"] example_distinct show ?thesis
    by simp
qed

theorem transactions_coherent_witness:
  "\<exists>t. correlate_candidates (\<lambda>_. 7) default_engine example_documents [(1, 2)] = Some (Inr [t])
     \<and> map doc_id (tx_documents t) = [1, 2] \<and> coherent (set (tx_documents t))"
  using example_run transactions_coherent [OF example_distinct, of "\<lambda>_. 7" default_engine "[(1, 2)]"]
  by (metis list.set_intros(1))

theorem transaction_scores_witness:
  "\<exists>t c. correlate_candidates (\<lambda>_. 7) default_engine example_documents [(1, 2)] = Some (Inr [t])
     \<and> correlation t = Some c \<and> minimum_score default_engine \<le> cr_score c \<and> cr_score c \<le> 100"
proof -
  obtain t c where run: "correlate_candidates (\<lambda>_. 7) default_engine example_documents [(1, 2)] = Some (Inr [t])"
    and c: "correlation t = Some c"
    by (rule example_run) auto
  from transaction_scores [OF example_distinct run, of t] c run show ?thesis by auto
qed

theorem correlation_deterministic_witness:
  "mset example_documents = mset [example_receipt, example_response] \<and>
   correlate_candidates (\<lambda>_. 7) default_engine example_documents [(1, 2)]
     = correlate_candidates (\<lambda>_. 7) default_engine [example_receipt, example_response] [(2, 1), (1, 2)]"
proof -
  have m: "mset example_documents = mset [example_receipt, example_response]"
    by (simp add: example_documents_def)
  have "offered [(1, 2)] l r = offered [(2, 1), (1, 2)] l r" for l r
    by (auto simp: offered_def)
  from correlation_deterministic [OF example_distinct m this, of "\<lambda>_. 7" default_engine] m
  show ?thesis by simp
qed

theorem blocking_is_safe_witness:
  "correlate_candidates (\<lambda>_. 7) default_engine example_documents [(1, 2)]
     = correlate (\<lambda>_. 7) default_engine example_documents"
proof (rule blocking_is_safe [OF example_distinct])
  fix a b :: document
  assume "a \<in> set example_documents" "b \<in> set example_documents" "a \<noteq> b"
  then show "offered [(1, 2)] (doc_id a) (doc_id b)"
    by (auto simp: example_documents_def offered_def example_receipt_def example_response_def)
qed

theorem auxiliary_never_bridges_witness:
  "\<exists>ts ts'. correlate_candidates (\<lambda>_. 7) default_engine example_documents [(1, 2)] = Some (Inr ts)
     \<and> correlate_candidates (\<lambda>_. 7) default_engine (economic example_documents) [(1, 2)] = Some (Inr ts')
     \<and> together ts example_receipt example_receipt = together ts' example_receipt example_receipt
     \<and> economic example_documents = [example_receipt]"
proof -
  have e: "economic example_documents = [example_receipt]"
    by (simp add: economic_def example_documents_def is_auxiliary_def auxiliary_types_def
        example_receipt_def example_response_def)
  then have mem: "example_receipt \<in> set (economic example_documents)" by simp
  have "distinct (map doc_id (sort_key doc_order [example_receipt]))" "sort_key doc_order [example_receipt] \<noteq> []"
    by simp_all
  have "moderate [example_receipt]" by code_simp
  note moderate = moderate_group [OF this]
  have "sound_groups [example_receipt] s" for s
    unfolding sound_groups_def
  proof (intro ballI, clarify)
    fix k g assume kg: "(k, g) \<in> set (group_by (rep s \<circ> doc_id) [example_receipt])" "overflows g"
    have "distinct (map doc_id [example_receipt])" by simp
    from group_result(3) [OF this kg(1)] moderate [of "\<lambda>d. rep s (doc_id d) = k"] kg(2) show False by simp
  qed
  with correlate_pairs_result [OF \<open>distinct _\<close> \<open>_ \<noteq> []\<close>, of default_engine "[(1, 2)]" "\<lambda>_. 7"] obtain ts' where
    run': "correlate_candidates (\<lambda>_. 7) default_engine (economic example_documents) [(1, 2)] = Some (Inr ts')"
    by (auto simp: e correlate_candidates_def)
  obtain t where run: "correlate_candidates (\<lambda>_. 7) default_engine example_documents [(1, 2)] = Some (Inr [t])"
    by (rule example_run)
  from auxiliary_never_bridges [OF example_distinct run run' mem mem] run run' e show ?thesis by blast
qed

theorem comparison_ignores_other_documents_witness:
  "\<exists>t u. build_transaction (\<lambda>_. 7) default_engine example_documents [] = Inr t
     \<and> build_transaction (\<lambda>_. 7) default_engine (comparable example_documents) [] = Inr u
     \<and> comparable example_documents = [example_receipt] \<and> fiscal_total t = fiscal_total u"
proof -
  have c: "comparable example_documents = [example_receipt]"
    by (simp add: comparable_def example_documents_def example_receipt_def example_response_def)
  have "scores_ok []" by (simp add: scores_ok_def)
  note built = build_transaction_result [OF this, of _ "\<lambda>_. 7" default_engine]
  have "\<not> overflows example_documents" "\<not> overflows [example_receipt]" by code_simp+
  obtain t where t: "build_transaction (\<lambda>_. 7) default_engine example_documents [] = Inr t"
    using built [OF example_distinct] \<open>\<not> overflows example_documents\<close> by (auto simp: example_documents_def)
  obtain u where u: "build_transaction (\<lambda>_. 7) default_engine (comparable example_documents) [] = Inr u"
    using built [of "[example_receipt]"] \<open>\<not> overflows [example_receipt]\<close> by (auto simp: c)
  from comparison_ignores_other_documents [OF t u] t u c show ?thesis by blast
qed

theorem difference_percent_bounds_witness:
  "\<exists>t q. build_transaction (\<lambda>_. 7) default_engine [example_prebill, example_fiscal] [] = Inr t
     \<and> difference_percent t = Some q \<and> 0 \<le> q \<and> q \<le> 100"
proof -
  let ?r = "build_transaction (\<lambda>_. 7) default_engine [example_prebill, example_fiscal] []"
  let ?f = "\<lambda>t. (prebill_total t, observed_final_total t)"
  have "map_sum id ?f ?r = Inr (Some 20, 18)" by code_simp
  then obtain t where t: "?r = Inr t" "prebill_total t = Some 20" "observed_final_total t = 18"
    by (cases ?r) auto
  from difference_percent_bounds [OF t(1,2)] t show ?thesis by auto
qed

end
