(* ===== verification/Json.thy ===== *)
theory Json imports PyValue begin

text \<open>
  Canonical JSON, as \<^verbatim>\<open>json.dumps(value, ensure_ascii=False, sort_keys=True,
  separators=(",", ":")).encode("utf-8")\<close> writes it: the form every digest of the program is taken
  of (\<^verbatim>\<open>common/hashchain.py\<close>, \<^verbatim>\<open>proxy/spool.py\<close>). The text determines the value up to the order of
  object members, and no text of a value continues another one.
\<close>

section \<open>Serialisation\<close>

text \<open>\<^verbatim>\<open>json.encoder.ESCAPE_DCT\<close>: quote, backslash and the control characters.\<close>

definition json_char :: "char \<Rightarrow> string" where
  "json_char c = (let n = code c in
     if n = 34 then [CHR 0x5C, CHR 0x22]
     else if n = 92 then [CHR 0x5C, CHR 0x5C]
     else if n = 10 then [CHR 0x5C, CHR ''n'']
     else if n = 13 then [CHR 0x5C, CHR ''r'']
     else if n = 9 then [CHR 0x5C, CHR ''t'']
     else if n = 12 then [CHR 0x5C, CHR ''f'']
     else if n = 8 then [CHR 0x5C, CHR ''b'']
     else if n < 32 then [CHR 0x5C, CHR ''u'', CHR ''0'', CHR ''0'', hex_digit (n div 16), hex_digit (n mod 16)]
     else [c])"

definition json_string :: "string \<Rightarrow> string" where
  "json_string s = CHR 0x22 # concat (map json_char s) @ [CHR 0x22]"

fun json_text :: "jval \<Rightarrow> string"
  and json_items :: "jval list \<Rightarrow> string"
  and json_members :: "(string \<times> jval) list \<Rightarrow> string" where
  "json_text JNull = ''null''"
| "json_text (JBool b) = (if b then ''true'' else ''false'')"
| "json_text (JInt i) = show_int i"
| "json_text (JStr s) = json_string s"
| "json_text (JList xs) = CHR ''['' # json_items xs"
| "json_text (JObj ms) = CHR 0x7B # json_members ms"
| "json_items [] = '']''"
| "json_items [x] = json_text x @ '']''"
| "json_items (x # y # ys) = json_text x @ CHR '','' # json_items (y # ys)"
| "json_members [] = [CHR 0x7D]"
| "json_members [(k, v)] = json_string k @ CHR '':'' # json_text v @ [CHR 0x7D]"
| "json_members ((k, v) # m # ms) =
     json_string k @ CHR '':'' # json_text v @ CHR '','' # json_members (m # ms)"

text \<open>\<^verbatim>\<open>sort_keys=True\<close>, at every level.\<close>

fun sort_keys :: "jval \<Rightarrow> jval"
  and sort_items :: "jval list \<Rightarrow> jval list"
  and sort_members :: "(string \<times> jval) list \<Rightarrow> (string \<times> jval) list" where
  "sort_keys (JList xs) = JList (sort_items xs)"
| "sort_keys (JObj ms) = JObj (sort_key fst (sort_members ms))"
| "sort_keys v = v"
| "sort_items [] = []"
| "sort_items (x # xs) = sort_keys x # sort_items xs"
| "sort_members [] = []"
| "sort_members ((k, v) # ms) = (k, sort_keys v) # sort_members ms"

text \<open>UTF-8 of the Latin-1 repertoire: one byte below U+0080, two above.\<close>

definition utf8_char :: "char \<Rightarrow> bytes" where
  "utf8_char c = (let n = code c in
     if n < 128 then [of_nat n] else [of_nat (192 + n div 64), of_nat (128 + n mod 64)])"

definition utf8 :: "string \<Rightarrow> bytes" where
  "utf8 s = concat (map utf8_char s)"

definition canonical_json :: "jval \<Rightarrow> bytes" where
  "canonical_json v = utf8 (json_text (sort_keys v))"

section \<open>The text of a value is unambiguous\<close>

lemma chr_eq_iff: "m < 256 \<Longrightarrow> n < 256 \<Longrightarrow> chr m = chr n \<longleftrightarrow> m = n"
  by (metis code_chr)

text \<open>
  A reader of the canonical form, given enough fuel: it inverts the serialiser, whatever follows the
  text of a value.
\<close>

definition hex_value :: "char \<Rightarrow> nat" where
  "hex_value c = (let n = code c in if n < 58 then n - 48 else n - 87)"

lemma hex_value_digit: "n < 16 \<Longrightarrow> hex_value (hex_digit n) = n"
  by (simp add: hex_value_def hex_digit_def code_chr Let_def)

fun read_escape :: "string \<Rightarrow> (char \<times> string) option" where
  "read_escape (e # r) =
     (if e = CHR ''n'' then Some (CHR 0x0A, r)
      else if e = CHR ''r'' then Some (CHR 0x0D, r)
      else if e = CHR ''t'' then Some (CHR 0x09, r)
      else if e = CHR ''f'' then Some (CHR 0x0C, r)
      else if e = CHR ''b'' then Some (CHR 0x08, r)
      else if e = CHR ''u'' then (case r of
          _ # _ # a # b # r' \<Rightarrow> Some (chr (16 * hex_value a + hex_value b), r')
        | _ \<Rightarrow> None)
      else Some (e, r))"
| "read_escape [] = None"

fun read_char :: "string \<Rightarrow> (char \<times> string) option" where
  "read_char (c # r) = (if c = CHR 0x5C then read_escape r else Some (c, r))"
| "read_char [] = None"

fun read_chars :: "nat \<Rightarrow> string \<Rightarrow> (string \<times> string) option" where
  "read_chars (Suc n) (c # r) = (if c = CHR 0x22 then Some ([], r)
     else (case read_char (c # r) of None \<Rightarrow> None
       | Some (d, r') \<Rightarrow> (case read_chars n r' of None \<Rightarrow> None
           | Some (ds, r'') \<Rightarrow> Some (d # ds, r''))))"
| "read_chars _ _ = None"

definition read_int :: "string \<Rightarrow> (jval \<times> string) option" where
  "read_int s = (if hd s = CHR ''-''
     then Some (JInt (- int (digits_value 0 (takeWhile is_digit (tl s)))), dropWhile is_digit (tl s))
     else Some (JInt (int (digits_value 0 (takeWhile is_digit s))), dropWhile is_digit s))"

fun read_value :: "nat \<Rightarrow> string \<Rightarrow> (jval \<times> string) option"
  and read_items :: "nat \<Rightarrow> string \<Rightarrow> (jval list \<times> string) option"
  and read_members :: "nat \<Rightarrow> string \<Rightarrow> ((string \<times> jval) list \<times> string) option" where
  "read_value (Suc n) (c # r) =
     (if c = CHR 0x22 then map_option (\<lambda>(s, t). (JStr s, t)) (read_chars n r)
      else if c = CHR ''['' then map_option (\<lambda>(xs, t). (JList xs, t)) (read_items n r)
      else if c = CHR 0x7B then map_option (\<lambda>(ms, t). (JObj ms, t)) (read_members n r)
      else if c = CHR ''n'' then Some (JNull, drop 3 r)
      else if c = CHR ''t'' then Some (JBool True, drop 3 r)
      else if c = CHR ''f'' then Some (JBool False, drop 4 r)
      else if c = CHR ''-'' \<or> is_digit c then read_int (c # r)
      else None)"
| "read_value _ _ = None"
| "read_items (Suc n) s = (if s \<noteq> [] \<and> hd s = CHR '']'' then Some ([], tl s)
     else (case read_value n s of
         Some (v, c # r) \<Rightarrow> (if c = CHR '','' then map_option (\<lambda>(vs, t). (v # vs, t)) (read_items n r)
           else if c = CHR '']'' then Some ([v], r) else None)
       | _ \<Rightarrow> None))"
| "read_items 0 s = None"
| "read_members (Suc n) s = (if s \<noteq> [] \<and> hd s = CHR 0x7D then Some ([], tl s)
     else if s \<noteq> [] \<and> hd s = CHR 0x22 then (case read_chars n (tl s) of
         Some (k, c # r) \<Rightarrow> (if c = CHR '':'' then (case read_value n r of
             Some (v, d # r') \<Rightarrow>
               (if d = CHR '','' then map_option (\<lambda>(ms, t). ((k, v) # ms, t)) (read_members n r')
                else if d = CHR 0x7D then Some ([(k, v)], r') else None)
           | _ \<Rightarrow> None) else None)
       | _ \<Rightarrow> None)
     else None)"
| "read_members 0 s = None"

lemma code_literal:
  "code (CHR ''n'') = 110" "code (CHR ''r'') = 114" "code (CHR ''t'') = 116" "code (CHR ''f'') = 102"
  "code (CHR ''b'') = 98" "code (CHR ''u'') = 117" "code (CHR ''['') = 91" "code (CHR '']'') = 93"
  "code (CHR '','') = 44" "code (CHR '':'') = 58" "code (CHR ''-'') = 45" "code (CHR ''0'') = 48"
  "code (CHR 0x22) = 34" "code (CHR 0x5C) = 92" "code (CHR 0x0A) = 10" "code (CHR 0x0D) = 13"
  "code (CHR 0x09) = 9" "code (CHR 0x0C) = 12" "code (CHR 0x08) = 8"
  by (simp_all add: code_def)

lemmas char_codes = code_literal code_chr code_inj [symmetric]

lemma read_json_char: "read_char (json_char c @ s) = Some (c, s)"
proof -
  have "code c div 16 < 16" using code_less [of c] by simp
  then have "hex_value (hex_digit (code c div 16)) = code c div 16"
    and "hex_value (hex_digit (code c mod 16)) = code c mod 16"
    by (simp_all add: hex_value_digit)
  then show ?thesis by (simp add: json_char_def Let_def char_codes)
qed

lemma json_char_head: "\<exists>d ds. json_char c = d # ds \<and> d \<noteq> CHR 0x22"
proof -
  have "json_char c \<noteq> []" and "hd (json_char c) \<noteq> CHR 0x22"
    by (simp_all add: json_char_def Let_def char_codes)
  then show ?thesis by (cases "json_char c") auto
qed

lemma read_chars_json:
  "length s < n \<Longrightarrow> read_chars n (concat (map json_char s) @ CHR 0x22 # t) = Some (s, t)"
proof (induction s arbitrary: n)
  case Nil
  then show ?case by (cases n) auto
next
  case (Cons c s)
  obtain d ds where d: "json_char c = d # ds" "d \<noteq> CHR 0x22" using json_char_head by blast
  let ?r = "concat (map json_char s) @ CHR 0x22 # t"
  from Cons.prems obtain m where m: "n = Suc m" "length s < m" by (cases n) auto
  have "read_char (d # ds @ ?r) = Some (c, ?r)" using read_json_char [of c ?r] d by simp
  then show ?case using Cons.IH [OF m(2)] d by (simp add: m(1))
qed

text \<open>What may follow a value inside a document: nothing that continues a number.\<close>

definition stops :: "string \<Rightarrow> bool" where
  "stops s \<longleftrightarrow> s = [] \<or> \<not> is_digit (hd s)"

lemma read_digits:
  assumes "stops s"
  shows "takeWhile is_digit (digits n @ s) = digits n" and "dropWhile is_digit (digits n @ s) = s"
proof -
  have "takeWhile is_digit s = []" "dropWhile is_digit s = s"
    using assms by (cases s; simp add: stops_def)+
  then show "takeWhile is_digit (digits n @ s) = digits n" "dropWhile is_digit (digits n @ s) = s"
    using digits_digit [of _ n] by (simp_all add: takeWhile_append2 dropWhile_append2)
qed

lemma digits_head: "\<exists>c r. digits n = c # r \<and> is_digit c"
  using digits_digit [of _ n] digits_nonempty [of n] by (cases "digits n") auto

lemma is_digit_literal [simp]: "is_digit (CHR '','') = False" "is_digit (CHR '']'') = False"
  "is_digit (CHR 0x7D) = False" "is_digit (CHR ''-'') = False"
  by (simp_all add: is_digit_def code_def)

lemma read_show_int:
  assumes "stops s"
  shows "read_int (show_int i @ s) = Some (JInt i, s)"
proof (cases "i < 0")
  case True
  then show ?thesis
    using read_digits [OF assms] by (simp add: read_int_def show_int_def digits_value_digits)
next
  case False
  obtain c r where "digits (nat i) = c # r" "is_digit c" using digits_head by blast
  then have "hd (digits (nat i) @ s) \<noteq> CHR ''-''" by auto
  then show ?thesis
    using False read_digits [OF assms] by (simp add: read_int_def show_int_def digits_value_digits)
qed

lemma show_int_head: "\<exists>c r. show_int i = c # r \<and> (c = CHR ''-'' \<or> is_digit c)"
  using digits_head [of "nat i"] by (auto simp: show_int_def)

lemma json_text_head:
  "\<exists>c r. json_text v = c # r \<and> c \<noteq> CHR '']'' \<and>
     (c = CHR ''n'' \<and> v = JNull \<or> c = CHR ''t'' \<and> v = JBool True \<or> c = CHR ''f'' \<and> v = JBool False
      \<or> (\<exists>s. c = CHR 0x22 \<and> v = JStr s) \<or> (\<exists>xs. c = CHR ''['' \<and> v = JList xs)
      \<or> (\<exists>ms. c = CHR 0x7B \<and> v = JObj ms) \<or> (\<exists>i. (c = CHR ''-'' \<or> is_digit c) \<and> v = JInt i))"
proof (cases v)
  case (JInt i)
  obtain c r where "show_int i = c # r" "c = CHR ''-'' \<or> is_digit c" using show_int_head by blast
  then show ?thesis by (auto simp: JInt)
qed (auto simp: json_string_def)

lemma not_digit_literal: "\<not> is_digit (CHR ''n'')" "\<not> is_digit (CHR ''t'')" "\<not> is_digit (CHR ''f'')"
  "\<not> is_digit (CHR ''['')" "\<not> is_digit (CHR 0x22)" "\<not> is_digit (CHR 0x7B)"
  by (simp_all add: is_digit_def code_def)

lemma read_value_int:
  assumes "stops s" and "length (show_int i) \<le> n"
  shows "read_value n (show_int i @ s) = Some (JInt i, s)"
proof -
  obtain c r where c: "show_int i = c # r" "c = CHR ''-'' \<or> is_digit c" using show_int_head by blast
  obtain m where m: "n = Suc m" using assms(2) c(1) by (cases n) auto
  have "c \<noteq> CHR 0x22" "c \<noteq> CHR ''[''" "c \<noteq> CHR 0x7B" "c \<noteq> CHR ''n''" "c \<noteq> CHR ''t''" "c \<noteq> CHR ''f''"
    using c(2) not_digit_literal by auto
  then show ?thesis using c read_show_int [OF assms(1), of i] by (auto simp: m)
qed

lemma json_chars_length: "length t \<le> length (concat (map json_char t))"
proof (induction t)
  case (Cons a t)
  obtain d ds where "json_char a = d # ds" using json_char_head by blast
  with Cons show ?case by simp
qed simp

text \<open>The reader inverts the serialiser.\<close>

lemma read_json:
  "stops s \<Longrightarrow> length (json_text v) \<le> n \<Longrightarrow> read_value n (json_text v @ s) = Some (v, s)"
  "length (json_items xs) \<le> n \<Longrightarrow> read_items n (json_items xs @ s) = Some (xs, s)"
  "length (json_members ms) \<le> n \<Longrightarrow> read_members n (json_members ms @ s) = Some (ms, s)"
proof (induction v and xs and ms arbitrary: n s and n s and n s
    rule: json_text_json_items_json_members.induct)
  case 1
  then show ?case by (cases n) auto
next
  case (2 b)
  then show ?case by (cases n; cases b) auto
next
  case (3 i)
  then show ?case using read_value_int by simp
next
  case (4 t)
  with json_chars_length [of t] show ?case
    by (cases n) (auto simp: json_string_def read_chars_json)
next
  case (5 xs)
  then show ?case by (cases n) auto
next
  case (6 ms)
  then show ?case by (cases n) auto
next
  case 7
  then show ?case by (cases n) auto
next
  case (8 x)
  obtain c r where "json_text x = c # r" "c \<noteq> CHR '']''" using json_text_head by blast
  with 8 show ?case by (cases n) (auto simp: stops_def)
next
  case (9 x y ys)
  obtain c r where "json_text x = c # r" "c \<noteq> CHR '']''" using json_text_head by blast
  with 9 show ?case by (cases n) (auto simp: stops_def)
next
  case 10
  then show ?case by (cases n) auto
next
  case (11 k v)
  from 11(2) obtain m where m: "n = Suc m" by (cases n) auto
  have "length k < m" using 11(2) json_chars_length [of k] by (simp add: json_string_def m)
  then show ?case
    using 11 by (simp add: m json_string_def read_chars_json stops_def)
next
  case (12 k v x xs)
  from 12(3) obtain m where m: "n = Suc m" by (cases n) auto
  have "length k < m" using 12(3) json_chars_length [of k] by (simp add: json_string_def m)
  then show ?case
    using 12 by (simp add: m json_string_def read_chars_json stops_def)
qed

lemma json_text_inj: "json_text v = json_text w \<Longrightarrow> v = w"
  using read_json(1) [of "[]" v "length (json_text v)"] read_json(1) [of "[]" w "length (json_text w)"]
  by (auto simp: stops_def)

text \<open>UTF-8 is read back from the left.\<close>

lemma utf8_char_cases:
  "utf8_char c = [of_nat (code c)] \<and> code c < 128 \<or>
   utf8_char c = [of_nat (192 + code c div 64), of_nat (128 + code c mod 64)] \<and> 128 \<le> code c"
  by (simp add: utf8_char_def Let_def)

lemma byte_of_nat_inj: "m < 256 \<Longrightarrow> n < 256 \<Longrightarrow> (of_nat m :: byte) = of_nat n \<longleftrightarrow> m = n"
proof -
  have "unat (of_nat k :: byte) = k" if "k < 256" for k
    using that by (simp add: unat_of_nat)
  then show "m < 256 \<Longrightarrow> n < 256 \<Longrightarrow> (of_nat m :: byte) = of_nat n \<longleftrightarrow> m = n" by metis
qed

lemma utf8_char_append:
  assumes "utf8_char c @ s = utf8_char d @ t"
  shows "c = d \<and> s = t"
proof -
  have lt: "192 + code c div 64 < 256" "192 + code d div 64 < 256"
    "128 + code c mod 64 < 256" "128 + code d mod 64 < 256"
    using code_less [of c] code_less [of d] by simp_all
  have "code c = code d" if "code c div 64 = code d div 64" "code c mod 64 = code d mod 64"
    using that by (metis div_mult_mod_eq)
  then show ?thesis
    using assms utf8_char_cases [of c] utf8_char_cases [of d] lt code_less [of c] code_less [of d]
    by (auto simp: byte_of_nat_inj code_inj simp del: of_nat_add)
qed

lemma utf8_char_nonempty: "utf8_char c \<noteq> []"
  by (simp add: utf8_char_def Let_def)

lemma utf8_inj: "utf8 s = utf8 t \<Longrightarrow> s = t"
proof (induction s arbitrary: t)
  case Nil
  then show ?case using utf8_char_nonempty by (cases t) (auto simp: utf8_def)
next
  case (Cons c s)
  then obtain d t' where t: "t = d # t'"
    using utf8_char_cases [of c] by (cases t) (auto simp: utf8_def)
  then have "c = d \<and> utf8 s = utf8 t'"
    using Cons.prems utf8_char_append [of c "utf8 s" d "utf8 t'"] by (simp add: utf8_def)
  with Cons.IH t show ?case by simp
qed

lemma canonical_json_inj: "canonical_json v = canonical_json w \<longleftrightarrow> sort_keys v = sort_keys w"
  using utf8_inj json_text_inj by (auto simp: canonical_json_def)

end
