(* ===== verification/HashChain.thy ===== *)
theory HashChain imports Json Domain begin

text \<open>
  \<^verbatim>\<open>common/hashchain.py\<close>: the chained digest of a record and the verification of a chain, with an
  abstract account of hash-linked logs (the locale \<open>hash_log\<close>) that the chain of records and, in the
  spool, the timeline of a capture instantiate. \<^verbatim>\<open>hashlib.sha256\<close> is a parameter: a function from
  bytes to 256-bit values.
\<close>

section \<open>Digests as text\<close>

type_synonym digest = "256 word"

definition digest_byte :: "digest \<Rightarrow> nat \<Rightarrow> byte" where
  "digest_byte d i = ucast (drop_bit (8 * (31 - i)) d)"

definition digest_bytes :: "digest \<Rightarrow> bytes" where
  "digest_bytes d = map (digest_byte d) [0..<32]"

definition hex_byte :: "byte \<Rightarrow> string" where
  "hex_byte b = [hex_digit (unat b div 16), hex_digit (unat b mod 16)]"

text \<open>\<^verbatim>\<open>hexdigest()\<close>\<close>

definition hexdigest :: "digest \<Rightarrow> string" where
  "hexdigest d = concat (map hex_byte (digest_bytes d))"

text \<open>\<^verbatim>\<open>bytes.fromhex\<close> of a text of hexadecimal digits.\<close>

fun fromhex :: "string \<Rightarrow> bytes" where
  "fromhex (a # b # r) = of_nat (16 * hex_value a + hex_value b) # fromhex r"
| "fromhex _ = []"

section \<open>The chain of records\<close>

definition zero_hash :: string where
  "zero_hash = replicate 64 (CHR ''0'')"

text \<open>\<^verbatim>\<open>previous or ZERO_HASH\<close>\<close>

definition or_zero_hash :: "string option \<Rightarrow> string" where
  "or_zero_hash p = (case p of None \<Rightarrow> zero_hash | Some h \<Rightarrow> if h = [] then zero_hash else h)"

definition chained_hash ::
    "(bytes \<Rightarrow> digest) \<Rightarrow> metadata \<Rightarrow> string option \<Rightarrow> validation_error + string" where
  "chained_hash sha256 rec previous_hash =
     (let parent = lower (or_zero_hash previous_hash)
      in if length parent \<noteq> 64 \<or> list_ex (\<lambda>c. \<not> is_hex_lower c) parent then Inl NotASha256
         else Inr (hexdigest (sha256 (fromhex parent @ canonical_json (JObj rec)))))"

definition payload :: "metadata \<Rightarrow> metadata" where
  "payload rec = filter (\<lambda>(k, _). k \<noteq> ''record_hash'') rec"

fun verify_from ::
    "(bytes \<Rightarrow> digest) \<Rightarrow> string option \<Rightarrow> metadata list \<Rightarrow> validation_error + bool" where
  "verify_from sha256 previous [] = Inr True"
| "verify_from sha256 previous (rec # recs) =
     (let stored_previous = get rec ''previous_hash''; stored_hash = get rec ''record_hash''
      in if stored_previous \<noteq> JStr (or_zero_hash previous) then Inr False
         else (case chained_hash sha256 (payload rec) previous of
             Inl e \<Rightarrow> Inl e
           | Inr h \<Rightarrow> if JStr h \<noteq> stored_hash then Inr False
               else verify_from sha256 (Some (py_str stored_hash)) recs))"

definition verify_chain :: "(bytes \<Rightarrow> digest) \<Rightarrow> metadata list \<Rightarrow> validation_error + bool" where
  "verify_chain sha256 records = verify_from sha256 None records"

section \<open>Hash-linked logs\<close>

text \<open>The head of a log, and the byte strings that were hashed to reach it.\<close>

fun log_head :: "(bytes \<Rightarrow> 'h) \<Rightarrow> ('h \<Rightarrow> 'e \<Rightarrow> bytes) \<Rightarrow> 'h \<Rightarrow> 'e list \<Rightarrow> 'h" where
  "log_head digest input p [] = p"
| "log_head digest input p (e # es) = log_head digest input (digest (input p e)) es"

fun log_inputs :: "(bytes \<Rightarrow> 'h) \<Rightarrow> ('h \<Rightarrow> 'e \<Rightarrow> bytes) \<Rightarrow> 'h \<Rightarrow> 'e list \<Rightarrow> bytes list" where
  "log_inputs digest input p [] = []"
| "log_inputs digest input p (e # es) = input p e # log_inputs digest input (digest (input p e)) es"

lemma log_head_append:
  "log_head d i p (xs @ ys) = log_head d i (log_head d i p xs) ys"
  by (induction xs arbitrary: p) auto

lemma log_inputs_append:
  "log_inputs d i p (xs @ ys) = log_inputs d i p xs @ log_inputs d i (log_head d i p xs) ys"
  by (induction xs arbitrary: p) auto

text \<open>Two of the hashed strings collide, or one of them hashes to the starting value.\<close>

definition digest_broken :: "(bytes \<Rightarrow> 'h) \<Rightarrow> 'h \<Rightarrow> bytes list \<Rightarrow> bytes list \<Rightarrow> bool" where
  "digest_broken digest genesis xs ys \<longleftrightarrow>
     (\<exists>b \<in> set xs. \<exists>c \<in> set ys. b \<noteq> c \<and> digest b = digest c) \<or> (\<exists>b \<in> set xs \<union> set ys. digest b = genesis)"

text \<open>Every entry is linked to the head before it, in the sense the log checks.\<close>

fun log_linked ::
    "(bytes \<Rightarrow> 'h) \<Rightarrow> ('h \<Rightarrow> 'e \<Rightarrow> bytes) \<Rightarrow> ('h \<Rightarrow> 'e \<Rightarrow> bool) \<Rightarrow> 'h \<Rightarrow> 'e list \<Rightarrow> bool" where
  "log_linked digest input linked p [] = True"
| "log_linked digest input linked p (e # es) \<longleftrightarrow>
     linked p e \<and> log_linked digest input linked (digest (input p e)) es"

lemma log_linked_append:
  "log_linked d i l p (xs @ ys) \<longleftrightarrow> log_linked d i l p xs \<and> log_linked d i l (log_head d i p xs) ys"
  by (induction xs arbitrary: p) auto

text \<open>
  What makes a log tamper-evident: the bytes hashed for a linked entry determine the entry and the
  link to its predecessor. Then two logs with one head are equal, unless the digest was broken on
  the very strings the two logs hash.
\<close>

locale hash_log =
  fixes digest :: "bytes \<Rightarrow> 'h"
    and input :: "'h \<Rightarrow> 'e \<Rightarrow> bytes"
    and linked :: "'h \<Rightarrow> 'e \<Rightarrow> bool"
    and genesis :: 'h
  assumes input_inj: "linked p x \<Longrightarrow> linked q y \<Longrightarrow> input p x = input q y \<Longrightarrow> p = q \<and> x = y"
begin

lemma tamper_evident:
  assumes "log_linked digest input linked genesis es" and "log_linked digest input linked genesis fs"
    and "log_head digest input genesis es = log_head digest input genesis fs"
  shows "es = fs \<or> digest_broken digest genesis (log_inputs digest input genesis es)
    (log_inputs digest input genesis fs)"
  using assms
proof (induction es arbitrary: fs rule: rev_induct)
  case Nil
  show ?case
  proof (cases fs rule: rev_cases)
    case (snoc ys y)
    with Nil show ?thesis by (auto simp: log_head_append log_inputs_append digest_broken_def)
  qed simp
next
  case (snoc x xs)
  show ?case
  proof (cases fs rule: rev_cases)
    case Nil
    with snoc.prems show ?thesis by (auto simp: log_head_append log_inputs_append digest_broken_def)
  next
    case (snoc ys y)
    let ?p = "log_head digest input genesis xs" and ?q = "log_head digest input genesis ys"
    have eq: "digest (input ?p x) = digest (input ?q y)"
      using snoc.prems snoc by (simp add: log_head_append)
    have links: "linked ?p x" "linked ?q y" and pre: "log_linked digest input linked genesis xs"
      "log_linked digest input linked genesis ys"
      using snoc.prems snoc by (simp_all add: log_linked_append)
    show ?thesis
    proof (cases "input ?p x = input ?q y")
      case True
      then have "?p = ?q" "x = y" using input_inj [OF links] by blast+
      with snoc.IH [OF pre] snoc show ?thesis by (auto simp: log_inputs_append digest_broken_def)
    next
      case False
      with eq snoc show ?thesis by (auto simp: log_inputs_append digest_broken_def)
    qed
  qed
qed

end

section \<open>Facts about digests as text\<close>

lemma hex_value_hex_byte: "of_nat (16 * (unat (b :: byte) div 16) + unat b mod 16) = b"
  by (simp flip: of_nat_mult of_nat_add)

lemma fromhex_hex_byte: "fromhex (hex_byte b @ s) = b # fromhex s"
proof -
  have "unat b < 2 ^ LENGTH(8)" by (rule unsigned_less)
  then have "unat b div 16 < 16" by simp
  then show ?thesis using hex_value_hex_byte [of b] by (simp add: hex_byte_def hex_value_digit)
qed

lemma fromhex_hex_bytes: "fromhex (concat (map hex_byte bs)) = bs"
  by (induction bs) (simp_all add: fromhex_hex_byte)

lemma fromhex_hexdigest [simp]: "fromhex (hexdigest d) = digest_bytes d"
  by (simp add: hexdigest_def fromhex_hex_bytes)

lemma length_digest_bytes [simp]: "length (digest_bytes d) = 32"
  by (simp add: digest_bytes_def)

lemma digest_bytes_inj: "digest_bytes c = digest_bytes d \<Longrightarrow> c = d"
proof (rule bit_word_eqI)
  fix n assume eq: "digest_bytes c = digest_bytes d" and n: "n < LENGTH(256)"
  let ?i = "31 - n div 8"
  have i: "?i < 32" "31 - ?i = n div 8" using n by auto
  then have "digest_byte c ?i = digest_byte d ?i"
    using eq by (metis digest_bytes_def length_digest_bytes nth_map length_map add_0 nth_upt length_upt)
  then have "bit (digest_byte c ?i) (n mod 8) = bit (digest_byte d ?i) (n mod 8)" by simp
  then show "bit c n = bit d n"
    using i(2) n by (simp add: digest_byte_def bit_unsigned_iff bit_drop_bit_eq)
qed

lemma hexdigest_inj: "hexdigest c = hexdigest d \<Longrightarrow> c = d"
  using fromhex_hexdigest digest_bytes_inj by metis

lemma length_hexdigest [simp]: "length (hexdigest d) = 64"
proof -
  have "length (concat (map hex_byte bs)) = 2 * length bs" for bs
    by (induction bs) (simp_all add: hex_byte_def)
  then show ?thesis by (simp add: hexdigest_def)
qed

lemma hex_digit_lower: "n < 16 \<Longrightarrow> is_hex_lower (hex_digit n) \<and> lower [hex_digit n] = [hex_digit n]"
  by (auto simp: hex_digit_def is_hex_lower_def is_digit_def lower_def code_chr Let_def)

lemma hexdigest_digits: "c \<in> set (hexdigest d) \<Longrightarrow> \<exists>n < 16. c = hex_digit n"
proof -
  assume "c \<in> set (hexdigest d)"
  then obtain b :: byte where "c = hex_digit (unat b div 16) \<or> c = hex_digit (unat b mod 16)"
    by (auto simp: hexdigest_def hex_byte_def)
  moreover have "unat b < 2 ^ LENGTH(8)" by (rule unsigned_less)
  ultimately show ?thesis by (auto intro: exI [of _ "unat b div 16"] exI [of _ "unat b mod 16"])
qed

lemma hexdigest_ok: "lower (hexdigest d) = hexdigest d" "\<not> list_ex (\<lambda>c. \<not> is_hex_lower c) (hexdigest d)"
proof -
  have "lower s = s" if "\<And>c. c \<in> set s \<Longrightarrow> \<exists>n < 16. c = hex_digit n" for s
    using that
  proof (induction s)
    case (Cons c s)
    then obtain n where "n < 16" "c = hex_digit n" by auto
    then have "lower [c] = [c]" using hex_digit_lower by simp
    with Cons show ?case by (simp add: lower_def)
  qed (simp add: lower_def)
  then show "lower (hexdigest d) = hexdigest d" using hexdigest_digits by blast
  show "\<not> list_ex (\<lambda>c. \<not> is_hex_lower c) (hexdigest d)"
    using hexdigest_digits hex_digit_lower by (fastforce simp: list_ex_iff)
qed

lemma zero_hash_digest: "zero_hash = hexdigest 0"
proof -
  have "digest_bytes 0 = replicate 32 0"
    by (rule nth_equalityI) (simp_all add: digest_bytes_def digest_byte_def)
  moreover have "hex_byte 0 = replicate 2 (CHR ''0'')"
    by code_simp
  moreover have "concat (map f (replicate n (0 :: byte))) = replicate (n * k) c"
    if "f 0 = replicate k c" for f and n k :: nat and c :: char
    by (induction n) (simp_all add: that replicate_add)
  ultimately show ?thesis by (simp add: hexdigest_def zero_hash_def)
qed

section \<open>A verified chain is a hash-linked log\<close>

text \<open>The entry a record contributes: its payload, up to the order of its members.\<close>

definition entry_of :: "metadata \<Rightarrow> jval" where
  "entry_of rec = sort_keys (JObj (payload rec))"

definition record_input :: "digest \<Rightarrow> jval \<Rightarrow> bytes" where
  "record_input d e = digest_bytes d @ utf8 (json_text e)"

interpretation record_log: hash_log sha256 record_input "\<lambda>_ _. True" 0 for sha256 :: "bytes \<Rightarrow> digest"
proof
  fix p q :: digest and x y :: jval
  assume "record_input p x = record_input q y"
  then have "digest_bytes p = digest_bytes q" "utf8 (json_text x) = utf8 (json_text y)"
    by (simp_all add: record_input_def)
  then show "p = q \<and> x = y" using digest_bytes_inj utf8_inj json_text_inj by blast
qed

lemma record_log_linked: "log_linked sha256 record_input (\<lambda>_ _. True) p es"
  by (induction es arbitrary: p) auto

lemma chained_hash_digest:
  assumes "or_zero_hash previous = hexdigest d"
  shows "chained_hash sha256 (payload rec) previous = Inr (hexdigest (sha256 (record_input d (entry_of rec))))"
  by (simp add: chained_hash_def assms hexdigest_ok record_input_def entry_of_def canonical_json_def Let_def)

lemma or_zero_hash_digest: "or_zero_hash (Some (hexdigest d)) = hexdigest d"
proof -
  have "hexdigest d \<noteq> []" using length_hexdigest [of d] by (metis list.size(3) zero_neq_numeral)
  then show ?thesis by (simp add: or_zero_hash_def)
qed

lemma verify_from_Cons:
  assumes "or_zero_hash previous = hexdigest d"
  shows "verify_from sha256 previous (r # recs) =
    (if get r ''previous_hash'' = JStr (hexdigest d)
        \<and> get r ''record_hash'' = JStr (hexdigest (sha256 (record_input d (entry_of r))))
     then verify_from sha256 (Some (hexdigest (sha256 (record_input d (entry_of r))))) recs
     else Inr False)"
  by (auto simp: Let_def assms chained_hash_digest [OF assms] py_str_def)

declare verify_from.simps(2) [simp del]

lemma verify_from_head:
  assumes "verify_from sha256 previous recs = Inr True" and "or_zero_hash previous = hexdigest d"
    and "recs \<noteq> []"
  shows "get (last recs) ''record_hash'' =
    JStr (hexdigest (log_head sha256 record_input d (map entry_of recs)))"
  using assms
proof (induction recs arbitrary: previous d)
  case (Cons r recs)
  let ?h = "sha256 (record_input d (entry_of r))"
  have stored: "get r ''record_hash'' = JStr (hexdigest ?h)"
    and rest: "verify_from sha256 (Some (hexdigest ?h)) recs = Inr True"
    using Cons.prems(1) unfolding verify_from_Cons [OF Cons.prems(2)] by (simp_all split: if_splits)
  show ?case
  proof (cases "recs = []")
    case False
    then show ?thesis using Cons.IH [OF rest or_zero_hash_digest] by simp
  qed (simp add: stored)
qed simp

text \<open>
  C32: a verified chain is tamper-evident. Two chains that both verify and end in the same digest
  carry the same records, in the same order and up to the order of their members, or the digest
  function was broken on the very strings they hash: two of them collide, or one hashes to the zero
  digest the chain starts from. Chains of different lengths are included.
\<close>

theorem chain_tamper_evident:
  assumes "verify_chain sha256 rs = Inr True" and "verify_chain sha256 ss = Inr True"
    and "rs \<noteq> []" and "ss \<noteq> []"
    and "get (last rs) ''record_hash'' = get (last ss) ''record_hash''"
  shows "map entry_of rs = map entry_of ss \<or>
    digest_broken sha256 0 (log_inputs sha256 record_input 0 (map entry_of rs))
      (log_inputs sha256 record_input 0 (map entry_of ss))"
proof (rule record_log.tamper_evident [OF record_log_linked record_log_linked])
  have zero: "or_zero_hash None = hexdigest 0" by (simp add: or_zero_hash_def zero_hash_digest)
  have "hexdigest (log_head sha256 record_input 0 (map entry_of rs))
      = hexdigest (log_head sha256 record_input 0 (map entry_of ss))"
    using verify_from_head [OF assms(1) [unfolded verify_chain_def] zero assms(3)]
      verify_from_head [OF assms(2) [unfolded verify_chain_def] zero assms(4)] assms(5) by simp
  then show "log_head sha256 record_input 0 (map entry_of rs) = log_head sha256 record_input 0 (map entry_of ss)"
    by (rule hexdigest_inj)
qed

lemma verify_from_returns:
  "or_zero_hash previous = hexdigest d \<Longrightarrow> \<exists>b. verify_from sha256 previous recs = Inr b"
proof (induction recs arbitrary: previous d)
  case (Cons r recs)
  obtain b where "verify_from sha256 (Some (hexdigest (sha256 (record_input d (entry_of r))))) recs = Inr b"
    using Cons.IH [OF or_zero_hash_digest] by blast
  then show ?case unfolding verify_from_Cons [OF Cons.prems] by metis
next
  case Nil
  show ?case by (rule exI [of _ True]) simp
qed

section \<open>Writing a chain\<close>

datatype chain_error = SequenceNotPositive | BadParent validation_error

text \<open>
  \<^verbatim>\<open>finding_fingerprint\<close> and \<^verbatim>\<open>finding_chain_record\<close> of \<^verbatim>\<open>fraud/engine.py\<close>; a finding is the dictionary
  \<^verbatim>\<open>model_dump(mode="json")\<close> gives.
\<close>

definition finding_fingerprint :: "(bytes \<Rightarrow> digest) \<Rightarrow> metadata \<Rightarrow> string" where
  "finding_fingerprint sha256 finding =
     hexdigest (sha256 (canonical_json (JObj (filter (\<lambda>(k, _). k \<noteq> ''opened_at'') finding))))"

definition finding_chain_record ::
    "(bytes \<Rightarrow> digest) \<Rightarrow> metadata \<Rightarrow> int \<Rightarrow> string option \<Rightarrow> chain_error + metadata" where
  "finding_chain_record sha256 finding seq previous_hash =
     (if seq < 1 then Inl SequenceNotPositive
      else let parent = or_zero_hash previous_hash;
               body = [(''sequence'', JInt seq), (''previous_hash'', JStr parent),
                 (''finding_key'', JStr (finding_fingerprint sha256 finding)), (''finding'', JObj finding)]
        in (case chained_hash sha256 body (Some parent) of
              Inl e \<Rightarrow> Inl (BadParent e)
            | Inr h \<Rightarrow> Inr (body @ [(''record_hash'', JStr h)])))"

text \<open>The digest a chain ends with, \<^verbatim>\<open>None\<close> for the empty chain.\<close>

definition chain_head :: "metadata list \<Rightarrow> string option" where
  "chain_head recs = (if recs = [] then None else Some (py_str (get (last recs) ''record_hash'')))"

lemma verify_from_append:
  assumes "or_zero_hash previous = hexdigest d" and "verify_from sha256 previous recs = Inr True"
  shows "verify_from sha256 previous (recs @ [r]) =
    verify_from sha256 (if recs = [] then previous else chain_head recs) [r]"
  using assms
proof (induction recs arbitrary: previous d)
  case (Cons x recs)
  let ?h = "Some (hexdigest (sha256 (record_input d (entry_of x))))"
  have ok: "get x ''record_hash'' = JStr (hexdigest (sha256 (record_input d (entry_of x))))"
    "get x ''previous_hash'' = JStr (hexdigest d)" "verify_from sha256 ?h recs = Inr True"
    using Cons.prems(2) unfolding verify_from_Cons [OF Cons.prems(1)] by (simp_all split: if_splits)
  have "verify_from sha256 previous (x # (recs @ [r])) = verify_from sha256 ?h (recs @ [r])"
    by (simp only: verify_from_Cons [OF Cons.prems(1)] ok simp_thms if_True)
  moreover have "verify_from sha256 ?h (recs @ [r]) = verify_from sha256 (if recs = [] then ?h else chain_head recs) [r]"
    by (rule Cons.IH [OF or_zero_hash_digest ok(3)])
  ultimately show ?case using ok(1) by (auto simp: chain_head_def py_str_def)
qed simp

lemma chain_head_digest:
  assumes "verify_chain sha256 recs = Inr True"
  shows "\<exists>d. or_zero_hash (chain_head recs) = hexdigest d"
proof (cases "recs = []")
  case True
  then show ?thesis by (auto simp: chain_head_def or_zero_hash_def zero_hash_digest)
next
  case False
  have "or_zero_hash None = hexdigest 0" by (simp add: or_zero_hash_def zero_hash_digest)
  from verify_from_head [OF assms [unfolded verify_chain_def] this False] False
  show ?thesis by (auto simp: chain_head_def py_str_def or_zero_hash_digest)
qed

text \<open>
  Writing and verifying agree: the record \<^verbatim>\<open>finding_chain_record\<close> builds on the head of a verified
  chain, the empty chain included, is always produced for a positive sequence number and extends
  the chain to one that verifies.
\<close>

theorem finding_chain_extends:
  assumes "verify_chain sha256 recs = Inr True" and "1 \<le> seq"
  shows "\<exists>r. finding_chain_record sha256 finding seq (chain_head recs) = Inr r
    \<and> verify_chain sha256 (recs @ [r]) = Inr True"
proof -
  from chain_head_digest [OF assms(1)] obtain d where d: "or_zero_hash (chain_head recs) = hexdigest d" ..
  have None: "or_zero_hash None = hexdigest 0" by (simp add: or_zero_hash_def zero_hash_digest)
  let ?body = "[(''sequence'', JInt seq), (''previous_hash'', JStr (hexdigest d)),
    (''finding_key'', JStr (finding_fingerprint sha256 finding)), (''finding'', JObj finding)]"
  let ?h = "hexdigest (sha256 (record_input d (sort_keys (JObj ?body))))"
  let ?r = "?body @ [(''record_hash'', JStr ?h)]"
  have pay: "payload ?body = ?body" "entry_of ?r = sort_keys (JObj ?body)"
    by (simp_all add: payload_def entry_of_def)
  have "finding_chain_record sha256 finding seq (chain_head recs) = Inr ?r"
    using chained_hash_digest [OF or_zero_hash_digest [of d], of sha256 ?body] assms(2)
    unfolding pay entry_of_def by (simp add: finding_chain_record_def d Let_def)
  moreover have "verify_from sha256 (chain_head recs) [?r] = Inr True"
    unfolding verify_from_Cons [OF d] pay by (simp add: get_def)
  then have "verify_chain sha256 (recs @ [?r]) = Inr True"
    using verify_from_append [OF None assms(1) [unfolded verify_chain_def], of ?r]
    by (auto simp: verify_chain_def chain_head_def split: if_splits)
  ultimately show ?thesis by blast
qed

text \<open>
  Verification never raises: whatever the records hold, \<^verbatim>\<open>verify_chain\<close> answers, because every
  parent it passes on is a digest it has computed itself.
\<close>

lemma verify_chain_returns: "\<exists>b. verify_chain sha256 recs = Inr b"
  unfolding verify_chain_def
  by (rule verify_from_returns [of _ 0]) (simp add: or_zero_hash_def zero_hash_digest)

section \<open>Examples\<close>

definition toy_digest :: "bytes \<Rightarrow> digest" where
  "toy_digest bs = of_nat (length bs)"

definition example_record :: metadata where
  "example_record = [(''sequence'', JInt 1), (''previous_hash'', JStr zero_hash),
     (''record_hash'', JStr (hexdigest 129))]"

lemma example_record_verifies: "verify_chain toy_digest [example_record] = Inr True"
  by code_simp

theorem chain_tamper_evident_witness:
  "verify_chain toy_digest [example_record] = Inr True \<and>
   (map entry_of [example_record] = map entry_of [example_record] \<or>
    digest_broken toy_digest 0 (log_inputs toy_digest record_input 0 (map entry_of [example_record]))
      (log_inputs toy_digest record_input 0 (map entry_of [example_record])))"
  using chain_tamper_evident [OF example_record_verifies example_record_verifies] example_record_verifies
  by (simp del: list.map)

theorem finding_chain_extends_witness:
  "\<exists>r. finding_chain_record toy_digest [(''rule_code'', JStr ''R1'')] 2 (chain_head [example_record]) = Inr r
     \<and> verify_chain toy_digest ([example_record] @ [r]) = Inr True"
  by (rule finding_chain_extends [OF example_record_verifies]) simp

end
