(* ===== verification/Spool.thy ===== *)
theory Spool imports HashChain "HOL-Library.Sublist" begin

text \<open>
  \<^verbatim>\<open>proxy/spool.py\<close>, the capture of one session: the append-only directional files and the
  hash-linked timeline a \<^verbatim>\<open>_SessionSpool\<close> writes, the manifest it publishes, and the inspection of a
  timeline found on disk. Disk failures are an argument of the operations, because the code goes on
  after them: a failed write leaves the bytes that reached the file.
\<close>

section \<open>Values\<close>

datatype direction = ClientToDevice | DeviceToClient

definition direction_value :: "direction \<Rightarrow> string" where
  "direction_value d = (case d of
      ClientToDevice \<Rightarrow> ''client_to_device'' | DeviceToClient \<Rightarrow> ''device_to_client'')"

definition raw_file :: "direction \<Rightarrow> string" where
  "raw_file d = (case d of ClientToDevice \<Rightarrow> ''client.raw'' | DeviceToClient \<Rightarrow> ''device.raw'')"

text \<open>A dictionary with one counter per direction value, as JSON.\<close>

definition per_direction :: "(direction \<Rightarrow> int) \<Rightarrow> jval" where
  "per_direction f = JObj [(direction_value ClientToDevice, JInt (f ClientToDevice)),
     (direction_value DeviceToClient, JInt (f DeviceToClient))]"

record session_descriptor =
  session_id :: string
  job_id :: string
  device_id :: string
  device_name :: string
  device_type :: string
  parser :: string
  client_endpoint :: "string \<times> int"
  listener_endpoint :: "string \<times> int"
  target_endpoint :: "string \<times> int"
  connected_at_utc :: string
  connected_monotonic_ns :: int

record capture_event =
  ev_sequence :: int
  observed_sequence :: int
  direction_sequence :: int
  ev_direction :: direction
  kind :: string
  captured_at_utc :: string
  captured_monotonic_ns :: int
  ev_offset :: int
  ev_payload :: bytes
  forwarded :: bool
  forwarded_at_utc :: string
  forward_error :: "string option"

record close_summary =
  closed_at_utc :: string
  closed_monotonic_ns :: int
  close_reason :: string
  transport_complete :: bool
  observed_bytes :: "(string \<times> int) list"
  observed_chunks :: "(string \<times> int) list"
  transport_errors :: "string list"

text \<open>The exceptions of the component; \<open>OsError\<close> carries the rendered text of an I/O error.\<close>

datatype capture_error =
    SessionClosed
  | SequenceMismatch int int
  | DirectionSequenceMismatch int int
  | OffsetMismatch int int
  | UnsupportedKind string
  | EofPayload
  | OsError string
  | DestinationExists string
  | WriterUnavailable

text \<open>\<^verbatim>\<open>f"{type(exc).__name__}: {exc}"\<close>\<close>

definition error_text :: "capture_error \<Rightarrow> string" where
  "error_text e = (case e of
      SessionClosed \<Rightarrow> ''CaptureError: capture session is already closed''
    | SequenceMismatch x g \<Rightarrow> ''CaptureError: timeline sequence mismatch: expected '' @ show_int x
        @ '', got '' @ show_int g
    | DirectionSequenceMismatch x g \<Rightarrow> ''CaptureError: direction sequence mismatch: expected ''
        @ show_int x @ '', got '' @ show_int g
    | OffsetMismatch x g \<Rightarrow> ''CaptureError: stream offset mismatch: expected '' @ show_int x
        @ '', got '' @ show_int g
    | UnsupportedKind k \<Rightarrow> ''CaptureError: unsupported capture event kind: '' @ k
    | EofPayload \<Rightarrow> ''CaptureError: EOF event cannot carry a payload''
    | OsError t \<Rightarrow> t
    | DestinationExists p \<Rightarrow> ''CaptureError: refusing to replace existing job directory: '' @ p
    | WriterUnavailable \<Rightarrow> ''CaptureError: capture writer is unavailable'')"

definition opt_str :: "string option \<Rightarrow> jval" where
  "opt_str v = (case v of None \<Rightarrow> JNull | Some s \<Rightarrow> JStr s)"

definition schema_version :: int where
  "schema_version = 1"

definition newline :: byte where
  "newline = 10"

definition sha256_text :: "(bytes \<Rightarrow> digest) \<Rightarrow> bytes \<Rightarrow> string" where
  "sha256_text sha256 b = hexdigest (sha256 b)"

definition endpoint_document :: "string \<times> int \<Rightarrow> jval" where
  "endpoint_document e = JObj [(''host'', JStr (fst e)), (''port'', JInt (snd e))]"

definition descriptor_document :: "session_descriptor \<Rightarrow> jval" where
  "descriptor_document d = JObj
     [(''session_id'', JStr (session_id d)), (''job_id'', JStr (job_id d)),
      (''device_id'', JStr (device_id d)), (''device_name'', JStr (device_name d)),
      (''device_type'', JStr (device_type d)), (''parser'', JStr (parser d)),
      (''client_endpoint'', endpoint_document (client_endpoint d)),
      (''listener_endpoint'', endpoint_document (listener_endpoint d)),
      (''target_endpoint'', endpoint_document (target_endpoint d)),
      (''connected_at_utc'', JStr (connected_at_utc d)),
      (''connected_monotonic_ns'', JInt (connected_monotonic_ns d))]"

section \<open>The spool of a session\<close>

record spool =
  descriptor :: session_descriptor
  session_file :: bytes
  raw_files :: "direction \<Rightarrow> bytes"
  timeline_file :: bytes
  next_sequence :: int
  next_direction_sequence :: "direction \<Rightarrow> int"
  captured_bytes :: "direction \<Rightarrow> int"
  captured_chunks :: "direction \<Rightarrow> int"
  eof_events :: "direction \<Rightarrow> int"
  timeline_events :: int
  previous_event_sha256 :: "string option"
  spool_errors :: "string list"
  closed :: bool

definition open_spool :: "session_descriptor \<Rightarrow> spool" where
  "open_spool d = \<lparr>descriptor = d,
     session_file = canonical_json (JObj [(''schema_version'', JInt schema_version),
       (''session'', descriptor_document d)]) @ [newline],
     raw_files = (\<lambda>_. []), timeline_file = [], next_sequence = 0,
     next_direction_sequence = (\<lambda>_. 0), captured_bytes = (\<lambda>_. 0), captured_chunks = (\<lambda>_. 0),
     eof_events = (\<lambda>_. 0), timeline_events = 0, previous_event_sha256 = None,
     spool_errors = [], closed = False\<rparr>"

text \<open>
  The outcome of the writes of one event: all succeed, or the raw file or the timeline raises after
  the given number of bytes (a failing \<^verbatim>\<open>fsync\<close> raises after all of them).
\<close>

datatype write_fault = NoFault | RawFault nat string | TimelineFault nat string

definition event_body :: "(bytes \<Rightarrow> digest) \<Rightarrow> spool \<Rightarrow> capture_event \<Rightarrow> metadata" where
  "event_body sha256 s e =
     [(''schema_version'', JInt schema_version),
      (''session_id'', JStr (session_id (descriptor s))),
      (''job_id'', JStr (job_id (descriptor s))),
      (''device_id'', JStr (device_id (descriptor s))),
      (''sequence'', JInt (ev_sequence e)),
      (''observed_sequence'', JInt (observed_sequence e)),
      (''direction_sequence'', JInt (direction_sequence e)),
      (''direction'', JStr (direction_value (ev_direction e))),
      (''kind'', JStr (kind e)),
      (''captured_at_utc'', JStr (captured_at_utc e)),
      (''captured_monotonic_ns'', JInt (captured_monotonic_ns e)),
      (''offset'', JInt (ev_offset e)),
      (''length'', JInt (int (length (ev_payload e)))),
      (''payload_sha256'', JStr (sha256_text sha256 (ev_payload e))),
      (''forwarded'', JBool (forwarded e)),
      (''forwarded_at_utc'', JStr (forwarded_at_utc e)),
      (''forward_error'', opt_str (forward_error e)),
      (''previous_event_sha256'', opt_str (previous_event_sha256 s))]"

definition event_digest :: "(bytes \<Rightarrow> digest) \<Rightarrow> spool \<Rightarrow> capture_event \<Rightarrow> string" where
  "event_digest sha256 s e = sha256_text sha256 (canonical_json (JObj (event_body sha256 s e)))"

definition timeline_line :: "(bytes \<Rightarrow> digest) \<Rightarrow> spool \<Rightarrow> capture_event \<Rightarrow> bytes" where
  "timeline_line sha256 s e = canonical_json (JObj (event_body sha256 s e
     @ [(''event_sha256'', JStr (event_digest sha256 s e))])) @ [newline]"

text \<open>The checks at the head of \<^verbatim>\<open>append\<close>, in order.\<close>

definition append_error :: "spool \<Rightarrow> capture_event \<Rightarrow> capture_error option" where
  "append_error s e = (let d = ev_direction e in
     if closed s then Some SessionClosed
     else if ev_sequence e \<noteq> next_sequence s then Some (SequenceMismatch (next_sequence s) (ev_sequence e))
     else if direction_sequence e \<noteq> next_direction_sequence s d
       then Some (DirectionSequenceMismatch (next_direction_sequence s d) (direction_sequence e))
     else if ev_offset e \<noteq> captured_bytes s d then Some (OffsetMismatch (captured_bytes s d) (ev_offset e))
     else if kind e \<noteq> ''data'' \<and> kind e \<noteq> ''eof'' then Some (UnsupportedKind (kind e))
     else if kind e = ''eof'' \<and> ev_payload e \<noteq> [] then Some EofPayload
     else None)"

definition write_raw :: "direction \<Rightarrow> bytes \<Rightarrow> spool \<Rightarrow> spool" where
  "write_raw d b s = s\<lparr>raw_files := (raw_files s)(d := raw_files s d @ b)\<rparr>"

definition write_timeline :: "bytes \<Rightarrow> spool \<Rightarrow> spool" where
  "write_timeline b s = s\<lparr>timeline_file := timeline_file s @ b\<rparr>"

definition bump :: "'a \<Rightarrow> int \<Rightarrow> ('a \<Rightarrow> int) \<Rightarrow> 'a \<Rightarrow> int" where
  "bump d n f = f(d := f d + n)"

definition count_event :: "string \<Rightarrow> capture_event \<Rightarrow> spool \<Rightarrow> spool" where
  "count_event h e s = (let d = ev_direction e; s' = s\<lparr>previous_event_sha256 := Some h,
       next_sequence := next_sequence s + 1,
       next_direction_sequence := bump d 1 (next_direction_sequence s),
       timeline_events := timeline_events s + 1\<rparr>
     in if kind e = ''data''
        then s'\<lparr>captured_bytes := bump d (int (length (ev_payload e))) (captured_bytes s),
                captured_chunks := bump d 1 (captured_chunks s)\<rparr>
        else s'\<lparr>eof_events := bump d 1 (eof_events s)\<rparr>)"

definition append ::
    "(bytes \<Rightarrow> digest) \<Rightarrow> write_fault \<Rightarrow> capture_event \<Rightarrow> spool \<Rightarrow> capture_error option \<times> spool" where
  "append sha256 fault e s = (case append_error s e of
      Some err \<Rightarrow> (Some err, s)
    | None \<Rightarrow> (case fault of
          RawFault n t \<Rightarrow> (if ev_payload e \<noteq> []
              then (Some (OsError t), write_raw (ev_direction e) (take n (ev_payload e)) s)
              else (None, count_event (event_digest sha256 s e) e (write_timeline (timeline_line sha256 s e) s)))
        | TimelineFault n t \<Rightarrow> (Some (OsError t), write_timeline (take n (timeline_line sha256 s e))
              (write_raw (ev_direction e) (ev_payload e) s))
        | NoFault \<Rightarrow> (None, count_event (event_digest sha256 s e) e
              (write_timeline (timeline_line sha256 s e) (write_raw (ev_direction e) (ev_payload e) s)))))"

definition mark_error :: "string \<Rightarrow> spool \<Rightarrow> spool" where
  "mark_error err s = s\<lparr>spool_errors := spool_errors s @ [take 1000 err]\<rparr>"

text \<open>What the writer thread does with an event: a failed append is remembered, and the session goes on.\<close>

definition write_event :: "(bytes \<Rightarrow> digest) \<Rightarrow> write_fault \<Rightarrow> capture_event \<Rightarrow> spool \<Rightarrow> string option \<times> spool" where
  "write_event sha256 fault e s = (case append sha256 fault e s of
      (None, s') \<Rightarrow> (None, s')
    | (Some err, s') \<Rightarrow> (let message = ''capture write failed: '' @ error_text err
        in (Some message, mark_error message s')))"

section \<open>Publication\<close>

definition lookup :: "(string \<times> int) list \<Rightarrow> direction \<Rightarrow> int" where
  "lookup m d = (case map_of m (direction_value d) of None \<Rightarrow> 0 | Some n \<Rightarrow> n)"

definition both_equal :: "(string \<times> int) list \<Rightarrow> (direction \<Rightarrow> int) \<Rightarrow> bool" where
  "both_equal m f = list_all (\<lambda>d. lookup m d = f d) [ClientToDevice, DeviceToClient]"

definition file_facts :: "(bytes \<Rightarrow> digest) \<Rightarrow> string \<Rightarrow> bytes \<Rightarrow> jval" where
  "file_facts sha256 name content = JObj [(''name'', JStr name), (''size'', JInt (int (length content))),
     (''sha256'', JStr (sha256_text sha256 content))]"

definition job_files :: "spool \<Rightarrow> (string \<times> bytes) list" where
  "job_files s = [(''client.raw'', raw_files s ClientToDevice), (''device.raw'', raw_files s DeviceToClient),
     (''timeline.jsonl'', timeline_file s), (''session.json'', session_file s)]"

definition int_dict :: "(string \<times> int) list \<Rightarrow> jval" where
  "int_dict m = JObj (map (\<lambda>(k, n). (k, JInt n)) m)"

definition manifest ::
    "(bytes \<Rightarrow> digest) \<Rightarrow> close_summary \<Rightarrow> string list \<Rightarrow> int \<Rightarrow> int \<Rightarrow> spool \<Rightarrow> metadata" where
  "manifest sha256 summary capture_errors dropped_chunks dropped_bytes s =
     (let all_errors = spool_errors s @ capture_errors @ transport_errors summary;
          byte_complete = both_equal (observed_bytes summary) (captured_bytes s);
          chunk_complete = both_equal (observed_chunks summary) (captured_chunks s);
          complete = (transport_complete summary \<and> byte_complete \<and> chunk_complete
            \<and> all_errors = [] \<and> dropped_chunks = 0)
      in [(''schema_version'', JInt schema_version),
          (''capture_format'', JStr ''retailprintguard-bidirectional-v1''),
          (''session'', descriptor_document (descriptor s)),
          (''closed_at_utc'', JStr (closed_at_utc summary)),
          (''closed_monotonic_ns'', JInt (closed_monotonic_ns summary)),
          (''close_reason'', JStr (close_reason summary)),
          (''status'', JStr (if complete then ''COMPLETE'' else ''PARTIAL'')),
          (''transport_complete'', JBool (transport_complete summary)),
          (''storage_complete'', JBool (byte_complete \<and> chunk_complete \<and> spool_errors s = []
             \<and> capture_errors = [] \<and> dropped_chunks = 0)),
          (''observed_bytes'', int_dict (observed_bytes summary)),
          (''observed_chunks'', int_dict (observed_chunks summary)),
          (''captured_bytes'', per_direction (captured_bytes s)),
          (''captured_chunks'', per_direction (captured_chunks s)),
          (''eof_events'', per_direction (eof_events s)),
          (''timeline_events'', JInt (timeline_events s)),
          (''last_event_sha256'', opt_str (previous_event_sha256 s)),
          (''dropped_chunks'', JInt dropped_chunks),
          (''dropped_bytes'', JInt dropped_bytes),
          (''errors'', JList (map JStr all_errors)),
          (''files'', JObj (map (\<lambda>(n, b). (n, file_facts sha256 n b)) (job_files s)))])"

definition ready_marker :: "string \<Rightarrow> string \<Rightarrow> bytes" where
  "ready_marker job manifest_sha256 = canonical_json (JObj [(''schema_version'', JInt schema_version),
     (''job_id'', JStr job), (''manifest_sha256'', JStr manifest_sha256)]) @ [newline]"

text \<open>A published job: its manifest and the files of its directory.\<close>

record published =
  pub_manifest :: metadata
  pub_files :: "(string \<times> bytes) list"
  pub_manifest_sha256 :: string

text \<open>
  \<^verbatim>\<open>finalize\<close>: \<open>io_error\<close> is the text of an I/O error of any of its steps, \<open>existing\<close> the path of
  the destination directory when it is there already.
\<close>

definition finalize ::
    "(bytes \<Rightarrow> digest) \<Rightarrow> string option \<Rightarrow> string option \<Rightarrow> close_summary \<Rightarrow> string list \<Rightarrow> int \<Rightarrow> int \<Rightarrow> spool
     \<Rightarrow> capture_error + published" where
  "finalize sha256 io_error existing summary capture_errors dropped_chunks dropped_bytes s =
     (case io_error of Some t \<Rightarrow> Inl (OsError t)
      | None \<Rightarrow>
          (let m = manifest sha256 summary capture_errors dropped_chunks dropped_bytes s;
               manifest_bytes = canonical_json (JObj m) @ [newline];
               manifest_digest = sha256_text sha256 manifest_bytes
           in (case existing of Some path \<Rightarrow> Inl (DestinationExists path)
               | None \<Rightarrow> Inr \<lparr>pub_manifest = m,
                pub_files = job_files s @ [(''manifest.json'', manifest_bytes),
                  (''.ready'', ready_marker (job_id (descriptor s)) manifest_digest)],
                pub_manifest_sha256 = manifest_digest\<rparr>)))"

section \<open>Inspection of a timeline\<close>

text \<open>\<^verbatim>\<open>int(value)\<close>; \<open>None\<close> where it raises \<^verbatim>\<open>TypeError\<close> or \<^verbatim>\<open>ValueError\<close>.\<close>

definition py_int :: "jval \<Rightarrow> int option" where
  "py_int v = (case v of JInt i \<Rightarrow> Some i | JBool b \<Rightarrow> Some (if b then 1 else 0)
     | JStr t \<Rightarrow> int_of_text t | _ \<Rightarrow> None)"

text \<open>\<^verbatim>\<open>entry[key]\<close>, \<open>None\<close> for a \<^verbatim>\<open>KeyError\<close>, and \<^verbatim>\<open>int(entry[key])\<close>.\<close>

definition item_int :: "metadata \<Rightarrow> string \<Rightarrow> int option" where
  "item_int m k = Option.bind (map_of m k) py_int"

definition direction_of :: "string \<Rightarrow> direction option" where
  "direction_of t = (if t = direction_value ClientToDevice then Some ClientToDevice
     else if t = direction_value DeviceToClient then Some DeviceToClient else None)"

record inspection =
  in_events :: int
  in_data_chunks :: "direction \<Rightarrow> int"
  in_eof_events :: "direction \<Rightarrow> int"
  in_covered_bytes :: "direction \<Rightarrow> int"
  in_direction_sequences :: "direction \<Rightarrow> int"
  in_observed_sequences :: "int list"
  in_previous_hash :: "string option"
  in_integrity_ok :: bool

definition new_inspection :: inspection where
  "new_inspection = \<lparr>in_events = 0, in_data_chunks = (\<lambda>_. 0), in_eof_events = (\<lambda>_. 0),
     in_covered_bytes = (\<lambda>_. 0), in_direction_sequences = (\<lambda>_. 0), in_observed_sequences = [],
     in_previous_hash = None, in_integrity_ok = True\<rparr>"

text \<open>The lines of a binary file, each with its newline.\<close>

fun file_lines :: "bytes \<Rightarrow> bytes list" where
  "file_lines [] = []"
| "file_lines (b # bs) = (if b = newline then [b] # file_lines bs
     else (case file_lines bs of [] \<Rightarrow> [[b]] | l # ls \<Rightarrow> (b # l) # ls))"

text \<open>
  One entry against the state of the inspection: \<open>None\<close> where the code raises one of the errors it
  catches. \<open>entry\<close> is the object without its \<^verbatim>\<open>event_sha256\<close>.
\<close>

definition check_entry ::
    "(bytes \<Rightarrow> digest) \<Rightarrow> jval \<Rightarrow> metadata \<Rightarrow> inspection \<Rightarrow> inspection option" where
  "check_entry sha256 event_hash entry i =
     (case (map_of entry ''direction'', map_of entry ''kind'', item_int entry ''sequence'',
            item_int entry ''observed_sequence'', item_int entry ''direction_sequence'',
            item_int entry ''offset'', item_int entry ''length'') of
        (Some dir, Some knd, Some seq, Some observed, Some dseq, Some off, Some len) \<Rightarrow>
          (case direction_of (py_str dir) of None \<Rightarrow> None
           | Some d \<Rightarrow>
               (let h = sha256_text sha256 (canonical_json (JObj entry));
                    i' = i\<lparr>in_direction_sequences := bump d 1 (in_direction_sequences i),
                      in_observed_sequences := observed # in_observed_sequences i,
                      in_previous_hash := Some h, in_events := in_events i + 1\<rparr>
                in if seq \<noteq> in_events i \<or> observed < 0 then None
                   else if observed \<in> set (in_observed_sequences i) then None
                   else if dseq \<noteq> in_direction_sequences i d then None
                   else if off \<noteq> in_covered_bytes i d \<or> len < 0 then None
                   else if get entry ''previous_event_sha256'' \<noteq> opt_str (in_previous_hash i) then None
                   else if JStr h \<noteq> event_hash then None
                   else if py_str knd = ''data'' then
                     (if len < 1 then None
                      else Some (i'\<lparr>in_data_chunks := bump d 1 (in_data_chunks i),
                        in_covered_bytes := bump d len (in_covered_bytes i)\<rparr>))
                   else if py_str knd = ''eof'' then
                     (if len \<noteq> 0 then None
                      else Some (i'\<lparr>in_eof_events := bump d 1 (in_eof_events i)\<rparr>))
                   else None))
      | _ \<Rightarrow> None)"

text \<open>The one error that escapes: a line that is JSON but neither an object nor an array.\<close>

datatype inspect_error = AttributeError

definition without :: "string \<Rightarrow> metadata \<Rightarrow> metadata" where
  "without key m = filter (\<lambda>(k, _). k \<noteq> key) m"

definition inspect_line ::
    "(bytes \<Rightarrow> digest) \<Rightarrow> (bytes \<Rightarrow> jval option) \<Rightarrow> bytes \<Rightarrow> inspection
     \<Rightarrow> inspect_error + inspection option" where
  "inspect_line sha256 loads line i = (case loads line of
      None \<Rightarrow> Inr None
    | Some (JObj members) \<Rightarrow> Inr (case map_of members ''event_sha256'' of None \<Rightarrow> None
        | Some event_hash \<Rightarrow> check_entry sha256 event_hash (without ''event_sha256'' members) i)
    | Some (JList xs) \<Rightarrow> Inr None
    | Some _ \<Rightarrow> Inl AttributeError)"

fun inspect_lines ::
    "(bytes \<Rightarrow> digest) \<Rightarrow> (bytes \<Rightarrow> jval option) \<Rightarrow> bytes list \<Rightarrow> inspection
     \<Rightarrow> inspect_error + inspection" where
  "inspect_lines sha256 loads [] i = Inr i"
| "inspect_lines sha256 loads (l # ls) i = (case inspect_line sha256 loads l i of
      Inl e \<Rightarrow> Inl e
    | Inr None \<Rightarrow> Inr (i\<lparr>in_integrity_ok := False\<rparr>)
    | Inr (Some i') \<Rightarrow> inspect_lines sha256 loads ls i')"

text \<open>\<^verbatim>\<open>_inspect_timeline\<close> of the content of a file.\<close>

definition inspect_timeline ::
    "(bytes \<Rightarrow> digest) \<Rightarrow> (bytes \<Rightarrow> jval option) \<Rightarrow> bytes \<Rightarrow> inspect_error + inspection" where
  "inspect_timeline sha256 loads content = inspect_lines sha256 loads (file_lines content) new_inspection"

section \<open>Facts about canonical text\<close>

lemma sort_members_map: "sort_members ms = map (\<lambda>(k, v). (k, sort_keys v)) ms"
  by (induction ms) auto

text \<open>Looking a member up does not depend on the order the members are sorted into.\<close>

lemma map_of_first: "map_of xs k = (case filter (\<lambda>p. fst p = k) xs of [] \<Rightarrow> None | p # _ \<Rightarrow> Some (snd p))"
  by (induction xs) auto

lemma map_of_sort [simp]: "map_of (sort_key fst xs) k = map_of xs k"
  by (simp add: map_of_first sort_key_stable)

lemma get_sort [simp]: "get (sort_key fst m) k = get m k"
  by (simp add: get_def)

fun scalar :: "jval \<Rightarrow> bool" where
  "scalar (JList _) = False"
| "scalar (JObj _) = False"
| "scalar _ = True"

lemma sort_keys_scalar: "scalar v \<Longrightarrow> sort_keys v = v"
  by (cases v) auto

lemma sort_scalar_members:
  "list_all (\<lambda>p. scalar (snd p)) ms \<Longrightarrow> sort_members ms = ms"
  by (induction ms) (auto simp: sort_keys_scalar)

lemma sort_scalar_object:
  assumes "list_all (\<lambda>p. scalar (snd p)) ms"
  shows "sort_keys (JObj ms) = JObj (sort_key fst ms)"
    and "sort_keys (JObj (sort_key fst ms)) = JObj (sort_key fst ms)"
proof -
  have "list_all (\<lambda>p. scalar (snd p)) (sort_key fst ms)" using assms by (simp add: list_all_iff)
  moreover have "sort_key fst (sort_key fst ms) = sort_key fst ms"
    by (rule sort_key_id_if_sorted) simp
  ultimately show "sort_keys (JObj ms) = JObj (sort_key fst ms)"
    "sort_keys (JObj (sort_key fst ms)) = JObj (sort_key fst ms)"
    using assms by (simp_all add: sort_scalar_members)
qed

lemma scalar_opt_str [simp]: "scalar (opt_str v)"
  by (cases v) (simp_all add: opt_str_def)

lemma opt_str_inj [simp]: "opt_str a = opt_str b \<longleftrightarrow> a = b"
  by (simp add: opt_str_def split: option.splits)

text \<open>No line break occurs inside the text of a value.\<close>

lemma digit_printable: "c \<in> set (digits n) \<Longrightarrow> 32 \<le> code c"
  using digits_digit [of c n] by (simp add: is_digit_def)

lemma json_char_printable: "c \<in> set (json_char d) \<Longrightarrow> 32 \<le> code c"
proof -
  have "code d div 16 < 16" using code_less [of d] by simp
  then show "c \<in> set (json_char d) \<Longrightarrow> 32 \<le> code c"
    by (auto simp: json_char_def Let_def char_codes hex_digit_def split: if_splits)
qed

lemma json_string_printable: "c \<in> set (json_string s) \<Longrightarrow> 32 \<le> code c"
  using json_char_printable by (auto simp: json_string_def char_codes)

lemma code_punctuation: "code (CHR ''e'') = 101" "code (CHR ''l'') = 108" "code (CHR ''a'') = 97"
  "code (CHR ''s'') = 115" "code (CHR 0x7B) = 123" "code (CHR 0x7D) = 125"
  by (simp_all add: code_def)

lemma json_text_printable:
  "c \<in> set (json_text v) \<Longrightarrow> 32 \<le> code c"
  "c \<in> set (json_items xs) \<Longrightarrow> 32 \<le> code c"
  "c \<in> set (json_members ms) \<Longrightarrow> 32 \<le> code c"
  by (induction v and xs and ms rule: json_text_json_items_json_members.induct)
    (auto simp: show_int_def code_literal code_punctuation dest: digit_printable json_string_printable
      split: if_splits)

lemma byte_of_nat_line: "n < 256 \<Longrightarrow> n \<noteq> 10 \<Longrightarrow> (of_nat n :: byte) \<noteq> 10"
  using byte_of_nat_inj [of n 10] by simp

lemma utf8_char_line: "32 \<le> code c \<Longrightarrow> newline \<notin> set (utf8_char c)"
  using utf8_char_cases [of c] code_less [of c] byte_of_nat_line [of "code c"]
    byte_of_nat_line [of "192 + code c div 64"] byte_of_nat_line [of "128 + code c mod 64"]
  by (auto simp: newline_def)

lemma canonical_json_line: "newline \<notin> set (canonical_json v)"
  using json_text_printable(1) utf8_char_line by (auto simp: canonical_json_def utf8_def)

lemma file_lines_line: "newline \<notin> set l \<Longrightarrow> file_lines (l @ newline # r) = (l @ [newline]) # file_lines r"
  by (induction l) auto

lemma file_lines_append:
  assumes "c = [] \<or> last c = newline" and "newline \<notin> set l"
  shows "file_lines (c @ l @ [newline]) = file_lines c @ [l @ [newline]]"
  using assms
proof (induction c rule: file_lines.induct)
  case 1
  then show ?case using file_lines_line [of l "[]"] by simp
next
  case (2 b bs)
  show ?case
  proof (cases "b = newline")
    case True
    have "bs = [] \<or> last bs = newline" using 2(3) by (auto split: if_splits)
    then show ?thesis using 2(1) [OF True _ 2(4)] True by simp
  next
    case False
    with 2(3) have "bs \<noteq> []" by auto
    then have "last bs = newline" using 2(3) by simp
    moreover have "file_lines bs \<noteq> []" using \<open>bs \<noteq> []\<close>
      by (cases bs) (auto split: list.splits)
    ultimately show ?thesis using 2(2) [OF False _ 2(4)] False by (auto split: list.splits)
  qed
qed

section \<open>Fault-free captures\<close>

text \<open>The payloads of one direction, in order: what the directional file is meant to hold.\<close>

definition stream :: "direction \<Rightarrow> capture_event list \<Rightarrow> bytes" where
  "stream d es = concat (map ev_payload (filter (\<lambda>e. ev_direction e = d) es))"

lemma stream_append [simp]: "stream d (xs @ ys) = stream d xs @ stream d ys"
  by (simp add: stream_def)

lemma stream_single [simp]: "stream d [e] = (if ev_direction e = d then ev_payload e else [])"
  by (simp add: stream_def)

lemma stream_Nil [simp]: "stream d [] = []"
  by (simp add: stream_def)

definition count_of :: "direction \<Rightarrow> string \<Rightarrow> capture_event list \<Rightarrow> int" where
  "count_of d k es = int (length (filter (\<lambda>e. ev_direction e = d \<and> kind e = k) es))"

text \<open>Appending events without a disk failure; \<open>None\<close> as soon as one of them is rejected.\<close>

definition try_append :: "(bytes \<Rightarrow> digest) \<Rightarrow> capture_event \<Rightarrow> spool \<Rightarrow> spool option" where
  "try_append sha256 e s = (case append sha256 NoFault e s of (None, s') \<Rightarrow> Some s' | _ \<Rightarrow> None)"

definition appends :: "(bytes \<Rightarrow> digest) \<Rightarrow> capture_event list \<Rightarrow> spool \<Rightarrow> spool option" where
  "appends sha256 es s = loop (try_append sha256) es s"

lemma loop_append:
  "loop f (xs @ ys) s = (case loop f xs s of None \<Rightarrow> None | Some s' \<Rightarrow> loop f ys s')"
  by (induction xs arbitrary: s) (auto split: option.splits)

lemma appends_snoc:
  "appends sha256 (es @ [e]) s = Some s' \<longleftrightarrow>
    (\<exists>t. appends sha256 es s = Some t \<and> append_error t e = None \<and>
      s' = count_event (event_digest sha256 t e) e
        (write_timeline (timeline_line sha256 t e) (write_raw (ev_direction e) (ev_payload e) t)))"
  by (auto simp: appends_def loop_append try_append_def append_def split: option.splits)

text \<open>What a spool holds after it accepted a list of events.\<close>

definition holds :: "session_descriptor \<Rightarrow> capture_event list \<Rightarrow> spool \<Rightarrow> bool" where
  "holds desc es s \<longleftrightarrow> descriptor s = desc \<and> session_file s = session_file (open_spool desc) \<and>
     raw_files s = (\<lambda>d. stream d es) \<and>
     next_sequence s = int (length es) \<and> timeline_events s = int (length es) \<and>
     next_direction_sequence s = (\<lambda>d. int (length (filter (\<lambda>e. ev_direction e = d) es))) \<and>
     captured_bytes s = (\<lambda>d. int (length (stream d es))) \<and>
     captured_chunks s = (\<lambda>d. count_of d ''data'' es) \<and> eof_events s = (\<lambda>d. count_of d ''eof'' es) \<and>
     spool_errors s = [] \<and> \<not> closed s"

lemma holds_open: "holds desc [] (open_spool desc)"
  by (simp add: holds_def open_spool_def count_of_def)

lemma append_error_kind:
  "append_error s e = None \<Longrightarrow> kind e = ''data'' \<or> kind e = ''eof'' \<and> ev_payload e = []"
  by (auto simp: append_error_def Let_def split: if_splits)

lemma holds_append:
  assumes "holds desc es s" and "append_error s e = None"
  shows "holds desc (es @ [e]) (count_event h e (write_timeline l (write_raw (ev_direction e) (ev_payload e) s)))"
  using append_error_kind [OF assms(2)] assms(1)
  by (auto simp: holds_def count_event_def write_timeline_def write_raw_def bump_def count_of_def Let_def
    fun_eq_iff)

lemma appends_holds: "appends sha256 es (open_spool desc) = Some s \<Longrightarrow> holds desc es s"
proof (induction es arbitrary: s rule: rev_induct)
  case Nil
  with holds_open [of desc] show ?case by (simp add: appends_def)
next
  case (snoc e es)
  then show ?case using holds_append by (auto simp: appends_snoc)
qed

section \<open>Inspecting what was appended\<close>

text \<open>The state the inspection reaches on the timeline of a spool.\<close>

definition inspected :: "spool \<Rightarrow> int list \<Rightarrow> inspection" where
  "inspected s os = \<lparr>in_events = next_sequence s, in_data_chunks = captured_chunks s,
     in_eof_events = eof_events s, in_covered_bytes = captured_bytes s,
     in_direction_sequences = next_direction_sequence s, in_observed_sequences = os,
     in_previous_hash = previous_event_sha256 s, in_integrity_ok = True\<rparr>"

text \<open>What the inspection asks of an event beyond what \<^verbatim>\<open>append\<close> checks.\<close>

definition observable :: "int list \<Rightarrow> capture_event \<Rightarrow> bool" where
  "observable os e \<longleftrightarrow> (kind e = ''data'' \<longrightarrow> ev_payload e \<noteq> []) \<and> 0 \<le> observed_sequence e
     \<and> observed_sequence e \<notin> set os"

lemma event_body_scalar: "list_all (\<lambda>p. scalar (snd p)) (event_body sha256 s e)"
  by (simp add: event_body_def)

lemma canonical_sorted_body:
  "canonical_json (JObj (sort_key fst (event_body sha256 s e))) = canonical_json (JObj (event_body sha256 s e))"
  by (simp only: canonical_json_def sort_scalar_object [OF event_body_scalar])

lemma direction_of_value [simp]: "direction_of (direction_value d) = Some d"
  by (cases d) (simp_all add: direction_of_def direction_value_def)

lemma event_body_fields:
  "item_int (event_body sha256 s e) ''sequence'' = Some (ev_sequence e)"
  "item_int (event_body sha256 s e) ''observed_sequence'' = Some (observed_sequence e)"
  "item_int (event_body sha256 s e) ''direction_sequence'' = Some (direction_sequence e)"
  "item_int (event_body sha256 s e) ''offset'' = Some (ev_offset e)"
  "item_int (event_body sha256 s e) ''length'' = Some (int (length (ev_payload e)))"
  "map_of (event_body sha256 s e) ''direction'' = Some (JStr (direction_value (ev_direction e)))"
  "map_of (event_body sha256 s e) ''kind'' = Some (JStr (kind e))"
  "get (event_body sha256 s e) ''previous_event_sha256'' = opt_str (previous_event_sha256 s)"
  by (simp_all add: item_int_def get_def event_body_def py_int_def)

lemma item_int_sort [simp]: "item_int (sort_key fst m) k = item_int m k"
  by (simp add: item_int_def)

lemma check_appended:
  assumes ok: "append_error s e = None" and obs: "observable os e"
  shows "check_entry sha256 (JStr (event_digest sha256 s e)) (sort_key fst (event_body sha256 s e)) (inspected s os)
    = Some (inspected (count_event (event_digest sha256 s e) e (write_timeline l (write_raw d b s)))
        (observed_sequence e # os))"
proof -
  have facts: "ev_sequence e = next_sequence s" "ev_offset e = captured_bytes s (ev_direction e)"
    "direction_sequence e = next_direction_sequence s (ev_direction e)"
    using ok by (auto simp: append_error_def Let_def split: if_splits)
  note defs = check_entry_def event_body_fields canonical_sorted_body event_digest_def [symmetric]
  show ?thesis
  proof (cases "kind e = ''data''")
    case True
    with obs have "ev_payload e \<noteq> []" by (simp add: observable_def)
    then have "\<not> int (length (ev_payload e)) < 1" by (simp add: Suc_le_eq)
    with True obs facts show ?thesis
      by (simp add: defs observable_def py_str_def inspected_def count_event_def write_timeline_def
          write_raw_def Let_def)
  next
    case False
    with append_error_kind [OF ok] have "kind e = ''eof''" "ev_payload e = []" by auto
    with obs facts show ?thesis
      by (simp add: defs observable_def py_str_def inspected_def count_event_def write_timeline_def
          write_raw_def Let_def)
  qed
qed

lemma inspect_lines_append:
  "inspect_lines sha256 loads xs i = Inr j \<Longrightarrow> in_integrity_ok j \<Longrightarrow>
    inspect_lines sha256 loads (xs @ ys) i = inspect_lines sha256 loads ys j"
  by (induction xs arbitrary: i) (auto split: sum.splits option.splits)

text \<open>
  The law of \<^verbatim>\<open>json.loads\<close> the recovery relies on: it reads a line of canonical text back, with the
  members of its objects in the order of the text. No object of the text repeats a key, since the text
  was made from Python dictionaries.
\<close>

fun keyed_json :: "jval \<Rightarrow> bool"
  and keyed_items :: "jval list \<Rightarrow> bool"
  and keyed_members :: "(string \<times> jval) list \<Rightarrow> bool" where
  "keyed_json (JList xs) = keyed_items xs"
| "keyed_json (JObj ms) = (distinct (map fst ms) \<and> keyed_members ms)"
| "keyed_json v = True"
| "keyed_items [] = True"
| "keyed_items (x # xs) = (keyed_json x \<and> keyed_items xs)"
| "keyed_members [] = True"
| "keyed_members ((k, v) # ms) = (keyed_json v \<and> keyed_members ms)"

lemma keyed_opt_str: "keyed_json (opt_str x)"
  by (cases x) (simp_all add: opt_str_def)

lemma keyed_entry:
  "keyed_json (JObj (event_body sha256 s e @ [(''event_sha256'', JStr (event_digest sha256 s e))]))"
  by (simp add: event_body_def keyed_opt_str)

lemma keyed_session: "keyed_json (JObj [(''schema_version'', JInt schema_version), (''session'', descriptor_document d)])"
  by (simp add: descriptor_document_def endpoint_document_def)

locale json_reader =
  fixes loads :: "bytes \<Rightarrow> jval option"
  assumes loads_canonical: "keyed_json v \<Longrightarrow> loads (canonical_json v @ [newline]) = Some (sort_keys v)"
begin

lemma inspect_appended:
  assumes "append_error s e = None" and "observable os e"
  shows "inspect_line sha256 loads (timeline_line sha256 s e) (inspected s os) =
    Inr (Some (inspected (count_event (event_digest sha256 s e) e (write_timeline l (write_raw d b s)))
      (observed_sequence e # os)))"
proof -
  let ?full = "event_body sha256 s e @ [(''event_sha256'', JStr (event_digest sha256 s e))]"
  have "list_all (\<lambda>p. scalar (snd p)) ?full" using event_body_scalar by simp
  then have read: "loads (timeline_line sha256 s e) = Some (JObj (sort_key fst ?full))"
    by (simp only: timeline_line_def loads_canonical [OF keyed_entry] sort_scalar_object)
  have "map_of ?full ''event_sha256'' = Some (JStr (event_digest sha256 s e))"
    by (simp add: event_body_def)
  moreover have "without ''event_sha256'' ?full = event_body sha256 s e"
    by (simp add: without_def event_body_def)
  then have "without ''event_sha256'' (sort_key fst ?full) = sort_key fst (event_body sha256 s e)"
    by (simp only: without_def filter_sort)
  ultimately show ?thesis
    using check_appended [OF assms, of sha256 l d b]
    by (simp only: inspect_line_def read option.case jval.case map_of_sort)
qed

lemma inspect_timeline_appends:
  assumes "appends sha256 es (open_spool desc) = Some s"
    and "list_all (observable []) es" and "distinct (map observed_sequence es)"
  shows "inspect_timeline sha256 loads (timeline_file s) = Inr (inspected s (rev (map observed_sequence es)))
    \<and> (timeline_file s = [] \<or> last (timeline_file s) = newline)"
  using assms
proof (induction es arbitrary: s rule: rev_induct)
  case Nil
  then have "s = open_spool desc" by (simp add: appends_def)
  then show ?case by (simp add: inspect_timeline_def open_spool_def inspected_def new_inspection_def)
next
  case (snoc e es)
  from snoc.prems(1) obtain t where t: "appends sha256 es (open_spool desc) = Some t"
      "append_error t e = None"
    and s: "s = count_event (event_digest sha256 t e) e
      (write_timeline (timeline_line sha256 t e) (write_raw (ev_direction e) (ev_payload e) t))"
    by (auto simp: appends_snoc)
  have content: "timeline_file s = timeline_file t @ timeline_line sha256 t e"
    by (simp add: s count_event_def write_timeline_def write_raw_def Let_def)
  have IH: "inspect_lines sha256 loads (file_lines (timeline_file t)) new_inspection
      = Inr (inspected t (rev (map observed_sequence es)))"
    "timeline_file t = [] \<or> last (timeline_file t) = newline"
    using snoc.IH [OF t(1)] snoc.prems by (simp_all add: inspect_timeline_def)
  have "observable (rev (map observed_sequence es)) e"
    using snoc.prems(2,3) by (auto simp: observable_def)
  from inspect_appended [OF t(2) this] have
    "inspect_line sha256 loads (timeline_line sha256 t e) (inspected t (rev (map observed_sequence es)))
      = Inr (Some (inspected s (rev (map observed_sequence (es @ [e])))))"
    by (simp add: s)
  moreover have "file_lines (timeline_file s) = file_lines (timeline_file t) @ [timeline_line sha256 t e]"
    unfolding content timeline_line_def by (rule file_lines_append [OF IH(2) canonical_json_line])
  ultimately show ?case
    using inspect_lines_append [OF IH(1)]
    by (simp add: inspect_timeline_def content timeline_line_def) (simp add: inspected_def)
qed

end

text \<open>A capture writes one line per event.\<close>

lemma appends_lines:
  assumes "appends sha256 es (open_spool desc) = Some s"
  shows "length (file_lines (timeline_file s)) = length es \<and> (timeline_file s = [] \<or> last (timeline_file s) = newline)"
  using assms
proof (induction es arbitrary: s rule: rev_induct)
  case Nil
  then have "s = open_spool desc" by (simp add: appends_def)
  then show ?case by (simp add: open_spool_def)
next
  case (snoc e es)
  from snoc.prems obtain t where t: "appends sha256 es (open_spool desc) = Some t"
    and "timeline_file s = timeline_file t @ timeline_line sha256 t e"
    by (auto simp: appends_snoc count_event_def write_timeline_def write_raw_def Let_def)
  then show ?case
    using snoc.IH [OF t] file_lines_append [OF _ canonical_json_line] by (simp add: timeline_line_def)
qed

text \<open>
  What a capture writes, the recovery reads: after any list of events that \<^verbatim>\<open>append\<close> accepted,
  with data events that carry data and distinct observation numbers, \<^verbatim>\<open>_inspect_timeline\<close> finds the
  timeline intact and counts the events, chunks and bytes of each direction exactly as the spool
  did, up to the digest of the last event; and the bytes it finds covered are those of the
  directional files.
\<close>

theorem timeline_roundtrip:
  assumes "\<And>v. keyed_json v \<Longrightarrow> loads (canonical_json v @ [newline]) = Some (sort_keys v)"
    and "appends sha256 es (open_spool desc) = Some s"
    and "list_all (observable []) es" and "distinct (map observed_sequence es)"
  shows "\<exists>i. inspect_timeline sha256 loads (timeline_file s) = Inr i \<and> in_integrity_ok i \<and>
    in_events i = timeline_events s \<and> in_data_chunks i = captured_chunks s \<and>
    in_eof_events i = eof_events s \<and> in_covered_bytes i = captured_bytes s \<and>
    in_covered_bytes i = (\<lambda>d. int (length (raw_files s d))) \<and>
    in_previous_hash i = previous_event_sha256 s"
proof -
  have "json_reader loads" using assms(1) by unfold_locales
  then have "inspect_timeline sha256 loads (timeline_file s) = Inr (inspected s (rev (map observed_sequence es)))"
    using json_reader.inspect_timeline_appends [OF _ assms(2-4)] by blast
  then show ?thesis
    using appends_holds [OF assms(2)] by (auto simp: holds_def inspected_def)
qed

section \<open>A reader\<close>

text \<open>\<^verbatim>\<open>json.loads\<close> on lines of the serialised form: UTF-8 text of one value, then white space.\<close>

fun decode_utf8 :: "bytes \<Rightarrow> string option" where
  "decode_utf8 [] = Some []"
| "decode_utf8 (b # r) =
     (if unat b < 128 then map_option ((#) (chr (unat b))) (decode_utf8 r)
      else (case r of [] \<Rightarrow> None
        | c # r' \<Rightarrow> (if (b = 194 \<or> b = 195) \<and> 128 \<le> unat c \<and> unat c < 192
            then map_option ((#) (chr (64 * (unat b - 192) + (unat c - 128)))) (decode_utf8 r') else None)))"

definition read_line :: "bytes \<Rightarrow> jval option" where
  "read_line line = (case decode_utf8 line of None \<Rightarrow> None
     | Some s \<Rightarrow> (case read_value (length s) s of
         Some (v, r) \<Rightarrow> (if list_all is_space r then Some v else None)
       | None \<Rightarrow> None))"

lemma unat_byte: "n < 256 \<Longrightarrow> unat (of_nat n :: byte) = n"
  by (simp add: unat_of_nat)

lemma decode_utf8_char: "decode_utf8 (utf8_char c @ r) = map_option ((#) c) (decode_utf8 r)"
proof (cases "code c < 128")
  case True
  then show ?thesis by (simp add: utf8_char_def Let_def unat_byte)
next
  case False
  let ?m = "code c div 64"
  have m: "?m = 2 \<or> ?m = 3" using False code_less [of c] by linarith
  have "64 * ?m + code c mod 64 = code c" by simp
  then have "chr (64 * ?m + (128 + code c mod 64 - 128)) = c" by simp
  moreover have "unat (of_nat (192 + ?m) :: byte) = 192 + ?m"
    "unat (of_nat (128 + code c mod 64) :: byte) = 128 + code c mod 64"
    by (rule unat_byte, use m code_less [of c] in linarith, rule unat_byte, use code_less [of c] in simp)
  moreover have "of_nat (192 + ?m) = (194 :: byte) \<or> of_nat (192 + ?m) = (195 :: byte)" using m by auto
  ultimately show ?thesis using False m
    by (auto simp: utf8_char_def Let_def simp del: of_nat_add of_nat_numeral)
qed

lemma decode_utf8_utf8: "decode_utf8 (utf8 s @ r) = map_option ((@) s) (decode_utf8 r)"
proof (induction s)
  case Nil
  then show ?case by (cases "decode_utf8 r") (simp_all add: utf8_def)
next
  case (Cons c s)
  then show ?case by (cases "decode_utf8 r") (simp_all add: utf8_def decode_utf8_char)
qed

interpretation read_line: json_reader read_line
proof
  fix v
  let ?t = "json_text (sort_keys v)"
  have nl: "decode_utf8 [newline] = Some [CHR 0x0A]"
    by code_simp
  have "decode_utf8 (canonical_json v @ [newline]) = Some (?t @ [CHR 0x0A])"
    by (simp only: canonical_json_def decode_utf8_utf8 nl option.map)
  moreover have "stops [CHR 0x0A]" by (simp add: stops_def is_digit_def code_literal)
  then have "read_value (length (?t @ [CHR 0x0A])) (?t @ [CHR 0x0A]) = Some (sort_keys v, [CHR 0x0A])"
    by (rule read_json(1)) simp
  moreover have "is_space (CHR 0x0A)" by (simp add: is_space_def code_literal)
  ultimately show "read_line (canonical_json v @ [newline]) = Some (sort_keys v)"
    by (simp add: read_line_def)
qed

section \<open>Tamper evidence of the timeline\<close>

text \<open>The entries of a timeline without their own digests, members sorted.\<close>

definition entry_of_line :: "(bytes \<Rightarrow> jval option) \<Rightarrow> bytes \<Rightarrow> jval" where
  "entry_of_line loads line = (case loads line of
      Some (JObj ms) \<Rightarrow> sort_keys (JObj (without ''event_sha256'' ms)) | _ \<Rightarrow> JNull)"

definition timeline_entries :: "(bytes \<Rightarrow> jval option) \<Rightarrow> bytes \<Rightarrow> jval list" where
  "timeline_entries loads content = map (entry_of_line loads) (file_lines content)"

definition entry_bytes :: "jval \<Rightarrow> bytes" where
  "entry_bytes e = utf8 (json_text e)"

definition entry_linked :: "string option \<Rightarrow> jval \<Rightarrow> bool" where
  "entry_linked p e = (case e of JObj ms \<Rightarrow> get ms ''previous_event_sha256'' = opt_str p | _ \<Rightarrow> False)"

definition entry_digest :: "(bytes \<Rightarrow> digest) \<Rightarrow> bytes \<Rightarrow> string option" where
  "entry_digest sha256 b = Some (sha256_text sha256 b)"

interpretation timeline_log: hash_log "entry_digest sha256" "\<lambda>_. entry_bytes" entry_linked None
  for sha256 :: "bytes \<Rightarrow> digest"
proof
  fix p q x y
  assume "entry_linked p x" "entry_linked q y" "entry_bytes x = entry_bytes y"
  moreover from this(3) have "x = y" using utf8_inj json_text_inj by (auto simp: entry_bytes_def)
  ultimately show "p = q \<and> x = y" by (auto simp: entry_linked_def split: jval.splits)
qed

lemma get_object_sorted:
  "get (sort_members ms) k = sort_keys (get ms k)"
  by (induction ms) (auto simp: get_def)

lemma check_entry_step:
  assumes "check_entry sha256 event_hash m i = Some j"
  shows "in_integrity_ok j = in_integrity_ok i"
    and "get m ''previous_event_sha256'' = opt_str (in_previous_hash i)"
    and "in_previous_hash j = Some (sha256_text sha256 (canonical_json (JObj m)))"
  using assms by (auto simp: check_entry_def Let_def split: option.splits if_splits)

lemma inspect_line_step:
  assumes "inspect_line sha256 loads l i = Inr (Some j)"
  shows "in_integrity_ok j = in_integrity_ok i"
    and "entry_linked (in_previous_hash i) (entry_of_line loads l)"
    and "in_previous_hash j = entry_digest sha256 (entry_bytes (entry_of_line loads l))"
proof -
  from assms obtain ms h where l: "loads l = Some (JObj ms)"
    and check: "check_entry sha256 h (without ''event_sha256'' ms) i = Some j"
    by (auto simp: inspect_line_def split: option.splits jval.splits)
  note step = check_entry_step [OF check]
  show "in_integrity_ok j = in_integrity_ok i" by (rule step(1))
  have "get (sort_members (without ''event_sha256'' ms)) ''previous_event_sha256'' = opt_str (in_previous_hash i)"
    using step(2) by (simp add: get_object_sorted sort_keys_scalar)
  then show "entry_linked (in_previous_hash i) (entry_of_line loads l)"
    by (simp add: entry_linked_def entry_of_line_def l)
  show "in_previous_hash j = entry_digest sha256 (entry_bytes (entry_of_line loads l))"
    using step(3) by (simp add: entry_digest_def entry_bytes_def entry_of_line_def l canonical_json_def)
qed

lemma inspect_lines_log:
  assumes "inspect_lines sha256 loads ls i = Inr j" and "in_integrity_ok j"
  shows "log_linked (entry_digest sha256) (\<lambda>_. entry_bytes) entry_linked (in_previous_hash i) (map (entry_of_line loads) ls)
    \<and> in_previous_hash j = log_head (entry_digest sha256) (\<lambda>_. entry_bytes) (in_previous_hash i) (map (entry_of_line loads) ls)"
  using assms
proof (induction ls arbitrary: i)
  case (Cons l ls)
  then obtain i' where i': "inspect_line sha256 loads l i = Inr (Some i')"
    and rest: "inspect_lines sha256 loads ls i' = Inr j"
    by (auto split: sum.splits option.splits)
  show ?case using inspect_line_step [OF i'] Cons.IH [OF rest Cons.prems(2)] by simp
qed simp

lemma log_inputs_entries: "log_inputs d (\<lambda>_. entry_bytes) p es = map entry_bytes es"
  by (induction es arbitrary: p) auto

text \<open>
  C24: the timeline is tamper-evident, whatever \<^verbatim>\<open>json.loads\<close> makes of the bytes: if two files pass
  the inspection and end in the same event digest, they list the same entries in the same order (up
  to the order of members), or two different entries of theirs have the same SHA-256. Truncation,
  insertion, reordering and edits of any field are included.
\<close>

theorem timeline_tamper_evident:
  assumes "inspect_timeline sha256 loads a = Inr i" and "in_integrity_ok i"
    and "inspect_timeline sha256 loads b = Inr j" and "in_integrity_ok j"
    and "in_previous_hash i = in_previous_hash j"
  shows "timeline_entries loads a = timeline_entries loads b \<or>
    (\<exists>x \<in> set (timeline_entries loads a). \<exists>y \<in> set (timeline_entries loads b).
      x \<noteq> y \<and> sha256 (entry_bytes x) = sha256 (entry_bytes y))"
proof -
  have start: "in_previous_hash new_inspection = None" by (simp add: new_inspection_def)
  note logs = inspect_lines_log [OF assms(1,2) [unfolded inspect_timeline_def], unfolded start]
    inspect_lines_log [OF assms(3,4) [unfolded inspect_timeline_def], unfolded start]
  have "timeline_entries loads a = timeline_entries loads b \<or>
    digest_broken (entry_digest sha256) None (map entry_bytes (timeline_entries loads a))
      (map entry_bytes (timeline_entries loads b))"
    using timeline_log.tamper_evident [of sha256 "timeline_entries loads a" "timeline_entries loads b"]
      logs assms(5) by (simp add: timeline_entries_def log_inputs_entries)
  then show ?thesis
    by (fastforce simp: digest_broken_def entry_digest_def sha256_text_def dest!: hexdigest_inj)
qed

section \<open>Captures with disk failures\<close>

text \<open>The writer thread on a list of events, each with the outcome of its writes.\<close>

definition write_events :: "(bytes \<Rightarrow> digest) \<Rightarrow> (write_fault \<times> capture_event) list \<Rightarrow> spool \<Rightarrow> spool" where
  "write_events sha256 fes s = fold (\<lambda>(f, e) s. snd (write_event sha256 f e s)) fes s"

definition numbered :: "capture_event list \<Rightarrow> bool" where
  "numbered es \<longleftrightarrow> map ev_sequence es = map int [0..<length es]"

lemma numbered_snoc: "numbered (es @ [e]) \<longleftrightarrow> numbered es \<and> ev_sequence e = int (length es)"
  by (simp add: numbered_def)

text \<open>
  A spool after \<open>es\<close> of which it accepted the first \<open>k\<close>: the state \<open>t\<close> of the fault-free capture of
  those, except that the failed write may have left bytes at the end of the files.
\<close>

definition accepted :: "(bytes \<Rightarrow> digest) \<Rightarrow> session_descriptor \<Rightarrow> capture_event list \<Rightarrow> nat \<Rightarrow> spool \<Rightarrow> spool \<Rightarrow> bool" where
  "accepted sha256 desc es k t s \<longleftrightarrow> k \<le> length es \<and>
     appends sha256 (take k es) (open_spool desc) = Some t \<and>
     s = t\<lparr>raw_files := raw_files s, timeline_file := timeline_file s, spool_errors := spool_errors s\<rparr> \<and>
     (if k = length es then s = t else spool_errors s \<noteq> []) \<and>
     (\<forall>d. prefix (raw_files t d) (raw_files s d) \<and> prefix (raw_files s d) (stream d es)) \<and>
     prefix (timeline_file t) (timeline_file s)"

lemma write_raw_empty: "write_raw d [] s = s"
  by (simp add: write_raw_def)

lemma append_accepts:
  assumes "append sha256 f e s = (None, s')"
  shows "append_error s e = None" and "s' = count_event (event_digest sha256 s e) e
    (write_timeline (timeline_line sha256 s e) (write_raw (ev_direction e) (ev_payload e) s))"
  using assms by (auto simp: append_def write_raw_empty split: option.splits write_fault.splits if_splits)

lemma append_fails:
  assumes "append sha256 f e s = (Some err, s')"
  shows "\<exists>r l. s' = write_timeline l (write_raw (ev_direction e) r s) \<and> prefix r (ev_payload e)"
proof (cases "append_error s e")
  case (Some x)
  with assms have "s' = write_timeline [] (write_raw (ev_direction e) [] s)"
    by (simp add: append_def write_raw_empty write_timeline_def)
  then show ?thesis using Nil_prefix by blast
next
  case None
  with assms consider (raw) n where "s' = write_raw (ev_direction e) (take n (ev_payload e)) s"
    | (timeline) l where "s' = write_timeline l (write_raw (ev_direction e) (ev_payload e) s)"
    by (auto simp: append_def split: write_fault.splits if_splits)
  then show ?thesis
  proof cases
    case raw
    then have "s' = write_timeline [] (write_raw (ev_direction e) (take n (ev_payload e)) s)"
      by (simp add: write_timeline_def)
    then show ?thesis using take_is_prefix by blast
  qed blast
qed

lemma accepted_step:
  assumes ok: "accepted sha256 desc es k t s" and seq: "ev_sequence e = int (length es)"
  shows "\<exists>k t. accepted sha256 desc (es @ [e]) k t (snd (write_event sha256 f e s))"
proof (cases "k = length es")
  case True
  with ok have t: "appends sha256 es (open_spool desc) = Some t" "s = t" by (simp_all add: accepted_def)
  note h = appends_holds [OF t(1)]
  show ?thesis
  proof (cases "append sha256 f e s")
    case (Pair r s')
    show ?thesis
    proof (cases r)
      case None
      with Pair have ok: "append sha256 f e s = (None, s')" by simp
      have run: "appends sha256 (es @ [e]) (open_spool desc) = Some s'"
        using append_accepts [OF ok] t by (simp add: appends_snoc)
      have "accepted sha256 desc (es @ [e]) (length (es @ [e])) s' s'"
        using appends_holds [OF run] run by (simp add: accepted_def holds_def)
      then show ?thesis using ok by (auto simp: write_event_def)
    next
      case (Some err)
      with Pair append_fails obtain b l where s': "s' = write_timeline l (write_raw (ev_direction e) b s)"
        "prefix b (ev_payload e)" by blast
      have "accepted sha256 desc (es @ [e]) k t (snd (write_event sha256 f e s))"
        using h t s' Pair Some
        by (auto simp: True accepted_def holds_def write_event_def mark_error_def write_timeline_def
            write_raw_def Let_def prefix_append)
      then show ?thesis by blast
    qed
  qed
next
  case False
  then have k: "k < length es" using ok by (simp add: accepted_def)
  have run: "appends sha256 (take k es) (open_spool desc) = Some t"
    and s: "s = t\<lparr>raw_files := raw_files s, timeline_file := timeline_file s, spool_errors := spool_errors s\<rparr>"
    using ok by (simp_all add: accepted_def)
  have "\<not> closed s \<and> next_sequence s = int k"
    by (subst (1 2) s) (use appends_holds [OF run] k in \<open>simp add: holds_def\<close>)
  then have "append_error s e = Some (SequenceMismatch (int k) (int (length es)))"
    using seq k by (simp add: append_error_def)
  then have "snd (write_event sha256 f e s) = mark_error (''capture write failed: ''
      @ error_text (SequenceMismatch (int k) (int (length es)))) s"
    by (simp add: write_event_def append_def Let_def)
  moreover have "accepted sha256 desc (es @ [e]) k t (mark_error m s)" for m
    using ok k by (cases s; cases t) (auto simp: accepted_def mark_error_def prefix_append)
  ultimately show ?thesis by auto
qed

lemma accepted_run:
  "numbered (map snd fes) \<Longrightarrow>
    \<exists>k t. accepted sha256 desc (map snd fes) k t (write_events sha256 fes (open_spool desc))"
proof (induction fes rule: rev_induct)
  case Nil
  have "accepted sha256 desc [] 0 (open_spool desc) (open_spool desc)"
    by (simp add: accepted_def appends_def open_spool_def)
  then show ?case by (auto simp: write_events_def)
next
  case (snoc fe fes)
  then show ?case using accepted_step
    by (cases fe) (auto simp: write_events_def numbered_snoc)
qed

text \<open>
  C25: what a crash or a full disk leaves behind. Whatever the disk does while the writer appends the
  numbered events of a session, the events it accepts are an initial segment of them; each
  directional file holds the bytes of that segment and then at most a prefix of what the session
  carried on; the counters and the digest are those of the segment; and without a recorded error the
  spool is exactly the one a fault-free disk gives, with all events.
\<close>

theorem captured_prefix:
  assumes "numbered (map snd fes)"
  shows "\<exists>k t. k \<le> length fes \<and> appends sha256 (take k (map snd fes)) (open_spool desc) = Some t \<and>
    (let s = write_events sha256 fes (open_spool desc) in
      (\<forall>d. prefix (stream d (take k (map snd fes))) (raw_files s d) \<and> prefix (raw_files s d) (stream d (map snd fes))) \<and>
      captured_bytes s = captured_bytes t \<and> captured_chunks s = captured_chunks t \<and>
      eof_events s = eof_events t \<and> timeline_events s = int k \<and>
      previous_event_sha256 s = previous_event_sha256 t \<and> prefix (timeline_file t) (timeline_file s) \<and>
      (spool_errors s = [] \<longrightarrow> k = length fes \<and> s = t))"
proof -
  let ?s = "write_events sha256 fes (open_spool desc)" and ?es = "map snd fes"
  obtain k t where ok: "accepted sha256 desc ?es k t ?s" using accepted_run [OF assms] by blast
  then have run: "appends sha256 (take k ?es) (open_spool desc) = Some t"
    and s: "?s = t\<lparr>raw_files := raw_files ?s, timeline_file := timeline_file ?s, spool_errors := spool_errors ?s\<rparr>"
    and k: "k \<le> length fes"
    by (simp_all add: accepted_def)
  have same: "captured_bytes ?s = captured_bytes t" "captured_chunks ?s = captured_chunks t"
    "eof_events ?s = eof_events t" "timeline_events ?s = timeline_events t"
    "previous_event_sha256 ?s = previous_event_sha256 t"
    by (subst s, simp)+
  have h: "raw_files t = (\<lambda>d. stream d (take k ?es))" "timeline_events t = int k"
    using appends_holds [OF run] k by (simp_all add: holds_def)
  show ?thesis
    using ok run k same h by (intro exI [of _ k] exI [of _ t]) (auto simp: accepted_def Let_def split: if_splits)
qed

section \<open>Examples\<close>

definition example_descriptor :: session_descriptor where
  "example_descriptor = \<lparr>session_id = ''s'', job_id = ''j'', device_id = ''d'', device_name = ''d'',
     device_type = ''POS'', parser = ''escpos'', client_endpoint = (''a'', 1),
     listener_endpoint = (''b'', 2), target_endpoint = (''c'', 3), connected_at_utc = ''t'',
     connected_monotonic_ns = 0\<rparr>"

definition example_event :: "int \<Rightarrow> string \<Rightarrow> int \<Rightarrow> bytes \<Rightarrow> capture_event" where
  "example_event n k off b = \<lparr>ev_sequence = n, observed_sequence = n, direction_sequence = n,
     ev_direction = ClientToDevice, kind = k, captured_at_utc = [], captured_monotonic_ns = 0,
     ev_offset = off, ev_payload = b, forwarded = True, forwarded_at_utc = [], forward_error = None\<rparr>"

definition example_events :: "capture_event list" where
  "example_events = [example_event 0 ''data'' 0 [27, 64], example_event 1 ''eof'' 2 []]"

lemma example_appends: "\<exists>s. appends toy_digest example_events (open_spool example_descriptor) = Some s"
  by (simp add: appends_def example_events_def try_append_def append_def append_error_def example_event_def
      open_spool_def count_event_def write_timeline_def write_raw_def bump_def)

theorem timeline_roundtrip_witness:
  "\<exists>s i. appends toy_digest example_events (open_spool example_descriptor) = Some s \<and>
     inspect_timeline toy_digest read_line (timeline_file s) = Inr i \<and> in_integrity_ok i"
proof -
  obtain s where s: "appends toy_digest example_events (open_spool example_descriptor) = Some s"
    using example_appends by blast
  have "list_all (observable []) example_events" "distinct (map observed_sequence example_events)"
    by (simp_all add: example_events_def example_event_def observable_def)
  from timeline_roundtrip [OF read_line.loads_canonical s this] s show ?thesis by blast
qed

text \<open>
  Two captures under the digest that is the same for all bytes, one without the end of the stream of the other:
  both pass the inspection and end in the same digest, so a collision is the only possibility left.
\<close>

definition constant_digest :: "bytes \<Rightarrow> digest" where
  "constant_digest bs = 0"

lemma example_appends_constant:
  "\<exists>s. appends constant_digest example_events (open_spool example_descriptor) = Some s"
  by (simp add: appends_def example_events_def try_append_def append_def append_error_def example_event_def
      open_spool_def count_event_def write_timeline_def write_raw_def bump_def)

theorem timeline_tamper_evident_witness:
  "\<exists>s t. appends constant_digest example_events (open_spool example_descriptor) = Some s \<and>
     appends constant_digest (butlast example_events) (open_spool example_descriptor) = Some t \<and>
     length (timeline_entries read_line (timeline_file s)) = 2 \<and> length (timeline_entries read_line (timeline_file t)) = 1 \<and>
     (\<exists>x \<in> set (timeline_entries read_line (timeline_file s)). \<exists>y \<in> set (timeline_entries read_line (timeline_file t)).
       x \<noteq> y \<and> constant_digest (entry_bytes x) = constant_digest (entry_bytes y))"
proof -
  obtain s where s: "appends constant_digest example_events (open_spool example_descriptor) = Some s"
    using example_appends_constant by blast
  have events: "example_events = butlast example_events @ [example_event 1 ''eof'' 2 []]"
    by (simp add: example_events_def)
  have s': "appends constant_digest (butlast example_events @ [example_event 1 ''eof'' 2 []]) (open_spool example_descriptor) = Some s"
    using s by (simp only: events [symmetric])
  obtain t where t: "appends constant_digest (butlast example_events) (open_spool example_descriptor) = Some t"
    and last: "previous_event_sha256 s = Some (event_digest constant_digest t (example_event 1 ''eof'' 2 []))"
    using s' unfolding appends_snoc by (auto simp: count_event_def Let_def)
  have "event_digest constant_digest u e = hexdigest 0" for u e
    by (simp add: event_digest_def sha256_text_def constant_digest_def)
  then have same: "previous_event_sha256 s = previous_event_sha256 t"
    using t unfolding last
    by (auto simp: example_events_def appends_def try_append_def append_def example_event_def count_event_def Let_def
        split: option.splits)
  have good: "list_all (observable []) example_events" "distinct (map observed_sequence example_events)"
    "list_all (observable []) (butlast example_events)" "distinct (map observed_sequence (butlast example_events))"
    by (simp_all add: example_events_def example_event_def observable_def)
  have n: "length (timeline_entries read_line (timeline_file s)) = 2" "length (timeline_entries read_line (timeline_file t)) = 1"
    using appends_lines [OF s] appends_lines [OF t] by (simp_all add: timeline_entries_def example_events_def)
  then have "timeline_entries read_line (timeline_file s) \<noteq> timeline_entries read_line (timeline_file t)" by auto
  with timeline_tamper_evident [OF read_line.inspect_timeline_appends [OF s good(1,2), THEN conjunct1] _
      read_line.inspect_timeline_appends [OF t good(3,4), THEN conjunct1]] same n s t
  show ?thesis by (simp add: inspected_def)
qed

theorem captured_prefix_witness:
  "\<exists>k t. k \<le> 2 \<and> appends toy_digest (take k example_events) (open_spool example_descriptor) = Some t \<and>
     prefix (raw_files (write_events toy_digest
       [(NoFault, hd example_events), (TimelineFault 3 ''OSError: disk full'', example_events ! 1)]
       (open_spool example_descriptor)) ClientToDevice) [27, 64]"
proof -
  let ?fes = "[(NoFault, hd example_events), (TimelineFault 3 ''OSError: disk full'', example_events ! 1)]"
  have es: "map snd ?fes = example_events" by (simp add: example_events_def)
  have "numbered (map snd ?fes)" by (simp add: es numbered_def example_events_def example_event_def)
  from captured_prefix [OF this, of toy_digest example_descriptor] obtain k t where
    "k \<le> length ?fes" "appends toy_digest (take k (map snd ?fes)) (open_spool example_descriptor) = Some t"
    "prefix (raw_files (write_events toy_digest ?fes (open_spool example_descriptor)) ClientToDevice)
      (stream ClientToDevice (map snd ?fes))"
    unfolding Let_def by blast
  moreover have "stream ClientToDevice example_events = [27, 64]"
    by (simp add: stream_def example_events_def example_event_def)
  ultimately show ?thesis unfolding es by (intro exI [of _ k] exI [of _ t]) simp
qed

end
