(* ===== verification/Capture.thy ===== *)
theory Capture imports Spool begin

text \<open>
  \<^verbatim>\<open>proxy/spool.py\<close>, the concurrent part: \<^verbatim>\<open>CaptureSession\<close> objects submit events to the bounded queue
  of the \<^verbatim>\<open>CaptureManager\<close>, one writer thread consumes it, failures come back as callbacks on the
  event loop. Each operation is a function on the shared state; the interleavings are the step
  relation \<open>capture_step\<close>. The main result connects the two ends: a capture published as complete
  holds exactly what the session recorded.
\<close>

section \<open>State\<close>

record capture_session =
  session_descriptor :: session_descriptor
  attached :: bool
  accepting :: bool
  session_sequence :: int
  session_errors :: "string list"
  dropped_chunks :: int
  dropped_bytes :: int

datatype command =
    OpenCommand session_descriptor
  | EventCommand string capture_event
  | CloseCommand string close_summary "string list" int int
  | StopCommand

text \<open>
  The manager, with the session objects the relay holds (\<open>objects\<close>), those the manager knows
  (\<open>registered\<close>), the close requests waiting for room in the queue, and the results of the close
  futures. \<open>attempts\<close> and \<open>queued\<close> are ghosts: every event given to \<^verbatim>\<open>record\<close>, and those it accepted.
\<close>

record system =
  command_queue :: "command list"
  capacity :: nat
  running :: bool
  worker_alive :: bool
  objects :: "string \<rightharpoonup> capture_session"
  registered :: "string set"
  writers :: "string \<rightharpoonup> spool"
  callbacks :: "(string \<times> string) list"
  waiting_closes :: "command list"
  closing :: "string set"
  outcomes :: "(string \<times> (capture_error + published)) list"
  attempts :: "string \<Rightarrow> capture_event list"
  queued :: "string \<Rightarrow> capture_event list"

definition started :: "nat \<Rightarrow> system" where
  "started n = \<lparr>command_queue = [], capacity = n, running = True, worker_alive = True, objects = Map.empty,
     registered = {}, writers = Map.empty, callbacks = [], waiting_closes = [], closing = {}, outcomes = [],
     attempts = (\<lambda>_. []), queued = (\<lambda>_. [])\<rparr>"

section \<open>Sessions\<close>

definition mark_failure :: "string \<Rightarrow> capture_session \<Rightarrow> capture_session" where
  "mark_failure err s = (let normalized = take 1000 err in
     s\<lparr>session_errors := (if normalized \<in> set (session_errors s) then session_errors s
         else session_errors s @ [normalized]), accepting := False\<rparr>)"

definition failed :: "capture_session \<Rightarrow> bool" where
  "failed s \<longleftrightarrow> session_errors s \<noteq> []"

definition failure_message :: "capture_session \<Rightarrow> string" where
  "failure_message s = (if failed s then last (session_errors s) else ''capture failed'')"

definition new_session :: "bool \<Rightarrow> session_descriptor \<Rightarrow> string option \<Rightarrow> capture_session" where
  "new_session has_manager d initial_error =
     (let s = \<lparr>session_descriptor = d, attached = has_manager,
        accepting = (has_manager \<and> initial_error = None), session_sequence = 0, session_errors = [],
        dropped_chunks = 0, dropped_bytes = 0\<rparr>
      in case initial_error of None \<Rightarrow> s | Some err \<Rightarrow> mark_failure err s)"

definition drop_payload :: "bytes \<Rightarrow> capture_session \<Rightarrow> capture_session" where
  "drop_payload b s = (if b = [] then s
     else s\<lparr>dropped_chunks := dropped_chunks s + 1, dropped_bytes := dropped_bytes s + int (length b)\<rparr>)"

text \<open>\<^verbatim>\<open>queue.put_nowait\<close> and \<^verbatim>\<open>_put_event\<close>: \<open>None\<close> is \<^verbatim>\<open>queue.Full\<close>.\<close>

definition put_nowait :: "command \<Rightarrow> system \<Rightarrow> system option" where
  "put_nowait c m = (if capacity m \<le> length (command_queue m) then None
     else Some (m\<lparr>command_queue := command_queue m @ [c]\<rparr>))"

definition put_event :: "command \<Rightarrow> system \<Rightarrow> system option" where
  "put_event c m = (if running m then put_nowait c m else None)"

text \<open>
  \<^verbatim>\<open>CaptureSession.record\<close>: \<open>e\<close> carries the arguments of the call, its sequence number is assigned
  here, and its observation number when the caller gives none.
\<close>

definition record_event ::
    "int option \<Rightarrow> capture_event \<Rightarrow> capture_session \<Rightarrow> system \<Rightarrow> bool \<times> capture_session \<times> system" where
  "record_event observed e s m =
     (if \<not> accepting s \<or> \<not> attached s then (False, drop_payload (ev_payload e) s, m)
      else let event = e\<lparr>ev_sequence := session_sequence s,
             observed_sequence := (case observed of None \<Rightarrow> session_sequence s | Some n \<Rightarrow> n)\<rparr>
        in (case put_event (EventCommand (session_id (session_descriptor s)) event) m of
              None \<Rightarrow> (False, mark_failure ''bounded capture queue is full''
                ((drop_payload (ev_payload e) s)\<lparr>accepting := False\<rparr>), m)
            | Some m' \<Rightarrow> (True, s\<lparr>session_sequence := session_sequence s + 1\<rparr>, m')))"

section \<open>The manager\<close>

datatype open_error = NotRunning | DuplicateSession string | QueueFull

definition open_session_nowait ::
    "session_descriptor \<Rightarrow> system \<Rightarrow> (open_error + capture_session) \<times> system" where
  "open_session_nowait d m =
     (if \<not> running m then (Inl NotRunning, m)
      else if session_id d \<in> registered m then (Inl (DuplicateSession (session_id d)), m)
      else (case put_nowait (OpenCommand d) m of
          None \<Rightarrow> (Inl QueueFull, m)
        | Some m' \<Rightarrow> (let s = new_session True d None
            in (Inr s, m'\<lparr>registered := insert (session_id d) (registered m'),
              objects := (objects m')(session_id d \<mapsto> s)\<rparr>))))"

definition disabled_session :: "session_descriptor \<Rightarrow> string \<Rightarrow> capture_session" where
  "disabled_session d err = new_session False d (Some err)"

text \<open>\<^verbatim>\<open>CaptureSession.finalize\<close>: the close command with the errors and losses known at the call.\<close>

definition close_command :: "capture_session \<Rightarrow> close_summary \<Rightarrow> command option" where
  "close_command s summary = (if \<not> attached s then None
     else Some (CloseCommand (session_id (session_descriptor s)) summary (session_errors s)
       (dropped_chunks s) (dropped_bytes s)))"

definition notify_failure :: "string \<Rightarrow> string \<Rightarrow> system \<Rightarrow> system" where
  "notify_failure i err m = (if i \<in> registered m
     then m\<lparr>objects := (objects m)(i := map_option (mark_failure err) (objects m i))\<rparr> else m)"

section \<open>The writer thread\<close>

text \<open>How the disk behaves under one command.\<close>

record disk =
  open_failure :: "string option"
  write_failure :: write_fault
  close_failure :: "string option"
  existing_path :: "string option"

definition threadsafe_failure :: "string \<Rightarrow> string \<Rightarrow> system \<Rightarrow> system" where
  "threadsafe_failure i err m = m\<lparr>callbacks := callbacks m @ [(i, err)]\<rparr>"

definition process :: "(bytes \<Rightarrow> digest) \<Rightarrow> disk \<Rightarrow> command \<Rightarrow> system \<Rightarrow> system" where
  "process sha256 disk c m = (case c of
      OpenCommand d \<Rightarrow> (case open_failure disk of
          Some t \<Rightarrow> threadsafe_failure (session_id d) (''capture open failed: '' @ t) m
        | None \<Rightarrow> m\<lparr>writers := (writers m)(session_id d \<mapsto> open_spool d)\<rparr>)
    | EventCommand i e \<Rightarrow> (case writers m i of
          None \<Rightarrow> threadsafe_failure i ''capture writer is unavailable'' m
        | Some w \<Rightarrow> (case write_event sha256 (write_failure disk) e w of
              (None, w') \<Rightarrow> m\<lparr>writers := (writers m)(i \<mapsto> w')\<rparr>
            | (Some message, w') \<Rightarrow> threadsafe_failure i message (m\<lparr>writers := (writers m)(i \<mapsto> w')\<rparr>)))
    | CloseCommand i summary errs chunks octets \<Rightarrow> (case writers m i of
          None \<Rightarrow> m\<lparr>outcomes := outcomes m @ [(i, Inl WriterUnavailable)]\<rparr>
        | Some w \<Rightarrow> m\<lparr>writers := (writers m)(i := None),
            outcomes := outcomes m @ [(i, finalize sha256 (close_failure disk) (existing_path disk)
              summary errs chunks octets w)]\<rparr>)
    | StopCommand \<Rightarrow> m\<lparr>writers := Map.empty, worker_alive := False\<rparr>)"

definition work :: "(bytes \<Rightarrow> digest) \<Rightarrow> disk \<Rightarrow> system \<Rightarrow> system option" where
  "work sha256 disk m = (if \<not> worker_alive m then None
     else case command_queue m of [] \<Rightarrow> None
       | c # q \<Rightarrow> Some (process sha256 disk c (m\<lparr>command_queue := q\<rparr>)))"

section \<open>Interleavings\<close>

text \<open>
  The steps of the process. Session identifiers are fresh UUIDs, and the relay calls \<^verbatim>\<open>record\<close> only
  until it calls \<^verbatim>\<open>finalize\<close>, once. A close or stop command enters the queue when it has room
  (\<^verbatim>\<open>_put_control\<close> waits for it, at most ten seconds), and the manager forgets a session when its
  close returns or times out.
\<close>

inductive capture_step :: "(bytes \<Rightarrow> digest) \<Rightarrow> system \<Rightarrow> system \<Rightarrow> bool" for sha256 where
  step_open: "objects m (session_id d) = None \<Longrightarrow> capture_step sha256 m (snd (open_session_nowait d m))"
| step_record: "objects m i = Some s \<Longrightarrow> i \<notin> closing m \<Longrightarrow> record_event observed e s m = (r, s', m') \<Longrightarrow>
    capture_step sha256 m (m'\<lparr>objects := (objects m')(i \<mapsto> s'), attempts := (attempts m')(i := attempts m' i @ [e]),
      queued := (if r then (queued m')(i := queued m' i @ [e\<lparr>ev_sequence := session_sequence s,
        observed_sequence := (case observed of None \<Rightarrow> session_sequence s | Some n \<Rightarrow> n)\<rparr>]) else queued m')\<rparr>)"
| step_finalize: "objects m i = Some s \<Longrightarrow> i \<notin> closing m \<Longrightarrow> close_command s summary = Some c \<Longrightarrow>
    capture_step sha256 m (m\<lparr>closing := insert i (closing m), waiting_closes := waiting_closes m @ [c]\<rparr>)"
| step_put_close: "c \<in> set (waiting_closes m) \<Longrightarrow> put_nowait c m = Some m' \<Longrightarrow>
    capture_step sha256 m (m'\<lparr>waiting_closes := remove1 c (waiting_closes m')\<rparr>)"
| step_close_timeout: "c \<in> set (waiting_closes m) \<Longrightarrow>
    capture_step sha256 m (m\<lparr>waiting_closes := remove1 c (waiting_closes m)\<rparr>)"
| step_forget: "i \<in> closing m \<Longrightarrow> capture_step sha256 m (m\<lparr>registered := registered m - {i}\<rparr>)"
| step_stop: "put_nowait StopCommand m = Some m' \<Longrightarrow> capture_step sha256 m m'"
| step_stopped: "\<not> worker_alive m \<Longrightarrow> capture_step sha256 m (m\<lparr>running := False, registered := {}\<rparr>)"
| step_work: "work sha256 disk m = Some m' \<Longrightarrow> capture_step sha256 m m'"
| step_notify: "callbacks m = (i, err) # cs \<Longrightarrow> capture_step sha256 m (notify_failure i err (m\<lparr>callbacks := cs\<rparr>))"

inductive reachable :: "(bytes \<Rightarrow> digest) \<Rightarrow> system \<Rightarrow> bool" for sha256 where
  reachable_start: "reachable sha256 (started n)"
| reachable_step: "reachable sha256 m \<Longrightarrow> capture_step sha256 m m' \<Longrightarrow> reachable sha256 m'"

inductive_cases capture_stepE: "capture_step sha256 m m'"

section \<open>What one session sees\<close>

text \<open>The commands of one session, in the order the writer will meet them.\<close>

definition concerns :: "string \<Rightarrow> command \<Rightarrow> bool" where
  "concerns i c = (case c of OpenCommand d \<Rightarrow> session_id d = i | EventCommand j _ \<Rightarrow> j = i
     | CloseCommand j _ _ _ _ \<Rightarrow> j = i | StopCommand \<Rightarrow> False)"

fun is_close_command :: "command \<Rightarrow> bool" where
  "is_close_command (CloseCommand _ _ _ _ _) = True"
| "is_close_command _ = False"

definition pipeline :: "string \<Rightarrow> system \<Rightarrow> command list" where
  "pipeline i m = filter (concerns i) (command_queue m @ waiting_closes m)"

definition results :: "string \<Rightarrow> system \<Rightarrow> (capture_error + published) list" where
  "results i m = map snd (filter (\<lambda>p. fst p = i) (outcomes m))"

text \<open>Events up to the numbers the session assigns.\<close>

definition content :: "capture_event list \<Rightarrow> capture_event list" where
  "content es = map (\<lambda>e. e\<lparr>ev_sequence := 0, observed_sequence := 0\<rparr>) es"

text \<open>A job published as complete holds exactly the recorded events.\<close>

definition exact :: "published \<Rightarrow> capture_event list \<Rightarrow> bool" where
  "exact p es \<longleftrightarrow> get (pub_manifest p) ''status'' = JStr ''COMPLETE'' \<longrightarrow>
     map_of (pub_files p) ''client.raw'' = Some (stream ClientToDevice es) \<and>
     map_of (pub_files p) ''device.raw'' = Some (stream DeviceToClient es) \<and>
     get (pub_manifest p) ''timeline_events'' = JInt (int (length es))"

definition close_ok :: "string \<Rightarrow> capture_event list \<Rightarrow> capture_event list \<Rightarrow> command \<Rightarrow> bool" where
  "close_ok i tried taken c \<longleftrightarrow> (\<exists>summary errs chunks octets. c = CloseCommand i summary errs chunks octets \<and>
     (errs = [] \<longrightarrow> content tried = content taken))"

text \<open>
  The pipeline of a session: its open command if the writer has not met it, the events not yet
  written, its close command if requested. An open writer has written the events before those.
\<close>

definition flows ::
    "(bytes \<Rightarrow> digest) \<Rightarrow> string \<Rightarrow> command list \<Rightarrow> spool option \<Rightarrow> bool \<Rightarrow> capture_event list \<Rightarrow> capture_event list \<Rightarrow> bool" where
  "flows sha256 i cs w cl tried taken \<longleftrightarrow> (\<exists>pre es post. cs = pre @ map (EventCommand i) es @ post \<and>
     (pre = [] \<or> (\<exists>d. pre = [OpenCommand d] \<and> w = None \<and> es = taken)) \<and>
     (\<forall>s. w = Some s \<longrightarrow> (\<exists>fes d. s = write_events sha256 fes (open_spool d) \<and> map snd fes @ es = taken)) \<and>
     (post = [] \<or> (\<exists>c. post = [c] \<and> cl \<and> close_ok i tried taken c)))"

definition session_ok ::
    "(bytes \<Rightarrow> digest) \<Rightarrow> string \<Rightarrow> command list \<Rightarrow> spool option \<Rightarrow> capture_session option \<Rightarrow> bool
     \<Rightarrow> capture_event list \<Rightarrow> capture_event list \<Rightarrow> (capture_error + published) list \<Rightarrow> bool" where
  "session_ok sha256 i cs w ob cl tried taken outs = (case ob of
      None \<Rightarrow> cs = [] \<and> w = None \<and> \<not> cl \<and> tried = [] \<and> taken = [] \<and> outs = []
    | Some s \<Rightarrow> session_id (session_descriptor s) = i \<and> numbered taken \<and> session_sequence s = int (length taken) \<and>
        (session_errors s = [] \<longrightarrow> accepting s \<and> attached s \<and> content tried = content taken) \<and>
        flows sha256 i cs w cl tried taken \<and>
        (\<forall>p. Inr p \<in> set outs \<longrightarrow> cl \<and> exact p tried))"

definition system_ok :: "(bytes \<Rightarrow> digest) \<Rightarrow> system \<Rightarrow> bool" where
  "system_ok sha256 m \<longleftrightarrow> list_all is_close_command (waiting_closes m) \<and> length (command_queue m) \<le> capacity m \<and>
     (\<forall>i. session_ok sha256 i (pipeline i m) (writers m i) (objects m i) (i \<in> closing m)
       (attempts m i) (queued m i) (results i m))"

lemma stream_content: "content xs = content ys \<Longrightarrow> stream d xs = stream d ys \<and> length xs = length ys"
proof -
  have "stream d (content zs) = stream d zs" for zs
    by (induction zs) (auto simp: content_def stream_def)
  moreover have "length (content zs) = length zs" for zs by (simp add: content_def)
  ultimately show "content xs = content ys \<Longrightarrow> stream d xs = stream d ys \<and> length xs = length ys" by metis
qed

lemma manifest_fields:
  "get (manifest sha256 summary errs chunks octets w) ''status'' =
    JStr (if transport_complete summary \<and> both_equal (observed_bytes summary) (captured_bytes w) \<and>
      both_equal (observed_chunks summary) (captured_chunks w) \<and>
      spool_errors w @ errs @ transport_errors summary = [] \<and> chunks = 0 then ''COMPLETE'' else ''PARTIAL'')"
  "get (manifest sha256 summary errs chunks octets w) ''timeline_events'' = JInt (timeline_events w)"
  by (simp_all add: manifest_def get_def Let_def)

lemma job_files_raw:
  "map_of (job_files w @ others) ''client.raw'' = Some (raw_files w ClientToDevice)"
  "map_of (job_files w @ others) ''device.raw'' = Some (raw_files w DeviceToClient)"
  by (simp_all add: job_files_def)

text \<open>Publication at the end of the pipeline.\<close>

lemma finalize_exact:
  assumes run: "w = write_events sha256 fes (open_spool d)" and num: "numbered (map snd fes)"
    and same: "errs = [] \<longrightarrow> content tried = content (map snd fes)"
    and out: "finalize sha256 io existing summary errs chunks octets w = Inr p"
  shows "exact p tried"
proof -
  obtain others where p: "pub_manifest p = manifest sha256 summary errs chunks octets w"
    "pub_files p = job_files w @ others"
    using out by (auto simp: finalize_def Let_def split: option.splits)
  show ?thesis
  proof (unfold exact_def, intro impI)
    assume "get (pub_manifest p) ''status'' = JStr ''COMPLETE''"
    then have clean: "spool_errors w = []" "errs = []"
      unfolding p manifest_fields by (simp_all split: if_splits)
    obtain k t where ok: "accepted sha256 d (map snd fes) k t w" using accepted_run [OF num] run by blast
    with clean have "w = t" "k = length (map snd fes)" by (auto simp: accepted_def split: if_splits)
    with ok have "holds d (map snd fes) w" by (auto simp: accepted_def intro: appends_holds)
    moreover have "stream x tried = stream x (map snd fes) \<and> length tried = length (map snd fes)" for x
      using same clean(2) by (intro stream_content) simp
    ultimately have "raw_files w = (\<lambda>x. stream x tried)" "timeline_events w = int (length tried)"
      by (simp_all add: holds_def)
    then show "map_of (pub_files p) ''client.raw'' = Some (stream ClientToDevice tried) \<and>
      map_of (pub_files p) ''device.raw'' = Some (stream DeviceToClient tried) \<and>
      get (pub_manifest p) ''timeline_events'' = JInt (int (length tried))"
      by (simp add: p job_files_raw manifest_fields del: map_of_append)
  qed
qed

section \<open>Every step keeps the invariant\<close>

lemma pipe_append [simp]: "pipeline i (m\<lparr>command_queue := q\<rparr>) = filter (concerns i) (q @ waiting_closes m)"
  by (simp add: pipeline_def)

lemma flows_event:
  assumes "flows sha256 i cs w False tried taken"
  shows "flows sha256 i (cs @ [EventCommand i e]) w False tried' (taken @ [e])"
proof -
  from assms obtain pre es where cs: "cs = pre @ map (EventCommand i) es"
    and pre: "pre = [] \<or> (\<exists>d. pre = [OpenCommand d] \<and> w = None \<and> es = taken)"
    and wr: "\<forall>s. w = Some s \<longrightarrow> (\<exists>fes d. s = write_events sha256 fes (open_spool d) \<and> map snd fes @ es = taken)"
    by (auto simp: flows_def)
  have "cs @ [EventCommand i e] = pre @ map (EventCommand i) (es @ [e]) @ []" by (simp add: cs)
  with pre wr show ?thesis unfolding flows_def by (intro exI [of _ pre] exI [of _ "es @ [e]"] exI [of _ "[]"]) auto
qed

lemma flows_rejected:
  "flows sha256 i cs w False tried taken \<Longrightarrow> flows sha256 i cs w False tried' taken"
  by (auto simp: flows_def)

lemma flows_close:
  assumes "flows sha256 i cs w False tried taken" and "close_ok i tried taken c"
  shows "flows sha256 i (cs @ [c]) w True tried taken"
proof -
  from assms(1) obtain pre es where "cs = pre @ map (EventCommand i) es"
    "pre = [] \<or> (\<exists>d. pre = [OpenCommand d] \<and> w = None \<and> es = taken)"
    "\<forall>s. w = Some s \<longrightarrow> (\<exists>fes d. s = write_events sha256 fes (open_spool d) \<and> map snd fes @ es = taken)"
    by (auto simp: flows_def)
  with assms(2) show ?thesis unfolding flows_def
    by (intro exI [of _ pre] exI [of _ es] exI [of _ "[c]"]) auto
qed

text \<open>At most one close command is under way, and it is the last command of the pipeline.\<close>

lemma flows_closes:
  assumes "flows sha256 i (xs @ ys) w cl tried taken" and "list_all is_close_command ys" and "c \<in> set ys"
  shows "ys = [c] \<and> flows sha256 i xs w cl tried taken"
proof -
  from assms(1) obtain pre es post where cs: "xs @ ys = pre @ map (EventCommand i) es @ post"
    and pre: "pre = [] \<or> (\<exists>d. pre = [OpenCommand d] \<and> w = None \<and> es = taken)"
    and post: "post = [] \<or> (\<exists>c. post = [c] \<and> cl \<and> close_ok i tried taken c)"
    and wr: "\<forall>s. w = Some s \<longrightarrow> (\<exists>fes d. s = write_events sha256 fes (open_spool d) \<and> map snd fes @ es = taken)"
    by (auto simp: flows_def)
  have "filter is_close_command (xs @ ys) = post"
    using pre post by (auto simp: cs close_ok_def filter_empty_conv)
  moreover have "filter is_close_command ys = ys" using assms(2) by (simp add: filter_id_conv list_all_iff)
  ultimately have "filter is_close_command xs @ ys = post" by simp
  with assms(3) post have ys: "ys = [c]" "post = [c]" by (auto simp: append_eq_Cons_conv)
  with cs have "xs = pre @ map (EventCommand i) es @ []" by simp
  with pre wr ys show ?thesis unfolding flows_def by blast
qed

text \<open>The writer takes the first command of the pipeline.\<close>

lemma flows_open:
  assumes "flows sha256 i (OpenCommand d # cs) w cl tried taken"
  shows "w = None \<and> flows sha256 i cs None cl tried taken \<and> flows sha256 i cs (Some (open_spool d)) cl tried taken"
proof -
  from assms obtain pre es post where cs: "OpenCommand d # cs = pre @ map (EventCommand i) es @ post"
    and pre: "pre = [] \<or> (\<exists>d. pre = [OpenCommand d] \<and> w = None \<and> es = taken)"
    and post: "post = [] \<or> (\<exists>c. post = [c] \<and> cl \<and> close_ok i tried taken c)"
    by (auto simp: flows_def)
  have "pre \<noteq> []" using cs post by (cases es) (auto simp: close_ok_def)
  with pre cs have r: "w = None" "es = taken" "cs = [] @ map (EventCommand i) es @ post" by auto
  have "open_spool d = write_events sha256 [] (open_spool d)" by (simp add: write_events_def)
  with r post show ?thesis unfolding flows_def
    by (intro conjI exI [of _ "[]"] exI [of _ es] exI [of _ post]) auto
qed

lemma flows_write:
  assumes "flows sha256 i (EventCommand j e # cs) w cl tried taken"
  shows "flows sha256 i cs None cl tried taken"
    and "w = Some s \<Longrightarrow> flows sha256 i cs (Some (snd (write_event sha256 f e s))) cl tried taken"
proof -
  from assms obtain pre es post where cs: "EventCommand j e # cs = pre @ map (EventCommand i) es @ post"
    and pre: "pre = [] \<or> (\<exists>d. pre = [OpenCommand d] \<and> w = None \<and> es = taken)"
    and post: "post = [] \<or> (\<exists>c. post = [c] \<and> cl \<and> close_ok i tried taken c)"
    and wr: "\<forall>s. w = Some s \<longrightarrow> (\<exists>fes d. s = write_events sha256 fes (open_spool d) \<and> map snd fes @ es = taken)"
    by (auto simp: flows_def)
  have "pre = []" using pre cs by auto
  moreover have "es \<noteq> []" using cs post \<open>pre = []\<close> by (auto simp: close_ok_def)
  ultimately obtain es' where es: "es = e # es'" "cs = [] @ map (EventCommand i) es' @ post"
    using cs by (cases es) auto
  show "flows sha256 i cs None cl tried taken"
    unfolding flows_def using es post by (intro exI [of _ "[]"] exI [of _ es'] exI [of _ post]) auto
  assume "w = Some s"
  with wr obtain fes d where "s = write_events sha256 fes (open_spool d)" "map snd fes @ es = taken" by blast
  then have "snd (write_event sha256 f e s) = write_events sha256 (fes @ [(f, e)]) (open_spool d)"
    "map snd (fes @ [(f, e)]) @ es' = taken"
    by (simp_all add: write_events_def es)
  then show "flows sha256 i cs (Some (snd (write_event sha256 f e s))) cl tried taken"
    unfolding flows_def using es post by (intro exI [of _ "[]"] exI [of _ es'] exI [of _ post]) blast
qed

lemma flows_published:
  assumes "flows sha256 i (CloseCommand j summary errs chunks octets # cs) w cl tried taken"
  shows "cl \<and> cs = [] \<and> (errs = [] \<longrightarrow> content tried = content taken) \<and>
    (\<forall>s. w = Some s \<longrightarrow> (\<exists>fes d. s = write_events sha256 fes (open_spool d) \<and> map snd fes = taken))"
proof -
  from assms obtain pre es post where cs: "CloseCommand j summary errs chunks octets # cs = pre @ map (EventCommand i) es @ post"
    and pre: "pre = [] \<or> (\<exists>d. pre = [OpenCommand d] \<and> w = None \<and> es = taken)"
    and post: "post = [] \<or> (\<exists>c. post = [c] \<and> cl \<and> close_ok i tried taken c)"
    and wr: "\<forall>s. w = Some s \<longrightarrow> (\<exists>fes d. s = write_events sha256 fes (open_spool d) \<and> map snd fes @ es = taken)"
    by (auto simp: flows_def)
  have "pre = []" "es = []" using pre cs by (cases es; auto)+
  with cs post wr show ?thesis by (auto simp: close_ok_def)
qed

lemma system_okI:
  assumes "list_all is_close_command (waiting_closes m)" and "length (command_queue m) \<le> capacity m"
    and "\<And>i. session_ok sha256 i (pipeline i m) (writers m i) (objects m i) (i \<in> closing m)
      (attempts m i) (queued m i) (results i m)"
  shows "system_ok sha256 m"
  using assms by (simp add: system_ok_def)

lemma system_okD:
  assumes "system_ok sha256 m"
  shows "list_all is_close_command (waiting_closes m)" and "length (command_queue m) \<le> capacity m"
    and "session_ok sha256 i (pipeline i m) (writers m i) (objects m i) (i \<in> closing m)
      (attempts m i) (queued m i) (results i m)"
  using assms by (simp_all add: system_ok_def)

lemmas put_defs = put_nowait_def put_event_def

lemma session_ok_new:
  "session_id d = i \<Longrightarrow> flows sha256 i [OpenCommand d] None False [] [] \<Longrightarrow>
    session_ok sha256 i [OpenCommand d] None (Some (new_session True d None)) False [] [] []"
  by (simp add: session_ok_def new_session_def numbered_def)

lemma open_ok:
  assumes ok: "system_ok sha256 m" and fresh: "objects m (session_id d) = None"
  shows "system_ok sha256 (snd (open_session_nowait d m))"
proof (cases "running m \<and> session_id d \<notin> registered m \<and> length (command_queue m) < capacity m")
  case True
  let ?m = "snd (open_session_nowait d m)" and ?j = "session_id d"
  have m: "?m = m\<lparr>command_queue := command_queue m @ [OpenCommand d], registered := insert ?j (registered m),
      objects := (objects m)(?j \<mapsto> new_session True d None)\<rparr>"
    using True by (simp add: open_session_nowait_def put_defs Let_def)
  show ?thesis
  proof (rule system_okI)
    fix i
    note old = system_okD(3) [OF ok, of i]
    show "session_ok sha256 i (pipeline i ?m) (writers ?m i) (objects ?m i) (i \<in> closing ?m)
      (attempts ?m i) (queued ?m i) (results i ?m)"
    proof (cases "i = ?j")
      case False
      then have "pipeline i ?m = pipeline i m" by (simp add: m pipeline_def concerns_def)
      with old False show ?thesis by (simp add: m results_def)
    next
      case True
      with old fresh have none: "pipeline i m = []" "writers m i = None" "i \<notin> closing m" "attempts m i = []"
        "queued m i = []" "results i m = []"
        by (simp_all add: session_ok_def)
      then have "pipeline i ?m = [OpenCommand d]" using True by (simp add: m pipeline_def concerns_def)
      moreover have "flows sha256 i [OpenCommand d] None False [] []"
        unfolding flows_def by (intro exI [of _ "[OpenCommand d]"] exI [of _ "[]"] conjI) auto
      moreover have "results i ?m = results i m" by (simp add: m results_def)
      ultimately show ?thesis using session_ok_new [of d i sha256] none True by (simp add: m)
    qed
  qed (use system_okD(1,2) [OF ok] True in \<open>simp_all add: m\<close>)
next
  case False
  then have "snd (open_session_nowait d m) = m"
    by (auto simp: open_session_nowait_def put_defs)
  with ok show ?thesis by simp
qed

lemma flows_unclosed: "flows sha256 i cs w False tried taken \<Longrightarrow> c \<in> set cs \<Longrightarrow> \<not> is_close_command c"
  by (auto simp: flows_def)

lemma pipeline_unclosed:
  assumes "system_ok sha256 m" and "flows sha256 i (pipeline i m) w False tried taken"
  shows "filter (concerns i) (waiting_closes m) = []"
  using flows_unclosed [OF assms(2)] system_okD(1) [OF assms(1)]
  by (auto simp: pipeline_def filter_empty_conv list_all_iff)

text \<open>What \<^verbatim>\<open>record\<close> can do.\<close>

lemma record_cases:
  assumes "record_event observed e s m = (r, s', m')"
  obtains (taken) "r" "m' = m\<lparr>command_queue := command_queue m @ [EventCommand (session_id (session_descriptor s))
      (e\<lparr>ev_sequence := session_sequence s, observed_sequence := (case observed of None \<Rightarrow> session_sequence s | Some n \<Rightarrow> n)\<rparr>)]\<rparr>"
      "s' = s\<lparr>session_sequence := session_sequence s + 1\<rparr>" "length (command_queue m) < capacity m"
  | (dropped) "\<not> r" "m' = m" "session_errors s' \<noteq> [] \<or> \<not> accepting s \<or> \<not> attached s" "session_errors s = [] \<or> session_errors s' \<noteq> []"
      "session_descriptor s' = session_descriptor s" "session_sequence s' = session_sequence s"
  using assms that
  by (cases "session_errors s"; auto simp: record_event_def put_defs drop_payload_def mark_failure_def Let_def split: if_splits)

lemma content_append [simp]: "content (xs @ ys) = content xs @ content ys"
  by (simp add: content_def)

lemma content_renumbered [simp]: "content [e\<lparr>ev_sequence := a, observed_sequence := b\<rparr>] = content [e]"
  by (simp add: content_def)

lemma record_ok:
  assumes ok: "system_ok sha256 m" and s: "objects m j = Some s" and unclosed: "j \<notin> closing m"
    and rec: "record_event observed e s m = (r, s', m')"
  shows "system_ok sha256 (m'\<lparr>objects := (objects m')(j \<mapsto> s'), attempts := (attempts m')(j := attempts m' j @ [e]),
      queued := (if r then (queued m')(j := queued m' j @ [e\<lparr>ev_sequence := session_sequence s,
        observed_sequence := (case observed of None \<Rightarrow> session_sequence s | Some n \<Rightarrow> n)\<rparr>]) else queued m')\<rparr>)"
    (is "system_ok _ ?m")
proof -
  note old = system_okD(3) [OF ok]
  from old [of j] s unclosed have id: "session_id (session_descriptor s) = j"
    and fl: "flows sha256 j (pipeline j m) (writers m j) False (attempts m j) (queued m j)"
    and num: "numbered (queued m j)" "session_sequence s = int (length (queued m j))"
    and clean: "session_errors s = [] \<longrightarrow> accepting s \<and> attached s \<and> content (attempts m j) = content (queued m j)"
    and none: "\<forall>p. Inr p \<notin> set (results j m)"
    by (auto simp: session_ok_def)
  note idle = pipeline_unclosed [OF ok fl]
  show ?thesis
  proof (rule system_okI)
    fix i
    show "session_ok sha256 i (pipeline i ?m) (writers ?m i) (objects ?m i) (i \<in> closing ?m)
      (attempts ?m i) (queued ?m i) (results i ?m)"
    proof (cases "i = j")
      case False
      from rec have "pipeline i ?m = pipeline i m"
        by (cases rule: record_cases) (use False id in \<open>auto simp: pipeline_def concerns_def\<close>)
      moreover from rec have "writers m' = writers m" "objects m' = objects m" "closing m' = closing m"
        "attempts m' = attempts m" "queued m' = queued m" "outcomes m' = outcomes m"
        by (cases rule: record_cases; simp)+
      ultimately show ?thesis using old [of i] False by (simp add: results_def)
    next
      case True
      from rec show ?thesis
      proof (cases rule: record_cases)
        case taken
        let ?e = "e\<lparr>ev_sequence := session_sequence s,
          observed_sequence := (case observed of None \<Rightarrow> session_sequence s | Some n \<Rightarrow> n)\<rparr>"
        have "pipeline j ?m = pipeline j m @ [EventCommand j ?e]"
          using idle by (simp add: taken pipeline_def concerns_def id)
        moreover have "numbered (queued m j @ [?e])" using num by (simp add: numbered_snoc)
        ultimately show ?thesis
          using True id num clean none s unclosed taken(1) flows_event [OF fl, of ?e]
          by (simp add: taken session_ok_def results_def)
      next
        case dropped
        then have "pipeline j ?m = pipeline j m" by (simp add: pipeline_def)
        moreover have "session_errors s' \<noteq> []" using dropped clean by auto
        ultimately show ?thesis
          using True id num none dropped unclosed flows_rejected [OF fl]
          by (simp add: session_ok_def results_def)
      qed
    qed
  next
    from rec show "length (command_queue ?m) \<le> capacity ?m"
      by (cases rule: record_cases) (use system_okD(2) [OF ok] in auto)
    from rec show "list_all is_close_command (waiting_closes ?m)"
      by (cases rule: record_cases) (use system_okD(1) [OF ok] in auto)
  qed
qed

lemma finalize_ok:
  assumes ok: "system_ok sha256 m" and s: "objects m j = Some s" and unclosed: "j \<notin> closing m"
    and c: "close_command s summary = Some c"
  shows "system_ok sha256 (m\<lparr>closing := insert j (closing m), waiting_closes := waiting_closes m @ [c]\<rparr>)"
    (is "system_ok _ ?m")
proof -
  note old = system_okD(3) [OF ok]
  from old [of j] s unclosed have id: "session_id (session_descriptor s) = j"
    and fl: "flows sha256 j (pipeline j m) (writers m j) False (attempts m j) (queued m j)"
    and clean: "session_errors s = [] \<longrightarrow> content (attempts m j) = content (queued m j)"
    by (auto simp: session_ok_def)
  have c': "c = CloseCommand j summary (session_errors s) (dropped_chunks s) (dropped_bytes s)"
    using c id by (simp add: close_command_def split: if_splits)
  show ?thesis
  proof (rule system_okI)
    fix i
    have "pipeline i ?m = pipeline i m @ (if i = j then [c] else [])"
      by (simp add: pipeline_def c' concerns_def)
    moreover have "close_ok j (attempts m j) (queued m j) c" using clean by (simp add: c' close_ok_def)
    from flows_close [OF fl this] have
      "flows sha256 j (pipeline j m @ [c]) (writers m j) True (attempts m j) (queued m j)" .
    ultimately show "session_ok sha256 i (pipeline i ?m) (writers ?m i) (objects ?m i) (i \<in> closing ?m)
      (attempts ?m i) (queued ?m i) (results i ?m)"
      using old [of i] s by (cases "i = j") (simp_all add: session_ok_def results_def split: option.splits)
  qed (use system_okD(1,2) [OF ok] in \<open>simp_all add: c'\<close>)
qed

text \<open>Frame: what the invariant of a session reads.\<close>

lemma session_ok_flows:
  assumes "session_ok sha256 i cs w ob cl tried taken outs" and "cs = [] \<Longrightarrow> cs' = []"
    and "flows sha256 i cs w cl tried taken \<Longrightarrow> flows sha256 i cs' w cl tried taken"
  shows "session_ok sha256 i cs' w ob cl tried taken outs"
  using assms by (auto simp: session_ok_def split: option.splits)

lemma flows_some:
  assumes "session_ok sha256 i cs w ob cl tried taken outs"
  shows "flows sha256 i cs w cl tried taken"
  using assms by (auto simp: session_ok_def flows_def split: option.splits)

lemma concerned_close: "is_close_command c \<Longrightarrow> concerns i c \<Longrightarrow> concerns j c \<longleftrightarrow> i = j"
  by (cases c) (auto simp: concerns_def)

lemma waiting_close:
  assumes ok: "system_ok sha256 m" and c: "c \<in> set (waiting_closes m)" "concerns i c"
  shows "filter (concerns i) (waiting_closes m) = [c] \<and> filter (concerns i) (remove1 c (waiting_closes m)) = [] \<and>
    flows sha256 i (filter (concerns i) (command_queue m)) (writers m i) (i \<in> closing m) (attempts m i) (queued m i)"
proof -
  have "flows sha256 i (filter (concerns i) (command_queue m) @ filter (concerns i) (waiting_closes m))
      (writers m i) (i \<in> closing m) (attempts m i) (queued m i)"
    using flows_some [OF system_okD(3) [OF ok]] by (simp add: pipeline_def)
  from flows_closes [OF this, of c] c system_okD(1) [OF ok] have
    "filter (concerns i) (waiting_closes m) = [c]" and
    fl: "flows sha256 i (filter (concerns i) (command_queue m)) (writers m i) (i \<in> closing m) (attempts m i) (queued m i)"
    by (auto simp: list_all_iff)
  moreover from this(1) have "filter (concerns i) (remove1 c (waiting_closes m)) = []"
    by (simp add: filter_remove1)
  ultimately show ?thesis by simp
qed

lemma put_close_ok:
  assumes ok: "system_ok sha256 m" and c: "c \<in> set (waiting_closes m)" and put: "put_nowait c m = Some m'"
  shows "system_ok sha256 (m'\<lparr>waiting_closes := remove1 c (waiting_closes m')\<rparr>)" (is "system_ok _ ?m")
proof (rule system_okI)
  have m': "m' = m\<lparr>command_queue := command_queue m @ [c]\<rparr>" "length (command_queue m) < capacity m"
    using put by (auto simp: put_nowait_def split: if_splits)
  fix i
  have "pipeline i ?m = pipeline i m"
  proof (cases "concerns i c")
    case True
    with waiting_close [OF ok c True] show ?thesis by (simp add: m' pipeline_def)
  next
    case False
    then have "filter (concerns i) (remove1 c (waiting_closes m)) = filter (concerns i) (waiting_closes m)"
      by (simp add: filter_remove1 remove1_idem)
    with False show ?thesis by (simp add: m' pipeline_def)
  qed
  with system_okD(3) [OF ok, of i] show "session_ok sha256 i (pipeline i ?m) (writers ?m i) (objects ?m i)
      (i \<in> closing ?m) (attempts ?m i) (queued ?m i) (results i ?m)"
    by (simp add: m' results_def)
  show "list_all is_close_command (waiting_closes ?m)" "length (command_queue ?m) \<le> capacity ?m"
    using system_okD(1) [OF ok] m' by (auto simp: list_all_iff dest: notin_set_remove1)
qed

lemma timeout_ok:
  assumes ok: "system_ok sha256 m" and c: "c \<in> set (waiting_closes m)"
  shows "system_ok sha256 (m\<lparr>waiting_closes := remove1 c (waiting_closes m)\<rparr>)" (is "system_ok _ ?m")
proof (rule system_okI)
  fix i
  have "session_ok sha256 i (pipeline i ?m) (writers m i) (objects m i) (i \<in> closing m)
    (attempts m i) (queued m i) (results i m)"
  proof (cases "concerns i c")
    case True
    note w = waiting_close [OF ok c True]
    then show ?thesis
      by (intro session_ok_flows [OF system_okD(3) [OF ok]]) (simp_all add: pipeline_def)
  next
    case False
    then have "filter (concerns i) (remove1 c (waiting_closes m)) = filter (concerns i) (waiting_closes m)"
      by (simp add: filter_remove1 remove1_idem)
    then show ?thesis using system_okD(3) [OF ok, of i] by (simp add: pipeline_def)
  qed
  then show "session_ok sha256 i (pipeline i ?m) (writers ?m i) (objects ?m i) (i \<in> closing ?m)
      (attempts ?m i) (queued ?m i) (results i ?m)"
    by (simp add: results_def)
  show "list_all is_close_command (waiting_closes ?m)" "length (command_queue ?m) \<le> capacity ?m"
    using system_okD(1,2) [OF ok] by (auto simp: list_all_iff dest: notin_set_remove1)
qed

lemma process_fields:
  "command_queue (process sha256 disk c m) = command_queue m"
  "capacity (process sha256 disk c m) = capacity m"
  "waiting_closes (process sha256 disk c m) = waiting_closes m"
  "objects (process sha256 disk c m) = objects m" "closing (process sha256 disk c m) = closing m"
  "attempts (process sha256 disk c m) = attempts m" "queued (process sha256 disk c m) = queued m"
  by (auto simp: process_def threadsafe_failure_def split: command.splits option.splits prod.splits)

text \<open>The writer leaves the sessions a command does not concern alone, unless it stops.\<close>

lemma process_other:
  assumes "\<not> concerns i c" and "c \<noteq> StopCommand"
  shows "writers (process sha256 disk c m) i = writers m i" and "results i (process sha256 disk c m) = results i m"
  using assms by (auto simp: process_def concerns_def threadsafe_failure_def results_def
    split: command.splits option.splits prod.splits)

lemma session_ok_writer:
  assumes "session_ok sha256 i (c # cs) w ob cl tried taken outs"
    and "flows sha256 i (c # cs) w cl tried taken \<Longrightarrow> flows sha256 i cs' w' cl tried taken"
  shows "session_ok sha256 i cs' w' ob cl tried taken outs"
  using assms by (auto simp: session_ok_def split: option.splits)

lemma flows_no_writer: "flows sha256 i cs w cl tried taken \<Longrightarrow> flows sha256 i cs None cl tried taken"
  unfolding flows_def by fast

lemma stop_ok:
  assumes "session_ok sha256 i cs w ob cl tried taken outs"
  shows "session_ok sha256 i cs None ob cl tried taken outs"
  using assms flows_no_writer by (fastforce simp: session_ok_def split: option.splits)

text \<open>The command the writer takes, seen from its own session.\<close>

lemma process_own:
  assumes ok: "session_ok sha256 i (c # cs) (writers m i) ob cl tried taken (results i m)"
    and c: "concerns i c"
  shows "session_ok sha256 i cs (writers (process sha256 disk c m) i) ob cl tried taken
    (results i (process sha256 disk c m))"
proof (cases c)
  case (OpenCommand d)
  with c have i: "session_id d = i" by (simp add: concerns_def)
  have "results i (process sha256 disk c m) = results i m"
    by (auto simp: process_def OpenCommand threadsafe_failure_def results_def split: option.splits)
  moreover have "writers (process sha256 disk c m) i \<in> {writers m i, Some (open_spool d)}"
    by (auto simp: process_def OpenCommand threadsafe_failure_def i split: option.splits)
  ultimately show ?thesis
    using session_ok_writer [OF ok] flows_open [OF flows_some [OF ok [unfolded OpenCommand]]]
    unfolding OpenCommand by auto
next
  case (EventCommand j e)
  with c have i: "j = i" by (simp add: concerns_def)
  have "results i (process sha256 disk c m) = results i m"
    by (auto simp: process_def EventCommand threadsafe_failure_def results_def split: option.splits prod.splits)
  moreover have "writers (process sha256 disk c m) i = (case writers m i of None \<Rightarrow> None
      | Some s \<Rightarrow> Some (snd (write_event sha256 (write_failure disk) e s)))"
    by (auto simp: process_def EventCommand threadsafe_failure_def i split: option.splits prod.splits)
  ultimately show ?thesis
    using session_ok_writer [OF ok] flows_write [of sha256 i j e cs "writers m i" cl tried taken]
    unfolding EventCommand by (cases "writers m i") simp_all
next
  case (CloseCommand j summary errs chunks octets)
  with c have i: "j = i" by (simp add: concerns_def)
  from ok obtain s where ob: "ob = Some s" and num: "numbered taken"
    and fl: "flows sha256 i (CloseCommand j summary errs chunks octets # cs) (writers m i) cl tried taken"
    and old: "\<forall>p. Inr p \<in> set (results i m) \<longrightarrow> cl \<and> exact p tried"
    unfolding CloseCommand by (auto simp: session_ok_def split: option.splits)
  note pub = flows_published [OF fl]
  have w: "writers (process sha256 disk c m) i = None"
    by (auto simp: process_def CloseCommand i split: option.splits)
  have new: "exact p tried" if p: "Inr p \<in> set (results i (process sha256 disk c m))" for p
  proof (cases "Inr p \<in> set (results i m)")
    case False
    with p obtain s where s: "writers m i = Some s"
      "finalize sha256 (close_failure disk) (existing_path disk) summary errs chunks octets s = Inr p"
      by (auto simp: process_def CloseCommand i results_def split: option.splits)
    from pub s(1) obtain fes d where "s = write_events sha256 fes (open_spool d)" "map snd fes = taken" by blast
    with finalize_exact [of s sha256 fes d errs tried] num pub s(2) show ?thesis by blast
  qed (use old in blast)
  have "flows sha256 i cs None cl tried taken"
    using pub unfolding flows_def by (intro exI [of _ "[]"]) simp
  with ok w new pub show ?thesis by (simp add: session_ok_def ob)
qed (use c in \<open>simp add: concerns_def\<close>)

lemma work_ok:
  assumes ok: "system_ok sha256 m" and work: "work sha256 disk m = Some m'"
  shows "system_ok sha256 m'"
proof -
  from work obtain c q where q: "command_queue m = c # q"
    and m': "m' = process sha256 disk c (m\<lparr>command_queue := q\<rparr>)"
    by (auto simp: work_def split: if_splits list.splits)
  let ?m = "m\<lparr>command_queue := q\<rparr>"
  show ?thesis
  proof (rule system_okI)
    fix i
    note old = system_okD(3) [OF ok, of i]
    have res: "results i ?m = results i m" by (simp add: results_def)
    have pipe: "pipeline i m = (if concerns i c then [c] else []) @ pipeline i m'"
      by (simp add: pipeline_def q m' process_fields)
    have "session_ok sha256 i (pipeline i m') (writers m' i) (objects m i) (i \<in> closing m)
      (attempts m i) (queued m i) (results i m')"
    proof (cases "concerns i c")
      case True
      with old pipe have "session_ok sha256 i (c # pipeline i m') (writers ?m i) (objects m i) (i \<in> closing m)
        (attempts m i) (queued m i) (results i ?m)" by (simp add: res)
      from process_own [OF this True, of disk] show ?thesis unfolding m' .
    next
      case False
      show ?thesis
      proof (cases "c = StopCommand")
        case True
        then have "writers m' i = None" "results i m' = results i m"
          by (simp_all add: m' process_def results_def)
        with stop_ok [OF old] pipe False show ?thesis by simp
      next
        case other: False
        from process_other [OF False other, of sha256 disk ?m] res have
          "writers m' i = writers m i" "results i m' = results i m" by (simp_all add: m')
        with old pipe False show ?thesis by simp
      qed
    qed
    then show "session_ok sha256 i (pipeline i m') (writers m' i) (objects m' i) (i \<in> closing m')
      (attempts m' i) (queued m' i) (results i m')"
      by (simp add: m' process_fields)
  qed (use system_okD(1,2) [OF ok] q in \<open>simp_all add: m' process_fields\<close>)
qed

text \<open>Steps that touch neither the pipeline of a session nor what it has recorded.\<close>

lemma notify_ok:
  assumes ok: "system_ok sha256 m" shows "system_ok sha256 (notify_failure i err (m\<lparr>callbacks := cs\<rparr>))"
    (is "system_ok _ ?m")
proof (rule system_okI)
  fix j
  have same: "pipeline j ?m = pipeline j m" "writers ?m = writers m" "closing ?m = closing m"
    "attempts ?m = attempts m" "queued ?m = queued m" "results j ?m = results j m"
    by (simp_all add: notify_failure_def pipeline_def results_def)
  have ob: "objects ?m j = objects m j \<or> objects ?m j = map_option (mark_failure err) (objects m j)"
    by (auto simp: notify_failure_def)
  have "session_errors (mark_failure err s) \<noteq> []" "session_descriptor (mark_failure err s) = session_descriptor s"
    "session_sequence (mark_failure err s) = session_sequence s" for s
    by (auto simp: mark_failure_def Let_def)
  with system_okD(3) [OF ok, of j] ob show "session_ok sha256 j (pipeline j ?m) (writers ?m j) (objects ?m j)
      (j \<in> closing ?m) (attempts ?m j) (queued ?m j) (results j ?m)"
    unfolding same by (auto simp: session_ok_def split: option.splits)
qed (use system_okD(1,2) [OF ok] in \<open>simp_all add: notify_failure_def\<close>)

lemma put_stop_ok:
  assumes ok: "system_ok sha256 m" and put: "put_nowait StopCommand m = Some m'"
  shows "system_ok sha256 m'"
proof (rule system_okI)
  have m': "m' = m\<lparr>command_queue := command_queue m @ [StopCommand]\<rparr>" "length (command_queue m) < capacity m"
    using put by (auto simp: put_nowait_def split: if_splits)
  fix i
  have "pipeline i m' = pipeline i m" by (simp add: m' pipeline_def concerns_def)
  with system_okD(3) [OF ok, of i] show "session_ok sha256 i (pipeline i m') (writers m' i) (objects m' i)
      (i \<in> closing m') (attempts m' i) (queued m' i) (results i m')"
    by (simp add: m' results_def)
  show "list_all is_close_command (waiting_closes m')" "length (command_queue m') \<le> capacity m'"
    using system_okD(1) [OF ok] m'(2) by (simp_all add: m'(1))
qed

lemma registry_ok:
  assumes "system_ok sha256 m" shows "system_ok sha256 (m\<lparr>registered := r\<rparr>)"
    and "system_ok sha256 (m\<lparr>running := b, registered := r\<rparr>)"
  using assms by (simp_all add: system_ok_def pipeline_def results_def)

lemmas step_ok = open_ok record_ok finalize_ok put_close_ok timeout_ok work_ok notify_ok put_stop_ok registry_ok

lemma capture_step_ok: "capture_step sha256 m m' \<Longrightarrow> system_ok sha256 m \<Longrightarrow> system_ok sha256 m'"
proof (induction rule: capture_step.induct)
  case (step_record m i s observed e r s' m')
  from record_ok [OF step_record(4,1,2,3)] show ?case .
qed (auto intro: step_ok)

lemma started_ok: "system_ok sha256 (started n)"
  by (simp add: system_ok_def session_ok_def started_def pipeline_def results_def)

lemma reachable_ok: "reachable sha256 m \<Longrightarrow> system_ok sha256 m"
  by (induction rule: reachable.induct) (auto intro: started_ok capture_step_ok)

text \<open>
  C3: what is published as complete is complete. In every interleaving of the relay, the writer
  thread and the callbacks, with any disk and queue failures: a job whose manifest says COMPLETE
  holds in its two directional files exactly the bytes of all events its session recorded, in order,
  and its timeline counts all of them. No event was lost, duplicated, reordered or written into
  another session.
\<close>

theorem complete_capture_exact:
  assumes "reachable sha256 m" and "(i, Inr p) \<in> set (outcomes m)"
    and "get (pub_manifest p) ''status'' = JStr ''COMPLETE''"
  shows "map_of (pub_files p) ''client.raw'' = Some (stream ClientToDevice (attempts m i)) \<and>
    map_of (pub_files p) ''device.raw'' = Some (stream DeviceToClient (attempts m i)) \<and>
    get (pub_manifest p) ''timeline_events'' = JInt (int (length (attempts m i)))"
proof -
  have "Inr p \<in> set (results i m)" using assms(2) by (force simp: results_def)
  with system_okD(3) [OF reachable_ok [OF assms(1)], of i] have "exact p (attempts m i)"
    by (auto simp: session_ok_def split: option.splits)
  with assms(3) show ?thesis by (simp add: exact_def)
qed

text \<open>The events of a session still in the queue.\<close>

definition pending :: "string \<Rightarrow> system \<Rightarrow> capture_event list" where
  "pending i m = concat (map (\<lambda>c. case c of EventCommand j e \<Rightarrow> if j = i then [e] else [] | _ \<Rightarrow> [])
     (command_queue m))"

definition event_of :: "command \<Rightarrow> capture_event list" where
  "event_of c = (case c of EventCommand _ e \<Rightarrow> [e] | _ \<Rightarrow> [])"

lemma pending_pipeline:
  assumes "list_all is_close_command (waiting_closes m)"
  shows "pending i m = concat (map event_of (pipeline i m))"
proof -
  have "concat (map event_of (filter (concerns i) cs)) =
      concat (map (\<lambda>c. case c of EventCommand j e \<Rightarrow> if j = i then [e] else [] | _ \<Rightarrow> []) cs)" for cs
    by (induction cs) (auto simp: event_of_def concerns_def split: command.splits)
  moreover have "concat (map event_of (filter (concerns i) cs)) = []" if "list_all is_close_command cs" for cs
    using that by (induction cs) (auto simp: event_of_def split: command.splits)
  ultimately show ?thesis using assms by (simp add: pipeline_def pending_def)
qed

lemma flows_pending:
  assumes "flows sha256 i cs (Some w) cl tried taken"
  shows "\<exists>fes d. w = write_events sha256 fes (open_spool d) \<and> map snd fes @ concat (map event_of cs) = taken"
proof -
  from assms obtain es post where cs: "cs = map (EventCommand i) es @ post"
    and post: "post = [] \<or> (\<exists>c. post = [c] \<and> close_ok i tried taken c)"
    and w: "\<exists>fes d. w = write_events sha256 fes (open_spool d) \<and> map snd fes @ es = taken"
    by (auto simp: flows_def)
  have "concat (map event_of (map (EventCommand i) es)) = es" by (induction es) (simp_all add: event_of_def)
  moreover have "concat (map event_of post) = []" using post by (auto simp: close_ok_def event_of_def)
  ultimately show ?thesis using w by (simp only: cs map_append concat_append append_Nil2)
qed

text \<open>
  Bounded and in order. In every reachable state the queue respects its capacity, the events a
  session had accepted carry the numbers 0, 1, 2, ... and each of them is in exactly one place: those
  the writer has processed, in this order, and then those still queued, in this order.
\<close>

theorem capture_in_order:
  assumes "reachable sha256 m" and "writers m i = Some w"
  shows "length (command_queue m) \<le> capacity m \<and> numbered (queued m i) \<and>
    (\<exists>fes d. w = write_events sha256 fes (open_spool d) \<and> map snd fes @ pending i m = queued m i)"
proof -
  note ok = system_okD [OF reachable_ok [OF assms(1)]]
  from ok(3) [of i] assms(2) have "numbered (queued m i)"
    "flows sha256 i (pipeline i m) (Some w) (i \<in> closing m) (attempts m i) (queued m i)"
    by (auto simp: session_ok_def split: option.splits)
  with flows_pending pending_pipeline [OF ok(1)] ok(2) show ?thesis by simp
qed

section \<open>Losses and progress\<close>

fun record_all ::
    "(int option \<times> capture_event) list \<Rightarrow> capture_session \<Rightarrow> system \<Rightarrow> bool list \<times> capture_session \<times> system" where
  "record_all [] s m = ([], s, m)"
| "record_all ((n, e) # es) s m = (let (r, s', m') = record_event n e s m;
     (rs, s'', m'') = record_all es s' m' in (r # rs, s'', m''))"

lemma drop_payload_fields:
  "accepting (drop_payload b s) = accepting s" "attached (drop_payload b s) = attached s"
  "session_errors (drop_payload b s) = session_errors s" "session_sequence (drop_payload b s) = session_sequence s"
  "dropped_bytes (drop_payload b s) = dropped_bytes s + int (length b)"
  "dropped_chunks (drop_payload b s) = dropped_chunks s + (if b = [] then 0 else 1)"
  by (simp_all add: drop_payload_def)

text \<open>
  Losses are counted. A session that has failed refuses every further event without touching the
  queue, keeps its errors, and adds each refused payload to its counts of dropped chunks and bytes.
\<close>

lemma failed_session_counts:
  assumes "\<not> accepting s"
  shows "\<exists>s'. record_all es s m = (replicate (length es) False, s', m) \<and> session_errors s' = session_errors s \<and>
    session_sequence s' = session_sequence s \<and>
    dropped_bytes s' = dropped_bytes s + int (length (concat (map (ev_payload \<circ> snd) es))) \<and>
    dropped_chunks s' = dropped_chunks s + int (length (filter (\<lambda>b. b \<noteq> []) (map (ev_payload \<circ> snd) es)))"
  using assms
proof (induction es arbitrary: s)
  case (Cons x es)
  obtain n e where x: "x = (n, e)" by (cases x)
  have "\<not> accepting (drop_payload (ev_payload e) s)" using Cons.prems by (simp add: drop_payload_fields)
  from Cons.IH [OF this] Cons.prems show ?case
    by (auto simp: x record_event_def drop_payload_fields)
qed simp

fun drain :: "(bytes \<Rightarrow> digest) \<Rightarrow> disk list \<Rightarrow> system \<Rightarrow> system option" where
  "drain sha256 [] m = Some m"
| "drain sha256 (disk # ds) m = Option.bind (work sha256 disk m) (drain sha256 ds)"

lemma process_alive: "c \<noteq> StopCommand \<Longrightarrow> worker_alive (process sha256 disk c m) = worker_alive m"
  by (auto simp: process_def threadsafe_failure_def split: command.splits option.splits prod.splits)

lemma process_outcomes:
  "\<exists>new. outcomes (process sha256 disk c m) = outcomes m @ new \<and> (\<forall>i. concerns i c \<and> is_close_command c \<longrightarrow> i \<in> fst ` set new)"
  by (cases c) (auto simp: process_def threadsafe_failure_def concerns_def split: option.splits prod.splits)

lemma drain_outcomes: "drain sha256 ds m = Some m' \<Longrightarrow> \<exists>new. outcomes m' = outcomes m @ new"
proof (induction ds arbitrary: m)
  case (Cons d ds)
  then obtain m1 where m1: "work sha256 d m = Some m1" "drain sha256 ds m1 = Some m'"
    by (auto simp: bind_eq_Some_conv)
  then obtain c q where "m1 = process sha256 d c (m\<lparr>command_queue := q\<rparr>)"
    by (auto simp: work_def split: if_splits list.splits)
  with process_outcomes [of sha256 d c "m\<lparr>command_queue := q\<rparr>"] obtain new where
    "outcomes m1 = outcomes m @ new" by auto
  with Cons.IH [OF m1(2)] show ?case by auto
qed simp

text \<open>
  C28: the writer never gets stuck. While it lives, it can process every command of a queue that
  holds no stop command, whatever the disk does with each of them, and afterwards the queue is empty
  and every close request in it has been answered, with a published job or an error.
\<close>

theorem writer_drains:
  assumes "worker_alive m" and "StopCommand \<notin> set (command_queue m)" and "length ds = length (command_queue m)"
  shows "\<exists>m'. drain sha256 ds m = Some m' \<and> command_queue m' = [] \<and>
    (\<forall>i summary errs chunks octets. CloseCommand i summary errs chunks octets \<in> set (command_queue m) \<longrightarrow>
      i \<in> fst ` set (outcomes m'))"
  using assms
proof (induction ds arbitrary: m)
  case (Cons d ds)
  then obtain c q where q: "command_queue m = c # q" by (cases "command_queue m") auto
  let ?m = "process sha256 d c (m\<lparr>command_queue := q\<rparr>)"
  have work: "work sha256 d m = Some ?m" using Cons.prems(1) by (simp add: work_def q)
  have "c \<noteq> StopCommand" using Cons.prems(2) by (auto simp: q)
  from process_alive [OF this, of sha256 d "m\<lparr>command_queue := q\<rparr>"]
  have "worker_alive ?m" "StopCommand \<notin> set (command_queue ?m)" "length ds = length (command_queue ?m)"
    using Cons.prems by (simp_all add: q process_alive process_fields)
  from Cons.IH [OF this] obtain m' where m': "drain sha256 ds ?m = Some m'" "command_queue m' = []"
    "\<forall>i summary errs chunks octets. CloseCommand i summary errs chunks octets \<in> set q \<longrightarrow> i \<in> fst ` set (outcomes m')"
    by (auto simp: process_fields)
  obtain new where "outcomes ?m = outcomes m @ new"
    "\<forall>i. concerns i c \<and> is_close_command c \<longrightarrow> i \<in> fst ` set new"
    using process_outcomes [of sha256 d c "m\<lparr>command_queue := q\<rparr>"] by auto
  moreover obtain more where "outcomes m' = outcomes ?m @ more" using drain_outcomes [OF m'(1)] by blast
  ultimately have "i \<in> fst ` set (outcomes m')" if "c = CloseCommand i summary errs chunks octets" for i summary errs chunks octets
    using that by (auto simp: concerns_def)
  with m'(3) have "i \<in> fst ` set (outcomes m')" if "CloseCommand i summary errs chunks octets \<in> set (c # q)"
    for i summary errs chunks octets
    using that by (metis set_ConsD)
  then have "\<forall>i summary errs chunks octets. CloseCommand i summary errs chunks octets \<in> set (command_queue m) \<longrightarrow>
      i \<in> fst ` set (outcomes m')"
    unfolding q by blast
  with work m'(1,2) show ?case by (intro exI [of _ m']) simp
qed simp

section \<open>Examples\<close>

definition calm :: disk where
  "calm = \<lparr>open_failure = None, write_failure = NoFault, close_failure = None, existing_path = None\<rparr>"

definition example_summary :: close_summary where
  "example_summary = \<lparr>closed_at_utc = [], closed_monotonic_ns = 0, close_reason = ''eof'', transport_complete = True,
     observed_bytes = [(''client_to_device'', 2), (''device_to_client'', 0)],
     observed_chunks = [(''client_to_device'', 1), (''device_to_client'', 0)], transport_errors = []\<rparr>"

definition opened :: system where
  "opened = (started 4)\<lparr>command_queue := [OpenCommand example_descriptor], registered := {''s''},
     objects := [''s'' \<mapsto> new_session True example_descriptor None]\<rparr>"

definition ready :: system where
  "ready = opened\<lparr>command_queue := [], writers := [''s'' \<mapsto> open_spool example_descriptor]\<rparr>"

definition recorded :: system where
  "recorded = ready\<lparr>command_queue := [EventCommand ''s'' (hd example_events)],
     objects := [''s'' \<mapsto> (new_session True example_descriptor None)\<lparr>session_sequence := 1\<rparr>],
     attempts := (\<lambda>_. [])(''s'' := [hd example_events]), queued := (\<lambda>_. [])(''s'' := [hd example_events])\<rparr>"

definition written :: system where
  "written = recorded\<lparr>command_queue := [],
     writers := [''s'' \<mapsto> snd (write_event toy_digest NoFault (hd example_events) (open_spool example_descriptor))]\<rparr>"

definition finishing :: system where
  "finishing = written\<lparr>command_queue := [CloseCommand ''s'' example_summary [] 0 0], closing := {''s''}\<rparr>"

definition finished :: system where
  "finished = process toy_digest calm (CloseCommand ''s'' example_summary [] 0 0) (finishing\<lparr>command_queue := []\<rparr>)"

lemmas run_defs = opened_def ready_def recorded_def written_def finishing_def started_def

lemma opened_reachable: "reachable toy_digest opened"
proof -
  have "snd (open_session_nowait example_descriptor (started 4)) = opened"
    by (simp add: open_session_nowait_def put_defs run_defs example_descriptor_def Let_def)
  moreover have "objects (started 4) (session_id example_descriptor) = None" by (simp add: run_defs)
  ultimately show ?thesis
    using step_open [of "started 4" example_descriptor toy_digest] reachable_start reachable_step by metis
qed

lemma ready_reachable: "reachable toy_digest ready"
proof -
  have "work toy_digest calm opened = Some ready"
    by (simp add: work_def process_def calm_def run_defs example_descriptor_def)
  then show ?thesis using opened_reachable step_work reachable_step by blast
qed

lemma recorded_reachable: "reachable toy_digest recorded"
proof -
  let ?s = "new_session True example_descriptor None"
  have "record_event None (hd example_events) ?s ready = (True, ?s\<lparr>session_sequence := 1\<rparr>,
      ready\<lparr>command_queue := [EventCommand ''s'' (hd example_events)]\<rparr>)"
    by (simp add: record_event_def put_defs run_defs new_session_def example_descriptor_def example_events_def
        example_event_def)
  moreover have "objects ready ''s'' = Some ?s" "''s'' \<notin> closing ready" by (simp_all add: run_defs)
  ultimately have "capture_step toy_digest ready recorded"
    using step_record [of ready "''s''" ?s None "hd example_events"]
    by (simp add: run_defs example_events_def example_event_def new_session_def cong: if_cong)
  then show ?thesis using ready_reachable reachable_step by blast
qed

lemma written_reachable: "reachable toy_digest written"
proof -
  obtain w where "write_event toy_digest NoFault (hd example_events) (open_spool example_descriptor) = (None, w)"
    by (simp add: write_event_def append_def append_error_def example_events_def example_event_def open_spool_def)
  then have "work toy_digest calm recorded = Some written"
    by (simp add: work_def process_def calm_def run_defs)
  then show ?thesis using recorded_reachable step_work reachable_step by blast
qed

lemma finished_reachable: "reachable toy_digest finished"
proof -
  let ?s = "(new_session True example_descriptor None)\<lparr>session_sequence := 1\<rparr>"
    and ?c = "CloseCommand ''s'' example_summary [] 0 0"
  let ?m = "written\<lparr>closing := {''s''}, waiting_closes := [?c]\<rparr>"
  have "close_command ?s example_summary = Some ?c"
    by (simp add: close_command_def new_session_def example_descriptor_def)
  moreover have "objects written ''s'' = Some ?s" "''s'' \<notin> closing written" by (simp_all add: run_defs)
  ultimately have "capture_step toy_digest written ?m"
    using step_finalize [of written "''s''" ?s example_summary ?c toy_digest] by (simp add: run_defs)
  then have "reachable toy_digest ?m" using written_reachable reachable_step by blast
  moreover have put: "put_nowait ?c ?m = Some (?m\<lparr>command_queue := [?c]\<rparr>)"
    by (simp add: put_nowait_def run_defs)
  have "(?m\<lparr>command_queue := [?c]\<rparr>)\<lparr>waiting_closes := remove1 ?c (waiting_closes (?m\<lparr>command_queue := [?c]\<rparr>))\<rparr>
      = finishing"
    by (simp add: run_defs)
  with step_put_close [OF _ put, of toy_digest] have "capture_step toy_digest ?m finishing" by simp
  ultimately have "reachable toy_digest finishing" using reachable_step by blast
  moreover have "work toy_digest calm finishing = Some finished"
    by (simp add: work_def finished_def run_defs)
  ultimately show ?thesis using step_work reachable_step by blast
qed

lemma finished_outcome:
  "\<exists>p. outcomes finished = [(''s'', Inr p)] \<and> get (pub_manifest p) ''status'' = JStr ''COMPLETE''"
proof -
  have ok: "append_error (open_spool example_descriptor) (hd example_events) = None"
    by (simp add: append_error_def example_events_def example_event_def open_spool_def)
  then obtain w where w: "write_event toy_digest NoFault (hd example_events) (open_spool example_descriptor) = (None, w)"
    and "try_append toy_digest (hd example_events) (open_spool example_descriptor) = Some w"
    by (simp add: write_event_def try_append_def append_def)
  then have "appends toy_digest [hd example_events] (open_spool example_descriptor) = Some w"
    by (simp add: appends_def)
  then have facts: "captured_bytes w = (\<lambda>d. int (length (stream d [hd example_events])))"
    "captured_chunks w = (\<lambda>d. count_of d ''data'' [hd example_events])" "spool_errors w = []"
    using appends_holds by (simp_all add: holds_def)
  let ?p = "finalize toy_digest None None example_summary [] 0 0 w"
  obtain p where p: "?p = Inr p" "pub_manifest p = manifest toy_digest example_summary [] 0 0 w"
    by (simp add: finalize_def Let_def)
  have "outcomes finished = [(''s'', ?p)]"
    by (simp add: finished_def process_def calm_def run_defs w)
  moreover have "get (pub_manifest p) ''status'' = JStr ''COMPLETE''"
    unfolding p(2) manifest_fields
    by (simp add: facts both_equal_def lookup_def example_summary_def direction_value_def count_of_def
        example_events_def example_event_def)
  ultimately show ?thesis using p(1) by simp
qed

theorem complete_capture_exact_witness:
  "\<exists>p. (''s'', Inr p) \<in> set (outcomes finished) \<and> map_of (pub_files p) ''client.raw'' = Some [27, 64]"
proof -
  obtain p where p: "outcomes finished = [(''s'', Inr p)]" "get (pub_manifest p) ''status'' = JStr ''COMPLETE''"
    using finished_outcome by blast
  have "attempts finished ''s'' = [hd example_events]"
    by (simp add: finished_def process_fields run_defs)
  moreover have "(''s'', Inr p) \<in> set (outcomes finished)" by (simp add: p)
  from complete_capture_exact [OF finished_reachable this p(2)] have
    "map_of (pub_files p) ''client.raw'' = Some (stream ClientToDevice (attempts finished ''s''))" by blast
  ultimately show ?thesis
    by (intro exI [of _ p]) (simp add: p example_events_def example_event_def)
qed

theorem capture_in_order_witness:
  "\<exists>w fes d. writers written ''s'' = Some w \<and> w = write_events toy_digest fes (open_spool d) \<and>
     map snd fes @ pending ''s'' written = [hd example_events]"
proof -
  obtain w where "writers written ''s'' = Some w" by (simp add: run_defs)
  moreover from capture_in_order [OF written_reachable this] obtain fes d where
    "w = write_events toy_digest fes (open_spool d)" "map snd fes @ pending ''s'' written = queued written ''s''"
    by blast
  moreover have "queued written ''s'' = [hd example_events]" by (simp add: run_defs)
  ultimately show ?thesis by auto
qed

theorem failed_session_counts_witness:
  "\<exists>s'. record_all [(None, hd example_events)] (disabled_session example_descriptor ''disk full'') opened =
      ([False], s', opened) \<and> dropped_bytes s' = 2"
proof -
  have "\<not> accepting (disabled_session example_descriptor ''disk full'')"
    by (simp add: disabled_session_def new_session_def mark_failure_def Let_def)
  from failed_session_counts [OF this, of "[(None, hd example_events)]" opened] show ?thesis
    by (auto simp: disabled_session_def new_session_def mark_failure_def Let_def example_events_def example_event_def)
qed

theorem writer_drains_witness:
  "\<exists>m'. drain toy_digest [calm] finishing = Some m' \<and> command_queue m' = [] \<and> ''s'' \<in> fst ` set (outcomes m')"
proof -
  have "worker_alive finishing" "StopCommand \<notin> set (command_queue finishing)"
    "length [calm] = length (command_queue finishing)"
    "CloseCommand ''s'' example_summary [] 0 0 \<in> set (command_queue finishing)"
    by (simp_all add: run_defs)
  with writer_drains [OF this(1-3), of toy_digest] show ?thesis by blast
qed

end
