(* ===== verification/Recovery.thy ===== *)
theory Recovery imports Spool begin

text \<open>
  \<^verbatim>\<open>recover_incomplete_spool\<close> of \<^verbatim>\<open>proxy/spool.py\<close>: what the next start makes of the directories an
  unclean exit left behind. A device directory maps the names of its job directories to their files;
  links and plain files in it, which the code skips, are not represented.
\<close>

section \<open>Files and directories\<close>

type_synonym files = "(string \<times> bytes) list"
type_synonym device_root = "(string \<times> files) list"

definition has_file :: "string \<Rightarrow> files \<Rightarrow> bool" where
  "has_file n fs = (map_of fs n \<noteq> None)"

definition content_of :: "string \<Rightarrow> files \<Rightarrow> bytes" where
  "content_of n fs = (case map_of fs n of None \<Rightarrow> [] | Some b \<Rightarrow> b)"

text \<open>The text after the last underscore: \<^verbatim>\<open>stem.rsplit("_", maxsplit=1)[-1]\<close>.\<close>

text \<open>\<^verbatim>\<open>value[key]\<close>; \<open>None\<close> for \<^verbatim>\<open>KeyError\<close> and \<^verbatim>\<open>TypeError\<close>, which every use here catches alike.\<close>

definition json_item :: "jval \<Rightarrow> string \<Rightarrow> jval option" where
  "json_item v k = (case v of JObj ms \<Rightarrow> map_of ms k | _ \<Rightarrow> None)"

datatype recover_error =
    RecoveryDestinationExists string
  | JobIdMissing
  | TimelineNotAnObject

section \<open>One directory\<close>

text \<open>The job a readable manifest names.\<close>

definition trusted_job_id :: "(bytes \<Rightarrow> jval option) \<Rightarrow> bytes \<Rightarrow> string option" where
  "trusted_job_id loads manifest_bytes =
     Option.bind (loads manifest_bytes) (\<lambda>manifest. Option.bind (json_item manifest ''session'')
       (\<lambda>session. map_option py_str (json_item session ''job_id'')))"

text \<open>An unreadable manifest is kept under another name.\<close>

definition preserve_manifest :: "string \<Rightarrow> files \<Rightarrow> files" where
  "preserve_manifest fresh fs = (let preserved = (if has_file ''manifest.untrusted.json'' fs
       then ''manifest.untrusted.'' @ fresh @ ''.json'' else ''manifest.untrusted.json'')
     in AList.update preserved (content_of ''manifest.json'' fs) (AList.delete ''manifest.json'' fs))"

definition unknown_endpoint :: jval where
  "unknown_endpoint = JObj [(''host'', JStr ''unknown''), (''port'', JInt 0)]"

definition guessed_session :: "string \<Rightarrow> string \<Rightarrow> string \<Rightarrow> metadata" where
  "guessed_session now name device =
     (let guessed_job_id = after_last (CHR ''_'') (removesuffix ''.partial'' name)
      in [(''session_id'', JStr guessed_job_id), (''job_id'', JStr guessed_job_id),
          (''device_id'', JStr device), (''device_name'', JStr device),
          (''device_type'', JStr ''unknown''), (''parser'', JStr ''unknown''),
          (''client_endpoint'', unknown_endpoint), (''listener_endpoint'', unknown_endpoint),
          (''target_endpoint'', unknown_endpoint), (''connected_at_utc'', JStr now),
          (''connected_monotonic_ns'', JInt 0)])"

definition read_recovery_session ::
    "(bytes \<Rightarrow> jval option) \<Rightarrow> string \<Rightarrow> string \<Rightarrow> string \<Rightarrow> files \<Rightarrow> metadata" where
  "read_recovery_session loads now name device fs =
     (case Option.bind (map_of fs ''session.json'') (\<lambda>b. Option.bind (loads b) (\<lambda>v. json_item v ''session'')) of
        Some (JObj session) \<Rightarrow> session
      | _ \<Rightarrow> guessed_session now name device)"

definition job_file_names :: "string list" where
  "job_file_names = [''client.raw'', ''device.raw'', ''timeline.jsonl'', ''session.json'']"

text \<open>Missing files are created empty.\<close>

definition with_job_files :: "files \<Rightarrow> files" where
  "with_job_files fs = fold (\<lambda>n gs. if has_file n gs then gs else AList.update n [] gs) job_file_names fs"

definition untrusted_names :: "files \<Rightarrow> string list" where
  "untrusted_names fs = sort (filter (\<lambda>n. starts_with ''manifest.untrusted'' n \<and> ends_with ''.json'' n) (map fst fs))"

definition raw_sizes :: "files \<Rightarrow> direction \<Rightarrow> int" where
  "raw_sizes fs d = int (length (content_of (raw_file d) fs))"

definition recovery_errors :: "bool \<Rightarrow> string list" where
  "recovery_errors covers = ''unclean shutdown; completeness beyond captured prefixes is unknown''
     # (if covers then [] else [''timeline does not cover directional RAW; trailing bytes have no chunk index''])"

definition covers_raw :: "inspection \<Rightarrow> files \<Rightarrow> bool" where
  "covers_raw i fs = (in_integrity_ok i \<and> list_all (\<lambda>d. in_covered_bytes i d = raw_sizes fs d) [ClientToDevice, DeviceToClient])"

definition recovery_manifest :: "(bytes \<Rightarrow> digest) \<Rightarrow> string \<Rightarrow> metadata \<Rightarrow> inspection \<Rightarrow> files \<Rightarrow> metadata" where
  "recovery_manifest sha256 now session i fs =
     [(''schema_version'', JInt schema_version),
      (''capture_format'', JStr ''retailprintguard-bidirectional-v1''),
      (''session'', JObj session),
      (''closed_at_utc'', JStr now),
      (''closed_monotonic_ns'', JInt 0),
      (''close_reason'', JStr ''recovered_after_unclean_shutdown''),
      (''status'', JStr ''PARTIAL''),
      (''transport_complete'', JBool False),
      (''storage_complete'', JBool (covers_raw i fs)),
      (''observed_bytes'', per_direction (raw_sizes fs)),
      (''observed_chunks'', per_direction (in_data_chunks i)),
      (''captured_bytes'', per_direction (raw_sizes fs)),
      (''captured_chunks'', per_direction (in_data_chunks i)),
      (''timeline_covered_bytes'', per_direction (in_covered_bytes i)),
      (''eof_events'', per_direction (in_eof_events i)),
      (''timeline_events'', JInt (in_events i)),
      (''last_event_sha256'', opt_str (in_previous_hash i)),
      (''dropped_chunks'', JInt 0),
      (''dropped_bytes'', JInt 0),
      (''errors'', JList (map JStr (recovery_errors (covers_raw i fs)))),
      (''files'', JObj (map (\<lambda>n. (n, file_facts sha256 n (content_of n fs))) (job_file_names @ untrusted_names fs)))]"

definition publish_ready :: "(bytes \<Rightarrow> digest) \<Rightarrow> string \<Rightarrow> bytes \<Rightarrow> files \<Rightarrow> files" where
  "publish_ready sha256 job manifest_bytes fs = (if has_file ''.ready'' fs then fs
     else AList.update ''.ready'' (ready_marker job (sha256_text sha256 manifest_bytes)) fs)"

text \<open>
  \<^verbatim>\<open>_finish_recovered_directory\<close>: the name of the directory after recovery, among the names
  \<open>existing\<close> of its device directory.
\<close>

definition finish_name :: "string list \<Rightarrow> string \<Rightarrow> recover_error + string" where
  "finish_name existing name = (if \<not> ends_with ''.partial'' name then Inr name
     else let final = removesuffix ''.partial'' name
       in if final \<in> set existing then Inl (RecoveryDestinationExists final) else Inr final)"

text \<open>A directory without a trusted manifest: the manifest is rebuilt from the files.\<close>

definition rebuild ::
    "(bytes \<Rightarrow> digest) \<Rightarrow> (bytes \<Rightarrow> jval option) \<Rightarrow> string \<Rightarrow> string \<Rightarrow> string list \<Rightarrow> string \<Rightarrow> files
     \<Rightarrow> recover_error + string \<times> files" where
  "rebuild sha256 loads now device existing name fs =
     (let session = read_recovery_session loads now name device fs
      in case map_of session ''job_id'' of
           None \<Rightarrow> Inl JobIdMissing
         | Some job \<Rightarrow>
             (let gs = with_job_files fs
              in case inspect_timeline sha256 loads (content_of ''timeline.jsonl'' gs) of
                   Inl AttributeError \<Rightarrow> Inl TimelineNotAnObject
                 | Inr i \<Rightarrow>
                     (let manifest_bytes = canonical_json (JObj (recovery_manifest sha256 now session i gs)) @ [newline]
                      in case finish_name existing name of
                           Inl e \<Rightarrow> Inl e
                         | Inr final \<Rightarrow> Inr (final, publish_ready sha256 (py_str job) manifest_bytes
                             (AList.update ''manifest.json'' manifest_bytes gs)))))"

text \<open>One candidate: \<open>Inr None\<close> when it is ready already.\<close>

definition recover_candidate ::
    "(bytes \<Rightarrow> digest) \<Rightarrow> (bytes \<Rightarrow> jval option) \<Rightarrow> string \<Rightarrow> string \<Rightarrow> string \<Rightarrow> string list \<Rightarrow> string \<Rightarrow> files
     \<Rightarrow> recover_error + (string \<times> files) option" where
  "recover_candidate sha256 loads now fresh device existing name fs =
     (if has_file ''.ready'' fs then Inr None
      else if has_file ''manifest.json'' fs then
        (case trusted_job_id loads (content_of ''manifest.json'' fs) of
           None \<Rightarrow> map_sum id Some (rebuild sha256 loads now device existing name (preserve_manifest fresh fs))
         | Some job \<Rightarrow> (case finish_name existing name of
             Inl e \<Rightarrow> Inl e
           | Inr final \<Rightarrow> Inr (Some (final, publish_ready sha256 job (content_of ''manifest.json'' fs) fs))))
      else map_sum id Some (rebuild sha256 loads now device existing name fs))"

section \<open>All directories\<close>

text \<open>The directory moves to its final name.\<close>

definition rename_dir :: "string \<Rightarrow> string \<Rightarrow> files \<Rightarrow> device_root \<Rightarrow> device_root" where
  "rename_dir old new fs ds = map (\<lambda>(n, gs). if n = old then (new, fs) else (n, gs)) ds"

fun recover_names ::
    "(bytes \<Rightarrow> digest) \<Rightarrow> (bytes \<Rightarrow> jval option) \<Rightarrow> string \<Rightarrow> string \<Rightarrow> string \<Rightarrow> string list \<Rightarrow> device_root
     \<Rightarrow> recover_error + string list \<times> device_root" where
  "recover_names sha256 loads now fresh device [] ds = Inr ([], ds)"
| "recover_names sha256 loads now fresh device (n # ns) ds =
     (case recover_candidate sha256 loads now fresh device (map fst ds) n (case map_of ds n of None \<Rightarrow> [] | Some fs \<Rightarrow> fs) of
        Inl e \<Rightarrow> Inl e
      | Inr None \<Rightarrow> recover_names sha256 loads now fresh device ns ds
      | Inr (Some (final, fs)) \<Rightarrow>
          map_sum id (\<lambda>(rs, ds'). (final # rs, ds')) (recover_names sha256 loads now fresh device ns (rename_dir n final fs ds)))"

definition recover_device ::
    "(bytes \<Rightarrow> digest) \<Rightarrow> (bytes \<Rightarrow> jval option) \<Rightarrow> string \<Rightarrow> string \<Rightarrow> string \<Rightarrow> device_root
     \<Rightarrow> recover_error + string list \<times> device_root" where
  "recover_device sha256 loads now fresh device ds = recover_names sha256 loads now fresh device (sort (map fst ds)) ds"

text \<open>\<^verbatim>\<open>recover_incomplete_spool\<close>: the devices in the order of their names, the others left alone.\<close>

fun recover_spool ::
    "(bytes \<Rightarrow> digest) \<Rightarrow> (bytes \<Rightarrow> jval option) \<Rightarrow> string \<Rightarrow> string \<Rightarrow> string list option \<Rightarrow> (string \<times> device_root) list
     \<Rightarrow> recover_error + (string \<times> string) list \<times> (string \<times> device_root) list" where
  "recover_spool sha256 loads now fresh ids [] = Inr ([], [])"
| "recover_spool sha256 loads now fresh ids ((device, ds) # rest) =
     (if (case ids of None \<Rightarrow> False | Some xs \<Rightarrow> device \<notin> set xs)
      then map_sum id (\<lambda>(rs, out). (rs, (device, ds) # out)) (recover_spool sha256 loads now fresh ids rest)
      else (case recover_device sha256 loads now fresh device ds of
          Inl e \<Rightarrow> Inl e
        | Inr (names, ds') \<Rightarrow> map_sum id (\<lambda>(rs, out). (map (Pair device) names @ rs, (device, ds') # out))
            (recover_spool sha256 loads now fresh ids rest)))"

definition recover_incomplete_spool ::
    "(bytes \<Rightarrow> digest) \<Rightarrow> (bytes \<Rightarrow> jval option) \<Rightarrow> string \<Rightarrow> string \<Rightarrow> string list option \<Rightarrow> (string \<times> device_root) list
     \<Rightarrow> recover_error + (string \<times> string) list \<times> (string \<times> device_root) list" where
  "recover_incomplete_spool sha256 loads now fresh ids devices = recover_spool sha256 loads now fresh ids (sort_key fst devices)"

section \<open>Facts\<close>

lemma map_of_update [simp]: "map_of (AList.update k v xs) = (map_of xs)(k \<mapsto> v)"
  by (rule update_conv')

lemma map_of_delete [simp]: "map_of (AList.delete k xs) = (map_of xs)(k := None)"
  by (rule delete_conv')

text \<open>Nothing that is there changes; \<open>keeps\<close> is reflexive and transitive.\<close>

definition keeps :: "string set \<Rightarrow> files \<Rightarrow> files \<Rightarrow> bool" where
  "keeps except fs gs \<longleftrightarrow> (\<forall>n b. n \<notin> except \<and> map_of fs n = Some b \<longrightarrow> map_of gs n = Some b)"

lemma keeps_trans: "keeps e fs gs \<Longrightarrow> keeps e gs hs \<Longrightarrow> keeps e fs hs"
  by (simp add: keeps_def)

lemma with_job_files_lookup:
  "map_of (with_job_files fs) n = (case map_of fs n of Some b \<Rightarrow> Some b
     | None \<Rightarrow> if n \<in> set job_file_names then Some [] else None)"
proof -
  have "map_of (fold (\<lambda>n gs. if has_file n gs then gs else AList.update n [] gs) ns fs) n =
      (case map_of fs n of Some b \<Rightarrow> Some b | None \<Rightarrow> if n \<in> set ns then Some [] else None)" for ns
    by (induction ns arbitrary: fs) (auto simp: has_file_def split: option.splits)
  then show ?thesis by (simp add: with_job_files_def)
qed

lemma keeps_job_files: "keeps e fs (with_job_files fs)"
  by (simp add: keeps_def with_job_files_lookup)

lemma publish_ready_lookup:
  "n \<noteq> ''.ready'' \<Longrightarrow> map_of (publish_ready sha256 job b fs) n = map_of fs n"
  "has_file ''.ready'' (publish_ready sha256 job b fs)"
  by (auto simp: publish_ready_def has_file_def)

lemma finish_name_new: "finish_name existing name = Inr final \<Longrightarrow> final = name \<or> final \<notin> set existing"
  by (auto simp: finish_name_def Let_def split: if_splits)

text \<open>What a rebuilt directory holds.\<close>

lemma rebuild_result:
  assumes "rebuild sha256 loads now device existing name fs = Inr (final, gs)"
  shows "\<exists>session i. inspect_timeline sha256 loads (content_of ''timeline.jsonl'' (with_job_files fs)) = Inr i \<and>
      session = read_recovery_session loads now name device fs \<and>
      map_of gs ''manifest.json'' = Some (canonical_json (JObj (recovery_manifest sha256 now session i (with_job_files fs))) @ [newline])"
    and "keeps {''manifest.json'', ''.ready''} fs gs" and "has_file ''.ready'' gs"
    and "final = name \<or> final \<notin> set existing"
proof -
  let ?hs = "with_job_files fs"
  from assms obtain i job b where i: "inspect_timeline sha256 loads (content_of ''timeline.jsonl'' ?hs) = Inr i"
    and b: "b = canonical_json (JObj (recovery_manifest sha256 now (read_recovery_session loads now name device fs) i ?hs)) @ [newline]"
    and name: "finish_name existing name = Inr final"
    and gs: "gs = publish_ready sha256 (py_str job) b (AList.update ''manifest.json'' b ?hs)"
    by (auto simp: rebuild_def Let_def split: option.splits sum.splits inspect_error.splits)
  show "\<exists>session i. inspect_timeline sha256 loads (content_of ''timeline.jsonl'' ?hs) = Inr i \<and>
      session = read_recovery_session loads now name device fs \<and>
      map_of gs ''manifest.json'' = Some (canonical_json (JObj (recovery_manifest sha256 now session i ?hs)) @ [newline])"
    using i by (simp add: gs publish_ready_lookup(1) b)
  show "keeps {''manifest.json'', ''.ready''} fs gs"
    using keeps_job_files [of "{}" fs] by (auto simp: keeps_def gs publish_ready_lookup(1))
  show "has_file ''.ready'' gs" by (simp add: gs publish_ready_lookup(2))
  show "final = name \<or> final \<notin> set existing" by (rule finish_name_new [OF name])
qed

lemma recover_candidate_ready:
  assumes "recover_candidate sha256 loads now fresh device existing name fs = Inr (Some (final, gs))"
  shows "has_file ''.ready'' gs \<and> (final = name \<or> final \<notin> set existing) \<and> \<not> has_file ''.ready'' fs"
proof -
  have sum: "map_sum id Some x = Inr (Some y) \<longleftrightarrow> x = Inr y" for x :: "recover_error + string \<times> files" and y
    by (cases x) auto
  from assms have "\<not> has_file ''.ready'' fs" by (auto simp: recover_candidate_def split: if_splits)
  with assms consider fs' where "rebuild sha256 loads now device existing name fs' = Inr (final, gs)"
    | job where "finish_name existing name = Inr final" "gs = publish_ready sha256 job (content_of ''manifest.json'' fs) fs"
    by (auto simp: recover_candidate_def sum split: if_splits option.splits sum.splits)
  then show ?thesis
  proof cases
    case 1
    from rebuild_result(3,4) [OF this] \<open>\<not> has_file ''.ready'' fs\<close> show ?thesis by simp
  next
    case 2
    with finish_name_new [OF 2(1)] \<open>\<not> has_file ''.ready'' fs\<close> show ?thesis by (simp add: publish_ready_lookup(2))
  qed
qed

section \<open>Recovery keeps the evidence\<close>

text \<open>The directory the manifest is rebuilt from, when the one on disk is missing or unreadable.\<close>

definition evidence_of :: "(bytes \<Rightarrow> jval option) \<Rightarrow> string \<Rightarrow> files \<Rightarrow> files option" where
  "evidence_of loads fresh fs = (if \<not> has_file ''manifest.json'' fs then Some fs
     else if trusted_job_id loads (content_of ''manifest.json'' fs) = None then Some (preserve_manifest fresh fs)
     else None)"

lemma recover_candidate_rebuilt:
  assumes "recover_candidate sha256 loads now fresh device existing name fs = Inr (Some (final, gs))"
    and "evidence_of loads fresh fs = Some es"
  shows "rebuild sha256 loads now device existing name es = Inr (final, gs)"
proof -
  have sum: "map_sum id Some x = Inr (Some y) \<longleftrightarrow> x = Inr y" for x :: "recover_error + string \<times> files" and y
    by (cases x) auto
  from assms show ?thesis
    by (auto simp: recover_candidate_def evidence_of_def sum split: if_splits option.splits)
qed

lemma preserve_manifest_lookup:
  assumes "\<not> has_file (''manifest.untrusted.'' @ fresh @ ''.json'') fs" and "map_of fs n = Some b"
  shows "if n = ''manifest.json'' then \<exists>k. starts_with ''manifest.untrusted'' k \<and> k \<noteq> ''.ready'' \<and>
      k \<noteq> ''manifest.json'' \<and> map_of (preserve_manifest fresh fs) k = Some b
    else map_of (preserve_manifest fresh fs) n = Some b"
proof -
  let ?k = "if has_file ''manifest.untrusted.json'' fs then ''manifest.untrusted.'' @ fresh @ ''.json''
    else ''manifest.untrusted.json''"
  have k: "map_of fs ?k = None" "starts_with ''manifest.untrusted'' ?k" "?k \<noteq> ''.ready''" "?k \<noteq> ''manifest.json''"
    using assms(1) by (auto simp: has_file_def starts_with_def)
  have new: "map_of (preserve_manifest fresh fs) = (map_of fs)(''manifest.json'' := None, ?k \<mapsto> content_of ''manifest.json'' fs)"
    by (simp add: preserve_manifest_def Let_def)
  show ?thesis
  proof (cases "n = ''manifest.json''")
    case True
    then have "map_of (preserve_manifest fresh fs) ?k = Some b"
      using assms(2) by (simp only: new content_of_def) simp
    with k True show ?thesis by (simp only: simp_thms if_True) blast
  next
    case False
    moreover have "n \<noteq> ?k" using k(1) assms(2) by auto
    ultimately have "map_of (preserve_manifest fresh fs) n = Some b" using assms(2) by (simp only: new) simp
    with False show ?thesis by simp
  qed
qed

text \<open>
  Recovery preserves every byte. When a directory is recovered, every file it held is still
  there with the same content under the same name; only an unreadable manifest moves, to a name of
  its own; and a readable manifest stays as it is.
\<close>

theorem recovery_preserves:
  assumes "recover_candidate sha256 loads now fresh device existing name fs = Inr (Some (final, gs))"
    and "\<not> has_file (''manifest.untrusted.'' @ fresh @ ''.json'') fs" and "map_of fs n = Some b"
  shows "map_of gs n = Some b \<or>
    (n = ''manifest.json'' \<and> (\<exists>k. starts_with ''manifest.untrusted'' k \<and> map_of gs k = Some b))"
proof -
  have "n \<noteq> ''.ready''"
    using recover_candidate_ready [OF assms(1)] assms(3) by (auto simp: has_file_def)
  show ?thesis
  proof (cases "evidence_of loads fresh fs")
    case None
    then have "gs = publish_ready sha256 (the (trusted_job_id loads (content_of ''manifest.json'' fs)))
        (content_of ''manifest.json'' fs) fs"
      using assms(1) by (auto simp: evidence_of_def recover_candidate_def split: if_splits option.splits sum.splits)
    with assms(3) \<open>n \<noteq> ''.ready''\<close> show ?thesis by (simp add: publish_ready_lookup(1))
  next
    case (Some es)
    note keep = rebuild_result(2) [OF recover_candidate_rebuilt [OF assms(1) Some]]
    show ?thesis
    proof (cases "es = fs \<and> \<not> has_file ''manifest.json'' fs")
      case True
      then have "n \<noteq> ''manifest.json''" using assms(3) by (auto simp: has_file_def)
      with True keep assms(3) \<open>n \<noteq> ''.ready''\<close> show ?thesis by (simp add: keeps_def)
    next
      case False
      with Some have "es = preserve_manifest fresh fs" by (auto simp: evidence_of_def split: if_splits)
      with preserve_manifest_lookup [OF assms(2,3)] keep \<open>n \<noteq> ''.ready''\<close> show ?thesis
        by (auto simp: keeps_def split: if_splits)
    qed
  qed
qed

lemma recovery_manifest_fields:
  "get (recovery_manifest sha256 now session i fs) ''status'' = JStr ''PARTIAL''"
  "get (recovery_manifest sha256 now session i fs) ''transport_complete'' = JBool False"
  "get (recovery_manifest sha256 now session i fs) ''storage_complete'' = JBool (covers_raw i fs)"
  "get (recovery_manifest sha256 now session i fs) ''captured_bytes'' = per_direction (raw_sizes fs)"
  "get (recovery_manifest sha256 now session i fs) ''captured_chunks'' = per_direction (in_data_chunks i)"
  "get (recovery_manifest sha256 now session i fs) ''timeline_events'' = JInt (in_events i)"
  "get (recovery_manifest sha256 now session i fs) ''last_event_sha256'' = opt_str (in_previous_hash i)"
  "get (recovery_manifest sha256 now session i fs) ''session'' = JObj session"
  by (simp_all add: recovery_manifest_def get_def)

text \<open>
  C27: a rebuilt manifest never claims too much. It says PARTIAL with an incomplete transport whatever
  is on disk, gives the sizes the raw files have, and claims complete storage only when the timeline
  passed the inspection and accounts for every byte of both raw files.
\<close>

theorem recovery_marks_uncertainty:
  assumes "recover_candidate sha256 loads now fresh device existing name fs = Inr (Some (final, gs))"
    and "evidence_of loads fresh fs = Some es"
  shows "\<exists>m i. map_of gs ''manifest.json'' = Some (canonical_json (JObj m) @ [newline]) \<and>
    get m ''status'' = JStr ''PARTIAL'' \<and> get m ''transport_complete'' = JBool False \<and>
    get m ''captured_bytes'' = per_direction (raw_sizes es) \<and>
    inspect_timeline sha256 loads (content_of ''timeline.jsonl'' es) = Inr i \<and>
    get m ''storage_complete'' = JBool (in_integrity_ok i \<and> in_covered_bytes i = raw_sizes es)"
proof -
  let ?hs = "with_job_files es"
  have same: "content_of n ?hs = content_of n es" for n
    by (simp add: content_of_def with_job_files_lookup split: option.splits)
  from rebuild_result(1) [OF recover_candidate_rebuilt [OF assms]] obtain session i where
    i: "inspect_timeline sha256 loads (content_of ''timeline.jsonl'' es) = Inr i"
    and m: "map_of gs ''manifest.json'' = Some (canonical_json (JObj (recovery_manifest sha256 now session i ?hs)) @ [newline])"
    unfolding same by blast
  have "raw_sizes ?hs = raw_sizes es" by (simp add: raw_sizes_def same fun_eq_iff)
  moreover have "list_all (\<lambda>d. f d = g d) [ClientToDevice, DeviceToClient] \<longleftrightarrow> f = g" for f g :: "direction \<Rightarrow> int"
    by (auto simp: fun_eq_iff) (metis direction.exhaust)
  ultimately have "covers_raw i ?hs \<longleftrightarrow> in_integrity_ok i \<and> in_covered_bytes i = raw_sizes es"
    by (simp only: covers_raw_def)
  with i m \<open>raw_sizes ?hs = raw_sizes es\<close> show ?thesis
    by (intro exI [of _ "recovery_manifest sha256 now session i ?hs"] exI [of _ i])
      (simp add: recovery_manifest_fields)
qed

section \<open>A crash after fault-free writes\<close>

lemma session_read_back:
  assumes "loads (session_file (open_spool d)) = Some (sort_keys (JObj [(''schema_version'', JInt schema_version),
      (''session'', descriptor_document d)]))" and "map_of fs ''session.json'' = Some (session_file (open_spool d))"
  shows "\<exists>ms. read_recovery_session loads now name device fs = ms \<and> JObj ms = sort_keys (descriptor_document d) \<and>
    map_of ms ''job_id'' = Some (JStr (job_id d))"
proof -
  obtain ms where ms: "sort_keys (descriptor_document d) = JObj ms" "map_of ms ''job_id'' = Some (JStr (job_id d))"
    by (simp add: descriptor_document_def)
  have "json_item (sort_keys (JObj [(''schema_version'', JInt schema_version), (''session'', descriptor_document d)]))
      ''session'' = Some (JObj ms)"
    by (simp add: json_item_def ms(1))
  with assms have "read_recovery_session loads now name device fs = ms"
    by (simp add: read_recovery_session_def)
  with ms show ?thesis by simp
qed

lemma job_files_lookup:
  "map_of (job_files s) ''timeline.jsonl'' = Some (timeline_file s)"
  "map_of (job_files s) ''session.json'' = Some (session_file s)"
  "content_of (raw_file d) (job_files s) = raw_files s d"
  "\<not> has_file ''.ready'' (job_files s)" "\<not> has_file ''manifest.json'' (job_files s)"
  by (cases d; simp add: job_files_def content_of_def raw_file_def has_file_def)+

text \<open>
  C26: a crash loses nothing that was written. If the process dies after any events that were accepted without
  a disk fault, with data unless an end of file and distinct observation numbers, before the manifest is
  written, and the final name is free, the next start recovers the directory under that name: the session is
  the one the relay described, the storage is complete, and counts, sizes and the last digest are
  exactly those the spool had reached. Of the JSON reader it takes that it reads back the text of objects
  without repeated keys.
\<close>

theorem crash_recovery:
  assumes "\<And>v. keyed_json v \<Longrightarrow> loads (canonical_json v @ [newline]) = Some (sort_keys v)"
    and "appends sha256 es (open_spool desc) = Some s"
    and "list_all (observable []) es" and "distinct (map observed_sequence es)"
    and "ends_with ''.partial'' name" and "removesuffix ''.partial'' name \<notin> set existing"
  shows "\<exists>gs m. recover_candidate sha256 loads now fresh device existing name (job_files s) =
      Inr (Some (removesuffix ''.partial'' name, gs)) \<and>
    map_of gs ''manifest.json'' = Some (canonical_json (JObj m) @ [newline]) \<and>
    get m ''storage_complete'' = JBool True \<and> get m ''session'' = sort_keys (descriptor_document desc) \<and>
    get m ''captured_bytes'' = per_direction (captured_bytes s) \<and>
    get m ''captured_chunks'' = per_direction (captured_chunks s) \<and>
    get m ''timeline_events'' = JInt (timeline_events s) \<and>
    get m ''last_event_sha256'' = opt_str (previous_event_sha256 s)"
proof -
  let ?fs = "job_files s" and ?hs = "with_job_files (job_files s)"
  have "json_reader loads" using assms(1) by unfold_locales
  then have i: "inspect_timeline sha256 loads (timeline_file s) = Inr (inspected s (rev (map observed_sequence es)))"
    using json_reader.inspect_timeline_appends [OF _ assms(2-4)] by blast
  let ?i = "inspected s (rev (map observed_sequence es))"
  note h = appends_holds [OF assms(2)]
  then have sess: "session_file s = session_file (open_spool desc)" by (simp add: holds_def)
  have "loads (session_file (open_spool desc)) = Some (sort_keys (JObj [(''schema_version'', JInt schema_version),
      (''session'', descriptor_document desc)]))"
    using assms(1) [OF keyed_session] by (simp only: open_spool_def spool.simps)
  from session_read_back [of loads desc ?fs now name device, OF this] obtain ms where
    ms: "read_recovery_session loads now name device ?fs = ms" "JObj ms = sort_keys (descriptor_document desc)"
      "map_of ms ''job_id'' = Some (JStr (job_id desc))"
    using sess by (auto simp: job_files_lookup)
  have same: "content_of n ?hs = content_of n ?fs" for n
    by (simp add: content_of_def with_job_files_lookup split: option.splits)
  have tl: "content_of ''timeline.jsonl'' ?fs = timeline_file s" by (simp add: content_of_def job_files_lookup)
  have sizes: "raw_sizes ?hs = captured_bytes s"
    using h by (simp add: raw_sizes_def same job_files_lookup holds_def fun_eq_iff)
  have covers: "covers_raw ?i ?hs" by (simp add: covers_raw_def sizes inspected_def)
  let ?m = "recovery_manifest sha256 now ms ?i ?hs"
  let ?b = "canonical_json (JObj ?m) @ [newline]"
  let ?gs = "publish_ready sha256 (job_id desc) ?b (AList.update ''manifest.json'' ?b ?hs)"
  have "finish_name existing name = Inr (removesuffix ''.partial'' name)"
    using assms(5,6) by (simp add: finish_name_def)
  then have "recover_candidate sha256 loads now fresh device existing name ?fs =
      Inr (Some (removesuffix ''.partial'' name, ?gs))"
    using i tl by (simp add: recover_candidate_def rebuild_def job_files_lookup ms same Let_def py_str_def)
  moreover have "map_of ?gs ''manifest.json'' = Some ?b" by (simp add: publish_ready_lookup(1))
  moreover have "timeline_events s = next_sequence s" using h by (simp add: holds_def)
  ultimately show ?thesis
    by (intro exI [of _ ?gs] exI [of _ ?m])
      (simp add: recovery_manifest_fields covers sizes ms(2), simp add: inspected_def)
qed

section \<open>Recovery runs once\<close>

definition all_ready :: "device_root \<Rightarrow> bool" where
  "all_ready ds = list_all (\<lambda>(n, fs). has_file ''.ready'' fs) ds"

lemma recover_names_ready:
  assumes "all_ready ds" and "set ns \<subseteq> fst ` set ds"
  shows "recover_names sha256 loads now fresh device ns ds = Inr ([], ds)"
  using assms(2)
proof (induction ns)
  case (Cons n ns)
  then obtain fs where fs: "map_of ds n = Some fs" by (cases "map_of ds n") (auto simp: map_of_eq_None_iff)
  then have "has_file ''.ready'' fs" using assms(1) by (auto simp: all_ready_def list_all_iff dest: map_of_SomeD)
  with fs Cons show ?case by (simp add: recover_candidate_def)
qed simp

lemma map_sum_Inr_iff: "map_sum f g x = Inr z \<longleftrightarrow> (\<exists>y. x = Inr y \<and> z = g y)"
  by (cases x) auto

lemma recover_candidate_skips:
  "recover_candidate sha256 loads now fresh device existing name fs = Inr None \<Longrightarrow> has_file ''.ready'' fs"
proof -
  have sum: "map_sum id Some x \<noteq> Inr None" for x :: "recover_error + string \<times> files"
    by (cases x) auto
  show "recover_candidate sha256 loads now fresh device existing name fs = Inr None \<Longrightarrow> has_file ''.ready'' fs"
    by (auto simp: recover_candidate_def sum split: if_splits option.splits sum.splits)
qed

lemma rename_dir_names: "map fst (rename_dir old new fs ds) = map (\<lambda>n. if n = old then new else n) (map fst ds)"
  by (auto simp: rename_dir_def)

lemma rename_distinct:
  "distinct xs \<Longrightarrow> new = old \<or> new \<notin> set xs \<Longrightarrow> distinct (map (\<lambda>n. if n = old then new else n) xs)"
  by (auto simp: distinct_map inj_on_def)

lemma recover_names_all_ready:
  assumes "recover_names sha256 loads now fresh device ns ds = Inr (rs, ds')"
    and "distinct (map fst ds)" and "distinct ns" and "set ns \<subseteq> fst ` set ds"
    and "\<forall>(n, fs) \<in> set ds. n \<notin> set ns \<longrightarrow> has_file ''.ready'' fs"
  shows "all_ready ds'"
  using assms
proof (induction ns arbitrary: ds rs)
  case Nil
  then show ?case by (simp add: all_ready_def list_all_iff)
next
  case (Cons n ns)
  then obtain fs where fs: "map_of ds n = Some fs" by (cases "map_of ds n") (auto simp: map_of_eq_None_iff)
  then have mem: "(n, fs) \<in> set ds" by (rule map_of_SomeD)
  have only: "gs = fs" if "(n, gs) \<in> set ds" for gs
    using that mem Cons.prems(2) by (metis map_of_eq_Some_iff option.inject)
  show ?case
  proof (cases "recover_candidate sha256 loads now fresh device (map fst ds) n fs")
    case (Inl e)
    with Cons.prems(1) fs show ?thesis by simp
  next
    case (Inr r)
    show ?thesis
    proof (cases r)
      case None
      have "has_file ''.ready'' fs" using Inr None by (auto intro: recover_candidate_skips)
      with only Cons.prems(5) have "\<forall>(k, gs) \<in> set ds. k \<notin> set ns \<longrightarrow> has_file ''.ready'' gs" by auto
      with Cons None Inr fs show ?thesis by simp
    next
      case (Some p)
      obtain final gs where p: "p = (final, gs)" by (cases p)
      let ?ds = "rename_dir n final gs ds"
      have new: "has_file ''.ready'' gs" "final = n \<or> final \<notin> set (map fst ds)"
        using recover_candidate_ready Inr unfolding Some p by blast+
      have "map_sum id (\<lambda>(rs, ds'). (final # rs, ds')) (recover_names sha256 loads now fresh device ns ?ds) = Inr (rs, ds')"
        using Cons.prems(1) by (simp add: fs Inr Some p)
      then obtain rs' where run: "recover_names sha256 loads now fresh device ns ?ds = Inr (rs', ds')"
        by (auto simp: map_sum_Inr_iff)
      have "distinct (map fst ?ds)"
        unfolding rename_dir_names using Cons.prems(2) new(2) by (rule rename_distinct)
      moreover have "set ns \<subseteq> fst ` set ?ds"
      proof
        fix k assume "k \<in> set ns"
        then have "k \<noteq> n" "k \<in> fst ` set ds" using Cons.prems(3,4) by auto
        then show "k \<in> fst ` set ?ds" by (force simp: rename_dir_def)
      qed
      moreover have "\<forall>(k, hs) \<in> set ?ds. k \<notin> set ns \<longrightarrow> has_file ''.ready'' hs"
        using Cons.prems(5) new(1) by (auto simp: rename_dir_def split: if_splits)
      ultimately show ?thesis using Cons.IH [OF run] Cons.prems(3) by simp
    qed
  qed
qed

lemma recover_spool_again:
  assumes "recover_spool sha256 loads now fresh ids devices = Inr (rs, out)"
    and "list_all (\<lambda>(device, ds). distinct (map fst ds)) devices"
  shows "map fst out = map fst devices \<and> recover_spool sha256 loads now' fresh' ids out = Inr ([], out)"
  using assms
proof (induction devices arbitrary: rs out)
  case (Cons d devices)
  obtain device ds where d: "d = (device, ds)" by (cases d)
  show ?case
  proof (cases "case ids of None \<Rightarrow> False | Some xs \<Rightarrow> device \<notin> set xs")
    case True
    with Cons.prems(1) obtain rest where "recover_spool sha256 loads now fresh ids devices = Inr (rs, rest)"
      "out = (device, ds) # rest"
      by (auto simp: d map_sum_Inr_iff)
    with Cons.IH Cons.prems(2) True show ?thesis by (simp add: d)
  next
    case False
    with Cons.prems(1) obtain names ds' where one: "recover_device sha256 loads now fresh device ds = Inr (names, ds')"
      by (auto simp: d split: sum.splits)
    with Cons.prems(1) False obtain rs' rest where
      "recover_spool sha256 loads now fresh ids devices = Inr (rs', rest)" "out = (device, ds') # rest"
      by (auto simp: d map_sum_Inr_iff)
    moreover have "all_ready ds'"
      using one Cons.prems(2) unfolding recover_device_def d
      by (intro recover_names_all_ready [of sha256 loads now fresh device "sort (map fst ds)" ds names ds']) force+
    then have "recover_device sha256 loads now' fresh' device ds' = Inr ([], ds')"
      unfolding recover_device_def by (rule recover_names_ready) simp
    ultimately show ?thesis using Cons.IH Cons.prems(2) False by (simp add: d)
  qed
qed simp

text \<open>
  Recovery runs once. After a recovery that returned, running it again, at any later time,
  recovers nothing and changes nothing: every directory carries its marker.
\<close>

theorem recovery_idempotent:
  assumes "recover_incomplete_spool sha256 loads now fresh ids devices = Inr (rs, out)"
    and "list_all (\<lambda>(device, ds). distinct (map fst ds)) devices"
  shows "recover_incomplete_spool sha256 loads now' fresh' ids out = Inr ([], out)"
proof -
  have "list_all (\<lambda>(device, ds). distinct (map fst ds)) (sort_key fst devices)"
    using assms(2) by (simp add: list_all_iff)
  with recover_spool_again [OF assms(1) [unfolded recover_incomplete_spool_def]] have
    out: "map fst out = map fst (sort_key fst devices)" "recover_spool sha256 loads now' fresh' ids out = Inr ([], out)"
    by blast+
  have "sort_key fst out = out"
    by (rule sort_key_id_if_sorted) (simp only: out(1) sorted_sort_key)
  with out(2) show ?thesis by (simp add: recover_incomplete_spool_def)
qed

section \<open>What stops a recovery\<close>

lemma read_line_examples:
  "read_line [49, 10] = Some (JInt 1)"
  "read_line (canonical_json (JObj [(''session'', JObj [])])) = Some (JObj [(''session'', JObj [])])"
  by code_simp+

text \<open>
  One bad line or one bad session file stops the recovery of everything after it. A timeline
  whose first line is a JSON number, or a session file whose session has no job identifier, makes the
  whole recovery raise, so no later directory of any device is recovered and the capture manager does
  not start.
\<close>

theorem recovery_stops:
  "recover_spool sha256 read_line now fresh None
     ((''d'', [(''x.partial'', [(''timeline.jsonl'', [49, 10])])]) # rest) = Inl TimelineNotAnObject \<and>
   recover_spool sha256 read_line now fresh None
     ((''d'', [(''x.partial'', [(''session.json'', canonical_json (JObj [(''session'', JObj [])]))])]) # rest)
     = Inl JobIdMissing"
proof -
  have "inspect_timeline sha256 read_line [49, 10] = Inl AttributeError"
    by (simp add: inspect_timeline_def newline_def inspect_line_def read_line_examples)
  then have "recover_device sha256 read_line now fresh ''d'' [(''x.partial'', [(''timeline.jsonl'', [49, 10])])]
      = Inl TimelineNotAnObject"
    by (simp add: recover_device_def recover_candidate_def has_file_def rebuild_def read_recovery_session_def
        guessed_session_def content_of_def with_job_files_lookup Let_def)
  moreover have "recover_device sha256 read_line now fresh ''d''
      [(''x.partial'', [(''session.json'', canonical_json (JObj [(''session'', JObj [])]))])] = Inl JobIdMissing"
    by (simp add: recover_device_def recover_candidate_def has_file_def rebuild_def read_recovery_session_def
        read_line_examples json_item_def)
  ultimately show ?thesis by simp
qed

section \<open>Examples\<close>

definition remnant :: files where
  "remnant = [(''client.raw'', [27]), (''manifest.json'', [123])]"

lemma remnant_facts: "map_of remnant ''client.raw'' = Some [27]" "map_of remnant ''manifest.json'' = Some [123]"
  "map_of remnant ''.ready'' = None" "read_line [123] = None" "read_line [] = None"
  by (simp add: remnant_def, simp add: remnant_def, simp add: remnant_def, code_simp, code_simp)

lemma remnant_evidence: "evidence_of read_line ''0'' remnant = Some (preserve_manifest ''0'' remnant)"
  by (simp add: evidence_of_def has_file_def content_of_def trusted_job_id_def remnant_facts)

lemma remnant_recovers:
  "\<exists>gs. recover_candidate toy_digest read_line ''now'' ''0'' ''d'' [''j.partial''] ''j.partial'' remnant = Inr (Some (''j'', gs))"
proof -
  have "finish_name [''j.partial''] ''j.partial'' = Inr ''j''"
    by (simp add: finish_name_def removesuffix_def ends_with_def)
  moreover have "content_of ''timeline.jsonl'' (with_job_files (preserve_manifest ''0'' remnant)) = []"
    by (simp add: content_of_def with_job_files_lookup preserve_manifest_def has_file_def remnant_def job_file_names_def)
  moreover have "map_of (preserve_manifest ''0'' remnant) ''session.json'' = None"
    by (simp add: preserve_manifest_def has_file_def remnant_def)
  moreover have "inspect_timeline toy_digest read_line [] = Inr new_inspection" by (simp add: inspect_timeline_def)
  ultimately show ?thesis
    by (simp add: recover_candidate_def has_file_def content_of_def [of "''manifest.json''"] trusted_job_id_def
        remnant_facts rebuild_def read_recovery_session_def guessed_session_def Let_def)
qed

theorem recovery_preserves_witness:
  "\<exists>gs. recover_candidate toy_digest read_line ''now'' ''0'' ''d'' [''j.partial''] ''j.partial'' remnant = Inr (Some (''j'', gs)) \<and>
     map_of gs ''client.raw'' = Some [27]"
proof -
  obtain gs where gs: "recover_candidate toy_digest read_line ''now'' ''0'' ''d'' [''j.partial''] ''j.partial'' remnant
      = Inr (Some (''j'', gs))"
    using remnant_recovers by blast
  have "\<not> has_file (''manifest.untrusted.'' @ ''0'' @ ''.json'') remnant" by (simp add: has_file_def remnant_def)
  from recovery_preserves [OF gs this remnant_facts(1)] gs show ?thesis by auto
qed

theorem recovery_marks_uncertainty_witness:
  "\<exists>gs m. recover_candidate toy_digest read_line ''now'' ''0'' ''d'' [''j.partial''] ''j.partial'' remnant = Inr (Some (''j'', gs)) \<and>
     map_of gs ''manifest.json'' = Some (canonical_json (JObj m) @ [newline]) \<and> get m ''status'' = JStr ''PARTIAL''"
proof -
  obtain gs where gs: "recover_candidate toy_digest read_line ''now'' ''0'' ''d'' [''j.partial''] ''j.partial'' remnant
      = Inr (Some (''j'', gs))"
    using remnant_recovers by blast
  from recovery_marks_uncertainty [OF gs remnant_evidence] gs show ?thesis by blast
qed

theorem crash_recovery_witness:
  "\<exists>s gs m. appends toy_digest example_events (open_spool example_descriptor) = Some s \<and>
     recover_candidate toy_digest read_line ''now'' ''0'' ''d'' [''j.partial''] ''j.partial'' (job_files s) = Inr (Some (''j'', gs)) \<and>
     map_of gs ''manifest.json'' = Some (canonical_json (JObj m) @ [newline]) \<and> get m ''storage_complete'' = JBool True"
proof -
  obtain s where s: "appends toy_digest example_events (open_spool example_descriptor) = Some s"
    using example_appends by blast
  have facts: "list_all (observable []) example_events" "distinct (map observed_sequence example_events)"
    "ends_with ''.partial'' ''j.partial''" "removesuffix ''.partial'' ''j.partial'' \<notin> set [''j.partial'']"
    "removesuffix ''.partial'' ''j.partial'' = ''j''"
    by (simp_all add: example_events_def example_event_def observable_def removesuffix_def ends_with_def)
  from crash_recovery [OF read_line.loads_canonical s facts(1-4), of "''now''" "''0''" "''d''"] s
  show ?thesis unfolding facts(5) by blast
qed

theorem recovery_idempotent_witness:
  "recover_incomplete_spool toy_digest read_line ''now'' ''0'' None [(''d'', [])] = Inr ([], [(''d'', [])]) \<and>
   recover_incomplete_spool toy_digest read_line ''later'' ''1'' None [(''d'', [])] = Inr ([], [(''d'', [])])"
proof -
  have one: "recover_incomplete_spool toy_digest read_line ''now'' ''0'' None [(''d'', [])] = Inr ([], [(''d'', [])])"
    by (simp add: recover_incomplete_spool_def recover_device_def)
  with recovery_idempotent [OF one] show ?thesis by simp
qed

end
