(* ===== verification/Rules.thy ===== *)
theory Rules imports Correlate begin

text \<open>
  The rule handlers of \<^verbatim>\<open>fraud/engine.py\<close>: each reads the context of one transaction and answers with
  the data of a finding, with nothing, or with the exception the code raises. Texts that embed a
  \<^verbatim>\<open>Decimal\<close>, a time or an identifier keep the value itself (\<open>evidence_value\<close>), since its rendering
  depends on more than the value.
\<close>

section \<open>Values\<close>

datatype evidence_value =
    EvNone
  | EvBool bool
  | EvInt int
  | EvDec rat
  | EvPercent rat
  | EvText string
  | EvUuid uuid
  | EvTime timestamp
  | EvDate int
  | EvType document_type
  | EvEvent order_event_type
  | EvChange line_change_type
  | EvSpan source_span
  | EvJson metadata
  | EvList "evidence_value list"
  | EvDict "(string \<times> evidence_value) list"

type_synonym evidence = "(string \<times> evidence_value) list"

text \<open>A rule parameter, as the configuration stores it; a float stands for its shortest decimal text.\<close>

datatype param = PNone | PBool bool | PInt int | PDecimal rat | PFloat rat | PText string

datatype fraud_error =
    InvalidDecimal
  | InvalidInteger
  | MissingDescription
  | DuplicateRuleCodes
  | UnsupportedRules "string list"

record rule_definition =
  code_of_rule :: string
  version :: int
  enabled :: bool
  severity :: alert_severity
  rule_weight :: rat
  parameters :: "(string \<times> param) list"

text \<open>\<^verbatim>\<open>_decimal(rule.parameters.get(key), default)\<close>\<close>

definition decimal_param :: "rule_definition \<Rightarrow> string \<Rightarrow> rat \<Rightarrow> fraud_error + rat" where
  "decimal_param rule key standard = (case map_of (parameters rule) key of
      None \<Rightarrow> Inr standard
    | Some PNone \<Rightarrow> Inr standard
    | Some (PDecimal x) \<Rightarrow> Inr x
    | Some (PFloat x) \<Rightarrow> Inr x
    | Some (PInt n) \<Rightarrow> Inr (of_int n)
    | Some (PBool b) \<Rightarrow> Inl InvalidDecimal
    | Some (PText t) \<Rightarrow> (case decimal_of_text t of Some x \<Rightarrow> Inr x | None \<Rightarrow> Inl InvalidDecimal))"

text \<open>\<^verbatim>\<open>int(rule.parameters.get(key, default))\<close>\<close>

definition int_param :: "rule_definition \<Rightarrow> string \<Rightarrow> int \<Rightarrow> fraud_error + int" where
  "int_param rule key standard = (case map_of (parameters rule) key of
      None \<Rightarrow> Inr standard
    | Some PNone \<Rightarrow> Inl InvalidInteger
    | Some (PDecimal x) \<Rightarrow> Inr (trunc x)
    | Some (PFloat x) \<Rightarrow> Inr (trunc x)
    | Some (PInt n) \<Rightarrow> Inr n
    | Some (PBool b) \<Rightarrow> Inr (if b then 1 else 0)
    | Some (PText t) \<Rightarrow> (case int_of_text t of Some n \<Rightarrow> Inr n | None \<Rightarrow> Inl InvalidInteger))"

section \<open>Contexts and findings\<close>

record operator_stats =
  stats_operator :: string
  transaction_count :: int
  anomalous_transaction_count :: int
  void_or_cancellation_count :: int

datatype whitelist_scope = GLOBAL | TRANSACTION | DEVICE | OPERATOR | DOCUMENT | REFERENCE

record whitelist_entry =
  wl_id :: uuid
  wl_rule_code :: "string option"
  scope :: whitelist_scope
  scope_value :: string
  wl_reason :: string
  valid_from :: timestamp
  valid_until :: "timestamp option"

record fraud_context =
  cx_transaction :: transaction
  order_events :: "order_event list"
  comparison_documents :: "document list"
  cx_operator_stats :: "operator_stats option"
  whitelist_entries :: "whitelist_entry list"
  evaluated_at :: timestamp

record finding_data =
  fd_description :: string
  fd_explanation :: "evidence_value list"
  fd_evidence :: "evidence list"
  fd_score :: int
  fd_confidence :: int
  fd_document_ids :: "uuid list"

type_synonym rule_handler = "fraud_context \<Rightarrow> rule_definition \<Rightarrow> fraud_error + finding_data option"

definition cx_documents :: "fraud_context \<Rightarrow> document list" where
  "cx_documents cx = tx_documents (cx_transaction cx)"

definition valid_fiscal_document :: "document \<Rightarrow> bool" where
  "valid_fiscal_document d = (doc_type d \<in> fiscal_types \<and> complete d \<and> total d \<noteq> None)"

definition opening_types :: "document_type set" where
  "opening_types = {ORDER, PRE_BILL}"

text \<open>\<^verbatim>\<open>value or ZERO\<close>\<close>

definition or_nought :: "rat option \<Rightarrow> rat" where
  "or_nought v = (case v of None \<Rightarrow> 0 | Some x \<Rightarrow> x)"

text \<open>\<^verbatim>\<open>str(value)\<close> of an optional amount, and \<^verbatim>\<open>None if value is None else str(value)\<close>.\<close>

definition ev_str :: "rat option \<Rightarrow> evidence_value" where
  "ev_str v = (case v of None \<Rightarrow> EvText ''None'' | Some x \<Rightarrow> EvDec x)"

definition ev_opt :: "rat option \<Rightarrow> evidence_value" where
  "ev_opt v = (case v of None \<Rightarrow> EvNone | Some x \<Rightarrow> EvDec x)"

definition ev_text :: "string option \<Rightarrow> evidence_value" where
  "ev_text v = (case v of None \<Rightarrow> EvNone | Some s \<Rightarrow> EvText s)"

definition ev_span :: "source_span option \<Rightarrow> evidence_value" where
  "ev_span v = (case v of None \<Rightarrow> EvNone | Some s \<Rightarrow> EvSpan s)"

definition count_ev :: "'a list \<Rightarrow> evidence_value" where
  "count_ev xs = EvInt (int (length xs))"

definition minute :: int where
  "minute = 60 * microsecond"

definition amount_evidence :: "fraud_context \<Rightarrow> evidence" where
  "amount_evidence cx = (let tx = cx_transaction cx in
     [(''kind'', EvText ''amount_comparison''),
      (''prebill_total'', ev_str (prebill_total tx)),
      (''fiscal_aggregate'', EvDec (fiscal_total tx)),
      (''difference_amount'', ev_str (difference_amount tx)),
      (''difference_percent'', ev_str (difference_percent tx)),
      (''split_payment'', EvBool (split_payment tx))])"

section \<open>Reductions after the pre-bill\<close>

definition settles :: "document \<Rightarrow> bool" where
  "settles d = (doc_type d = MANAGEMENT_DOCUMENT \<and> total d \<noteq> None \<and> economic_close d)"

definition closes_prebill :: "document \<Rightarrow> bool" where
  "closes_prebill d = (valid_fiscal_document d \<or> doc_type d = CANCELLATION \<or> settles d)"

text \<open>Both thresholds of the amount rules: the percentage is read only when the amount suffices.\<close>

definition reaches_thresholds :: "rule_definition \<Rightarrow> rat \<Rightarrow> rat \<Rightarrow> fraud_error + bool" where
  "reaches_thresholds rule difference percent =
     attempt (decimal_param rule ''minimum_amount'' 1) (\<lambda>minimum.
       if difference < minimum then Inr False
       else attempt (decimal_param rule ''minimum_percent'' 20) (\<lambda>limit. Inr (\<not> percent < limit)))"

definition change_evidence :: "line_change \<Rightarrow> evidence" where
  "change_evidence c =
     [(''kind'', EvText ''post_prebill_line_change''),
      (''change_type'', EvChange (change_type c)),
      (''item_key'', EvText (item_key c)),
      (''description'', ev_text (chg_description c)),
      (''quantity_before'', ev_opt (before_quantity c)),
      (''quantity_after'', ev_opt (after_quantity c)),
      (''unit_price_before'', ev_opt (before_unit_price c)),
      (''unit_price_after'', ev_opt (after_unit_price c))]"

definition status_evidence :: "transaction \<Rightarrow> rat \<Rightarrow> rat \<Rightarrow> rat \<Rightarrow> document list \<Rightarrow> evidence" where
  "status_evidence tx pre difference percent closures =
     [(''kind'', EvText ''post_prebill_economic_outcome''),
      (''prebill_total'', EvDec pre),
      (''observed_final_total'', EvDec (observed_final_total tx)),
      (''fiscal_aggregate'', EvDec (fiscal_total tx)),
      (''difference_amount'', EvDec difference),
      (''difference_percent'', EvDec percent),
      (''fiscal_conclusive'', EvBool (list_ex valid_fiscal_document closures)),
      (''cancelled_or_partial'', EvBool (list_ex (\<lambda>d. doc_type d = CANCELLATION \<or> \<not> complete d) closures)),
      (''room_settlement'', EvBool (list_ex
         (\<lambda>d. get (raw_metadata d) ''settlement_kind'' = JStr ''ROOM_CHARGE'') closures))]"

definition post_prebill_change :: rule_handler where
  "post_prebill_change cx rule = (let tx = cx_transaction cx in case prebill_total tx of
      None \<Rightarrow> Inr None
    | Some pre \<Rightarrow> if pre \<le> 0 then Inr None
        else let closures = filter closes_prebill (tx_documents tx);
                 difference = or_nought (difference_amount tx);
                 percent = or_nought (difference_percent tx)
          in if closures = [] then Inr None
             else attempt (reaches_thresholds rule difference percent) (\<lambda>reached.
               if \<not> reached then Inr None
               else Inr (Some \<lparr>
                 fd_description = ''Riduzione del valore di vendita dopo il preconto'',
                 fd_explanation = [EvText ''Il preconto era '', EvDec pre,
                   EvText '' EUR; l'esito economico osservato e' '', EvDec (observed_final_total tx),
                   EvText '' EUR, con differenza '', EvDec difference, EvText '' EUR ('', EvDec percent,
                   EvText ''%). L'esito fiscale puo' essere annullato, parziale o non conclusivo e richiede revisione umana.''],
                 fd_evidence = status_evidence tx pre difference percent closures
                   # map change_evidence (filter (\<lambda>c. change_type c \<noteq> UNCHANGED) (tx_line_changes tx)),
                 fd_score = min 100 (70 + trunc (dec_mul percent (3 / 10))),
                 fd_confidence = (if correlation tx \<noteq> None then 95 else 70),
                 fd_document_ids = map doc_id (tx_documents tx)\<rparr>)))"

definition prebill_amount_drop :: rule_handler where
  "prebill_amount_drop cx rule = (let tx = cx_transaction cx in case prebill_total tx of
      None \<Rightarrow> Inr None
    | Some pre \<Rightarrow> if pre \<le> 0 \<or> \<not> list_ex valid_fiscal_document (tx_documents tx) then Inr None
        else let difference = or_nought (difference_amount tx); percent = or_nought (difference_percent tx)
          in attempt (reaches_thresholds rule difference percent) (\<lambda>reached.
               if \<not> reached then Inr None
               else Inr (Some \<lparr>
                 fd_description = ''Riduzione significativa tra preconto e totale fiscale'',
                 fd_explanation = [EvText (''Il preconto '' @ [CHR 0xE8, CHR '' '']), EvDec pre,
                   EvText '' EUR e i documenti fiscali correlati sommano '', EvDec (fiscal_total tx),
                   EvText '' EUR: riduzione '', EvDec difference, EvText '' EUR ('', EvDec percent, EvText ''%).''],
                 fd_evidence = [amount_evidence cx],
                 fd_score = min 100 (60 + trunc (dec_mul percent (6 / 10))),
                 fd_confidence = (if correlation tx \<noteq> None then 95 else 65),
                 fd_document_ids = []\<rparr>)))"

definition removed_evidence :: "line_change \<Rightarrow> evidence" where
  "removed_evidence c =
     [(''kind'', EvText ''line_removed''), (''item_key'', EvText (item_key c)),
      (''description'', ev_text (chg_description c)),
      (''quantity_before'', ev_str (before_quantity c)), (''total_before'', ev_str (before_total c)),
      (''source'', ev_span (before_source c))]"

definition item_removed :: rule_handler where
  "item_removed cx rule = (let gone = filter (\<lambda>c. change_type c = REMOVED) (tx_line_changes (cx_transaction cx)) in
     if gone = [] then Inr None
     else Inr (Some \<lparr>
       fd_description = ''Articoli rimossi dopo il preconto'',
       fd_explanation = [EvText ''Rilevate '', count_ev gone,
         EvText '' righe presenti nel preconto ma assenti nel fiscale.''],
       fd_evidence = map removed_evidence gone,
       fd_score = min 100 (65 + int (length gone) * 8), fd_confidence = 90, fd_document_ids = []\<rparr>))"

definition price_cut :: "line_change \<Rightarrow> bool" where
  "price_cut c = (change_type c \<noteq> ADDED \<and> change_type c \<noteq> REMOVED \<and>
     (case (before_unit_price c, after_unit_price c) of (Some b, Some a) \<Rightarrow> a < b | _ \<Rightarrow> False))"

definition price_evidence :: "line_change \<Rightarrow> evidence" where
  "price_evidence c = (let b = or_nought (before_unit_price c); a = or_nought (after_unit_price c) in
     [(''kind'', EvText ''price_reduction''), (''item_key'', EvText (item_key c)),
      (''description'', ev_text (chg_description c)), (''before'', EvDec b), (''after'', EvDec a),
      (''difference'', EvDec (b - a)), (''before_source'', ev_span (before_source c)),
      (''after_source'', ev_span (after_source c))])"

definition price_reduced :: rule_handler where
  "price_reduced cx rule = (let cuts = filter price_cut (tx_line_changes (cx_transaction cx)) in
     if cuts = [] then Inr None
     else Inr (Some \<lparr>
       fd_description = ''Prezzo ridotto dopo il preconto'',
       fd_explanation = [EvText ''Rilevate '', count_ev cuts, EvText '' riduzioni di prezzo unitario.''],
       fd_evidence = map price_evidence cuts,
       fd_score = min 100 (65 + int (length cuts) * 10), fd_confidence = 90, fd_document_ids = []\<rparr>))"

text \<open>
  The percentage of a reduction, \<open>None\<close> when the unit price did not fall from a positive value. A unit price has at
  most four decimals and is below \<open>10 ^ 15\<close>, so the percentage is below \<open>10 ^ 22\<close> and the digits of the rounded value
  fit the decimal context.
\<close>

definition reduction_percent :: "line_change \<Rightarrow> rat option" where
  "reduction_percent c = (case (before_unit_price c, after_unit_price c) of
      (Some b, Some a) \<Rightarrow> (if b \<le> 0 \<or> b \<le> a then None
        else Some (quantize 4 (dec_mul (dec_div (b - a) b) 100)))
    | _ \<Rightarrow> None)"

definition extreme_changes :: "rat \<Rightarrow> line_change list \<Rightarrow> (line_change \<times> rat) list" where
  "extreme_changes threshold cs = List.map_filter (\<lambda>c. case reduction_percent c of
      None \<Rightarrow> None | Some p \<Rightarrow> if threshold \<le> p then Some (c, p) else None) cs"

definition extreme_evidence :: "line_change \<times> rat \<Rightarrow> evidence" where
  "extreme_evidence cp = (case cp of (c, p) \<Rightarrow>
     [(''kind'', EvText ''extreme_price_reduction''), (''item_key'', EvText (item_key c)),
      (''description'', ev_text (chg_description c)), (''before'', ev_str (before_unit_price c)),
      (''after'', ev_str (after_unit_price c)), (''reduction_percent'', EvDec p)])"

definition extreme_price_change :: rule_handler where
  "extreme_price_change cx rule = attempt (decimal_param rule ''minimum_percent'' 70) (\<lambda>threshold.
     let extreme = extreme_changes threshold (tx_line_changes (cx_transaction cx));
         highest = Max (set (map snd extreme))
     in if extreme = [] then Inr None
        else Inr (Some \<lparr>
          fd_description = ''Variazione estrema del prezzo'',
          fd_explanation = [EvText (''Almeno un prezzo '' @ [CHR 0xE8] @ '' stato ridotto del ''), EvDec highest,
            EvText ''%, oltre la soglia '', EvDec threshold, EvText ''%.''],
          fd_evidence = map extreme_evidence extreme,
          fd_score = min 100 (75 + trunc (dec_div highest 5)), fd_confidence = 92, fd_document_ids = []\<rparr>))"

section \<open>References, closes and voids\<close>

text \<open>\<^verbatim>\<open>" ".join(str(value).upper().split())\<close>\<close>

definition upper_words :: "string \<Rightarrow> string" where
  "upper_words s = squeeze (upper s)"

definition reference_metadata_keys :: "string list" where
  "reference_metadata_keys = [''reference'', ''order_reference'', ''document_reference'', ''transaction_reference'']"

definition document_references :: "document \<Rightarrow> string list" where
  "document_references d = filter (\<lambda>s. s \<noteq> []) (map upper_words
     (List.map_filter id [order_code d, external_document_code d]
      @ map py_str (filter (\<lambda>v. v \<noteq> JNull) (map (get (raw_metadata d)) reference_metadata_keys))))"

text \<open>The references that at least two documents carry, with their documents, in order.\<close>

definition carriers :: "document list \<Rightarrow> string \<Rightarrow> uuid list" where
  "carriers docs r = sorted_set (map doc_id (filter (\<lambda>d. r \<in> set (document_references d)) docs))"

definition shared_references :: "document list \<Rightarrow> (string \<times> uuid list) list" where
  "shared_references docs = filter (\<lambda>(r, ids). 2 \<le> length ids)
     (map (\<lambda>r. (r, carriers docs r)) (sorted_set (concat (map document_references docs))))"

definition same_reference_different_amount :: rule_handler where
  "same_reference_different_amount cx rule =
     (let tx = cx_transaction cx; docs = tx_documents tx; shared = shared_references docs;
          difference = \<bar>or_nought (difference_amount tx)\<bar>
      in if shared = [] \<or> prebill_total tx = None \<or> \<not> list_ex valid_fiscal_document docs then Inr None
         else attempt (decimal_param rule ''minimum_amount'' 1) (\<lambda>minimum.
           if difference < minimum then Inr None
           else Inr (Some \<lparr>
             fd_description = ''Stesso riferimento con importi differenti'',
             fd_explanation = [EvText ''Il riferimento condiviso collega il preconto al totale fiscale aggregato, ma gli importi differiscono di '',
               EvDec difference, EvText '' EUR.''],
             fd_evidence = [amount_evidence cx @ [(''shared_references'',
               EvDict (map (\<lambda>(r, ids). (r, EvList (map EvUuid ids))) shared))]],
             fd_score = min 100 (65 + trunc difference), fd_confidence = 90, fd_document_ids = []\<rparr>)))"

definition order_without_fiscal_close :: rule_handler where
  "order_without_fiscal_close cx rule =
     (let docs = cx_documents cx; sources = filter (\<lambda>d. doc_type d \<in> opening_types) docs
      in if sources = [] \<or> list_ex (\<lambda>d. valid_fiscal_document d \<or> settles d) docs then Inr None
         else attempt (int_param rule ''close_minutes'' 120) (\<lambda>minutes.
           let latest = Max (set (map document_time sources)) in
           if evaluated_at cx - latest < minutes * minute then Inr None
           else Inr (Some \<lparr>
             fd_description = ''Ordine senza chiusura fiscale'',
             fd_explanation = [EvText ''Nessun documento fiscale osservato entro '', EvInt minutes, EvText '' minuti.''],
             fd_evidence = [[(''kind'', EvText ''missing_fiscal_close''), (''last_source_at'', EvTime latest),
               (''threshold_minutes'', EvInt minutes)]],
             fd_score = 70, fd_confidence = 75, fd_document_ids = map doc_id sources\<rparr>)))"

definition orphan_evidence :: "document \<Rightarrow> evidence" where
  "orphan_evidence d = [(''kind'', EvText ''orphan_fiscal_document''), (''document_id'', EvUuid (doc_id d)),
     (''external_code'', ev_text (external_document_code d)), (''total'', ev_str (total d))]"

definition fiscal_without_source_order :: rule_handler where
  "fiscal_without_source_order cx rule =
     (let docs = cx_documents cx; fiscals = filter (\<lambda>d. doc_type d \<in> fiscal_types) docs
      in if fiscals = [] \<or> list_ex (\<lambda>d. doc_type d \<in> source_types) docs then Inr None
         else Inr (Some \<lparr>
           fd_description = ''Documento fiscale senza ordine sorgente'',
           fd_explanation = [EvText (''Il documento fiscale non '' @ [CHR 0xE8] @ '' correlato a comanda, ordine o preconto.'')],
           fd_evidence = map orphan_evidence fiscals,
           fd_score = 65, fd_confidence = 70, fd_document_ids = map doc_id fiscals\<rparr>))"

definition cancellation_ids :: "document list \<Rightarrow> uuid list" where
  "cancellation_ids docs = sorted_set (map doc_id (filter (\<lambda>d. doc_type d \<in> {CANCELLATION, REFUND}) docs))"

definition removal_events :: "fraud_context \<Rightarrow> order_event list" where
  "removal_events cx = filter (\<lambda>e. event_type e = ITEM_REMOVED \<and>
     \<not> (\<exists>i \<in> set (cancellation_ids (cx_documents cx)). source_document_id e = Some i)) (order_events cx)"

definition void_events :: "fraud_context \<Rightarrow> order_event list" where
  "void_events cx = filter (\<lambda>e. event_type e = ORDER_VOIDED) (order_events cx)"

definition void_count :: "fraud_context \<Rightarrow> nat" where
  "void_count cx =
     (let cancelled = cancellation_ids (cx_documents cx);
          represented = remdups (List.map_filter source_document_id (void_events cx))
      in length (removal_events cx) + length represented
         + length (filter (\<lambda>e. source_document_id e = None) (void_events cx))
         + length (filter (\<lambda>i. i \<notin> set represented) cancelled))"

definition excessive_void :: rule_handler where
  "excessive_void cx rule = attempt (int_param rule ''minimum_count'' 3) (\<lambda>threshold.
     let n = int (void_count cx) in
     if n < threshold then Inr None
     else Inr (Some \<lparr>
       fd_description = ''Frequenza elevata di annulli o rimozioni'',
       fd_explanation = [EvText ''La transazione contiene '', EvInt n, EvText '' annulli/rimozioni; soglia '',
         EvInt threshold, EvText ''.''],
       fd_evidence = [[(''kind'', EvText ''void_frequency''), (''count'', EvInt n), (''threshold'', EvInt threshold),
         (''event_ids'', EvList (map (\<lambda>e. EvUuid (event_id e)) (removal_events cx @ void_events cx))),
         (''cancellation_document_ids'', EvList (map EvUuid (cancellation_ids (cx_documents cx))))]],
       fd_score = min 100 (60 + n * 8), fd_confidence = 85, fd_document_ids = []\<rparr>))"

definition copy_evidence :: "document \<Rightarrow> evidence" where
  "copy_evidence d = [(''kind'', EvText ''copy_or_reprint''), (''document_id'', EvUuid (doc_id d)),
     (''type'', EvType (doc_type d)), (''captured_at'', EvTime (captured_at d))]"

definition reprint_anomaly :: rule_handler where
  "reprint_anomaly cx rule =
     (let copies = filter (\<lambda>d. doc_type d \<in> {REPRINT, CONFORMING_COPY}) (cx_documents cx)
      in attempt (int_param rule ''maximum_count'' 2) (\<lambda>maximum.
           if int (length copies) \<le> maximum then Inr None
           else Inr (Some \<lparr>
             fd_description = ''Numero anomalo di ristampe o copie conformi'',
             fd_explanation = [EvText ''Osservate '', count_ev copies, EvText '' copie/ristampe; limite configurato '',
               EvInt maximum, EvText ''.''],
             fd_evidence = map copy_evidence copies,
             fd_score = min 100 (55 + int (length copies) * 8), fd_confidence = 90,
             fd_document_ids = map doc_id copies\<rparr>)))"

section \<open>Series of documents\<close>

text \<open>The documents of the window and of the transaction, each identifier once.\<close>

fun unseen :: "uuid list \<Rightarrow> document list \<Rightarrow> document list" where
  "unseen seen [] = []"
| "unseen seen (d # ds) = (if doc_id d \<in> set seen then unseen seen ds else d # unseen (doc_id d # seen) ds)"

definition window_documents :: "fraud_context \<Rightarrow> document list" where
  "window_documents cx = unseen [] (comparison_documents cx @ cx_documents cx)"

definition transaction_ids :: "fraud_context \<Rightarrow> uuid list" where
  "transaction_ids cx = map doc_id (cx_documents cx)"

text \<open>A series: device, type, business date and prefix of the printed number.\<close>

type_synonym series = "string \<times> document_type \<times> int \<times> string"

definition push_series :: "document \<Rightarrow> (series, (nat \<times> document) list) dict \<Rightarrow> (series, (nat \<times> document) list) dict" where
  "push_series d g = (case numeric_suffix (external_document_code d) of
      None \<Rightarrow> g
    | Some (prefix, n) \<Rightarrow> dict_push (source_device_id d, doc_type d, date_of (document_time d), prefix) (n, d) g)"

definition series_of :: "document list \<Rightarrow> (series, (nat \<times> document) list) dict" where
  "series_of docs = fold push_series docs []"

text \<open>The holes between neighbours of a series that touch the transaction.\<close>

definition series_gaps :: "uuid list \<Rightarrow> series \<times> (nat \<times> document) list \<Rightarrow> (series \<times> (nat \<times> document) \<times> (nat \<times> document)) list" where
  "series_gaps ids sv = (case sv of (s, values) \<Rightarrow>
     (let ordered = sort_key fst values in
      map (\<lambda>(a, b). (s, a, b)) (filter (\<lambda>(a, b). fst a + 1 < fst b \<and>
        (doc_id (snd a) \<in> set ids \<or> doc_id (snd b) \<in> set ids)) (zip ordered (tl ordered)))))"

definition sequence_gaps :: "fraud_context \<Rightarrow> (series \<times> (nat \<times> document) \<times> (nat \<times> document)) list" where
  "sequence_gaps cx = concat (map (series_gaps (transaction_ids cx)) (series_of (window_documents cx)))"

definition gap_ids :: "series \<times> (nat \<times> document) \<times> (nat \<times> document) \<Rightarrow> uuid list" where
  "gap_ids g = (case g of (_, a, b) \<Rightarrow> [doc_id (snd a), doc_id (snd b)])"

definition gap_evidence :: "series \<times> (nat \<times> document) \<times> (nat \<times> document) \<Rightarrow> evidence" where
  "gap_evidence g = (case g of ((device, ty, day, prefix), a, b) \<Rightarrow>
     [(''kind'', EvText ''sequence_gap''), (''source_device_id'', EvText device), (''document_type'', EvType ty),
      (''business_date'', EvDate day), (''prefix'', EvText prefix), (''before'', EvInt (int (fst a))),
      (''after'', EvInt (int (fst b))), (''missing_count'', EvInt (int (fst b) - int (fst a) - 1))])"

definition sequence_gap :: rule_handler where
  "sequence_gap cx rule =
     (let gaps = sequence_gaps cx; involved = sorted_set (concat (map gap_ids gaps))
      in if gaps = [] then Inr None
         else if Min (set involved) \<notin> set (transaction_ids cx) then Inr None
         else Inr (Some \<lparr>
           fd_description = ''Discontinuit'' @ [CHR 0xE0] @ '' nella sequenza dei documenti'',
           fd_explanation = [EvText ''Rilevate '', count_ev gaps,
             EvText ('' discontinuit'' @ [CHR 0xE0] @ '' numeriche nella stessa serie.'')],
           fd_evidence = map gap_evidence gaps,
           fd_score = min 100 (65 + int (length gaps) * 10), fd_confidence = 80,
           fd_document_ids = involved\<rparr>))"

definition document_identity :: "document \<Rightarrow> string" where
  "document_identity d = (case external_document_code d of
      Some c \<Rightarrow> (if c \<noteq> [] then ''CODE:'' @ c else ''HASH:'' @ source_payload_sha256 d)
    | None \<Rightarrow> ''HASH:'' @ source_payload_sha256 d)"

definition identity_groups :: "document list \<Rightarrow> (series, document list) dict" where
  "identity_groups docs = fold (\<lambda>d. dict_push
     (source_device_id d, doc_type d, date_of (document_time d), document_identity d) d) docs []"

definition is_duplicate_group :: "uuid list \<Rightarrow> document list \<Rightarrow> bool" where
  "is_duplicate_group ids ds = (1 < length (remdups (map source_job_id ds)) \<and> 1 < length ds
     \<and> doc_type (hd ds) \<notin> {REPRINT, CONFORMING_COPY, DEVICE_RESPONSE}
     \<and> \<not> (doc_type (hd ds) = MANAGEMENT_DOCUMENT \<and> commercial_reference_code (hd ds) \<noteq> None)
     \<and> list_ex (\<lambda>d. doc_id d \<in> set ids) ds)"

definition duplicate_groups :: "fraud_context \<Rightarrow> document list list" where
  "duplicate_groups cx = filter (is_duplicate_group (transaction_ids cx))
     (map snd (identity_groups (window_documents cx)))"

definition duplicate_evidence :: "document list \<Rightarrow> evidence" where
  "duplicate_evidence ds = [(''kind'', EvText ''duplicate_document''),
     (''document_ids'', EvList (map (\<lambda>d. EvUuid (doc_id d)) ds)),
     (''source_job_ids'', EvList (map (\<lambda>d. EvText (source_job_id d)) ds)),
     (''external_code'', ev_text (external_document_code (hd ds))),
     (''payload_sha256'', EvText (source_payload_sha256 (hd ds)))]"

definition duplicate_document :: rule_handler where
  "duplicate_document cx rule =
     (let groups = duplicate_groups cx; involved = map doc_id (concat groups)
      in if groups = [] then Inr None
         else if Min (set involved) \<notin> set (transaction_ids cx) then Inr None
         else Inr (Some \<lparr>
           fd_description = ''Identificativo o contenuto documento duplicato'',
           fd_explanation = [EvText ''Rilevati '', count_ev groups, EvText '' gruppi duplicati su job distinti.''],
           fd_evidence = map duplicate_evidence groups,
           fd_score = min 100 (70 + int (length groups) * 10), fd_confidence = 90,
           fd_document_ids = involved\<rparr>))"

section \<open>Late modifications\<close>

definition non_action_ids :: "document list \<Rightarrow> uuid list" where
  "non_action_ids docs = map doc_id (filter (\<lambda>d. doc_type d \<in>
     {COMMERCIAL_DOCUMENT, MANAGEMENT_DOCUMENT, CONFORMING_COPY, REPRINT, DEVICE_RESPONSE}) docs)"

definition modification_types :: "order_event_type set" where
  "modification_types = {ITEM_ADDED, ITEM_REMOVED, EV_QUANTITY_CHANGED, EV_PRICE_CHANGED, DISCOUNT_APPLIED, DISCOUNT_REMOVED}"

definition fiscal_times :: "fraud_context \<Rightarrow> timestamp list" where
  "fiscal_times cx = map document_time (filter valid_fiscal_document (cx_documents cx))"

definition late_events :: "fraud_context \<Rightarrow> int \<Rightarrow> order_event list" where
  "late_events cx window = (let fiscal_time = Min (set (fiscal_times cx)) in
     filter (\<lambda>e. event_type e \<in> modification_types \<and> fiscal_time < occurred_at e
       \<and> occurred_at e \<le> fiscal_time + window
       \<and> \<not> (\<exists>i \<in> set (non_action_ids (cx_documents cx)). source_document_id e = Some i)) (order_events cx))"

definition late_evidence :: "timestamp \<Rightarrow> order_event \<Rightarrow> evidence" where
  "late_evidence fiscal_time e = [(''kind'', EvText ''late_order_event''), (''event_id'', EvUuid (event_id e)),
     (''event_type'', EvEvent (event_type e)), (''occurred_at'', EvTime (occurred_at e)),
     (''fiscal_at'', EvTime fiscal_time), (''details'', EvJson (details e))]"

definition late_modification :: rule_handler where
  "late_modification cx rule =
     (if fiscal_times cx = [] then Inr None
      else attempt (int_param rule ''window_minutes'' 5) (\<lambda>minutes.
        let events = late_events cx (minutes * minute) in
        if events = [] then Inr None
        else Inr (Some \<lparr>
          fd_description = ''Modifica tardiva dell'ordine'',
          fd_explanation = [EvText ''Rilevate '', count_ev events, EvText '' modifiche dopo la chiusura ed entro '',
            EvInt minutes, EvText '' minuti.''],
          fd_evidence = map (late_evidence (Min (set (fiscal_times cx)))) events,
          fd_score = min 100 (65 + int (length events) * 8), fd_confidence = 90, fd_document_ids = []\<rparr>)))"

section \<open>Lines and totals\<close>

definition technical_labels :: "string list" where
  "technical_labels = [''IVA'', ''TOT'', ''TOTALE'', ''TOTALE COMPLESSIVO'', ''RESTO'', ''CONTANTI'',
     ''PAGAMENTO CONTANTE'', ''IMPORTO PAGATO'', ''IMPONIBILE'', ''ALIQUOTA IVA'']"

definition technical_prefixes :: "string list" where
  "technical_prefixes = [''IVA '', ''TOT '', ''TOTALE '', ''RESTO '', ''CONTANTI '', ''PAGAMENTO '',
     ''IMPORTO PAGATO '', ''IMPONIBILE '', ''ALIQUOTA IVA '']"

definition technical_non_sale_line :: "string \<Rightarrow> bool" where
  "technical_non_sale_line text =
     (let normalized = squeeze (map (\<lambda>c. if is_alnum c then c else CHR '' '') (upper text))
      in normalized \<in> set technical_labels \<or> list_ex (\<lambda>p. starts_with p normalized) technical_prefixes)"

definition line_price :: "document_line \<Rightarrow> rat option" where
  "line_price l = (case modified_unit_price l of Some p \<Rightarrow> Some p | None \<Rightarrow> unit_price l)"

definition line_values :: "document_line \<Rightarrow> rat list" where
  "line_values l = List.map_filter id [line_price l, line_total l]"

text \<open>
  A line with a value that is not positive, unless all values are zero or more and its description is
  a technical label. A missing description raises \<^verbatim>\<open>AttributeError\<close> there.
\<close>

definition suspicious_line :: "document_line \<Rightarrow> fraud_error + bool" where
  "suspicious_line l = (let values = line_values l in
     if values = [] \<or> \<not> list_ex (\<lambda>v. v \<le> 0) values then Inr False
     else if \<not> list_all (\<lambda>v. 0 \<le> v) values then Inr True
     else case description l of None \<Rightarrow> Inl MissingDescription
       | Some s \<Rightarrow> Inr (\<not> technical_non_sale_line s))"

definition line_evidence :: "document \<Rightarrow> document_line \<Rightarrow> evidence" where
  "line_evidence d l = [(''kind'', EvText ''non_positive_item''), (''document_id'', EvUuid (doc_id d)),
     (''line_sequence'', EvInt (int (sequence l))), (''description'', ev_text (description l)),
     (''unit_price'', ev_str (line_price l)), (''line_total'', ev_str (line_total l))]"

definition priced_types :: "document_type set" where
  "priced_types = {ORDER, PRE_BILL, MANAGEMENT_DOCUMENT, COMMERCIAL_DOCUMENT}"

definition priced_lines :: "document list \<Rightarrow> (document \<times> document_line) list" where
  "priced_lines docs = concat (map (\<lambda>d. map (Pair d) (doc_lines d)) (filter (\<lambda>d. doc_type d \<in> priced_types) docs))"

definition non_positive_item :: rule_handler where
  "non_positive_item cx rule =
     (let ls = priced_lines (cx_documents cx) in
      attempt (collect (map (\<lambda>(d, l). suspicious_line l) ls)) (\<lambda>flags.
        let hits = map fst (filter snd (zip ls flags)) in
        if hits = [] then Inr None
        else Inr (Some \<lparr>
          fd_description = ''Articolo con valore nullo o negativo'',
          fd_explanation = [EvText ''Rilevate '', count_ev hits,
            EvText '' righe non positive fuori da annulli, rimborsi e proiezioni tecniche riconosciute.''],
          fd_evidence = map (\<lambda>(d, l). line_evidence d l) hits,
          fd_score = min 100 (65 + int (length hits) * 8), fd_confidence = 90,
          fd_document_ids = sorted_set (map (\<lambda>(d, l). doc_id d) hits)\<rparr>)))"

text \<open>\<^verbatim>\<open>_decimal\<close> of a metadata value; \<open>None\<close> where it raises, or where the value is missing.\<close>

definition metadata_decimal :: "jval \<Rightarrow> rat option" where
  "metadata_decimal v = (case v of JInt n \<Rightarrow> Some (of_int n) | JStr s \<Rightarrow> decimal_of_text s | _ \<Rightarrow> None)"

definition adjustment_keys :: "string list" where
  "adjustment_keys = [''adjustment_total'', ''surcharge_total'', ''rounding_adjustment'']"

definition item_amount :: "jval \<Rightarrow> jval" where
  "item_amount v = (case v of JObj m \<Rightarrow> get m ''amount'' | _ \<Rightarrow> v)"

fun all_some :: "'a option list \<Rightarrow> 'a list option" where
  "all_some [] = Some []"
| "all_some (None # xs) = None"
| "all_some (Some x # xs) = map_option ((#) x) (all_some xs)"

text \<open>The adjustments a document declares; \<open>None\<close> when one of them is unknown.\<close>

definition adjustments_of :: "metadata \<Rightarrow> rat list option" where
  "adjustments_of m =
     (case all_some (map metadata_decimal (List.map_filter (map_of m) adjustment_keys)) of
        None \<Rightarrow> None
      | Some single \<Rightarrow> (case map_of m ''adjustments'' of
          None \<Rightarrow> Some single
        | Some (JList items) \<Rightarrow> map_option ((@) single) (all_some (map (metadata_decimal \<circ> item_amount) items))
        | Some _ \<Rightarrow> None))"

definition line_total_candidates :: "document \<Rightarrow> rat \<Rightarrow> rat list option" where
  "line_total_candidates d line_sum = map_option (\<lambda>adjustments.
     let a = sum_list adjustments in
     sorted_set ([line_sum]
       @ (case discount_total d of None \<Rightarrow> [] | Some x \<Rightarrow> [line_sum - x])
       @ (if adjustments = [] then []
          else (line_sum + a) # (case discount_total d of None \<Rightarrow> [] | Some x \<Rightarrow> [line_sum - x + a]))))
     (adjustments_of (raw_metadata d))"

definition unchecked_types :: "document_type set" where
  "unchecked_types = {ORDER_CHANGE, KITCHEN_ORDER, CANCELLATION, REFUND, CONFORMING_COPY, REPRINT, DEVICE_RESPONSE}"

definition lines_sum :: "document \<Rightarrow> rat" where
  "lines_sum d = (\<Sum>l\<leftarrow>doc_lines d. or_nought (line_total l))"

text \<open>The distance of the declared total from the totals the lines explain, where both are known.\<close>

definition total_distance :: "document \<Rightarrow> (rat \<times> rat list \<times> rat) option" where
  "total_distance d =
     (case total d of None \<Rightarrow> None
      | Some t \<Rightarrow> if doc_type d \<in> unchecked_types \<or> \<not> complete d \<or> doc_lines d = []
            \<or> list_ex (\<lambda>l. line_total l = None) (doc_lines d) then None
          else map_option (\<lambda>cs. (t, cs, Min (set (map (\<lambda>c. \<bar>t - c\<bar>) cs)))) (line_total_candidates d (lines_sum d)))"

definition mismatch_evidence :: "document \<Rightarrow> rat \<times> rat list \<times> rat \<Rightarrow> evidence" where
  "mismatch_evidence d v = (case v of (t, cs, diff) \<Rightarrow>
     [(''kind'', EvText ''total_line_mismatch''), (''document_id'', EvUuid (doc_id d)),
      (''declared_total'', EvDec t), (''line_sum'', EvDec (lines_sum d)), (''discount_total'', ev_opt (discount_total d)),
      (''reconstructible_totals'', EvList (map EvDec cs)), (''difference'', EvDec diff)])"

definition mismatches_of :: "rat \<Rightarrow> document list \<Rightarrow> (document \<times> rat \<times> rat list \<times> rat) list" where
  "mismatches_of tolerance docs = List.map_filter (\<lambda>d. case total_distance d of
      None \<Rightarrow> None | Some (t, cs, diff) \<Rightarrow> if tolerance < diff then Some (d, t, cs, diff) else None) docs"

definition total_line_mismatch :: rule_handler where
  "total_line_mismatch cx rule = attempt (decimal_param rule ''tolerance'' (1 / 100)) (\<lambda>tolerance.
     let ms = mismatches_of tolerance (cx_documents cx) in
     if ms = [] then Inr None
     else Inr (Some \<lparr>
       fd_description = ''Totale incompatibile con la somma delle righe'',
       fd_explanation = [EvText ''Rilevati '', count_ev ms, EvText '' documenti oltre la tolleranza '',
         EvDec tolerance, EvText '' EUR.''],
       fd_evidence = map (\<lambda>(d, v). mismatch_evidence d v) ms,
       fd_score = min 100 (65 + int (length ms) * 10), fd_confidence = 92,
       fd_document_ids = map (\<lambda>(d, v). doc_id d) ms\<rparr>))"

section \<open>Payments and operators\<close>

definition payment_total_mismatch :: rule_handler where
  "payment_total_mismatch cx rule =
     (let tx = cx_transaction cx; docs = tx_documents tx; ps = concat (map payments docs);
          difference = \<bar>fiscal_total tx - payment_total tx\<bar>
      in if ps = [] \<or> \<not> list_ex (\<lambda>d. doc_type d \<in> fiscal_types) docs then Inr None
         else attempt (decimal_param rule ''tolerance'' (1 / 100)) (\<lambda>tolerance.
           if difference \<le> tolerance then Inr None
           else Inr (Some \<lparr>
             fd_description = ''Pagamenti incompatibili con il totale fiscale'',
             fd_explanation = [EvText ''Totale fiscale '', EvDec (fiscal_total tx), EvText '' EUR, pagamenti '',
               EvDec (payment_total tx), EvText '' EUR, differenza '', EvDec difference, EvText '' EUR.''],
             fd_evidence = [[(''kind'', EvText ''payment_total_mismatch''), (''fiscal_total'', EvDec (fiscal_total tx)),
               (''payment_total'', EvDec (payment_total tx)), (''difference'', EvDec difference),
               (''observed_payment_records'', count_ev ps)]],
             fd_score = min 100 (70 + trunc difference), fd_confidence = 95, fd_document_ids = []\<rparr>)))"

definition operator_pattern :: rule_handler where
  "operator_pattern cx rule = (case cx_operator_stats cx of
      None \<Rightarrow> Inr None
    | Some st \<Rightarrow> if stats_operator st = [] \<or> transaction_count st \<le> 0 then Inr None
        else attempt (int_param rule ''minimum_transactions'' 20) (\<lambda>minimum.
          let rate = dec_div (of_int (anomalous_transaction_count st)) (of_int (transaction_count st)) in
          attempt (decimal_param rule ''minimum_anomaly_rate'' (3 / 10)) (\<lambda>threshold.
            if transaction_count st < minimum \<or> rate < threshold then Inr None
            else Inr (Some \<lparr>
              fd_description = ''Concentrazione anomala su un operatore identificato'',
              fd_explanation = [EvText ''Operatore '', EvText (stats_operator st), EvText '': '',
                EvInt (anomalous_transaction_count st), EvText ''/'', EvInt (transaction_count st),
                EvText '' transazioni anomale ('', EvPercent rate, EvText '').''],
              fd_evidence = [[(''kind'', EvText ''operator_pattern''), (''operator_code'', EvText (stats_operator st)),
                (''transaction_count'', EvInt (transaction_count st)),
                (''anomalous_transaction_count'', EvInt (anomalous_transaction_count st)),
                (''void_or_cancellation_count'', EvInt (void_or_cancellation_count st)), (''anomaly_rate'', EvDec rate)]],
              fd_score = min 100 (50 + trunc (dec_mul rate 100)), fd_confidence = 80, fd_document_ids = []\<rparr>))))"

end
