(* ===== verification/Fraud.thy ===== *)
theory Fraud imports Rules "HOL-Library.Sublist" begin

text \<open>
  The engine of \<^verbatim>\<open>fraud/engine.py\<close>: the rule table, the evaluation of a transaction by the enabled
  rules, the suppression of secondary symptoms and the whitelist; and what the findings guarantee.
\<close>

section \<open>The engine\<close>

definition handlers :: "(string \<times> rule_handler) list" where
  "handlers =
     [(''MODIFICA_POST_PRECONTO'', post_prebill_change),
      (''PREBILL_FISCAL_AMOUNT_DROP'', prebill_amount_drop),
      (''ITEM_REMOVED_AFTER_PREBILL'', item_removed),
      (''PRICE_REDUCED_AFTER_PREBILL'', price_reduced),
      (''EXTREME_PRICE_CHANGE'', extreme_price_change),
      (''SAME_REFERENCE_DIFFERENT_AMOUNT'', same_reference_different_amount),
      (''ORDER_WITHOUT_FISCAL_CLOSE'', order_without_fiscal_close),
      (''FISCAL_WITHOUT_SOURCE_ORDER'', fiscal_without_source_order),
      (''EXCESSIVE_VOID_OR_CANCELLATION'', excessive_void),
      (''REPRINT_OR_COPY_ANOMALY'', reprint_anomaly),
      (''DOCUMENT_SEQUENCE_GAP'', sequence_gap),
      (''DUPLICATE_DOCUMENT'', duplicate_document),
      (''LATE_ORDER_MODIFICATION'', late_modification),
      (''NEGATIVE_OR_ZERO_VALUE_ITEM'', non_positive_item),
      (''TOTAL_LINE_MISMATCH'', total_line_mismatch),
      (''PAYMENT_TOTAL_MISMATCH'', payment_total_mismatch),
      (''UNUSUAL_OPERATOR_PATTERN'', operator_pattern)]"

definition default_rule :: "string \<Rightarrow> alert_severity \<Rightarrow> (string \<times> param) list \<Rightarrow> rule_definition" where
  "default_rule c sev ps = \<lparr>code_of_rule = c, version = 1, enabled = True, severity = sev, rule_weight = 1,
     parameters = ps\<rparr>"

definition default_rules :: "rule_definition list" where
  "default_rules =
     [default_rule ''MODIFICA_POST_PRECONTO'' HIGH
        [(''minimum_percent'', PDecimal 20), (''minimum_amount'', PDecimal 1)],
      default_rule ''PREBILL_FISCAL_AMOUNT_DROP'' HIGH
        [(''minimum_percent'', PDecimal 20), (''minimum_amount'', PDecimal 1)],
      default_rule ''ITEM_REMOVED_AFTER_PREBILL'' HIGH [],
      default_rule ''PRICE_REDUCED_AFTER_PREBILL'' HIGH [],
      default_rule ''EXTREME_PRICE_CHANGE'' CRITICAL [(''minimum_percent'', PDecimal 70)],
      default_rule ''SAME_REFERENCE_DIFFERENT_AMOUNT'' HIGH [(''minimum_amount'', PDecimal 1)],
      default_rule ''ORDER_WITHOUT_FISCAL_CLOSE'' MEDIUM [(''close_minutes'', PInt 120)],
      default_rule ''FISCAL_WITHOUT_SOURCE_ORDER'' MEDIUM [],
      default_rule ''EXCESSIVE_VOID_OR_CANCELLATION'' HIGH [(''minimum_count'', PInt 3)],
      default_rule ''REPRINT_OR_COPY_ANOMALY'' MEDIUM [(''maximum_count'', PInt 2)],
      default_rule ''DOCUMENT_SEQUENCE_GAP'' HIGH [],
      default_rule ''DUPLICATE_DOCUMENT'' HIGH [],
      default_rule ''LATE_ORDER_MODIFICATION'' HIGH [(''window_minutes'', PInt 5)],
      default_rule ''NEGATIVE_OR_ZERO_VALUE_ITEM'' HIGH [],
      default_rule ''TOTAL_LINE_MISMATCH'' HIGH [(''tolerance'', PDecimal (1 / 100))],
      default_rule ''PAYMENT_TOTAL_MISMATCH'' CRITICAL [(''tolerance'', PDecimal (1 / 100))],
      default_rule ''UNUSUAL_OPERATOR_PATTERN'' MEDIUM
        [(''minimum_transactions'', PInt 20), (''minimum_anomaly_rate'', PDecimal (3 / 10))]]"

text \<open>\<^verbatim>\<open>FraudEngine.__init__\<close>\<close>

definition make_fraud_engine :: "rule_definition list \<Rightarrow> fraud_error + rule_definition list" where
  "make_fraud_engine rules =
     (let codes = map code_of_rule rules;
          unknown = filter (\<lambda>c. c \<notin> fst ` set handlers) codes
      in if \<not> distinct codes then Inl DuplicateRuleCodes
         else if unknown \<noteq> [] then Inl (UnsupportedRules (sorted_set unknown))
         else Inr rules)"

definition handler_of :: "rule_definition \<Rightarrow> rule_handler" where
  "handler_of rule = the (map_of handlers (code_of_rule rule))"

record fraud_finding =
  rule_code :: string
  rule_version :: int
  ff_severity :: alert_severity
  ff_score :: int
  ff_transaction_id :: uuid
  ff_document_ids :: "uuid list"
  ff_description :: string
  ff_explanation :: "evidence_value list"
  ff_evidence :: "evidence list"
  ff_confidence :: int
  opened_at :: timestamp

definition weighted_score :: "rule_definition \<Rightarrow> finding_data \<Rightarrow> int" where
  "weighted_score rule data = min 100 (max 0 (half_even (dec_mul (of_int (fd_score data)) (rule_weight rule))))"

definition make_finding :: "fraud_context \<Rightarrow> rule_definition \<Rightarrow> finding_data \<Rightarrow> fraud_finding" where
  "make_finding cx rule data = \<lparr>rule_code = code_of_rule rule, rule_version = version rule,
     ff_severity = severity rule, ff_score = weighted_score rule data,
     ff_transaction_id = transaction_id (cx_transaction cx),
     ff_document_ids = (if fd_document_ids data = [] then map doc_id (cx_documents cx) else fd_document_ids data),
     ff_description = fd_description data, ff_explanation = fd_explanation data,
     ff_evidence = fd_evidence data, ff_confidence = fd_confidence data, opened_at = evaluated_at cx\<rparr>"

definition evaluate_rule :: "fraud_context \<Rightarrow> rule_definition \<Rightarrow> fraud_error + fraud_finding option" where
  "evaluate_rule cx rule = map_sum id (map_option (make_finding cx rule)) (handler_of rule cx rule)"

definition secondary_economic_rules :: "string list" where
  "secondary_economic_rules = [''PREBILL_FISCAL_AMOUNT_DROP'', ''ITEM_REMOVED_AFTER_PREBILL'',
     ''PRICE_REDUCED_AFTER_PREBILL'', ''EXTREME_PRICE_CHANGE'', ''SAME_REFERENCE_DIFFERENT_AMOUNT'']"

definition primary_enabled :: "rule_definition list \<Rightarrow> bool" where
  "primary_enabled rules = list_ex (\<lambda>r. code_of_rule r = ''MODIFICA_POST_PRECONTO'' \<and> enabled r) rules"

definition only_non_sale :: "document list \<Rightarrow> bool" where
  "only_non_sale docs = (docs \<noteq> [] \<and> list_all (\<lambda>d. doc_type d \<in> non_sale_document_types) docs)"

text \<open>\<^verbatim>\<open>_evaluate_candidates\<close>: the rules in order, the first exception ends the evaluation.\<close>

definition evaluate_candidates :: "rule_definition list \<Rightarrow> fraud_context \<Rightarrow> fraud_error + fraud_finding list" where
  "evaluate_candidates rules cx =
     (if only_non_sale (cx_documents cx) then Inr []
      else attempt (collect (map (evaluate_rule cx) (filter enabled rules))) (\<lambda>results.
        let findings = List.map_filter id results in
        Inr (if primary_enabled rules \<and> prebill_total (cx_transaction cx) \<noteq> None
             then filter (\<lambda>f. rule_code f \<notin> set secondary_economic_rules) findings else findings)))"

section \<open>The whitelist\<close>

definition normalise_scope_value :: "string \<Rightarrow> string" where
  "normalise_scope_value s = squeeze (upper (strip s))"

definition scope_matches :: "whitelist_entry \<Rightarrow> fraud_context \<Rightarrow> bool" where
  "scope_matches e cx = (let expected = normalise_scope_value (scope_value e); docs = cx_documents cx in
     case scope e of
       GLOBAL \<Rightarrow> expected = ''*''
     | TRANSACTION \<Rightarrow> expected = normalise_scope_value (uuid_text (transaction_id (cx_transaction cx)))
     | DEVICE \<Rightarrow> expected \<in> set (map (normalise_scope_value \<circ> source_device_id) docs)
     | OPERATOR \<Rightarrow> expected \<in> set (map normalise_scope_value (filter (\<lambda>s. s \<noteq> []) (List.map_filter operator_code docs)))
     | DOCUMENT \<Rightarrow> expected \<in> set (map (normalise_scope_value \<circ> uuid_text \<circ> doc_id) docs)
     | REFERENCE \<Rightarrow> expected \<in> set (map normalise_scope_value (filter (\<lambda>s. s \<noteq> [])
         (concat (map (\<lambda>d. List.map_filter id [order_code d, external_document_code d]) docs)))))"

definition whitelist_matches :: "whitelist_entry \<Rightarrow> fraud_finding \<Rightarrow> fraud_context \<Rightarrow> bool" where
  "whitelist_matches e f cx =
     (\<not> evaluated_at cx < valid_from e
      \<and> (case valid_until e of None \<Rightarrow> True | Some u \<Rightarrow> \<not> u < evaluated_at cx)
      \<and> (case wl_rule_code e of None \<Rightarrow> True | Some c \<Rightarrow> c = rule_code f)
      \<and> scope_matches e cx)"

record suppressed_finding =
  sf_finding :: fraud_finding
  whitelist_id :: uuid
  reason :: string

record fraud_evaluation =
  findings :: "fraud_finding list"
  suppressed :: "suppressed_finding list"

text \<open>The first matching entry in the order of the identifiers.\<close>

definition whitelist_for :: "fraud_context \<Rightarrow> fraud_finding \<Rightarrow> whitelist_entry option" where
  "whitelist_for cx f = List.find (\<lambda>e. whitelist_matches e f cx) (sort_key wl_id (whitelist_entries cx))"

definition suppress :: "fraud_finding \<Rightarrow> whitelist_entry \<Rightarrow> suppressed_finding" where
  "suppress f e = \<lparr>sf_finding = f, whitelist_id = wl_id e, reason = wl_reason e\<rparr>"

definition evaluate_with_suppressions :: "rule_definition list \<Rightarrow> fraud_context \<Rightarrow> fraud_error + fraud_evaluation" where
  "evaluate_with_suppressions rules cx = attempt (evaluate_candidates rules cx) (\<lambda>candidates. Inr
     \<lparr>findings = filter (\<lambda>f. whitelist_for cx f = None) candidates,
      suppressed = List.map_filter (\<lambda>f. map_option (suppress f) (whitelist_for cx f)) candidates\<rparr>)"

definition evaluate :: "rule_definition list \<Rightarrow> fraud_context \<Rightarrow> fraud_error + fraud_finding list" where
  "evaluate rules cx = map_sum id findings (evaluate_with_suppressions rules cx)"

text \<open>\<^verbatim>\<open>WhitelistEntry.valid_window\<close>\<close>

definition whitelist_window_ok :: "whitelist_entry \<Rightarrow> bool" where
  "whitelist_window_ok e = (case valid_until e of None \<Rightarrow> True | Some u \<Rightarrow> \<not> u < valid_from e)"

section \<open>What an evaluation contains\<close>

lemma collect_map_Inr [simp]: "collect (map Inr ys) = Inr ys"
  by (induction ys) simp_all

lemma collect_eq_Inr: "collect xs = Inr ys \<longleftrightarrow> xs = map Inr ys"
proof
  show "collect xs = Inr ys \<Longrightarrow> xs = map Inr ys"
  proof (induction xs arbitrary: ys)
    case (Cons x xs)
    then show ?case by (cases x; cases "collect xs") auto
  qed simp
qed simp

lemma subseq_distinct: "subseq xs ys \<Longrightarrow> distinct ys \<Longrightarrow> distinct xs"
  by (induction rule: list_emb.induct) (auto dest: list_emb_set)

definition hidden :: "rule_definition list \<Rightarrow> fraud_context \<Rightarrow> string \<Rightarrow> bool" where
  "hidden rules cx c \<longleftrightarrow> primary_enabled rules \<and> prebill_total (cx_transaction cx) \<noteq> None \<and> c \<in> set secondary_economic_rules"

lemma evaluate_candidates_results:
  assumes "evaluate_candidates rules cx = Inr fs" and "\<not> only_non_sale (cx_documents cx)"
  shows "\<exists>rs. map (evaluate_rule cx) (filter enabled rules) = map Inr rs \<and>
    fs = filter (\<lambda>f. \<not> hidden rules cx (rule_code f)) (List.map_filter id rs)"
proof -
  from assms obtain rs where rs: "collect (map (evaluate_rule cx) (filter enabled rules)) = Inr rs"
    and fs: "fs = (if primary_enabled rules \<and> prebill_total (cx_transaction cx) \<noteq> None
       then filter (\<lambda>f. rule_code f \<notin> set secondary_economic_rules) (List.map_filter id rs) else List.map_filter id rs)"
    by (auto simp: evaluate_candidates_def attempt_eq_Inr Let_def)
  then show ?thesis unfolding collect_eq_Inr by (auto simp: hidden_def)
qed

lemma evaluate_rule_Some:
  "evaluate_rule cx rule = Inr (Some f) \<longleftrightarrow> (\<exists>data. handler_of rule cx rule = Inr (Some data) \<and> f = make_finding cx rule data)"
  by (cases "handler_of rule cx rule") (auto simp: evaluate_rule_def)

lemma code_of_make_finding [simp]: "rule_code (make_finding cx rule data) = code_of_rule rule"
  by (simp add: make_finding_def)

lemma evaluate_rule_code: "evaluate_rule cx rule = Inr (Some f) \<Longrightarrow> rule_code f = code_of_rule rule"
  by (auto simp: evaluate_rule_Some)

lemma evaluate_candidates_member:
  assumes "evaluate_candidates rules cx = Inr fs"
  shows "f \<in> set fs \<longleftrightarrow> \<not> only_non_sale (cx_documents cx) \<and> (\<exists>rule data. rule \<in> set rules \<and> enabled rule \<and>
    handler_of rule cx rule = Inr (Some data) \<and> f = make_finding cx rule data \<and> \<not> hidden rules cx (code_of_rule rule))"
proof (cases "only_non_sale (cx_documents cx)")
  case True
  then have "fs = []" using assms by (simp add: evaluate_candidates_def)
  with True show ?thesis by simp
next
  case False
  obtain rs where rs: "map (evaluate_rule cx) (filter enabled rules) = map Inr rs"
    and fs: "fs = filter (\<lambda>f. \<not> hidden rules cx (rule_code f)) (List.map_filter id rs)"
    using evaluate_candidates_results [OF assms False] by blast
  have "Some f \<in> set rs \<longleftrightarrow> Inr (Some f) \<in> set (map (evaluate_rule cx) (filter enabled rules))" for f
    unfolding rs by auto
  then have "Some f \<in> set rs \<longleftrightarrow> (\<exists>rule \<in> set rules. enabled rule \<and> evaluate_rule cx rule = Inr (Some f))" for f
    by (auto simp: eq_commute)
  then show ?thesis using False
    by (auto simp: fs in_map_filter evaluate_rule_Some)
qed

lemma map_filter_subseq:
  assumes "map g xs = map Inr rs" and "\<And>x f. g x = Inr (Some f) \<Longrightarrow> h f = k x"
  shows "subseq (map h (List.map_filter id rs)) (map k xs)"
  using assms(1)
proof (induction xs arbitrary: rs)
  case (Cons x xs)
  then obtain r rs' where rs: "rs = r # rs'" "g x = Inr r" "map g xs = map Inr rs'" by (cases rs) auto
  from Cons.IH [OF rs(3)] assms(2) [of x] rs(2) show ?case
    by (cases r) (auto simp: rs(1) List.map_filter_simps)
qed simp

text \<open>The constants every handler gives as its confidence.\<close>

lemmas handler_defs = post_prebill_change_def prebill_amount_drop_def item_removed_def price_reduced_def
  extreme_price_change_def same_reference_different_amount_def order_without_fiscal_close_def
  fiscal_without_source_order_def excessive_void_def reprint_anomaly_def sequence_gap_def duplicate_document_def
  late_modification_def non_positive_item_def total_line_mismatch_def payment_total_mismatch_def operator_pattern_def

lemma handler_confidence:
  assumes "(c, h) \<in> set handlers" and "h cx rule = Inr (Some data)"
  shows "65 \<le> fd_confidence data \<and> fd_confidence data \<le> 95"
proof -
  from assms(1) consider "h = post_prebill_change" | "h = prebill_amount_drop" | "h = item_removed" | "h = price_reduced"
    | "h = extreme_price_change" | "h = same_reference_different_amount" | "h = order_without_fiscal_close"
    | "h = fiscal_without_source_order" | "h = excessive_void" | "h = reprint_anomaly" | "h = sequence_gap"
    | "h = duplicate_document" | "h = late_modification" | "h = non_positive_item" | "h = total_line_mismatch"
    | "h = payment_total_mismatch" | "h = operator_pattern"
    unfolding handlers_def by auto
  then show ?thesis
    by cases (use assms(2) in \<open>auto simp: handler_defs Let_def attempt_eq_Inr split: option.splits if_splits\<close>)
qed

lemma handler_of_known:
  assumes "make_fraud_engine rules0 = Inr rules" and "rule \<in> set rules"
  shows "(code_of_rule rule, handler_of rule) \<in> set handlers"
proof -
  have "code_of_rule rule \<in> fst ` set handlers"
    using assms by (auto simp: make_fraud_engine_def Let_def filter_empty_conv split: if_splits)
  then obtain h where "map_of handlers (code_of_rule rule) = Some h"
    by (cases "map_of handlers (code_of_rule rule)") (auto simp: map_of_eq_None_iff)
  then show ?thesis unfolding handler_of_def by (auto dest: map_of_SomeD)
qed

text \<open>
  Every alert is accounted for. The findings of an engine's evaluation come from its enabled
  rules, at most one per rule and in their order; each carries the code, version and severity of its
  rule, a score and a confidence between 0 and 100, and the transaction; and a finding is there
  exactly when its rule answered with one and it is not a symptom hidden behind the primary rule.
\<close>

theorem findings_sound:
  assumes "make_fraud_engine rules0 = Inr rules" and "evaluate_candidates rules cx = Inr fs"
  shows "subseq (map rule_code fs) (map code_of_rule (filter enabled rules)) \<and> distinct (map rule_code fs) \<and>
    (\<forall>f \<in> set fs. 0 \<le> ff_score f \<and> ff_score f \<le> 100 \<and> 0 \<le> ff_confidence f \<and> ff_confidence f \<le> 100 \<and>
      ff_transaction_id f = transaction_id (cx_transaction cx)) \<and>
    (\<forall>f. f \<in> set fs \<longleftrightarrow> \<not> only_non_sale (cx_documents cx) \<and> (\<exists>rule data. rule \<in> set rules \<and> enabled rule \<and>
      handler_of rule cx rule = Inr (Some data) \<and> f = make_finding cx rule data \<and> \<not> hidden rules cx (code_of_rule rule)))"
proof (intro conjI ballI allI)
  have "subseq (map rule_code fs) (map code_of_rule (filter enabled rules))"
  proof (cases "only_non_sale (cx_documents cx)")
    case True
    then show ?thesis using assms(2) by (simp add: evaluate_candidates_def)
  next
    case False
    obtain rs where rs: "map (evaluate_rule cx) (filter enabled rules) = map Inr rs"
      and fs: "fs = filter (\<lambda>f. \<not> hidden rules cx (rule_code f)) (List.map_filter id rs)"
      using evaluate_candidates_results [OF assms(2) False] by blast
    have "subseq (map rule_code fs) (map rule_code (List.map_filter id rs))"
      unfolding fs by (intro subseq_map subseq_filter_left)
    also have "subseq \<dots> (map code_of_rule (filter enabled rules))"
      by (rule map_filter_subseq [OF rs evaluate_rule_code])
    finally show ?thesis .
  qed
  then show "subseq (map rule_code fs) (map code_of_rule (filter enabled rules))" .
  moreover have "distinct (map code_of_rule rules)"
    using assms(1) by (auto simp: make_fraud_engine_def Let_def split: if_splits)
  then have "distinct (map code_of_rule (filter enabled rules))" by (rule map_filter_distinct)
  ultimately show "distinct (map rule_code fs)" by (rule subseq_distinct)
next
  fix f assume "f \<in> set fs"
  then obtain rule data where r: "rule \<in> set rules" "handler_of rule cx rule = Inr (Some data)" "f = make_finding cx rule data"
    using evaluate_candidates_member [OF assms(2)] by blast
  from handler_confidence [OF handler_of_known [OF assms(1) r(1)] r(2)]
  show "0 \<le> ff_score f" "ff_score f \<le> 100" "0 \<le> ff_confidence f" "ff_confidence f \<le> 100"
    "ff_transaction_id f = transaction_id (cx_transaction cx)"
    by (simp_all add: r(3) make_finding_def weighted_score_def)
next
  fix f
  show "f \<in> set fs \<longleftrightarrow> \<not> only_non_sale (cx_documents cx) \<and> (\<exists>rule data. rule \<in> set rules \<and> enabled rule \<and>
      handler_of rule cx rule = Inr (Some data) \<and> f = make_finding cx rule data \<and> \<not> hidden rules cx (code_of_rule rule))"
    by (rule evaluate_candidates_member [OF assms(2)])
qed

end
