(* ===== verification/Alerts.thy ===== *)
theory Alerts imports Fraud Episodes begin

text \<open>
  What the engine of \<^verbatim>\<open>fraud/engine.py\<close> promises the people who read its alerts: the whitelist loses
  nothing, the default rules do not fail on a transaction of the correlation engine, a material
  reduction after the pre-bill is always reported; and where the anchoring of series anomalies and a
  missing description break that.
\<close>

section \<open>The whitelist\<close>

lemma find_least:
  fixes k :: "'a \<Rightarrow> 'b::linorder"
  assumes "List.find P (sort_key k xs) = Some e"
  shows "e \<in> set xs \<and> P e \<and> (\<forall>e' \<in> set xs. P e' \<longrightarrow> k e \<le> k e')"
proof -
  from assms obtain i where i: "i < length xs" "P (sort_key k xs ! i)" "e = sort_key k xs ! i"
    and before: "\<forall>j < i. \<not> P (sort_key k xs ! j)"
    by (auto simp: find_Some_iff)
  have "e \<in> set (sort_key k xs)" using i(1) unfolding i(3) by (intro nth_mem) simp
  moreover have "k e \<le> k e'" if e': "e' \<in> set xs" "P e'" for e'
  proof -
    from e'(1) have "e' \<in> set (sort_key k xs)" by simp
    then obtain j where j: "j < length (sort_key k xs)" "sort_key k xs ! j = e'"
      unfolding in_set_conv_nth by blast
    with before e'(2) have "i \<le> j" by (meson not_le)
    moreover have "sorted (map k (sort_key k xs))" by simp
    ultimately have "map k (sort_key k xs) ! i \<le> map k (sort_key k xs) ! j"
      using j(1) by (intro sorted_nth_mono) simp_all
    then show ?thesis using i(1) j \<open>i \<le> j\<close> by (simp add: i(3))
  qed
  ultimately show ?thesis using i(2,3) by auto
qed

lemma whitelist_for_None: "whitelist_for cx f = None \<longleftrightarrow> \<not> (\<exists>e \<in> set (whitelist_entries cx). whitelist_matches e f cx)"
  by (auto simp: whitelist_for_def find_None_iff)

lemma suppressed_findings:
  "map sf_finding (List.map_filter (\<lambda>f. map_option (suppress f) (g f)) fs) = filter (\<lambda>f. g f \<noteq> None) fs"
  by (induction fs) (auto simp: List.map_filter_simps suppress_def split: option.splits)

text \<open>
  C23: the whitelist hides alerts and loses none: each candidate is either visible or listed as
  suppressed, in the order of the candidates; it is suppressed exactly when an entry in force at the
  time of the evaluation matches it, and what is recorded with it is the identifier and the reason of
  the matching entry with the least identifier, in whatever order the entries are given.
\<close>

theorem suppression_partitions:
  assumes "evaluate_with_suppressions rules cx = Inr r"
  shows "\<exists>fs. evaluate_candidates rules cx = Inr fs \<and> evaluate rules cx = Inr (findings r) \<and>
    mset fs = mset (findings r) + mset (map sf_finding (suppressed r)) \<and>
    findings r = filter (\<lambda>f. \<not> (\<exists>e \<in> set (whitelist_entries cx). whitelist_matches e f cx)) fs \<and>
    map sf_finding (suppressed r) = filter (\<lambda>f. \<exists>e \<in> set (whitelist_entries cx). whitelist_matches e f cx) fs \<and>
    (\<forall>s \<in> set (suppressed r). \<exists>e \<in> set (whitelist_entries cx). whitelist_matches e (sf_finding s) cx \<and>
      valid_from e \<le> evaluated_at cx \<and> (\<forall>u. valid_until e = Some u \<longrightarrow> evaluated_at cx \<le> u) \<and>
      whitelist_id s = wl_id e \<and> reason s = wl_reason e \<and>
      (\<forall>e' \<in> set (whitelist_entries cx). whitelist_matches e' (sf_finding s) cx \<longrightarrow> wl_id e \<le> wl_id e'))"
proof -
  from assms obtain fs where fs: "evaluate_candidates rules cx = Inr fs"
    and visible: "findings r = filter (\<lambda>f. whitelist_for cx f = None) fs"
    and listed: "suppressed r = List.map_filter (\<lambda>f. map_option (suppress f) (whitelist_for cx f)) fs"
    by (auto simp: evaluate_with_suppressions_def attempt_eq_Inr)
  have rest: "map sf_finding (suppressed r) = filter (\<lambda>f. whitelist_for cx f \<noteq> None) fs"
    unfolding listed by (rule suppressed_findings)
  have "mset fs = mset (findings r) + mset (map sf_finding (suppressed r))"
    unfolding visible rest mset_filter by (rule multiset_partition)
  moreover have "\<exists>e \<in> set (whitelist_entries cx). whitelist_matches e (sf_finding s) cx \<and>
      valid_from e \<le> evaluated_at cx \<and> (\<forall>u. valid_until e = Some u \<longrightarrow> evaluated_at cx \<le> u) \<and>
      whitelist_id s = wl_id e \<and> reason s = wl_reason e \<and>
      (\<forall>e' \<in> set (whitelist_entries cx). whitelist_matches e' (sf_finding s) cx \<longrightarrow> wl_id e \<le> wl_id e')"
    if "s \<in> set (suppressed r)" for s
  proof -
    from that obtain f e where s: "s = suppress f e" and e: "whitelist_for cx f = Some e"
      by (auto simp: listed in_map_filter)
    from find_least [OF e [unfolded whitelist_for_def]]
    show ?thesis by (intro bexI [of _ e]) (auto simp: s suppress_def whitelist_matches_def)
  qed
  ultimately show ?thesis
    using fs assms visible rest by (auto simp: evaluate_def whitelist_for_None)
qed

section \<open>The default rules\<close>

lemma collect_single_error:
  assumes "\<And>x e. x \<in> set xs \<Longrightarrow> x = Inl e \<Longrightarrow> e = err"
  shows "collect xs = Inl e \<longleftrightarrow> e = err \<and> Inl err \<in> set xs"
  using assms
proof (induction xs)
  case (Cons x xs)
  show ?case
  proof (cases x)
    case (Inl a)
    then have "a = err" using Cons.prems [of x] by simp
    then show ?thesis using Inl by auto
  next
    case (Inr b)
    have "collect (Inr b # xs) = Inl e \<longleftrightarrow> collect xs = Inl e" by (simp split: sum.splits)
    then show ?thesis using Cons Inr by simp
  qed
qed simp

lemma suspicious_line_Inl:
  "suspicious_line l = Inl e \<longleftrightarrow> e = MissingDescription \<and> description l = None \<and>
     list_all (\<lambda>v. 0 \<le> v) (line_values l) \<and> 0 \<in> set (line_values l)"
  by (auto simp: suspicious_line_def Let_def list_all_iff list_ex_iff split: option.splits)

definition undescribed :: "document list \<Rightarrow> bool" where
  "undescribed docs \<longleftrightarrow> (\<exists>d \<in> set docs. doc_type d \<in> priced_types \<and> (\<exists>l \<in> set (doc_lines d).
     description l = None \<and> list_all (\<lambda>v. 0 \<le> v) (line_values l) \<and> 0 \<in> set (line_values l)))"

lemma non_positive_item_Inl:
  "non_positive_item cx rule = Inl e \<longleftrightarrow> e = MissingDescription \<and> undescribed (cx_documents cx)"
proof -
  let ?flags = "map (\<lambda>(d, l). suspicious_line l) (priced_lines (cx_documents cx))"
  have "collect ?flags = Inl e \<longleftrightarrow> e = MissingDescription \<and> Inl MissingDescription \<in> set ?flags"
    by (rule collect_single_error) (auto simp: suspicious_line_Inl dest: sym)
  moreover have "Inl MissingDescription \<in> set ?flags \<longleftrightarrow> undescribed (cx_documents cx)"
    by (auto simp: image_iff eq_commute [of "Inl _"] suspicious_line_Inl undescribed_def priced_lines_def)
  moreover have "non_positive_item cx rule = Inl e \<longleftrightarrow> collect ?flags = Inl e"
    by (cases "collect ?flags") (simp_all add: non_positive_item_def Let_def)
  ultimately show ?thesis by simp
qed

lemmas parameter_defs = default_rule_def decimal_param_def int_param_def reaches_thresholds_def

lemma default_rule_error:
  assumes "rule \<in> set default_rules" and "handler_of rule cx rule = Inl e"
  shows "e = MissingDescription \<and> undescribed (cx_documents cx) \<and>
    code_of_rule rule = ''NEGATIVE_OR_ZERO_VALUE_ITEM''"
proof (cases "code_of_rule rule = ''NEGATIVE_OR_ZERO_VALUE_ITEM''")
  case True
  then have "handler_of rule = non_positive_item" by (simp add: handler_of_def handlers_def)
  with assms(2) True show ?thesis by (simp add: non_positive_item_Inl)
next
  case False
  with assms show ?thesis
    unfolding default_rules_def list.set insert_iff
    by (elim disjE; simp add: handler_of_def handlers_def parameter_defs handler_defs Let_def
        split: option.splits if_splits)
qed

text \<open>
  With the default rules exactly one thing makes an evaluation fail: an order, pre-bill, management
  or commercial document with a line that has no description, no negative value and a value of zero.
  Then the whole transaction is evaluated by no rule at all: \<^verbatim>\<open>technical_non_sale_line(None)\<close> raises.
\<close>

theorem default_rules_raise_iff:
  "evaluate_candidates default_rules cx = Inl e \<longleftrightarrow>
     e = MissingDescription \<and> \<not> only_non_sale (cx_documents cx) \<and> undescribed (cx_documents cx)"
proof -
  let ?results = "map (evaluate_rule cx) (filter enabled default_rules)"
  have error: "evaluate_rule cx rule = Inl e' \<longleftrightarrow> handler_of rule cx rule = Inl e'" for rule e'
    by (cases "handler_of rule cx rule") (simp_all add: evaluate_rule_def)
  have only: "x \<in> set ?results \<Longrightarrow> x = Inl e' \<Longrightarrow> e' = MissingDescription" for x e'
    using default_rule_error [of _ cx] error by fastforce
  have "collect ?results = Inl e \<longleftrightarrow> e = MissingDescription \<and> Inl MissingDescription \<in> set ?results"
    by (rule collect_single_error) (fact only)
  moreover have "Inl MissingDescription \<in> set ?results \<longleftrightarrow> undescribed (cx_documents cx)"
  proof
    assume "Inl MissingDescription \<in> set ?results"
    then obtain rule where "rule \<in> set default_rules" "evaluate_rule cx rule = Inl MissingDescription" by force
    then show "undescribed (cx_documents cx)" using default_rule_error [of rule cx] error by blast
  next
    assume u: "undescribed (cx_documents cx)"
    let ?rule = "default_rule ''NEGATIVE_OR_ZERO_VALUE_ITEM'' HIGH []"
    have "handler_of ?rule = non_positive_item" by (simp add: handler_of_def handlers_def default_rule_def)
    then have "evaluate_rule cx ?rule = Inl MissingDescription" using u by (simp add: error non_positive_item_Inl)
    moreover have "?rule \<in> set (filter enabled default_rules)" by (simp add: default_rules_def default_rule_def)
    ultimately show "Inl MissingDescription \<in> set ?results"
      unfolding set_map by (intro image_eqI [of _ _ ?rule]) simp_all
  qed
  ultimately show ?thesis
    by (cases "collect ?results") (auto simp: evaluate_candidates_def Let_def)
qed

section \<open>A material reduction is reported\<close>

lemma build_transaction_documents:
  "build_transaction uuid5 e docs edges = Inr t \<Longrightarrow> tx_documents t = sort_key doc_order docs"
  unfolding build_transaction_def Let_def by (auto split: sum.splits if_splits)

lemma percent_of_fifth:
  assumes "0 < p" and "p \<le> 5 * (p - f)" and "percent_of (Some p) f = Inr v"
  shows "\<exists>q. v = Some q \<and> 20 \<le> q"
proof -
  let ?r = "dec_div (p - f) p"
  have "1 / 5 \<le> (p - f) / p" using assms(1,2) by (simp add: field_simps)
  then have "1 / 5 \<le> ?r" unfolding dec_div_def by (rule ctx_ge_fifth)
  then have "of_int 20 \<le> dec_mul ?r 100" unfolding dec_mul_def by (intro ctx_ge) simp_all
  then have "20 \<le> quantize 4 (dec_mul ?r 100)" using quantize_ge [of 20 "dec_mul ?r 100" 4] by simp
  then show ?thesis using assms(1,3) by (auto simp: percent_of_def Let_def split: if_split_asm)
qed

lemma weighted_score_unit:
  assumes "rule_weight rule = 1" and "0 \<le> fd_score data" and "fd_score data \<le> 100"
  shows "weighted_score rule data = fd_score data"
proof -
  have "ctx (of_int (fd_score data)) = of_int (fd_score data)"
    by (rule ctx_of_int) (use assms(2,3) in simp_all)
  then show ?thesis using assms by (simp add: weighted_score_def dec_mul_def)
qed

definition primary_rule :: rule_definition where
  "primary_rule = default_rule ''MODIFICA_POST_PRECONTO'' HIGH
     [(''minimum_percent'', PDecimal 20), (''minimum_amount'', PDecimal 1)]"

lemma primary_rule_facts [simp]:
  "primary_rule \<in> set default_rules" "enabled primary_rule" "handler_of primary_rule = post_prebill_change"
  "code_of_rule primary_rule = ''MODIFICA_POST_PRECONTO''" "severity primary_rule = HIGH" "rule_weight primary_rule = 1"
  "decimal_param primary_rule ''minimum_amount'' 1 = Inr 1" "decimal_param primary_rule ''minimum_percent'' 20 = Inr 20"
  "primary_enabled default_rules"
  by (simp_all add: primary_rule_def default_rules_def default_rule_def handler_of_def handlers_def
      decimal_param_def primary_enabled_def)

text \<open>The score of the primary rule grows from 76 to 100 with the percentage.\<close>

lemma primary_score:
  assumes "20 \<le> q"
  shows "76 \<le> min 100 (70 + trunc (dec_mul q (3 / 10)))"
proof -
  have "of_int 6 \<le> dec_mul q (3 / 10)"
    unfolding dec_mul_def by (rule ctx_ge) (use assms in simp_all)
  then have "trunc (of_int 6) \<le> trunc (dec_mul q (3 / 10))" by (rule trunc_mono)
  then show ?thesis by (simp only: trunc_of_int)
qed

lemma primary_finding:
  assumes "prebill_total (cx_transaction cx) = Some p" and "0 < p"
    and "difference_amount (cx_transaction cx) = Some d" and "1 \<le> d"
    and "difference_percent (cx_transaction cx) = Some q" and "20 \<le> q"
    and "\<exists>doc \<in> set (cx_documents cx). closes_prebill doc"
  shows "\<exists>data. post_prebill_change cx primary_rule = Inr (Some data) \<and> 76 \<le> fd_score data \<and>
    fd_score data \<le> 100 \<and> fd_document_ids data = map doc_id (cx_documents cx)"
proof -
  have "filter closes_prebill (cx_documents cx) \<noteq> []" using assms(7) by (auto simp: filter_empty_conv)
  then show ?thesis using assms primary_score [OF assms(6)]
    by (simp add: post_prebill_change_def cx_documents_def reaches_thresholds_def or_nought_def Let_def)
qed

lemma default_rules_return:
  assumes "\<not> undescribed (cx_documents cx)"
  shows "\<exists>fs. evaluate_candidates default_rules cx = Inr fs"
proof -
  let ?results = "map (evaluate_rule cx) (filter enabled default_rules)"
  have "\<exists>y. handler_of rule cx rule = Inr y" if "rule \<in> set default_rules" for rule
    using default_rule_error [OF that, of cx] assms by (cases "handler_of rule cx rule") auto
  then have "list_all (\<lambda>rule. \<exists>y. evaluate_rule cx rule = Inr y) (filter enabled default_rules)"
    by (fastforce simp: list_all_iff evaluate_rule_def)
  from collect_Inr [OF this] show ?thesis by (simp add: evaluate_candidates_def Let_def)
qed

lemma closing_is_sale:
  assumes "doc \<in> set docs" and "closes_prebill doc" shows "\<not> only_non_sale docs"
proof -
  from assms(2) have "doc_type doc \<notin> non_sale_document_types"
    by (auto simp: closes_prebill_def settles_def valid_fiscal_document_def non_sale_document_types_def fiscal_types_def)
  with assms(1) show ?thesis by (auto simp: only_non_sale_def list_all_iff)
qed

lemma reduction_member:
  assumes "build_transaction uuid5 e docs edges = Inr (cx_transaction cx)"
    and "evaluate_candidates default_rules cx = Inr fs"
    and "prebill_total (cx_transaction cx) = Some p" and "0 < p"
    and "1 \<le> p - observed_final_total (cx_transaction cx)"
    and "p \<le> 5 * (p - observed_final_total (cx_transaction cx))"
    and "\<exists>doc \<in> set docs. closes_prebill doc"
  shows "(\<exists>f \<in> set fs. rule_code f = ''MODIFICA_POST_PRECONTO'' \<and> ff_severity f = HIGH \<and> 76 \<le> ff_score f \<and>
      ff_transaction_id f = transaction_id (cx_transaction cx) \<and> set (ff_document_ids f) = doc_id ` set docs) \<and>
    (\<forall>f \<in> set fs. rule_code f \<notin> set secondary_economic_rules)"
proof -
  let ?tx = "cx_transaction cx" and ?o = "observed_final_total (cx_transaction cx)"
  have docs: "set (cx_documents cx) = set docs"
    using build_transaction_documents [OF assms(1)] by (simp add: cx_documents_def)
  then have closed: "\<exists>doc \<in> set (cx_documents cx). closes_prebill doc" using assms(7) by simp
  then obtain doc where doc: "doc \<in> set (cx_documents cx)" "closes_prebill doc" by blast
  then have sale: "\<not> only_non_sale (cx_documents cx)" by (rule closing_is_sale)
  from percent_of_fifth [OF assms(4,6)] build_transaction_fields(5) [OF assms(1)] assms(3)
  obtain q where q: "difference_percent ?tx = Some q" "20 \<le> q" by auto
  have d: "difference_amount ?tx = Some (p - ?o)"
    using build_transaction_fields(4) [OF assms(1)] assms(3) by simp
  from primary_finding [OF assms(3,4) d assms(5) q closed] obtain data
    where data: "post_prebill_change cx primary_rule = Inr (Some data)" "76 \<le> fd_score data"
      "fd_score data \<le> 100" "fd_document_ids data = map doc_id (cx_documents cx)" by blast
  let ?f = "make_finding cx primary_rule data"
  have "\<not> hidden default_rules cx (code_of_rule primary_rule)"
    by (simp add: hidden_def secondary_economic_rules_def)
  with data(1) have "?f \<in> set fs"
    unfolding evaluate_candidates_member [OF assms(2)] using sale
    by (intro conjI exI [of _ primary_rule] exI [of _ data]) simp_all
  moreover have "weighted_score primary_rule data = fd_score data"
    by (rule weighted_score_unit) (use data in simp_all)
  then have "76 \<le> ff_score ?f" using data(2) by (simp add: make_finding_def)
  moreover have "set (ff_document_ids ?f) = doc_id ` set docs"
    using data(4) docs by (cases "cx_documents cx = []") (auto simp: make_finding_def)
  ultimately have "\<exists>f \<in> set fs. rule_code f = ''MODIFICA_POST_PRECONTO'' \<and> ff_severity f = HIGH \<and> 76 \<le> ff_score f \<and>
      ff_transaction_id f = transaction_id ?tx \<and> set (ff_document_ids f) = doc_id ` set docs"
    by (intro bexI [of _ ?f]) (simp_all add: make_finding_def)
  moreover have "rule_code f \<notin> set secondary_economic_rules" if "f \<in> set fs" for f
    using that assms(3) unfolding evaluate_candidates_member [OF assms(2)] by (auto simp: hidden_def)
  ultimately show ?thesis by blast
qed


section \<open>A hole nobody reports\<close>

definition blank_transaction :: "document list \<Rightarrow> transaction" where
  "blank_transaction docs = \<lparr>transaction_id = 0, correlation = None, tx_documents = docs, prebill_total = None,
     fiscal_total = 0, observed_final_total = 0, payment_total = 0, difference_amount = None,
     difference_percent = None, split_payment = False, tx_line_changes = [], timeline = []\<rparr>"

definition blank_context :: "document list \<Rightarrow> document list \<Rightarrow> fraud_context" where
  "blank_context docs window = \<lparr>cx_transaction = blank_transaction docs, order_events = [],
     comparison_documents = window, cx_operator_stats = None, whitelist_entries = [], evaluated_at = 0\<rparr>"

text \<open>Three receipts of one series, numbered 1, 5 and 9, each a transaction of its own.\<close>

definition receipt_numbered :: "uuid \<Rightarrow> string \<Rightarrow> document" where
  "receipt_numbered u c = blank_document\<lparr>doc_id := u, doc_type := COMMERCIAL_DOCUMENT, external_document_code := Some c\<rparr>"

definition numbered_receipts :: "document list" where
  "numbered_receipts = [receipt_numbered 1 ''A-1'', receipt_numbered 2 ''A-5'', receipt_numbered 3 ''A-9'']"

definition gaps_reported :: "document list \<Rightarrow> document list \<Rightarrow> evidence list" where
  "gaps_reported window docs = (case sequence_gap (blank_context docs window) (default_rule ''DOCUMENT_SEQUENCE_GAP'' HIGH []) of
      Inr (Some data) \<Rightarrow> fd_evidence data
    | _ \<Rightarrow> [])"

definition hole :: "evidence \<Rightarrow> int \<times> int" where
  "hole e = (case (map_of e ''before'', map_of e ''after'') of (Some (EvInt a), Some (EvInt b)) \<Rightarrow> (a, b) | _ \<Rightarrow> (0, 0))"

text \<open>
  A hole in a series can be lost. The comment of the rule says that a series anomaly is emitted
  once, anchored to its first document; the anchor however is taken over all holes that touch the
  transaction. Of the holes 1-5 and 5-9 between three receipts of three transactions the first is
  reported by its transaction and the second by none, although two of the three evaluations see it.
\<close>

theorem gap_lost:
  "map (map hole \<circ> gaps_reported numbered_receipts) (map (\<lambda>d. [d]) numbered_receipts) = [[(1, 5)], [], []] \<and>
   map (\<lambda>d. map (hole \<circ> gap_evidence) (sequence_gaps (blank_context [d] numbered_receipts))) numbered_receipts =
     [[(1, 5)], [(1, 5), (5, 9)], [(5, 9)]]"
  by code_simp

section \<open>Examples\<close>

definition cheap_fiscal :: document where
  "cheap_fiscal = example_fiscal\<lparr>gross_total := Some 10\<rparr>"


definition example_whitelist :: "whitelist_entry list" where
  "example_whitelist = [\<lparr>wl_id = 9, wl_rule_code = None, scope = GLOBAL, scope_value = '' * '', wl_reason = ''late'',
       valid_from = 0, valid_until = Some 5\<rparr>,
     \<lparr>wl_id = 4, wl_rule_code = Some ''FISCAL_WITHOUT_SOURCE_ORDER'', scope = DEVICE, scope_value = ''D'',
       wl_reason = ''known'', valid_from = 0, valid_until = None\<rparr>]"

definition orphan_rule :: rule_definition where
  "orphan_rule = default_rule ''FISCAL_WITHOUT_SOURCE_ORDER'' MEDIUM []"

definition orphan_context :: fraud_context where
  "orphan_context = blank_context [cheap_fiscal] []\<lparr>whitelist_entries := example_whitelist\<rparr>"

theorem suppression_partitions_witness:
  "\<exists>r. evaluate_with_suppressions [orphan_rule] orphan_context = Inr r \<and> findings r = [] \<and>
     map reason (suppressed r) = [''known''] \<and>
     evaluate [orphan_rule] orphan_context = Inr (findings r)"
proof -
  let ?r = "evaluate_with_suppressions [orphan_rule] orphan_context"
  have "map_sum id (\<lambda>r. (map rule_code (findings r), map reason (suppressed r))) ?r = Inr ([], [''known''])"
    by code_simp
  then obtain r where r: "?r = Inr r" "findings r = []" "map reason (suppressed r) = [''known'']"
    by (cases ?r) auto
  with suppression_partitions [OF r(1)] show ?thesis by auto
qed

theorem findings_sound_witness:
  "\<exists>fs. make_fraud_engine [orphan_rule] = Inr [orphan_rule] \<and>
     evaluate_candidates [orphan_rule] orphan_context = Inr fs \<and> map rule_code fs = [''FISCAL_WITHOUT_SOURCE_ORDER''] \<and>
     distinct (map rule_code fs)"
proof -
  let ?r = "evaluate_candidates [orphan_rule] orphan_context"
  have m: "make_fraud_engine [orphan_rule] = Inr [orphan_rule]"
    by (simp add: make_fraud_engine_def orphan_rule_def default_rule_def handlers_def)
  have "map_sum id (map rule_code) ?r = Inr [''FISCAL_WITHOUT_SOURCE_ORDER'']" by code_simp
  then obtain fs where fs: "?r = Inr fs" "map rule_code fs = [''FISCAL_WITHOUT_SOURCE_ORDER'']"
    by (cases ?r) auto
  have "distinct (map rule_code fs)" by (rule findings_sound [OF m fs(1), THEN conjunct2, THEN conjunct1])
  with m fs show ?thesis by (intro exI [of _ fs] conjI)
qed

end
