(* ===== verification/Frames.thy ===== *)
theory Frames imports Json begin

text \<open>
  The framing of the RCH byte streams, \<^verbatim>\<open>frame_stream\<close> of \<^verbatim>\<open>parser/rch.py\<close>: STX, a two-digit address, a
  three-digit length, a class byte, the data, a sequence byte, two hexadecimal digits of block check
  and ETX, with single ACK bytes between the frames. What the theorems say: the stream of well-formed
  frames is read back exactly, wrong block checks are flagged and nothing else is, and a stream without
  a reported issue holds nothing but the frames and acknowledgements that were read.
\<close>

unbundle bit_operations_syntax

section \<open>Bytes and text\<close>

text \<open>\<^verbatim>\<open>decode("latin-1")\<close>\<close>

definition latin1 :: "bytes \<Rightarrow> string" where
  "latin1 bs = map (\<lambda>b. chr (unat b)) bs"

definition digit_byte :: "byte \<Rightarrow> bool" where
  "digit_byte b = (48 \<le> unat b \<and> unat b \<le> 57)"

text \<open>\<^verbatim>\<open>bytes.isdigit()\<close>\<close>

definition digit_bytes :: "bytes \<Rightarrow> bool" where
  "digit_bytes bs = (bs \<noteq> [] \<and> list_all digit_byte bs)"

definition is_hex :: "char \<Rightarrow> bool" where
  "is_hex c = (is_digit c \<or> (65 \<le> code c \<and> code c \<le> 70) \<or> (97 \<le> code c \<and> code c \<le> 102))"

definition hex_number :: "string \<Rightarrow> nat" where
  "hex_number ds = fold (\<lambda>c n. 16 * n + (if is_digit c then code c - 48 else if code c \<le> 70 then code c - 55 else code c - 87)) ds 0"

text \<open>
  \<^verbatim>\<open>int(raw.decode("ascii"), 16)\<close> of two bytes: white space and a sign are accepted, an underscore or a
  prefix would need more characters; \<open>None\<close> where the decoding or the conversion raises.
\<close>

definition hex_field :: "bytes \<Rightarrow> int option" where
  "hex_field bs = (let s = strip (latin1 bs);
       ds = (if s \<noteq> [] \<and> (hd s = CHR ''-'' \<or> hd s = CHR ''+'') then tl s else s)
     in if list_ex (\<lambda>b. 128 \<le> unat b) bs \<or> ds = [] \<or> \<not> list_all is_hex ds then None
        else Some (if hd s = CHR ''-'' then - int (hex_number ds) else int (hex_number ds)))"

definition bcc :: "bytes \<Rightarrow> byte" where
  "bcc prefix = fold (\<lambda>v r. r XOR v) prefix 0"

section \<open>Frames\<close>

record frame =
  fr_id :: nat
  fr_offset :: nat
  fr_raw :: bytes
  fr_address :: string
  fr_class :: char
  fr_data :: bytes
  fr_sequence :: char
  fr_valid :: bool

definition frame_text :: "frame \<Rightarrow> string" where
  "frame_text f = latin1 (fr_data f)"

record framed_stream =
  frames :: "frame list"
  ack_count :: nat
  issues :: "string list"
  truncated :: bool

definition STX :: byte where "STX = 2"
definition ETX :: byte where "ETX = 3"
definition ACK :: byte where "ACK = 6"

definition max_input_bytes :: nat where "max_input_bytes = 16 * 1024 * 1024"
definition max_frames :: nat where "max_frames = 8192"
definition max_issues :: nat where "max_issues = 1024"

definition add_issue :: "string \<Rightarrow> framed_stream \<Rightarrow> framed_stream" where
  "add_issue msg st = (if length (issues st) < max_issues then st\<lparr>issues := issues st @ [msg]\<rparr> else st)"

text \<open>The position of the next control byte behind the cursor, or the end.\<close>

definition next_control :: "bytes \<Rightarrow> nat \<Rightarrow> nat" where
  "next_control view cursor =
     cursor + 1 + length (takeWhile (\<lambda>b. b \<noteq> STX \<and> b \<noteq> ACK) (drop (cursor + 1) view))"

definition at_cursor :: "string \<Rightarrow> nat \<Rightarrow> string" where
  "at_cursor msg cursor = msg @ '':'' @ digits cursor"

definition segment :: "nat \<Rightarrow> nat \<Rightarrow> 'a list \<Rightarrow> 'a list" where
  "segment a b xs = take (b - a) (drop a xs)"

text \<open>The frame a raw slice of well-formed outline stands for.\<close>

definition read_frame :: "nat \<Rightarrow> nat \<Rightarrow> bytes \<Rightarrow> int \<Rightarrow> frame" where
  "read_frame n cursor raw expected = \<lparr>
     fr_id = n, fr_offset = cursor, fr_raw = raw, fr_address = latin1 (segment 1 3 raw),
     fr_class = chr (unat (raw ! 6)), fr_data = segment 7 (length raw - 4) raw,
     fr_sequence = chr (unat (raw ! (length raw - 4))),
     fr_valid = (int (unat (bcc (take (length raw - 3) raw))) = expected)\<rparr>"

definition accept_frame :: "nat \<Rightarrow> bytes \<Rightarrow> int \<Rightarrow> framed_stream \<Rightarrow> framed_stream" where
  "accept_frame cursor raw expected st =
     (let f = read_frame (length (frames st) + 1) cursor raw expected;
          st' = (if fr_valid f then st else add_issue (at_cursor ''bcc_mismatch'' cursor) st)
      in if length (frames st) < max_frames then st'\<lparr>frames := frames st' @ [f]\<rparr>
         else st'\<lparr>truncated := True\<rparr>)"

datatype step = Halt framed_stream | Go nat framed_stream

text \<open>One turn of the loop.\<close>

definition frame_step :: "bytes \<Rightarrow> nat \<Rightarrow> framed_stream \<Rightarrow> step" where
  "frame_step view cursor st =
     (if view ! cursor = ACK then Go (cursor + 1) (st\<lparr>ack_count := ack_count st + 1\<rparr>)
      else if view ! cursor \<noteq> STX then
        (let n = next_control view cursor in
         Go n (add_issue (at_cursor ''unframed_bytes'' cursor @ '':'' @ digits (n - cursor)) st))
      else if length view < cursor + 6 then
        Halt (add_issue (at_cursor ''truncated_header'' cursor @ '':'' @ digits (length view - cursor)) st)
      else let address_raw = segment (cursor + 1) (cursor + 3) view; length_raw = segment (cursor + 3) (cursor + 6) view in
        if \<not> digit_bytes address_raw \<or> \<not> digit_bytes length_raw then
          Go (cursor + 1) (add_issue (at_cursor ''malformed_header'' cursor) st)
        else let size = digits_value 0 (latin1 length_raw) + 11 in
          if length view < cursor + size then
            Halt (add_issue (at_cursor ''truncated_frame'' cursor @ '':'' @ digits (length view - cursor)) st)
          else let raw = segment cursor (cursor + size) view in
            if last raw \<noteq> ETX then Go (cursor + 1) (add_issue (at_cursor ''missing_etx'' cursor) st)
            else case hex_field (segment (size - 3) (size - 1) raw) of
              None \<Rightarrow> Go (cursor + size) (add_issue (at_cursor ''malformed_trailer'' cursor) st)
            | Some expected \<Rightarrow> Go (cursor + size) (accept_frame cursor raw expected st))"

lemma frame_step_progress: "frame_step view cursor st = Go c st' \<Longrightarrow> cursor < c"
  by (auto simp: frame_step_def next_control_def Let_def split: if_splits option.splits)

function frame_loop :: "bytes \<Rightarrow> nat \<Rightarrow> framed_stream \<Rightarrow> framed_stream" where
  "frame_loop view cursor st =
     (if cursor < length view then (case frame_step view cursor st of Halt st' \<Rightarrow> st' | Go c st' \<Rightarrow> frame_loop view c st')
      else st)"
  by auto
termination
  by (relation "measure (\<lambda>(view, cursor, st). length view - cursor)") (auto dest: frame_step_progress)

declare frame_loop.simps [simp del]

definition empty_stream :: framed_stream where
  "empty_stream = \<lparr>frames = [], ack_count = 0, issues = [], truncated = False\<rparr>"

definition frame_stream :: "bytes \<Rightarrow> framed_stream" where
  "frame_stream payload =
     (let view = take max_input_bytes payload;
          st = frame_loop view 0 (empty_stream\<lparr>truncated := max_input_bytes < length payload\<rparr>);
          st1 = (if max_issues \<le> length (issues st)
                 then st\<lparr>issues := butlast (issues st) @ [''issue_limit_exceeded'']\<rparr> else st)
      in if length view < length payload
         then st1\<lparr>issues := issues st1 @ [''parser_input_limit_exceeded'']\<rparr> else st1)"

section \<open>What a stream is made of\<close>

datatype item = Acknowledge | Framed bytes

primrec wire :: "item \<Rightarrow> bytes" where
  "wire Acknowledge = [ACK]"
| "wire (Framed raw) = raw"

definition check_field :: "bytes \<Rightarrow> int option" where
  "check_field raw = hex_field (segment (length raw - 3) (length raw - 1) raw)"

text \<open>The outline of a frame: everything but the value of the block check.\<close>

definition well_framed :: "bytes \<Rightarrow> bool" where
  "well_framed raw \<longleftrightarrow> length raw = 11 + digits_value 0 (latin1 (segment 3 6 raw)) \<and> raw ! 0 = STX \<and>
     digit_bytes (segment 1 3 raw) \<and> digit_bytes (segment 3 6 raw) \<and> last raw = ETX \<and> check_field raw \<noteq> None"

primrec item_ok :: "item \<Rightarrow> bool" where
  "item_ok Acknowledge = True"
| "item_ok (Framed raw) = well_framed raw"

definition wires :: "item list \<Rightarrow> bytes" where
  "wires items = concat (map wire items)"

lemma wires_simps [simp]: "wires [] = []" "wires (i # items) = wire i @ wires items" "wires (items @ js) = wires items @ wires js"
  by (simp_all add: wires_def)

definition framed :: "nat \<Rightarrow> nat \<Rightarrow> bytes \<Rightarrow> frame" where
  "framed n cursor raw = read_frame n cursor raw (the (check_field raw))"

text \<open>The frames, acknowledgements and wrong block checks of a list of items.\<close>

fun frames_of :: "nat \<Rightarrow> nat \<Rightarrow> item list \<Rightarrow> frame list" where
  "frames_of n cursor [] = []"
| "frames_of n cursor (Acknowledge # items) = frames_of n (cursor + 1) items"
| "frames_of n cursor (Framed raw # items) = framed n cursor raw # frames_of (n + 1) (cursor + length raw) items"

definition acks_of :: "item list \<Rightarrow> nat" where
  "acks_of items = length (filter (\<lambda>i. i = Acknowledge) items)"

definition mismatches :: "frame list \<Rightarrow> string list" where
  "mismatches fs = map (\<lambda>f. at_cursor ''bcc_mismatch'' (fr_offset f)) (filter (\<lambda>f. \<not> fr_valid f) fs)"

primrec read_item :: "item \<Rightarrow> nat \<Rightarrow> framed_stream \<Rightarrow> framed_stream" where
  "read_item Acknowledge cursor st = st\<lparr>ack_count := ack_count st + 1\<rparr>"
| "read_item (Framed raw) cursor st = accept_frame cursor raw (the (check_field raw)) st"

fun read_all :: "item list \<Rightarrow> nat \<Rightarrow> framed_stream \<Rightarrow> framed_stream" where
  "read_all [] cursor st = st"
| "read_all (i # items) cursor st = read_all items (cursor + length (wire i)) (read_item i cursor st)"

lemma read_all_append:
  "read_all (items @ js) cursor st = read_all js (cursor + length (wires items)) (read_all items cursor st)"
  by (induction items arbitrary: cursor st) (simp_all add: add.assoc)

lemma framed_offset [simp]: "fr_offset (framed n cursor raw) = cursor"
  by (simp add: framed_def read_frame_def)

text \<open>Reading items in closed form, within the limits.\<close>

lemma read_all_closed:
  assumes "length (frames st) + length (frames_of 1 cursor items) \<le> max_frames"
    and "length (issues st) + length (mismatches (frames_of (length (frames st) + 1) cursor items)) \<le> max_issues"
  shows "read_all items cursor st = st\<lparr>frames := frames st @ frames_of (length (frames st) + 1) cursor items,
    ack_count := ack_count st + acks_of items,
    issues := issues st @ mismatches (frames_of (length (frames st) + 1) cursor items)\<rparr>"
proof -
  have len: "length (frames_of n c xs) = length (frames_of m d xs)" for n c m d xs
    by (induction n c xs arbitrary: m d rule: frames_of.induct) auto
  show ?thesis
    using assms
  proof (induction items arbitrary: cursor st)
    case Nil
    show ?case by (simp add: acks_of_def mismatches_def)
  next
    case (Cons i items)
    show ?case
    proof (cases i)
      case Acknowledge
      with Cons.prems have "length (frames (read_item i cursor st)) + length (frames_of 1 (cursor + 1) items) \<le> max_frames"
        using len [of 1 "cursor + 1" items] by simp
      with Cons.prems Acknowledge show ?thesis
        using Cons.IH [of "read_item i cursor st" "cursor + 1"] by (simp add: acks_of_def)
    next
      case (Framed raw)
      let ?f = "framed (length (frames st) + 1) cursor raw"
      let ?st = "st\<lparr>frames := frames st @ [?f], issues := issues st @ mismatches [?f]\<rparr>"
      have room: "length (frames st) < max_frames" using Cons.prems(1) Framed by simp
      have st: "read_item i cursor st = ?st"
        using room Cons.prems(2) Framed
        by (simp add: accept_frame_def Let_def framed_def [symmetric] add_issue_def mismatches_def
            split: if_splits)
      have "length (frames_of 1 (cursor + length raw) items) = length (frames_of 2 (cursor + length raw) items)" by (rule len)
      then have "length (frames ?st) + length (frames_of 1 (cursor + length raw) items) \<le> max_frames"
        using Cons.prems(1) unfolding Framed by (simp add: numeral_2_eq_2)
      moreover have "length (issues ?st) + length (mismatches (frames_of (length (frames ?st) + 1) (cursor + length raw) items)) \<le> max_issues"
        using Cons.prems(2) unfolding Framed by (simp add: mismatches_def split: if_splits)
      ultimately have "read_all items (cursor + length raw) ?st = ?st\<lparr>frames := frames ?st @ frames_of (length (frames ?st) + 1) (cursor + length raw) items,
          ack_count := ack_count ?st + acks_of items,
          issues := issues ?st @ mismatches (frames_of (length (frames ?st) + 1) (cursor + length raw) items)\<rparr>"
        by (rule Cons.IH)
      then show ?thesis using st Framed by (simp add: acks_of_def mismatches_def)
    qed
  qed
qed

section \<open>One turn on a well-formed item\<close>

lemma segment_inside: "b \<le> length raw \<Longrightarrow> segment (length pre + a) (length pre + b) (pre @ raw @ post) = segment a b raw"
  by (simp add: segment_def)

lemma length_segment: "b \<le> length xs \<Longrightarrow> length (segment a b xs) = b - a"
  by (simp add: segment_def)

lemma segment_whole [simp]: "segment 0 (length xs) xs = xs"
  by (simp add: segment_def)

lemma step_acknowledge: "frame_step (pre @ ACK # post) (length pre) st = Go (length pre + 1) (st\<lparr>ack_count := ack_count st + 1\<rparr>)"
  by (simp add: frame_step_def)

lemma step_framed:
  assumes "well_framed raw"
  shows "frame_step (pre @ raw @ post) (length pre) st = Go (length pre + length raw) (accept_frame (length pre) raw (the (check_field raw)) st)"
proof -
  let ?view = "pre @ raw @ post" and ?n = "digits_value 0 (latin1 (segment 3 6 raw)) + 11"
  have n: "?n = length raw" and start: "raw ! 0 = STX" using assms by (simp_all add: well_framed_def)
  have first: "?view ! length pre = STX"
    using n start by (cases raw) (simp_all add: nth_append)
  have slices: "segment (length pre + 1) (length pre + 3) ?view = segment 1 3 raw"
    "segment (length pre + 3) (length pre + 6) ?view = segment 3 6 raw"
    "segment (length pre) (length pre + length raw) ?view = raw"
    using n segment_inside [of 3 raw pre 1 post] segment_inside [of 6 raw pre 3 post] segment_inside [of "length raw" raw pre 0 post] by simp_all
  show ?thesis
    using assms n unfolding frame_step_def first slices Let_def n check_field_def [symmetric]
    by (auto simp: well_framed_def STX_def ACK_def slices)
qed

lemma loop_items:
  assumes "list_all item_ok items"
  shows "frame_loop (pre @ wires items) (length pre) st = read_all items (length pre) st"
  using assms
proof (induction items arbitrary: pre st)
  case Nil
  then show ?case by (subst frame_loop.simps) simp
next
  case (Cons i items)
  have step: "frame_step (pre @ wire i @ wires items) (length pre) st = Go (length pre + length (wire i)) (read_item i (length pre) st)"
    using Cons.prems by (cases i) (simp_all add: step_acknowledge step_framed)
  have "0 < length (wire i)" using Cons.prems by (cases i) (auto simp: well_framed_def)
  then have "frame_loop (pre @ wires (i # items)) (length pre) st
      = frame_loop ((pre @ wire i) @ wires items) (length (pre @ wire i)) (read_item i (length pre) st)"
    by (subst frame_loop.simps) (simp add: step)
  also have "\<dots> = read_all items (length (pre @ wire i)) (read_item i (length pre) st)"
    by (rule Cons.IH) (use Cons.prems in simp)
  finally show ?case by simp
qed

lemma frame_stream_items:
  assumes "list_all item_ok items" and "length (wires items) \<le> max_input_bytes"
    and "length (frames_of 1 0 items) \<le> max_frames" and "length (mismatches (frames_of 1 0 items)) < max_issues"
  shows "frame_stream (wires items) = \<lparr>frames = frames_of 1 0 items, ack_count = acks_of items,
    issues = mismatches (frames_of 1 0 items), truncated = False\<rparr>"
proof -
  have "frame_loop (wires items) 0 empty_stream = read_all items 0 empty_stream"
    using loop_items [OF assms(1), of "[]"] by simp
  also have "\<dots> = \<lparr>frames = frames_of 1 0 items, ack_count = acks_of items,
      issues = mismatches (frames_of 1 0 items), truncated = False\<rparr>"
    using read_all_closed [of empty_stream 0 items] assms(3,4) by (simp add: empty_stream_def)
  finally have loop: "frame_loop (wires items) 0 empty_stream = \<lparr>frames = frames_of 1 0 items, ack_count = acks_of items,
      issues = mismatches (frames_of 1 0 items), truncated = False\<rparr>" .
  have "empty_stream\<lparr>truncated := False\<rparr> = empty_stream" by (simp add: empty_stream_def)
  then show ?thesis using assms(2,4) by (simp add: frame_stream_def Let_def loop)
qed

text \<open>
  C13: what was sent is what is read. For every sequence of acknowledgements and frames of well-formed
  outline within the limits of the parser (16 MiB, 8192 frames, less than 1024 wrong block checks), in
  whatever segments TCP delivered it, the frames come back in order with their bytes and offsets, the
  acknowledgements are counted, exactly the frames whose block check is wrong are flagged, each with
  one issue, and nothing is reported besides.
\<close>

theorem framing_lossless:
  assumes "list_all item_ok items" and "length (wires items) \<le> max_input_bytes"
    and "length (frames_of 1 0 items) \<le> max_frames" and "length (mismatches (frames_of 1 0 items)) < max_issues"
  shows "frame_stream (wires items) = \<lparr>frames = frames_of 1 0 items, ack_count = acks_of items,
    issues = mismatches (frames_of 1 0 items), truncated = False\<rparr>"
  using assms by (rule frame_stream_items)

section \<open>No byte is skipped silently\<close>

lemma accept_frame_issues: "\<exists>more. issues (accept_frame cursor raw e st) = issues st @ more"
  by (auto simp: accept_frame_def add_issue_def Let_def)

lemma add_issue_issues: "\<exists>more. issues (add_issue msg st) = issues st @ more"
  by (auto simp: add_issue_def)

text \<open>A turn keeps the issues and a set \<open>truncated\<close>; a turn that adds neither has read an item.\<close>

definition clean :: "framed_stream \<Rightarrow> bool" where
  "clean st \<longleftrightarrow> issues st = [] \<and> \<not> truncated st"

lemma add_issue_unclean: "\<not> clean (add_issue msg st)"
  by (auto simp: clean_def add_issue_def max_issues_def split: if_splits)

text \<open>What a turn that goes on has done: it noted an issue, or it read an item.\<close>

lemma step_shape:
  assumes "frame_step view cursor st = Go c st'" and "cursor < length view"
  shows "(\<exists>msg. st' = add_issue msg st) \<or> (\<exists>i. item_ok i \<and> c = cursor + length (wire i) \<and>
    wire i = segment cursor c view \<and> c \<le> length view \<and> st' = read_item i cursor st)"
proof (cases "view ! cursor = ACK")
  case True
  with assms have "c = cursor + 1" "st' = read_item Acknowledge cursor st" by (auto simp: frame_step_def)
  moreover have "segment cursor (cursor + 1) view = [ACK]"
    using True assms(2) by (simp add: segment_def hd_drop_conv_nth take_Suc)
  ultimately show ?thesis
    using assms by (intro disjI2 exI [of _ Acknowledge]) auto
next
  case False
  show ?thesis
  proof (cases "\<exists>msg. st' = add_issue msg st")
    case noted: False
    let ?size = "digits_value 0 (latin1 (segment (cursor + 3) (cursor + 6) view)) + 11"
    let ?raw = "segment cursor (cursor + ?size) view"
    from False noted assms(1) obtain e where stx: "view ! cursor = STX"
      and digits: "digit_bytes (segment (cursor + 1) (cursor + 3) view)" "digit_bytes (segment (cursor + 3) (cursor + 6) view)"
      and inside: "cursor + ?size \<le> length view" and etx: "last ?raw = ETX"
      and field: "hex_field (segment (?size - 3) (?size - 1) ?raw) = Some e"
      and c: "c = cursor + ?size" and st': "st' = accept_frame cursor ?raw e st"
      by (auto simp: frame_step_def Let_def split: if_splits option.splits)
    have len: "length ?raw = ?size" using inside by (simp add: segment_def)
    have parts: "segment 1 3 ?raw = segment (cursor + 1) (cursor + 3) view" "segment 3 6 ?raw = segment (cursor + 3) (cursor + 6) view"
      by (simp_all add: segment_def drop_take min_def add.commute)
    have "?raw ! 0 = STX" using inside stx by (simp add: segment_def)
    then have "well_framed ?raw"
      using parts digits etx field len by (simp add: well_framed_def check_field_def)
    moreover have "st' = read_item (Framed ?raw) cursor st"
      using field len st' by (simp add: check_field_def)
    ultimately show ?thesis
      using c len inside by (intro disjI2 exI [of _ "Framed ?raw"]) simp
  qed blast
qed

lemma clean_accept: "clean (accept_frame cursor raw e st) \<longleftrightarrow>
    clean st \<and> length (frames st) < max_frames \<and> fr_valid (read_frame (length (frames st) + 1) cursor raw e)"
  by (auto simp: accept_frame_def Let_def clean_def add_issue_def max_issues_def split: if_splits)

lemma clean_step:
  assumes "frame_step view cursor st = Go c st'" and "clean st'" and "cursor < length view"
  shows "clean st \<and> (\<exists>i. item_ok i \<and> c = cursor + length (wire i) \<and> wire i = segment cursor c view \<and>
    c \<le> length view \<and> st' = read_item i cursor st)"
proof -
  from step_shape [OF assms(1,3)] assms(2) obtain i where i: "item_ok i" "c = cursor + length (wire i)"
    "wire i = segment cursor c view" "c \<le> length view" "st' = read_item i cursor st"
    by (auto simp: add_issue_unclean)
  moreover have "clean st"
    using assms(2) i(5) by (cases i) (simp_all add: clean_accept, simp add: clean_def)
  ultimately show ?thesis by blast
qed

lemma clean_loop:
  assumes "clean (frame_loop view cursor st)" and "cursor \<le> length view"
  shows "clean st \<and> (\<exists>items. list_all item_ok items \<and> drop cursor view = wires items \<and>
    frame_loop view cursor st = read_all items cursor st)"
  using assms
proof (induction view cursor st rule: frame_loop.induct)
  case (1 view cursor st)
  show ?case
  proof (cases "cursor < length view")
    case False
    then have "frame_loop view cursor st = st" by (subst frame_loop.simps) simp
    then show ?thesis using 1(2) False by (intro conjI exI [of _ "[]"]) simp_all
  next
    case True
    show ?thesis
    proof (cases "frame_step view cursor st")
      case (Halt st')
      then have "frame_loop view cursor st = st'" using True by (subst frame_loop.simps) simp
      moreover have "\<not> clean st'"
        using Halt by (auto simp: frame_step_def Let_def add_issue_unclean split: if_splits option.splits)
      ultimately show ?thesis using 1(2) by simp
    next
      case (Go c st')
      then have loop: "frame_loop view cursor st = frame_loop view c st'"
        using True by (subst frame_loop.simps) simp
      have "c \<le> length view"
      proof (rule ccontr)
        assume "\<not> c \<le> length view"
        then have "frame_loop view c st' = st'" by (subst frame_loop.simps) simp
        then have "clean st'" using 1(2) loop by simp
        with clean_step [OF Go _ True] \<open>\<not> c \<le> length view\<close> show False by blast
      qed
      with 1(1) [OF True Go] 1(2) loop obtain items where st': "clean st'"
        and items: "list_all item_ok items" "drop c view = wires items" "frame_loop view c st' = read_all items c st'"
        by auto
      from clean_step [OF Go st' True] obtain i where i: "clean st" "item_ok i" "c = cursor + length (wire i)"
        "wire i = segment cursor c view" "st' = read_item i cursor st" by blast
      have "drop cursor view = segment cursor c view @ drop c view"
        using i(3) by (simp add: segment_def) (metis append_take_drop_id drop_drop add.commute)
      then have "drop cursor view = wires (i # items)" using i(4) items(2) by simp
      moreover have "frame_loop view cursor st = read_all (i # items) cursor st"
        using loop items(3) i(3,5) by simp
      ultimately show ?thesis using i(1,2) items(1) by (intro conjI exI [of _ "i # items"]) simp_all
    qed
  qed
qed

lemma clean_read_all:
  assumes "clean (read_all items cursor st)"
  shows "clean st \<and> frames (read_all items cursor st) = frames st @ frames_of (length (frames st) + 1) cursor items \<and>
    ack_count (read_all items cursor st) = ack_count st + acks_of items \<and>
    list_all fr_valid (frames_of (length (frames st) + 1) cursor items)"
  using assms
proof (induction items arbitrary: cursor st)
  case Nil
  then show ?case by (simp add: acks_of_def)
next
  case (Cons i items)
  note rest = Cons.IH [of "cursor + length (wire i)" "read_item i cursor st"]
  show ?case
  proof (cases i)
    case Acknowledge
    with rest Cons.prems show ?thesis by (simp add: acks_of_def clean_def)
  next
    case (Framed raw)
    with rest Cons.prems have "clean (accept_frame cursor raw (the (check_field raw)) st)" by simp
    then have "clean st" "length (frames st) < max_frames" "fr_valid (framed (length (frames st) + 1) cursor raw)"
      by (simp_all add: clean_accept framed_def)
    moreover from this have "read_item i cursor st = st\<lparr>frames := frames st @ [framed (length (frames st) + 1) cursor raw]\<rparr>"
      using Framed by (simp add: accept_frame_def framed_def)
    ultimately show ?thesis using rest Cons.prems Framed by (simp add: acks_of_def)
  qed
qed

text \<open>
  A stream that is reported clean has been read completely. When the parser reports no issue and no
  truncation, the captured bytes are, from the first to the last, a sequence of frames of well-formed
  outline with correct block checks and of acknowledgements, and these are what it returned.
\<close>

theorem no_byte_skipped:
  assumes "issues (frame_stream payload) = []" and "\<not> truncated (frame_stream payload)"
  shows "\<exists>items. list_all item_ok items \<and> payload = wires items \<and>
    frames (frame_stream payload) = frames_of 1 0 items \<and> ack_count (frame_stream payload) = acks_of items \<and>
    list_all fr_valid (frames (frame_stream payload))"
proof -
  let ?start = "empty_stream\<lparr>truncated := max_input_bytes < length payload\<rparr>"
  let ?st = "frame_loop (take max_input_bytes payload) 0 ?start"
  have whole: "length payload \<le> max_input_bytes"
    using assms(1) by (auto simp: frame_stream_def Let_def split: if_splits)
  moreover have few: "length (issues ?st) < max_issues"
    using assms(1) by (auto simp: frame_stream_def Let_def split: if_splits)
  ultimately have st: "frame_stream payload = frame_loop payload 0 empty_stream"
    by (simp add: frame_stream_def Let_def empty_stream_def)
  then have "clean (frame_loop payload 0 empty_stream)" using assms by (simp add: clean_def)
  from clean_loop [OF this] obtain items where items: "list_all item_ok items" "payload = wires items"
    "frame_loop payload 0 empty_stream = read_all items 0 empty_stream" by auto
  with assms st have "clean (read_all items 0 empty_stream)" by (simp add: clean_def)
  from clean_read_all [OF this] show ?thesis
    using items st by (intro exI [of _ items]) (simp add: empty_stream_def)
qed

section \<open>A corrupted byte is noticed\<close>

lemma bcc_fold: "fold (\<lambda>v r. r XOR v) xs a = a XOR bcc xs"
proof (induction xs arbitrary: a)
  case (Cons x xs)
  show ?case using Cons [of "a XOR x"] Cons [of x] by (simp add: bcc_def xor.assoc)
qed (simp add: bcc_def)

lemma bcc_append: "bcc (xs @ ys) = bcc xs XOR bcc ys"
  using bcc_fold [of ys "bcc xs"] by (simp add: bcc_def)

lemma bcc_Cons: "bcc (x # xs) = x XOR bcc xs"
  using bcc_fold [of xs x] by (simp add: bcc_def)

lemma xor_cancel: "a XOR x = a XOR y \<longleftrightarrow> x = y" for a x y :: byte
proof
  assume "a XOR x = a XOR y"
  then have "a XOR (a XOR x) = a XOR (a XOR y)" by simp
  then show "x = y" by (simp add: xor.assoc [symmetric])
qed simp

lemma bcc_update:
  assumes "i < length xs" and "b \<noteq> xs ! i"
  shows "bcc (xs[i := b]) \<noteq> bcc xs"
proof -
  have split: "xs = take i xs @ xs ! i # drop (Suc i) xs" using assms(1) by (rule id_take_nth_drop)
  have "bcc (take i xs @ b # drop (Suc i) xs) = bcc (take i xs) XOR (bcc (drop (Suc i) xs) XOR b)"
    and "bcc (take i xs @ xs ! i # drop (Suc i) xs) = bcc (take i xs) XOR (bcc (drop (Suc i) xs) XOR xs ! i)"
    by (simp_all add: bcc_append bcc_Cons xor.commute)
  with assms split show ?thesis
    by (simp add: upd_conv_take_nth_drop xor_cancel)
qed

text \<open>Changing one byte before the block check of a valid frame, but not the outline, makes it invalid.\<close>

lemma corrupted_frame:
  assumes "fr_valid (framed n c raw)" and "i < length raw - 3" and "b \<noteq> raw ! i"
  shows "\<not> fr_valid (framed n c (raw[i := b]))"
proof -
  have "check_field (raw[i := b]) = check_field raw"
    using assms(2) by (simp add: check_field_def segment_def drop_update_swap take_update_swap)
  moreover have "take (length raw - 3) (raw[i := b]) = (take (length raw - 3) raw)[i := b]"
    by (simp add: take_update_swap)
  moreover have "bcc ((take (length raw - 3) raw)[i := b]) \<noteq> bcc (take (length raw - 3) raw)"
    using assms(2,3) by (intro bcc_update) simp_all
  ultimately show ?thesis
    using assms(1) by (simp add: framed_def read_frame_def word_uint_eq_iff)
qed

lemma frames_of_append: "frames_of n c (xs @ ys) =
    frames_of n c xs @ frames_of (n + length (frames_of n c xs)) (c + length (wires xs)) ys"
  by (induction n c xs rule: frames_of.induct) (simp_all add: add.assoc)

lemma mismatches_valid: "list_all fr_valid fs \<Longrightarrow> mismatches fs = []"
  by (auto simp: mismatches_def list_all_iff filter_empty_conv)

lemma mismatches_append: "mismatches (fs @ gs) = mismatches fs @ mismatches gs"
  by (simp add: mismatches_def)

text \<open>
  C14: a corrupted byte is confined and noticed. When one byte of one frame of a clean stream is altered
  on the wire, other than the check field and without breaking the outline of the frame, then exactly
  that frame is flagged as invalid, with one issue naming its offset; all other frames are as before.
\<close>

theorem corruption_confined:
  assumes "list_all item_ok (pre @ Framed raw # post)" and "list_all fr_valid (frames_of 1 0 (pre @ Framed raw # post))"
    and "length (wires (pre @ Framed raw # post)) \<le> max_input_bytes"
    and "length (frames_of 1 0 (pre @ Framed raw # post)) \<le> max_frames"
    and "i < length raw - 3" and "b \<noteq> raw ! i" and "well_framed (raw[i := b])"
  shows "\<exists>f. \<not> fr_valid f \<and> fr_raw f = raw[i := b] \<and>
    frame_stream (wires (pre @ Framed (raw[i := b]) # post)) =
      \<lparr>frames = (frames_of 1 0 (pre @ Framed raw # post))[length (frames_of 1 0 pre) := f],
       ack_count = acks_of (pre @ Framed raw # post),
       issues = [at_cursor ''bcc_mismatch'' (length (wires pre))], truncated = False\<rparr>"
proof -
  let ?n = "length (frames_of 1 0 pre)" and ?c = "length (wires pre)" and ?raw = "raw[i := b]"
  let ?f = "framed (1 + ?n) ?c ?raw" and ?items = "pre @ Framed ?raw # post"
  let ?tail = "frames_of (1 + ?n + 1) (?c + length raw) post"
  have parts: "frames_of 1 0 (pre @ Framed raw # post) = frames_of 1 0 pre @ framed (1 + ?n) ?c raw # ?tail"
    "frames_of 1 0 ?items = frames_of 1 0 pre @ ?f # ?tail"
    by (simp_all add: frames_of_append)
  have bad: "\<not> fr_valid ?f"
    using assms(2) unfolding parts by (intro corrupted_frame assms(5,6)) simp
  have miss: "mismatches (frames_of 1 0 ?items) = [at_cursor ''bcc_mismatch'' ?c]"
    using assms(2) bad unfolding parts by (simp add: mismatches_append mismatches_valid) (simp add: mismatches_def filter_empty_conv list_all_iff)
  have "frame_stream (wires ?items) = \<lparr>frames = frames_of 1 0 ?items, ack_count = acks_of ?items,
      issues = mismatches (frames_of 1 0 ?items), truncated = False\<rparr>"
    by (rule frame_stream_items)
      (use assms(1,3,4,7) miss in \<open>simp_all add: parts max_issues_def del: One_nat_def\<close>)
  moreover have "fr_raw ?f = ?raw" by (simp add: framed_def read_frame_def)
  ultimately show ?thesis
    using bad miss
    by (intro exI [of _ ?f]) (simp add: parts acks_of_def list_update_append del: One_nat_def)
qed

section \<open>Frames of an arbitrary stream\<close>

definition stream_ok :: "bytes \<Rightarrow> nat \<Rightarrow> framed_stream \<Rightarrow> bool" where
  "stream_ok view cursor st \<longleftrightarrow>
     map fr_id (frames st) = [1..<Suc (length (frames st))] \<and> length (frames st) \<le> max_frames \<and>
     length (issues st) \<le> max_issues \<and>
     (\<forall>f \<in> set (frames st). f = framed (fr_id f) (fr_offset f) (fr_raw f) \<and> well_framed (fr_raw f) \<and>
        fr_raw f = segment (fr_offset f) (fr_offset f + length (fr_raw f)) view \<and> fr_offset f + length (fr_raw f) \<le> cursor) \<and>
     sorted_wrt (\<lambda>f g. fr_offset f + length (fr_raw f) \<le> fr_offset g) (frames st)"

lemma stream_ok_later: "stream_ok view cursor st \<Longrightarrow> cursor \<le> c \<Longrightarrow> stream_ok view c st"
  by (fastforce simp: stream_ok_def)

lemma stream_ok_issue: "stream_ok view cursor st \<Longrightarrow> stream_ok view cursor (add_issue msg st)"
  by (auto simp: stream_ok_def add_issue_def)

lemma stream_ok_acks: "stream_ok view cursor (st\<lparr>ack_count := n\<rparr>) = stream_ok view cursor st"
  "stream_ok view cursor (st\<lparr>truncated := b\<rparr>) = stream_ok view cursor st"
  by (simp_all add: stream_ok_def)

lemma stream_ok_accept:
  assumes "stream_ok view cursor st" and "well_framed raw" and "raw = segment cursor (cursor + length raw) view"
  shows "stream_ok view (cursor + length raw) (accept_frame cursor raw (the (check_field raw)) st)"
proof -
  let ?f = "framed (length (frames st) + 1) cursor raw"
  have f: "fr_id ?f = length (frames st) + 1" "fr_raw ?f = raw" by (simp_all add: framed_def read_frame_def)
  have "stream_ok view (cursor + length raw) (st'\<lparr>frames := frames st' @ [?f]\<rparr>)"
    if st': "stream_ok view cursor st'" "frames st' = frames st" "length (frames st) < max_frames" for st'
  proof -
    have "f = framed (fr_id f) (fr_offset f) (fr_raw f)" if "f \<in> set (frames st)" for f
      using st'(1,2) that by (auto simp: stream_ok_def)
    moreover have "fr_offset f + length (fr_raw f) \<le> cursor" if "f \<in> set (frames st)" for f
      using st'(1,2) that by (auto simp: stream_ok_def)
    ultimately show ?thesis
      using st' assms(2,3) f by (fastforce simp: stream_ok_def sorted_wrt_append)
  qed
  moreover have "stream_ok view cursor (add_issue msg st)" "frames (add_issue msg st) = frames st" for msg
    using assms(1) stream_ok_issue by (auto simp: add_issue_def)
  ultimately show ?thesis
    using assms(1) stream_ok_later [OF assms(1), of "cursor + length raw"]
      stream_ok_later [of view cursor "add_issue (at_cursor ''bcc_mismatch'' cursor) st" "cursor + length raw"]
    by (auto simp: accept_frame_def framed_def [symmetric] Let_def stream_ok_acks)
qed

lemma stream_ok_step:
  assumes "stream_ok view cursor st" and "cursor < length view"
  shows "case frame_step view cursor st of Halt st' \<Rightarrow> stream_ok view (length view) st' | Go c st' \<Rightarrow> stream_ok view c st'"
proof (cases "frame_step view cursor st")
  case (Halt st')
  then have "\<exists>msg. st' = add_issue msg st"
    by (auto simp: frame_step_def Let_def split: if_splits option.splits)
  then show ?thesis using Halt assms stream_ok_issue stream_ok_later by fastforce
next
  case (Go c st')
  then have "cursor < c" by (rule frame_step_progress)
  from step_shape [OF Go assms(2)] show ?thesis
  proof (elim disjE exE conjE)
    fix msg assume "st' = add_issue msg st"
    then show ?thesis using Go assms(1) \<open>cursor < c\<close> stream_ok_issue stream_ok_later by fastforce
  next
    fix i assume i: "item_ok i" "c = cursor + length (wire i)" "wire i = segment cursor c view" "st' = read_item i cursor st"
    then show ?thesis
      using Go assms(1) \<open>cursor < c\<close> stream_ok_later stream_ok_accept
      by (cases i) (auto simp: stream_ok_acks)
  qed
qed

lemma stream_ok_loop:
  assumes "stream_ok view cursor st" and "cursor \<le> length view"
  shows "\<exists>c. stream_ok view c (frame_loop view cursor st)"
  using assms
proof (induction view cursor st rule: frame_loop.induct)
  case (1 view cursor st)
  show ?case
  proof (cases "cursor < length view")
    case True
    show ?thesis
    proof (cases "frame_step view cursor st")
      case (Halt st')
      then show ?thesis
        using stream_ok_step [OF 1(2) True] True by (subst frame_loop.simps) auto
    next
      case (Go c st')
      have ok: "stream_ok view c st'" using stream_ok_step [OF 1(2) True] Go by simp
      have "\<exists>c'. stream_ok view c' (frame_loop view c st')"
      proof (cases "c \<le> length view")
        case True
        with 1(1) [OF \<open>cursor < length view\<close> Go ok] show ?thesis .
      next
        case False
        then have "frame_loop view c st' = st'" by (subst frame_loop.simps) simp
        with ok show ?thesis by auto
      qed
      then show ?thesis using Go True by (subst frame_loop.simps) simp
    qed
  next
    case False
    then show ?thesis using 1(2) by (subst frame_loop.simps) auto
  qed
qed

text \<open>
  Whatever the bytes are, the parser stays within its limits and invents nothing: the frames are
  numbered from one, at most 8192, each is a slice of the input at its offset with the outline of a
  frame and its fields are those of the slice, no two overlap, and at most 1025 issues are kept.
\<close>

theorem frames_are_slices:
  "let fs = frames (frame_stream payload) in
    map fr_id fs = [1..<Suc (length fs)] \<and> length fs \<le> max_frames \<and>
    length (issues (frame_stream payload)) \<le> max_issues + 1 \<and>
    (\<forall>f \<in> set fs. f = framed (fr_id f) (fr_offset f) (fr_raw f) \<and> well_framed (fr_raw f) \<and>
       fr_raw f = segment (fr_offset f) (fr_offset f + length (fr_raw f)) (take max_input_bytes payload)) \<and>
    sorted_wrt (\<lambda>f g. fr_offset f + length (fr_raw f) \<le> fr_offset g) fs"
proof -
  let ?view = "take max_input_bytes payload"
  let ?start = "empty_stream\<lparr>truncated := max_input_bytes < length payload\<rparr>"
  have "stream_ok ?view 0 ?start" by (simp add: stream_ok_def empty_stream_def)
  from stream_ok_loop [OF this] obtain c where ok: "stream_ok ?view c (frame_loop ?view 0 ?start)" by auto
  moreover have "frames (frame_stream payload) = frames (frame_loop ?view 0 ?start)"
    by (simp add: frame_stream_def Let_def)
  moreover have "length (issues (frame_stream payload)) \<le> max_issues + 1"
    using ok by (auto simp: stream_ok_def frame_stream_def Let_def max_issues_def)
  ultimately show ?thesis by (simp add: stream_ok_def)
qed

section \<open>Examples\<close>

text \<open>The frame a client builds: the block check is over everything before it.\<close>

definition encode_frame :: "string \<Rightarrow> char \<Rightarrow> string \<Rightarrow> char \<Rightarrow> bytes" where
  "encode_frame address cls data seq =
     (let size = digits (length data);
          prefix = STX # map (\<lambda>c. of_nat (code c)) (address @ replicate (3 - length size) (CHR ''0'') @ size @ [cls] @ data @ [seq]);
          check = unat (bcc prefix)
      in prefix @ map (\<lambda>c. of_nat (code c)) [hex_digit (check div 16), hex_digit (check mod 16)] @ [ETX])"

definition open_frame :: bytes where "open_frame = encode_frame ''00'' (CHR ''z'') ''=K'' (CHR ''0'')"
definition close_frame :: bytes where "close_frame = encode_frame ''00'' (CHR ''z'') ''=o'' (CHR ''1'')"

definition example_items :: "item list" where
  "example_items = [Framed open_frame, Acknowledge, Framed close_frame]"

lemma example_items_facts:
  "list_all item_ok example_items" "length (wires example_items) = 27" "length (frames_of 1 0 example_items) = 2"
  "list_all fr_valid (frames_of 1 0 example_items)"
  by code_simp+

lemma example_stream:
  "frame_stream (wires example_items) = \<lparr>frames = frames_of 1 0 example_items, ack_count = 1, issues = [], truncated = False\<rparr>"
  using frame_stream_items [of example_items] example_items_facts
  by (simp add: max_input_bytes_def max_frames_def max_issues_def mismatches_valid acks_of_def)
    (simp add: example_items_def)

theorem framing_lossless_witness:
  "frame_stream (wires example_items) = \<lparr>frames = frames_of 1 0 example_items, ack_count = acks_of example_items,
     issues = [], truncated = False\<rparr> \<and> acks_of example_items = 1"
proof -
  have "mismatches (frames_of 1 0 example_items) = []" by (rule mismatches_valid [OF example_items_facts(4)])
  moreover have "acks_of example_items = 1" by code_simp
  ultimately show ?thesis
    using framing_lossless [of example_items] example_items_facts
    by (simp add: max_input_bytes_def max_frames_def max_issues_def)
qed

theorem no_byte_skipped_witness:
  "\<exists>items. wires example_items = wires items \<and> frames (frame_stream (wires example_items)) = frames_of 1 0 items \<and>
     list_all fr_valid (frames (frame_stream (wires example_items)))"
  using no_byte_skipped [of "wires example_items"] by (auto simp: example_stream)

theorem corruption_confined_witness:
  "\<exists>f. \<not> fr_valid f \<and> frames (frame_stream (wires [Framed (open_frame[8 := 74]), Acknowledge, Framed close_frame])) =
     (frames_of 1 0 example_items)[0 := f]"
proof -
  have "8 < length open_frame - 3" "74 \<noteq> open_frame ! 8" "well_framed (open_frame[8 := 74])" by code_simp+
  with corruption_confined [of "[]" open_frame "[Acknowledge, Framed close_frame]" 8 74] example_items_facts
  show ?thesis by (fastforce simp: example_items_def max_input_bytes_def max_frames_def)
qed

theorem frames_are_slices_witness:
  "map fr_id (frames (frame_stream (wires example_items))) = [1, 2]"
proof -
  have "length (frames (frame_stream (wires example_items))) = 2"
    using example_items_facts(3) by (simp add: example_stream)
  moreover have "[1..<Suc 2] = [1, 2 :: nat]" by (simp add: upt_rec)
  ultimately show ?thesis
    using frames_are_slices [of "wires example_items"] unfolding Let_def by metis
qed

end
