(* ===== verification/PyRegex.thy ===== *)
theory PyRegex imports Domain begin

text \<open>
  The part of Python's \<^verbatim>\<open>re\<close> the parsers use: a backtracking matcher over an abstract syntax of
  patterns. \<open>rx_run\<close> lists the ways a pattern matches from a position in the order in which the
  backtracking engine tries them, so the first of them is the match Python reports and the first that
  ends at the end of the text is the one of \<^verbatim>\<open>fullmatch\<close>. Patterns are texts of the Latin-1 repertoire;
  \<^verbatim>\<open>IGNORECASE\<close> compares lower-case letters.
\<close>

section \<open>Patterns\<close>

datatype rx =
    Cls "char \<Rightarrow> bool"
  | Empty
  | Cat rx rx
  | Alt rx rx
  | Star rx
  | LazyStar rx
  | Group string rx
  | AtStart
  | AtEnd
  | Boundary
  | Ahead rx
  | NotAhead "char \<Rightarrow> bool"
  | NotBehind "char \<Rightarrow> bool"

text \<open>A state of the matcher: the position reached and the groups, the latest first.\<close>

type_synonym rx_state = "nat \<times> (string \<times> string) list"

text \<open>
  The repetitions of a body from a state, longest first or shortest first. Each turn must consume a
  character, so as many turns as there are characters left are enough.
\<close>

primrec star_run :: "nat \<Rightarrow> (rx_state \<Rightarrow> rx_state list) \<Rightarrow> rx_state \<Rightarrow> rx_state list" where
  "star_run 0 f x = [x]"
| "star_run (Suc n) f x = concat (map (star_run n f) (filter (\<lambda>y. fst x < fst y) (f x))) @ [x]"

primrec lazy_run :: "nat \<Rightarrow> (rx_state \<Rightarrow> rx_state list) \<Rightarrow> rx_state \<Rightarrow> rx_state list" where
  "lazy_run 0 f x = [x]"
| "lazy_run (Suc n) f x = x # concat (map (lazy_run n f) (filter (\<lambda>y. fst x < fst y) (f x)))"

definition is_word :: "char \<Rightarrow> bool" where
  "is_word c = (is_alnum c \<or> c = CHR ''_'')"

definition word_at :: "string \<Rightarrow> nat \<Rightarrow> bool" where
  "word_at s i = (i < length s \<and> is_word (s ! i))"

definition at_boundary :: "string \<Rightarrow> nat \<Rightarrow> bool" where
  "at_boundary s i = (word_at s i \<noteq> (0 < i \<and> word_at s (i - 1)))"

text \<open>\<^verbatim>\<open>$\<close>: the end, or a newline before it.\<close>

definition at_end :: "string \<Rightarrow> nat \<Rightarrow> bool" where
  "at_end s i = (i = length s \<or> (i + 1 = length s \<and> s ! i = chr 10))"

primrec rx_run :: "rx \<Rightarrow> string \<Rightarrow> rx_state \<Rightarrow> rx_state list" where
  "rx_run (Cls p) s x = (if fst x < length s \<and> p (s ! fst x) then [(fst x + 1, snd x)] else [])"
| "rx_run Empty s x = [x]"
| "rx_run (Cat r1 r2) s x = concat (map (rx_run r2 s) (rx_run r1 s x))"
| "rx_run (Alt r1 r2) s x = rx_run r1 s x @ rx_run r2 s x"
| "rx_run (Star r) s x = star_run (length s - fst x) (rx_run r s) x"
| "rx_run (LazyStar r) s x = lazy_run (length s - fst x) (rx_run r s) x"
| "rx_run (Group n r) s x = map (\<lambda>y. (fst y, (n, take (fst y - fst x) (drop (fst x) s)) # snd y)) (rx_run r s x)"
| "rx_run AtStart s x = (if fst x = 0 then [x] else [])"
| "rx_run AtEnd s x = (if at_end s (fst x) then [x] else [])"
| "rx_run Boundary s x = (if at_boundary s (fst x) then [x] else [])"
| "rx_run (Ahead r) s x = (if rx_run r s x = [] then [] else [x])"
| "rx_run (NotAhead p) s x = (if fst x < length s \<and> p (s ! fst x) then [] else [x])"
| "rx_run (NotBehind p) s x = (if 0 < fst x \<and> fst x \<le> length s \<and> p (s ! (fst x - 1)) then [] else [x])"

section \<open>Matching\<close>

record rx_match =
  m_start :: nat
  m_end :: nat
  m_groups :: "(string \<times> string) list"

definition match_from :: "rx \<Rightarrow> string \<Rightarrow> nat \<Rightarrow> rx_match option" where
  "match_from r s i = (case rx_run r s (i, []) of
     [] \<Rightarrow> None | y # _ \<Rightarrow> Some \<lparr>m_start = i, m_end = fst y, m_groups = snd y\<rparr>)"

text \<open>\<^verbatim>\<open>pattern.match(s)\<close>, \<^verbatim>\<open>pattern.fullmatch(s)\<close>, \<^verbatim>\<open>pattern.search(s)\<close>\<close>

definition rx_match :: "rx \<Rightarrow> string \<Rightarrow> rx_match option" where
  "rx_match r s = match_from r s 0"

definition rx_full :: "rx \<Rightarrow> string \<Rightarrow> rx_match option" where
  "rx_full r s = (case filter (\<lambda>y. fst y = length s) (rx_run r s (0, [])) of
     [] \<Rightarrow> None | y # _ \<Rightarrow> Some \<lparr>m_start = 0, m_end = fst y, m_groups = snd y\<rparr>)"

fun search_at :: "rx \<Rightarrow> string \<Rightarrow> nat list \<Rightarrow> rx_match option" where
  "search_at r s [] = None"
| "search_at r s (i # is) = (case match_from r s i of Some m \<Rightarrow> Some m | None \<Rightarrow> search_at r s is)"

definition rx_search :: "rx \<Rightarrow> string \<Rightarrow> rx_match option" where
  "rx_search r s = search_at r s [0..<Suc (length s)]"

text \<open>\<^verbatim>\<open>pattern.finditer(s)\<close> for a pattern that consumes at least one character.\<close>

fun find_all :: "nat \<Rightarrow> rx \<Rightarrow> string \<Rightarrow> nat \<Rightarrow> rx_match list" where
  "find_all 0 r s i = []"
| "find_all (Suc n) r s i = (case search_at r s [i..<Suc (length s)] of
     None \<Rightarrow> [] | Some m \<Rightarrow> m # find_all n r s (max (m_end m) (Suc (m_start m))))"

definition rx_find_all :: "rx \<Rightarrow> string \<Rightarrow> rx_match list" where
  "rx_find_all r s = find_all (Suc (length s)) r s 0"

definition matches :: "rx_match option \<Rightarrow> bool" where
  "matches m = (m \<noteq> None)"

text \<open>\<^verbatim>\<open>match.group(name)\<close>: \<open>None\<close> when the group took no part.\<close>

definition group :: "rx_match \<Rightarrow> string \<Rightarrow> string option" where
  "group m n = map_of (m_groups m) n"

definition group_text :: "rx_match \<Rightarrow> string \<Rightarrow> string" where
  "group_text m n = (case group m n of Some v \<Rightarrow> v | None \<Rightarrow> [])"

section \<open>Building patterns\<close>

fun cats :: "rx list \<Rightarrow> rx" where
  "cats [] = Empty"
| "cats [r] = r"
| "cats (r # rs) = Cat r (cats rs)"

fun alts :: "rx list \<Rightarrow> rx" where
  "alts [] = Cls (\<lambda>_. False)"
| "alts [r] = r"
| "alts (r # rs) = Alt r (alts rs)"

definition opt :: "rx \<Rightarrow> rx" where "opt r = Alt r Empty"
definition plus :: "rx \<Rightarrow> rx" where "plus r = Cat r (Star r)"

primrec exactly :: "nat \<Rightarrow> rx \<Rightarrow> rx" where
  "exactly 0 r = Empty"
| "exactly (Suc n) r = Cat r (exactly n r)"

primrec up_to :: "nat \<Rightarrow> rx \<Rightarrow> rx" where
  "up_to 0 r = Empty"
| "up_to (Suc n) r = Alt (Cat r (up_to n r)) Empty"

text \<open>\<^verbatim>\<open>r{m,n}\<close>\<close>

definition between :: "nat \<Rightarrow> nat \<Rightarrow> rx \<Rightarrow> rx" where
  "between m n r = Cat (exactly m r) (up_to (n - m) r)"

definition lit :: "string \<Rightarrow> rx" where "lit s = cats (map (\<lambda>c. Cls (\<lambda>d. d = c)) s)"
definition one_of :: "string \<Rightarrow> rx" where "one_of cs = Cls (\<lambda>c. c \<in> set cs)"

text \<open>A text under \<^verbatim>\<open>IGNORECASE\<close>.\<close>

definition nocase :: "string \<Rightarrow> rx" where
  "nocase s = cats (map (\<lambda>c. let l = lower [c] in Cls (\<lambda>d. lower [d] = l)) s)"

definition is_letter :: "char \<Rightarrow> bool" where
  "is_letter c = ((65 \<le> code c \<and> code c \<le> 90) \<or> (97 \<le> code c \<and> code c \<le> 122))"

definition digit :: rx where "digit = Cls is_digit"
definition space :: rx where "space = Cls is_space"
definition spaces :: rx where "spaces = Star space"
definition dot :: rx where "dot = Cls (\<lambda>c. c \<noteq> chr 10)"

text \<open>\<^verbatim>\<open>[A-Z0-9]\<close> under \<^verbatim>\<open>IGNORECASE\<close>\<close>

definition is_token :: "char \<Rightarrow> bool" where "is_token c = (is_letter c \<or> is_digit c)"
definition token :: rx where "token = Cls is_token"
definition blank :: rx where "blank = plus space"

section \<open>What a match guarantees\<close>

lemma star_run_from:
  assumes "\<And>x y. y \<in> set (f x) \<Longrightarrow> P x y" and "\<And>x. P x x" and "\<And>x y z. P x y \<Longrightarrow> P y z \<Longrightarrow> P x z"
    and "y \<in> set (star_run n f x)"
  shows "P x y"
  using assms(4)
proof (induction n arbitrary: x)
  case 0
  then show ?case using assms(2) by simp
next
  case (Suc n)
  then consider "y = x" | z where "z \<in> set (f x)" "y \<in> set (star_run n f z)" by auto
  then show ?case
  proof cases
    case 2
    from assms(1) [OF 2(1)] Suc.IH [OF 2(2)] show ?thesis by (rule assms(3))
  qed (simp add: assms(2))
qed

lemma lazy_run_from:
  assumes "\<And>x y. y \<in> set (f x) \<Longrightarrow> P x y" and "\<And>x. P x x" and "\<And>x y z. P x y \<Longrightarrow> P y z \<Longrightarrow> P x z"
    and "y \<in> set (lazy_run n f x)"
  shows "P x y"
  using assms(4)
proof (induction n arbitrary: x)
  case 0
  then show ?case using assms(2) by simp
next
  case (Suc n)
  then consider "y = x" | z where "z \<in> set (f x)" "y \<in> set (lazy_run n f z)" by auto
  then show ?case
  proof cases
    case 2
    from assms(1) [OF 2(1)] Suc.IH [OF 2(2)] show ?thesis by (rule assms(3))
  qed (simp add: assms(2))
qed

text \<open>A match moves forward and stays inside the text; a group holds a part of the text.\<close>

definition forward :: "string \<Rightarrow> rx_state \<Rightarrow> rx_state \<Rightarrow> bool" where
  "forward s x y \<longleftrightarrow> fst x \<le> fst y \<and> (fst x \<le> length s \<longrightarrow> fst y \<le> length s)"

lemma forward_refl: "forward s x x"
  by (simp add: forward_def)

lemma forward_trans: "forward s x y \<Longrightarrow> forward s y z \<Longrightarrow> forward s x z"
  by (auto simp: forward_def)

lemma rx_run_forward: "y \<in> set (rx_run r s x) \<Longrightarrow> forward s x y"
proof (induction r arbitrary: x y)
  case (Cat r1 r2)
  from Cat.prems obtain z where "z \<in> set (rx_run r1 s x)" "y \<in> set (rx_run r2 s z)" by auto
  from Cat.IH(1) [OF this(1)] Cat.IH(2) [OF this(2)] show ?case by (rule forward_trans)
next
  case (Star r)
  show ?case
    by (rule star_run_from [of "rx_run r s" "forward s", OF Star.IH forward_refl forward_trans])
      (use Star.prems in simp_all)
next
  case (LazyStar r)
  show ?case
    by (rule lazy_run_from [of "rx_run r s" "forward s", OF LazyStar.IH forward_refl forward_trans])
      (use LazyStar.prems in simp_all)
next
  case (Group n r)
  from Group.prems obtain z where "z \<in> set (rx_run r s x)" "fst y = fst z" by auto
  with Group.IH [OF this(1)] show ?case by (simp add: forward_def)
qed (auto simp: forward_def split: if_splits)

end
