(* ===== verification/RchText.thy ===== *)
theory RchText imports PyRegex Decimals begin

text \<open>
  The printed text of RCH documents, from \<^verbatim>\<open>parser/rch.py\<close>: the patterns, the classification of
  management documents, amounts and codes, and local times. The time zone database is a parameter:
  \<open>zones name\<close> is the zone of a name, with the two conversions \<^verbatim>\<open>ZoneInfo\<close> offers.
\<close>

section \<open>Errors\<close>

text \<open>
  What the parser raises: \<^verbatim>\<open>decimal.InvalidOperation\<close> and \<^verbatim>\<open>OverflowError\<close>, which are arithmetic errors,
  and two that are \<^verbatim>\<open>ValueError\<close>: pydantic's validation error and \<^verbatim>\<open>int\<close> of a character that is no
  decimal digit.
\<close>

datatype rch_error = InvalidOperation | DateOverflow | InvalidModel | InvalidDigit

section \<open>Patterns of the protocol\<close>

definition number :: rx where "number = Cat (opt (one_of ''+-'')) (plus digit)"

definition item_re :: rx where
  "item_re = cats [AtStart, lit ''=R'', Group ''code'' (plus (Cls (\<lambda>c. c \<noteq> CHR ''/''))), lit ''/$'', Group ''amount'' number,
     opt (Cat (lit ''/*'') (Group ''quantity'' number)), lit ''/('', Group ''description'' (Star dot), lit '')'', AtEnd]"

definition total_re :: rx where
  "total_re = cats [AtStart, lit ''=T'', Group ''code'' (plus (Cls (\<lambda>c. c \<noteq> CHR ''/''))), lit ''/$'', Group ''amount'' number, AtEnd]"

definition style :: rx where "style = opt (Cat (lit ''/*'') (Group ''style'' (plus digit)))"

definition commercial_text_re :: rx where
  "commercial_text_re = cats [AtStart, lit [CHR ''='', CHR 0x22], lit ''/?A/('', Group ''text'' (Star dot), lit '')'', style, AtEnd]"

definition management_text_re :: rx where
  "management_text_re = cats [AtStart, lit [CHR ''='', CHR 0x22], lit ''/('', Group ''text'' (Star dot), lit '')'', style, AtEnd]"

definition counter_re :: rx where
  "counter_re = cats [AtStart, lit ''s'', Group ''status_digits'' (exactly 6 digit), lit ''RE'', Group ''counter'' (exactly 4 digit), AtEnd]"

definition close_re :: rx where "close_re = cats [lit ''<</?'', digit]"

definition error_response_re :: rx where
  "error_response_re = cats [AtStart, lit ''ES'', Group ''code'' (exactly 8 digit), AtEnd]"

definition success_response_re :: rx where
  "success_response_re = cats [AtStart, alts [Cat (lit ''ON'') (exactly 8 digit),
     cats [lit ''s'', exactly 6 digit, lit ''RE'', exactly 4 digit], exactly 4 digit], AtEnd]"

section \<open>Patterns of the printed text\<close>

definition labelled :: "rx \<Rightarrow> rx" where
  "labelled r = cats [AtStart, spaces, r, spaces, lit '':'', spaces, Group ''value'' (LazyStar dot), spaces, AtEnd]"

definition order_re :: rx where
  "order_re = labelled (cats [opt (lit ''#''), spaces, alts [nocase ''ORDINE'', nocase ''ORDER'']])"

definition table_re :: rx where "table_re = labelled (nocase ''TAVOLO'')"

text \<open>The number sign (a full stop, degree sign or ordinal indicator) and the code of two parts or more.\<close>

definition number_sign :: rx where "number_sign = opt (one_of [CHR ''.'', CHR 0xB0, CHR 0xBA])"

definition code_value :: rx where
  "code_value = cats [spaces, Group ''value'' (Cat (plus token) (plus (Cat (one_of ''-/'') (plus token)))), Boundary]"

definition document_code_re :: rx where
  "document_code_re = cats [Boundary,
     alts [cats [nocase ''DOC'', opt (nocase ''UMENTO''), opt (lit ''.''), spaces, opt (nocase ''GESTIONALE''), spaces,
                 nocase ''N'', number_sign],
           Cat (nocase ''N'') number_sign],
     code_value]"

definition management_document_code_re :: rx where
  "management_document_code_re = cats [Boundary, nocase ''DOC'', opt (nocase ''UMENTO''), opt (lit ''.''), spaces,
     nocase ''GESTIONALE'', spaces, nocase ''N'', number_sign, code_value]"

definition commercial_document_code_re :: rx where
  "commercial_document_code_re = cats [Boundary, nocase ''DOCUMENTO'', opt (Cat blank (nocase ''COMMERCIALE'')), blank,
     nocase ''N'', number_sign, code_value]"

definition commercial_reference_code_re :: rx where
  "commercial_reference_code_re = cats [Boundary,
     alts [cats [nocase ''RIF'', opt (nocase ''ERIMENTO''), opt (lit ''.''), spaces, opt (Cat (nocase ''AL'') blank),
                 alts [cats [nocase ''DOCUMENTO'', blank, nocase ''COMMERCIALE''], nocase ''DOCUMENTO'']],
           cats [nocase ''DOCUMENTO'', blank, nocase ''COMMERCIALE'', opt (cats [blank, nocase ''DI'', blank, nocase ''RIFERIMENTO''])],
           cats [nocase ''COPIA'', blank, nocase ''CONFORME'', opt (Cat blank (nocase ''DEL'')), blank, nocase ''DOCUMENTO'']],
     spaces, nocase ''N'', number_sign, code_value]"

definition printed_money_re :: rx where
  "printed_money_re = cats [NotBehind is_digit,
     Group ''value'' (cats [opt (one_of ''+-''), between 1 9 digit, Star (Cat (lit ''.'') (exactly 3 digit)), lit '','', exactly 2 digit]),
     NotAhead is_digit]"

definition printed_total_re :: rx where
  "printed_total_re = cats [AtStart, spaces, alts [nocase ''TOT'', Cat (nocase ''TOTALE'') (opt (Cat blank (nocase ''COMPLESSIVO'')))],
     Boundary, Group ''tail'' (Star dot), AtEnd]"

definition payment_re :: rx where
  "payment_re = cats [AtStart, spaces,
     Group ''method'' (alts (map nocase [''CONTANTI'', ''CARTA'', ''BANCOMAT'', ''ASSEGNO'', ''PAGAMENTO''])),
     Boundary, Group ''tail'' (Star dot), AtEnd]"

definition date_separator :: rx where "date_separator = one_of [CHR ''/'', CHR 0x5C, CHR ''.'', CHR ''-'']"

definition printed_timestamp_re :: rx where
  "printed_timestamp_re = cats [NotBehind is_digit, Group ''day'' (exactly 2 digit), date_separator,
     Group ''month'' (exactly 2 digit), date_separator, Group ''year'' (Alt (exactly 2 digit) (exactly 4 digit)), blank,
     Group ''hour'' (exactly 2 digit), lit '':'', Group ''minute'' (exactly 2 digit),
     opt (Cat (lit '':'') (Group ''second'' (exactly 2 digit))), NotAhead is_digit]"

definition serial_value :: rx where "serial_value = cats [Group ''value'' (between 8 32 token), spaces, AtEnd]"

definition explicit_serial_re :: rx where
  "explicit_serial_re = cats [AtStart, spaces, nocase ''RT'', spaces, opt (one_of '':#-''), spaces, serial_value]"

definition bare_serial_re :: rx where "bare_serial_re = cats [AtStart, spaces, serial_value]"

definition shift_end_re :: rx where
  "shift_end_re = cats [AtStart, spaces, nocase ''REPORT'', blank, nocase ''DI'', blank, nocase ''FINE'', blank, nocase ''TURNO'', Boundary]"

definition invoice_word :: rx where
  "invoice_word = Cat (nocase ''FATTURA'') (opt (Cat blank (nocase ''ELETTRONICA'')))"

definition invoice_header_re :: rx where "invoice_header_re = cats [AtStart, spaces, invoice_word, spaces, AtEnd]"

definition invoice_sign :: rx where
  "invoice_sign = Alt (cats [nocase ''N'', opt (nocase ''R''), number_sign]) (nocase ''NUMERO'')"

definition invoice_char :: "char \<Rightarrow> bool" where
  "invoice_char c = (is_token c \<or> c \<in> {CHR ''.'', CHR ''/'', CHR ''-''})"

definition invoice_number_re :: rx where
  "invoice_number_re = cats [AtStart, spaces,
     Alt (cats [invoice_word, blank, invoice_sign]) (cats [invoice_sign, blank, nocase ''FATTURA'']),
     spaces, opt (one_of '':#-''), spaces,
     Group ''value'' (cats [Ahead (Cat (Star (Cls invoice_char)) digit), token, between 0 63 (Cls invoice_char)]), spaces, AtEnd]"

section \<open>Patterns of the merchant heading\<close>

definition header_boundary_re :: rx where
  "header_boundary_re = cats [AtStart, spaces, alts
     [cats [nocase ''DOCUMENTO'', blank, Alt (nocase ''GESTIONALE'') (nocase ''COMMERCIALE'')],
      cats [nocase ''REPORT'', blank, nocase ''DI'', blank, nocase ''FINE'', blank, nocase ''TURNO''],
      invoice_word, nocase ''PRECONTO'', nocase ''COMANDA'', nocase ''DESCRIZIONE'',
      Cat (nocase ''TOTAL'') (opt (nocase ''E'')), Cat (nocase ''TOT'') Boundary,
      cats [nocase ''ORDINE'', spaces, lit '':''], cats [nocase ''TAVOLO'', spaces, lit '':'']]]"

text \<open>Initials: each letter with an optional full stop, white space between.\<close>

fun initials :: "string \<Rightarrow> rx" where
  "initials [] = Empty"
| "initials [c] = Cat (nocase [c]) (opt (lit ''.''))"
| "initials (c # cs) = cats [nocase [c], opt (lit ''.''), spaces, initials cs]"

definition header_legal_name_re :: rx where
  "header_legal_name_re = cats [Boundary, alts [initials ''SRL'', initials ''SPA'', initials ''SAS'', initials ''SNC'',
     Cat (nocase ''SOC'') (Alt (nocase ''IETA'') (nocase (''IET'' @ [CHR 0xC0]))), nocase ''COOPERATIVA''], NotAhead is_word]"

definition header_address_re :: rx where
  "header_address_re = Alt (cats [AtStart, spaces, alts (map nocase [''VIA'', ''VIALE'', ''PIAZZA'', ''PIAZZALE'', ''CORSO'',
       ''LARGO'', ''LOCALITA'', ''LOCALIT'' @ [CHR 0xC0]] @ [Cat (nocase ''LOC'') (opt (lit ''.'')), nocase ''STRADA'', nocase ''CONTRADA'']),
       Boundary])
     (cats [AtStart, spaces, exactly 5 digit, Boundary])"

definition header_phone_re :: rx where
  "header_phone_re = cats [Boundary, Alt (Cat (nocase ''TEL'') (opt (nocase ''EFONO''))) (nocase ''PHONE''), Boundary, spaces,
     opt (one_of '':.''), spaces,
     Group ''value'' (cats [opt (lit ''+''), digit, between 3 62 (Cls (\<lambda>c. is_digit c \<or> c \<in> set '' ()/.-''))]), spaces, AtEnd]"

definition header_tax_label_re :: rx where
  "header_tax_label_re = cats [Boundary, nocase ''C'', opt (lit ''.''), spaces, nocase ''F'', opt (lit ''.''), NotAhead is_word]"

definition identifier_value :: rx where
  "identifier_value = cats [spaces, opt (one_of '':-''), spaces, Group ''value'' (between 8 32 token), Boundary]"

definition header_tax_code_re :: rx where "header_tax_code_re = Cat header_tax_label_re identifier_value"

definition header_vat_re :: rx where
  "header_vat_re = cats [Boundary, nocase ''P'', opt (lit ''.''), spaces, Alt (nocase ''IVA'') (initials ''IVA''), Boundary, identifier_value]"

section \<open>Amounts, codes, classification\<close>

text \<open>
  \<^verbatim>\<open>x.quantize(Decimal("0.01"))\<close> in the default context: a result of more than 28 digits raises.
\<close>

definition quantize_cents :: "rat \<Rightarrow> rch_error + rat" where
  "quantize_cents x = (let n = half_even (x * 100) in
     if 10 ^ 28 \<le> \<bar>n\<bar> then Inl InvalidOperation else Inr (of_int n / 100))"

text \<open>\<^verbatim>\<open>Decimal(text)\<close> of a sign and digits\<close>

definition signed_number :: "string \<Rightarrow> int" where
  "signed_number t = (case split_sign t of (neg, ds) \<Rightarrow> if neg then - int (digits_value 0 ds) else int (digits_value 0 ds))"

definition cents :: "string \<Rightarrow> rch_error + rat" where
  "cents t = quantize_cents (dec_div (of_int (signed_number t)) 100)"

text \<open>\<^verbatim>\<open>f"{cents(t):.2f}"\<close> where \<open>cents t\<close> does not raise; the sign of a negative zero is kept.\<close>

definition cents_text :: "string \<Rightarrow> string" where
  "cents_text t = (case split_sign t of (neg, ds) \<Rightarrow> let n = digits_value 0 ds in
     (if neg then ''-'' else []) @ digits (n div 100) @ ''.'' @ digits (n mod 100 div 10) @ digits (n mod 10))"

definition printed_money :: "string \<Rightarrow> rat option" where
  "printed_money v = decimal_of_text (map (\<lambda>c. if c = CHR '','' then CHR ''.'' else c) (filter (\<lambda>c. c \<noteq> CHR ''.'') v))"

definition money_values :: "string \<Rightarrow> rat option list" where
  "money_values t = map (\<lambda>m. printed_money (group_text m ''value'')) (rx_find_all printed_money_re t)"

definition document_code :: "string \<Rightarrow> string" where
  "document_code v = map (\<lambda>c. if c = CHR ''/'' then CHR ''-'' else c) (upper (strip v))"

text \<open>\<^verbatim>\<open>text.splitlines()\<close>\<close>

definition is_line_break :: "char \<Rightarrow> bool" where
  "is_line_break c = (code c \<in> {10, 11, 12, 13, 28, 29, 30, 133})"

fun split_lines_from :: "string \<Rightarrow> string \<Rightarrow> string list" where
  "split_lines_from w [] = (if w = [] then [] else [w])"
| "split_lines_from w (c # cs) =
     (if \<not> is_line_break c then split_lines_from (w @ [c]) cs
      else if code c = 13 \<and> cs \<noteq> [] \<and> code (hd cs) = 10 then w # split_lines_from [] (tl cs)
      else w # split_lines_from [] cs)"

definition split_lines :: "string \<Rightarrow> string list" where "split_lines s = split_lines_from [] s"

definition classification :: "string \<Rightarrow> (document_type \<times> string \<times> nat) option" where
  "classification text =
     (let ls = filter (\<lambda>l. l \<noteq> []) (map strip (split_lines text)) in
      if ls \<noteq> [] \<and> matches (rx_match shift_end_re (hd ls))
      then Some (SHIFT_END_REPORT, ''RCH_REPORT_FINE_TURNO_LITERAL'', 98)
      else if list_ex (\<lambda>l. matches (rx_full invoice_header_re l) \<or> matches (rx_full invoice_number_re l)) ls
      then Some (INVOICE, ''RCH_FATTURA_LITERAL'', 96) else None)"

definition contains :: "string \<Rightarrow> string \<Rightarrow> bool" where
  "contains p s = list_ex (\<lambda>i. starts_with p (drop i s)) [0..<Suc (length s)]"

section \<open>Local times\<close>

record zone =
  utc_to_local :: "timestamp \<Rightarrow> int"
  local_to_utc :: "bool \<Rightarrow> int \<Rightarrow> timestamp"

text \<open>The proleptic Gregorian calendar as \<^verbatim>\<open>datetime\<close> has it: days before a year, days of a month.\<close>

definition leap :: "int \<Rightarrow> bool" where
  "leap y = (4 dvd y \<and> (\<not> 100 dvd y \<or> 400 dvd y))"

definition days_before_year :: "int \<Rightarrow> int" where
  "days_before_year y = (y - 1) * 365 + (y - 1) div 4 - (y - 1) div 100 + (y - 1) div 400"

definition month_days :: "int \<Rightarrow> nat list" where
  "month_days y = [31, if leap y then 29 else 28, 31, 30, 31, 30, 31, 31, 30, 31, 30, 31]"

text \<open>\<^verbatim>\<open>datetime(...)\<close> as microseconds of the wall clock; \<open>None\<close> where it raises \<^verbatim>\<open>ValueError\<close>.\<close>

definition wall_time :: "int \<Rightarrow> nat \<Rightarrow> nat \<Rightarrow> nat \<Rightarrow> nat \<Rightarrow> nat \<Rightarrow> int option" where
  "wall_time y mo d h mi s =
     (if y < 1 \<or> 9999 < y \<or> mo < 1 \<or> 12 < mo \<or> d < 1 \<or> month_days y ! (mo - 1) < d \<or> 23 < h \<or> 59 < mi \<or> 59 < s then None
      else let days = days_before_year y + int (sum_list (take (mo - 1) (month_days y))) + int d - 719163
        in Some ((days * 86400 + int (h * 3600 + mi * 60 + s)) * microsecond))"

definition year_of :: "int \<Rightarrow> int" where
  "year_of wall = (let n = wall div day_micros + 719162;
       n400 = n div 146097; a = n mod 146097; n100 = a div 36524; b = a mod 36524;
       n4 = b div 1461; c = b mod 1461; n1 = c div 365;
       y = n400 * 400 + 1 + n100 * 100 + n4 * 4 + n1
     in if n1 = 4 \<or> n100 = 4 then y - 1 else y)"

definition datetime_range :: "int \<Rightarrow> bool" where
  "datetime_range t = (- 719162 * day_micros \<le> t \<and> t < 2932897 * day_micros)"

definition checked :: "int \<Rightarrow> rch_error + int" where
  "checked t = (if datetime_range t then Inr t else Inl DateOverflow)"

record observed_timestamp =
  ot_line :: nat
  ot_wall :: int
  ot_instant :: timestamp
  ot_precision :: string

text \<open>The year of two digits nearest to the year of the capture, the first of several.\<close>

definition full_year :: "int \<Rightarrow> int \<Rightarrow> int" where
  "full_year captured_year y = (if y < 100 then
     (let century = captured_year div 100 * 100
      in arg_min_list (\<lambda>c. \<bar>c - captured_year\<bar>) [century - 100 + y, century + y, century + 100 + y]) else y)"

definition field_value :: "rx_match \<Rightarrow> string \<Rightarrow> nat" where
  "field_value m n = digits_value 0 (group_text m n)"

text \<open>
  The two readings of a wall time, as far as they exist. The difference to the capture that decides
  between them is taken between two times of one zone, so it is the difference of the wall clocks.
\<close>

definition readings :: "zone \<Rightarrow> int \<Rightarrow> rch_error + bool list" where
  "readings z wall = attempt (collect (map (\<lambda>late.
       attempt (checked (local_to_utc z late wall)) (\<lambda>t. attempt (checked (utc_to_local z t)) (\<lambda>w. Inr (late, w = wall))))
     [False, True])) (\<lambda>rs. Inr (map fst (filter snd rs)))"

definition chosen_reading :: "int \<Rightarrow> int \<Rightarrow> bool list \<Rightarrow> bool" where
  "chosen_reading captured_wall wall lates = arg_min_list (\<lambda>late. \<bar>wall - captured_wall\<bar>) lates"

datatype printed_time = Observed int timestamp string | Unreadable string

definition timestamp_from_match :: "(string \<Rightarrow> zone option) \<Rightarrow> string \<Rightarrow> timestamp \<Rightarrow> rx_match \<Rightarrow> rch_error + printed_time" where
  "timestamp_from_match zones name captured m = (case zones name of
      None \<Rightarrow> Inr (Unreadable ''document_timezone_unknown'')
    | Some z \<Rightarrow> attempt (if field_value m ''year'' < 100 then map_sum id year_of (checked (utc_to_local z captured)) else Inr 0)
        (\<lambda>captured_year. case wall_time (full_year captured_year (int (field_value m ''year''))) (field_value m ''month'')
            (field_value m ''day'') (field_value m ''hour'') (field_value m ''minute'') (field_value m ''second'') of
          None \<Rightarrow> Inr (Unreadable ''document_timestamp_invalid'')
        | Some wall \<Rightarrow> attempt (readings z wall) (\<lambda>lates.
            if lates = [] then Inr (Unreadable ''document_local_time_nonexistent'')
            else attempt (checked (utc_to_local z captured)) (\<lambda>captured_wall.
              Inr (Observed wall (local_to_utc z (chosen_reading captured_wall wall lates) wall)
                (if group m ''second'' = None then ''MINUTE'' else ''SECOND''))))))"

end
