(* ===== verification/Rch.thy ===== *)
theory Rch imports RchText Frames HashChain begin

text \<open>
  \<^verbatim>\<open>parse_rch\<close> of \<^verbatim>\<open>parser/rch.py\<close>: from the frames of both directions to normalised documents. A draft
  collects the lines of the document that is open; closing it makes a document. The digest, \<^verbatim>\<open>uuid5\<close> and
  the time zones are parameters.
\<close>

section \<open>Jobs and drafts\<close>

record rch_env =
  env_uuid5 :: "string \<Rightarrow> uuid"
  env_sha256 :: "bytes \<Rightarrow> digest"
  env_zones :: "string \<Rightarrow> zone option"

record rch_job =
  job_device :: string
  job_session :: "string option"
  job_id :: string
  job_captured :: timestamp
  job_manifest :: string
  job_path :: string
  job_response_path :: "string option"
  job_zone :: string

definition parser_name_text :: string where "parser_name_text = ''retailprintguard-rch-observed''"
definition parser_version_text :: string where "parser_version_text = ''1.6.0''"
definition max_documents :: nat where "max_documents = 256"
definition max_lines :: nat where "max_lines = 32768"

datatype draft_kind = Management | Commercial

definition kind_text :: "draft_kind \<Rightarrow> string" where
  "kind_text k = (case k of Management \<Rightarrow> ''management'' | Commercial \<Rightarrow> ''commercial'')"

record draft =
  dr_kind :: draft_kind
  dr_ordinal :: nat
  dr_start :: nat
  dr_lines :: "document_line list"
  dr_texts :: "string list"
  dr_sources :: "source_span list"
  dr_order_code :: "string option"
  dr_table_code :: "string option"
  dr_code :: "string option"
  dr_suffix :: "string option"
  dr_reference :: "string option"
  dr_code_evidence :: "string option"
  dr_suffix_evidence :: "string option"
  dr_reference_evidence :: "string option"
  dr_status_digits :: "string option"
  dr_total :: "rat option"
  dr_tax_total :: "rat option"
  dr_payments :: "payment_record list"
  dr_total_code :: "string option"
  dr_frame_ids :: "nat list"
  dr_end :: nat
  dr_complete :: bool
  dr_warnings :: "string list"

definition frame_end :: "frame \<Rightarrow> nat" where
  "frame_end f = fr_offset f + length (fr_raw f)"

definition new_draft :: "draft_kind \<Rightarrow> nat \<Rightarrow> frame \<Rightarrow> draft" where
  "new_draft k n f = \<lparr>dr_kind = k, dr_ordinal = n, dr_start = fr_offset f, dr_lines = [], dr_texts = [], dr_sources = [],
     dr_order_code = None, dr_table_code = None, dr_code = None, dr_suffix = None, dr_reference = None,
     dr_code_evidence = None, dr_suffix_evidence = None, dr_reference_evidence = None, dr_status_digits = None,
     dr_total = None, dr_tax_total = None, dr_payments = [], dr_total_code = None, dr_frame_ids = [fr_id f],
     dr_end = frame_end f, dr_complete = False, dr_warnings = []\<rparr>"

definition as_rch :: "validation_error + 'a \<Rightarrow> rch_error + 'a" where
  "as_rch x = map_sum (\<lambda>_. InvalidModel) id x"

definition source_of :: "string \<Rightarrow> frame \<Rightarrow> source_span" where
  "source_of dir f = \<lparr>direction = dir, span_offset = fr_offset f, span_length = length (fr_raw f), frame_id = Some (digits (fr_id f))\<rparr>"

definition append_visible :: "draft \<Rightarrow> frame \<Rightarrow> string \<Rightarrow> draft" where
  "append_visible d f text = d\<lparr>dr_texts := dr_texts d @ [text], dr_sources := dr_sources d @ [source_of ''CLIENT_TO_DEVICE'' f]\<rparr>"

section \<open>Lines of a management document\<close>

definition note_limit :: "draft \<Rightarrow> draft" where
  "note_limit d = (if ''line_limit_exceeded'' \<in> set (dr_warnings d) then d
     else d\<lparr>dr_warnings := dr_warnings d @ [''line_limit_exceeded'']\<rparr>)"

definition strip_chars :: "string \<Rightarrow> string \<Rightarrow> string" where
  "strip_chars cs s = rev (dropWhile (\<lambda>c. c \<in> set cs) (rev (dropWhile (\<lambda>c. c \<in> set cs) s)))"

definition nonempty :: "string \<Rightarrow> string option" where
  "nonempty s = (if s = [] then None else Some s)"

definition management_line :: "nat \<Rightarrow> frame \<Rightarrow> string \<Rightarrow> document_line" where
  "management_line n f text =
     (let amounts = rx_find_all printed_money_re text;
          v = (if amounts = [] then None else printed_money (group_text (last amounts) ''value''));
          descr = (if amounts = [] then strip text else strip_chars '' -:;'' (take (m_start (last amounts)) text))
      in blank_line\<lparr>sequence := n, description := nonempty descr, quantity := (if descr = [] then None else Some 1),
           unit_price := v, line_total := v, raw_text := Some text, line_source := Some (source_of ''CLIENT_TO_DEVICE'' f)\<rparr>)"

definition note_labels :: "string \<Rightarrow> draft \<Rightarrow> draft" where
  "note_labels text d =
     (let d1 = (case rx_full order_re text of Some m \<Rightarrow> d\<lparr>dr_order_code := nonempty (group_text m ''value'')\<rparr> | None \<Rightarrow> d)
      in case rx_full table_re text of Some m \<Rightarrow> d1\<lparr>dr_table_code := nonempty (group_text m ''value'')\<rparr> | None \<Rightarrow> d1)"

definition code_in :: "rx \<Rightarrow> string \<Rightarrow> string option" where
  "code_in r text = map_option (\<lambda>m. document_code (group_text m ''value'')) (rx_search r text)"

definition note_codes :: "string \<Rightarrow> draft \<Rightarrow> draft" where
  "note_codes text d = (case code_in commercial_reference_code_re text of
      Some v \<Rightarrow> d\<lparr>dr_reference := Some v, dr_reference_evidence := Some ''RCH_PRINTED_COMMERCIAL_REFERENCE''\<rparr>
    | None \<Rightarrow> (case code_in management_document_code_re text of
        Some v \<Rightarrow>
          (let d1 = (if dr_code d \<noteq> None \<and> dr_code d \<noteq> Some v \<and> dr_reference d = None
                     then d\<lparr>dr_reference := dr_code d,
                            dr_reference_evidence := Some ''RCH_PRINTED_UNQUALIFIED_DOCUMENT_BEFORE_MANAGEMENT_FOOTER''\<rparr> else d)
           in d1\<lparr>dr_code := Some v, dr_code_evidence := Some ''RCH_PRINTED_MANAGEMENT_FOOTER''\<rparr>)
      | None \<Rightarrow> (case code_in document_code_re text of
          Some v \<Rightarrow> d\<lparr>dr_reference := Some v, dr_reference_evidence := Some ''RCH_REQUEST_UNQUALIFIED_COMMERCIAL_DOCUMENT_NUMBER''\<rparr>
        | None \<Rightarrow> d)))"

definition note_totals :: "string \<Rightarrow> draft \<Rightarrow> draft" where
  "note_totals text d = (case rx_match printed_total_re text of None \<Rightarrow> d
    | Some m \<Rightarrow> (case List.map_filter id (money_values (group_text m ''tail'')) of [] \<Rightarrow> d
        | v # vs \<Rightarrow>
            (let d1 = (if dr_total d = None then d\<lparr>dr_total := Some v\<rparr> else d)
             in if vs = [] then d1 else d1\<lparr>dr_tax_total := Some (last vs)\<rparr>)))"

definition note_payment :: "string \<Rightarrow> draft \<Rightarrow> rch_error + draft" where
  "note_payment text d = (case rx_match payment_re text of None \<Rightarrow> Inr d
    | Some m \<Rightarrow> (let vs = money_values (group_text m ''tail'') in
        if vs = [] then Inr d
        else case last vs of None \<Rightarrow> Inr d
          | Some v \<Rightarrow> attempt (as_rch (make_payment \<lparr>pay_method = Some (upper (group_text m ''method'')), amount = v,
              currency = ''EUR'', pay_evidence = INFERRED\<rparr>)) (\<lambda>p. Inr (d\<lparr>dr_payments := dr_payments d @ [p]\<rparr>))))"

definition append_management_line :: "draft \<Rightarrow> frame \<Rightarrow> string \<Rightarrow> rch_error + draft" where
  "append_management_line d f text =
     (if max_lines \<le> length (dr_lines d) then Inr (note_limit d)
      else attempt (as_rch (make_line (management_line (length (dr_lines d) + 1) f text))) (\<lambda>l.
        note_payment text (note_totals text (note_codes text (note_labels text (d\<lparr>dr_lines := dr_lines d @ [l]\<rparr>))))))"

section \<open>Items of a commercial document\<close>

definition commercial_line :: "nat \<Rightarrow> frame \<Rightarrow> rx_match \<Rightarrow> rch_error + document_line" where
  "commercial_line n f m =
     (let q = (case group m ''quantity'' of Some t \<Rightarrow> of_int (signed_number t) | None \<Rightarrow> 1) in
      attempt (cents (group_text m ''amount'')) (\<lambda>unit. attempt (quantize_cents (dec_mul unit q)) (\<lambda>sum.
        as_rch (make_line (blank_line\<lparr>sequence := n, item_code := group m ''code'', description := group m ''description'',
          quantity := Some q, unit_price := Some unit, line_total := Some sum, raw_text := Some (frame_text f),
          line_source := Some (source_of ''CLIENT_TO_DEVICE'' f)\<rparr>)))))"

definition append_commercial_item :: "draft \<Rightarrow> frame \<Rightarrow> rx_match \<Rightarrow> rch_error + draft" where
  "append_commercial_item d f m =
     (if max_lines \<le> length (dr_lines d) then Inr (note_limit d)
      else attempt (commercial_line (length (dr_lines d) + 1) f m) (\<lambda>l. Inr (d\<lparr>dr_lines := dr_lines d @ [l]\<rparr>)))"

section \<open>The printed merchant heading\<close>

text \<open>The leading lines up to a boundary, with their places; an empty line is passed over.\<close>

fun heading_lines :: "nat \<Rightarrow> string list \<Rightarrow> (nat \<times> string) list" where
  "heading_lines i [] = []"
| "heading_lines i (l # ls) = (let v = squeeze l in
     if v = [] then heading_lines (i + 1) ls
     else if 191 < length v then []
     else if matches (rx_match header_boundary_re v) \<or> matches (rx_search printed_money_re v)
       \<or> matches (rx_search printed_timestamp_re v) \<or> matches (rx_search document_code_re v) then []
     else (i, v) # heading_lines (i + 1) ls)"

definition found :: "rx \<Rightarrow> (string \<Rightarrow> string) \<Rightarrow> (nat \<times> string) list \<Rightarrow> (nat \<times> string) list" where
  "found r g ls = List.map_filter (\<lambda>(i, l). map_option (\<lambda>m. (i, g (group_text m ''value''))) (rx_search r l)) ls"

definition lines_with :: "rx \<Rightarrow> (nat \<times> string) list \<Rightarrow> (nat \<times> string) list" where
  "lines_with r ls = filter (\<lambda>(i, l). matches (rx_search r l)) ls"

text \<open>A tax code of its own, or the VAT number printed under both labels.\<close>

definition tax_in :: "nat \<times> string \<Rightarrow> (nat \<times> string) option" where
  "tax_in il = (case il of (i, l) \<Rightarrow> (case (rx_search header_tax_code_re l, rx_search header_vat_re l) of
      (Some m, _) \<Rightarrow> Some (i, upper (group_text m ''value''))
    | (None, Some v) \<Rightarrow> (if matches (rx_search header_tax_label_re l) then Some (i, upper (group_text v ''value'')) else None)
    | (None, None) \<Rightarrow> None))"

definition first_value :: "(nat \<times> string) list \<Rightarrow> string option" where
  "first_value ls = (if ls = [] then None else Some (snd (hd ls)))"

definition printed_header :: "draft \<Rightarrow> rch_error + (receipt_header \<times> nat list \<times> source_span list) option" where
  "printed_header d =
     (let ls = heading_lines 0 (take 12 (dr_texts d));
          legal = lines_with header_legal_name_re ls; address = lines_with header_address_re ls;
          phones = found header_phone_re squeeze ls; taxes = List.map_filter tax_in ls; vats = found header_vat_re upper ls;
          structured = concat (map (map fst) [legal, address, phones, taxes, vats]);
          merchant = List.find (\<lambda>(i, l). i \<notin> set structured) ls;
          used = sorted_set (structured @ (case merchant of None \<Rightarrow> [] | Some (i, l) \<Rightarrow> [i]))
      in if ls = [] then Inr None
         else if taxes = [] \<and> vats = [] \<and> \<not> (phones \<noteq> [] \<and> (legal \<noteq> [] \<or> address \<noteq> []) \<or> legal \<noteq> [] \<and> address \<noteq> [])
         then Inr None
         else attempt (as_rch (make_receipt_header (map_option snd merchant) (first_value legal) (map snd (take 8 address))
             (first_value phones) (first_value taxes) (first_value vats) ''RCH_PRINTED_HEADER''))
           (\<lambda>h. Inr (Some (h, used, map (\<lambda>i. dr_sources d ! i) (filter (\<lambda>i. i < length (dr_sources d)) used)))))"

section \<open>Clocks, numbers and serials in the printed text\<close>

definition printed_times :: "rch_env \<Rightarrow> rch_job \<Rightarrow> nat \<times> string \<Rightarrow> rch_error + (nat \<times> printed_time) list" where
  "printed_times env job il = collect (map (\<lambda>m. attempt (timestamp_from_match (env_zones env) (job_zone job) (job_captured job) m)
     (\<lambda>p. Inr (fst il, p))) (rx_find_all printed_timestamp_re (snd il)))"

definition observed_of :: "nat \<times> printed_time \<Rightarrow> observed_timestamp option" where
  "observed_of ip = (case ip of (i, Observed w t p) \<Rightarrow> Some \<lparr>ot_line = i, ot_wall = w, ot_instant = t, ot_precision = p\<rparr>
     | (i, Unreadable _) \<Rightarrow> None)"

definition time_warning :: "nat \<times> printed_time \<Rightarrow> string option" where
  "time_warning ip = (case snd ip of Unreadable w \<Rightarrow> Some w | Observed _ _ _ \<Rightarrow> None)"

definition own_code_re :: "draft_kind \<Rightarrow> rx" where
  "own_code_re k = (case k of Commercial \<Rightarrow> commercial_document_code_re | Management \<Rightarrow> management_document_code_re)"

definition own_evidence :: "draft_kind \<Rightarrow> string" where
  "own_evidence k = (case k of Commercial \<Rightarrow> ''RCH_PRINTED_COMMERCIAL_FOOTER'' | Management \<Rightarrow> ''RCH_PRINTED_MANAGEMENT_FOOTER'')"

definition own_markers :: "draft \<Rightarrow> (nat \<times> string) list" where
  "own_markers d = found (own_code_re (dr_kind d)) document_code (enumerate 0 (dr_texts d))"

definition is_serial_token :: "string \<Rightarrow> bool" where
  "is_serial_token v = (list_ex is_letter v \<and> list_ex is_digit v)"

definition serial_in :: "rx \<Rightarrow> nat \<times> string \<Rightarrow> (nat \<times> string) option" where
  "serial_in r il = (case rx_full r (snd il) of None \<Rightarrow> None
    | Some m \<Rightarrow> (let v = upper (group_text m ''value'') in if is_serial_token v then Some (fst il, v) else None))"

definition first_some :: "('a \<Rightarrow> 'b option) \<Rightarrow> 'a list \<Rightarrow> 'b option" where
  "first_some f xs = (case List.map_filter f xs of [] \<Rightarrow> None | y # _ \<Rightarrow> Some y)"

text \<open>The serial with its line and evidence: prefixed anywhere, or bare on the two lines after the own number.\<close>

definition printed_serial :: "draft \<Rightarrow> (nat \<times> string \<times> string) option" where
  "printed_serial d = (case first_some (serial_in explicit_serial_re) (enumerate 0 (dr_texts d)) of
      Some (i, v) \<Rightarrow> Some (i, v, ''RCH_PRINTED_RT_PREFIX'')
    | None \<Rightarrow> if own_markers d = [] then None
        else let own = fst (last (own_markers d)) in
          map_option (\<lambda>(i, v). (i, v, ''RCH_PRINTED_BARE_SERIAL_AFTER_FOOTER''))
            (first_some (serial_in bare_serial_re) (filter (\<lambda>(i, l). own < i \<and> i < own + 3) (enumerate 0 (dr_texts d)))))"

text \<open>
  The rank of a time near an anchor: distance, before the anchor first, and the later time first; the
  first of the least ranks is the footer.
\<close>

definition footer_ranks :: "draft \<Rightarrow> nat list \<Rightarrow> observed_timestamp list \<Rightarrow> ((nat \<times> nat \<times> int) \<times> nat) list" where
  "footer_ranks d anchors ots = concat (map (\<lambda>(k, ot).
     if matches (rx_search document_code_re (dr_texts d ! ot_line ot)) \<and> ot_line ot \<notin> set (map fst (own_markers d)) then []
     else List.map_filter (\<lambda>a. let dist = (if a \<le> ot_line ot then ot_line ot - a else a - ot_line ot) in
       if 2 < dist then None else Some ((dist, if ot_line ot \<le> a then 0 else 1, - int k), k)) anchors)
     (enumerate 0 ots))"

definition footer_index :: "draft \<Rightarrow> nat list \<Rightarrow> observed_timestamp list \<Rightarrow> nat option" where
  "footer_index d anchors ots = (let ranks = footer_ranks d anchors ots in
     if ranks = [] then None else Some (snd (arg_min_list fst ranks)))"

record printed_identity =
  pi_application :: "observed_timestamp option"
  pi_footer :: "observed_timestamp option"
  pi_serial :: "(nat \<times> string \<times> string) option"
  pi_own_code :: "string option"
  pi_reference :: "string option"
  pi_reference_evidence :: "string option"
  pi_warnings :: "string list"

text \<open>The commercial document a management print refers to: the first line that names one.\<close>

fun reference_in :: "nat option \<Rightarrow> (nat \<times> string) list \<Rightarrow> (string \<times> string) option" where
  "reference_in own [] = None"
| "reference_in own ((i, l) # ls) = (case code_in commercial_reference_code_re l of
      Some v \<Rightarrow> Some (v, ''RCH_PRINTED_COMMERCIAL_REFERENCE'')
    | None \<Rightarrow> if own = Some i then reference_in own ls
        else (case code_in document_code_re l of
            Some v \<Rightarrow> Some (v, ''RCH_PRINTED_UNQUALIFIED_COMMERCIAL_DOCUMENT_NUMBER'')
          | None \<Rightarrow> reference_in own ls))"

definition clock_offset :: "observed_timestamp option \<Rightarrow> observed_timestamp option \<Rightarrow> int option" where
  "clock_offset app foot = (case (app, foot) of (Some a, Some b) \<Rightarrow> Some (whole_seconds (ot_wall b - ot_wall a)) | _ \<Rightarrow> None)"

definition last_marker :: "draft \<Rightarrow> (nat \<times> string) option" where
  "last_marker d = (if own_markers d = [] then None else Some (last (own_markers d)))"

definition printed_identity_of :: "rch_env \<Rightarrow> rch_job \<Rightarrow> draft \<Rightarrow> rch_error + printed_identity" where
  "printed_identity_of env job d = attempt (collect (map (printed_times env job) (enumerate 0 (dr_texts d)))) (\<lambda>seen.
     let ots = List.map_filter observed_of (concat seen);
         serial = printed_serial d;
         anchors = map fst (own_markers d) @ (case serial of None \<Rightarrow> [] | Some (i, _) \<Rightarrow> [i]);
         fi = footer_index d anchors ots;
         foot = map_option (\<lambda>k. ots ! k) fi;
         app = (case filter (\<lambda>(k, ot). fi \<noteq> Some k) (enumerate 0 ots) of [] \<Rightarrow> None | (k, ot) # _ \<Rightarrow> Some ot);
         skew = (case clock_offset app foot of None \<Rightarrow> False | Some s \<Rightarrow> 60 < \<bar>s\<bar>);
         reference = (case dr_kind d of Commercial \<Rightarrow> None
           | Management \<Rightarrow> reference_in (map_option fst (last_marker d)) (enumerate 0 (dr_texts d)))
     in Inr \<lparr>pi_application = app, pi_footer = foot, pi_serial = serial, pi_own_code = map_option snd (last_marker d),
          pi_reference = map_option fst reference, pi_reference_evidence = map_option snd reference,
          pi_warnings = uniq (List.map_filter time_warning (concat seen)
            @ (if skew then [''rch_clock_offset_exceeds_one_minute''] else []))\<rparr>)"

section \<open>From a draft to a document\<close>

definition json_opt :: "string option \<Rightarrow> jval" where
  "json_opt v = (case v of None \<Rightarrow> JNull | Some s \<Rightarrow> JStr s)"

definition json_span :: "source_span \<Rightarrow> jval" where
  "json_span s = JObj [(''direction'', JStr (direction s)), (''offset'', JInt (int (span_offset s))),
     (''length'', JInt (int (span_length s))), (''frame_id'', json_opt (frame_id s))]"

definition json_flag :: "bool \<Rightarrow> string \<Rightarrow> jval" where
  "json_flag b s = (if b then JStr s else JNull)"

definition classify_draft :: "draft_kind \<Rightarrow> string \<Rightarrow> document_type \<times> string \<times> nat" where
  "classify_draft k text = (case k of Commercial \<Rightarrow> (COMMERCIAL_DOCUMENT, ''RCH_COMMERCIALE_INFERRED'', 72)
    | Management \<Rightarrow> (case classification text of Some c \<Rightarrow> c
        | None \<Rightarrow> let u = upper text in
            if contains ''COPIA CONFORME'' u then (CONFORMING_COPY, ''COPIA_CONFORME_LITERAL'', 90)
            else if contains ''PRECONTO'' u then (PRE_BILL, ''PRECONTO_LITERAL'', 90)
            else if contains ''COMANDA'' u then (KITCHEN_ORDER, ''COMANDA_LITERAL'', 90)
            else if contains ''CORRISPETTIVO NON RISCOSSO'' u
            then (MANAGEMENT_DOCUMENT, ''CORRISPETTIVO_NON_RISCOSSO_LITERAL'', 90)
            else (MANAGEMENT_DOCUMENT, ''RCH_GESTIONALE_INFERRED'', 70)))"

definition draft_text :: "draft \<Rightarrow> string" where
  "draft_text d = strip (join [chr 10] (dr_texts d))"

text \<open>A management document without a total line takes the last amount of its text.\<close>

definition draft_total :: "draft \<Rightarrow> rat option" where
  "draft_total d = (case dr_kind d of Commercial \<Rightarrow> dr_total d
    | Management \<Rightarrow> (case dr_total d of Some v \<Rightarrow> Some v
        | None \<Rightarrow> (let vs = List.map_filter id (money_values (draft_text d)) in if vs = [] then None else Some (last vs))))"

definition draft_payments :: "draft \<Rightarrow> rch_error + payment_record list" where
  "draft_payments d = (case dr_kind d of Management \<Rightarrow> Inr (dr_payments d)
    | Commercial \<Rightarrow> (case dr_total d of None \<Rightarrow> Inr []
        | Some v \<Rightarrow> attempt (as_rch (make_payment \<lparr>pay_method = None, amount = v, currency = ''EUR'', pay_evidence = INFERRED\<rparr>))
            (\<lambda>p. Inr [p])))"

text \<open>The codes the printed footer adds to those of the lines.\<close>

definition with_identity :: "draft \<Rightarrow> printed_identity \<Rightarrow> draft" where
  "with_identity d pid =
     (let d1 = (case pi_own_code pid of None \<Rightarrow> d
          | Some v \<Rightarrow> d\<lparr>dr_code := Some v, dr_code_evidence := Some (own_evidence (dr_kind d))\<rparr>)
      in case pi_reference pid of None \<Rightarrow> d1
         | Some v \<Rightarrow> if dr_reference d1 = None \<or> pi_own_code pid \<noteq> None
             then d1\<lparr>dr_reference := Some v, dr_reference_evidence := pi_reference_evidence pid\<rparr> else d1)"

definition suffix_mismatch :: "draft \<Rightarrow> bool" where
  "suffix_mismatch d = (case (dr_code d, dr_suffix d) of
      (Some c, Some s) \<Rightarrow> c \<noteq> [] \<and> s \<noteq> [] \<and> after_last (CHR ''-'') (map (\<lambda>x. if x = CHR ''/'' then CHR ''-'' else x) c) \<noteq> s
    | _ \<Rightarrow> False)"

definition is_some_text :: "string option \<Rightarrow> bool" where
  "is_some_text v = (case v of None \<Rightarrow> False | Some s \<Rightarrow> s \<noteq> [])"

definition uncollected :: "draft \<Rightarrow> bool" where
  "uncollected d = (dr_kind d = Management \<and> contains ''CORRISPETTIVO NON RISCOSSO'' (upper (draft_text d)))"

definition draft_metadata ::
    "draft \<Rightarrow> string option \<Rightarrow> printed_identity \<Rightarrow> (receipt_header \<times> nat list \<times> source_span list) option \<Rightarrow> metadata" where
  "draft_metadata d counter pid hdr =
     (let app = pi_application pid; foot = pi_footer pid; stamp = (case app of Some a \<Rightarrow> Some a | None \<Rightarrow> foot) in
     [(''source_start_offset'', JInt (int (dr_start d))), (''source_end_offset'', JInt (int (dr_end d))),
      (''source_frame_ids'', JList (map (\<lambda>i. JInt (int i)) (dr_frame_ids d))),
      (''total_command_code'', json_opt (dr_total_code d)), (''response_counter_suffix'', json_opt counter),
      (''response_status_digits'', json_opt (dr_status_digits d)),
      (''external_document_code_evidence'', json_opt (dr_code_evidence d)),
      (''external_document_code_suffix_evidence'', json_opt (dr_suffix_evidence d)),
      (''commercial_reference_code_evidence'', json_opt (dr_reference_evidence d)),
      (''document_timestamp_evidence'', json_flag (stamp \<noteq> None) ''RCH_PRINTED_TEXT''),
      (''document_timestamp_precision'', json_opt (map_option ot_precision stamp)),
      (''application_timestamp_evidence'', json_flag (app \<noteq> None) ''RCH_APPLICATION_PRINTED_TEXT''),
      (''application_timestamp_precision'', json_opt (map_option ot_precision app)),
      (''rch_footer_timestamp_evidence'', json_flag (foot \<noteq> None) ''RCH_FOOTER_PRINTED_TEXT''),
      (''rch_footer_timestamp_precision'', json_opt (map_option ot_precision foot)),
      (''rch_serial_number_evidence'', json_opt (map_option (\<lambda>(i, v, e). e) (pi_serial pid))),
      (''receipt_header_evidence'', json_opt (map_option (\<lambda>(h, ixs, ss). header_evidence h) hdr)),
      (''receipt_header_line_indexes'', JList (case hdr of None \<Rightarrow> [] | Some (h, ixs, ss) \<Rightarrow> map (\<lambda>i. JInt (int i)) ixs)),
      (''receipt_header_source_spans'', JList (case hdr of None \<Rightarrow> [] | Some (h, ixs, ss) \<Rightarrow> map json_span ss)),
      (''rch_clock_offset_seconds'', (case clock_offset app foot of None \<Rightarrow> JNull | Some n \<Rightarrow> JInt n)),
      (''progressive_observation_status'', JStr (if is_some_text (dr_code d) then ''FULL_CODE_OBSERVED_IN_CAPTURE''
         else if is_some_text (dr_suffix d) then ''SUFFIX_ONLY_OBSERVED_IN_CAPTURE'' else ''NOT_OBSERVED_IN_CAPTURE'')),
      (''semantic_evidence'', JStr ''INFERRED_FROM_CAPTURE''),
      (''economic_close'', JBool (uncollected d)),
      (''settlement_kind'', json_flag (uncollected d \<and> contains ''CONTO: CAMERA'' (upper (draft_text d))) ''ROOM_CHARGE'')])"

definition job_document :: "rch_job \<Rightarrow> string \<Rightarrow> document" where
  "job_document job hash = blank_document\<lparr>source_device_id := job_device job, source_session_id := job_session job,
     source_job_id := job_id job, captured_at := job_captured job, encoding := Some ''latin-1-lossless-byte-view'',
     parser_name := parser_name_text, parser_version := parser_version_text,
     source_manifest_sha256 := job_manifest job, source_payload_sha256 := hash, source_path := job_path job\<rparr>"

definition economic_lines :: "draft \<Rightarrow> (receipt_header \<times> nat list \<times> source_span list) option \<Rightarrow> document_line list" where
  "economic_lines d hdr = (let ids = (case hdr of None \<Rightarrow> [] | Some (h, ixs, ss) \<Rightarrow> filter is_some_text (map frame_id ss)) in
     filter (\<lambda>l. case line_source l of None \<Rightarrow> True | Some s \<Rightarrow> frame_id s \<notin> set ids) (dr_lines d))"

definition draft_document :: "rch_env \<Rightarrow> rch_job \<Rightarrow> string \<Rightarrow> string option \<Rightarrow> draft \<Rightarrow> rch_error + document" where
  "draft_document env job hash counter d0 =
     attempt (printed_header d0) (\<lambda>hdr. attempt (printed_identity_of env job d0) (\<lambda>pid. attempt (draft_payments d0) (\<lambda>ps.
       let d = with_identity d0 pid; text = draft_text d; t = draft_total d in
       case classify_draft (dr_kind d) text of (ty, sub, confidence) \<Rightarrow>
         as_rch (make_document (job_document job hash\<lparr>
           doc_id := env_uuid5 env (''retailprintguard:rch:'' @ job_id job @ '':'' @ kind_text (dr_kind d) @ '':'' @ digits (dr_start d) @ '':'' @ hash),
           doc_type := ty, subtype := sub, external_document_code := dr_code d, external_document_code_suffix := dr_suffix d,
           commercial_reference_code := dr_reference d, order_code := dr_order_code d, table_code := dr_table_code d,
           header := map_option fst hdr,
           application_timestamp := map_option ot_instant (pi_application pid),
           rch_footer_timestamp := map_option ot_instant (pi_footer pid),
           rch_serial_number := map_option (\<lambda>(i, v, e). v) (pi_serial pid),
           document_timestamp := map_option ot_instant (case pi_application pid of Some a \<Rightarrow> Some a | None \<Rightarrow> pi_footer pid),
           gross_total := t, net_total := t, tax_total := dr_tax_total d,
           doc_status := (if dr_complete d then ''COMPLETE'' else ''PARTIAL''), normalized_text := text,
           parse_confidence := (if dr_complete d then confidence else max 20 (confidence - 20)),
           doc_evidence := INFERRED, complete := dr_complete d,
           warnings := uniq (dr_warnings d @ pi_warnings pid @ (if suffix_mismatch d then [''rch_progressive_suffix_mismatch''] else [])),
           doc_lines := economic_lines d hdr, payments := ps,
           raw_metadata := draft_metadata d counter pid hdr\<rparr>)))))"

definition cancellation_document :: "rch_env \<Rightarrow> rch_job \<Rightarrow> string \<Rightarrow> frame \<Rightarrow> rch_error + document" where
  "cancellation_document env job hash f = as_rch (make_document (job_document job hash\<lparr>
     doc_id := env_uuid5 env (''retailprintguard:rch:'' @ job_id job @ '':cancel-command:'' @ digits (fr_offset f) @ '':'' @ hash),
     doc_type := CANCELLATION, subtype := ''RCH_DOCUMENT_CANCEL_COMMAND_OBSERVED'', doc_status := ''COMPLETE'',
     normalized_text := ''RCH cancellation command observed'', parse_confidence := 80, doc_evidence := INFERRED, complete := True,
     raw_metadata := [(''source_start_offset'', JInt (int (fr_offset f))), (''source_end_offset'', JInt (int (frame_end f))),
       (''source_frame_ids'', JList [JInt (int (fr_id f))]), (''observed_command'', JStr ''=k''),
       (''semantic_evidence'', JStr ''INFERRED_FROM_CAPTURE_AND_PRINTED_OUTPUT'')]\<rparr>))"

section \<open>Responses\<close>

definition response_ok :: "frame \<Rightarrow> bool" where
  "response_ok f = (fr_address f = ''01'' \<and> fr_class f = CHR ''N'' \<and> fr_valid f)"

definition response_line :: "nat \<times> frame \<Rightarrow> document_line" where
  "response_line nf = (case nf of (n, f) \<Rightarrow> blank_line\<lparr>sequence := n, description := Some (frame_text f),
     raw_text := Some (frame_text f), line_source := Some (source_of ''DEVICE_TO_CLIENT'' f)\<rparr>)"

definition response_document :: "rch_env \<Rightarrow> rch_job \<Rightarrow> framed_stream \<Rightarrow> bytes \<Rightarrow> rch_error + document option" where
  "response_document env job st raw =
     (if raw = [] then Inr None
      else let valid = filter response_ok (frames st);
          errors = List.map_filter (\<lambda>f. map_option (\<lambda>m. group_text m ''code'') (rx_full error_response_re (frame_text f))) valid;
          unknown = filter (\<lambda>t. \<not> matches (rx_full error_response_re t) \<and> \<not> matches (rx_full success_response_re t)) (map frame_text valid);
          whole = (issues st = [] \<and> \<not> truncated st);
          digest = hexdigest (env_sha256 env raw)
        in map_sum id Some (as_rch (make_document (job_document job digest\<lparr>
             doc_id := env_uuid5 env (''retailprintguard:rch:'' @ job_id job @ '':response:'' @ digest),
             doc_type := DEVICE_RESPONSE, subtype := ''RCH_RESPONSE_STREAM_CONFIRMED'',
             doc_status := (if errors \<noteq> [] then ''ERROR'' else if whole \<and> unknown = [] then ''COMPLETE'' else ''PARTIAL''),
             normalized_text := join [chr 10] (map frame_text valid),
             parse_confidence := (if valid = [] then 20 else 100),
             doc_evidence := (if valid = [] then UNKNOWN_EVIDENCE else CONFIRMED),
             source_path := (case job_response_path job of Some p \<Rightarrow> (if p = [] then job_path job else p) | None \<Rightarrow> job_path job),
             complete := whole,
             warnings := issues st @ map (\<lambda>c. ''device_error_status:'' @ c) errors @ (if unknown = [] then [] else [''unclassified_response'']),
             doc_lines := map response_line (enumerate 1 valid),
             raw_metadata := [(''ack_count'', JInt (int (ack_count st))), (''valid_response_frames'', JInt (int (length valid))),
               (''framing_issues'', JList (map JStr (issues st))), (''device_error_codes'', JList (map JStr errors)),
               (''unclassified_response_frames'', JList (map JStr unknown))]\<rparr>))))"

section \<open>The status query after a commercial document\<close>

definition from_client :: "frame \<Rightarrow> bool" where
  "from_client f = (fr_address f = ''00'' \<and> fr_class f = CHR ''z'' \<and> fr_valid f)"

definition counter_candidates :: "frame list \<Rightarrow> (nat \<times> frame \<times> string \<times> string) list" where
  "counter_candidates fs = List.map_filter (\<lambda>(i, f). if response_ok f
     then map_option (\<lambda>m. (i, f, group_text m ''status_digits'', group_text m ''counter'')) (rx_full counter_re (frame_text f))
     else None) (enumerate 0 fs)"

record status_scan =
  ss_start :: "nat option"
  ss_total :: bool
  ss_used :: "nat list"
  ss_status :: "(nat, string \<times> string) dict"

text \<open>\<^verbatim>\<open>str.isdigit\<close> of one character also holds of the superscripts, which \<^verbatim>\<open>int\<close> rejects.\<close>

definition is_py_digit :: "char \<Rightarrow> bool" where
  "is_py_digit c = (is_digit c \<or> code c \<in> {178, 179, 185})"

definition expected_sequence :: "char \<Rightarrow> char" where
  "expected_sequence c = chr (48 + (code c - 48 + 8) mod 10)"

definition scan_step :: "(nat \<times> frame \<times> string \<times> string) list \<Rightarrow> frame \<Rightarrow> status_scan \<Rightarrow> rch_error + status_scan" where
  "scan_step cands f s =
     (if \<not> from_client f then Inr s
      else if frame_text f = ''=K'' then Inr (s\<lparr>ss_start := Some (fr_id f), ss_total := False\<rparr>)
      else case ss_start s of None \<Rightarrow> Inr s
      | Some start \<Rightarrow>
          if matches (rx_full total_re (frame_text f)) then Inr (s\<lparr>ss_total := True\<rparr>)
          else attempt
            (if ss_total s \<and> frame_text f = ''<</?s'' \<and> is_py_digit (fr_sequence f)
             then if \<not> is_digit (fr_sequence f) then Inl InvalidDigit
               else Inr (case List.find (\<lambda>(i, g, _). i \<notin> set (ss_used s) \<and> fr_sequence g = expected_sequence (fr_sequence f)) cands of
                   None \<Rightarrow> s
                 | Some (i, g, st, ctr) \<Rightarrow> s\<lparr>ss_used := i # ss_used s, ss_status := AList.update start (st, ctr) (ss_status s)\<rparr>)
             else Inr s)
            (\<lambda>s1. Inr (if matches (rx_full close_re (frame_text f)) then s1\<lparr>ss_start := None, ss_total := False\<rparr> else s1)))"

definition scan_status :: "framed_stream \<Rightarrow> framed_stream \<Rightarrow> rch_error + (nat, string \<times> string) dict" where
  "scan_status request response = map_sum id ss_status (attempt_all (scan_step (counter_candidates (frames response)))
     (frames request) \<lparr>ss_start = None, ss_total = False, ss_used = [], ss_status = []\<rparr>)"

section \<open>The documents of a job\<close>

record rch_parse =
  active :: "draft option"
  documents :: "document list"

text \<open>\<^verbatim>\<open>finish\<close>\<close>

definition finish_draft :: "rch_env \<Rightarrow> rch_job \<Rightarrow> string \<Rightarrow> string list \<Rightarrow> (nat, string \<times> string) dict \<Rightarrow> bool \<Rightarrow> string option
    \<Rightarrow> rch_parse \<Rightarrow> rch_error + rch_parse" where
  "finish_draft env job hash notes status whole warning st = (case active st of
      None \<Rightarrow> Inr st
    | Some d \<Rightarrow> if max_documents \<le> length (documents st) then Inr (st\<lparr>active := None\<rparr>)
        else let d1 = d\<lparr>dr_complete := whole, dr_warnings := dr_warnings d @ (case warning of None \<Rightarrow> [] | Some w \<Rightarrow> [w]) @ notes\<rparr>;
               counter = (if dr_frame_ids d = [] then None else map_option snd (map_of status (hd (dr_frame_ids d))))
          in attempt (draft_document env job hash counter d1) (\<lambda>doc. Inr \<lparr>active = None, documents = documents st @ [doc]\<rparr>))"

definition open_commercial :: "(nat, string \<times> string) dict \<Rightarrow> nat \<Rightarrow> frame \<Rightarrow> draft" where
  "open_commercial status n f = (case map_of status (fr_id f) of
      None \<Rightarrow> new_draft Commercial n f
    | Some (st, ctr) \<Rightarrow> (new_draft Commercial n f)\<lparr>dr_suffix := Some ctr,
        dr_suffix_evidence := Some ''RCH_STATUS_RESPONSE_SUFFIX_SEQUENCE_CONFIRMED'', dr_status_digits := Some st\<rparr>)"

text \<open>A frame of an open commercial document; the flag says whether the frame closes it.\<close>

definition commercial_frame :: "draft \<Rightarrow> frame \<Rightarrow> rch_error + draft \<times> bool" where
  "commercial_frame d f =
     (let text = frame_text f in case rx_full item_re text of
        Some m \<Rightarrow> attempt (append_commercial_item d f m) (\<lambda>d1. attempt (cents (group_text m ''amount'')) (\<lambda>_.
          Inr (append_visible d1 f (group_text m ''description'' @ '' '' @ cents_text (group_text m ''amount'')), False)))
      | None \<Rightarrow> (case rx_full commercial_text_re text of
          Some m \<Rightarrow> (let v = group_text m ''text'' in Inr (note_labels v (append_visible d f v), False))
        | None \<Rightarrow> (case rx_full total_re text of
            Some m \<Rightarrow> attempt (cents (group_text m ''amount'')) (\<lambda>t. Inr (append_visible
              (d\<lparr>dr_total := Some t, dr_total_code := group m ''code''\<rparr>) f (''TOTALE '' @ cents_text (group_text m ''amount'')), False))
          | None \<Rightarrow> Inr (d, matches (rx_full close_re text) \<and> dr_total d \<noteq> None))))"

definition management_frame :: "draft \<Rightarrow> frame \<Rightarrow> rch_error + draft" where
  "management_frame d f = (case rx_full management_text_re (frame_text f) of None \<Rightarrow> Inr d
    | Some m \<Rightarrow> append_management_line (append_visible d f (group_text m ''text'')) f (group_text m ''text''))"

definition with_frame :: "draft \<Rightarrow> frame \<Rightarrow> draft" where
  "with_frame d f = d\<lparr>dr_frame_ids := dr_frame_ids d @ [fr_id f], dr_end := frame_end f\<rparr>"

definition parse_step :: "(bool \<Rightarrow> string option \<Rightarrow> rch_parse \<Rightarrow> rch_error + rch_parse) \<Rightarrow> (nat, string \<times> string) dict
    \<Rightarrow> frame \<Rightarrow> rch_parse \<Rightarrow> rch_error + rch_parse" where
  "parse_step finish status f st =
     (if \<not> from_client f then Inr st
      else let text = frame_text f in
        if text = ''=o'' then (case active st of
            Some d \<Rightarrow> if dr_kind d = Management then finish True None (st\<lparr>active := Some (with_frame d f)\<rparr>)
              else attempt (finish False (Some ''document_interrupted_by_management_open'') st)
                (\<lambda>st1. Inr (st1\<lparr>active := Some (new_draft Management (length (documents st1) + 1) f)\<rparr>))
          | None \<Rightarrow> Inr (st\<lparr>active := Some (new_draft Management (length (documents st) + 1) f)\<rparr>))
        else if text = ''=K'' then
          attempt (if active st = None then Inr st else finish False (Some ''document_interrupted_by_commercial_open'') st)
            (\<lambda>st1. Inr (st1\<lparr>active := Some (open_commercial status (length (documents st1) + 1) f)\<rparr>))
        else case active st of None \<Rightarrow> Inr st
          | Some d0 \<Rightarrow> let d = with_frame d0 f in
              if dr_kind d = Management then attempt (management_frame d f) (\<lambda>d1. Inr (st\<lparr>active := Some d1\<rparr>))
              else attempt (commercial_frame d f) (\<lambda>(d1, closes). let st1 = st\<lparr>active := Some d1\<rparr> in
                if closes then finish True None st1 else Inr st1))"

definition cancellation_step :: "rch_env \<Rightarrow> rch_job \<Rightarrow> string \<Rightarrow> frame \<Rightarrow> rch_parse \<Rightarrow> rch_error + rch_parse" where
  "cancellation_step env job hash f st =
     (if from_client f \<and> frame_text f = ''=k'' \<and> length (documents st) < max_documents
      then attempt (cancellation_document env job hash f) (\<lambda>doc. Inr (st\<lparr>documents := documents st @ [doc]\<rparr>)) else Inr st)"

definition unknown_document :: "rch_env \<Rightarrow> rch_job \<Rightarrow> framed_stream \<Rightarrow> bytes \<Rightarrow> rch_error + document" where
  "unknown_document env job st raw = (let digest = hexdigest (env_sha256 env raw) in as_rch (make_document (job_document job digest\<lparr>
     doc_id := env_uuid5 env (''retailprintguard:rch:'' @ job_id job @ '':unknown:'' @ digest), doc_type := UNKNOWN,
     subtype := ''RCH_MALFORMED_OR_UNRECOGNIZED'', doc_status := ''PARTIAL'', complete := False, warnings := issues st,
     raw_metadata := [(''framing_issues'', JList (map JStr (issues st)))]\<rparr>)))"

definition direction_separator :: bytes where
  "direction_separator = map (\<lambda>c. of_nat (code c)) ([chr 0] @ ''RPG-DIRECTION'' @ [chr 0])"

text \<open>The documents of the request stream, without the malformed and the response document.\<close>

definition request_documents :: "rch_env \<Rightarrow> rch_job \<Rightarrow> string \<Rightarrow> framed_stream \<Rightarrow> framed_stream \<Rightarrow> rch_error + document list" where
  "request_documents env job hash request response =
     attempt (scan_status request response) (\<lambda>status.
       let finish = finish_draft env job hash (issues request) status in
       attempt (attempt_all (cancellation_step env job hash) (frames request) \<lparr>active = None, documents = []\<rparr>) (\<lambda>st0.
       attempt (attempt_all (parse_step finish status) (frames request) st0) (\<lambda>st1.
       attempt (if active st1 = None then Inr st1 else finish False (Some ''document_close_not_observed'') st1) (\<lambda>st2.
         Inr (documents st2)))))"

definition parse_rch :: "rch_env \<Rightarrow> rch_job \<Rightarrow> bytes \<Rightarrow> bytes \<Rightarrow> rch_error + document list" where
  "parse_rch env job request_raw response_raw =
     (let request = frame_stream request_raw; response = frame_stream response_raw;
          hash = hexdigest (env_sha256 env (request_raw @ direction_separator @ response_raw))
      in attempt (request_documents env job hash request response) (\<lambda>docs.
         attempt (if docs = [] \<and> request_raw \<noteq> [] \<and> issues request \<noteq> []
                  then map_sum id (\<lambda>d. [d]) (unknown_document env job request request_raw) else Inr docs) (\<lambda>docs1.
         attempt (response_document env job response response_raw) (\<lambda>resp.
           Inr (case resp of Some d \<Rightarrow> if length docs1 < max_documents then docs1 @ [d] else docs1 | None \<Rightarrow> docs1)))))"

end
