(* ===== verification/RchDocuments.thy ===== *)
theory RchDocuments imports Rch "HOL-Library.Sublist" begin

text \<open>
  What the documents of \<^verbatim>\<open>parse_rch\<close> are evidence of: which frames each stands on, when it counts as
  complete, what its amounts are, where its number comes from, and which captures make the parser
  raise.
\<close>

section \<open>Documents of drafts\<close>

lemma as_rch_Inr: "as_rch x = Inr y \<longleftrightarrow> x = Inr y"
  by (cases x) (simp_all add: as_rch_def)

lemma make_document_Inr:
  assumes "make_document d = Inr e"
  shows "\<exists>m p. e = d\<lparr>source_manifest_sha256 := m, source_payload_sha256 := p\<rparr>"
  using assms by (auto simp: make_document_def attempt_eq_Inr split: if_splits)

lemma classify_draft_commercial:
  "fst (classify_draft k text) = COMMERCIAL_DOCUMENT \<longleftrightarrow> k = Commercial"
  by (auto simp: classify_draft_def classification_def Let_def split: draft_kind.splits option.splits if_splits)

lemma with_identity_keeps:
  "dr_kind (with_identity d i) = dr_kind d" "dr_lines (with_identity d i) = dr_lines d" "dr_texts (with_identity d i) = dr_texts d"
  "dr_suffix (with_identity d i) = dr_suffix d" "dr_total (with_identity d i) = dr_total d"
  "dr_frame_ids (with_identity d i) = dr_frame_ids d" "dr_complete (with_identity d i) = dr_complete d"
  by (auto simp: with_identity_def Let_def split: option.splits)

lemma draft_total_identity: "draft_total (with_identity d i) = draft_total d"
proof -
  have "draft_text (with_identity d i) = draft_text d" by (simp add: draft_text_def with_identity_keeps)
  then show ?thesis unfolding draft_total_def with_identity_keeps by (simp only:)
qed

lemma draft_metadata_ids: "get (draft_metadata d counter i h) ''source_frame_ids'' = JList (map (\<lambda>n. JInt (int n)) (dr_frame_ids d))"
  by (simp add: draft_metadata_def get_def Let_def)

lemma draft_document_facts:
  assumes "draft_document env job hash counter d = Inr doc"
  shows "(doc_type doc = COMMERCIAL_DOCUMENT \<longleftrightarrow> dr_kind d = Commercial) \<and> complete doc = dr_complete d \<and>
    gross_total doc = draft_total d \<and> set (doc_lines doc) \<subseteq> set (dr_lines d) \<and>
    external_document_code_suffix doc = dr_suffix d \<and>
    get (raw_metadata doc) ''source_frame_ids'' = JList (map (\<lambda>n. JInt (int n)) (dr_frame_ids d))"
proof -
  obtain ty sub conf where c: "classify_draft (dr_kind d) (draft_text d) = (ty, sub, conf)"
    by (cases "classify_draft (dr_kind d) (draft_text d)")
  then have ty: "ty = COMMERCIAL_DOCUMENT \<longleftrightarrow> dr_kind d = Commercial"
    using classify_draft_commercial [of "dr_kind d" "draft_text d"] by simp
  have same: "draft_text (with_identity d i) = draft_text d" for i
    by (simp add: draft_text_def with_identity_keeps)
  from assms obtain h i ps e where e: "make_document e = Inr doc"
    and fields: "doc_type e = ty" "complete e = dr_complete d" "gross_total e = draft_total d"
      "set (doc_lines e) \<subseteq> set (dr_lines d)" "external_document_code_suffix e = dr_suffix d"
      "raw_metadata e = draft_metadata (with_identity d i) counter i h"
    unfolding draft_document_def
    by (auto simp: attempt_eq_Inr as_rch_Inr Let_def c same with_identity_keeps draft_total_identity economic_lines_def)
  from make_document_Inr [OF e] show ?thesis
    using fields ty by (auto simp: draft_metadata_ids with_identity_keeps)
qed

section \<open>The frames a document stands on\<close>

text \<open>
  The frames of a document: those between the opening and the closing command, both included. A
  commercial document is opened by \<^verbatim>\<open>=K\<close> and closed by \<^verbatim>\<open><</?\<close> and a digit, a management document is opened
  and closed by \<^verbatim>\<open>=o\<close>. The total of a commercial document is that of a total command in it.
\<close>

definition total_command :: "frame \<Rightarrow> rat \<Rightarrow> bool" where
  "total_command f t \<longleftrightarrow> (\<exists>m. rx_full total_re (frame_text f) = Some m \<and> cents (group_text m ''amount'') = Inr t)"

definition opened_by :: "draft_kind \<Rightarrow> frame list \<Rightarrow> bool" where
  "opened_by k fs \<longleftrightarrow> fs \<noteq> [] \<and> frame_text (hd fs) = (if k = Commercial then ''=K'' else ''=o'')"

definition closed_by :: "draft_kind \<Rightarrow> frame list \<Rightarrow> bool" where
  "closed_by k fs \<longleftrightarrow> 2 \<le> length fs \<and>
     (if k = Commercial then matches (rx_full close_re (frame_text (last fs))) else frame_text (last fs) = ''=o'')"

text \<open>A line whose total is the product of its quantity and unit price, to the last digit.\<close>

definition exact_line :: "document_line \<Rightarrow> bool" where
  "exact_line l \<longleftrightarrow> (\<exists>q u. quantity l = Some q \<and> unit_price l = Some u \<and> line_total l = Some (u * q))"

definition commercial_facts :: "draft_kind \<Rightarrow> frame list \<Rightarrow> rat option \<Rightarrow> document_line list \<Rightarrow> bool" where
  "commercial_facts k fs t ls \<longleftrightarrow> (k = Commercial \<longrightarrow>
     (\<forall>v. t = Some v \<longrightarrow> (\<exists>f \<in> set fs. total_command f v)) \<and> (\<forall>l \<in> set ls. exact_line l))"

definition stands_on :: "document \<Rightarrow> frame list \<Rightarrow> bool" where
  "stands_on doc fs \<longleftrightarrow> (let k = (if doc_type doc = COMMERCIAL_DOCUMENT then Commercial else Management) in
     get (raw_metadata doc) ''source_frame_ids'' = JList (map (\<lambda>f. JInt (int (fr_id f))) fs) \<and>
     list_all from_client fs \<and> opened_by k fs \<and> (complete doc \<longrightarrow> closed_by k fs) \<and>
     (complete doc \<and> k = Commercial \<longrightarrow> gross_total doc \<noteq> None) \<and> commercial_facts k fs (gross_total doc) (doc_lines doc))"

text \<open>The same of a draft.\<close>

definition draft_on :: "draft \<Rightarrow> frame list \<Rightarrow> bool" where
  "draft_on d fs \<longleftrightarrow> dr_frame_ids d = map fr_id fs \<and> list_all from_client fs \<and> opened_by (dr_kind d) fs \<and>
     commercial_facts (dr_kind d) fs (dr_total d) (dr_lines d)"

lemma draft_document_on:
  assumes "draft_document env job hash counter d = Inr doc" and "draft_on d fs"
    and "dr_complete d \<Longrightarrow> closed_by (dr_kind d) fs \<and> (dr_kind d = Commercial \<longrightarrow> dr_total d \<noteq> None)"
  shows "stands_on doc fs"
proof -
  note doc = draft_document_facts [OF assms(1)]
  have "draft_total d = dr_total d" if "dr_kind d = Commercial" using that by (simp add: draft_total_def)
  with doc assms(2,3) show ?thesis
    by (cases "dr_kind d") (auto simp: stands_on_def draft_on_def commercial_facts_def Let_def o_def)
qed

section \<open>Amounts are exact or refused\<close>

lemma quantize_cents_big: "10 ^ 26 \<le> \<bar>y\<bar> \<Longrightarrow> quantize_cents y = Inl InvalidOperation"
proof -
  assume "10 ^ 26 \<le> \<bar>y\<bar>"
  then have "of_int (10 ^ 28) \<le> y * 100 \<or> y * 100 \<le> of_int (- (10 ^ 28))" by auto
  then have "10 ^ 28 \<le> half_even (y * 100) \<or> half_even (y * 100) \<le> - (10 ^ 28)" using half_even_ge half_even_le by blast
  then show ?thesis by (auto simp: quantize_cents_def Let_def)
qed

lemma ctx_cents:
  assumes "x * 100 = of_int n" and "\<bar>x\<bar> < 10 ^ 26"
  shows "ctx x = x"
proof (cases "x = 0")
  case False
  let ?k = "precision - 1 - adjusted \<bar>x\<bar>"
  have k: "2 \<le> ?k" using adjusted_less [OF assms(2)] by (simp add: precision_def)
  define j where "j = nat (?k - 2)"
  have j: "nat ?k = 2 + j" using k by (simp add: j_def)
  have "x * 10 ^ nat ?k = of_int (n * 10 ^ j)" using assms(1) unfolding j by (simp add: power_add mult.assoc [symmetric])
  then have "quantize (nat ?k) x = x" unfolding quantize_def by (simp only: half_even_of_int) (simp add: field_simps)
  moreover have "ctx x = quantize (nat ?k) x" using False k by (simp add: ctx_def Let_def)
  ultimately show ?thesis by simp
qed (simp add: ctx_def)

lemma quantize_cents_exact:
  assumes "x * 100 = of_int n" and "\<bar>x\<bar> < 10 ^ 30" and "quantize_cents (ctx x) = Inr y"
  shows "y = x"
proof (cases "\<bar>x\<bar> < 10 ^ 26")
  case True
  with assms ctx_cents have "quantize_cents x = Inr y" by simp
  moreover have "half_even (x * 100) = n" unfolding assms(1) by simp
  ultimately have "y = of_int n / 100" by (auto simp: quantize_cents_def Let_def split: if_splits)
  then show ?thesis using assms(1) by simp
next
  case False
  then have "quantize_cents (ctx x) = Inl InvalidOperation" using ctx_big by (intro quantize_cents_big) simp
  with assms(3) show ?thesis by simp
qed

lemma cents_integral:
  assumes "cents t = Inr u"
  shows "\<exists>n. u * 100 = of_int n"
proof -
  let ?n = "half_even (dec_div (of_int (signed_number t)) 100 * 100)"
  have "u = of_int ?n / 100" using assms by (auto simp: cents_def quantize_cents_def Let_def split: if_splits)
  then have "u * 100 = of_int ?n" by simp
  then show ?thesis by blast
qed

lemma product_small:
  fixes a b :: rat
  assumes "\<bar>a\<bar> < 10 ^ 15" and "\<bar>b\<bar> < 10 ^ 15"
  shows "\<bar>a * b\<bar> < 10 ^ 30"
proof -
  have "\<bar>a\<bar> * \<bar>b\<bar> \<le> \<bar>a\<bar> * 10 ^ 15" using assms(2) by (intro mult_left_mono) simp_all
  also have "\<dots> < 10 ^ 15 * 10 ^ 15" using assms(1) by (intro mult_strict_right_mono) simp_all
  finally show ?thesis by (simp add: abs_mult)
qed

lemma make_line_Inr:
  assumes "make_line l = Inr l'"
  shows "l' = l \<and> (\<forall>v. v \<in> {quantity l, unit_price l, line_total l} \<longrightarrow> (\<forall>x. v = Some x \<longrightarrow> money_ok x))"
  using assms by (auto simp: make_line_def moneys_ok_def split: if_splits)

lemma commercial_line_exact:
  assumes "commercial_line n f m = Inr l"
  shows "exact_line l"
proof -
  define k where "k = (case group m ''quantity'' of Some t \<Rightarrow> signed_number t | None \<Rightarrow> 1)"
  have q: "(case group m ''quantity'' of Some t \<Rightarrow> of_int (signed_number t) | None \<Rightarrow> 1) = (of_int k :: rat)"
    by (simp add: k_def split: option.splits)
  from assms obtain u s l0 where u: "cents (group_text m ''amount'') = Inr u"
    and s: "quantize_cents (dec_mul u (of_int k)) = Inr s" and l: "make_line l0 = Inr l"
    and l0: "quantity l0 = Some (of_int k)" "unit_price l0 = Some u" "line_total l0 = Some s"
    unfolding commercial_line_def Let_def q by (auto simp: attempt_eq_Inr as_rch_Inr)
  have same: "l = l0" and ok: "money_ok u" "money_ok (of_int k)" using make_line_Inr [OF l] l0 by simp_all
  then have small: "\<bar>u * of_int k\<bar> < 10 ^ 30" unfolding money_ok_def by (intro product_small) simp_all
  obtain j where "u * 100 = of_int j" using cents_integral [OF u] by blast
  then have "u * of_int k * 100 = of_int (j * k)" by (simp add: mult.commute mult.left_commute)
  from quantize_cents_exact [OF this small] s have "s = u * of_int k" by (simp add: dec_mul_def)
  then show ?thesis using l0 same by (simp add: exact_line_def)
qed

section \<open>The operations on a draft\<close>

lemma opened_by_append: "opened_by k fs \<Longrightarrow> opened_by k (fs @ gs)"
  by (simp add: opened_by_def)

lemma commercial_facts_append: "commercial_facts k fs t ls \<Longrightarrow> commercial_facts k (fs @ gs) t ls"
  by (auto simp: commercial_facts_def)

lemma with_frame_on: "draft_on d fs \<Longrightarrow> from_client f \<Longrightarrow> draft_on (with_frame d f) (fs @ [f])"
  by (simp add: draft_on_def with_frame_def opened_by_append commercial_facts_append)

lemma append_visible_on [simp]: "draft_on (append_visible d f v) fs = draft_on d fs"
  by (simp add: draft_on_def append_visible_def)

lemma note_labels_on [simp]: "draft_on (note_labels v d) fs = draft_on d fs"
  by (simp add: draft_on_def note_labels_def Let_def split: option.splits)

lemma note_limit_on [simp]: "draft_on (note_limit d) fs = draft_on d fs"
  by (simp add: draft_on_def note_limit_def)

lemma with_frame_kind [simp]: "dr_kind (with_frame d f) = dr_kind d"
  by (simp add: with_frame_def)

text \<open>What the notes of a management line leave alone.\<close>

definition same_base :: "draft \<Rightarrow> draft \<Rightarrow> bool" where
  "same_base d e \<longleftrightarrow> dr_kind d = dr_kind e \<and> dr_frame_ids d = dr_frame_ids e \<and> dr_suffix d = dr_suffix e"

lemma same_base_trans: "same_base a b \<Longrightarrow> same_base b c \<Longrightarrow> same_base a c"
  by (simp add: same_base_def)

lemma same_base_notes:
  "same_base (append_visible d f v) d" "same_base (note_limit d) d" "same_base (note_labels v d) d"
  "same_base (note_codes v d) d" "same_base (note_totals v d) d" "same_base (d\<lparr>dr_lines := ls\<rparr>) d"
  by (auto simp: same_base_def append_visible_def note_limit_def note_labels_def note_codes_def note_totals_def Let_def
      split: option.splits list.splits)

lemmas base_simps = same_base_notes [unfolded same_base_def]

lemma same_base_payment: "note_payment v d = Inr e \<Longrightarrow> same_base e d"
  by (auto simp: same_base_def note_payment_def Let_def attempt_eq_Inr split: option.splits if_splits)

lemma same_base_line:
  assumes "append_management_line d f v = Inr e"
  shows "same_base e d"
proof (cases "max_lines \<le> length (dr_lines d)")
  case True
  with assms have "e = note_limit d" by (simp add: append_management_line_def)
  then show ?thesis by (simp add: same_base_notes)
next
  case False
  with assms obtain l where "note_payment v (note_totals v (note_codes v (note_labels v (d\<lparr>dr_lines := dr_lines d @ [l]\<rparr>)))) = Inr e"
    by (simp add: append_management_line_def attempt_eq_Inr) blast
  from same_base_payment [OF this] show ?thesis by (simp add: same_base_def base_simps)
qed

lemma management_on: "same_base e d \<Longrightarrow> dr_kind d = Management \<Longrightarrow> draft_on d fs \<Longrightarrow> draft_on e fs"
  by (simp add: same_base_def draft_on_def commercial_facts_def)

lemma management_frame_base:
  assumes "management_frame d f = Inr e"
  shows "same_base e d"
proof (cases "rx_full management_text_re (frame_text f)")
  case None
  with assms show ?thesis by (simp add: management_frame_def same_base_def)
next
  case (Some m)
  let ?v = "group_text m ''text''" and ?d = "append_visible d f (group_text m ''text'')"
  from Some assms have "append_management_line ?d f ?v = Inr e" by (simp add: management_frame_def)
  then have "same_base e ?d" by (rule same_base_line)
  then show ?thesis using same_base_notes(1) by (rule same_base_trans)
qed

lemma management_frame_on:
  assumes "management_frame d f = Inr e" and "dr_kind d = Management" and "draft_on d fs"
  shows "draft_on e fs"
  using management_on [OF management_frame_base [OF assms(1)] assms(2,3)] .

lemma commercial_item_on:
  assumes "append_commercial_item d f m = Inr e" and "draft_on d fs"
  shows "draft_on e fs"
proof (cases "max_lines \<le> length (dr_lines d)")
  case True
  with assms show ?thesis by (auto simp: append_commercial_item_def)
next
  case False
  with assms(1) obtain l where "commercial_line (length (dr_lines d) + 1) f m = Inr l" "e = d\<lparr>dr_lines := dr_lines d @ [l]\<rparr>"
    by (auto simp: append_commercial_item_def attempt_eq_Inr)
  with assms(2) commercial_line_exact show ?thesis by (auto simp: draft_on_def commercial_facts_def)
qed

lemma commercial_frame_on:
  assumes "commercial_frame d f = Inr (e, closes)" and "draft_on d fs" and "f \<in> set fs"
  shows "draft_on e fs \<and> dr_kind e = dr_kind d \<and> (closes \<longrightarrow> matches (rx_full close_re (frame_text f)) \<and> dr_total e \<noteq> None)"
proof (cases "rx_full item_re (frame_text f)")
  case (Some m)
  with assms(1) obtain d1 where d1: "append_commercial_item d f m = Inr d1"
    "e = append_visible d1 f (group_text m ''description'' @ '' '' @ cents_text (group_text m ''amount''))" "\<not> closes"
    by (auto simp: commercial_frame_def Let_def attempt_eq_Inr)
  have "dr_kind d1 = dr_kind d"
    using d1(1) by (auto simp: append_commercial_item_def attempt_eq_Inr note_limit_def split: if_splits)
  with d1 commercial_item_on [OF d1(1) assms(2)] show ?thesis by (simp add: append_visible_def draft_on_def)
next
  case no_item: None
  show ?thesis
  proof (cases "rx_full commercial_text_re (frame_text f)")
    case (Some m)
    with no_item assms(1,2) show ?thesis
      by (auto simp: commercial_frame_def Let_def) (auto simp: note_labels_def append_visible_def Let_def split: option.splits)
  next
    case no_text: None
    show ?thesis
    proof (cases "rx_full total_re (frame_text f)")
      case (Some m)
      with no_item no_text assms(1) obtain t where t: "cents (group_text m ''amount'') = Inr t"
        and e: "e = append_visible (d\<lparr>dr_total := Some t, dr_total_code := group m ''code''\<rparr>) f (''TOTALE '' @ cents_text (group_text m ''amount''))"
        and "\<not> closes"
        by (auto simp: commercial_frame_def Let_def attempt_eq_Inr)
      moreover have "total_command f t" using Some t by (auto simp: total_command_def)
      ultimately show ?thesis using assms(2,3)
        by (auto simp: draft_on_def commercial_facts_def append_visible_def)
    next
      case None
      with no_item no_text assms(1,2) show ?thesis by (auto simp: commercial_frame_def Let_def)
    qed
  qed
qed

section \<open>The loop\<close>

lemma subseq_left: "subseq (xs @ ys) zs \<Longrightarrow> subseq xs zs"
  by (rule subseq_order.order_trans [OF prefix_imp_subseq]) (auto intro: prefixI)

lemma subseq_longer: "subseq xs zs \<Longrightarrow> subseq xs (zs @ ws)"
  by (rule subseq_order.order_trans [OF _ prefix_imp_subseq]) (auto intro: prefixI)

lemma subseq_snoc: "subseq xs zs \<Longrightarrow> subseq (xs @ [f]) (zs @ [f])"
  by (simp add: subseq_append)

lemma finish_draft_on:
  assumes "finish_draft env job hash notes status whole warning st = Inr st'" and "active st = Some d" and "draft_on d fs"
    and "whole \<Longrightarrow> closed_by (dr_kind d) fs \<and> (dr_kind d = Commercial \<longrightarrow> dr_total d \<noteq> None)"
  shows "active st' = None \<and> (documents st' = documents st \<or> (\<exists>doc. documents st' = documents st @ [doc] \<and> stands_on doc fs))"
proof (cases "max_documents \<le> length (documents st)")
  case True
  with assms(1,2) show ?thesis by (auto simp: finish_draft_def)
next
  case False
  let ?d = "d\<lparr>dr_complete := whole, dr_warnings := dr_warnings d @ (case warning of None \<Rightarrow> [] | Some w \<Rightarrow> [w]) @ notes\<rparr>"
  from False assms(1,2) obtain counter doc where doc: "draft_document env job hash counter ?d = Inr doc"
    and st': "st' = \<lparr>active = None, documents = documents st @ [doc]\<rparr>"
    by (auto simp: finish_draft_def Let_def attempt_eq_Inr)
  have "stands_on doc fs"
    by (rule draft_document_on [OF doc]) (use assms(3,4) in \<open>simp_all add: draft_on_def\<close>)
  then show ?thesis by (simp add: st')
qed

text \<open>
  The documents so far stand on consecutive parts of the client's frames, and so does the open draft.
\<close>

definition draft_part :: "document list \<Rightarrow> frame list \<Rightarrow> rch_parse \<Rightarrow> draft \<Rightarrow> frame list \<Rightarrow> bool" where
  "draft_part docs0 seen st d fs \<longleftrightarrow> (\<exists>docs parts. documents st = docs0 @ docs \<and> list_all2 stands_on docs parts \<and>
     draft_on d fs \<and> subseq (concat parts @ fs) (filter from_client seen))"

definition parts_ok :: "document list \<Rightarrow> frame list \<Rightarrow> rch_parse \<Rightarrow> bool" where
  "parts_ok docs0 seen st \<longleftrightarrow> (case active st of
      None \<Rightarrow> \<exists>docs parts. documents st = docs0 @ docs \<and> list_all2 stands_on docs parts \<and>
        subseq (concat parts) (filter from_client seen)
    | Some d \<Rightarrow> \<exists>fs. draft_part docs0 seen st d fs)"

lemma draft_part_finish:
  assumes "draft_part docs0 seen st d fs" and "active st = Some d"
    and "finish_draft env job hash notes status whole warning st = Inr st'"
    and "whole \<Longrightarrow> closed_by (dr_kind d) fs \<and> (dr_kind d = Commercial \<longrightarrow> dr_total d \<noteq> None)"
  shows "parts_ok docs0 seen st' \<and> active st' = None"
proof -
  from assms(1) obtain docs parts where docs: "documents st = docs0 @ docs" "list_all2 stands_on docs parts"
    and fs: "draft_on d fs" "subseq (concat parts @ fs) (filter from_client seen)"
    by (auto simp: draft_part_def)
  from finish_draft_on [OF assms(3,2) fs(1) assms(4)] have none: "active st' = None"
    and cases: "documents st' = documents st \<or> (\<exists>doc. documents st' = documents st @ [doc] \<and> stands_on doc fs)" by auto
  from cases have "parts_ok docs0 seen st'"
  proof
    assume "documents st' = documents st"
    with docs none subseq_left [OF fs(2)] show ?thesis by (auto simp: parts_ok_def)
  next
    assume "\<exists>doc. documents st' = documents st @ [doc] \<and> stands_on doc fs"
    then obtain doc where doc: "documents st' = docs0 @ docs @ [doc]" "stands_on doc fs" using docs(1) by auto
    moreover have "list_all2 stands_on (docs @ [doc]) (parts @ [fs])"
      using docs(2) doc(2) by (simp add: list_all2_appendI)
    ultimately show ?thesis using none fs(2)
      unfolding parts_ok_def by (auto intro!: exI [of _ "docs @ [doc]"] exI [of _ "parts @ [fs]"])
  qed
  with none show ?thesis by blast
qed

lemma parts_ok_seen: "parts_ok docs0 seen st \<Longrightarrow> parts_ok docs0 (seen @ rest) st"
  by (fastforce simp: parts_ok_def draft_part_def intro: subseq_longer split: option.splits)

lemma parts_ok_open:
  assumes "parts_ok docs0 seen st" and "active st = None" and "from_client f" and "draft_on d [f]"
  shows "parts_ok docs0 (seen @ [f]) (st\<lparr>active := Some d\<rparr>)"
  using assms by (fastforce simp: parts_ok_def draft_part_def intro: subseq_snoc)

lemma draft_part_more:
  assumes "draft_part docs0 seen st d fs" and "from_client f" and "draft_on e (fs @ [f])"
  shows "draft_part docs0 (seen @ [f]) (st\<lparr>active := Some e\<rparr>) e (fs @ [f])"
proof -
  from assms(1) obtain docs parts where docs: "documents st = docs0 @ docs" "list_all2 stands_on docs parts"
    and fs: "subseq (concat parts @ fs) (filter from_client seen)"
    by (auto simp: draft_part_def)
  have "subseq (concat parts @ fs @ [f]) (filter from_client (seen @ [f]))"
    using subseq_snoc [OF fs, of f] assms(2) by simp
  with docs assms(3) show ?thesis
    unfolding draft_part_def by (intro exI [of _ docs] exI [of _ parts]) simp
qed

lemma new_draft_on: "from_client f \<Longrightarrow> frame_text f = (if k = Commercial then ''=K'' else ''=o'') \<Longrightarrow> draft_on (new_draft k n f) [f]"
  by (simp add: draft_on_def new_draft_def opened_by_def commercial_facts_def)

lemma open_commercial_on: "from_client f \<Longrightarrow> frame_text f = ''=K'' \<Longrightarrow> draft_on (open_commercial status n f) [f]"
  by (auto simp: draft_on_def open_commercial_def new_draft_def opened_by_def commercial_facts_def split: option.splits)

lemma closed_by_append:
  assumes "opened_by k fs"
    and "if k = Commercial then matches (rx_full close_re (frame_text f)) else frame_text f = ''=o''"
  shows "closed_by k (fs @ [f])"
  using assms by (cases fs) (auto simp: closed_by_def opened_by_def)

lemma parts_ok_active: "parts_ok docs0 seen st \<Longrightarrow> active st = Some d \<Longrightarrow> \<exists>fs. draft_part docs0 seen st d fs"
  by (simp add: parts_ok_def)

lemma draft_part_ok: "draft_part docs0 seen st d fs \<Longrightarrow> active st = Some d \<Longrightarrow> parts_ok docs0 seen st"
  by (auto simp: parts_ok_def)

lemma draft_part_on: "draft_part docs0 seen st d fs \<Longrightarrow> draft_on d fs"
  by (auto simp: draft_part_def)

lemma draft_on_opened: "draft_on d fs \<Longrightarrow> opened_by (dr_kind d) fs"
  by (simp add: draft_on_def)

text \<open>An opening command interrupts an open draft and starts a new one.\<close>

lemma parts_ok_interrupt:
  assumes "parts_ok docs0 seen st" and "finish_draft env job hash notes status False warning st = Inr st1"
    and "from_client f" and "draft_on e [f]"
  shows "parts_ok docs0 (seen @ [f]) (st1\<lparr>active := Some e\<rparr>)"
proof (cases "active st")
  case None
  with assms(2) have "st1 = st" by (simp add: finish_draft_def)
  with parts_ok_open [OF assms(1) None assms(3,4)] show ?thesis by simp
next
  case (Some d)
  with parts_ok_active [OF assms(1)] obtain fs where "draft_part docs0 seen st d fs" by blast
  from draft_part_finish [OF this Some assms(2)] have "parts_ok docs0 seen st1" "active st1 = None" by auto
  from parts_ok_open [OF this assms(3,4)] show ?thesis .
qed

lemma parts_ok_body:
  assumes "parts_ok docs0 seen st" and "active st = Some d0" and "from_client f"
    and "(let d = with_frame d0 f in
        if dr_kind d = Management then attempt (management_frame d f) (\<lambda>d1. Inr (st\<lparr>active := Some d1\<rparr>))
        else attempt (commercial_frame d f) (\<lambda>(d1, closes). let st1 = st\<lparr>active := Some d1\<rparr> in
          if closes then finish_draft env job hash notes status True None st1 else Inr st1)) = Inr st'"
  shows "parts_ok docs0 (seen @ [f]) st'"
proof -
  from parts_ok_active [OF assms(1,2)] obtain fs where fs: "draft_part docs0 seen st d0 fs" by blast
  let ?d = "with_frame d0 f"
  have on: "draft_on ?d (fs @ [f])" by (rule with_frame_on [OF draft_part_on [OF fs] assms(3)])
  show ?thesis
  proof (cases "dr_kind d0 = Management")
    case True
    with assms(4) obtain d1 where d1: "management_frame ?d f = Inr d1" "st' = st\<lparr>active := Some d1\<rparr>"
      by (auto simp: Let_def attempt_eq_Inr)
    have "draft_on d1 (fs @ [f])" by (rule management_frame_on [OF d1(1) _ on]) (simp add: True)
    from draft_part_more [OF fs assms(3) this] show ?thesis unfolding d1(2) by (rule draft_part_ok) simp
  next
    case False
    with assms(4) obtain d1 closes where d1: "commercial_frame ?d f = Inr (d1, closes)"
      and st': "(if closes then finish_draft env job hash notes status True None (st\<lparr>active := Some d1\<rparr>)
        else Inr (st\<lparr>active := Some d1\<rparr>)) = Inr st'"
      by (auto simp: Let_def attempt_eq_Inr)
    from commercial_frame_on [OF d1 on] have e: "draft_on d1 (fs @ [f])" "dr_kind d1 = Commercial"
      and c: "closes \<Longrightarrow> matches (rx_full close_re (frame_text f)) \<and> dr_total d1 \<noteq> None"
      using False by (cases "dr_kind d0"; simp)+
    note part = draft_part_more [OF fs assms(3) e(1)]
    show ?thesis
    proof (cases closes)
      case True
      have "opened_by (dr_kind d1) fs" using draft_on_opened [OF draft_part_on [OF fs]] False e(2) by (cases "dr_kind d0") simp_all
      with c True e(2) have shut: "closed_by (dr_kind d1) (fs @ [f]) \<and> (dr_kind d1 = Commercial \<longrightarrow> dr_total d1 \<noteq> None)"
        by (auto intro: closed_by_append)
      from st' True have "finish_draft env job hash notes status True None (st\<lparr>active := Some d1\<rparr>) = Inr st'" by simp
      from draft_part_finish [OF part _ this shut] show ?thesis by simp
    next
      case False
      with st' have "st' = st\<lparr>active := Some d1\<rparr>" by simp
      with draft_part_ok [OF part] show ?thesis by simp
    qed
  qed
qed

lemma parts_ok_step:
  assumes "parts_ok docs0 seen st"
    and "parse_step (finish_draft env job hash notes status) status f st = Inr st'"
  shows "parts_ok docs0 (seen @ [f]) st'"
proof -
  note step = assms(2) [unfolded parse_step_def Let_def]
  consider (ignored) "\<not> from_client f" | (management) "from_client f" "frame_text f = ''=o''"
    | (commercial) "from_client f" "frame_text f = ''=K''"
    | (other) "from_client f" "frame_text f \<noteq> ''=o''" "frame_text f \<noteq> ''=K''" by blast
  then show ?thesis
  proof cases
    case ignored
    with step parts_ok_seen [OF assms(1)] show ?thesis by simp
  next
    case management
    show ?thesis
    proof (cases "active st")
      case None
      with step management have "st' = st\<lparr>active := Some (new_draft Management (length (documents st) + 1) f)\<rparr>" by simp
      moreover have "draft_on (new_draft Management (length (documents st) + 1) f) [f]"
        using management by (simp add: new_draft_on)
      ultimately show ?thesis using parts_ok_open [OF assms(1) None management(1)] by blast
    next
      case (Some d)
      show ?thesis
      proof (cases "dr_kind d = Management")
        case True
        from parts_ok_active [OF assms(1) Some] obtain fs where fs: "draft_part docs0 seen st d fs" by blast
        have kind: "dr_kind (with_frame d f) = Management" by (simp add: with_frame_def True)
        from with_frame_on [OF draft_part_on [OF fs] management(1)]
        have part: "draft_part docs0 (seen @ [f]) (st\<lparr>active := Some (with_frame d f)\<rparr>) (with_frame d f) (fs @ [f])"
          by (rule draft_part_more [OF fs management(1)])
        have "closed_by Management (fs @ [f])"
          using draft_on_opened [OF draft_part_on [OF fs]] True management(2) by (intro closed_by_append) simp_all
        moreover from step management Some True
        have "finish_draft env job hash notes status True None (st\<lparr>active := Some (with_frame d f)\<rparr>) = Inr st'" by simp
        ultimately show ?thesis using draft_part_finish [OF part] kind by simp
      next
        case False
        with step management Some obtain st1
          where "finish_draft env job hash notes status False (Some ''document_interrupted_by_management_open'') st = Inr st1"
            and st': "st' = st1\<lparr>active := Some (new_draft Management (length (documents st1) + 1) f)\<rparr>"
          by (auto simp: attempt_eq_Inr)
        have "draft_on (new_draft Management (length (documents st1) + 1) f) [f]"
          using management by (simp add: new_draft_on)
        from parts_ok_interrupt [OF assms(1) \<open>finish_draft _ _ _ _ _ _ _ _ = _\<close> management(1) this] show ?thesis unfolding st' .
      qed
    qed
  next
    case commercial
    from step commercial obtain st1
      where "(if active st = None then Inr st else
          finish_draft env job hash notes status False (Some ''document_interrupted_by_commercial_open'') st) = Inr st1"
        and st': "st' = st1\<lparr>active := Some (open_commercial status (length (documents st1) + 1) f)\<rparr>"
      by (auto simp: attempt_eq_Inr)
    then have "finish_draft env job hash notes status False (Some ''document_interrupted_by_commercial_open'') st = Inr st1"
      by (cases "active st") (auto simp: finish_draft_def)
    from parts_ok_interrupt [OF assms(1) this commercial(1) open_commercial_on [OF commercial]] show ?thesis
      unfolding st' .
  next
    case other
    show ?thesis
    proof (cases "active st")
      case None
      with step other parts_ok_seen [OF assms(1)] show ?thesis by simp
    next
      case (Some d0)
      with step other have "(let d = with_frame d0 f in
        if dr_kind d = Management then attempt (management_frame d f) (\<lambda>d1. Inr (st\<lparr>active := Some d1\<rparr>))
        else attempt (commercial_frame d f) (\<lambda>(d1, closes). let st1 = st\<lparr>active := Some d1\<rparr> in
          if closes then finish_draft env job hash notes status True None st1 else Inr st1)) = Inr st'"
        by (simp add: Let_def split del: if_split cong: if_cong)
      from parts_ok_body [OF assms(1) Some other(1) this] show ?thesis .
    qed
  qed
qed

lemma cancellations_only:
  assumes "attempt_all (cancellation_step env job hash) fs st = Inr st'" and "active st = None" and "documents st = []"
  shows "active st' = None \<and> list_all (\<lambda>d. doc_type d = CANCELLATION) (documents st')"
proof -
  have "active st' = None \<and> list_all (\<lambda>d. doc_type d = CANCELLATION) (documents st')"
    using assms(1)
  proof (rule attempt_all_invariant [where P = "\<lambda>_ s. active s = None \<and> list_all (\<lambda>d. doc_type d = CANCELLATION) (documents s)", rotated 2])
    fix s s' x
    assume s: "active s = None \<and> list_all (\<lambda>d. doc_type d = CANCELLATION) (documents s)"
      and step: "cancellation_step env job hash x s = Inr s'"
    then show "active s' = None \<and> list_all (\<lambda>d. doc_type d = CANCELLATION) (documents s')"
      by (auto simp: cancellation_step_def cancellation_document_def attempt_eq_Inr as_rch_Inr job_document_def
          dest!: make_document_Inr split: if_splits)
  qed (use assms in simp)
  then show ?thesis .
qed

lemma request_documents_parts:
  assumes "request_documents env job hash request response = Inr docs"
  shows "\<exists>cs ds parts. docs = cs @ ds \<and> list_all (\<lambda>d. doc_type d = CANCELLATION) cs \<and> list_all2 stands_on ds parts \<and>
    subseq (concat parts) (filter from_client (frames request))"
proof -
  from assms obtain status st0 st1 st2 where
    st0: "attempt_all (cancellation_step env job hash) (frames request) \<lparr>active = None, documents = []\<rparr> = Inr st0" and
    st1: "attempt_all (parse_step (finish_draft env job hash (issues request) status) status) (frames request) st0 = Inr st1" and
    st2: "(if active st1 = None then Inr st1 else
      finish_draft env job hash (issues request) status False (Some ''document_close_not_observed'') st1) = Inr st2" and
    docs: "docs = documents st2"
    unfolding request_documents_def Let_def by (auto simp: attempt_eq_Inr)
  from cancellations_only [OF st0] have none: "active st0 = None" and cs: "list_all (\<lambda>d. doc_type d = CANCELLATION) (documents st0)"
    by simp_all
  have "parts_ok (documents st0) (frames request) st1"
  proof (rule attempt_all_invariant [OF _ _ st1])
    show "parts_ok (documents st0) [] st0" by (simp add: parts_ok_def none)
  qed (rule parts_ok_step)
  moreover from st2 have "finish_draft env job hash (issues request) status False (Some ''document_close_not_observed'') st1 = Inr st2"
    by (cases "active st1") (auto simp: finish_draft_def)
  ultimately have "parts_ok (documents st0) (frames request) st2 \<and> active st2 = None"
  proof (cases "active st1")
    case None
    with st2 \<open>parts_ok (documents st0) (frames request) st1\<close> show ?thesis by simp
  next
    case (Some d)
    with parts_ok_active \<open>parts_ok (documents st0) (frames request) st1\<close>
    obtain fs where "draft_part (documents st0) (frames request) st1 d fs" by blast
    from draft_part_finish [OF this Some \<open>finish_draft _ _ _ _ _ _ _ _ = _\<close>] show ?thesis by simp
  qed
  then obtain ds parts where "documents st2 = documents st0 @ ds" "list_all2 stands_on ds parts"
      "subseq (concat parts) (filter from_client (frames request))"
    by (auto simp: parts_ok_def)
  with cs docs show ?thesis by blast
qed

lemma at_most_max_documents:
  assumes "request_documents env job hash request response = Inr docs"
  shows "length docs \<le> max_documents"
proof -
  let ?P = "\<lambda>(_ :: frame list) st. length (documents st) \<le> max_documents"
  have finish: "?P [] st'" if "?P [] st" "finish_draft env job hash ns status whole warning st = Inr st'" for ns status whole warning st st'
    using that by (auto simp: finish_draft_def Let_def attempt_eq_Inr split: option.splits if_splits)
  from assms obtain status st0 st1 st2 where
    st0: "attempt_all (cancellation_step env job hash) (frames request) \<lparr>active = None, documents = []\<rparr> = Inr st0" and
    st1: "attempt_all (parse_step (finish_draft env job hash (issues request) status) status) (frames request) st0 = Inr st1" and
    st2: "(if active st1 = None then Inr st1 else
      finish_draft env job hash (issues request) status False (Some ''document_close_not_observed'') st1) = Inr st2" and
    docs: "docs = documents st2"
    unfolding request_documents_def Let_def by (auto simp: attempt_eq_Inr)
  have "?P (frames request) st0"
    by (rule attempt_all_invariant [OF _ _ st0, where P = ?P])
      (auto simp: cancellation_step_def attempt_eq_Inr split: if_splits)
  then have "?P (frames request) st1"
  proof (intro attempt_all_invariant [OF _ _ st1, where P = ?P])
    fix x s s'
    assume "?P [] s" and "parse_step (finish_draft env job hash (issues request) status) status x s = Inr s'"
    then show "?P [] s'"
      by (auto simp: parse_step_def Let_def attempt_eq_Inr dest!: finish [rotated] split: option.splits if_splits)
  qed
  with st2 docs finish show ?thesis by (auto split: if_splits)
qed

lemma unknown_document_type: "unknown_document env job st raw = Inr d \<Longrightarrow> doc_type d = UNKNOWN"
  by (auto simp: unknown_document_def as_rch_Inr Let_def dest!: make_document_Inr)

lemma response_document_type: "response_document env job st raw = Inr (Some d) \<Longrightarrow> doc_type d = DEVICE_RESPONSE"
  by (auto simp: response_document_def as_rch_Inr Let_def map_sum_Inr split: if_splits dest!: make_document_Inr)


section \<open>Amounts the decimal context refuses\<close>

text \<open>The number of an item or total command, in cents, as the loop reads the command.\<close>

definition amount_of :: "frame \<Rightarrow> int option" where
  "amount_of f = (case rx_full item_re (frame_text f) of Some m \<Rightarrow> Some (signed_number (group_text m ''amount''))
    | None \<Rightarrow> if matches (rx_full commercial_text_re (frame_text f)) then None
        else map_option (\<lambda>m. signed_number (group_text m ''amount'')) (rx_full total_re (frame_text f)))"

lemma cents_oversized:
  assumes "10 ^ 28 \<le> \<bar>signed_number t\<bar>"
  shows "cents t = Inl InvalidOperation"
proof -
  have "(of_int (10 ^ 28) :: rat) \<le> of_int \<bar>signed_number t\<bar>" using assms by (simp only: of_int_le_iff)
  then have "10 ^ 26 \<le> \<bar>of_int (signed_number t) / 100 :: rat\<bar>" by (simp add: abs_divide)
  then show ?thesis unfolding cents_def dec_div_def by (intro quantize_cents_big ctx_big)
qed

lemma commercial_frame_oversized:
  assumes "amount_of f = Some n" and "10 ^ 28 \<le> \<bar>n\<bar>"
  shows "commercial_frame d f = Inl InvalidOperation"
proof (cases "rx_full item_re (frame_text f)")
  case (Some m)
  with assms have "cents (group_text m ''amount'') = Inl InvalidOperation"
    by (auto simp: amount_of_def intro: cents_oversized)
  with Some show ?thesis by (simp add: commercial_frame_def append_commercial_item_def commercial_line_def Let_def)
next
  case None
  with assms obtain m where m: "rx_full commercial_text_re (frame_text f) = None" "rx_full total_re (frame_text f) = Some m"
    "signed_number (group_text m ''amount'') = n"
    by (auto simp: amount_of_def matches_def split: if_splits)
  with assms(2) have "cents (group_text m ''amount'') = Inl InvalidOperation" by (auto intro: cents_oversized)
  with None m show ?thesis by (simp add: commercial_frame_def)
qed

lemma no_amount: "frame_text f \<in> {''=K'', ''=o''} \<Longrightarrow> amount_of f = None"
proof -
  have "rx_full item_re ''=K'' = None" "rx_full total_re ''=K'' = None" "rx_full item_re ''=o'' = None" "rx_full total_re ''=o'' = None"
    by code_simp+
  then show "frame_text f \<in> {''=K'', ''=o''} \<Longrightarrow> amount_of f = None" by (auto simp: amount_of_def)
qed

lemma oversized_step:
  assumes "from_client f" and "amount_of f = Some n" and "10 ^ 28 \<le> \<bar>n\<bar>" and "active st = Some d" and "dr_kind d = Commercial"
  shows "parse_step finish status f st = Inl InvalidOperation"
proof -
  have "frame_text f \<noteq> ''=K''" "frame_text f \<noteq> ''=o''" using no_amount [of f] assms(2) by auto
  with assms show ?thesis by (simp add: parse_step_def Let_def commercial_frame_oversized)
qed

text \<open>
  A receipt whose first command after the opening carries an amount of ten to the twenty-eighth
  cents or more makes \<^verbatim>\<open>parse_rch\<close> raise, whatever the rest of the capture holds: no document of the
  capture is produced.
\<close>

theorem oversized_amount_raises:
  assumes "frames (frame_stream request_raw) = before @ k # f # after" and "from_client k" and "frame_text k = ''=K''"
    and "from_client f" and "amount_of f = Some n" and "10 ^ 28 \<le> \<bar>n\<bar>"
  shows "\<exists>e. parse_rch env job request_raw response_raw = Inl e"
proof (rule ccontr)
  assume "\<not> ?thesis"
  then obtain docs where "parse_rch env job request_raw response_raw = Inr docs"
    by (cases "parse_rch env job request_raw response_raw") auto
  then obtain hash status st0 st1 where
    "attempt_all (parse_step (finish_draft env job hash (issues (frame_stream request_raw)) status) status)
      (before @ [k] @ [f] @ after) st0 = Inr st1"
    unfolding parse_rch_def request_documents_def Let_def by (auto simp: attempt_eq_Inr assms(1))
  then obtain st2 st3 st4 where
    k: "parse_step (finish_draft env job hash (issues (frame_stream request_raw)) status) status k st2 = Inr st3" and
    f: "parse_step (finish_draft env job hash (issues (frame_stream request_raw)) status) status f st3 = Inr st4"
    unfolding attempt_all_append by (auto simp: attempt_eq_Inr)
  from k assms(2,3) obtain m where "active st3 = Some (open_commercial status m k)"
    by (auto simp: parse_step_def Let_def attempt_eq_Inr split: if_splits)
  moreover have "dr_kind (open_commercial status m k) = Commercial"
    by (simp add: open_commercial_def new_draft_def split: option.split)
  ultimately show False using oversized_step [OF assms(4,5,6)] f by simp
qed

section \<open>An example\<close>

definition management_capture :: "item list" where
  "management_capture = [Framed (encode_frame ''00'' (CHR ''z'') ''=o'' (CHR ''0'')), Framed close_frame]"

definition example_env :: rch_env where
  "example_env = \<lparr>env_uuid5 = (\<lambda>t. of_nat (length t)), env_sha256 = (\<lambda>b. 0), env_zones = (\<lambda>z. None)\<rparr>"
definition example_job :: rch_job where
  "example_job = \<lparr>job_device = ''rch-1'', job_session = None, job_id = ''job'', job_captured = 0,
     job_manifest = replicate 64 (CHR ''a''), job_path = ''job.raw'', job_response_path = None, job_zone = ''Europe/Rome''\<rparr>"

lemma textless_header: "dr_texts d = [] \<Longrightarrow> printed_header d = Inr None"
  by (simp add: printed_header_def Let_def)
lemma textless_identity: "dr_texts d = [] \<Longrightarrow> printed_identity_of env job d = Inr \<lparr>pi_application = None, pi_footer = None, pi_serial = None,
   pi_own_code = None, pi_reference = None, pi_reference_evidence = None, pi_warnings = []\<rparr>"
  by (simp add: printed_identity_of_def Let_def own_markers_def found_def printed_serial_def first_some_def footer_index_def footer_ranks_def clock_offset_def last_marker_def map_filter_simps uniq_def split: draft_kind.split)

lemma capture_facts: "list_all item_ok management_capture" "length (wires management_capture) = 26" 
 "list_all (\<lambda>f. fr_valid f \<and> from_client f \<and> frame_text f = ''=o'') (frames_of 1 0 management_capture)"
 "length (frames_of 1 0 management_capture) = 2"
  by code_simp+
lemma capture_stream:
  "frame_stream (wires management_capture) = \<lparr>frames = frames_of 1 0 management_capture, ack_count = 0, issues = [], truncated = False\<rparr>"
proof -
  have "list_all fr_valid (frames_of 1 0 management_capture)" using capture_facts(3) by (simp add: list_all_iff)
  then show ?thesis
  using frame_stream_items [of management_capture] capture_facts
  by (simp add: max_input_bytes_def max_frames_def max_issues_def mismatches_valid acks_of_def)
    (simp add: management_capture_def)
qed


lemma no_frames: "frames (frame_stream []) = []"
  by (simp add: frame_stream_def empty_stream_def frame_loop.simps Let_def)

lemma no_candidates: "counter_candidates [] = []"
  by code_simp

text \<open>What the parser finds in an empty text.\<close>

lemma textless:
  "classify_draft Management [] = (MANAGEMENT_DOCUMENT, ''RCH_GESTIONALE_INFERRED'', 70)"
  "money_values [] = []" "strip [] = []" "join [chr 10] [] = []" "contains ''CORRISPETTIVO NON RISCOSSO'' (upper []) = False"
  by code_simp+

lemma example_digest:
  "hexdigest (env_sha256 example_env b) = replicate 64 (CHR ''0'')"
  "sha256_hex (replicate 64 (CHR ''0'')) = Inr (replicate 64 (CHR ''0''))"
  "sha256_hex (replicate 64 (CHR ''a'')) = Inr (replicate 64 (CHR ''a''))"
proof -
  have "hexdigest 0 = replicate 64 (CHR ''0'')" by code_simp
  then show "hexdigest (env_sha256 example_env b) = replicate 64 (CHR ''0'')" by (simp add: example_env_def)
qed code_simp+

lemma capture_parses: "\<exists>d. parse_rch example_env example_job (wires management_capture) [] = Inr [d] \<and> complete d \<and> doc_type d = MANAGEMENT_DOCUMENT"
proof -
  obtain f g where fg: "frames_of 1 0 management_capture = [f, g]" using capture_facts(4) by (auto simp: length_Suc_conv numeral_2_eq_2)
  then have f: "from_client f" "frame_text f = ''=o''" "from_client g" "frame_text g = ''=o''" using capture_facts(3) by auto
  show ?thesis
    apply (simp add: parse_rch_def Let_def capture_stream fg [unfolded One_nat_def] request_documents_def response_document_def
        cancellation_step_def f parse_step_def scan_status_def scan_step_def no_frames no_candidates)
    apply (simp add: with_frame_def new_draft_def finish_draft_def max_documents_def draft_document_def textless_header
        textless_identity draft_payments_def draft_text_def with_identity_def textless draft_total_def)
    apply (simp add: make_document_def job_document_def blank_document_def example_job_def example_digest moneys_ok_def as_rch_def Let_def)
    done
qed


text \<open>A total of 29 digits.\<close>

definition oversized_capture :: "item list" where
  "oversized_capture = [Framed open_frame,
     Framed (encode_frame ''00'' (CHR ''z'') (''=T1/$1'' @ replicate 28 (CHR ''0'')) (CHR ''1''))]"

lemma oversized_facts:
  "list_all item_ok oversized_capture" "length (wires oversized_capture) = 58"
  "map frame_text (frames_of 1 0 oversized_capture) = [''=K'', ''=T1/$1'' @ replicate 28 (CHR ''0'')]"
  "list_all from_client (frames_of 1 0 oversized_capture)"
  by code_simp+

lemma digit_codes: "code (CHR ''0'') = 48" "code (CHR ''1'') = 49"
  by code_simp+

lemma digits_value_zeros: "digits_value v (replicate n (CHR ''0'')) = v * 10 ^ n"
  by (induction n arbitrary: v) (simp_all add: digit_codes)

lemma oversized_amount:
  assumes "frame_text f = ''=T1/$1'' @ replicate 28 (CHR ''0'')"
  shows "amount_of f = Some (10 ^ 28)"
proof -
  have "rx_full item_re (frame_text f) = None" "rx_full commercial_text_re (frame_text f) = None"
    "map_option (\<lambda>m. group_text m ''amount'') (rx_full total_re (frame_text f)) = Some (''1'' @ replicate 28 (CHR ''0''))"
    unfolding assms by code_simp+
  moreover have "signed_number (''1'' @ replicate 28 (CHR ''0'')) = 10 ^ 28"
    by (simp add: signed_number_def split_sign_def digits_value_zeros digit_codes)
  ultimately show ?thesis by (auto simp: amount_of_def matches_def)
qed

theorem oversized_amount_raises_witness:
  "\<exists>e. parse_rch example_env example_job (wires oversized_capture) [] = Inl e"
proof -
  let ?fs = "frames_of 1 0 oversized_capture"
  obtain k f where fs: "?fs = [k, f]" and k: "frame_text k = ''=K''" and f: "frame_text f = ''=T1/$1'' @ replicate 28 (CHR ''0'')"
    using oversized_facts(3) by (auto simp only: map_eq_Cons_conv list.map_disc_iff)
  have "list_all fr_valid ?fs" using oversized_facts(4) by (auto simp: list_all_iff from_client_def)
  then have "frames (frame_stream (wires oversized_capture)) = [] @ k # f # []"
    using frame_stream_items [of oversized_capture] oversized_facts(1,2) fs
    by (simp add: max_input_bytes_def max_frames_def max_issues_def mismatches_valid)
  from oversized_amount_raises [OF this _ k _ oversized_amount [OF f]] oversized_facts(4) show ?thesis
    by (simp add: fs [unfolded One_nat_def])
qed

end
