(* ===== verification/RchEvidence.thy ===== *)
theory RchEvidence imports RchDocuments begin

text \<open>
  Where the number of a receipt and the printed times come from: a number only from a response whose
  sequence digit answers a status query, a printed time from the print alone.
\<close>

section \<open>The number of a receipt\<close>

text \<open>
  A receipt that the frames leave open: the client has opened a commercial document with the frame numbered
  \<open>start\<close>, has neither opened another one nor closed it since, and has sent its total if \<open>total_seen\<close>. A
  frame that is a total closes nothing.
\<close>

definition ends_receipt :: "frame \<Rightarrow> bool" where
  "ends_receipt f \<longleftrightarrow> \<not> matches (rx_full total_re (frame_text f)) \<and> matches (rx_full close_re (frame_text f))"

definition receipt_open :: "frame list \<Rightarrow> nat \<Rightarrow> bool \<Rightarrow> bool" where
  "receipt_open fs start total_seen \<longleftrightarrow> (\<exists>before k inner. fs = before @ k # inner \<and>
     from_client k \<and> frame_text k = ''=K'' \<and> fr_id k = start \<and>
     list_all (\<lambda>f. from_client f \<longrightarrow> frame_text f \<noteq> ''=K'' \<and> \<not> ends_receipt f) inner \<and>
     (total_seen \<longrightarrow> list_ex (\<lambda>f. from_client f \<and> matches (rx_full total_re (frame_text f))) inner))"

text \<open>
  The digits \<open>ctr\<close> belong to the receipt opened by the frame \<open>start\<close>: after its total and before its end the client
  asked for the status, and a valid response whose sequence digit belongs to this query carries the digits.
\<close>

definition confirmed :: "frame list \<Rightarrow> frame list \<Rightarrow> nat \<Rightarrow> string \<Rightarrow> bool" where
  "confirmed request response start ctr \<longleftrightarrow> (\<exists>before q after. request = before @ q # after \<and> receipt_open before start True \<and>
     from_client q \<and> frame_text q = ''<</?s'' \<and> is_digit (fr_sequence q) \<and>
     (\<exists>g \<in> set response. \<exists>m. response_ok g \<and> fr_sequence g = expected_sequence (fr_sequence q) \<and>
       rx_full counter_re (frame_text g) = Some m \<and> group_text m ''counter'' = ctr))"

lemma receipt_open_start: "from_client f \<Longrightarrow> frame_text f = ''=K'' \<Longrightarrow> receipt_open (fs @ [f]) (fr_id f) False"
  unfolding receipt_open_def by (intro exI [of _ fs] exI [of _ f] exI [of _ "[]"]) simp

lemma receipt_open_more:
  assumes "receipt_open fs start total_seen" and "from_client f \<longrightarrow> frame_text f \<noteq> ''=K'' \<and> \<not> ends_receipt f"
    and "total_now \<longrightarrow> total_seen \<or> from_client f \<and> matches (rx_full total_re (frame_text f))"
  shows "receipt_open (fs @ [f]) start total_now"
proof -
  from assms(1) obtain before k inner where "fs = before @ k # inner" "from_client k" "frame_text k = ''=K''" "fr_id k = start"
    "list_all (\<lambda>f. from_client f \<longrightarrow> frame_text f \<noteq> ''=K'' \<and> \<not> ends_receipt f) inner"
    "total_seen \<longrightarrow> list_ex (\<lambda>f. from_client f \<and> matches (rx_full total_re (frame_text f))) inner"
    unfolding receipt_open_def by blast
  with assms(2,3) show ?thesis
    unfolding receipt_open_def by (intro exI [of _ before] exI [of _ k] exI [of _ "inner @ [f]"]) auto
qed

lemma counter_candidates_in:
  assumes "(i, g, st, ctr) \<in> set (counter_candidates fs)"
  shows "g \<in> set fs \<and> response_ok g \<and> (\<exists>m. rx_full counter_re (frame_text g) = Some m \<and> group_text m ''counter'' = ctr)"
  using assms by (auto simp: counter_candidates_def List.map_filter_def in_set_enumerate_eq split: if_splits)

definition all_confirmed :: "frame list \<Rightarrow> frame list \<Rightarrow> (nat, string \<times> string) dict \<Rightarrow> bool" where
  "all_confirmed request response status \<longleftrightarrow> (\<forall>x \<in> set status. confirmed request response (fst x) (snd (snd x)))"

lemma confirmed_more: "confirmed fs gs start ctr \<Longrightarrow> confirmed (fs @ [f]) gs start ctr"
  unfolding confirmed_def by (metis append.assoc append_Cons)

lemma all_confirmed_more: "all_confirmed fs gs status \<Longrightarrow> all_confirmed (fs @ [f]) gs status"
  by (auto simp: all_confirmed_def intro: confirmed_more)

lemma all_confirmed_update:
  assumes "all_confirmed fs gs status" and "confirmed fs gs n ctr"
  shows "all_confirmed fs gs (AList.update n (st, ctr) status)"
  using assms by (induction status) (auto simp: all_confirmed_def)

text \<open>The scan: the document it takes for open is open, and what it has attached is confirmed.\<close>

definition scan_ok :: "frame list \<Rightarrow> frame list \<Rightarrow> status_scan \<Rightarrow> bool" where
  "scan_ok fs gs s \<longleftrightarrow> (case ss_start s of None \<Rightarrow> True | Some n \<Rightarrow> receipt_open fs n (ss_total s)) \<and> all_confirmed fs gs (ss_status s)"

definition query_step :: "(nat \<times> frame \<times> string \<times> string) list \<Rightarrow> frame \<Rightarrow> nat \<Rightarrow> status_scan \<Rightarrow> rch_error + status_scan" where
  "query_step cands f start s = (if ss_total s \<and> frame_text f = ''<</?s'' \<and> is_py_digit (fr_sequence f)
     then if \<not> is_digit (fr_sequence f) then Inl InvalidDigit
       else Inr (case List.find (\<lambda>(i, g, _). i \<notin> set (ss_used s) \<and> fr_sequence g = expected_sequence (fr_sequence f)) cands of
           None \<Rightarrow> s
         | Some (i, g, st, ctr) \<Rightarrow> s\<lparr>ss_used := i # ss_used s, ss_status := AList.update start (st, ctr) (ss_status s)\<rparr>)
     else Inr s)"

lemma query_step_confirmed:
  assumes "query_step (counter_candidates gs) f start s = Inr s'" and "from_client f"
    and "receipt_open fs start (ss_total s)" and "all_confirmed fs gs (ss_status s)"
  shows "all_confirmed (fs @ [f]) gs (ss_status s') \<and> ss_start s' = ss_start s \<and> ss_total s' = ss_total s"
proof (cases "ss_total s \<and> frame_text f = ''<</?s'' \<and> is_digit (fr_sequence f)")
  case True
  then have digit: "is_py_digit (fr_sequence f)" by (simp add: is_py_digit_def)
  let ?hit = "List.find (\<lambda>(i, g, _). i \<notin> set (ss_used s) \<and> fr_sequence g = expected_sequence (fr_sequence f)) (counter_candidates gs)"
  show ?thesis
  proof (cases ?hit)
    case None
    with True digit assms(1) all_confirmed_more [OF assms(4)] show ?thesis by (simp add: query_step_def)
  next
    case (Some x)
    obtain i g st ctr where x: "x = (i, g, st, ctr)" by (cases x)
    from Some have hit: "(i, g, st, ctr) \<in> set (counter_candidates gs)" "fr_sequence g = expected_sequence (fr_sequence f)"
      by (auto simp: find_Some_iff x) (metis nth_mem)
    have "confirmed (fs @ [f]) gs start ctr"
      using assms(2,3) True counter_candidates_in [OF hit(1)] hit(2)
      unfolding confirmed_def by (intro exI [of _ fs] exI [of _ f] exI [of _ "[]"]) auto
    from all_confirmed_update [OF all_confirmed_more [OF assms(4)] this]
    show ?thesis using True digit assms(1) Some by (auto simp: query_step_def x)
  qed
next
  case False
  with assms(1) have "s' = s" by (auto simp: query_step_def split: if_splits)
  with all_confirmed_more [OF assms(4)] show ?thesis by simp
qed

lemma scan_step_ok:
  assumes step: "scan_step (counter_candidates gs) f s = Inr s'" and ok: "scan_ok fs gs s"
  shows "scan_ok (fs @ [f]) gs s'"
proof -
  have same: "all_confirmed (fs @ [f]) gs (ss_status s)" using ok by (auto simp: scan_ok_def intro: all_confirmed_more)
  show ?thesis
  proof (cases "from_client f \<and> frame_text f \<noteq> ''=K''")
    case False
    then show ?thesis
    proof (cases "from_client f")
      case True
      with False step same receipt_open_start [of f fs] show ?thesis by (auto simp: scan_step_def scan_ok_def)
    next
      case other: False
      then have "s' = s" using step by (simp add: scan_step_def)
      with ok same other show ?thesis by (auto simp: scan_ok_def intro: receipt_open_more split: option.splits)
    qed
  next
    case client: True
    show ?thesis
    proof (cases "ss_start s")
      case None
      with step client same show ?thesis by (simp add: scan_step_def scan_ok_def)
    next
      case (Some start)
      then have opened: "receipt_open fs start (ss_total s)" and old: "all_confirmed fs gs (ss_status s)"
        using ok by (simp_all add: scan_ok_def)
      show ?thesis
      proof (cases "matches (rx_full total_re (frame_text f))")
        case True
        then have "s' = s\<lparr>ss_total := True\<rparr>" using step client Some by (simp add: scan_step_def)
        moreover have "receipt_open (fs @ [f]) start True"
          by (rule receipt_open_more [OF opened]) (use True client in \<open>simp_all add: ends_receipt_def\<close>)
        ultimately show ?thesis using Some same by (simp add: scan_ok_def)
      next
        case False
        from step client Some False obtain s1 where s1: "query_step (counter_candidates gs) f start s = Inr s1"
          and s': "s' = (if matches (rx_full close_re (frame_text f)) then s1\<lparr>ss_start := None, ss_total := False\<rparr> else s1)"
          by (auto simp: scan_step_def query_step_def [symmetric] attempt_eq_Inr)
        note queried = query_step_confirmed [OF s1 _ opened old]
        have "receipt_open (fs @ [f]) start (ss_total s)" if "\<not> matches (rx_full close_re (frame_text f))"
          by (rule receipt_open_more [OF opened]) (use that client in \<open>simp_all add: ends_receipt_def\<close>)
        with queried client Some s' show ?thesis by (auto simp: scan_ok_def)
      qed
    qed
  qed
qed

lemma scan_status_confirmed:
  assumes "scan_status request response = Inr status"
  shows "all_confirmed (frames request) (frames response) status"
proof -
  from assms obtain s where s: "attempt_all (scan_step (counter_candidates (frames response))) (frames request)
      \<lparr>ss_start = None, ss_total = False, ss_used = [], ss_status = []\<rparr> = Inr s" "status = ss_status s"
    by (auto simp: scan_status_def map_sum_Inr)
  have "scan_ok (frames request) (frames response) s"
  proof (rule attempt_all_invariant [OF _ _ s(1), where P = "\<lambda>fs s. scan_ok fs (frames response) s"])
  qed (auto simp: scan_ok_def [of "[]"] all_confirmed_def intro: scan_step_ok)
  with s(2) show ?thesis by (simp add: scan_ok_def)
qed

section \<open>The suffix along the loop\<close>

text \<open>
  A draft carries the suffix the scan attached to its first frame, or none; so does a document, whose frames
  are those of its draft.
\<close>

definition draft_suffix_known :: "(nat, string \<times> string) dict \<Rightarrow> draft \<Rightarrow> bool" where
  "draft_suffix_known status d \<longleftrightarrow> dr_suffix d = None \<or>
     (\<exists>start rest st ctr. dr_frame_ids d = start # rest \<and> map_of status start = Some (st, ctr) \<and> dr_suffix d = Some ctr)"

definition suffix_known :: "(nat, string \<times> string) dict \<Rightarrow> document \<Rightarrow> bool" where
  "suffix_known status doc \<longleftrightarrow> external_document_code_suffix doc = None \<or>
     (\<exists>start rest st ctr. get (raw_metadata doc) ''source_frame_ids'' = JList (JInt (int start) # rest) \<and>
       map_of status start = Some (st, ctr) \<and> external_document_code_suffix doc = Some ctr)"

definition suffixes_known :: "(nat, string \<times> string) dict \<Rightarrow> rch_parse \<Rightarrow> bool" where
  "suffixes_known status st \<longleftrightarrow> list_all (suffix_known status) (documents st) \<and>
     (\<forall>d. active st = Some d \<longrightarrow> draft_suffix_known status d)"

lemma draft_suffix_same:
  "dr_suffix e = dr_suffix (with_frame d f) \<Longrightarrow> dr_frame_ids e = dr_frame_ids (with_frame d f) \<Longrightarrow> draft_suffix_known status d
    \<Longrightarrow> draft_suffix_known status e"
  by (auto simp: draft_suffix_known_def with_frame_def)

lemma commercial_frame_suffix:
  assumes "commercial_frame d f = Inr (e, closes)"
  shows "dr_suffix e = dr_suffix d \<and> dr_frame_ids e = dr_frame_ids d"
  using assms
  by (auto simp: commercial_frame_def append_commercial_item_def Let_def attempt_eq_Inr append_visible_def note_limit_def
      note_labels_def split: option.splits if_splits)

lemma management_frame_suffix: "management_frame d f = Inr e \<Longrightarrow> dr_suffix e = dr_suffix d \<and> dr_frame_ids e = dr_frame_ids d"
  by (drule management_frame_base) (simp add: same_base_def)

lemma finish_suffixes:
  assumes "finish_draft env job hash ns status whole warning st = Inr st'" and "suffixes_known status st"
  shows "suffixes_known status st' \<and> active st' = None"
proof (cases "active st")
  case None
  with assms show ?thesis by (simp add: finish_draft_def)
next
  case (Some d)
  show ?thesis
  proof (cases "max_documents \<le> length (documents st)")
    case True
    with Some assms show ?thesis by (auto simp: finish_draft_def suffixes_known_def)
  next
    case False
    with Some assms(1) obtain counter e doc where doc: "draft_document env job hash counter e = Inr doc"
      and e: "dr_suffix e = dr_suffix d" "dr_frame_ids e = dr_frame_ids d" and st': "st' = \<lparr>active = None, documents = documents st @ [doc]\<rparr>"
      by (auto simp: finish_draft_def Let_def attempt_eq_Inr)
    from draft_document_facts [OF doc] have "external_document_code_suffix doc = dr_suffix d"
      "get (raw_metadata doc) ''source_frame_ids'' = JList (map (\<lambda>n. JInt (int n)) (dr_frame_ids d))" by (simp_all add: e)
    then have "suffix_known status doc" if "draft_suffix_known status d"
      using that by (auto simp: draft_suffix_known_def suffix_known_def)
    with assms(2) Some st' show ?thesis by (simp add: suffixes_known_def)
  qed
qed

lemma suffixes_open: "suffixes_known status st \<Longrightarrow> draft_suffix_known status d \<Longrightarrow> suffixes_known status (st\<lparr>active := Some d\<rparr>)"
  by (simp add: suffixes_known_def)

lemma open_commercial_suffix: "draft_suffix_known status (open_commercial status n f)"
  by (auto simp: open_commercial_def new_draft_def draft_suffix_known_def split: option.split)

lemma new_draft_suffix: "draft_suffix_known status (new_draft k n f)"
  by (simp add: new_draft_def draft_suffix_known_def)

lemma with_frame_suffix: "draft_suffix_known status d \<Longrightarrow> draft_suffix_known status (with_frame d f)"
  by (auto simp: with_frame_def draft_suffix_known_def)

lemma suffixes_step:
  assumes "suffixes_known status st" and "parse_step (finish_draft env job hash ns status) status f st = Inr st'"
  shows "suffixes_known status st'"
proof -
  have active: "draft_suffix_known status d" if "active st = Some d" for d
    using assms(1) that by (simp add: suffixes_known_def)
  show ?thesis
    using assms unfolding parse_step_def Let_def
    by (auto simp: attempt_eq_Inr active split: option.splits if_splits prod.splits
        dest!: finish_suffixes commercial_frame_suffix management_frame_suffix
        intro!: suffixes_open open_commercial_suffix new_draft_suffix with_frame_suffix intro: draft_suffix_same)
qed

lemma suffixes_cancellation:
  assumes "suffixes_known status st" and "cancellation_step env job hash f st = Inr st'"
  shows "suffixes_known status st'"
  using assms
  by (auto simp: cancellation_step_def cancellation_document_def attempt_eq_Inr as_rch_Inr suffixes_known_def job_document_def
      blank_document_def suffix_known_def dest!: make_document_Inr split: if_splits)

lemma request_suffixes:
  assumes "request_documents env job hash request response = Inr docs" and "doc \<in> set docs"
    and "external_document_code_suffix doc = Some ctr"
  shows "\<exists>start rest. get (raw_metadata doc) ''source_frame_ids'' = JList (JInt (int start) # rest) \<and>
    confirmed (frames request) (frames response) start ctr"
proof -
  from assms(1) obtain status st0 st1 st2 where status: "scan_status request response = Inr status" and
    st0: "attempt_all (cancellation_step env job hash) (frames request) \<lparr>active = None, documents = []\<rparr> = Inr st0" and
    st1: "attempt_all (parse_step (finish_draft env job hash (issues request) status) status) (frames request) st0 = Inr st1" and
    st2: "(if active st1 = None then Inr st1 else
      finish_draft env job hash (issues request) status False (Some ''document_close_not_observed'') st1) = Inr st2" and
    docs: "docs = documents st2"
    unfolding request_documents_def Let_def by (auto simp: attempt_eq_Inr)
  have "suffixes_known status st0"
    by (rule attempt_all_invariant [OF _ _ st0, where P = "\<lambda>_. suffixes_known status"])
      (simp add: suffixes_known_def, rule suffixes_cancellation)
  then have "suffixes_known status st1"
    by (rule attempt_all_invariant [OF _ _ st1, where P = "\<lambda>_. suffixes_known status"]) (rule suffixes_step)
  then have "suffixes_known status st2" using st2 by (auto split: if_splits dest: finish_suffixes)
  then have "suffix_known status doc" using assms(2) docs by (simp add: suffixes_known_def list_all_iff)
  then obtain start rest st where "get (raw_metadata doc) ''source_frame_ids'' = JList (JInt (int start) # rest)"
    "map_of status start = Some (st, ctr)"
    using assms(3) by (auto simp: suffix_known_def)
  moreover from map_of_SomeD [OF this(2)] scan_status_confirmed [OF status]
  have "confirmed (frames request) (frames response) start ctr" by (force simp: all_confirmed_def)
  ultimately show ?thesis by blast
qed


section \<open>A receipt with its status query\<close>

definition client_frame :: "string \<Rightarrow> char \<Rightarrow> item" where
  "client_frame data seq = Framed (encode_frame ''00'' (CHR ''z'') data seq)"

definition receipt_capture :: "item list" where
  "receipt_capture = [client_frame ''=K'' (CHR ''0''), client_frame ''=T1/$100'' (CHR ''1''),
     client_frame ''<</?s'' (CHR ''2''), client_frame ''<</?1'' (CHR ''3'')]"

definition status_capture :: "item list" where
  "status_capture = [Framed (encode_frame ''01'' (CHR ''N'') ''s000000RE0042'' (CHR ''0''))]"

lemma receipt_facts:
  "list_all item_ok receipt_capture \<and> list_all fr_valid (frames_of 1 0 receipt_capture) \<and> length (wires receipt_capture) = 64 \<and>
   map frame_text (frames_of 1 0 receipt_capture) = [''=K'', ''=T1/$100'', ''<</?s'', ''<</?1''] \<and>
   list_all from_client (frames_of 1 0 receipt_capture) \<and> map fr_sequence (frames_of 1 0 receipt_capture) = ''0123'' \<and>
   map fr_id (frames_of 1 0 receipt_capture) = [1, 2, 3, 4] \<and> acks_of receipt_capture = 0"
  by code_simp

lemma status_facts:
  "list_all item_ok status_capture \<and> list_all fr_valid (frames_of 1 0 status_capture) \<and> length (wires status_capture) = 24 \<and>
   map frame_text (frames_of 1 0 status_capture) = [''s000000RE0042''] \<and> list_all response_ok (frames_of 1 0 status_capture) \<and>
   map fr_sequence (frames_of 1 0 status_capture) = ''0'' \<and> acks_of status_capture = 0"
  by code_simp

lemma clean_stream:
  assumes "list_all item_ok items" and "list_all fr_valid (frames_of 1 0 items)"
    and "length (wires items) \<le> 1000" and "length (frames_of 1 0 items) \<le> 1000"
  shows "frame_stream (wires items) = \<lparr>frames = frames_of 1 0 items, ack_count = acks_of items, issues = [], truncated = False\<rparr>"
  using frame_stream_items [OF assms(1)] assms
  by (simp add: max_input_bytes_def max_frames_def max_issues_def mismatches_valid)

text \<open>What the patterns find in the texts of the example.\<close>

lemma printed_facts:
  "matches (rx_match header_boundary_re ''TOTALE 1.00'')" "rx_find_all printed_timestamp_re ''TOTALE 1.00'' = []"
  "rx_search commercial_document_code_re ''TOTALE 1.00'' = None" "rx_full explicit_serial_re ''TOTALE 1.00'' = None"
  "squeeze ''TOTALE 1.00'' = ''TOTALE 1.00'' \<and> strip ''TOTALE 1.00'' = ''TOTALE 1.00''"
  by code_simp+

lemma command_facts:
  "map_option (\<lambda>m. (group_text m ''status_digits'', group_text m ''counter'')) (rx_full counter_re ''s000000RE0042'') =
     Some (''000000'', ''0042'') \<and>
   map_option (\<lambda>m. (group m ''code'', group_text m ''amount'')) (rx_full total_re ''=T1/$100'') = Some (Some ''1'', ''100'') \<and>
   rx_full item_re ''=T1/$100'' = None \<and> rx_full commercial_text_re ''=T1/$100'' = None \<and>
   rx_full item_re ''<</?s'' = None \<and> rx_full commercial_text_re ''<</?s'' = None \<and> rx_full total_re ''<</?s'' = None \<and>
   rx_full close_re ''<</?s'' = None \<and> rx_full item_re ''<</?1'' = None \<and> rx_full commercial_text_re ''<</?1'' = None \<and>
   rx_full total_re ''<</?1'' = None \<and> matches (rx_full close_re ''<</?1'') \<and>
   rx_full error_response_re ''s000000RE0042'' = None \<and> matches (rx_full success_response_re ''s000000RE0042'')"
  by code_simp

lemma value_facts:
  "cents ''100'' = Inr 1 \<and> cents_text ''100'' = ''1.00'' \<and> expected_sequence (CHR ''2'') = CHR ''0'' \<and> is_digit (CHR ''2'')"
  by code_simp

lemma receipt_header_none: "dr_texts d = [''TOTALE 1.00''] \<Longrightarrow> printed_header d = Inr None"
  using printed_facts by (simp add: printed_header_def Let_def)

lemma receipt_identity_none:
  assumes "dr_texts d = [''TOTALE 1.00'']" and "dr_kind d = Commercial"
  shows "printed_identity_of env job d = Inr \<lparr>pi_application = None, pi_footer = None, pi_serial = None,
    pi_own_code = None, pi_reference = None, pi_reference_evidence = None, pi_warnings = []\<rparr>"
  using assms printed_facts
  by (simp add: printed_identity_of_def Let_def printed_times_def own_markers_def own_code_re_def found_def printed_serial_def
      serial_in_def first_some_def footer_index_def footer_ranks_def clock_offset_def last_marker_def map_filter_simps uniq_def)

lemma money_one: "money_ok 1"
  by code_simp

lemma matches_simps: "matches (Some m)" "\<not> matches None"
  by (simp_all add: matches_def)

lemma receipt_parses:
  "\<exists>d r. parse_rch example_env example_job (wires receipt_capture) (wires status_capture) = Inr [d, r] \<and>
     doc_type d = COMMERCIAL_DOCUMENT \<and> complete d \<and> gross_total d = Some 1 \<and>
     external_document_code_suffix d = Some ''0042''"
proof -
  note facts = receipt_facts status_facts
  from facts obtain k t q c where ks: "frames_of 1 0 receipt_capture = [k, t, q, c]"
    by (auto simp: map_eq_Cons_conv)
  from facts obtain r where rs: "frames_of 1 0 status_capture = [r]" by (auto simp: map_eq_Cons_conv)
  have request: "frame_stream (wires receipt_capture) = \<lparr>frames = [k, t, q, c], ack_count = 0, issues = [], truncated = False\<rparr>"
    and response: "frame_stream (wires status_capture) = \<lparr>frames = [r], ack_count = 0, issues = [], truncated = False\<rparr>"
    using clean_stream [of receipt_capture] clean_stream [of status_capture] facts ks rs by simp_all
  have client: "from_client k" "from_client t" "from_client q" "from_client c" "response_ok r"
    and texts: "frame_text k = ''=K''" "frame_text t = ''=T1/$100''" "frame_text q = ''<</?s''" "frame_text c = ''<</?1''"
      "frame_text r = ''s000000RE0042''"
    and seqs: "fr_sequence q = CHR ''2''" "fr_sequence r = CHR ''0''"
    and ids: "fr_id k = 1" "fr_id t = 2" "fr_id q = 3" "fr_id c = 4"
    using facts by (simp_all add: ks [simplified] rs [simplified])
  obtain mr mt where mr: "rx_full counter_re ''s000000RE0042'' = Some mr" "group_text mr ''status_digits'' = ''000000''"
      "group_text mr ''counter'' = ''0042''"
    and mt: "rx_full total_re ''=T1/$100'' = Some mt" "group mt ''code'' = Some ''1''" "group_text mt ''amount'' = ''100''"
    using command_facts by auto
  have status: "scan_status (frame_stream (wires receipt_capture)) (frame_stream (wires status_capture)) = Inr [(1, ''000000'', ''0042'')]"
    using command_facts value_facts
    by (simp add: request response scan_status_def scan_step_def client texts seqs ids counter_candidates_def
        map_filter_simps mr mt is_py_digit_def matches_simps)
  show ?thesis
    apply (simp add: parse_rch_def Let_def request_documents_def status, simp add: request response)
    apply (simp add: cancellation_step_def client texts parse_step_def open_commercial_def ids new_draft_def
        commercial_frame_def command_facts mt with_frame_def value_facts append_visible_def Let_def matches_simps)
    apply (simp add: finish_draft_def max_documents_def draft_document_def receipt_header_none receipt_identity_none
        draft_payments_def draft_text_def with_identity_def draft_total_def)
    apply (simp add: make_document_def make_payment_def money_one job_document_def blank_document_def example_job_def example_digest
        moneys_ok_def as_rch_def Let_def classify_draft_def printed_facts suffix_mismatch_def is_some_text_def)
    apply (simp add: response_document_def client texts Let_def example_digest make_document_def job_document_def
        blank_document_def moneys_ok_def as_rch_def command_facts map_filter_simps max_documents_def matches_simps)
    using status_facts apply auto
    done
qed


section \<open>Printed times\<close>

lemma readings_head:
  assumes "readings z wall = Inr lates" and "lates \<noteq> []"
  shows "hd lates = (utc_to_local z (local_to_utc z False wall) \<noteq> wall)"
  using assms by (auto simp: readings_def attempt_eq_Inr checked_def split: if_splits)

lemma chosen_is_first: "lates \<noteq> [] \<Longrightarrow> chosen_reading captured wall lates = hd lates"
proof (induction lates rule: induct_list012)
  case (3 x y zs)
  then show ?case by (simp add: chosen_reading_def)
qed (simp_all add: chosen_reading_def)

text \<open>
  The capture time never decides how an ambiguous printed time is read. For a year of four digits
  the result is the same for all capture times; of the two readings of the hour that the end of summer
  time repeats it is always the first, the second only where the first does not exist.
\<close>

theorem printed_time_ignores_capture:
  assumes "zones name = Some z" and "100 \<le> field_value m ''year''"
    and "checked (utc_to_local z c1) = Inr w1" and "checked (utc_to_local z c2) = Inr w2"
  shows "timestamp_from_match zones name c1 m = timestamp_from_match zones name c2 m \<and>
    (case timestamp_from_match zones name c1 m of Inr (Observed wall t _) \<Rightarrow>
       t = local_to_utc z (utc_to_local z (local_to_utc z False wall) \<noteq> wall) wall | _ \<Rightarrow> True)"
proof -
  have "\<not> int (field_value m ''year'') < 100" "full_year y (int (field_value m ''year'')) = int (field_value m ''year'')" for y
    using assms(2) by (auto simp: full_year_def)
  then show ?thesis using assms
    by (auto simp: timestamp_from_match_def chosen_is_first readings_head attempt_def split: option.split sum.split)
qed

text \<open>The end of summer time in Italy in 2025, at 01:00 UTC of the 26th of October.\<close>

definition summer_end :: timestamp where "summer_end = 1761440400 * microsecond"

definition example_zone :: zone where
  "example_zone = \<lparr>utc_to_local = (\<lambda>t. if t < summer_end then t + 7200 * microsecond else t + 3600 * microsecond),
     local_to_utc = (\<lambda>late w. if w < summer_end + 3600 * microsecond \<or> w < summer_end + 7200 * microsecond \<and> \<not> late
       then w - 7200 * microsecond else w - 3600 * microsecond)\<rparr>"

definition ambiguous_match :: rx_match where
  "ambiguous_match = \<lparr>m_start = 0, m_end = 16,
     m_groups = [(''minute'', ''30''), (''hour'', ''02''), (''year'', ''2025''), (''month'', ''10''), (''day'', ''26'')]\<rparr>"

theorem printed_time_ignores_capture_witness:
  "timestamp_from_match [''Europe/Rome'' \<mapsto> example_zone] ''Europe/Rome'' 0 ambiguous_match =
   timestamp_from_match [''Europe/Rome'' \<mapsto> example_zone] ''Europe/Rome'' (summer_end + 1800 * microsecond) ambiguous_match"
proof -
  have codes: "code (CHR ''0'') = 48" "code (CHR ''2'') = 50" "code (CHR ''5'') = 53" by code_simp+
  have year: "100 \<le> field_value ambiguous_match ''year''"
    by (simp add: field_value_def group_text_def group_def ambiguous_match_def codes)
  have "checked (utc_to_local example_zone 0) = Inr (7200 * microsecond)"
    "checked (utc_to_local example_zone (summer_end + 1800 * microsecond)) = Inr (summer_end + 5400 * microsecond)"
    by (simp_all add: checked_def datetime_range_def example_zone_def summer_end_def microsecond_def day_micros_def)
  from printed_time_ignores_capture [OF _ year this, of "[''Europe/Rome'' \<mapsto> example_zone]" "''Europe/Rome''"]
  show ?thesis by simp
qed

end
