(* ===== verification/RchOrigin.thy ===== *)
theory RchOrigin imports RchDocuments begin

text \<open>
  What every document of the RCH parser satisfies: it names its job and its parser, and it and its lines
  and payments are values the frozen models of \<^verbatim>\<open>common/domain.py\<close> accept.
\<close>

section \<open>Validated values\<close>

definition from_job :: "rch_job \<Rightarrow> document \<Rightarrow> bool" where
  "from_job job d \<longleftrightarrow> source_job_id d = job_id job \<and> source_device_id d = job_device job \<and> source_session_id d = job_session job \<and>
     captured_at d = job_captured job \<and> parser_name d = parser_name_text \<and> parser_version d = parser_version_text"

definition typed_parts :: "document_line list \<Rightarrow> payment_record list \<Rightarrow> bool" where
  "typed_parts ls ps \<longleftrightarrow> (\<forall>l \<in> set ls. make_line l = Inr l) \<and> (\<forall>p \<in> set ps. make_payment p = Inr p)"

definition typed_document :: "rch_job \<Rightarrow> document \<Rightarrow> bool" where
  "typed_document job d \<longleftrightarrow> from_job job d \<and> make_document d = Inr d \<and> typed_parts (doc_lines d) (payments d)"

lemma typed_partsI: "(\<And>l. l \<in> set ls \<Longrightarrow> make_line l = Inr l) \<Longrightarrow> (\<And>p. p \<in> set ps \<Longrightarrow> make_payment p = Inr p) \<Longrightarrow> typed_parts ls ps"
  by (simp add: typed_parts_def)

lemma typed_parts_subset: "typed_parts ls ps \<Longrightarrow> set ls' \<subseteq> set ls \<Longrightarrow> set ps' \<subseteq> set ps \<Longrightarrow> typed_parts ls' ps'"
  by (auto simp: typed_parts_def)

lemma typed_parts_Nil [simp]: "typed_parts [] []"
  by (simp add: typed_parts_def)

lemma make_line_again: "make_line l = Inr k \<Longrightarrow> make_line k = Inr k"
  by (simp add: make_line_def split: if_splits)

lemma make_payment_again: "make_payment p = Inr q \<Longrightarrow> make_payment q = Inr q"
  by (simp add: make_payment_def split: if_splits)

lemma lower_hex: "\<forall>c \<in> set s. is_hex_lower c \<Longrightarrow> lower s = s"
proof (induction s)
  case (Cons c s)
  then have "\<not> (65 \<le> code c \<and> code c \<le> 90)" "\<not> 192 \<le> code c" by (auto simp: is_hex_lower_def is_digit_def)
  with Cons show ?case by (auto simp: lower_def Let_def)
qed (simp add: lower_def)

lemma sha256_hex_again:
  assumes "sha256_hex v = Inr s"
  shows "sha256_hex s = Inr s"
proof -
  from assms have "length s = 64" "\<forall>c \<in> set s. is_hex_lower c" by (auto simp: sha256_hex_def Let_def list_ex_iff split: if_splits)
  then show ?thesis by (auto simp: sha256_hex_def Let_def lower_hex list_ex_iff)
qed

lemma make_document_typed:
  assumes "make_document d = Inr e" and "from_job job d" and "typed_parts (doc_lines d) (payments d)"
  shows "typed_document job e"
proof -
  from assms(1) obtain m p where e: "e = d\<lparr>source_manifest_sha256 := m, source_payload_sha256 := p\<rparr>"
    and sha: "sha256_hex (source_manifest_sha256 d) = Inr m" "sha256_hex (source_payload_sha256 d) = Inr p"
    and ok: "moneys_ok [gross_total d, net_total d, discount_total d, tax_total d]" "\<not> 100 < parse_confidence d"
    by (auto simp: make_document_def attempt_eq_Inr split: if_splits)
  from sha256_hex_again [OF sha(1)] sha256_hex_again [OF sha(2)] ok have "make_document e = Inr e"
    by (simp add: e make_document_def)
  with assms(2,3) show ?thesis by (simp add: typed_document_def from_job_def e)
qed

lemma blank_line_ok: "make_line (blank_line\<lparr>sequence := n, description := t, raw_text := r, line_source := s\<rparr>) =
  Inr (blank_line\<lparr>sequence := n, description := t, raw_text := r, line_source := s\<rparr>)"
  by (simp add: make_line_def blank_line_def moneys_ok_def)

section \<open>Drafts\<close>

definition typed_draft :: "draft \<Rightarrow> bool" where
  "typed_draft d \<longleftrightarrow> typed_parts (dr_lines d) (dr_payments d)"

lemma note_payment_typed:
  assumes "note_payment v d = Inr e" and "typed_draft d"
  shows "typed_draft e"
  using assms unfolding note_payment_def
  by (auto simp: Let_def attempt_eq_Inr as_rch_Inr typed_draft_def typed_parts_def dest: make_payment_again split: option.splits if_splits)

lemma noted_typed [simp]:
  "typed_draft (append_visible d f v) = typed_draft d" "typed_draft (note_labels v d) = typed_draft d"
  "typed_draft (note_codes v d) = typed_draft d" "typed_draft (note_totals v d) = typed_draft d" "typed_draft (note_limit d) = typed_draft d"
  "typed_draft (with_frame d f) = typed_draft d"
  by (simp_all add: typed_draft_def append_visible_def note_labels_def note_codes_def note_totals_def note_limit_def with_frame_def Let_def
      split: option.split list.split)

lemma add_line_typed: "typed_draft d \<Longrightarrow> make_line l = Inr k \<Longrightarrow> typed_draft (d\<lparr>dr_lines := dr_lines d @ [k]\<rparr>)"
  by (auto simp: typed_draft_def typed_parts_def dest: make_line_again)

lemma management_frame_typed:
  assumes "management_frame d f = Inr e" and "typed_draft d"
  shows "typed_draft e"
proof (cases "rx_full management_text_re (frame_text f)")
  case (Some m)
  let ?v = "group_text m ''text''" and ?d = "append_visible d f (group_text m ''text'')"
  from Some assms(1) have run: "append_management_line ?d f ?v = Inr e" by (simp add: management_frame_def)
  show ?thesis
  proof (cases "max_lines \<le> length (dr_lines ?d)")
    case False
    with run obtain l where l: "make_line (management_line (length (dr_lines ?d) + 1) f ?v) = Inr l"
      and e: "note_payment ?v (note_totals ?v (note_codes ?v (note_labels ?v (?d\<lparr>dr_lines := dr_lines ?d @ [l]\<rparr>)))) = Inr e"
      by (auto simp: append_management_line_def attempt_eq_Inr as_rch_Inr)
    from e show ?thesis by (rule note_payment_typed) (simp add: add_line_typed [OF _ l] assms(2))
  qed (use run assms(2) in \<open>auto simp: append_management_line_def\<close>)
qed (use assms in \<open>simp add: management_frame_def\<close>)

lemma commercial_frame_typed:
  assumes "commercial_frame d f = Inr (e, closes)" and "typed_draft d"
  shows "typed_draft e"
proof -
  have item: "typed_draft d1" if step: "append_commercial_item d f m = Inr d1" for m d1
  proof (cases "max_lines \<le> length (dr_lines d)")
    case False
    with step obtain l k where "make_line l = Inr k" "d1 = d\<lparr>dr_lines := dr_lines d @ [k]\<rparr>"
      by (auto simp: append_commercial_item_def commercial_line_def Let_def attempt_eq_Inr as_rch_Inr)
    with add_line_typed assms(2) show ?thesis by blast
  qed (use step assms(2) in \<open>auto simp: append_commercial_item_def\<close>)
  have "typed_draft (d1\<lparr>dr_total := v, dr_total_code := c\<rparr>) = typed_draft d1" for d1 v c by (simp add: typed_draft_def)
  with assms show ?thesis
    unfolding commercial_frame_def
    by (auto simp: Let_def attempt_eq_Inr dest: item split: option.splits if_splits)
qed

section \<open>Documents\<close>

lemma draft_document_typed:
  assumes "draft_document env job hash counter d = Inr doc" and "typed_draft d"
  shows "typed_document job doc"
proof -
  obtain ty sub conf where c: "classify_draft (dr_kind d) (draft_text d) = (ty, sub, conf)"
    by (cases "classify_draft (dr_kind d) (draft_text d)")
  have same: "draft_text (with_identity d i) = draft_text d" for i
    by (simp add: draft_text_def with_identity_keeps)
  from assms(1) obtain e where e: "make_document e = Inr doc" "from_job job e" "draft_payments d = Inr (payments e)"
    "set (doc_lines e) \<subseteq> set (dr_lines d)"
    unfolding draft_document_def
    by (auto simp: attempt_eq_Inr as_rch_Inr Let_def c same with_identity_keeps job_document_def from_job_def economic_lines_def)
  have "\<forall>p \<in> set ps. make_payment p = Inr p" if "draft_payments d = Inr ps" for ps
    using that assms(2) by (auto simp: draft_payments_def typed_draft_def typed_parts_def attempt_eq_Inr as_rch_Inr
        dest: make_payment_again split: draft_kind.splits option.splits)
  from this [OF e(3)] have "\<forall>p \<in> set (payments e). make_payment p = Inr p" .
  with e(4) assms(2) have "typed_parts (doc_lines e) (payments e)" by (auto simp: typed_draft_def typed_parts_def)
  with make_document_typed e show ?thesis by blast
qed

lemma cancellation_typed: "cancellation_document env job hash f = Inr e \<Longrightarrow> typed_document job e"
  unfolding cancellation_document_def as_rch_Inr
  by (erule make_document_typed) (simp_all add: job_document_def from_job_def blank_document_def)

lemma unknown_typed: "unknown_document env job st raw = Inr e \<Longrightarrow> typed_document job e"
  unfolding unknown_document_def as_rch_Inr Let_def
  by (erule make_document_typed) (simp_all add: job_document_def from_job_def blank_document_def)

lemma response_lines_typed: "typed_parts (map response_line nfs) []"
  by (auto simp: typed_parts_def response_line_def blank_line_ok)

lemma response_typed: "response_document env job st raw = Inr (Some e) \<Longrightarrow> typed_document job e"
  unfolding response_document_def Let_def
  by (auto simp: map_sum_Inr as_rch_Inr response_lines_typed job_document_def from_job_def blank_document_def
      elim!: make_document_typed split: if_splits)

section \<open>A capture\<close>

definition typed_parse :: "rch_job \<Rightarrow> rch_parse \<Rightarrow> bool" where
  "typed_parse job st \<longleftrightarrow> (\<forall>d \<in> set (documents st). typed_document job d) \<and> (\<forall>d. active st = Some d \<longrightarrow> typed_draft d)"

lemma finish_draft_typed:
  assumes "finish_draft env job hash ns status whole warning st = Inr st'" and "typed_parse job st"
  shows "typed_parse job st'"
proof (cases "active st")
  case (Some d)
  let ?d = "d\<lparr>dr_complete := whole, dr_warnings := dr_warnings d @ (case warning of None \<Rightarrow> [] | Some w \<Rightarrow> [w]) @ ns\<rparr>"
  from Some assms(2) have d: "typed_draft ?d" by (simp add: typed_parse_def typed_draft_def)
  show ?thesis
  proof (cases "max_documents \<le> length (documents st)")
    case False
    with assms(1) Some obtain counter doc where "draft_document env job hash counter ?d = Inr doc" "st' = \<lparr>active = None, documents = documents st @ [doc]\<rparr>"
      by (auto simp: finish_draft_def Let_def attempt_eq_Inr)
    with draft_document_typed [OF _ d] assms(2) show ?thesis by (auto simp: typed_parse_def)
  qed (use assms Some in \<open>auto simp: finish_draft_def typed_parse_def\<close>)
qed (use assms in \<open>simp add: finish_draft_def\<close>)

lemma opened_typed [simp]: "typed_draft (new_draft k n f)" "typed_draft (open_commercial status n f)"
  by (simp_all add: typed_draft_def new_draft_def open_commercial_def split: option.split)

lemma typed_parse_active: "typed_parse job st \<Longrightarrow> typed_draft d \<Longrightarrow> typed_parse job (st\<lparr>active := Some d\<rparr>)"
  by (simp add: typed_parse_def)

lemma parse_step_typed:
  assumes "parse_step (finish_draft env job hash ns status) status f st = Inr st'" and "typed_parse job st"
  shows "typed_parse job st'"
proof -
  have d: "typed_draft d" if "active st = Some d" for d using that assms(2) by (simp add: typed_parse_def)
  show ?thesis
    using assms
    by (auto simp: parse_step_def Let_def attempt_eq_Inr typed_parse_active d dest!: finish_draft_typed management_frame_typed commercial_frame_typed
        split: option.splits if_splits)
qed

lemma cancellation_step_typed: "cancellation_step env job hash f st = Inr st' \<Longrightarrow> typed_parse job st \<Longrightarrow> typed_parse job st'"
  by (auto simp: cancellation_step_def typed_parse_def attempt_eq_Inr dest: cancellation_typed split: if_splits)

lemma request_documents_typed:
  assumes "request_documents env job hash request response = Inr docs" and "d \<in> set docs"
  shows "typed_document job d"
proof -
  from assms(1) obtain status st0 st1 st2 where
    st0: "attempt_all (cancellation_step env job hash) (frames request) \<lparr>active = None, documents = []\<rparr> = Inr st0" and
    st1: "attempt_all (parse_step (finish_draft env job hash (issues request) status) status) (frames request) st0 = Inr st1" and
    st2: "(if active st1 = None then Inr st1 else
      finish_draft env job hash (issues request) status False (Some ''document_close_not_observed'') st1) = Inr st2" and
    docs: "docs = documents st2"
    unfolding request_documents_def Let_def by (auto simp: attempt_eq_Inr)
  have "typed_parse job st0"
  proof (rule attempt_all_keeps [OF st0])
    show "typed_parse job \<lparr>active = None, documents = []\<rparr>" by (simp add: typed_parse_def)
  qed (rule cancellation_step_typed)
  then have "typed_parse job st1"
    by (rule attempt_all_keeps [OF st1]) (rule parse_step_typed)
  with st2 finish_draft_typed have "typed_parse job st2" by (auto split: if_splits)
  with docs assms(2) show ?thesis by (simp add: typed_parse_def)
qed

lemma parse_rch_typed:
  assumes "parse_rch env job q r = Inr docs" and "d \<in> set docs"
  shows "typed_document job d"
proof -
  let ?request = "frame_stream q" and ?response = "frame_stream r"
  from assms(1) obtain hash docs0 docs1 resp where
    docs0: "request_documents env job hash ?request ?response = Inr docs0" and
    docs1: "(if docs0 = [] \<and> q \<noteq> [] \<and> issues ?request \<noteq> []
      then map_sum id (\<lambda>d. [d]) (unknown_document env job ?request q) else Inr docs0) = Inr docs1" and
    resp: "response_document env job ?response r = Inr resp" and
    docs: "docs = (case resp of Some d \<Rightarrow> if length docs1 < max_documents then docs1 @ [d] else docs1 | None \<Rightarrow> docs1)"
    unfolding parse_rch_def Let_def by (auto simp: attempt_eq_Inr)
  from docs1 docs0 have "\<forall>d \<in> set docs1. typed_document job d"
    by (auto simp: map_sum_Inr dest: request_documents_typed unknown_typed split: if_splits)
  with docs resp assms(2) show ?thesis by (auto dest: response_typed split: option.splits if_splits)
qed

text \<open>What the domain models promise, in plain terms.\<close>

definition money_value :: "rat \<Rightarrow> bool" where
  "money_value x \<longleftrightarrow> (\<exists>n :: int. x = of_int n / 10000) \<and> - 1000000000000000 < x \<and> x < 1000000000000000"

definition sha256_text_value :: "string \<Rightarrow> bool" where
  "sha256_text_value s \<longleftrightarrow> length s = 64 \<and> list_all (\<lambda>c. c \<in> set ''0123456789abcdef'') s"

lemma money_ok_value: "money_ok x \<Longrightarrow> money_value x"
proof -
  assume ok: "money_ok x"
  then have "x = of_int \<lfloor>x * 10 ^ 4\<rfloor> / 10000" by (auto simp: money_ok_def)
  moreover have "- 1000000000000000 < x" "x < 1000000000000000" using ok by (auto simp: money_ok_def abs_less_iff)
  ultimately show ?thesis unfolding money_value_def by blast
qed

lemma moneys_ok_value: "moneys_ok vs \<Longrightarrow> Some x \<in> set vs \<Longrightarrow> money_value x"
  by (force simp: moneys_ok_def list_all_iff dest: money_ok_value)

lemma hex_lower_member: "is_hex_lower c \<Longrightarrow> c \<in> set ''0123456789abcdef''"
proof -
  have all: "list_all (\<lambda>n. chr n \<in> set ''0123456789abcdef'') ([48..<58] @ [97..<103])" by code_simp
  assume "is_hex_lower c"
  then have "code c \<in> set ([48..<58] @ [97..<103])"
    by (simp only: set_append set_upt Un_iff atLeastLessThan_iff is_hex_lower_def is_digit_def) linarith
  with all have "chr (code c) \<in> set ''0123456789abcdef''" unfolding list_all_iff by (rule bspec)
  then show ?thesis by (simp only: chr_code)
qed

lemma sha256_hex_value: "sha256_hex v = Inr s \<Longrightarrow> sha256_text_value s"
proof -
  assume "sha256_hex v = Inr s"
  then have "length s = 64" "list_all is_hex_lower s"
    by (auto simp: sha256_hex_def Let_def list_ex_iff list_all_iff split: if_splits)
  then show ?thesis unfolding sha256_text_value_def by (metis (mono_tags, lifting) hex_lower_member list_all_iff)
qed

lemma make_line_value:
  assumes "make_line l = Inr k" and "Some x \<in> {quantity l, unit_price l, original_unit_price l, modified_unit_price l,
     discount l, surcharge l, tax_rate l, line_total l}"
  shows "money_value x"
proof (rule moneys_ok_value)
  show "moneys_ok [quantity l, unit_price l, original_unit_price l, modified_unit_price l, discount l, surcharge l, tax_rate l, line_total l]"
    using assms(1) unfolding make_line_def by (rule contrapos_pp) simp
qed (use assms(2) in \<open>simp only: list.set\<close>)

lemma make_payment_value: "make_payment p = Inr q \<Longrightarrow> money_value (amount p)"
  by (auto simp: make_payment_def money_ok_value split: if_splits)

lemma make_document_value:
  assumes "make_document d = Inr e"
  shows "parse_confidence e \<le> 100" "sha256_text_value (source_manifest_sha256 e)" "sha256_text_value (source_payload_sha256 e)"
    and "Some x \<in> {gross_total e, net_total e, discount_total e, tax_total e} \<Longrightarrow> money_value x"
proof -
  from assms obtain m p where e: "e = d\<lparr>source_manifest_sha256 := m, source_payload_sha256 := p\<rparr>"
    and sha: "sha256_hex (source_manifest_sha256 d) = Inr m" "sha256_hex (source_payload_sha256 d) = Inr p"
    and ok: "moneys_ok [gross_total d, net_total d, discount_total d, tax_total d]" "\<not> 100 < parse_confidence d"
    by (auto simp: make_document_def attempt_eq_Inr split: if_splits)
  show "sha256_text_value (source_manifest_sha256 e)" "sha256_text_value (source_payload_sha256 e)"
    using sha256_hex_value [OF sha(1)] sha256_hex_value [OF sha(2)] by (simp_all add: e)
  show "parse_confidence e \<le> 100" using ok(2) by (simp add: e)
  show "Some x \<in> {gross_total e, net_total e, discount_total e, tax_total e} \<Longrightarrow> money_value x"
    by (rule moneys_ok_value [OF ok(1)]) (simp add: e)
qed

text \<open>
  C20: what the parser returns is well typed. Every document names the job, the device, the session and
  the time of its capture and the parser; its confidence is at most 100; both its digests are 64 lower-case
  hexadecimal digits; and every amount that it, one of its lines or one of its payments carries is a multiple of a
  ten-thousandth between \<open>- 10 ^ 15\<close> and \<open>10 ^ 15\<close>, as the money columns hold it.
\<close>

theorem documents_well_typed:
  assumes "parse_rch env job q r = Inr docs"
  shows "\<forall>d \<in> set docs. from_job job d \<and> parse_confidence d \<le> 100 \<and>
    sha256_text_value (source_manifest_sha256 d) \<and> sha256_text_value (source_payload_sha256 d) \<and>
    (\<forall>x. Some x \<in> {gross_total d, net_total d, discount_total d, tax_total d} \<longrightarrow> money_value x) \<and>
    (\<forall>l \<in> set (doc_lines d). \<forall>x. Some x \<in> {quantity l, unit_price l, original_unit_price l, modified_unit_price l,
       discount l, surcharge l, tax_rate l, line_total l} \<longrightarrow> money_value x) \<and>
    (\<forall>p \<in> set (payments d). money_value (amount p))"
proof
  fix d assume "d \<in> set docs"
  from parse_rch_typed [OF assms this]
  have d: "from_job job d" "make_document d = Inr d" "typed_parts (doc_lines d) (payments d)" by (simp_all add: typed_document_def)
  note checked = make_document_value [OF d(2)]
  have "\<forall>l \<in> set (doc_lines d). \<forall>x. Some x \<in> {quantity l, unit_price l, original_unit_price l, modified_unit_price l,
       discount l, surcharge l, tax_rate l, line_total l} \<longrightarrow> money_value x"
    using d(3) make_line_value unfolding typed_parts_def by blast
  moreover have "\<forall>p \<in> set (payments d). money_value (amount p)"
    using d(3) make_payment_value unfolding typed_parts_def by blast
  ultimately show "from_job job d \<and> parse_confidence d \<le> 100 \<and>
    sha256_text_value (source_manifest_sha256 d) \<and> sha256_text_value (source_payload_sha256 d) \<and>
    (\<forall>x. Some x \<in> {gross_total d, net_total d, discount_total d, tax_total d} \<longrightarrow> money_value x) \<and>
    (\<forall>l \<in> set (doc_lines d). \<forall>x. Some x \<in> {quantity l, unit_price l, original_unit_price l, modified_unit_price l,
       discount l, surcharge l, tax_rate l, line_total l} \<longrightarrow> money_value x) \<and>
    (\<forall>p \<in> set (payments d). money_value (amount p))"
    using d(1) checked by blast
qed

theorem documents_well_typed_witness:
  "\<exists>d. parse_rch example_env example_job (wires management_capture) [] = Inr [d] \<and> from_job example_job d \<and>
     parse_confidence d \<le> 100 \<and> sha256_text_value (source_payload_sha256 d)"
proof -
  obtain d where d: "parse_rch example_env example_job (wires management_capture) [] = Inr [d]" using capture_parses by blast
  with documents_well_typed [OF d] show ?thesis by auto
qed

end
