(* ===== verification/ParserStore.thy ===== *)
theory ParserStore imports Rch "HOL-Library.Product_Lexorder" begin

text \<open>
  \<^verbatim>\<open>parser/repository.py\<close>: the tables the parser worker reads and writes, with one definition per method
  of \<^verbatim>\<open>SqlAlchemyParserRepository\<close>. A method either returns the new tables or raises and leaves them as
  they were, which is what \<^verbatim>\<open>session.begin()\<close> does with the statements of a transaction. Primary keys
  come from a supply of identifiers, the digests of the parser builds and the JSON form of a model
  (\<^verbatim>\<open>model_dump\<close>) are parameters.
\<close>

section \<open>Tables\<close>

record job_row =
  job_key :: uuid
  job_device_key :: uuid
  job_session_key :: uuid
  job_source :: string
  job_captured_at :: timestamp
  job_manifest_sha :: string
  job_status :: string

record device_row =
  device_key :: uuid
  device_external :: string
  device_parser :: string

record raw_row =
  raw_key :: uuid
  raw_job :: uuid
  raw_role :: string
  raw_sha :: string
  raw_payload :: bytes
  raw_path :: string
  raw_sequence :: nat

text \<open>The columns that \<^verbatim>\<open>documents\<close> repeats from the latest version.\<close>

record document_columns =
  col_type :: document_type
  col_subtype :: string
  col_code :: "string option"
  col_suffix :: "string option"
  col_reference :: "string option"
  col_order :: "string option"
  col_table :: "string option"
  col_operator :: "string option"
  col_terminal :: "string option"
  col_header :: "receipt_header option"
  col_application :: "timestamp option"
  col_footer :: "timestamp option"
  col_serial :: "string option"
  col_timestamp :: "timestamp option"

record document_row =
  row_key :: uuid
  row_job :: uuid
  row_device :: uuid
  row_session :: uuid
  row_source_key :: string
  row_captured :: timestamp
  row_columns :: document_columns

record parser_row =
  parser_key :: uuid
  parser_row_name :: string
  parser_row_version :: string
  parser_build :: string
  parser_protocol :: string

text \<open>
  A version keeps the parsed document: its columns, the JSON columns and the rows of
  \<^verbatim>\<open>document_lines\<close> and \<^verbatim>\<open>payments\<close> are the fields of \<open>ver_value\<close>.
\<close>

record version_row =
  ver_key :: uuid
  ver_document :: uuid
  ver_parser :: uuid
  ver_raw :: "uuid option"
  ver_number :: nat
  ver_value :: document
  ver_scope :: string
  ver_chain :: nat
  ver_previous :: string
  ver_hash :: string

record event_row =
  ev_job :: uuid
  ev_kind :: string
  ev_build :: string
  ev_time :: timestamp
  ev_error :: string
  ev_attempt :: nat
  ev_retry :: bool

record store =
  jobs :: "job_row list"
  devices :: "device_row list"
  sessions :: "(uuid \<times> string) list"
  raws :: "raw_row list"
  document_rows :: "document_row list"
  parser_rows :: "parser_row list"
  versions :: "version_row list"
  parser_events :: "event_row list"
  next_key :: nat

record store_env =
  build_sha :: "string \<Rightarrow> string"
  fresh_key :: "nat \<Rightarrow> uuid"
  key_text :: "uuid \<Rightarrow> string"
  dump_document :: "document \<Rightarrow> jval"
  store_sha256 :: "bytes \<Rightarrow> digest"

text \<open>
  What a step of the worker raises: the two kinds \<^verbatim>\<open>run_once\<close> handles, and \<^verbatim>\<open>ArithmeticError\<close> (\<^verbatim>\<open>decimal\<close>'s
  \<^verbatim>\<open>InvalidOperation\<close>, \<^verbatim>\<open>OverflowError\<close>), which it does not.
\<close>

datatype worker_error = RepositoryError string | ValueError string | ArithmeticError

definition escpos_name :: string where "escpos_name = ''retailprintguard-escpos''"

section \<open>The queue\<close>

definition with_status :: "uuid \<Rightarrow> string \<Rightarrow> store \<Rightarrow> store" where
  "with_status k s db = db\<lparr>jobs := map (\<lambda>j. if job_key j = k then j\<lparr>job_status := s\<rparr> else j) (jobs db)\<rparr>"

definition job_of :: "store \<Rightarrow> uuid \<Rightarrow> job_row option" where
  "job_of db k = List.find (\<lambda>j. job_key j = k) (jobs db)"

definition device_of :: "store \<Rightarrow> uuid \<Rightarrow> device_row option" where
  "device_of db k = List.find (\<lambda>d. device_key d = k) (devices db)"

definition document_exists :: "store \<Rightarrow> uuid \<Rightarrow> bool" where
  "document_exists db k = list_ex (\<lambda>r. row_job r = k) (document_rows db)"

definition raw_exists :: "store \<Rightarrow> uuid \<Rightarrow> bool" where
  "raw_exists db k = list_ex (\<lambda>r. raw_job r = k \<and> raw_role r = ''REQUEST_RAW'') (raws db)"

text \<open>A version of the job by the current build of a parser.\<close>

definition version_exists :: "store_env \<Rightarrow> store \<Rightarrow> string \<Rightarrow> uuid \<Rightarrow> bool" where
  "version_exists e db name k = list_ex (\<lambda>r. row_job r = k \<and> list_ex (\<lambda>v. ver_document v = row_key r \<and>
     list_ex (\<lambda>p. parser_key p = ver_parser v \<and> parser_row_name p = name \<and> parser_build p = build_sha e name) (parser_rows db))
       (versions db)) (document_rows db)"

definition current_builds :: "store_env \<Rightarrow> string set" where
  "current_builds e = {build_sha e escpos_name, build_sha e parser_name_text}"

definition empty_exists :: "store_env \<Rightarrow> store \<Rightarrow> uuid \<Rightarrow> bool" where
  "empty_exists e db k = list_ex (\<lambda>x. ev_job x = k \<and> ev_kind x = ''PARSER_NO_DOCUMENTS'' \<and> ev_build x \<in> current_builds e)
     (parser_events db)"

definition current_processed :: "store_env \<Rightarrow> store \<Rightarrow> job_row \<Rightarrow> bool" where
  "current_processed e db j = (case device_of db (job_device_key j) of None \<Rightarrow> False
    | Some d \<Rightarrow> device_parser d = ''escpos'' \<and> version_exists e db escpos_name (job_key j)
        \<or> device_parser d = ''rch_observed'' \<and> version_exists e db parser_name_text (job_key j)
        \<or> empty_exists e db (job_key j))"

definition waiting :: "bool \<Rightarrow> string \<Rightarrow> bool" where
  "waiting reparse s = (s \<in> set (if reparse then [''IMPORTED'', ''PARSE_RETRY'', ''PARSED'', ''PARSE_EMPTY'', ''PARSE_FAILED'']
     else [''IMPORTED'', ''PARSE_RETRY'']))"

definition is_candidate :: "store_env \<Rightarrow> store \<Rightarrow> bool \<Rightarrow> job_row \<Rightarrow> bool" where
  "is_candidate e db reparse j = (waiting reparse (job_status j) \<and> raw_exists db (job_key j) \<and> device_of db (job_device_key j) \<noteq> None \<and>
     (if reparse then \<not> current_processed e db j else \<not> document_exists db (job_key j)))"

definition job_order :: "job_row \<Rightarrow> timestamp \<times> uuid" where
  "job_order j = (job_captured_at j, job_key j)"

definition candidates :: "store_env \<Rightarrow> store \<Rightarrow> nat \<Rightarrow> bool \<Rightarrow> job_row list" where
  "candidates e db limit reparse = take (if reparse then limit else min 10000 (limit * 8))
     (sort_key job_order (filter (is_candidate e db reparse) (jobs db)))"

definition failures :: "store_env \<Rightarrow> store \<Rightarrow> uuid \<Rightarrow> event_row list" where
  "failures e db k = filter (\<lambda>x. ev_job x = k \<and> ev_kind x = ''PARSER_FAILED'' \<and> ev_build x \<in> current_builds e) (parser_events db)"

definition backoff_seconds :: "nat \<Rightarrow> nat" where
  "backoff_seconds attempts = min 3600 (5 * 2 ^ min (attempts - 1) 10)"

definition in_backoff :: "store_env \<Rightarrow> store \<Rightarrow> timestamp \<Rightarrow> uuid \<Rightarrow> bool" where
  "in_backoff e db now k = (let fs = failures e db k in
     if fs = [] then False
     else now < Max (set (map ev_time fs)) + int (backoff_seconds (length fs)) * microsecond)"

definition pending_jobs :: "store_env \<Rightarrow> timestamp \<Rightarrow> nat \<Rightarrow> bool \<Rightarrow> store \<Rightarrow> worker_error + uuid list" where
  "pending_jobs e now limit reparse db =
     (if limit < 1 \<or> 10000 < limit then Inl (ValueError ''parser batch limit must be between 1 and 10000'')
      else Inr (take limit (filter (\<lambda>k. reparse \<or> \<not> in_backoff e db now k) (map job_key (candidates e db limit reparse)))))"

section \<open>Loading a job\<close>

record job_source =
  src_job :: uuid
  src_source_job :: string
  src_session :: string
  src_device :: string
  src_kind :: string
  src_captured :: timestamp
  src_manifest :: string
  src_request_path :: string
  src_response_path :: "string option"
  src_request :: bytes
  src_response :: bytes
  src_status :: string

text \<open>\<^verbatim>\<open>by_role\<close>: of several payloads with one role the last in the chain order.\<close>

definition role_payload :: "raw_row list \<Rightarrow> string \<Rightarrow> raw_row option" where
  "role_payload rs role = (case filter (\<lambda>r. raw_role r = role) (sort_key raw_sequence rs) of [] \<Rightarrow> None | ps \<Rightarrow> Some (last ps))"

definition job_raws :: "store \<Rightarrow> uuid \<Rightarrow> raw_row list" where
  "job_raws db k = filter (\<lambda>r. raw_job r = k) (raws db)"

definition authentic :: "store_env \<Rightarrow> raw_row \<Rightarrow> bool" where
  "authentic e r = (hexdigest (store_sha256 e (raw_payload r)) = raw_sha r)"

definition load_job :: "store_env \<Rightarrow> store \<Rightarrow> uuid \<Rightarrow> worker_error + job_source option" where
  "load_job e db k = (case job_of db k of None \<Rightarrow> Inr None
    | Some j \<Rightarrow> (case (device_of db (job_device_key j), map_of (sessions db) (job_session_key j)) of
        (Some d, Some s) \<Rightarrow> (case role_payload (job_raws db k) ''REQUEST_RAW'' of
            None \<Rightarrow> Inl (RepositoryError ''parser job has no authoritative request RAW'')
          | Some q \<Rightarrow> (let p = role_payload (job_raws db k) ''RESPONSE_RAW'' in
              if \<not> authentic e q then Inl (RepositoryError ''request RAW hash differs from imported evidence'')
              else if p \<noteq> None \<and> \<not> authentic e (the p)
              then Inl (RepositoryError ''response RAW hash differs from imported evidence'')
              else Inr (Some \<lparr>src_job = k, src_source_job = job_source j, src_session = s, src_device = device_external d,
                src_kind = device_parser d, src_captured = job_captured_at j, src_manifest = job_manifest_sha j,
                src_request_path = raw_path q, src_response_path = map_option raw_path p, src_request = raw_payload q,
                src_response = (case p of None \<Rightarrow> [] | Some r \<Rightarrow> raw_payload r), src_status = job_status j\<rparr>)))
      | _ \<Rightarrow> Inl (RepositoryError ''parser job has missing device/session evidence'')))"

section \<open>Storing documents\<close>

definition columns_of :: "document \<Rightarrow> document_columns" where
  "columns_of d = \<lparr>col_type = doc_type d, col_subtype = subtype d, col_code = external_document_code d,
     col_suffix = external_document_code_suffix d, col_reference = commercial_reference_code d, col_order = order_code d,
     col_table = table_code d, col_operator = operator_code d, col_terminal = terminal_code d, col_header = header d,
     col_application = application_timestamp d, col_footer = rch_footer_timestamp d, col_serial = rch_serial_number d,
     col_timestamp = document_timestamp d\<rparr>"

text \<open>A new primary key; one that a row of the tables already has violates its uniqueness.\<close>

definition taken :: "store \<Rightarrow> uuid \<Rightarrow> bool" where
  "taken db k = (k \<in> set (map row_key (document_rows db) @ map parser_key (parser_rows db) @ map ver_key (versions db)))"

definition new_key :: "store_env \<Rightarrow> store \<Rightarrow> worker_error + uuid \<times> store" where
  "new_key e db = (let k = fresh_key e (next_key db) in
     if taken db k then Inl (RepositoryError ''parser output conflicts with existing evidence'')
     else Inr (k, db\<lparr>next_key := next_key db + 1\<rparr>))"

definition find_document :: "store \<Rightarrow> uuid \<Rightarrow> string \<Rightarrow> document_row option" where
  "find_document db job key = List.find (\<lambda>r. row_job r = job \<and> row_source_key r = key) (document_rows db)"

definition ensure_document :: "store_env \<Rightarrow> job_row \<Rightarrow> document \<Rightarrow> store \<Rightarrow> worker_error + document_row \<times> store" where
  "ensure_document e j d db = (case find_document db (job_key j) (key_text e (doc_id d)) of
      Some r \<Rightarrow> Inr (r, db)
    | None \<Rightarrow> attempt (new_key e db) (\<lambda>(k, db1).
        let r = \<lparr>row_key = k, row_job = job_key j, row_device = job_device_key j, row_session = job_session_key j,
              row_source_key = key_text e (doc_id d), row_captured = captured_at d, row_columns = columns_of d\<rparr>
        in Inr (r, db1\<lparr>document_rows := document_rows db1 @ [r]\<rparr>)))"

definition find_parser :: "store_env \<Rightarrow> store \<Rightarrow> document \<Rightarrow> parser_row option" where
  "find_parser e db d = List.find (\<lambda>p. parser_row_name p = parser_name d \<and> parser_row_version p = parser_version d
     \<and> parser_build p = build_sha e (parser_name d)) (parser_rows db)"

definition ensure_parser :: "store_env \<Rightarrow> device_row \<Rightarrow> document \<Rightarrow> store \<Rightarrow> worker_error + parser_row \<times> store" where
  "ensure_parser e dv d db = (if parser_name d \<notin> {escpos_name, parser_name_text}
     then Inl (RepositoryError (''unknown parser implementation: '' @ parser_name d))
     else case find_parser e db d of
      Some p \<Rightarrow> Inr (p, db)
    | None \<Rightarrow> attempt (new_key e db) (\<lambda>(k, db1).
        let p = \<lparr>parser_key = k, parser_row_name = parser_name d, parser_row_version = parser_version d,
              parser_build = build_sha e (parser_name d), parser_protocol = device_parser dv\<rparr>
        in Inr (p, db1\<lparr>parser_rows := parser_rows db1 @ [p]\<rparr>)))"

definition version_known :: "store \<Rightarrow> uuid \<Rightarrow> uuid \<Rightarrow> string \<Rightarrow> bool" where
  "version_known db doc parser sha = list_ex (\<lambda>v. ver_document v = doc \<and> ver_parser v = parser
     \<and> source_payload_sha256 (ver_value v) = sha) (versions db)"

definition scope_of :: "store_env \<Rightarrow> uuid \<Rightarrow> string" where
  "scope_of e k = ''document:'' @ key_text e k"

definition chain_of :: "store \<Rightarrow> string \<Rightarrow> version_row list" where
  "chain_of db s = filter (\<lambda>v. ver_scope v = s) (versions db)"

definition max_nat :: "nat list \<Rightarrow> nat" where
  "max_nat xs = fold max xs 0"

text \<open>The hash of the last record of the chain, or the zero hash.\<close>

definition last_hash :: "store \<Rightarrow> string \<Rightarrow> string" where
  "last_hash db s = (case sort_key ver_chain (chain_of db s) of [] \<Rightarrow> zero_hash
     | vs \<Rightarrow> if ver_hash (last vs) = [] then zero_hash else ver_hash (last vs))"

definition version_record :: "store_env \<Rightarrow> uuid \<Rightarrow> nat \<Rightarrow> document \<Rightarrow> string \<Rightarrow> metadata" where
  "version_record e k n d previous = [(''document_id'', JStr (key_text e k)), (''version_sequence'', JInt (int n)),
     (''parser'', JStr (parser_name d @ '':'' @ parser_version d)), (''source_payload_sha256'', JStr (source_payload_sha256 d)),
     (''normalized'', dump_document e d), (''previous_hash'', JStr previous)]"

text \<open>The stored payload a version refers to: the one with its digest, else the request.\<close>

definition raw_for :: "store \<Rightarrow> uuid \<Rightarrow> string \<Rightarrow> uuid option" where
  "raw_for db job sha = (case filter (\<lambda>r. raw_sha r = sha) (job_raws db job) of
      [] \<Rightarrow> map_option raw_key (List.find (\<lambda>r. raw_role r = ''REQUEST_RAW'') (job_raws db job))
    | rs \<Rightarrow> Some (raw_key (last rs)))"

definition store_version :: "store_env \<Rightarrow> job_row \<Rightarrow> document_row \<Rightarrow> parser_row \<Rightarrow> document \<Rightarrow> store \<Rightarrow> worker_error + store" where
  "store_version e j r p d db =
     (let s = scope_of e (row_key r); previous = last_hash db s;
          n = max_nat (map ver_number (filter (\<lambda>v. ver_document v = row_key r) (versions db))) + 1;
          c = max_nat (map ver_chain (chain_of db s)) + 1
      in case chained_hash (store_sha256 e) (version_record e (row_key r) n d previous) (Some previous) of
           Inl _ \<Rightarrow> Inl (ValueError ''previous_hash is not a SHA-256 digest'')
         | Inr h \<Rightarrow> attempt (new_key e db) (\<lambda>(k, db1).
             let v = \<lparr>ver_key = k, ver_document = row_key r, ver_parser = parser_key p,
                   ver_raw = raw_for db (job_key j) (source_payload_sha256 d), ver_number = n, ver_value = d,
                   ver_scope = s, ver_chain = c, ver_previous = previous, ver_hash = h\<rparr>
             in Inr (db1\<lparr>versions := versions db1 @ [v],
                  document_rows := map (\<lambda>x. if row_key x = row_key r then x\<lparr>row_columns := columns_of d\<rparr> else x) (document_rows db1)\<rparr>)))"

definition store_one :: "store_env \<Rightarrow> job_row \<Rightarrow> device_row \<Rightarrow> document \<Rightarrow> store \<times> nat \<Rightarrow> worker_error + store \<times> nat" where
  "store_one e j dv d acc = (case acc of (db, n) \<Rightarrow>
     attempt (ensure_document e j d db) (\<lambda>(r, db1). attempt (ensure_parser e dv d db1) (\<lambda>(p, db2).
       if version_known db2 (row_key r) (parser_key p) (source_payload_sha256 d) then Inr (db2, n)
       else attempt (store_version e j r p d db2) (\<lambda>db3. Inr (db3, n + 1)))))"

definition build_of_kind :: "store_env \<Rightarrow> string \<Rightarrow> string" where
  "build_of_kind e kind = build_sha e (if kind = ''escpos'' then escpos_name else parser_name_text)"

definition no_documents_event :: "store_env \<Rightarrow> job_row \<Rightarrow> device_row \<Rightarrow> timestamp \<Rightarrow> event_row" where
  "no_documents_event e j dv now = \<lparr>ev_job = job_key j, ev_kind = ''PARSER_NO_DOCUMENTS'',
     ev_build = build_of_kind e (device_parser dv), ev_time = now, ev_error = [], ev_attempt = 0, ev_retry = False\<rparr>"

definition store_documents :: "store_env \<Rightarrow> timestamp \<Rightarrow> uuid \<Rightarrow> document list \<Rightarrow> store \<Rightarrow> worker_error + store \<times> nat" where
  "store_documents e now k docs db = (case job_of db k of
      None \<Rightarrow> Inl (RepositoryError ''parser job disappeared'')
    | Some j \<Rightarrow> (case device_of db (job_device_key j) of
        None \<Rightarrow> Inl (RepositoryError ''parser device disappeared'')
      | Some dv \<Rightarrow> attempt (attempt_all (store_one e j dv) docs (db, 0)) (\<lambda>(db1, n).
          let db2 = with_status k (if docs = [] then ''PARSE_EMPTY'' else ''PARSED'') db1
          in Inr (if docs = [] then db2\<lparr>parser_events := parser_events db2 @ [no_documents_event e j dv now]\<rparr> else db2, n))))"

section \<open>Failures\<close>

definition record_failure :: "store_env \<Rightarrow> timestamp \<Rightarrow> uuid \<Rightarrow> string \<Rightarrow> store \<Rightarrow> store" where
  "record_failure e now k message db = (case job_of db k of None \<Rightarrow> db
    | Some j \<Rightarrow> (let kind = (case device_of db (job_device_key j) of None \<Rightarrow> [] | Some d \<Rightarrow> device_parser d);
          build = build_of_kind e kind;
          attempts = length (filter (\<lambda>x. ev_job x = k \<and> ev_kind x = ''PARSER_FAILED'' \<and> ev_build x = build) (parser_events db)) + 1
        in (with_status k (if 8 \<le> attempts then ''PARSE_FAILED'' else ''PARSE_RETRY'') db)\<lparr>
             parser_events := parser_events db @ [\<lparr>ev_job = k, ev_kind = ''PARSER_FAILED'', ev_build = build, ev_time = now,
               ev_error = take 4096 message, ev_attempt = attempts, ev_retry = (attempts < 8)\<rparr>]\<rparr>))"

section \<open>The chain of a document\<close>

definition stored_record :: "store_env \<Rightarrow> version_row \<Rightarrow> metadata" where
  "stored_record e v = version_record e (ver_document v) (ver_number v) (ver_value v) (ver_previous v)
     @ [(''record_hash'', JStr (ver_hash v))]"

text \<open>
  The versions in a scope verify as a chain of records, are numbered in the order they were written,
  and belong to the document the scope is named after.
\<close>

definition chain_ok :: "store_env \<Rightarrow> store \<Rightarrow> string \<Rightarrow> bool" where
  "chain_ok e db s \<longleftrightarrow> (let vs = chain_of db s in
     verify_chain (store_sha256 e) (map (stored_record e) vs) = Inr True \<and> map ver_chain vs = [1..<length vs + 1] \<and>
     (\<forall>v \<in> set vs. s = scope_of e (ver_document v)))"

definition chains_ok :: "store_env \<Rightarrow> store \<Rightarrow> bool" where
  "chains_ok e db \<longleftrightarrow> (\<forall>s. chain_ok e db s)"

lemma chain_extends:
  assumes "verify_chain sha256 recs = Inr True" and "get body ''previous_hash'' = JStr (or_zero_hash (chain_head recs))"
    and "\<forall>x \<in> set body. fst x \<noteq> ''record_hash''" and "chained_hash sha256 body (Some (or_zero_hash (chain_head recs))) = Inr h"
  shows "verify_chain sha256 (recs @ [body @ [(''record_hash'', JStr h)]]) = Inr True"
proof -
  let ?r = "body @ [(''record_hash'', JStr h)]"
  from chain_head_digest [OF assms(1)] obtain d where d: "or_zero_hash (chain_head recs) = hexdigest d" ..
  have zero: "or_zero_hash None = hexdigest 0" by (simp add: or_zero_hash_def zero_hash_digest)
  have pay: "payload body = body" "entry_of ?r = entry_of body" "map_of body ''record_hash'' = None"
    using assms(3) by (auto simp: payload_def entry_of_def filter_id_conv map_of_eq_None_iff)
  have h: "h = hexdigest (sha256 (record_input d (entry_of body)))"
    using chained_hash_digest [OF or_zero_hash_digest [of d], of sha256 body] assms(4) by (simp add: pay d)
  have fields: "get ?r ''previous_hash'' = JStr (hexdigest d)" "get ?r ''record_hash'' = JStr h"
    using assms(2) pay(3) by (auto simp: get_def map_add_def d split: option.splits)
  then have "verify_from sha256 (chain_head recs) [?r] = Inr True"
    unfolding verify_from_Cons [OF d] fields pay(2) h [symmetric] by simp
  then show ?thesis
    using verify_from_append [OF zero assms(1) [unfolded verify_chain_def], of ?r]
    by (auto simp: verify_chain_def chain_head_def split: if_splits)
qed

lemma max_nat_upt: "max_nat [1..<Suc n] = n"
proof -
  have "fold max [1..<Suc n] a = max a n" for a
    by (induction n arbitrary: a) auto
  then show ?thesis by (simp add: max_nat_def)
qed

lemma sort_key_sorted: "sorted (map f xs) \<Longrightarrow> sort_key f xs = xs"
proof (induction xs)
  case (Cons x xs)
  then show ?case by (cases xs) simp_all
qed simp

lemma last_hash_head:
  assumes "chain_ok e db s"
  shows "last_hash db s = or_zero_hash (chain_head (map (stored_record e) (chain_of db s)))"
proof -
  let ?vs = "chain_of db s"
  have "map ver_chain ?vs = [1..<length ?vs + 1]" using assms by (simp add: chain_ok_def Let_def)
  then have "sorted (map ver_chain ?vs)" by (simp only: sorted_upt)
  then have sorted: "sort_key ver_chain ?vs = ?vs" by (rule sort_key_sorted)
  have "get (stored_record e v) ''record_hash'' = JStr (ver_hash v)" for v
    by (simp add: stored_record_def version_record_def get_def)
  then show ?thesis
    unfolding last_hash_def sorted by (cases ?vs) (simp_all add: chain_head_def or_zero_hash_def last_map py_str_def)
qed

text \<open>What the operations leave alone.\<close>

lemma new_key_same:
  "new_key e db = Inr (k, db1) \<Longrightarrow> versions db1 = versions db \<and> document_rows db1 = document_rows db
    \<and> parser_rows db1 = parser_rows db \<and> \<not> taken db k"
  by (auto simp: new_key_def Let_def split: if_splits)

lemma ensure_document_same: "ensure_document e j d db = Inr (r, db1) \<Longrightarrow> versions db1 = versions db"
  by (auto simp: ensure_document_def Let_def attempt_eq_Inr dest: new_key_same split: option.splits)

lemma ensure_parser_same:
  "ensure_parser e dv d db = Inr (p, db1) \<Longrightarrow> versions db1 = versions db \<and> document_rows db1 = document_rows db"
  by (auto simp: ensure_parser_def Let_def attempt_eq_Inr dest: new_key_same split: option.splits if_splits)

lemma chains_ok_cong: "versions db1 = versions db \<Longrightarrow> chains_ok e db1 = chains_ok e db"
  by (simp add: chains_ok_def chain_ok_def chain_of_def)

lemma store_version_row:
  assumes "store_version e j r p d db = Inr db1"
  shows "\<exists>v. versions db1 = versions db @ [v] \<and> ver_document v = row_key r \<and> ver_parser v = parser_key p \<and> ver_value v = d \<and>
    ver_scope v = scope_of e (row_key r) \<and> ver_chain v = max_nat (map ver_chain (chain_of db (ver_scope v))) + 1 \<and>
    ver_previous v = last_hash db (ver_scope v) \<and>
    chained_hash (store_sha256 e) (version_record e (row_key r) (ver_number v) d (ver_previous v)) (Some (ver_previous v)) = Inr (ver_hash v)"
  using assms by (auto simp: store_version_def Let_def attempt_eq_Inr dest!: new_key_same split: sum.splits)

lemma store_version_chains:
  assumes "store_version e j r p d db = Inr db1" and "chains_ok e db"
  shows "chains_ok e db1"
proof -
  from store_version_row [OF assms(1)] obtain v where v: "versions db1 = versions db @ [v]" "ver_document v = row_key r"
    "ver_value v = d" "ver_scope v = scope_of e (row_key r)" "ver_chain v = max_nat (map ver_chain (chain_of db (ver_scope v))) + 1"
    "ver_previous v = last_hash db (ver_scope v)"
    "chained_hash (store_sha256 e) (version_record e (row_key r) (ver_number v) d (ver_previous v)) (Some (ver_previous v)) = Inr (ver_hash v)"
    by blast
  have "chain_ok e db1 s" for s
  proof (cases "s = ver_scope v")
    case False
    then have "chain_of db1 s = chain_of db s" by (simp add: chain_of_def v(1))
    then show ?thesis using assms(2) by (simp add: chains_ok_def chain_ok_def)
  next
    case True
    let ?vs = "chain_of db s" and ?sha = "store_sha256 e"
    have ok: "chain_ok e db s" using assms(2) by (simp add: chains_ok_def)
    then have old: "verify_chain ?sha (map (stored_record e) ?vs) = Inr True" "map ver_chain ?vs = [1..<length ?vs + 1]"
      "\<forall>v \<in> set ?vs. s = scope_of e (ver_document v)"
      by (simp_all add: chain_ok_def Let_def)
    have chain: "chain_of db1 s = ?vs @ [v]" by (simp add: chain_of_def v(1) True)
    have number: "ver_chain v = length ?vs + 1" using old(2) max_nat_upt by (simp add: v(5) True)
    let ?body = "version_record e (row_key r) (ver_number v) d (ver_previous v)"
    have head: "ver_previous v = or_zero_hash (chain_head (map (stored_record e) ?vs))"
      using last_hash_head [OF ok] by (simp add: v(6) True)
    have "verify_chain ?sha (map (stored_record e) ?vs @ [?body @ [(''record_hash'', JStr (ver_hash v))]]) = Inr True"
    proof (rule chain_extends [OF old(1)])
      show "get ?body ''previous_hash'' = JStr (or_zero_hash (chain_head (map (stored_record e) ?vs)))"
        by (simp add: version_record_def get_def head)
      show "chained_hash ?sha ?body (Some (or_zero_hash (chain_head (map (stored_record e) ?vs)))) = Inr (ver_hash v)"
        using v(7) unfolding head .
    qed (simp add: version_record_def)
    moreover have "stored_record e v = ?body @ [(''record_hash'', JStr (ver_hash v))]" by (simp add: stored_record_def v)
    ultimately have "verify_chain ?sha (map (stored_record e) (?vs @ [v])) = Inr True" by simp
    moreover have "map ver_chain (?vs @ [v]) = [1..<length (?vs @ [v]) + 1]" using old(2) number by simp
    moreover have "\<forall>x \<in> set (?vs @ [v]). s = scope_of e (ver_document x)" using old(3) True v(2,4) by simp
    ultimately show ?thesis by (simp only: chain_ok_def Let_def chain simp_thms)
  qed
  then show ?thesis by (simp add: chains_ok_def)
qed

lemma store_one_chains:
  assumes "store_one e j dv d (db, n) = Inr (db1, m)" and "chains_ok e db"
  shows "chains_ok e db1"
proof -
  from assms(1) obtain r db2 p db3 where r: "ensure_document e j d db = Inr (r, db2)" and p: "ensure_parser e dv d db2 = Inr (p, db3)"
    and v: "db1 = db3 \<or> store_version e j r p d db3 = Inr db1"
    by (auto simp: store_one_def attempt_eq_Inr split: if_splits)
  have "chains_ok e db3"
    using assms(2) ensure_document_same [OF r] ensure_parser_same [OF p] chains_ok_cong [of db3 db] by simp
  with v store_version_chains show ?thesis by blast
qed

lemma with_status_same [simp]:
  "versions (with_status k s db) = versions db" "document_rows (with_status k s db) = document_rows db"
  "parser_rows (with_status k s db) = parser_rows db" "parser_events (with_status k s db) = parser_events db"
  by (simp_all add: with_status_def)

lemma store_documents_loop:
  assumes "store_documents e now k docs db = Inr (db', n)"
  shows "\<exists>j dv db1. job_of db k = Some j \<and> device_of db (job_device_key j) = Some dv \<and>
    attempt_all (store_one e j dv) docs (db, 0) = Inr (db1, n) \<and> versions db' = versions db1 \<and>
    document_rows db' = document_rows db1 \<and> parser_rows db' = parser_rows db1"
  using assms by (auto simp: store_documents_def attempt_eq_Inr Let_def split: option.splits prod.splits if_splits)

lemma store_documents_chains:
  assumes "store_documents e now k docs db = Inr (db', n)" and "chains_ok e db"
  shows "chains_ok e db'"
proof -
  from store_documents_loop [OF assms(1)] obtain j dv db1 where
    run: "attempt_all (store_one e j dv) docs (db, 0) = Inr (db1, n)" and same: "versions db' = versions db1" by blast
  have "chains_ok e (fst (db1, n))"
    using run
  proof (rule attempt_all_keeps [where P = "\<lambda>x. chains_ok e (fst x)"])
    fix d :: document and acc acc' :: "store \<times> nat"
    assume "chains_ok e (fst acc)" and "store_one e j dv d acc = Inr acc'"
    then show "chains_ok e (fst acc')" by (cases acc; cases acc') (simp add: store_one_chains)
  qed (simp add: assms(2))
  with same chains_ok_cong [of db' db1] show ?thesis by simp
qed

lemma record_failure_same [simp]:
  "versions (record_failure e now k m db) = versions db" "document_rows (record_failure e now k m db) = document_rows db"
  "parser_rows (record_failure e now k m db) = parser_rows db"
  by (auto simp: record_failure_def Let_def split: option.split)

lemma record_failure_chains: "chains_ok e (record_failure e now k m db) = chains_ok e db"
  by (rule chains_ok_cong) simp

section \<open>Versions are only appended\<close>

definition versions_grow :: "store \<Rightarrow> store \<Rightarrow> bool" where
  "versions_grow db db' \<longleftrightarrow> (\<exists>more. versions db' = versions db @ more)"

lemma versions_grow_refl [simp]: "versions_grow db db"
  by (simp add: versions_grow_def)

lemma versions_grow_trans: "versions_grow a b \<Longrightarrow> versions_grow b c \<Longrightarrow> versions_grow a c"
  by (auto simp: versions_grow_def)

lemma store_one_grows:
  assumes "store_one e j dv d (db, n) = Inr (db1, m)"
  shows "versions_grow db db1"
proof -
  from assms obtain r db2 p db3 where r: "ensure_document e j d db = Inr (r, db2)" and p: "ensure_parser e dv d db2 = Inr (p, db3)"
    and v: "db1 = db3 \<or> store_version e j r p d db3 = Inr db1"
    by (auto simp: store_one_def attempt_eq_Inr split: if_splits)
  have "versions db3 = versions db" using ensure_document_same [OF r] ensure_parser_same [OF p] by simp
  then show ?thesis using v by (auto simp: versions_grow_def dest: store_version_row)
qed

lemma store_documents_grows:
  assumes "store_documents e now k docs db = Inr (db', n)"
  shows "versions_grow db db'"
proof -
  from store_documents_loop [OF assms] obtain j dv db1 where
    run: "attempt_all (store_one e j dv) docs (db, 0) = Inr (db1, n)" and same: "versions db' = versions db1" by blast
  have "versions_grow db (fst (db1, n))"
    using run
  proof (rule attempt_all_keeps [where P = "\<lambda>x. versions_grow db (fst x)"])
    fix d :: document and acc acc' :: "store \<times> nat"
    assume grown: "versions_grow db (fst acc)" and "store_one e j dv d acc = Inr acc'"
    then have "versions_grow (fst acc) (fst acc')" by (cases acc; cases acc') (simp add: store_one_grows)
    with grown show "versions_grow db (fst acc')" by (rule versions_grow_trans)
  qed simp
  then show ?thesis by (simp add: versions_grow_def same)
qed

section \<open>Storing again changes nothing\<close>

text \<open>
  What storing documents keeps: the queue, and every row of a document (by its key, job and source key),
  of a parser and of a version.
\<close>

definition row_id :: "document_row \<Rightarrow> uuid \<times> uuid \<times> string" where
  "row_id r = (row_key r, row_job r, row_source_key r)"

definition keeps_rows :: "store \<Rightarrow> store \<Rightarrow> bool" where
  "keeps_rows db db1 \<longleftrightarrow> jobs db1 = jobs db \<and> devices db1 = devices db \<and> raws db1 = raws db \<and>
     parser_events db1 = parser_events db \<and> versions_grow db db1 \<and>
     (\<exists>more. map row_id (document_rows db1) = map row_id (document_rows db) @ more) \<and>
     (\<exists>more. parser_rows db1 = parser_rows db @ more)"

lemma keeps_rows_refl [simp]: "keeps_rows db db"
  by (simp add: keeps_rows_def)

lemma keeps_rows_trans:
  assumes "keeps_rows a b" and "keeps_rows b c"
  shows "keeps_rows a c"
  using assms versions_grow_trans [of a b c] by (auto simp: keeps_rows_def)

lemma find_same_ids:
  assumes "map g ys = map g xs @ zs" and "\<And>x y. g x = g y \<Longrightarrow> P x = P y" and "List.find P xs = Some x"
  shows "\<exists>y. List.find P ys = Some y \<and> g y = g x"
  using assms
proof (induction xs arbitrary: ys)
  case (Cons a xs)
  from Cons.prems(1) obtain c ys' where ys: "ys = c # ys'" "g c = g a" "map g ys' = map g xs @ zs" by (auto simp: map_eq_Cons_conv)
  have same: "P c = P a" by (rule Cons.prems(2) [OF ys(2)])
  show ?case
  proof (cases "P a")
    case False
    with Cons.prems(3) have "List.find P xs = Some x" by simp
    from Cons.IH [OF ys(3) Cons.prems(2) this] False show ?thesis by (simp add: ys(1) same)
  qed (use Cons.prems(3) same ys in simp)
qed simp

lemma keeps_document:
  assumes "keeps_rows db db1" and "find_document db job key = Some r"
  shows "\<exists>r1. find_document db1 job key = Some r1 \<and> row_key r1 = row_key r"
proof -
  from assms(1) obtain zs where "map row_id (document_rows db1) = map row_id (document_rows db) @ zs" by (auto simp: keeps_rows_def)
  from find_same_ids [OF this _ assms(2) [unfolded find_document_def]] show ?thesis
    by (auto simp: row_id_def find_document_def)
qed

lemma find_append: "List.find P (xs @ ys) = (case List.find P xs of None \<Rightarrow> List.find P ys | Some x \<Rightarrow> Some x)"
  by (induction xs) auto

lemma keeps_parser: "keeps_rows db db1 \<Longrightarrow> find_parser e db d = Some p \<Longrightarrow> find_parser e db1 d = Some p"
  by (auto simp: keeps_rows_def find_parser_def find_append)

lemma keeps_version:
  "keeps_rows db db1 \<Longrightarrow> version_known db k p sha \<Longrightarrow> version_known db1 k p sha"
  by (auto simp: keeps_rows_def versions_grow_def version_known_def)

lemma new_key_keeps: "new_key e db = Inr (k, db1) \<Longrightarrow> keeps_rows db db1"
  by (auto simp: new_key_def Let_def keeps_rows_def versions_grow_def split: if_splits)

lemma add_document_keeps: "keeps_rows db (db\<lparr>document_rows := document_rows db @ [r]\<rparr>)"
  by (simp add: keeps_rows_def versions_grow_def)

lemma add_parser_keeps: "keeps_rows db (db\<lparr>parser_rows := parser_rows db @ [p]\<rparr>)"
  by (simp add: keeps_rows_def versions_grow_def)

lemma add_version_keeps:
  "keeps_rows db (db\<lparr>versions := versions db @ [v],
     document_rows := map (\<lambda>x. if row_key x = k then x\<lparr>row_columns := c\<rparr> else x) (document_rows db)\<rparr>)"
proof -
  have "row_id (if row_key x = k then x\<lparr>row_columns := c\<rparr> else x) = row_id x" for x by (simp add: row_id_def)
  then show ?thesis by (simp add: keeps_rows_def versions_grow_def comp_def)
qed

lemma ensure_document_keeps:
  assumes "ensure_document e j d db = Inr (r, db1)"
  shows "keeps_rows db db1 \<and> find_document db1 (job_key j) (key_text e (doc_id d)) = Some r"
proof (cases "find_document db (job_key j) (key_text e (doc_id d))")
  case None
  with assms obtain k db2 where k: "new_key e db = Inr (k, db2)" "db1 = db2\<lparr>document_rows := document_rows db2 @ [r]\<rparr>"
    "row_job r = job_key j" "row_source_key r = key_text e (doc_id d)"
    by (auto simp: ensure_document_def Let_def attempt_eq_Inr)
  have "document_rows db2 = document_rows db" using new_key_same [OF k(1)] by simp
  with None k keeps_rows_trans [OF new_key_keeps [OF k(1)] add_document_keeps] show ?thesis
    by (simp add: find_document_def find_append)
qed (use assms in \<open>simp add: ensure_document_def\<close>)

lemma ensure_parser_keeps:
  assumes "ensure_parser e dv d db = Inr (p, db1)"
  shows "keeps_rows db db1 \<and> find_parser e db1 d = Some p \<and> parser_name d \<in> {escpos_name, parser_name_text}"
proof (cases "find_parser e db d")
  case None
  with assms obtain k db2 where k: "new_key e db = Inr (k, db2)" "db1 = db2\<lparr>parser_rows := parser_rows db2 @ [p]\<rparr>"
    "parser_row_name p = parser_name d" "parser_row_version p = parser_version d" "parser_build p = build_sha e (parser_name d)"
    by (auto simp: ensure_parser_def Let_def attempt_eq_Inr split: if_splits)
  have "parser_rows db2 = parser_rows db" using new_key_same [OF k(1)] by simp
  with None k assms keeps_rows_trans [OF new_key_keeps [OF k(1)] add_parser_keeps] show ?thesis
    by (auto simp: find_parser_def find_append ensure_parser_def split: if_splits)
qed (use assms in \<open>simp add: ensure_parser_def split: if_splits\<close>)

lemma store_version_keeps:
  assumes "store_version e j r p d db = Inr db1"
  shows "keeps_rows db db1"
proof -
  from assms obtain k db2 v where k: "new_key e db = Inr (k, db2)" and db1: "db1 = db2\<lparr>versions := versions db2 @ [v],
     document_rows := map (\<lambda>x. if row_key x = row_key r then x\<lparr>row_columns := columns_of d\<rparr> else x) (document_rows db2)\<rparr>"
    by (auto simp: store_version_def Let_def attempt_eq_Inr split: sum.splits)
  show ?thesis unfolding db1 by (rule keeps_rows_trans [OF new_key_keeps [OF k] add_version_keeps])
qed

text \<open>A document the store has in the version of the current build.\<close>

definition settled :: "store_env \<Rightarrow> job_row \<Rightarrow> document \<Rightarrow> store \<Rightarrow> bool" where
  "settled e j d db \<longleftrightarrow> (\<exists>r p. find_document db (job_key j) (key_text e (doc_id d)) = Some r \<and> find_parser e db d = Some p \<and>
     parser_name d \<in> {escpos_name, parser_name_text} \<and> version_known db (row_key r) (parser_key p) (source_payload_sha256 d))"

lemma settled_keeps:
  assumes "settled e j d db" and "keeps_rows db db1"
  shows "settled e j d db1"
proof -
  from assms(1) obtain r p where r: "find_document db (job_key j) (key_text e (doc_id d)) = Some r" "find_parser e db d = Some p"
    "parser_name d \<in> {escpos_name, parser_name_text}" "version_known db (row_key r) (parser_key p) (source_payload_sha256 d)"
    by (auto simp: settled_def)
  from keeps_document [OF assms(2) r(1)] obtain r1
    where r1: "find_document db1 (job_key j) (key_text e (doc_id d)) = Some r1" "row_key r1 = row_key r" by blast
  have "version_known db1 (row_key r1) (parser_key p) (source_payload_sha256 d)"
    unfolding r1(2) by (rule keeps_version [OF assms(2) r(4)])
  with r1(1) keeps_parser [OF assms(2) r(2)] r(3) show ?thesis unfolding settled_def by blast
qed

lemma store_one_settles:
  assumes "store_one e j dv d (db, n) = Inr (db1, m)"
  shows "keeps_rows db db1 \<and> settled e j d db1"
proof -
  from assms obtain r db2 p db3 where r: "ensure_document e j d db = Inr (r, db2)" and p: "ensure_parser e dv d db2 = Inr (p, db3)"
    and v: "db1 = db3 \<and> version_known db3 (row_key r) (parser_key p) (source_payload_sha256 d) \<or> store_version e j r p d db3 = Inr db1"
    by (auto simp: store_one_def attempt_eq_Inr split: if_splits)
  note r' = ensure_document_keeps [OF r] and p' = ensure_parser_keeps [OF p]
  have before: "keeps_rows db db3" using keeps_rows_trans r' p' by blast
  from keeps_document [OF conjunct1 [OF p'] conjunct2 [OF r']] obtain r3
    where r3: "find_document db3 (job_key j) (key_text e (doc_id d)) = Some r3" "row_key r3 = row_key r" by blast
  show ?thesis
  proof (cases "db1 = db3 \<and> version_known db3 (row_key r) (parser_key p) (source_payload_sha256 d)")
    case True
    have "settled e j d db1" unfolding settled_def using True r3 p' by auto
    with before True show ?thesis by simp
  next
    case False
    with v have new: "store_version e j r p d db3 = Inr db1" by blast
    from store_version_row [OF new] have known: "version_known db1 (row_key r) (parser_key p) (source_payload_sha256 d)"
      by (auto simp: version_known_def)
    note after = store_version_keeps [OF new]
    from keeps_document [OF after r3(1)] obtain r4
      where r4: "find_document db1 (job_key j) (key_text e (doc_id d)) = Some r4" "row_key r4 = row_key r3" by blast
    have "settled e j d db1"
      unfolding settled_def using r4 r3(2) known p' keeps_parser [OF after, of e d p] by auto
    with keeps_rows_trans [OF before after] show ?thesis by blast
  qed
qed

lemma settled_again: "settled e j d db \<Longrightarrow> store_one e j dv d (db, n) = Inr (db, n)"
  by (auto simp: settled_def store_one_def ensure_document_def ensure_parser_def)

lemma attempt_all_settled: "\<forall>d \<in> set docs. settled e j d db \<Longrightarrow> attempt_all (store_one e j dv) docs (db, n) = Inr (db, n)"
  by (induction docs) (simp_all add: settled_again)

lemma loop_settles:
  assumes "attempt_all (store_one e j dv) docs (db, n) = Inr (db1, m)"
  shows "keeps_rows db db1 \<and> (\<forall>d \<in> set docs. settled e j d db1)"
proof -
  have "keeps_rows db (fst (db1, m)) \<and> (\<forall>d \<in> set docs. settled e j d (fst (db1, m)))"
    using assms
  proof (rule attempt_all_invariant [rotated 2, where P = "\<lambda>ds acc. keeps_rows db (fst acc) \<and> (\<forall>d \<in> set ds. settled e j d (fst acc))"])
    fix ys :: "document list" and d and acc acc' :: "store \<times> nat"
    assume old: "keeps_rows db (fst acc) \<and> (\<forall>d \<in> set ys. settled e j d (fst acc))" and "store_one e j dv d acc = Inr acc'"
    then have new: "keeps_rows (fst acc) (fst acc') \<and> settled e j d (fst acc')"
      by (cases acc; cases acc') (simp add: store_one_settles)
    with old have "keeps_rows db (fst acc')" using keeps_rows_trans by blast
    with old new settled_keeps show "keeps_rows db (fst acc') \<and> (\<forall>d \<in> set (ys @ [d]). settled e j d (fst acc'))" by auto
  qed simp
  then show ?thesis by simp
qed

lemma find_key: "List.find P xs = Some x \<Longrightarrow> P x"
  by (auto simp: find_Some_iff)

lemma find_update: "List.find P (map (\<lambda>x. if P x then f x else x) xs) = map_option f (List.find P xs)" if "\<And>x. P x \<Longrightarrow> P (f x)"
  using that by (induction xs) simp_all

lemma job_of_with_status: "job_of (with_status k s db) k = map_option (\<lambda>j. j\<lparr>job_status := s\<rparr>) (job_of db k)"
  by (simp add: job_of_def with_status_def find_update)

lemma with_status_again: "with_status k s (with_status k s db) = with_status k s db"
  by (simp add: with_status_def)

lemma same_queue:
  assumes "jobs db1 = jobs db" and "devices db1 = devices db"
  shows "job_of db1 = job_of db" and "device_of db1 = device_of db"
  using assms by (simp_all add: job_of_def device_of_def fun_eq_iff)

lemma device_of_with_status [simp]: "device_of (with_status k s db) = device_of db"
  by (simp add: device_of_def with_status_def fun_eq_iff)

lemma settled_job: "job_key j1 = job_key j \<Longrightarrow> settled e j1 d db = settled e j d db"
  by (simp add: settled_def)

lemma settled_with_status [simp]: "settled e j d (with_status k s db) = settled e j d db"
  by (simp add: settled_def find_document_def find_parser_def version_known_def)

text \<open>
  Storing is idempotent. Documents that were stored can be stored again, by a worker that lost its
  connection after the commit for instance: the second run inserts nothing and leaves every table as it
  is.
\<close>

theorem store_idempotent:
  assumes "store_documents e now k docs db = Inr (db1, n)" and "docs \<noteq> []"
  shows "store_documents e later k docs db1 = Inr (db1, 0)"
proof -
  from assms obtain j dv db2 where j: "job_of db k = Some j" and dv: "device_of db (job_device_key j) = Some dv"
    and run: "attempt_all (store_one e j dv) docs (db, 0) = Inr (db2, n)" and db1: "db1 = with_status k ''PARSED'' db2"
    by (auto simp: store_documents_def attempt_eq_Inr Let_def split: option.splits prod.splits)
  from loop_settles [OF run] have same: "jobs db2 = jobs db" "devices db2 = devices db" and settled: "\<forall>d \<in> set docs. settled e j d db2"
    by (simp_all add: keeps_rows_def)
  let ?j = "j\<lparr>job_status := ''PARSED''\<rparr>"
  have "job_of db1 k = Some ?j" by (simp add: db1 job_of_with_status same_queue [OF same] j)
  moreover have "device_of db1 (job_device_key ?j) = Some dv" by (simp add: db1 same_queue [OF same] dv)
  moreover have "\<forall>d \<in> set docs. settled e ?j d db1" using settled by (simp add: db1 settled_job [of ?j j])
  then have "attempt_all (store_one e ?j dv) docs (db1, 0) = Inr (db1, 0)" by (rule attempt_all_settled)
  ultimately show ?thesis using assms(2) by (simp add: store_documents_def Let_def db1 with_status_again)
qed

section \<open>An example\<close>

definition example_store_env :: store_env where
  "example_store_env = \<lparr>build_sha = (\<lambda>name. name), fresh_key = (\<lambda>n. of_nat (n + 100)), key_text = (\<lambda>k. if k = 0 then ''0'' else ''1''),
     dump_document = (\<lambda>d. JNull), store_sha256 = (\<lambda>b. 0)\<rparr>"

definition queued_job :: job_row where
  "queued_job = \<lparr>job_key = 1, job_device_key = 2, job_session_key = 3, job_source = ''job'', job_captured_at = 0,
     job_manifest_sha = replicate 64 (CHR ''a''), job_status = ''IMPORTED''\<rparr>"

definition example_raw :: "bytes \<Rightarrow> raw_row" where
  "example_raw bs = \<lparr>raw_key = 4, raw_job = 1, raw_role = ''REQUEST_RAW'', raw_sha = replicate 64 (CHR ''0''),
     raw_payload = bs, raw_path = ''spool/job/request.raw'', raw_sequence = 1\<rparr>"

text \<open>One imported job of an RCH device, with the given request.\<close>

definition example_store :: "bytes \<Rightarrow> store" where
  "example_store bs = \<lparr>jobs = [queued_job], devices = [\<lparr>device_key = 2, device_external = ''rch-1'', device_parser = ''rch_observed''\<rparr>],
     sessions = [(3, ''session'')], raws = [example_raw bs], document_rows = [], parser_rows = [], versions = [],
     parser_events = [], next_key = 0\<rparr>"

definition example_parsed :: document where
  "example_parsed = blank_document\<lparr>parser_name := parser_name_text, parser_version := parser_version_text\<rparr>"

lemmas example_simps = example_store_env_def queued_job_def example_raw_def example_store_def

lemma zero_hash_ok: "sha256_hex zero_hash = Inr zero_hash"
  by code_simp

lemma example_stored: "\<exists>db1. store_documents example_store_env 5 1 [example_parsed] (example_store []) = Inr (db1, 1)"
proof -
  have "map_sum id snd (store_documents example_store_env 5 1 [example_parsed] (example_store [])) = Inr 1" by code_simp
  then show ?thesis by (auto simp: map_sum_Inr)
qed

theorem store_idempotent_witness:
  "\<exists>db1. store_documents example_store_env 5 1 [example_parsed] (example_store []) = Inr (db1, 1) \<and>
     store_documents example_store_env 9 1 [example_parsed] db1 = Inr (db1, 0)"
  using example_stored store_idempotent [of example_store_env 5 1 "[example_parsed]" "example_store []"] by blast

end
