(* ===== verification/ParserQueue.thy ===== *)
theory ParserQueue imports ParserStore begin

text \<open>
  What the queue of \<^verbatim>\<open>pending_jobs\<close> promises: a job that failed waits for its backoff and is given up
  after eight failures, a reparse takes up what the automatic runs gave up and stops once the current
  build has been stored.
\<close>

section \<open>Selection\<close>

definition selects :: "store_env \<Rightarrow> timestamp \<Rightarrow> nat \<Rightarrow> bool \<Rightarrow> store \<Rightarrow> uuid \<Rightarrow> bool" where
  "selects e now limit reparse db k = (case pending_jobs e now limit reparse db of Inl _ \<Rightarrow> False | Inr ks \<Rightarrow> k \<in> set ks)"

lemma selects_candidate:
  assumes "selects e now limit reparse db k"
  obtains j where "j \<in> set (jobs db)" "job_key j = k" "is_candidate e db reparse j" "reparse \<or> \<not> in_backoff e db now k"
  using assms by (auto simp: selects_def pending_jobs_def candidates_def dest!: in_set_takeD split: sum.splits if_splits)

lemma take_all_filtered: "length xs \<le> n \<Longrightarrow> take n (filter P xs) = filter P xs"
  using le_trans [OF length_filter_le] by simp

lemma reparse_selects:
  assumes "j \<in> set (jobs db)" and "is_candidate e db True j" and "length (jobs db) \<le> limit" and "limit \<le> 10000"
  shows "selects e now limit True db (job_key j)"
proof -
  have "0 < length (jobs db)" using assms(1) by (rule length_pos_if_in_set)
  then have "0 < limit" using assms(3) by linarith
  moreover have "candidates e db limit True = sort_key job_order (filter (is_candidate e db True) (jobs db))"
    using le_trans [OF length_filter_le assms(3)] by (simp add: candidates_def)
  moreover have "length (sort_key job_order (filter (is_candidate e db True) (jobs db))) \<le> limit"
    using le_trans [OF length_filter_le assms(3)] by simp
  ultimately show ?thesis using assms by (auto simp: selects_def pending_jobs_def)
qed

section \<open>Failures\<close>

lemma same_tables [simp]:
  "devices (with_status k s db) = devices db" "raws (with_status k s db) = raws db" "sessions (with_status k s db) = sessions db"
  by (simp_all add: with_status_def)

lemma in_backoff_bound:
  assumes "x \<in> set (failures e db k)" and "a \<le> length (failures e db k)" and "\<not> in_backoff e db t k"
  shows "ev_time x + int (backoff_seconds a) * microsecond \<le> t"
proof -
  have "failures e db k \<noteq> []" using assms(1) by auto
  with assms(3) have "Max (set (map ev_time (failures e db k))) + int (backoff_seconds (length (failures e db k))) * microsecond \<le> t"
    by (simp add: in_backoff_def Let_def)
  moreover have "ev_time x \<le> Max (set (map ev_time (failures e db k)))" using assms(1) by (intro Max_ge) auto
  moreover have "(2::nat) ^ min (a - 1) 10 \<le> 2 ^ min (length (failures e db k) - 1) 10"
    using assms(2) by (intro power_increasing) auto
  then have "backoff_seconds a \<le> backoff_seconds (length (failures e db k))"
    unfolding backoff_seconds_def by (intro min.mono) simp_all
  then have "int (backoff_seconds a) * microsecond \<le> int (backoff_seconds (length (failures e db k))) * microsecond"
    by (intro mult_right_mono) (simp_all add: microsecond_def)
  ultimately show ?thesis by linarith
qed

definition failures_by :: "string \<Rightarrow> store \<Rightarrow> uuid \<Rightarrow> event_row list" where
  "failures_by build db k = filter (\<lambda>x. ev_job x = k \<and> ev_kind x = ''PARSER_FAILED'' \<and> ev_build x = build) (parser_events db)"

lemma length_filter_weaker: "(\<And>x. P x \<Longrightarrow> Q x) \<Longrightarrow> length (filter P xs) \<le> length (filter Q xs)"
  by (induction xs) (simp_all add: le_SucI)

lemma failures_by_le: "build \<in> current_builds e \<Longrightarrow> length (failures_by build db k) \<le> length (failures e db k)"
  by (auto simp: failures_by_def failures_def intro: length_filter_weaker)

text \<open>The build the failures of a job are recorded under.\<close>

definition job_build :: "store_env \<Rightarrow> store \<Rightarrow> job_row \<Rightarrow> string" where
  "job_build e db j = build_of_kind e (case device_of db (job_device_key j) of None \<Rightarrow> [] | Some d \<Rightarrow> device_parser d)"

lemma job_build_current: "job_build e db j \<in> current_builds e"
  by (simp add: job_build_def build_of_kind_def current_builds_def)

lemma record_failure_job:
  assumes "job_of db k = Some j" and "a = length (failures_by (job_build e db j) db k) + 1"
  shows "record_failure e now k m db = (with_status k (if 8 \<le> a then ''PARSE_FAILED'' else ''PARSE_RETRY'') db)\<lparr>
    parser_events := parser_events db @ [\<lparr>ev_job = k, ev_kind = ''PARSER_FAILED'', ev_build = job_build e db j, ev_time = now,
      ev_error = take 4096 m, ev_attempt = a, ev_retry = (a < 8)\<rparr>]\<rparr>"
  using assms by (simp add: record_failure_def Let_def failures_by_def job_build_def)

lemma statuses: "job_status j = s" if "j \<in> set (jobs (with_status k s db))" "job_key j = k"
proof -
  have "j \<in> (\<lambda>i. if job_key i = k then i\<lparr>job_status := s\<rparr> else i) ` set (jobs db)" using that(1) by (simp add: with_status_def)
  with that(2) show ?thesis by (elim imageE) (auto split: if_splits)
qed

lemma status_row:
  assumes "j \<in> set (jobs (with_status k s db))"
  shows "\<exists>i \<in> set (jobs db). job_key i = job_key j \<and> job_device_key i = job_device_key j"
proof -
  have "j \<in> (\<lambda>i. if job_key i = k then i\<lparr>job_status := s\<rparr> else i) ` set (jobs db)" using assms by (simp add: with_status_def)
  then show ?thesis by (elim imageE) (auto split: if_splits)
qed

text \<open>
  A failed job is retried on an exponential schedule and then quarantined. After the failure that is
  the \<open>a\<close>-th of the current build, the automatic runs select the job only when \<open>a\<close> is below eight and
  5, 10, 20, ... seconds (never more than an hour) have passed.
\<close>

theorem retries_back_off:
  assumes "job_of db k = Some j" and "a = ev_attempt (last (parser_events (record_failure e now k m db)))"
    and "selects e t limit False (record_failure e now k m db) k"
  shows "a < 8 \<and> now + int (min 3600 (5 * 2 ^ (a - 1))) * microsecond \<le> t"
proof -
  let ?db = "record_failure e now k m db"
  let ?a = "length (failures_by (job_build e db j) db k) + 1"
  note db1 = record_failure_job [OF assms(1) refl, of e now m]
  have a: "a = ?a" using assms(2) by (simp add: db1)
  from selects_candidate [OF assms(3)] obtain i where i: "i \<in> set (jobs ?db)" "job_key i = k" "is_candidate e ?db False i"
    "\<not> in_backoff e ?db t k" by blast
  then have "job_status i = (if 8 \<le> ?a then ''PARSE_FAILED'' else ''PARSE_RETRY'')"
    by (intro statuses [of i k]) (simp_all add: db1)
  with i(3) have small: "a < 8" by (simp add: a is_candidate_def waiting_def split: if_splits)
  have "failures e ?db k = failures e db k @ [last (parser_events ?db)]" and time: "ev_time (last (parser_events ?db)) = now"
    by (simp_all add: db1 failures_def job_build_current)
  then have now: "last (parser_events ?db) \<in> set (failures e ?db k)" and "length (failures e ?db k) = length (failures e db k) + 1"
    by simp_all
  then have "a \<le> length (failures e ?db k)" using failures_by_le [OF job_build_current] by (simp add: a)
  from in_backoff_bound [OF now this i(4)] have "now + int (backoff_seconds a) * microsecond \<le> t" by (simp only: time)
  moreover have "min (a - 1) 10 = a - 1" using small by simp
  ultimately show ?thesis using small by (simp add: backoff_seconds_def)
qed

text \<open>Several failures in a row.\<close>

definition record_failures :: "store_env \<Rightarrow> uuid \<Rightarrow> (timestamp \<times> string) list \<Rightarrow> store \<Rightarrow> store" where
  "record_failures e k fs db = fold (\<lambda>(t, m). record_failure e t k m) fs db"

lemma job_build_after: "job_build e (record_failure e now k m db) (j\<lparr>job_status := s\<rparr>) = job_build e db j"
proof -
  have "devices (record_failure e now k m db) = devices db" by (simp add: record_failure_def Let_def split: option.split)
  then have "device_of (record_failure e now k m db) = device_of db" by (simp add: device_of_def fun_eq_iff)
  then show ?thesis by (simp add: job_build_def)
qed

lemma record_failure_tables:
  "devices (record_failure e now k m db) = devices db" "raws (record_failure e now k m db) = raws db"
  by (simp_all add: record_failure_def Let_def split: option.split)

lemma record_failures_tables:
  "devices (record_failures e k fs db) = devices db" "raws (record_failures e k fs db) = raws db"
  by (induction fs arbitrary: db) (simp_all add: record_failures_def record_failure_tables split_def)

lemma current_processed_failure: "current_processed e (record_failure e now k m db) j = current_processed e db j"
proof -
  have "device_of (record_failure e now k m db) = device_of db" by (simp add: fun_eq_iff device_of_def record_failure_tables)
  moreover have "version_exists e (record_failure e now k m db) = version_exists e db" by (simp add: fun_eq_iff version_exists_def)
  moreover have "empty_exists e (record_failure e now k m db) = empty_exists e db"
    by (simp add: fun_eq_iff empty_exists_def record_failure_def Let_def split: option.split)
  ultimately show ?thesis by (simp add: current_processed_def cong: option.case_cong)
qed

lemma current_processed_failures: "current_processed e (record_failures e k fs db) j = current_processed e db j"
  by (induction fs arbitrary: db) (simp_all add: record_failures_def split_def current_processed_failure)

lemma record_failures_jobs:
  assumes "job_of db k = Some j" and "fs \<noteq> []"
  shows "jobs (record_failures e k fs db) = jobs (with_status k
    (if 8 \<le> length (failures_by (job_build e db j) db k) + length fs then ''PARSE_FAILED'' else ''PARSE_RETRY'') db)"
  using assms
proof (induction fs arbitrary: db j)
  case (Cons f fs)
  obtain t m where f: "f = (t, m)" by (cases f)
  let ?db = "record_failure e t k m db" and ?a = "length (failures_by (job_build e db j) db k) + 1"
  note db1 = record_failure_job [OF Cons.prems(1) refl, of e t m]
  have run: "record_failures e k (f # fs) db = record_failures e k fs ?db" by (simp add: record_failures_def f)
  have jobs1: "jobs ?db = jobs (with_status k (if 8 \<le> ?a then ''PARSE_FAILED'' else ''PARSE_RETRY'') db)" by (simp add: db1)
  show ?case
  proof (cases "fs = []")
    case True
    then show ?thesis unfolding run using jobs1 by (simp add: record_failures_def)
  next
    case False
    obtain s where j1: "job_of ?db k = Some (j\<lparr>job_status := s\<rparr>)"
      using job_of_with_status [of k _ db] Cons.prems(1) jobs1 by (simp add: job_of_def)
    have "length (failures_by (job_build e db j) ?db k) = ?a" by (simp add: db1 failures_by_def)
    moreover have "jobs (with_status k s ?db) = jobs (with_status k s db)" for s
      using with_status_again [of k s] jobs1 by (simp add: with_status_def comp_def)
    ultimately show ?thesis
      using Cons.IH [OF j1 False] unfolding run job_build_after by (simp only: length_Cons add_Suc_right add_Suc Suc_eq_plus1 add.assoc add.commute [of 1])
  qed
qed simp

text \<open>
  A job that failed eight times in a row is given up by the automatic runs, at every later time;
  the operator's reparse takes it up at once, in spite of the backoff, as long as the current build has
  not stored a result for it.
\<close>

theorem quarantine_and_recovery:
  assumes "job_of db k = Some j" and "8 \<le> length fs"
  shows "\<not> selects e t limit False (record_failures e k fs db) k \<and>
    (raw_exists db k \<longrightarrow> device_of db (job_device_key j) \<noteq> None \<longrightarrow> \<not> current_processed e db j \<longrightarrow>
     length (jobs db) \<le> limit \<longrightarrow> limit \<le> 10000 \<longrightarrow> selects e t limit True (record_failures e k fs db) k)"
proof -
  let ?db = "record_failures e k fs db" and ?j = "j\<lparr>job_status := ''PARSE_FAILED''\<rparr>"
  from assms(2) have "fs \<noteq> []" by auto
  from record_failures_jobs [OF assms(1) this] assms(2)
  have jobs1: "jobs ?db = jobs (with_status k ''PARSE_FAILED'' db)" by simp
  have "\<not> selects e t limit False ?db k"
  proof
    assume "selects e t limit False ?db k"
    then obtain i where i: "i \<in> set (jobs ?db)" "job_key i = k" "is_candidate e ?db False i" by (rule selects_candidate) blast
    then have "job_status i = ''PARSE_FAILED''" by (intro statuses [of i k]) (simp_all add: jobs1)
    with i(3) show False by (simp add: is_candidate_def waiting_def)
  qed
  moreover have "selects e t limit True ?db k"
    if "raw_exists db k" "device_of db (job_device_key j) \<noteq> None" "\<not> current_processed e db j" "length (jobs db) \<le> limit" "limit \<le> 10000"
  proof -
    have k: "job_key j = k" "j \<in> set (jobs db)" using assms(1) by (auto simp: job_of_def find_Some_iff)
    then have "?j \<in> set (jobs ?db)" by (auto simp: jobs1 with_status_def image_iff)
    moreover have processed_j: "\<not> current_processed e ?db ?j"
      using that(3) current_processed_failures [of e k fs db j] by (simp add: current_processed_def cong: option.case_cong)
    moreover have "is_candidate e ?db True ?j"
      using that k by (simp add: is_candidate_def waiting_def raw_exists_def device_of_def record_failures_tables processed_j)
    moreover have "length (jobs ?db) \<le> limit" using that by (simp add: jobs1 with_status_def)
    ultimately show ?thesis using reparse_selects [of ?j ?db e limit t] that(5) k(1) by simp
  qed
  ultimately show ?thesis by blast
qed

section \<open>Reparsing\<close>

text \<open>The current build has stored a result for the job.\<close>

definition processed :: "store_env \<Rightarrow> uuid \<Rightarrow> store \<Rightarrow> bool" where
  "processed e k db \<longleftrightarrow> (\<forall>j \<in> set (jobs db). job_key j = k \<longrightarrow> current_processed e db j)"

lemma processed_not_selected: "processed e k db \<Longrightarrow> \<not> selects e t limit True db k"
  by (auto simp: processed_def is_candidate_def elim!: selects_candidate)

lemma version_existsI:
  assumes "r \<in> set (document_rows db)" and "row_job r = k" and "v \<in> set (versions db)" and "ver_document v = row_key r"
    and "p \<in> set (parser_rows db)" and "parser_key p = ver_parser v" and "parser_row_name p = name" and "parser_build p = build_sha e name"
  shows "version_exists e db name k"
  unfolding version_exists_def list_ex_iff using assms by blast

lemma keeps_version_exists:
  assumes "keeps_rows db db1" and "version_exists e db name k"
  shows "version_exists e db1 name k"
proof -
  from assms(2) obtain r v p where r: "r \<in> set (document_rows db)" "row_job r = k" and v: "v \<in> set (versions db)" "ver_document v = row_key r"
    and p: "p \<in> set (parser_rows db)" "parser_key p = ver_parser v" "parser_row_name p = name" "parser_build p = build_sha e name"
    by (auto simp: version_exists_def list_ex_iff)
  from assms(1) obtain more where "map row_id (document_rows db1) = map row_id (document_rows db) @ more" by (auto simp: keeps_rows_def)
  then have "row_id r \<in> set (map row_id (document_rows db1))" using r(1) by simp
  then obtain r1 where "r1 \<in> set (document_rows db1)" "row_key r1 = row_key r" "row_job r1 = row_job r" by (auto simp: row_id_def)
  moreover have "v \<in> set (versions db1)" "p \<in> set (parser_rows db1)" using assms(1) v(1) p(1) by (auto simp: keeps_rows_def versions_grow_def)
  ultimately show ?thesis using r v p by (metis version_existsI)
qed

text \<open>Storing and failing set the status of a job, never back to \<^verbatim>\<open>IMPORTED\<close>, and append to the tables.\<close>

definition advances :: "store \<Rightarrow> store \<Rightarrow> bool" where
  "advances db db1 \<longleftrightarrow> (\<exists>db2 k s evs. keeps_rows db db2 \<and> s \<noteq> ''IMPORTED'' \<and> db1 = (with_status k s db2)\<lparr>parser_events := parser_events db2 @ evs\<rparr>)"

lemma store_documents_run:
  assumes "store_documents e now k docs db = Inr (db1, n)"
  obtains j dv db2 where "job_of db k = Some j" "device_of db (job_device_key j) = Some dv"
    "attempt_all (store_one e j dv) docs (db, 0) = Inr (db2, n)"
    "db1 = (with_status k (if docs = [] then ''PARSE_EMPTY'' else ''PARSED'') db2)\<lparr>parser_events :=
      parser_events db2 @ (if docs = [] then [no_documents_event e j dv now] else [])\<rparr>"
  using assms by (auto simp: store_documents_def attempt_eq_Inr Let_def split: option.splits prod.splits if_splits)

lemma store_documents_advances:
  assumes "store_documents e now k docs db = Inr (db1, n)"
  shows "advances db db1"
  using assms
proof (rule store_documents_run)
  fix j dv db2
  assume "attempt_all (store_one e j dv) docs (db, 0) = Inr (db2, n)" and
    "db1 = (with_status k (if docs = [] then ''PARSE_EMPTY'' else ''PARSED'') db2)\<lparr>parser_events :=
      parser_events db2 @ (if docs = [] then [no_documents_event e j dv now] else [])\<rparr>"
  moreover have "(if docs = [] then ''PARSE_EMPTY'' else ''PARSED'') \<noteq> ''IMPORTED''" by simp
  ultimately show ?thesis using loop_settles unfolding advances_def by blast
qed

lemma record_failure_advances: "advances db (record_failure e now k m db)"
proof (cases "job_of db k")
  case None
  then have "jobs (with_status k [] db) = jobs db"
    by (auto simp: with_status_def job_of_def find_None_iff intro: map_idI)
  then have "record_failure e now k m db = (with_status k [] db)\<lparr>parser_events := parser_events db @ []\<rparr>"
    using None by (simp add: record_failure_def with_status_def)
  then show ?thesis unfolding advances_def using keeps_rows_refl by (intro exI [of _ db]) blast
next
  case (Some j)
  have "(if 8 \<le> a then ''PARSE_FAILED'' else ''PARSE_RETRY'') \<noteq> ''IMPORTED''" for a :: nat by simp
  then show ?thesis unfolding advances_def record_failure_job [OF Some refl] using keeps_rows_refl by blast
qed

lemma advances_processed:
  assumes "advances db db1" and "processed e k db"
  shows "processed e k db1"
  unfolding processed_def
proof (intro ballI impI)
  fix j1 assume j1: "j1 \<in> set (jobs db1)" "job_key j1 = k"
  from assms(1) obtain db2 k' s evs where kept: "keeps_rows db db2"
    and db1: "db1 = (with_status k' s db2)\<lparr>parser_events := parser_events db2 @ evs\<rparr>" by (auto simp: advances_def)
  from j1(1) kept obtain j where j: "j \<in> set (jobs db)" "j1 = (if job_key j = k' then j\<lparr>job_status := s\<rparr> else j)"
    by (auto simp: db1 with_status_def keeps_rows_def)
  then have same: "job_key j = k" "job_device_key j1 = job_device_key j" using j1(2) by (simp_all split: if_splits)
  have tables: "devices db1 = devices db" using kept by (simp add: db1 with_status_def keeps_rows_def)
  have "version_exists e db1 name k" if "version_exists e db name k" for name
    using keeps_version_exists [OF kept that] by (simp add: db1 version_exists_def)
  moreover have "empty_exists e db1 k" if "empty_exists e db k"
    using that kept by (simp add: db1 empty_exists_def keeps_rows_def)
  moreover have "current_processed e db j" using assms(2) j(1) same(1) by (simp add: processed_def)
  ultimately show "current_processed e db1 j1"
    using tables same by (auto simp: current_processed_def device_of_def j1(2) split: option.splits)
qed

text \<open>The name of the parser of a device.\<close>

definition kind_parser :: "string \<Rightarrow> string" where
  "kind_parser kind = (if kind = ''escpos'' then escpos_name else parser_name_text)"

lemma settled_version:
  assumes "settled e j d db"
  shows "version_exists e db (parser_name d) (job_key j)"
proof -
  from assms obtain r p where r: "find_document db (job_key j) (key_text e (doc_id d)) = Some r" and p: "find_parser e db d = Some p"
    and v: "version_known db (row_key r) (parser_key p) (source_payload_sha256 d)" by (auto simp: settled_def)
  from r have "r \<in> set (document_rows db)" "row_job r = job_key j" by (auto simp: find_document_def find_Some_iff)
  moreover from p have "p \<in> set (parser_rows db)" "parser_row_name p = parser_name d" "parser_build p = build_sha e (parser_name d)"
    by (auto simp: find_parser_def find_Some_iff)
  moreover from v obtain x where "x \<in> set (versions db)" "ver_document x = row_key r" "ver_parser x = parser_key p"
    by (auto simp: version_known_def list_ex_iff)
  ultimately show ?thesis by (intro version_existsI [of r db _ x p]) simp_all
qed

lemma store_documents_processed:
  assumes "store_documents e now k docs db = Inr (db1, n)" and "distinct (map job_key (jobs db))"
    and "job_of db k = Some j" and "device_of db (job_device_key j) = Some dv" and "device_parser dv \<in> {''escpos'', ''rch_observed''}"
    and "\<forall>d \<in> set docs. parser_name d = kind_parser (device_parser dv)"
  shows "processed e k db1"
  unfolding processed_def
proof (intro ballI impI)
  fix j1 assume j1: "j1 \<in> set (jobs db1)" "job_key j1 = k"
  let ?s = "if docs = [] then ''PARSE_EMPTY'' else ''PARSED''"
  obtain db2 where run: "attempt_all (store_one e j dv) docs (db, 0) = Inr (db2, n)" and
    db1: "db1 = (with_status k ?s db2)\<lparr>parser_events := parser_events db2 @ (if docs = [] then [no_documents_event e j dv now] else [])\<rparr>"
    by (rule store_documents_run [OF assms(1)]) (use assms(3,4) in simp)
  from loop_settles [OF run] have kept: "keeps_rows db db2" and settled: "\<forall>d \<in> set docs. settled e j d db2" by blast+
  have j: "j \<in> set (jobs db)" "job_key j = k" using assms(3) by (auto simp: job_of_def find_Some_iff)
  have "jobs db2 = jobs db" using kept by (simp add: keeps_rows_def)
  with status_row [of j1 k ?s db2] j1 obtain i where i: "i \<in> set (jobs db)" "job_key i = k" "job_device_key j1 = job_device_key i"
    by (force simp: db1)
  then have "i = j" using assms(2) j by (simp add: distinct_map inj_on_def)
  moreover have "devices db1 = devices db" using kept by (simp add: db1 with_status_def keeps_rows_def)
  ultimately have dv: "device_of db1 (job_device_key j1) = Some dv" using assms(4) i(3) by (simp add: device_of_def)
  show "current_processed e db1 j1"
  proof (cases docs)
    case Nil
    then have "empty_exists e db1 k"
      by (simp add: empty_exists_def db1 no_documents_event_def j(2) build_of_kind_def current_builds_def)
    then show ?thesis by (simp add: current_processed_def dv j1(2))
  next
    case (Cons d ds)
    then have "version_exists e db2 (parser_name d) k" using settled_version [of e j d db2] settled j(2) by simp
    moreover have "version_exists e db1 = version_exists e db2" by (simp add: fun_eq_iff version_exists_def db1)
    ultimately show ?thesis using assms(5,6) Cons by (auto simp: current_processed_def dv kind_parser_def j1(2))
  qed
qed

section \<open>Examples\<close>

abbreviation "failing_store \<equiv> record_failure example_store_env 0 1 ''ValueError'' (example_store [])"

lemma failing_store: "failing_store = (example_store [])\<lparr>jobs := [queued_job\<lparr>job_status := ''PARSE_RETRY''\<rparr>],
  parser_events := [\<lparr>ev_job = 1, ev_kind = ''PARSER_FAILED'', ev_build = parser_name_text, ev_time = 0, ev_error = ''ValueError'',
    ev_attempt = 1, ev_retry = True\<rparr>]\<rparr>"
  by (simp add: record_failure_def Let_def job_of_def device_of_def example_simps with_status_def build_of_kind_def)

lemma failing_store_selected: "selects example_store_env (5 * microsecond) 1 False failing_store 1"
  unfolding failing_store
  by (simp add: selects_def pending_jobs_def candidates_def is_candidate_def waiting_def raw_exists_def device_of_def
      document_exists_def in_backoff_def failures_def backoff_seconds_def current_builds_def example_simps)

theorem retries_back_off_witness:
  "selects example_store_env (5 * microsecond) 1 False failing_store 1 \<and>
   (1 :: nat) < 8 \<and> 0 + int (min 3600 (5 * 2 ^ (1 - 1))) * microsecond \<le> 5 * microsecond"
  using retries_back_off [OF _ _ failing_store_selected, of queued_job 1] failing_store_selected
  unfolding failing_store by (simp add: job_of_def example_simps)

definition failing_times :: "(timestamp \<times> string) list" where
  "failing_times = map (\<lambda>n. (int n, ''ValueError'')) [0..<8]"

theorem quarantine_and_recovery_witness:
  "\<not> selects example_store_env 4000000000 1 False (record_failures example_store_env 1 failing_times (example_store [])) 1 \<and>
   selects example_store_env 8 1 True (record_failures example_store_env 1 failing_times (example_store [])) 1"
proof -
  have j: "job_of (example_store []) 1 = Some queued_job" by (simp add: job_of_def example_simps)
  have eight: "8 \<le> length failing_times" by (simp add: failing_times_def)
  have "\<not> current_processed example_store_env (example_store []) queued_job"
    by (simp add: current_processed_def version_exists_def empty_exists_def device_of_def example_simps)
  moreover have "raw_exists (example_store []) 1" "device_of (example_store []) (job_device_key queued_job) \<noteq> None"
    "length (jobs (example_store [])) \<le> 1" "(1 :: nat) \<le> 10000"
    by (simp_all add: raw_exists_def device_of_def example_simps)
  moreover note quarantine_and_recovery [OF j eight, of example_store_env 4000000000 1] quarantine_and_recovery [OF j eight, of example_store_env 8 1]
  ultimately show ?thesis by blast
qed

end
