(* ===== verification/EscBytes.thy ===== *)
theory EscBytes imports RchText Frames begin

text \<open>
  The byte level of \<^verbatim>\<open>parser/escpos.py\<close>: the documents a cut separates (\<^verbatim>\<open>_segments\<close>), the text between the
  control sequences with its place in the capture (\<^verbatim>\<open>_extract_lines\<close>), and the images that are put
  together from strips of \<^verbatim>\<open>ESC *\<close>. The code pages are a parameter, \<open>decode name bytes\<close>, whose result is a
  text of the Latin-1 repertoire, or \<open>None\<close> where the strict decoding raises.
\<close>

section \<open>Bytes\<close>

definition esc_limit :: nat where "esc_limit = 16 * 1024 * 1024"
definition max_output_chars :: nat where "max_output_chars = 4000000"
definition max_segments :: nat where "max_segments = 1024"
definition max_text_lines :: nat where "max_text_lines = 32768"
definition max_raster_images :: nat where "max_raster_images = 4"
definition max_raster_pixels :: nat where "max_raster_pixels = 4000000"

text \<open>\<^verbatim>\<open>payload.find(pattern, start)\<close>\<close>

definition find_bytes :: "bytes \<Rightarrow> bytes \<Rightarrow> nat \<Rightarrow> nat option" where
  "find_bytes pat s start = List.find (\<lambda>i. take (length pat) (drop i s) = pat) [start..<Suc (length s) - length pat]"

lemma find_bytes_at:
  assumes "find_bytes pat s start = Some i"
  shows "start \<le> i \<and> i + length pat \<le> length s \<and> take (length pat) (drop i s) = pat"
proof -
  from assms obtain k where "k < length [start..<Suc (length s) - length pat]" "[start..<Suc (length s) - length pat] ! k = i"
    "take (length pat) (drop i s) = pat"
    by (auto simp: find_bytes_def find_Some_iff)
  then show ?thesis by auto
qed

text \<open>\<^verbatim>\<open>payload[i] + (payload[i + 1] << 8)\<close>\<close>

definition word16 :: "bytes \<Rightarrow> nat \<Rightarrow> nat" where
  "word16 s i = unat (s ! i) + 256 * unat (s ! (i + 1))"

section \<open>Documents\<close>

record esc_segment =
  sg_payload :: bytes
  sg_offset :: nat
  sg_cut :: bool

definition cut_marker :: "bytes \<Rightarrow> nat \<Rightarrow> nat option" where
  "cut_marker p cursor = (case (find_bytes [0x1D, 0x56] p cursor, find_bytes [0x1B, 0x6D] p cursor) of
     (Some a, Some b) \<Rightarrow> Some (min a b) | (Some a, None) \<Rightarrow> Some a | (None, b) \<Rightarrow> b)"

definition next_init :: "bytes \<Rightarrow> nat \<Rightarrow> nat" where
  "next_init p from = (case find_bytes [0x1B, 0x40] p from of None \<Rightarrow> length p | Some i \<Rightarrow> i)"

datatype cut = NoCut | Resume nat | CutTo nat

text \<open>The next cut command and where the document behind it begins.\<close>

definition next_cut :: "bytes \<Rightarrow> nat \<Rightarrow> cut" where
  "next_cut p cursor = (case cut_marker p cursor of None \<Rightarrow> NoCut
    | Some marker \<Rightarrow>
        if take 2 (drop marker p) = [0x1B, 0x6D] then CutTo (next_init p (marker + 2))
        else if length p \<le> marker + 2 then NoCut
        else let mode = unat (p ! (marker + 2)) in
          if mode \<in> {0, 1, 48, 49} then CutTo (next_init p (marker + 3))
          else if mode \<in> {65, 66} \<and> marker + 3 < length p then CutTo (next_init p (marker + 4))
          else Resume (marker + 2))"

lemma next_init_from: "from \<le> length p \<Longrightarrow> from \<le> next_init p from \<and> next_init p from \<le> length p"
  by (auto simp: next_init_def split: option.split dest: find_bytes_at)

lemma cut_marker_at: "cut_marker p cursor = Some m \<Longrightarrow> cursor \<le> m \<and> m + 2 \<le> length p"
  by (auto simp: cut_marker_def split: option.splits dest!: find_bytes_at)

lemma next_cut_forward:
  "next_cut p cursor = CutTo n \<Longrightarrow> cursor < n \<and> n \<le> length p"
  "next_cut p cursor = Resume n \<Longrightarrow> cursor < n \<and> n \<le> length p"
  using next_init_from [of "the (cut_marker p cursor) + 2" p] next_init_from [of "the (cut_marker p cursor) + 3" p]
    next_init_from [of "the (cut_marker p cursor) + 4" p]
  by (auto simp: next_cut_def Let_def dest!: cut_marker_at split: option.splits if_splits)

function segment_loop :: "bytes \<Rightarrow> esc_segment list \<Rightarrow> nat \<Rightarrow> nat \<Rightarrow> esc_segment list \<times> nat" where
  "segment_loop p result start cursor =
     (if cursor + 2 < length p \<and> length result < max_segments - 1 then
        (case next_cut p cursor of NoCut \<Rightarrow> (result, start)
         | Resume n \<Rightarrow> segment_loop p result start n
         | CutTo n \<Rightarrow> segment_loop p (result @ [\<lparr>sg_payload = segment start n p, sg_offset = start, sg_cut = True\<rparr>]) n n)
      else (result, start))"
  by auto
termination
  by (relation "measure (\<lambda>(p, result, start, cursor). length p - cursor)") (auto dest: next_cut_forward)

declare segment_loop.simps [simp del]

definition esc_segments :: "bytes \<Rightarrow> esc_segment list" where
  "esc_segments p = (case segment_loop p [] 0 0 of (result, start) \<Rightarrow>
     take max_segments (if start < length p \<or> result = []
       then result @ [\<lparr>sg_payload = drop start p, sg_offset = start, sg_cut = False\<rparr>] else result))"

section \<open>Text\<close>

record text_line =
  tl_text :: string
  tl_offset :: nat
  tl_length :: nat

record extraction =
  ex_buffer :: bytes
  ex_start :: nat
  ex_encoding :: string
  ex_lines :: "text_line list"
  ex_rendered :: "string list"
  ex_warnings :: "string list"
  ex_chars :: nat

definition hex2 :: "byte \<Rightarrow> string" where
  "hex2 b = upper [hex_digit (unat b div 16), hex_digit (unat b mod 16)]"

definition number_text :: "byte \<Rightarrow> string" where "number_text b = digits (unat b)"

definition warn :: "string \<Rightarrow> extraction \<Rightarrow> extraction" where
  "warn w x = x\<lparr>ex_warnings := ex_warnings x @ [w]\<rparr>"

text \<open>A byte of a text that the code page does not have.\<close>

definition escaped_byte :: "byte \<Rightarrow> string" where
  "escaped_byte b = (if 32 \<le> unat b \<and> unat b < 127 then [chr (unat b)] else ''<0x'' @ hex2 b @ ''>'')"

definition decoded :: "(string \<Rightarrow> bytes \<Rightarrow> string option) \<Rightarrow> extraction \<Rightarrow> string \<times> extraction" where
  "decoded decode x = (case decode (ex_encoding x) (ex_buffer x) of Some t \<Rightarrow> (t, x)
     | None \<Rightarrow> (concat (map escaped_byte (ex_buffer x)), warn (''text_decode_error:UnicodeDecodeError:'' @ ex_encoding x) x))"

definition emit_text :: "(string \<Rightarrow> bytes \<Rightarrow> string option) \<Rightarrow> extraction \<Rightarrow> extraction" where
  "emit_text decode x = (if ex_buffer x = [] then x
     else case decoded decode x of (text0, x1) \<Rightarrow>
       if max_output_chars \<le> ex_chars x1 then (warn ''normalized_text_limit_exceeded'' x1)\<lparr>ex_buffer := []\<rparr>
       else let text = take (max_output_chars - ex_chars x1) text0;
           x2 = x1\<lparr>ex_rendered := ex_rendered x1 @ [text], ex_chars := ex_chars x1 + length text\<rparr>;
           x3 = (if text = [] then x2
             else if length (ex_lines x2) < max_text_lines
             then x2\<lparr>ex_lines := ex_lines x2 @ [\<lparr>tl_text = text, tl_offset = ex_start x2, tl_length = length (ex_buffer x2)\<rparr>]\<rparr>
             else warn ''line_limit_exceeded'' x2)
         in x3\<lparr>ex_buffer := []\<rparr>)"

definition control :: "(string \<Rightarrow> bytes \<Rightarrow> string option) \<Rightarrow> string \<Rightarrow> extraction \<Rightarrow> extraction" where
  "control decode label x = (let x1 = emit_text decode x in
     if ex_chars x1 < max_output_chars then x1\<lparr>ex_rendered := ex_rendered x1 @ [label], ex_chars := ex_chars x1 + length label\<rparr>
     else warn ''normalized_text_limit_exceeded'' x1)"

definition code_page :: "byte \<Rightarrow> string option" where
  "code_page b = (if b = 0 then Some ''cp437'' else if b = 2 then Some ''cp850'' else if b = 16 then Some ''cp1252''
     else if b = 19 then Some ''cp858'' else None)"

text \<open>A command behind \<^verbatim>\<open>ESC\<close> or \<^verbatim>\<open>GS\<close>: the bytes it takes and the label it leaves in the text.\<close>

definition esc_command :: "bytes \<Rightarrow> nat \<Rightarrow> nat \<times> string" where
  "esc_command p i = (let c = p ! (i + 1); n = length p in
     if c = 0x40 then (2, ''<ESC/POS:INIT>'')
     else if c \<in> {0x21, 0x45, 0x61, 0x64, 0x4A, 0x33, 0x20} \<and> i + 2 < n
     then (3, ''<ESC/POS:ESC:'' @ hex2 c @ '':'' @ number_text (p ! (i + 2)) @ ''>'')
     else if c = 0x70 \<and> i + 4 < n then (5, ''<ESC/POS:CASH_DRAWER>'')
     else if c = 0x6D then (2, ''<ESC/POS:CUT>'')
     else if c = 0x2A \<and> i + 4 < n then
       (let available = min (word16 p (i + 3) * (if p ! (i + 2) \<in> {32, 33} then 3 else 1)) (n - i - 5)
        in (5 + available, ''<ESC/POS:BIT_IMAGE:'' @ digits available @ ''>''))
     else (2, ''<ESC/POS:ESC:'' @ hex2 c @ ''>''))"

definition gs_command :: "bytes \<Rightarrow> nat \<Rightarrow> nat \<times> string" where
  "gs_command p i = (let c = p ! (i + 1); n = length p in
     if c = 0x56 \<and> i + 2 < n then (if p ! (i + 2) \<in> {65, 66} \<and> i + 3 < n then 4 else 3, ''<ESC/POS:CUT>'')
     else if c = 0x76 \<and> i + 7 < n \<and> p ! (i + 2) = 0x30 then
       (let available = min (word16 p (i + 4) * word16 p (i + 6)) (n - i - 8)
        in (8 + available, ''<ESC/POS:RASTER_IMAGE:'' @ digits available @ ''>''))
     else if c = 0x6B \<and> i + 2 < n then
       (if 65 \<le> unat (p ! (i + 2)) \<and> i + 3 < n then
          (let available = min (unat (p ! (i + 3))) (n - i - 4) in (4 + available, ''<ESC/POS:BARCODE:'' @ digits available @ ''>''))
        else (let taken = (case find_bytes [0] p (i + 3) of None \<Rightarrow> n - i | Some z \<Rightarrow> z + 1 - i)
          in (taken, ''<ESC/POS:BARCODE:'' @ digits (taken - 3) @ ''>'')))
     else if c = 0x28 \<and> i + 4 < n then
       (let available = min (word16 p (i + 3)) (n - i - 5) in (5 + available, ''<ESC/POS:GS_PAREN:'' @ digits available @ ''>''))
     else if c = 0x21 \<and> i + 2 < n then (3, ''<ESC/POS:CHAR_SIZE:'' @ number_text (p ! (i + 2)) @ ''>'')
     else (2, ''<ESC/POS:GS:'' @ hex2 c @ ''>''))"

definition buffered :: "nat \<Rightarrow> bytes \<Rightarrow> extraction \<Rightarrow> extraction" where
  "buffered absolute bs x = x\<lparr>ex_start := (if ex_buffer x = [] then absolute else ex_start x), ex_buffer := ex_buffer x @ bs\<rparr>"

text \<open>One turn of the loop over the bytes.\<close>

definition extract_step :: "(string \<Rightarrow> bytes \<Rightarrow> string option) \<Rightarrow> bytes \<Rightarrow> nat \<Rightarrow> nat \<Rightarrow> extraction \<Rightarrow> nat \<times> extraction" where
  "extract_step decode p base i x = (let b = p ! i; n = length p in
     if b = 0x0A then (1, let x1 = emit_text decode x in x1\<lparr>ex_rendered := ex_rendered x1 @ [[chr 10]], ex_chars := ex_chars x1 + 1\<rparr>)
     else if b = 0x0D then (1, emit_text decode x)
     else if b = 0x09 then (1, buffered (base + i) [32, 32, 32, 32] x)
     else if b = 0x1B \<and> i + 1 < n then
       (if p ! (i + 1) = 0x74 \<and> i + 2 < n then
          (3, let x1 = emit_text decode x; enc = (case code_page (p ! (i + 2)) of Some e \<Rightarrow> e | None \<Rightarrow> ex_encoding x1)
              in control decode (''<ESC/POS:CODEPAGE:'' @ number_text (p ! (i + 2)) @ '':'' @ enc @ ''>'') (x1\<lparr>ex_encoding := enc\<rparr>))
        else case esc_command p i of (k, label) \<Rightarrow> (k, control decode label x))
     else if b = 0x1D \<and> i + 1 < n then (case gs_command p i of (k, label) \<Rightarrow> (k, control decode label x))
     else if b = 0x10 \<and> i + 2 < n then
       (3, control decode (''<ESC/POS:REALTIME:'' @ hex2 (p ! (i + 1)) @ '':'' @ number_text (p ! (i + 2)) @ ''>'') x)
     else if unat b < 0x20 \<or> b = 0x7F then (1, control decode (''<BYTE:0x'' @ hex2 b @ ''>'') x)
     else (1, buffered (base + i) [b] x))"

lemma gs_command_size: "1 \<le> fst (gs_command p i)"
  by (auto simp: gs_command_def Let_def split: option.split dest!: find_bytes_at)

lemma esc_command_size: "1 \<le> fst (esc_command p i)"
  by (auto simp: esc_command_def Let_def)

lemma extract_step_size: "1 \<le> fst (extract_step decode p base i x)"
  using gs_command_size [of p i] esc_command_size [of p i]
  by (auto simp: extract_step_def Let_def split: prod.splits)

function extract_loop :: "(string \<Rightarrow> bytes \<Rightarrow> string option) \<Rightarrow> bytes \<Rightarrow> nat \<Rightarrow> nat \<Rightarrow> extraction \<Rightarrow> nat \<times> extraction" where
  "extract_loop decode p base i x =
     (if i < length p \<and> ex_chars x < max_output_chars then
        (case extract_step decode p base i x of (k, x1) \<Rightarrow> extract_loop decode p base (i + k) x1)
      else (i, x))"
  by auto
termination
proof (relation "measure (\<lambda>(decode, p, base, i, x). length p - i)")
  fix decode :: "string \<Rightarrow> bytes \<Rightarrow> string option" and p base i and x x1 :: extraction and k :: nat
  assume "i < length p \<and> ex_chars x < max_output_chars" and "(k, x1) = extract_step decode p base i x"
  then show "((decode, p, base, i + k, x1), decode, p, base, i, x) \<in> measure (\<lambda>(decode, p, base, i, x). length p - i)"
    using extract_step_size [of decode p base i x] by (cases "extract_step decode p base i x") auto
qed simp

declare extract_loop.simps [simp del]

record extracted =
  et_lines :: "text_line list"
  et_text :: string
  et_warnings :: "string list"

definition extract_lines :: "(string \<Rightarrow> bytes \<Rightarrow> string option) \<Rightarrow> string \<Rightarrow> bytes \<Rightarrow> nat \<Rightarrow> extracted" where
  "extract_lines decode enc p base =
     (case extract_loop decode p base 0 \<lparr>ex_buffer = [], ex_start = base, ex_encoding = enc, ex_lines = [], ex_rendered = [],
        ex_warnings = [], ex_chars = 0\<rparr> of (i, x) \<Rightarrow>
      let x1 = emit_text decode x; x2 = (if i < length p then warn ''normalized_text_limit_exceeded'' x1 else x1)
      in \<lparr>et_lines = ex_lines x2, et_text = strip (concat (ex_rendered x2)), et_warnings = uniq (ex_warnings x2)\<rparr>)"

end
