(* ===== verification/EscText.thy ===== *)
theory EscText imports EscBytes Rch begin

text \<open>
  The printed text of \<^verbatim>\<open>parser/escpos.py\<close>: the patterns, the type of a ticket, the operator line with its
  printed time, and the state machine that reads document lines with courses, covers and wrapped
  descriptions. The zones are the parameter \<^verbatim>\<open>RchText\<close> has.
\<close>

section \<open>Errors\<close>

text \<open>
  What the parser raises: \<^verbatim>\<open>ValueError\<close> for an encoding that is not configured, for \<^verbatim>\<open>int\<close> of more than 4300
  digits and for a value the frozen models reject; \<^verbatim>\<open>decimal.InvalidOperation\<close> and \<^verbatim>\<open>OverflowError\<close>.
\<close>

datatype esc_error = UnsupportedEncoding | TooManyDigits | EscModel | EscDecimal | EscOverflow

definition as_esc :: "validation_error + 'a \<Rightarrow> esc_error + 'a" where
  "as_esc x = map_sum (\<lambda>_. EscModel) id x"

definition time_error :: "rch_error + 'a \<Rightarrow> esc_error + 'a" where
  "time_error x = map_sum (\<lambda>_. EscOverflow) id x"

section \<open>Patterns\<close>

definition code_char :: "char \<Rightarrow> bool" where
  "code_char c = (is_token c \<or> c \<in> {CHR ''.'', CHR ''_'', CHR ''/'', CHR ''-''})"

text \<open>\<^verbatim>\<open>\s*[:#-]?\s*(?P<value>[A-Z0-9._/-]+)\<close>\<close>

definition code_field :: rx where
  "code_field = cats [spaces, opt (one_of '':#-''), spaces, Group ''value'' (plus (Cls code_char))]"

definition esc_table_re :: rx where "esc_table_re = cats [Boundary, nocase ''TAVOLO'', code_field]"

definition esc_order_re :: rx where "esc_order_re = cats [Boundary, alts [nocase ''ORDINE'', nocase ''COMANDA''], code_field]"

definition esc_document_re :: rx where
  "esc_document_re = cats [Boundary, alts [nocase ''DOCUMENTO'', Cat (nocase ''DOC'') (opt (lit ''.'')), nocase ''PRECONTO'', nocase ''COMANDA''],
     spaces, opt (Alt (Cat (nocase ''N'') (opt (lit ''.''))) (lit ''#'')), code_field]"

definition operator_line_re :: rx where
  "operator_line_re = cats [Boundary, nocase ''OPERATORE'', spaces, opt (one_of '':#-''), spaces,
     Group ''value'' (Star (Cls (\<lambda>c. c \<noteq> chr 13 \<and> c \<noteq> chr 10)))]"

definition local_timestamp_re :: rx where
  "local_timestamp_re = cats [
     Group ''date'' (cats [Group ''day'' (exactly 2 digit), Group ''first'' (one_of ''/-''), Group ''month'' (exactly 2 digit),
       Group ''second'' (one_of ''/-''), Group ''year'' (between 2 4 digit)]),
     blank,
     Group ''time'' (cats [Group ''hour'' (exactly 2 digit), lit '':'', Group ''minute'' (exactly 2 digit),
       opt (Cat (lit '':'') (Group ''seconds'' (exactly 2 digit)))])]"

definition esc_item_re :: rx where
  "esc_item_re = cats [AtStart, spaces,
     Group ''quantity'' (cats [opt (one_of ''+-''), plus digit, opt (Cat (one_of ''.,'') (plus digit))]),
     spaces, one_of ''xX'', blank, Group ''description'' (Cat (Cls (\<lambda>c. \<not> is_space c)) (Star dot)), AtEnd]"

definition course_re :: rx where
  "course_re = cats [AtStart, spaces, nocase ''PORTATA'', spaces, lit '':'', spaces, Group ''value'' (plus (Cls code_char)), spaces, AtEnd]"

definition covers_re :: rx where
  "covers_re = cats [AtStart, spaces, nocase ''COPERTI'', spaces, lit '':'', spaces, Group ''value'' (plus digit), spaces, AtEnd]"

definition separator_char :: "char \<Rightarrow> bool" where
  "separator_char c = (is_space c \<or> c \<in> {CHR ''-'', CHR ''_'', CHR ''='', CHR ''.''})"

definition separator_re :: rx where
  "separator_re = cats [AtStart, exactly 3 (Cls separator_char), Star (Cls separator_char), AtEnd]"

definition document_header_re :: rx where
  "document_header_re = cats [AtStart, alts (map nocase [''OPERATORE'', ''TAVOLO'', ''ORDINE'', ''COMANDA'', ''PORTATA'', ''COPERTI'',
     ''DOCUMENTO'', ''PRECONTO'']), Boundary]"

text \<open>\<^verbatim>\<open>(?m)^[ \t]*-\d+(?:[.,]\d+)?[ \t]*[xX][ \t]+\<close> and \<^verbatim>\<open>\b\d+\s*[xX]\s+\<close>\<close>

definition tabs :: rx where "tabs = Star (one_of [CHR '' '', chr 9])"

definition negative_item_re :: rx where
  "negative_item_re = cats [NotBehind (\<lambda>c. c \<noteq> chr 10), tabs, lit ''-'', plus digit, opt (Cat (one_of ''.,'') (plus digit)), tabs,
     one_of ''xX'', plus (one_of [CHR '' '', chr 9])]"

definition counted_item_re :: rx where
  "counted_item_re = cats [Boundary, plus digit, spaces, one_of ''xX'', blank]"

definition esc_field :: "rx \<Rightarrow> string \<Rightarrow> string option" where
  "esc_field r t = map_option (\<lambda>m. group_text m ''value'') (rx_search r t)"

section \<open>The type of a ticket\<close>

definition esc_classify :: "string \<Rightarrow> document_type \<times> string" where
  "esc_classify text = (let u = upper text in
     if contains ''COPIA CONFORME'' u then (CONFORMING_COPY, ''COPIA_CONFORME_LITERAL'')
     else if contains ''RISTAMPA'' u then (REPRINT, ''RISTAMPA_LITERAL'')
     else if contains ''ANNULL'' u \<or> contains ''STORNO'' u then (CANCELLATION, ''ANNULLAMENTO_LITERAL'')
     else if contains ''PRECONTO'' u \<or> contains ''PRE-CONTO'' u then (PRE_BILL, ''PRECONTO_LITERAL'')
     else if matches (rx_search negative_item_re text) then (ORDER_CHANGE, ''VARIAZIONE_QUANTITA_POS_INFERRED'')
     else if contains ''COMANDA'' u \<or> contains ''CUCINA'' u then (KITCHEN_ORDER, ''COMANDA_LITERAL'')
     else if contains ''ORDINE'' u then (ORDER, ''ORDINE_LITERAL'')
     else if contains ''PORTATA:'' u \<or> contains ''COPERTI:'' u \<and> matches (rx_search counted_item_re text)
     then (KITCHEN_ORDER, ''TICKET_POS_INFERRED'')
     else if contains ''DOCUMENTO GESTIONALE'' u then (MANAGEMENT_DOCUMENT, ''GESTIONALE_LITERAL'')
     else (UNKNOWN, ''NESSUN_MARCATORE_CONFERMATO''))"

section \<open>The operator line\<close>

text \<open>
  \<^verbatim>\<open>datetime.strptime\<close> over the eight formats: both separators are equal, the year has four digits, or two,
  of which those up to 68 mean the years from 2000 on.
\<close>

definition esc_wall :: "rx_match \<Rightarrow> int option" where
  "esc_wall m = (let year = group_text m ''year'' in
     if group_text m ''first'' \<noteq> group_text m ''second'' \<or> length year \<notin> {2, 4} then None
     else let y = field_value m ''year'';
          y' = (if length year = 4 then int y else if y < 69 then int y + 2000 else int y + 1900)
        in wall_time y' (field_value m ''month'') (field_value m ''day'') (field_value m ''hour'') (field_value m ''minute'')
             (field_value m ''seconds''))"

record operator_line =
  ol_operator :: "string option"
  ol_timestamp :: "timestamp option"
  ol_precision :: "string option"
  ol_warnings :: "string list"

definition esc_timestamp :: "(string \<Rightarrow> zone option) \<Rightarrow> string \<Rightarrow> timestamp \<Rightarrow> rx_match \<Rightarrow> esc_error + printed_time" where
  "esc_timestamp zones name captured m = (case esc_wall m of
      None \<Rightarrow> Inr (Unreadable ''document_timestamp_invalid'')
    | Some wall \<Rightarrow> (case zones name of
        None \<Rightarrow> Inr (Unreadable ''document_timezone_unknown'')
      | Some z \<Rightarrow> attempt (time_error (readings z wall)) (\<lambda>lates.
          if lates = [] then Inr (Unreadable ''document_local_time_nonexistent'')
          else attempt (time_error (checked (utc_to_local z captured))) (\<lambda>captured_wall.
            Inr (Observed wall (local_to_utc z (chosen_reading captured_wall wall lates) wall)
              (if group m ''seconds'' = None then ''MINUTE'' else ''SECOND''))))))"

definition optional_text :: "string \<Rightarrow> string option" where
  "optional_text t = (if t = [] then None else Some t)"

definition operator_and_timestamp :: "(string \<Rightarrow> zone option) \<Rightarrow> string \<Rightarrow> timestamp \<Rightarrow> string \<Rightarrow> esc_error + operator_line" where
  "operator_and_timestamp zones name captured text = (case rx_search operator_line_re text of
      None \<Rightarrow> Inr \<lparr>ol_operator = None, ol_timestamp = None, ol_precision = None, ol_warnings = []\<rparr>
    | Some om \<Rightarrow> (let v = squeeze (group_text om ''value'') in case rx_search local_timestamp_re v of
        None \<Rightarrow> Inr \<lparr>ol_operator = optional_text (take 128 v), ol_timestamp = None, ol_precision = None, ol_warnings = []\<rparr>
      | Some m \<Rightarrow> (let operator = optional_text (take 128 (strip_chars '' -:;'' (take (m_start m) v @ drop (m_end m) v))) in
          attempt (esc_timestamp zones name captured m) (\<lambda>t. Inr (case t of
              Unreadable w \<Rightarrow> \<lparr>ol_operator = operator, ol_timestamp = None, ol_precision = None, ol_warnings = [w]\<rparr>
            | Observed wall instant prec \<Rightarrow>
                \<lparr>ol_operator = operator, ol_timestamp = Some instant, ol_precision = Some prec, ol_warnings = []\<rparr>)))))"

section \<open>Wrapped descriptions\<close>

definition space_before_continuation :: "string set" where
  "space_before_continuation = {''a'', ''ai'', ''al'', ''alla'', ''alle'', ''agli'', ''con'', ''da'', ''dal'', ''dalla'', ''delle'', ''di'',
     ''e'', ''in'', ''per'', ''senza'', ''su''}"

definition unit_continuations :: "string set" where
  "unit_continuations = {''cl'', ''dl'', ''g'', ''gr'', ''kg'', ''l'', ''ml''}"

definition join_wrapped :: "string \<Rightarrow> string \<Rightarrow> bool \<Rightarrow> string" where
  "join_wrapped left right force = (let ws = words_of right; fragment = squeeze right in
     if fragment = [] then left
     else let first = lower (hd ws); previous = (if words_of left = [] then [] else lower (last (words_of left)));
          function_word = (first \<in> space_before_continuation \<and> (1 < length first \<or> 1 < length ws));
          needs_space = (force \<or> function_word \<or> lower fragment \<in> unit_continuations \<or> previous \<in> space_before_continuation)
        in left @ (if needs_space then '' '' else []) @ fragment)"

definition total_heading :: "string \<Rightarrow> bool" where
  "total_heading t = list_ex (\<lambda>p. starts_with p (upper t)) [''TOTALE'', ''TOT '', ''IMPORTO'', ''SUBTOTALE'', ''SUB-TOTALE'']"

definition is_non_item_line :: "string \<Rightarrow> bool" where
  "is_non_item_line t = (let s = strip t in
     s = [] \<or> matches (rx_full separator_re s) \<or> matches (rx_match document_header_re s) \<or> total_heading s)"

section \<open>Document lines\<close>

record pending_line =
  pn_description :: string
  pn_quantity :: rat
  pn_amount :: "rat option"
  pn_course :: "string option"
  pn_fragments :: "string list"
  pn_start :: nat
  pn_end :: nat
  pn_space :: bool

record semantics =
  sm_lines :: "document_line list"
  sm_courses :: metadata
  sm_joined :: "jval list"
  sm_course :: "string option"
  sm_covers :: "int option"
  sm_active :: "pending_line option"

definition pending_document_line :: "nat \<Rightarrow> nat \<Rightarrow> pending_line \<Rightarrow> document_line" where
  "pending_document_line base n a = blank_line\<lparr>sequence := n, description := Some (take 512 (strip (pn_description a))),
     quantity := Some (pn_quantity a), unit_price := pn_amount a, line_total := pn_amount a,
     line_state := Some (if pn_quantity a < 0 then ''QUANTITY_DECREASE'' else ''ACTIVE''), removed := False,
     raw_text := Some (join [chr 10] (pn_fragments a)), course_code := pn_course a,
     line_source := Some \<lparr>direction = ''CLIENT_TO_DEVICE'', span_offset = max base (pn_start a),
       span_length = pn_end a - pn_start a, frame_id = None\<rparr>\<rparr>"

definition joined_entry :: "nat \<Rightarrow> pending_line \<Rightarrow> jval" where
  "joined_entry n a = JObj [(''sequence'', JInt (int n)), (''fragments'', JList (map JStr (pn_fragments a))),
     (''source_offset'', JInt (int (pn_start a))), (''source_length'', JInt (int (pn_end a - pn_start a)))]"

definition finish_active :: "nat \<Rightarrow> semantics \<Rightarrow> esc_error + semantics" where
  "finish_active base s = (case sm_active s of None \<Rightarrow> Inr s
    | Some a \<Rightarrow> if max_text_lines \<le> length (sm_lines s) then Inr (s\<lparr>sm_active := None\<rparr>)
        else let n = length (sm_lines s) + 1 in
          attempt (as_esc (make_line (pending_document_line base n a))) (\<lambda>l. Inr (s\<lparr>sm_lines := sm_lines s @ [l],
            sm_courses := sm_courses s @ (case pn_course a of None \<Rightarrow> [] | Some c \<Rightarrow> [(digits n, JStr c)]),
            sm_joined := sm_joined s @ (if 1 < length (pn_fragments a) then [joined_entry n a] else []),
            sm_active := None\<rparr>)))"

definition rstrip :: "string \<Rightarrow> string" where
  "rstrip s = rev (dropWhile is_space (rev s))"

definition rstrip_newlines :: "string \<Rightarrow> string" where
  "rstrip_newlines s = rev (dropWhile (\<lambda>c. c = chr 13 \<or> c = chr 10) (rev s))"

text \<open>A description without the last amount on it, and that amount.\<close>

definition split_amount :: "string \<Rightarrow> (string \<times> rat option) option" where
  "split_amount t = (case rx_find_all printed_money_re t of [] \<Rightarrow> None
     | ms \<Rightarrow> let m = last ms in Some (strip_chars '' -:;'' (take (m_start m) t), printed_money (group_text m ''value'')))"

definition new_pending :: "semantics \<Rightarrow> text_line \<Rightarrow> string \<Rightarrow> rat \<Rightarrow> rat option \<Rightarrow> bool \<Rightarrow> pending_line" where
  "new_pending s l d q v sp = \<lparr>pn_description = d, pn_quantity = q, pn_amount = v, pn_course = sm_course s,
     pn_fragments = [rstrip (tl_text l)], pn_start = tl_offset l, pn_end = tl_offset l + tl_length l, pn_space = sp\<rparr>"

definition item_pending :: "semantics \<Rightarrow> text_line \<Rightarrow> rx_match \<Rightarrow> esc_error + pending_line" where
  "item_pending s l m = (case decimal_of_text (map (\<lambda>c. if c = CHR '','' then CHR ''.'' else c) (group_text m ''quantity'')) of
      None \<Rightarrow> Inl EscDecimal
    | Some q \<Rightarrow> (let raw = group_text m ''description'';
         (d, v) = (case split_amount raw of Some dv \<Rightarrow> dv | None \<Rightarrow> (strip raw, None))
       in Inr (new_pending s l d q v (ends_with '' '' raw))))"

definition continued :: "text_line \<Rightarrow> pending_line \<Rightarrow> pending_line" where
  "continued l a = a\<lparr>pn_description := join_wrapped (pn_description a) (tl_text l) (pn_space a),
     pn_space := ends_with '' '' (rstrip_newlines (tl_text l)), pn_fragments := pn_fragments a @ [rstrip (tl_text l)],
     pn_end := tl_offset l + tl_length l\<rparr>"

definition plain_line :: "text_line \<Rightarrow> string \<Rightarrow> semantics \<Rightarrow> semantics" where
  "plain_line l collapsed s = (if is_non_item_line collapsed then s
     else case split_amount collapsed of None \<Rightarrow> s
       | Some (d, v) \<Rightarrow> if d = [] then s else s\<lparr>sm_active := Some (new_pending s l d 1 v False)\<rparr>)"

text \<open>The limit on the digits \<^verbatim>\<open>int\<close> converts.\<close>

definition int_digits_limit :: nat where "int_digits_limit = 4300"

definition semantic_step :: "nat \<Rightarrow> text_line \<Rightarrow> semantics \<Rightarrow> esc_error + semantics" where
  "semantic_step base l s = (let collapsed = squeeze (tl_text l) in
     case rx_match course_re collapsed of
       Some m \<Rightarrow> attempt (finish_active base s) (\<lambda>s1. Inr (s1\<lparr>sm_course := Some (upper (group_text m ''value''))\<rparr>))
     | None \<Rightarrow> (case rx_match covers_re collapsed of
       Some m \<Rightarrow> attempt (finish_active base s) (\<lambda>s1. if int_digits_limit < length (group_text m ''value'') then Inl TooManyDigits
           else Inr (s1\<lparr>sm_covers := Some (int (field_value m ''value''))\<rparr>))
     | None \<Rightarrow> (case rx_match esc_item_re (tl_text l) of
       Some m \<Rightarrow> attempt (finish_active base s) (\<lambda>s1. attempt (item_pending s1 l m) (\<lambda>a. Inr (s1\<lparr>sm_active := Some a\<rparr>)))
     | None \<Rightarrow> (case sm_active s of
         Some a \<Rightarrow> if tl_text l \<noteq> [] \<and> is_space (hd (tl_text l)) \<and> \<not> is_non_item_line collapsed
           then Inr (s\<lparr>sm_active := Some (continued l a)\<rparr>)
           else attempt (finish_active base s) (\<lambda>s1. Inr (plain_line l collapsed s1))
       | None \<Rightarrow> attempt (finish_active base s) (\<lambda>s1. Inr (plain_line l collapsed s1))))))"

definition line_metadata :: "semantics \<Rightarrow> metadata" where
  "line_metadata s = (case sm_covers s of None \<Rightarrow> [] | Some n \<Rightarrow> [(''covers'', JInt n)]) @
     (if sm_courses s = [] then [] else [(''line_courses'', JObj (sm_courses s))]) @
     (if sm_joined s = [] then [] else [(''joined_line_fragments'', JList (sm_joined s))])"

definition semantic_lines :: "text_line list \<Rightarrow> nat \<Rightarrow> esc_error + document_line list \<times> metadata" where
  "semantic_lines ls base = attempt (attempt_all (semantic_step base) ls \<lparr>sm_lines = [], sm_courses = [], sm_joined = [], sm_course = None,
       sm_covers = None, sm_active = None\<rparr>) (\<lambda>s. attempt (finish_active base s) (\<lambda>s1. Inr (sm_lines s1, line_metadata s1)))"

definition esc_total :: "text_line list \<Rightarrow> rat option" where
  "esc_total ls = (let values = List.map_filter (\<lambda>l. let t = squeeze (tl_text l) in
       if total_heading t then (case split_amount t of Some (d, v) \<Rightarrow> v | None \<Rightarrow> None) else None) ls
     in if values = [] then None else Some (last values))"

end
