(* ===== verification/EscRaster.thy ===== *)
theory EscRaster imports EscBytes begin

text \<open>
  The images of \<^verbatim>\<open>parser/escpos.py\<close>: the printer driver sends a table banner as strips of \<^verbatim>\<open>ESC *\<close> with
  \<^verbatim>\<open>ESC J\<close> between them, \<^verbatim>\<open>_reconstructed_esc_star_rasters\<close> puts them together for the character
  recognition. The property says that each pixel of an image is one bit of the captured bytes.
\<close>

section \<open>Strips\<close>

record raster =
  ri_width :: nat
  ri_height :: nat
  ri_bits :: bytes
  ri_offset :: nat
  ri_length :: nat
  ri_strips :: nat

definition row_stride :: "nat \<Rightarrow> nat" where "row_stride width = (width + 7) div 8"

text \<open>The bit of a byte that is the \<open>k\<close>-th from the left.\<close>

definition bit_mask :: "nat \<Rightarrow> byte" where "bit_mask k = drop_bit k 0x80"

definition black_in :: "nat \<Rightarrow> bytes \<Rightarrow> nat \<Rightarrow> nat \<Rightarrow> bool" where
  "black_in width bits x y = (and (bits ! (y * row_stride width + x div 8)) (bit_mask (x mod 8)) \<noteq> 0)"

definition pixel_is_black :: "raster \<Rightarrow> nat \<Rightarrow> nat \<Rightarrow> bool" where
  "pixel_is_black im x y = black_in (ri_width im) (ri_bits im) x y"

definition blacken :: "nat \<Rightarrow> nat \<Rightarrow> nat \<Rightarrow> bytes \<Rightarrow> bytes" where
  "blacken width x y bits = (let i = y * row_stride width + x div 8 in bits[i := or (bits ! i) (bit_mask (x mod 8))])"

definition decode_strip :: "nat \<Rightarrow> nat \<Rightarrow> nat \<Rightarrow> bytes \<Rightarrow> bytes" where
  "decode_strip width height columns data =
     fold (\<lambda>x. fold (\<lambda>band. fold (\<lambda>k bits. let y = band * 8 + k in
           if y < height \<and> and (data ! (x * columns + band)) (bit_mask k) \<noteq> 0 then blacken width x y bits else bits)
         [0..<8]) [0..<columns]) [0..<width] (replicate (row_stride width * height) 0)"

record raster_strip =
  st_mode :: byte
  st_width :: nat
  st_height :: nat
  st_bits :: bytes
  st_end :: nat

definition strip_columns :: "byte \<Rightarrow> nat" where
  "strip_columns mode = (if mode \<in> {32, 33} then 3 else 1)"

definition strip_at :: "bytes \<Rightarrow> nat \<Rightarrow> raster_strip option" where
  "strip_at p cursor = (if length p < cursor + 5 \<or> take 2 (drop cursor p) \<noteq> [0x1B, 0x2A] then None
     else let mode = p ! (cursor + 2); width = word16 p (cursor + 3); columns = strip_columns mode; height = columns * 8;
              closing = cursor + 5 + width * columns
       in if mode \<notin> {0, 1, 32, 33} then None
          else if width < 1 \<or> max_raster_pixels < width * height \<or> length p < closing then None
          else Some \<lparr>st_mode = mode, st_width = width, st_height = height,
                 st_bits = decode_strip width height columns (segment (cursor + 5) closing p), st_end = closing\<rparr>)"

section \<open>Images\<close>

lemma strip_at_end: "strip_at p c = Some s \<Longrightarrow> c + 5 < st_end s \<and> st_end s \<le> length p"
  by (auto simp: strip_at_def Let_def strip_columns_def split: if_splits)

text \<open>The strips that continue \<open>first\<close>, up to the position \<open>e\<close>.\<close>

function more_strips :: "bytes \<Rightarrow> raster_strip \<Rightarrow> bytes list \<Rightarrow> nat \<Rightarrow> bytes list \<times> nat" where
  "more_strips p first strips e =
     (if e + 3 \<le> length p \<and> take 2 (drop e p) = [0x1B, 0x4A] then
        (case strip_at p (e + 3) of None \<Rightarrow> (strips, e)
         | Some s \<Rightarrow> if (st_mode s, st_width s, st_height s) \<noteq> (st_mode first, st_width first, st_height first) then (strips, e)
             else if max_raster_pixels < st_width first * st_height first * (length strips + 1) then (strips, e)
             else more_strips p first (strips @ [st_bits s]) (st_end s))
      else (strips, e))"
  by auto

termination
  by (relation "measure (\<lambda>(p, first, strips, e). length p - e)") (auto dest!: strip_at_end)

declare more_strips.simps [simp del]

lemma more_strips_end: "snd (more_strips p first strips e) \<ge> e"
proof (induction p first strips e rule: more_strips.induct)
  case (1 p first strips e)
  show ?case
    using 1 by (subst more_strips.simps) (fastforce split: option.split dest: strip_at_end)
qed

lemma more_strips_ends: "(ss, e') = more_strips p first strips e \<Longrightarrow> e \<le> e'"
  using more_strips_end [of e p first strips] by (cases "more_strips p first strips e") simp

function raster_loop :: "bytes \<Rightarrow> nat \<Rightarrow> raster list \<Rightarrow> nat \<Rightarrow> raster list" where
  "raster_loop p base images cursor =
     (if cursor < length p \<and> length images < max_raster_images then
        (case find_bytes [0x1B, 0x2A] p cursor of None \<Rightarrow> images
         | Some start \<Rightarrow> (case strip_at p start of None \<Rightarrow> raster_loop p base images (start + 2)
            | Some first \<Rightarrow> (case more_strips p first [st_bits first] (st_end first) of (strips, e) \<Rightarrow>
                if 2 \<le> length strips
                then raster_loop p base (images @ [\<lparr>ri_width = st_width first, ri_height = st_height first * length strips,
                       ri_bits = concat strips, ri_offset = base + start, ri_length = e - start, ri_strips = length strips\<rparr>]) e
                else raster_loop p base images (st_end first))))
      else images)"
  by auto

termination
  by (relation "measure (\<lambda>(p, base, images, cursor). length p - cursor)")
    (auto dest!: find_bytes_at strip_at_end more_strips_ends)

declare raster_loop.simps [simp del]

definition reconstructed_rasters :: "bytes \<Rightarrow> nat \<Rightarrow> raster list" where
  "reconstructed_rasters p base = raster_loop p base [] 0"

section \<open>What a strip shows\<close>

lemma bit_mask_power: "k < 8 \<Longrightarrow> bit_mask k = 2 ^ (7 - k)"
proof -
  assume "k < 8"
  then have "k \<in> {0, 1, 2, 3, 4, 5, 6, 7}" by auto
  then show ?thesis by (elim insertE emptyE) (simp_all add: bit_mask_def)
qed

lemma black_bit: "black_in width bits x y \<longleftrightarrow> bit (bits ! (y * row_stride width + x div 8)) (7 - x mod 8)"
  by (simp add: black_in_def bit_mask_power and_exp_eq_0_iff_not_bit)

text \<open>The bits of a picture of the given size show the points \<open>S\<close>.\<close>

definition shows_points :: "nat \<Rightarrow> nat \<Rightarrow> (nat \<times> nat) set \<Rightarrow> bytes \<Rightarrow> bool" where
  "shows_points width height S bits \<longleftrightarrow> length bits = row_stride width * height \<and>
     (\<forall>x < width. \<forall>y < height. black_in width bits x y \<longleftrightarrow> (x, y) \<in> S)"

lemma stride_above: "x < width \<Longrightarrow> x div 8 < row_stride width"
  unfolding row_stride_def by simp

lemma place_below: "x < width \<Longrightarrow> y < height \<Longrightarrow> y * row_stride width + x div 8 < row_stride width * height"
proof -
  assume "x < width" "y < height"
  have "y * row_stride width + x div 8 < Suc y * row_stride width" using stride_above [OF \<open>x < width\<close>] by simp
  also have "\<dots> \<le> height * row_stride width" using \<open>y < height\<close> by (intro mult_le_mono1) simp
  finally show ?thesis by (simp add: mult.commute)
qed

lemma place_unique:
  assumes "x < width" and "x' < width" and "y * row_stride width + x div 8 = y' * row_stride width + x' div 8"
  shows "y = y' \<and> x div 8 = x' div 8"
proof -
  let ?n = "row_stride width"
  have "(y * ?n + x div 8) div ?n = y" "(y' * ?n + x' div 8) div ?n = y'" using stride_above [OF assms(1)] stride_above [OF assms(2)] by simp_all
  with assms(3) show ?thesis by auto
qed

lemma blacken_shows:
  assumes "shows_points width height S bits" and "x < width" and "y < height"
  shows "shows_points width height (insert (x, y) S) (blacken width x y bits)"
proof -
  let ?i = "y * row_stride width + x div 8"
  have i: "?i < length bits" using place_below assms by (simp add: shows_points_def)
  have "black_in width (blacken width x y bits) x' y' \<longleftrightarrow> (x', y') \<in> insert (x, y) S" if "x' < width" "y' < height" for x' y'
  proof (cases "y' * row_stride width + x' div 8 = ?i")
    case True
    then have same: "y' = y" "x' div 8 = x div 8" using place_unique that assms(2) by blast+
    have "x' = x \<longleftrightarrow> x' mod 8 = x mod 8" using same(2) by (metis div_mult_mod_eq)
    moreover have "7 - x' mod 8 = 7 - x mod 8 \<longleftrightarrow> x' mod 8 = x mod 8"
      using mod_less_divisor [of 8 x] mod_less_divisor [of 8 x'] by arith
    ultimately have same_bit: "7 - x' mod 8 = 7 - x mod 8 \<longleftrightarrow> x' = x" by simp
    have "black_in width (blacken width x y bits) x' y' \<longleftrightarrow> bit (bits ! ?i) (7 - x' mod 8) \<or> 7 - x' mod 8 = 7 - x mod 8"
      using i True by (auto simp: black_bit blacken_def Let_def bit_mask_power bit_or_iff bit_exp_iff)
    with same_bit same(1) True assms(1) that show ?thesis by (auto simp: shows_points_def black_bit)
  next
    case False
    then have "(x', y') \<noteq> (x, y)" by auto
    moreover have "black_in width (blacken width x y bits) x' y' = black_in width bits x' y'"
      using False by (simp add: black_bit blacken_def Let_def)
    ultimately show ?thesis using assms(1) that by (auto simp: shows_points_def)
  qed
  then show ?thesis using assms(1) by (simp add: shows_points_def blacken_def Let_def)
qed

lemma fold_shows:
  assumes "\<And>a S bits. a \<in> set as \<Longrightarrow> shows_points width height S bits \<Longrightarrow> shows_points width height (S \<union> F a) (f a bits)"
    and "shows_points width height S bits"
  shows "shows_points width height (S \<union> \<Union> (F ` set as)) (fold f as bits)"
  using assms
proof (induction as arbitrary: S bits)
  case (Cons a as)
  from Cons.IH [OF Cons.prems(1), of "S \<union> F a" "f a bits"] Cons.prems show ?case by (simp add: Un_assoc)
qed simp

lemma decode_strip_shows:
  "shows_points width (columns * 8) {(x, y). x < width \<and> y < columns * 8 \<and> bit (data ! (x * columns + y div 8)) (7 - y mod 8)}
     (decode_strip width (columns * 8) columns data)"
proof -
  let ?black = "\<lambda>x band k. if band * 8 + k < columns * 8 \<and> and (data ! (x * columns + band)) (bit_mask k) \<noteq> 0 then {(x, band * 8 + k)} else {}"
  let ?S = "{} \<union> (\<Union>x \<in> set [0..<width]. \<Union>band \<in> set [0..<columns]. \<Union>k \<in> set [0..<8]. ?black x band k)"
  have start: "shows_points width (columns * 8) {} (replicate (row_stride width * (columns * 8)) 0)"
    using place_below by (auto simp: shows_points_def black_bit)
  have "shows_points width (columns * 8) ?S (decode_strip width (columns * 8) columns data)"
    unfolding decode_strip_def
  proof (intro fold_shows start)
    fix x band k S bits
    assume "x \<in> set [0..<width]" "shows_points width (columns * 8) S bits"
    then show "shows_points width (columns * 8) (S \<union> ?black x band k)
        (let y = band * 8 + k in if y < columns * 8 \<and> and (data ! (x * columns + band)) (bit_mask k) \<noteq> 0 then blacken width x y bits else bits)"
      using blacken_shows [of width "columns * 8" S bits x "band * 8 + k"] by (simp add: Let_def)
  qed
  moreover have "?S = {(x, y). x < width \<and> y < columns * 8 \<and> bit (data ! (x * columns + y div 8)) (7 - y mod 8)}"
  proof -
    have points: "(x, y) \<in> ?S \<longleftrightarrow> x < width \<and> y < columns * 8 \<and> bit (data ! (x * columns + y div 8)) (7 - y mod 8)" for x y
    proof
      assume "(x, y) \<in> ?S"
      then obtain band k where "x < width" "band < columns" "k < 8" "band * 8 + k < columns * 8" "y = band * 8 + k"
        "and (data ! (x * columns + band)) (bit_mask k) \<noteq> 0"
        by (auto split: if_splits)
      then show "x < width \<and> y < columns * 8 \<and> bit (data ! (x * columns + y div 8)) (7 - y mod 8)"
        by (simp add: bit_mask_power and_exp_eq_0_iff_not_bit)
    next
      assume r: "x < width \<and> y < columns * 8 \<and> bit (data ! (x * columns + y div 8)) (7 - y mod 8)"
      then have "(x, y) \<in> ?black x (y div 8) (y mod 8)" by (simp add: bit_mask_power and_exp_eq_0_iff_not_bit)
      moreover have "y div 8 < columns" "y mod 8 < 8" using r by (simp_all add: less_mult_imp_div_less)
      ultimately show "(x, y) \<in> ?S"
        using r by (intro UnI2 UN_I [of x] UN_I [of "y div 8"] UN_I [of "y mod 8"]) simp_all
    qed
    show ?thesis
    proof (rule set_eqI)
      fix z
      show "z \<in> ?S \<longleftrightarrow> z \<in> {(x, y). x < width \<and> y < columns * 8 \<and> bit (data ! (x * columns + y div 8)) (7 - y mod 8)}"
        using points [of "fst z" "snd z"] unfolding prod.collapse by (simp only: mem_Collect_eq case_prod_beta)
    qed
  qed
  ultimately show ?thesis by (simp only:)
qed

section \<open>What an image shows\<close>

text \<open>One strip of an image: its command stands at \<open>c\<close>.\<close>

definition same_format :: "raster_strip \<Rightarrow> raster_strip \<Rightarrow> bool" where
  "same_format s first \<longleftrightarrow> st_mode s = st_mode first \<and> st_width s = st_width first \<and> st_height s = st_height first"

definition strip_pitch :: "raster_strip \<Rightarrow> nat" where
  "strip_pitch s = 8 + st_width s * strip_columns (st_mode s)"

lemma strip_at_format:
  assumes "strip_at p c = Some s"
  shows "st_end s = c + strip_pitch s - 3 \<and> st_height s = 8 * strip_columns (st_mode s) \<and> 1 \<le> st_width s \<and>
    st_bits s = decode_strip (st_width s) (strip_columns (st_mode s) * 8) (strip_columns (st_mode s))
      (segment (c + 5) (st_end s) p)"
  using assms by (auto simp: strip_at_def Let_def strip_pitch_def split: if_splits)

definition strip_sequence :: "bytes \<Rightarrow> raster_strip \<Rightarrow> nat \<Rightarrow> bytes list \<Rightarrow> nat \<Rightarrow> bool" where
  "strip_sequence p first c strips e \<longleftrightarrow> e + 3 = c + length strips * strip_pitch first \<and> e \<le> length p \<and>
     (\<forall>k < length strips. \<exists>s. strip_at p (c + k * strip_pitch first) = Some s \<and> same_format s first \<and> strips ! k = st_bits s)"

lemma strip_sequence_snoc:
  assumes "strip_sequence p first c strips e" and "strip_at p (e + 3) = Some s" and "same_format s first"
  shows "strip_sequence p first c (strips @ [st_bits s]) (st_end s)"
proof -
  have place: "e + 3 = c + length strips * strip_pitch first" using assms(1) by (simp add: strip_sequence_def)
  have pitch: "strip_pitch s = strip_pitch first" using assms(3) by (simp add: same_format_def strip_pitch_def)
  have "st_end s = e + 3 + strip_pitch s - 3" "st_end s \<le> length p" "3 \<le> strip_pitch s"
    using strip_at_format [OF assms(2)] strip_at_end [OF assms(2)] by (simp_all add: strip_pitch_def)
  then show ?thesis using assms place pitch by (auto simp: strip_sequence_def less_Suc_eq nth_append)
qed

lemma more_strips_sequence:
  assumes "strip_sequence p first c strips e" and "more_strips p first strips e = (ss, e')"
    and "st_width first * st_height first * length strips \<le> max_raster_pixels"
  shows "strip_sequence p first c ss e' \<and> st_width first * st_height first * length ss \<le> max_raster_pixels"
  using assms
proof (induction p first strips e rule: more_strips.induct)
  case (1 p first strips e)
  show ?case
  proof (cases "more_strips p first strips e = (strips, e)")
    case False
    then obtain s where s: "e + 3 \<le> length p \<and> take 2 (drop e p) = [0x1B, 0x4A]" "strip_at p (e + 3) = Some s"
      "(st_mode s, st_width s, st_height s) = (st_mode first, st_width first, st_height first)"
      "\<not> max_raster_pixels < st_width first * st_height first * (length strips + 1)"
      by (subst (asm) more_strips.simps) (auto split: if_splits option.splits)
    then have "more_strips p first strips e = more_strips p first (strips @ [st_bits s]) (st_end s)"
      by (subst more_strips.simps) simp
    moreover have "same_format s first" using s(3) by (simp add: same_format_def)
    ultimately show ?thesis
      using 1(1) [OF s(1,2)] s(3,4) strip_sequence_snoc [OF 1(2) s(2)] 1(3) by simp
  qed (use 1 in simp)
qed

lemma nth_concat_even:
  assumes "\<And>xs. xs \<in> set xss \<Longrightarrow> length xs = n" and "k < length xss" and "j < n"
  shows "concat xss ! (k * n + j) = xss ! k ! j"
  using assms
proof (induction xss arbitrary: k)
  case (Cons xs xss)
  then show ?case by (cases k) (auto simp: nth_append add.assoc)
qed simp

text \<open>The image \<open>im\<close> shows the bits that were captured from \<open>start\<close> on, \<open>columns\<close> bytes for each column of a strip.\<close>

definition shows_capture :: "bytes \<Rightarrow> nat \<Rightarrow> raster \<Rightarrow> bool" where
  "shows_capture p start im \<longleftrightarrow> (\<exists>columns \<in> {1, 3}. let pitch = 8 + ri_width im * columns; height = 8 * columns in
     2 \<le> ri_strips im \<and> 1 \<le> ri_width im \<and> ri_height im = height * ri_strips im \<and> ri_width im * ri_height im \<le> max_raster_pixels \<and>
     ri_length im + 3 = ri_strips im * pitch \<and> start + ri_length im \<le> length p \<and>
     (\<forall>x < ri_width im. \<forall>y < ri_height im. pixel_is_black im x y \<longleftrightarrow>
        bit (p ! (start + y div height * pitch + 5 + x * columns + y mod height div 8)) (7 - y mod 8)))"

lemma sequence_pixel:
  assumes seq: "strip_sequence p first c strips e"
    and x: "x < st_width first" and y: "y < st_height first * length strips" and h: "st_height first = 8 * strip_columns (st_mode first)"
  shows "black_in (st_width first) (concat strips) x y \<longleftrightarrow>
    bit (p ! (c + y div st_height first * strip_pitch first + 5 + x * strip_columns (st_mode first) + y mod st_height first div 8)) (7 - y mod 8)"
proof -
  let ?w = "st_width first" and ?h = "st_height first" and ?n = "strip_columns (st_mode first)"
  let ?k = "y div ?h" and ?y = "y mod ?h" and ?stride = "row_stride (st_width first)"
  have k: "?k < length strips" and n0: "0 < ?n" using y h by (auto simp: less_mult_imp_div_less mult.commute strip_columns_def)
  have y': "?y < ?h" "?y mod 8 = y mod 8" using n0 h by (simp_all add: mod_mod_cancel)
  from seq k obtain s where s: "strip_at p (c + ?k * strip_pitch first) = Some s" "same_format s first" "strips ! ?k = st_bits s"
    by (auto simp: strip_sequence_def)
  have shown: "shows_points ?w ?h {(x, y). x < ?w \<and> y < ?h \<and> bit (segment (c' + 5) (st_end t) p ! (x * ?n + y div 8)) (7 - y mod 8)} (st_bits t)"
    if "strip_at p c' = Some t" "same_format t first" for c' t
    using strip_at_format [OF that(1)] that(2) h decode_strip_shows [of ?w ?n "segment (c' + 5) (st_end t) p"]
    by (simp add: same_format_def mult.commute)
  have even: "length b = ?stride * ?h" if "b \<in> set strips" for b
    using that seq shown unfolding in_set_conv_nth strip_sequence_def shows_points_def by metis
  have place: "y * ?stride + x div 8 = ?k * (?stride * ?h) + (?y * ?stride + x div 8)"
    by (metis add.assoc add_mult_distrib div_mult_mod_eq mult.assoc mult.commute)
  have "concat strips ! (y * ?stride + x div 8) = st_bits s ! (?y * ?stride + x div 8)"
    unfolding place s(3) [symmetric] by (rule nth_concat_even [OF even k place_below [OF x y'(1)]])
  then have "black_in ?w (concat strips) x y \<longleftrightarrow> black_in ?w (st_bits s) x ?y" by (simp add: black_in_def)
  also have "\<dots> \<longleftrightarrow> bit (segment (c + ?k * strip_pitch first + 5) (st_end s) p ! (x * ?n + ?y div 8)) (7 - y mod 8)"
    using shown [OF s(1,2)] x y' by (simp add: shows_points_def)
  also have "segment (c + ?k * strip_pitch first + 5) (st_end s) p ! (x * ?n + ?y div 8) =
      p ! (c + ?k * strip_pitch first + 5 + (x * ?n + ?y div 8))"
  proof -
    have "?y div 8 < ?n" using y'(1) h by (simp add: less_mult_imp_div_less mult.commute)
    then have "x * ?n + ?y div 8 < Suc x * ?n" by simp
    also have "\<dots> \<le> ?w * ?n" using x by (intro mult_le_mono1) simp
    finally have "x * ?n + ?y div 8 < st_end s - (c + ?k * strip_pitch first + 5)"
      using strip_at_format [OF s(1)] s(2) by (simp add: strip_pitch_def same_format_def)
    then show ?thesis using strip_at_end [OF s(1)] by (simp add: segment_def)
  qed
  finally show ?thesis by (simp add: add.assoc)
qed

lemma sequence_shows:
  assumes first: "strip_at p start = Some first" and strips: "more_strips p first [st_bits first] (st_end first) = (strips, e)"
    and "2 \<le> length strips"
  shows "shows_capture p start \<lparr>ri_width = st_width first, ri_height = st_height first * length strips, ri_bits = concat strips,
    ri_offset = n, ri_length = e - start, ri_strips = length strips\<rparr>"
proof -
  note form = strip_at_format [OF first]
  have columns: "strip_columns (st_mode first) \<in> {1, 3}" by (simp add: strip_columns_def)
  have small: "st_width first * st_height first \<le> max_raster_pixels"
    using first by (auto simp: strip_at_def Let_def mult.commute split: if_splits)
  have "strip_sequence p first start [st_bits first] (st_end first)"
    using first strip_at_end [OF first] form by (auto simp: strip_sequence_def same_format_def strip_pitch_def)
  from more_strips_sequence [OF this strips] small
  have seq: "strip_sequence p first start strips e" and room: "st_width first * st_height first * length strips \<le> max_raster_pixels" by simp_all
  have long: "e + 3 = start + length strips * strip_pitch first" "e \<le> length p" using seq by (simp_all add: strip_sequence_def)
  have "3 \<le> length strips * strip_pitch first" using assms(3) by (cases "length strips") (auto simp: strip_pitch_def)
  with long have span: "e - start + 3 = length strips * strip_pitch first" "start + (e - start) \<le> length p" by arith+
  have mod8: "y mod st_height first mod 8 = y mod 8" for y using form by (simp add: mod_mod_cancel)
  have "black_in (st_width first) (concat strips) x y \<longleftrightarrow>
      bit (p ! (start + y div (8 * strip_columns (st_mode first)) * (8 + st_width first * strip_columns (st_mode first)) + 5 +
        x * strip_columns (st_mode first) + y mod (8 * strip_columns (st_mode first)) div 8)) (7 - y mod 8)"
    if "x < st_width first" "y < st_height first * length strips" for x y
    using sequence_pixel [OF seq that] form by (simp add: strip_pitch_def)
  then show ?thesis
    unfolding shows_capture_def Let_def
    using columns assms(3) form room span by (intro bexI [OF _ columns]) (simp add: pixel_is_black_def strip_pitch_def mult.assoc)
qed

lemma raster_loop_idle:
  "\<not> (cursor < length p \<and> length images < max_raster_images) \<or> find_bytes [0x1B, 0x2A] p cursor = None \<Longrightarrow>
     raster_loop p base images cursor = images"
  by (subst raster_loop.simps) auto

lemma raster_loop_shows:
  assumes "\<And>im. im \<in> set images \<Longrightarrow> \<exists>start. ri_offset im = base + start \<and> shows_capture p start im"
    and "im \<in> set (raster_loop p base images cursor)"
  shows "\<exists>start. ri_offset im = base + start \<and> shows_capture p start im"
  using assms
proof (induction p base images cursor rule: raster_loop.induct)
  case (1 p base images cursor)
  note known = 1(4) and member = 1(5)
  consider "raster_loop p base images cursor = images"
    | start where "cursor < length p \<and> length images < max_raster_images" "find_bytes [0x1B, 0x2A] p cursor = Some start" "strip_at p start = None"
    | start first strips e where "cursor < length p \<and> length images < max_raster_images" "find_bytes [0x1B, 0x2A] p cursor = Some start"
      "strip_at p start = Some first" "more_strips p first [st_bits first] (st_end first) = (strips, e)"
    using raster_loop_idle [of cursor p images base] by (metis option.exhaust surj_pair)
  then show ?case
  proof cases
    case 1
    with known member show ?thesis by simp
  next
    case (2 start)
    then have "raster_loop p base images cursor = raster_loop p base images (start + 2)" by (subst raster_loop.simps) simp
    with "1.IH"(1) [OF 2 known] member show ?thesis by simp
  next
    case (3 start first strips e)
    note IH = "1.IH"(2,3) [OF 3(1,2,3) 3(4) [symmetric]]
    have next_loop: "raster_loop p base images cursor = (if 2 \<le> length strips
        then raster_loop p base (images @ [\<lparr>ri_width = st_width first, ri_height = st_height first * length strips,
               ri_bits = concat strips, ri_offset = base + start, ri_length = e - start, ri_strips = length strips\<rparr>]) e
        else raster_loop p base images (st_end first))"
      using 3 by (subst raster_loop.simps) simp
    show ?thesis
    proof (cases "2 \<le> length strips")
      case True
      show ?thesis
      proof (rule IH(1) [OF True])
        show "im \<in> set (raster_loop p base (images @ [\<lparr>ri_width = st_width first, ri_height = st_height first * length strips,
               ri_bits = concat strips, ri_offset = base + start, ri_length = e - start, ri_strips = length strips\<rparr>]) e)"
          using member next_loop True by simp
      next
        fix im0
        assume "im0 \<in> set (images @ [\<lparr>ri_width = st_width first, ri_height = st_height first * length strips,
               ri_bits = concat strips, ri_offset = base + start, ri_length = e - start, ri_strips = length strips\<rparr>])"
        with known sequence_shows [OF 3(3,4) True] show "\<exists>start. ri_offset im0 = base + start \<and> shows_capture p start im0" by fastforce
      qed
    next
      case False
      with IH(2) [OF False known] member next_loop show ?thesis by simp
    qed
  qed
qed

text \<open>
  C22: an image for the character recognition shows the capture. Every image that is put together from a
  payload consists of at least two strips that follow each other without a gap in the payload, its size
  is within the limit, and each of its pixels is black exactly when the bit of the payload is set that
  the layout of the strips assigns to it.
\<close>

theorem raster_shows_capture:
  assumes "im \<in> set (reconstructed_rasters p base)"
  shows "\<exists>start. ri_offset im = base + start \<and> shows_capture p start im"
  using assms raster_loop_shows [of "[]" base p im 0] by (simp add: reconstructed_rasters_def)

text \<open>Two strips of three dots each.\<close>

definition two_strips :: bytes where
  "two_strips = [0x41, 0x1B, 0x2A, 0, 3, 0, 0xFF, 0x81, 0x18, 0x1B, 0x4A, 8, 0x1B, 0x2A, 0, 3, 0, 1, 2, 4]"

definition strip_bits :: "bytes \<Rightarrow> bytes" where "strip_bits data = decode_strip 3 8 1 data"

lemma two_strips_read:
  "strip_at two_strips 1 = Some \<lparr>st_mode = 0, st_width = 3, st_height = 8, st_bits = strip_bits [0xFF, 0x81, 0x18], st_end = 9\<rparr>"
  "strip_at two_strips 12 = Some \<lparr>st_mode = 0, st_width = 3, st_height = 8, st_bits = strip_bits [1, 2, 4], st_end = 20\<rparr>"
  "find_bytes [0x1B, 0x2A] two_strips 0 = Some 1"
  "length two_strips = 20" "take 2 (drop 9 two_strips) = [0x1B, 0x4A]"
  by (simp_all add: strip_at_def two_strips_def word16_def strip_columns_def max_raster_pixels_def strip_bits_def segment_def
      find_bytes_def upt_conv_Cons)

lemma two_strips_raster: "reconstructed_rasters two_strips 100 = [\<lparr>ri_width = 3, ri_height = 16,
    ri_bits = strip_bits [0xFF, 0x81, 0x18] @ strip_bits [1, 2, 4], ri_offset = 101, ri_length = 19, ri_strips = 2\<rparr>]"
proof -
  have stop: "more_strips two_strips s ss 20 = (ss, 20)" "raster_loop two_strips 100 ims 20 = ims" for s ss ims
    by (subst more_strips.simps, simp add: two_strips_read) (subst raster_loop.simps, simp add: two_strips_read)
  have "more_strips two_strips \<lparr>st_mode = 0, st_width = 3, st_height = 8, st_bits = b, st_end = 9\<rparr> [b] 9 =
      ([b, strip_bits [1, 2, 4]], 20)" for b
    by (subst more_strips.simps) (simp add: two_strips_read stop max_raster_pixels_def)
  then show ?thesis
    unfolding reconstructed_rasters_def by (subst raster_loop.simps) (simp add: two_strips_read [unfolded One_nat_def] stop max_raster_images_def)
qed

theorem raster_shows_capture_witness:
  "\<exists>im. set (reconstructed_rasters two_strips 100) = {im} \<and> ri_offset im = 101 \<and> (\<exists>start. ri_offset im = 100 + start \<and> shows_capture two_strips start im)"
  using raster_shows_capture [of _ two_strips 100] by (auto simp: two_strips_raster)

end
