(* ===== verification/Escpos.thy ===== *)
theory Escpos imports EscText EscRaster begin

text \<open>
  \<^verbatim>\<open>parse_escpos\<close> of \<^verbatim>\<open>parser/escpos.py\<close>: one document for each part of a payload that a cut command ends, with
  the table code that the character recognition reads from the images. The recognition engine, the code
  pages, the zones, the digest, \<^verbatim>\<open>uuid5\<close> and the JSON value of a float are parameters.
\<close>

section \<open>Character recognition\<close>

text \<open>What an engine does with an image: it raises, finds nothing, or reads a text with a confidence and a box.\<close>

datatype ocr_outcome = OcrError string | OcrNothing | OcrResult string rat "(int \<times> int \<times> int \<times> int) option"

record esc_env =
  ee_uuid5 :: "string \<Rightarrow> uuid"
  ee_sha256 :: "bytes \<Rightarrow> digest"
  ee_zones :: "string \<Rightarrow> zone option"
  ee_decode :: "string \<Rightarrow> bytes \<Rightarrow> string option"
  ee_engine :: "raster \<Rightarrow> ocr_outcome"
  ee_backend :: string
  ee_float :: "rat \<Rightarrow> jval"

definition ocr_minimum_confidence :: rat where "ocr_minimum_confidence = 80"

definition numeric_table_re :: rx where
  "numeric_table_re = cats [Group ''numeric'' (between 1 8 (Cls (\<lambda>c. c = CHR ''O'' \<or> c = CHR ''o'' \<or> is_digit c))),
     Group ''suffix'' (opt (Cat (one_of ''-/'') (between 1 16 token)))]"

text \<open>An \<open>O\<close> in a numeric table prefix is read as a zero.\<close>

definition normalize_table_code :: "string \<Rightarrow> string \<times> string option" where
  "normalize_table_code v = (let observed = take 128 (upper (strip v)) in case rx_full numeric_table_re observed of
      None \<Rightarrow> (observed, None)
    | Some m \<Rightarrow> (let numeric = group_text m ''numeric'' in
        if CHR ''O'' \<notin> set numeric \<or> \<not> list_ex is_digit numeric then (observed, None)
        else (map (\<lambda>c. if c = CHR ''O'' then CHR ''0'' else c) numeric @ group_text m ''suffix'', Some ''OCR_NUMERIC_O_TO_ZERO'')))"

text \<open>\<^verbatim>\<open>f"{x:.2f}"\<close>\<close>

definition two_decimals :: "rat \<Rightarrow> string" where
  "two_decimals x = (let n = nat (half_even (\<bar>x\<bar> * 100)) in
     (if x < 0 then ''-'' else []) @ digits (n div 100) @ ''.'' @ digits (n mod 100 div 10) @ digits (n mod 10))"

record ocr_evidence =
  oe_observations :: "metadata list"
  oe_accepted :: "(string \<times> rat) list"
  oe_rendered :: "string list"
  oe_warnings :: "string list"

definition box_json :: "(int \<times> int \<times> int \<times> int) option \<Rightarrow> jval" where
  "box_json b = (case b of None \<Rightarrow> JNull | Some (x1, y1, x2, y2) \<Rightarrow> JList (map JInt [x1, y1, x2, y2]))"

definition base_observation :: "esc_env \<Rightarrow> raster \<Rightarrow> metadata" where
  "base_observation env im = [(''backend'', JStr (ee_backend env)), (''width'', JInt (int (ri_width im))), (''height'', JInt (int (ri_height im))),
     (''strip_count'', JInt (int (ri_strips im))), (''source_offset'', JInt (int (ri_offset im))),
     (''source_length'', JInt (int (ri_length im))), (''bitmap_sha256'', JStr (hexdigest (ee_sha256 env (ri_bits im))))]"

definition ocr_text :: "string \<Rightarrow> string" where
  "ocr_text t = take 2048 (join [chr 10] (map squeeze (split_lines t)))"

definition observe :: "metadata \<Rightarrow> string list \<Rightarrow> ocr_evidence \<Rightarrow> ocr_evidence" where
  "observe ob ws e = e\<lparr>oe_observations := oe_observations e @ [ob], oe_warnings := oe_warnings e @ ws\<rparr>"

definition raster_step :: "esc_env \<Rightarrow> raster \<Rightarrow> ocr_evidence \<Rightarrow> ocr_evidence" where
  "raster_step env im e = (let o0 = base_observation env im in case ee_engine env im of
      OcrError x \<Rightarrow> observe (o0 @ [(''status'', JStr ''BACKEND_ERROR''), (''error_type'', JStr x)]) [''raster_ocr_backend_error''] e
    | OcrNothing \<Rightarrow> observe (o0 @ [(''status'', JStr ''NO_RESULT'')])
        [if ee_backend env \<in> {''tesseract:none'', ''tesseract:unavailable''} then ''raster_ocr_backend_unavailable'' else ''raster_ocr_no_result''] e
    | OcrResult t c b \<Rightarrow>
        (let text = ocr_text t;
             o1 = o0 @ [(''status'', JStr ''OBSERVED''), (''text'', JStr text), (''confidence'', ee_float env (quantize 4 c)),
                (''bounding_box'', box_json b)];
             e1 = e\<lparr>oe_rendered := oe_rendered e @ [''<OCR:ESC_STAR:'' @ two_decimals c @ ''>'' @ text @ ''</OCR:ESC_STAR>'']\<rparr>
         in case rx_search esc_table_re text of
              None \<Rightarrow> observe o1 [] e1
            | Some m \<Rightarrow> if c < ocr_minimum_confidence then observe o1 [''raster_table_ocr_below_confidence_threshold''] e1
                else let table = take 128 (upper (group_text m ''value'')) in case normalize_table_code table of (read_code, how) \<Rightarrow>
                  (observe (o1 @ [(''table_code_observed'', JStr table), (''table_code_normalized'', JStr read_code)] @
                       (case how of None \<Rightarrow> [] | Some h \<Rightarrow> [(''table_code_normalization'', JStr h)]))
                     (if how = None then [] else [''raster_table_code_normalized_numeric'']) e1)
                   \<lparr>oe_accepted := oe_accepted e1 @ [(read_code, c)]\<rparr>))"

text \<open>The first code of the highest confidence, unless two codes differ.\<close>

definition accepted_table :: "(string \<times> rat) list \<Rightarrow> string option" where
  "accepted_table as = (if as = [] \<or> 1 < length (remdups (map fst as)) then None else Some (fst (arg_min_list (\<lambda>a. - snd a) as)))"

record table_evidence =
  te_table :: "string option"
  te_observations :: "metadata list"
  te_warnings :: "string list"
  te_rendered :: "string list"

definition raster_table_evidence :: "esc_env \<Rightarrow> bytes \<Rightarrow> nat \<Rightarrow> table_evidence" where
  "raster_table_evidence env p base =
     (let e = fold (raster_step env) (reconstructed_rasters p base) \<lparr>oe_observations = [], oe_accepted = [], oe_rendered = [], oe_warnings = []\<rparr>;
          conflict = (1 < length (remdups (map fst (oe_accepted e))))
      in \<lparr>te_table = accepted_table (oe_accepted e), te_observations = oe_observations e,
          te_warnings = uniq (oe_warnings e @ (if conflict then [''raster_table_ocr_conflict''] else [])), te_rendered = oe_rendered e\<rparr>)"

section \<open>Documents\<close>

definition allowed_encodings :: "string set" where
  "allowed_encodings = {''cp437'', ''cp850'', ''cp858'', ''cp1252'', ''latin-1'', ''utf-8''}"

definition read_segment :: "(string \<Rightarrow> bytes \<Rightarrow> string option) \<Rightarrow> string \<Rightarrow> esc_segment \<Rightarrow> esc_error + extracted" where
  "read_segment decode enc s = (if enc \<notin> allowed_encodings then Inl UnsupportedEncoding
     else Inr (extract_lines decode enc (sg_payload s) (sg_offset s)))"

text \<open>The type of a ticket: a negative quantity makes it a change.\<close>

definition has_decrease :: "document_line list \<Rightarrow> bool" where
  "has_decrease ls = list_ex (\<lambda>l. case quantity l of None \<Rightarrow> False | Some q \<Rightarrow> q < 0) ls"

definition ticket_type :: "string \<Rightarrow> document_line list \<Rightarrow> document_type \<times> string" where
  "ticket_type text ls = (if has_decrease ls then (ORDER_CHANGE, ''VARIAZIONE_QUANTITA_POS_INFERRED'') else esc_classify text)"

definition table_code_evidence :: "string option \<Rightarrow> table_evidence \<Rightarrow> string option \<Rightarrow> string" where
  "table_code_evidence plain te table =
     (if te_table te \<noteq> None \<and> plain = None \<and> list_ex (\<lambda>ob. truthy (get ob ''table_code_normalization'')) (te_observations te)
      then ''ESC_POS_RASTER_OCR_NUMERIC_NORMALIZED''
      else if te_table te \<noteq> None \<and> plain = None then ''ESC_POS_RASTER_OCR_INFERRED''
      else if table \<noteq> None then ''PLAIN_TEXT'' else ''UNKNOWN'')"

definition esc_metadata :: "esc_env \<Rightarrow> esc_segment \<Rightarrow> document_type \<times> string \<Rightarrow> string \<Rightarrow> table_evidence \<Rightarrow> operator_line \<Rightarrow> metadata \<Rightarrow> metadata" where
  "esc_metadata env s ty table_evidence te ol lm =
     [(''source_start_offset'', JInt (int (sg_offset s))), (''source_end_offset'', JInt (int (sg_offset s + length (sg_payload s)))),
      (''cut_observed'', JBool (sg_cut s)),
      (''classification_evidence'', JStr (if fst ty \<noteq> UNKNOWN then snd ty else ''UNKNOWN'')),
      (''table_code_evidence'', JStr table_evidence),
      (''raster_ocr'', JObj [(''runtime'', JStr (ee_backend env)), (''minimum_confidence'', ee_float env ocr_minimum_confidence),
         (''observations'', JList (map JObj (te_observations te)))]),
      (''document_timestamp_evidence'', if ol_timestamp ol \<noteq> None then JStr ''ESC_POS_PRINTED_OPERATOR_LINE'' else JNull),
      (''document_timestamp_precision'', case ol_precision ol of None \<Rightarrow> JNull | Some x \<Rightarrow> JStr x)] @ lm"

definition esc_version_text :: string where "esc_version_text = ''1.3.0''"
definition esc_parser_name :: string where "esc_parser_name = ''retailprintguard-escpos''"

definition or_text :: "string option \<Rightarrow> string option \<Rightarrow> string option" where
  "or_text a b = (case a of Some t \<Rightarrow> if t = [] then b else a | None \<Rightarrow> b)"

text \<open>The document of one part, from its text, its lines, its operator line and its images.\<close>

definition ticket :: "esc_env \<Rightarrow> rch_job \<Rightarrow> string \<Rightarrow> string list \<Rightarrow> string \<Rightarrow> esc_segment \<Rightarrow> extracted \<Rightarrow> document_line list \<Rightarrow> metadata
    \<Rightarrow> operator_line \<Rightarrow> table_evidence \<Rightarrow> document" where
  "ticket env job hash global enc s x ls lm ol te =
     (let ty = ticket_type (et_text x) ls; gross = esc_total (et_lines x); plain = esc_field esc_table_re (et_text x);
         table = or_text plain (te_table te);
         text = (if te_rendered te = [] then et_text x else et_text x @ [chr 10] @ join [chr 10] (te_rendered te))
     in blank_document\<lparr>
       doc_id := ee_uuid5 env (''retailprintguard:escpos:'' @ job_id job @ '':'' @ digits (sg_offset s) @ '':'' @ hash),
       source_device_id := job_device job, source_session_id := job_session job, source_job_id := job_id job,
       doc_type := fst ty, subtype := snd ty, external_document_code := esc_field esc_document_re text,
       order_code := esc_field esc_order_re text, table_code := table, operator_code := ol_operator ol,
       document_timestamp := ol_timestamp ol, captured_at := job_captured job, gross_total := gross, net_total := gross,
       doc_status := (if sg_cut s then ''COMPLETE'' else ''PARTIAL''), normalized_text := text, encoding := Some enc,
       parser_name := esc_parser_name, parser_version := esc_version_text,
       parse_confidence := (if fst ty \<noteq> UNKNOWN then 85 else 25),
       doc_evidence := (if fst ty \<noteq> UNKNOWN then CONFIRMED else UNKNOWN_EVIDENCE),
       source_manifest_sha256 := job_manifest job, source_payload_sha256 := hash, source_path := job_path job,
       complete := sg_cut s, warnings := uniq (global @ et_warnings x @ ol_warnings ol @ te_warnings te),
       doc_lines := ls, raw_metadata := esc_metadata env s ty (table_code_evidence plain te table) te ol lm\<rparr>)"

definition segment_document :: "esc_env \<Rightarrow> rch_job \<Rightarrow> string \<Rightarrow> string list \<Rightarrow> string \<Rightarrow> esc_segment \<Rightarrow> esc_error + document option" where
  "segment_document env job hash global enc s =
     attempt (read_segment (ee_decode env) enc s) (\<lambda>x.
     if sg_payload s = [] then Inr None
     else attempt (semantic_lines (et_lines x) (sg_offset s)) (\<lambda>(ls, lm).
     attempt (operator_and_timestamp (ee_zones env) (job_zone job) (job_captured job) (et_text x)) (\<lambda>ol.
       map_sum id Some (as_esc (make_document (ticket env job hash global enc s x ls lm ol
         (raster_table_evidence env (sg_payload s) (sg_offset s))))))))"

definition parse_escpos :: "esc_env \<Rightarrow> rch_job \<Rightarrow> string \<Rightarrow> bytes \<Rightarrow> esc_error + document list" where
  "parse_escpos env job enc bytes =
     (let hash = hexdigest (ee_sha256 env bytes);
          global = (if esc_limit < length bytes then [''parser_input_limit_exceeded''] else [])
      in map_sum id (List.map_filter id)
           (collect (map (segment_document env job hash global enc) (esc_segments (take esc_limit bytes)))))"

end
