(* ===== verification/EscDocuments.thy ===== *)
theory EscDocuments imports Escpos RchOrigin begin

text \<open>
  What the tickets of \<^verbatim>\<open>parser/escpos.py\<close> stand on: the parts of a payload between cuts cover it, each ticket
  names the bytes it was read from, and each text line is what one stretch of bytes decodes to.
\<close>

section \<open>The parts of a payload\<close>

text \<open>A cut command somewhere in the bytes.\<close>

definition cut_at :: "bytes \<Rightarrow> nat \<Rightarrow> bool" where
  "cut_at p i \<longleftrightarrow> take 2 (drop i p) = [0x1B, 0x6D] \<or>
     (\<exists>m \<in> {0, 1, 48, 49}. take 3 (drop i p) = [0x1D, 0x56, m]) \<or> (\<exists>m \<in> {65, 66}. \<exists>n. take 4 (drop i p) = [0x1D, 0x56, m, n])"

definition holds_cut :: "bytes \<Rightarrow> bool" where "holds_cut p \<longleftrightarrow> (\<exists>i. cut_at p i)"

lemma cut_marker_bytes: "cut_marker p cursor = Some m \<Longrightarrow> take 2 (drop m p) = [0x1D, 0x56] \<or> take 2 (drop m p) = [0x1B, 0x6D]"
  by (auto simp: cut_marker_def min_def numeral_2_eq_2 split: option.splits if_splits dest!: find_bytes_at)

lemma take_more: "take n (drop m p) = xs \<Longrightarrow> m + n < length p \<Longrightarrow> take (Suc n) (drop m p) = xs @ [p ! (m + n)]"
  by (auto simp: take_Suc_conv_app_nth)

lemma next_cut_holds:
  assumes "next_cut p cursor = CutTo e"
  shows "\<exists>m \<ge> cursor. \<exists>n \<in> {2, 3, 4}. m + n \<le> e \<and> cut_at (take (m + n) p) m"
proof -
  from assms obtain m where m: "cut_marker p cursor = Some m" by (cases "cut_marker p cursor") (auto simp: next_cut_def)
  note at = cut_marker_at [OF m]
  have within: "take k (drop m (take (m + k) p)) = take k (drop m p)" for k by (simp add: drop_take)
  consider "take 2 (drop m p) = [0x1B, 0x6D]" "e = next_init p (m + 2)"
    | "take 2 (drop m p) = [0x1D, 0x56]" "m + 2 < length p" "unat (p ! (m + 2)) \<in> {0, 1, 48, 49}" "e = next_init p (m + 3)"
    | "take 2 (drop m p) = [0x1D, 0x56]" "m + 3 < length p" "unat (p ! (m + 2)) \<in> {65, 66}" "e = next_init p (m + 4)"
    using assms m cut_marker_bytes [OF m] by (auto simp: next_cut_def Let_def split: if_splits)
  then show ?thesis
  proof cases
    case 1
    then have "cut_at (take (m + 2) p) m" using within [of 2] by (simp add: cut_at_def)
    moreover have "m + 2 \<le> e" using 1 at next_init_from by simp
    ultimately show ?thesis using at by blast
  next
    case 2
    have "p ! (m + 2) \<in> {0, 1, 48, 49}" using 2(3) by (simp add: word_unat_eq_iff)
    moreover have "take 3 (drop m p) = [0x1D, 0x56, p ! (m + 2)]" using take_more [OF 2(1)] 2(2) by (simp add: numeral_3_eq_3 numeral_2_eq_2)
    ultimately have "cut_at (take (m + 3) p) m" using within [of 3] by (auto simp: cut_at_def)
    moreover have "m + 3 \<le> e" using 2 next_init_from by simp
    ultimately show ?thesis using at by blast
  next
    case 3
    have "p ! (m + 2) \<in> {65, 66}" using 3(3) by (simp add: word_unat_eq_iff)
    moreover have three: "take 3 (drop m p) = [0x1D, 0x56, p ! (m + 2)]"
      using take_more [OF 3(1)] 3(2) by (simp add: numeral_3_eq_3 numeral_2_eq_2)
    have "take 4 (drop m p) = [0x1D, 0x56, p ! (m + 2), p ! (m + 3)]" using take_more [OF three] 3(2) by simp
    ultimately have "cut_at (take (m + 4) p) m" using within [of 4] by (auto simp: cut_at_def)
    moreover have "m + 4 \<le> e" using 3 next_init_from by simp
    ultimately show ?thesis using at by blast
  qed
qed

lemma cut_at_longer: "cut_at (take k p) i \<Longrightarrow> i + 2 \<le> k \<Longrightarrow> k \<le> n \<Longrightarrow> j \<le> i \<Longrightarrow> cut_at (segment j n p) (i - j)"
proof -
  assume cut: "cut_at (take k p) i" and "i + 2 \<le> k" "k \<le> n" "j \<le> i"
  have "take l (drop (i - j) (segment j n p)) = xs" if "take l (drop i (take k p)) = xs" "length xs = l" for l xs
  proof -
    have "l \<le> k - i" using that by auto
    then have "l \<le> n - i" using \<open>k \<le> n\<close> by arith
    then have "take l (drop (i - j) (segment j n p)) = take l (drop i p)"
      using \<open>j \<le> i\<close> by (simp add: segment_def drop_take min_def add.commute)
    moreover have "take l (drop i (take k p)) = take l (drop i p)" using \<open>l \<le> k - i\<close> by (simp add: drop_take min_def)
    ultimately show ?thesis using that by simp
  qed
  note here = this
  from cut show ?thesis unfolding cut_at_def
    by (elim disjE bexE exE) (drule here, simp, blast)+
qed

text \<open>The parts found so far: they cover the first \<open>n\<close> bytes and each holds a cut.\<close>

definition parts_upto :: "bytes \<Rightarrow> nat \<Rightarrow> esc_segment list \<Rightarrow> bool" where
  "parts_upto p n segs \<longleftrightarrow> n \<le> length p \<and> concat (map sg_payload segs) = take n p \<and> length segs < max_segments \<and>
     (\<forall>i < length segs. sg_offset (segs ! i) = length (concat (map sg_payload (take i segs)))) \<and>
     (\<forall>s \<in> set segs. sg_cut s \<and> sg_payload s \<noteq> [] \<and> holds_cut (sg_payload s))"

lemma parts_upto_snoc:
  assumes "parts_upto p n segs" and "n < m" and "m \<le> length p" and "Suc (length segs) < max_segments" and "holds_cut (segment n m p)"
  shows "parts_upto p m (segs @ [\<lparr>sg_payload = segment n m p, sg_offset = n, sg_cut = True\<rparr>])"
proof -
  have "take n p @ segment n m p = take m p" using assms(2) unfolding segment_def
    by (metis le_add_diff_inverse less_imp_le_nat take_add)
  moreover have "segment n m p \<noteq> []" using assms(2,3) by (simp add: segment_def)
  moreover have "length (concat (map sg_payload segs)) = n" using assms(1) by (simp add: parts_upto_def)
  ultimately show ?thesis using assms by (auto simp: parts_upto_def nth_append less_Suc_eq)
qed

lemma segment_loop_parts:
  assumes "segment_loop p result start cursor = (segs, n)" and "parts_upto p start result" and "start \<le> cursor"
  shows "parts_upto p n segs"
  using assms
proof (induction p result start cursor rule: segment_loop.induct)
  case (1 p result start cursor)
  show ?case
  proof (cases "cursor + 2 < length p \<and> length result < max_segments - 1")
    case more: True
    show ?thesis
    proof (cases "next_cut p cursor")
      case NoCut
      with more 1(3,4) show ?thesis by (subst (asm) segment_loop.simps) simp
    next
      case (Resume k)
      with more 1(3) have "segment_loop p result start k = (segs, n)" by (subst (asm) segment_loop.simps) simp
      with 1(1) [OF more Resume _ 1(4)] next_cut_forward(2) [OF Resume] 1(5) show ?thesis by simp
    next
      case (CutTo k)
      let ?s = "\<lparr>sg_payload = segment start k p, sg_offset = start, sg_cut = True\<rparr>"
      from CutTo more 1(3) have run: "segment_loop p (result @ [?s]) k k = (segs, n)" by (subst (asm) segment_loop.simps) simp
      from next_cut_holds [OF CutTo] obtain m j where "cursor \<le> m" "j \<in> {2, 3, 4}" "m + j \<le> k" "cut_at (take (m + j) p) m" by blast
      with cut_at_longer [of "m + j" p m k start] 1(5) have "holds_cut (segment start k p)" by (auto simp: holds_cut_def)
      with parts_upto_snoc [OF 1(4)] next_cut_forward(1) [OF CutTo] more 1(5)
      have "parts_upto p k (result @ [?s])" by (simp add: less_diff_conv)
      with 1(2) [OF more CutTo run] show ?thesis by simp
    qed
  next
    case False
    with 1(3,4) show ?thesis by (subst (asm) segment_loop.simps) (auto split: if_splits)
  qed
qed

text \<open>\<open>segs\<close> divides \<open>p\<close>: only the last part may lack a cut.\<close>

definition divides_payload :: "bytes \<Rightarrow> esc_segment list \<Rightarrow> bool" where
  "divides_payload p segs \<longleftrightarrow> concat (map sg_payload segs) = p \<and> length segs \<le> max_segments \<and>
     (\<forall>i < length segs. sg_offset (segs ! i) = length (concat (map sg_payload (take i segs))) \<and>
        (sg_cut (segs ! i) \<longrightarrow> holds_cut (sg_payload (segs ! i))) \<and> (Suc i < length segs \<longrightarrow> sg_cut (segs ! i)) \<and>
        (sg_payload (segs ! i) = [] \<longrightarrow> p = []))"

lemma esc_segments_divide: "divides_payload p (esc_segments p)"
proof -
  obtain segs n where run: "segment_loop p [] 0 0 = (segs, n)" by fastforce
  have parts: "parts_upto p n segs"
    by (rule segment_loop_parts [OF run]) (simp_all add: parts_upto_def max_segments_def)
  let ?last = "\<lparr>sg_payload = drop n p, sg_offset = n, sg_cut = False\<rparr>"
  have n: "length (concat (map sg_payload segs)) = n" using parts by (simp add: parts_upto_def)
  show ?thesis
  proof (cases "n < length p \<or> segs = []")
    case True
    then have segments: "esc_segments p = segs @ [?last]" using parts run by (auto simp: esc_segments_def parts_upto_def)
    have "drop n p = [] \<Longrightarrow> p = []" using True parts by (auto simp: parts_upto_def)
    with parts n show ?thesis unfolding segments by (auto simp: divides_payload_def parts_upto_def nth_append less_Suc_eq)
  next
    case False
    then have "n = length p" "esc_segments p = segs" using parts run by (auto simp: esc_segments_def parts_upto_def)
    with parts show ?thesis by (auto simp: divides_payload_def parts_upto_def)
  qed
qed

section \<open>The tickets\<close>

lemma collect_each: "collect (map f xs) = Inr ys \<Longrightarrow> list_all2 (\<lambda>x y. f x = Inr y) xs ys"
proof (induction xs arbitrary: ys)
  case (Cons x xs)
  then show ?case by (cases "f x") (auto split: sum.splits)
qed simp

text \<open>What a document keeps of its part of the payload.\<close>

definition ticket_of :: "esc_env \<Rightarrow> rch_job \<Rightarrow> string \<Rightarrow> nat \<Rightarrow> bytes \<Rightarrow> document \<Rightarrow> bool" where
  "ticket_of env job enc start part d \<longleftrightarrow> part \<noteq> [] \<and> source_job_id d = job_id job \<and>
     get (raw_metadata d) ''source_start_offset'' = JInt (int start) \<and>
     get (raw_metadata d) ''source_end_offset'' = JInt (int (start + length part)) \<and> (complete d \<longrightarrow> holds_cut part) \<and>
     (\<exists>lm. semantic_lines (et_lines (extract_lines (ee_decode env) enc part start)) start = Inr (doc_lines d, lm))"

lemma as_esc_Inr: "as_esc x = Inr y \<longleftrightarrow> x = Inr y"
  by (cases x) (simp_all add: as_esc_def)

lemma segment_document_Inr:
  assumes "segment_document env job hash g enc s = Inr r"
  shows "if sg_payload s = [] then r = None else \<exists>x ls lm ol d. read_segment (ee_decode env) enc s = Inr x \<and>
    semantic_lines (et_lines x) (sg_offset s) = Inr (ls, lm) \<and> r = Some d \<and>
    operator_and_timestamp (ee_zones env) (job_zone job) (job_captured job) (et_text x) = Inr ol \<and>
    make_document (ticket env job hash g enc s x ls lm ol (raster_table_evidence env (sg_payload s) (sg_offset s))) = Inr d"
  using assms by (auto simp: segment_document_def attempt_eq_Inr as_esc_Inr map_sum_Inr split: if_splits)

lemma segment_document_Some:
  assumes "segment_document env job hash g enc s = Inr (Some d)"
  shows "sg_payload s \<noteq> [] \<and> (\<exists>x ls lm. read_segment (ee_decode env) enc s = Inr x \<and> semantic_lines (et_lines x) (sg_offset s) = Inr (ls, lm) \<and>
    doc_lines d = ls \<and> doc_type d = fst (ticket_type (et_text x) ls)) \<and> complete d = sg_cut s \<and> source_job_id d = job_id job \<and>
    get (raw_metadata d) ''source_start_offset'' = JInt (int (sg_offset s)) \<and>
    get (raw_metadata d) ''source_end_offset'' = JInt (int (sg_offset s + length (sg_payload s)))"
proof -
  from segment_document_Inr [OF assms] obtain x ls lm ol where "sg_payload s \<noteq> []" "read_segment (ee_decode env) enc s = Inr x"
    "semantic_lines (et_lines x) (sg_offset s) = Inr (ls, lm)"
    and d: "make_document (ticket env job hash g enc s x ls lm ol (raster_table_evidence env (sg_payload s) (sg_offset s))) = Inr d"
    by (auto split: if_splits)
  moreover from make_document_Inr [OF d] obtain m p where
    "d = ticket env job hash g enc s x ls lm ol (raster_table_evidence env (sg_payload s) (sg_offset s))\<lparr>source_manifest_sha256 := m, source_payload_sha256 := p\<rparr>"
    by blast
  ultimately show ?thesis by (simp add: ticket_def Let_def esc_metadata_def get_def)
qed

lemma segment_document_None: "segment_document env job hash g enc s = Inr r \<Longrightarrow> r = None \<longleftrightarrow> sg_payload s = []"
  by (auto dest: segment_document_Inr split: if_splits)

lemma not_empty_part:
  assumes "divides_payload p segs" and "p \<noteq> []" and "s \<in> set segs"
  shows "sg_payload s \<noteq> []"
  using assms by (auto simp: divides_payload_def in_set_conv_nth)

lemma esc_segments_Nil: "esc_segments [] = [\<lparr>sg_payload = [], sg_offset = 0, sg_cut = False\<rparr>]"
  by (simp add: esc_segments_def segment_loop.simps [of "[]"] max_segments_def)

lemma each_present:
  assumes "list_all2 (\<lambda>s r. f s = Inr r) xs rs" and "\<And>s r. f s = Inr r \<Longrightarrow> r = None \<longleftrightarrow> absent s"
  shows "list_all2 (\<lambda>s d. f s = Inr (Some d)) (filter (\<lambda>s. \<not> absent s) xs) (List.map_filter id rs)"
  using assms(1)
proof (induction xs rs rule: list_all2_induct)
  case (Cons s xs r rs)
  from Cons(3) assms(2) [OF Cons(1)] show ?case using Cons(1) by (cases r) (simp_all add: map_filter_simps)
qed (simp add: map_filter_simps)

lemma parse_escpos_each:
  assumes "parse_escpos env job enc bytes = Inr docs"
  shows "\<exists>hash g. list_all2 (\<lambda>s d. segment_document env job hash g enc s = Inr (Some d))
    (filter (\<lambda>s. sg_payload s \<noteq> []) (esc_segments (take esc_limit bytes))) docs"
proof -
  from assms obtain hash g ds where each: "collect (map (segment_document env job hash g enc) (esc_segments (take esc_limit bytes))) = Inr ds"
    and docs: "docs = List.map_filter id ds"
    by (auto simp: parse_escpos_def Let_def map_sum_Inr)
  have "list_all2 (\<lambda>s d. segment_document env job hash g enc s = Inr (Some d))
      (filter (\<lambda>s. \<not> sg_payload s = []) (esc_segments (take esc_limit bytes))) docs"
    unfolding docs by (rule each_present [OF collect_each [OF each] segment_document_None])
  then show ?thesis by blast
qed

text \<open>The documents stand on consecutive parts of the bytes, in order.\<close>

definition tickets_cover :: "esc_env \<Rightarrow> rch_job \<Rightarrow> string \<Rightarrow> bytes \<Rightarrow> bytes list \<Rightarrow> document list \<Rightarrow> bool" where
  "tickets_cover env job enc p parts docs \<longleftrightarrow> concat parts = p \<and> length docs = length parts \<and> length docs \<le> 1024 \<and>
     (\<forall>i < length docs. ticket_of env job enc (length (concat (take i parts))) (parts ! i) (docs ! i) \<and>
        (Suc i < length docs \<longrightarrow> complete (docs ! i)))"

text \<open>
  C33: no byte of a capture escapes its tickets. The documents of a payload stand on consecutive parts that
  together are the payload, up to the limit of 16 MiB; each document names its part, its lines are what
  the text of this part alone reads as, it is complete only if its part holds a cut command, and every
  document but the last one is complete.
\<close>

theorem tickets_cover_capture:
  assumes "parse_escpos env job enc bytes = Inr docs"
  shows "\<exists>parts. tickets_cover env job enc (take esc_limit bytes) parts docs"
proof -
  let ?p = "take esc_limit bytes"
  let ?segs = "filter (\<lambda>s. sg_payload s \<noteq> []) (esc_segments ?p)"
  note divide = esc_segments_divide [of ?p]
  have all: "?segs = (if ?p = [] then [] else esc_segments ?p)"
    using not_empty_part [OF divide] by (simp add: esc_segments_Nil filter_id_conv)
  have segs: "divides_payload ?p ?segs"
    using divide unfolding all by (cases "?p = []") (simp_all add: divides_payload_def)
  from parse_escpos_each [OF assms] obtain hash g where each:
    "list_all2 (\<lambda>s d. segment_document env job hash g enc s = Inr (Some d)) ?segs docs" by blast
  then have len: "length docs = length ?segs" by (simp add: list_all2_lengthD)
  have "ticket_of env job enc (length (concat (take i (map sg_payload ?segs)))) (map sg_payload ?segs ! i) (docs ! i) \<and>
      (Suc i < length docs \<longrightarrow> complete (docs ! i))" if "i < length docs" for i
  proof -
    have i: "i < length ?segs" using that len by simp
    note s = segment_document_Some [OF list_all2_nthD [OF each i]]
    have place: "sg_offset (?segs ! i) = length (concat (map sg_payload (take i ?segs)))"
      "sg_cut (?segs ! i) \<longrightarrow> holds_cut (sg_payload (?segs ! i))" "Suc i < length ?segs \<longrightarrow> sg_cut (?segs ! i)"
      using segs i by (simp_all add: divides_payload_def)
    from s obtain x lm where x: "read_segment (ee_decode env) enc (?segs ! i) = Inr x"
      "semantic_lines (et_lines x) (sg_offset (?segs ! i)) = Inr (doc_lines (docs ! i), lm)" by blast
    then have "x = extract_lines (ee_decode env) enc (sg_payload (?segs ! i)) (sg_offset (?segs ! i))"
      by (simp add: read_segment_def split: if_splits)
    with s place x i len show ?thesis by (auto simp: ticket_of_def take_map)
  qed
  moreover have "concat (map sg_payload ?segs) = ?p" "length docs \<le> 1024"
    using segs len by (simp_all add: divides_payload_def max_segments_def)
  ultimately show ?thesis using len by (intro exI [of _ "map sg_payload ?segs"]) (simp add: tickets_cover_def)
qed

lemma parse_escpos_names:
  assumes "parse_escpos env job enc bytes = Inr docs"
  shows "\<forall>d \<in> set docs. parser_name d = esc_parser_name"
proof
  fix d assume "d \<in> set docs"
  with parse_escpos_each [OF assms] obtain hash g s where "segment_document env job hash g enc s = Inr (Some d)"
    by (auto simp: list_all2_conv_all_nth in_set_conv_nth)
  from segment_document_Inr [OF this] obtain x ls lm ol te where "make_document (ticket env job hash g enc s x ls lm ol te) = Inr d"
    by (auto split: if_splits)
  from make_document_Inr [OF this] show "parser_name d = esc_parser_name" by (auto simp: ticket_def Let_def)
qed

end
