(* ===== verification/Beeper.thy ===== *)
theory Beeper imports EscDocuments begin

text \<open>
  The notification of kitchen orders: \<^verbatim>\<open>parser/beeper.py\<close> (the fast classification, the configuration, the
  command and the bounded queues of the dispatcher) and \<^verbatim>\<open>parser/spool_beeper.py\<close> (the watcher over captures
  that are not published yet). The file system is an argument of a scan; the socket is not modelled.
\<close>

section \<open>Complete commands\<close>

definition kitchen_segment :: "(string \<Rightarrow> bytes \<Rightarrow> string option) \<Rightarrow> string \<Rightarrow> esc_segment \<Rightarrow> esc_error + bool" where
  "kitchen_segment decode enc s = attempt (read_segment decode enc s) (\<lambda>x.
     attempt (semantic_lines (et_lines x) (sg_offset s)) (\<lambda>(ls, lm). Inr (fst (ticket_type (et_text x) ls) = KITCHEN_ORDER)))"

fun kitchen_among :: "(string \<Rightarrow> bytes \<Rightarrow> string option) \<Rightarrow> string \<Rightarrow> esc_segment list \<Rightarrow> esc_error + bool" where
  "kitchen_among decode enc [] = Inr False"
| "kitchen_among decode enc (s # ss) = (if sg_payload s = [] \<or> \<not> sg_cut s then kitchen_among decode enc ss
     else attempt (kitchen_segment decode enc s) (\<lambda>b. if b then Inr True else kitchen_among decode enc ss))"

definition is_complete_pos_command :: "(string \<Rightarrow> bytes \<Rightarrow> string option) \<Rightarrow> string \<Rightarrow> bytes \<Rightarrow> esc_error + bool" where
  "is_complete_pos_command decode enc bs = kitchen_among decode enc (esc_segments (take esc_limit bs))"

section \<open>Configuration\<close>

record beeper_configuration =
  bc_enabled :: bool
  bc_count :: int
  bc_on_ms :: int
  bc_off_ms :: int
  bc_timeout :: rat
  bc_queue_size :: int
  bc_selectors :: "string list option"
  bc_poll :: rat

definition default_configuration :: beeper_configuration where
  "default_configuration = \<lparr>bc_enabled = False, bc_count = 3, bc_on_ms = 300, bc_off_ms = 200, bc_timeout = 1, bc_queue_size = 64,
     bc_selectors = None, bc_poll = 1 / 10\<rparr>"

text \<open>\<^verbatim>\<open>__post_init__\<close>: \<open>None\<close> where it raises \<^verbatim>\<open>ValueError\<close>.\<close>

definition pause_ok :: "int \<Rightarrow> bool" where "pause_ok ms = (0 \<le> ms \<and> ms \<le> 25500 \<and> ms mod 100 = 0)"

definition make_configuration :: "beeper_configuration \<Rightarrow> beeper_configuration option" where
  "make_configuration c = (if \<not> (1 \<le> bc_count c \<and> bc_count c \<le> 63) then None
     else if \<not> pause_ok (bc_on_ms c) \<or> \<not> pause_ok (bc_off_ms c) then None
     else if \<not> (1 / 10 \<le> bc_timeout c \<and> bc_timeout c \<le> 10) then None
     else if \<not> (1 \<le> bc_queue_size c \<and> bc_queue_size c \<le> 1000) then None
     else if \<not> (1 / 20 \<le> bc_poll c \<and> bc_poll c \<le> 1) then None else Some c)"

text \<open>The environment; \<^verbatim>\<open>float\<close> of a text is a parameter.\<close>

definition environment_bool :: "(string \<rightharpoonup> string) \<Rightarrow> string \<Rightarrow> bool \<Rightarrow> bool option" where
  "environment_bool env name dflt = (case env name of None \<Rightarrow> Some dflt
    | Some raw \<Rightarrow> (let v = lower (strip raw) in
        if v \<in> {''1'', ''true'', ''yes'', ''on''} then Some True
        else if v \<in> {''0'', ''false'', ''no'', ''off''} then Some False else None))"

definition environment_int :: "(string \<rightharpoonup> string) \<Rightarrow> string \<Rightarrow> int \<Rightarrow> int \<Rightarrow> int \<Rightarrow> int option" where
  "environment_int env name dflt lo hi = (case (case env name of None \<Rightarrow> Some dflt | Some raw \<Rightarrow> int_of_text raw) of
      None \<Rightarrow> None | Some v \<Rightarrow> if lo \<le> v \<and> v \<le> hi then Some v else None)"

definition environment_float :: "(string \<Rightarrow> rat option) \<Rightarrow> (string \<rightharpoonup> string) \<Rightarrow> string \<Rightarrow> rat \<Rightarrow> rat \<Rightarrow> rat \<Rightarrow> rat option" where
  "environment_float float env name dflt lo hi = (case (case env name of None \<Rightarrow> Some dflt | Some raw \<Rightarrow> float raw) of
      None \<Rightarrow> None | Some v \<Rightarrow> if lo \<le> v \<and> v \<le> hi then Some v else None)"

definition device_selector_re :: rx where
  "device_selector_re = cats [AtStart, lit ''pos_'', Cls (\<lambda>c. 97 \<le> code c \<and> code c \<le> 122 \<or> is_digit c),
     between 0 59 (Cls (\<lambda>c. 97 \<le> code c \<and> code c \<le> 122 \<or> is_digit c \<or> c = CHR ''_'' \<or> c = CHR ''-'')), AtEnd]"

definition device_number_re :: rx where
  "device_number_re = cats [AtStart, lit ''pos_'', Star (lit ''0''),
     Group ''number'' (Cat (Cls (\<lambda>c. is_digit c \<and> c \<noteq> CHR ''0'')) (Star digit)), AtEnd]"

definition selector_of :: "string \<Rightarrow> string option" where
  "selector_of item = (let s = lower (strip item) in
     if s \<noteq> [] \<and> list_all is_digit s then (let n = digits_value 0 s in if 1 \<le> n \<and> n \<le> 256 then Some (digits n) else None)
     else if matches (rx_full device_selector_re s) then Some s else None)"

fun selectors_from :: "string list \<Rightarrow> string list \<Rightarrow> string list option" where
  "selectors_from seen [] = Some seen"
| "selectors_from seen (item # items) = (case selector_of item of None \<Rightarrow> None
     | Some s \<Rightarrow> if s \<in> set seen then None else selectors_from (seen @ [s]) items)"

definition environment_selectors :: "(string \<rightharpoonup> string) \<Rightarrow> string list option option" where
  "environment_selectors env = (case env ''RPG_POS_BEEPER_PRINTER'' of None \<Rightarrow> Some None
    | Some raw \<Rightarrow> if lower (strip raw) = ''all'' then Some None else if strip raw = [] then None
        else map_option Some (selectors_from [] (split_on (CHR '','') [] raw)))"

definition configuration_from_environment :: "(string \<Rightarrow> rat option) \<Rightarrow> (string \<rightharpoonup> string) \<Rightarrow> beeper_configuration option" where
  "configuration_from_environment float env =
     (case (environment_bool env ''RPG_POS_BEEPER_ENABLED'' False, environment_int env ''RPG_POS_BEEPER_COUNT'' 3 1 63,
            environment_int env ''RPG_POS_BEEPER_ON_MS'' 300 0 25500, environment_int env ''RPG_POS_BEEPER_OFF_MS'' 200 0 25500,
            environment_float float env ''RPG_POS_BEEPER_CONNECT_TIMEOUT_SECONDS'' 1 (1 / 10) 10,
            environment_int env ''RPG_POS_BEEPER_QUEUE_SIZE_PER_DEVICE'' 64 1 1000, environment_selectors env,
            environment_float float env ''RPG_POS_BEEPER_SPOOL_POLL_SECONDS'' (1 / 10) (1 / 20) 1) of
        (Some e, Some n, Some on_ms, Some off_ms, Some timeout, Some queue_size, Some selectors, Some poll) \<Rightarrow>
          make_configuration \<lparr>bc_enabled = e, bc_count = n, bc_on_ms = on_ms, bc_off_ms = off_ms, bc_timeout = timeout,
            bc_queue_size = queue_size, bc_selectors = selectors, bc_poll = poll\<rparr>
      | _ \<Rightarrow> None)"

definition numbered_device :: "string \<Rightarrow> string option" where
  "numbered_device d = map_option (\<lambda>m. digits (field_value m ''number'')) (rx_full device_number_re d)"

definition selects_device :: "beeper_configuration \<Rightarrow> string \<Rightarrow> bool" where
  "selects_device c device = (case bc_selectors c of None \<Rightarrow> True
     | Some ss \<Rightarrow> let d = lower (strip device) in d \<in> set ss \<or> (case numbered_device d of None \<Rightarrow> False | Some n \<Rightarrow> n \<in> set ss))"

definition selection_ok :: "beeper_configuration \<Rightarrow> string list \<Rightarrow> bool" where
  "selection_ok c devices = (case bc_selectors c of None \<Rightarrow> True
     | Some ss \<Rightarrow> list_all (\<lambda>s. list_ex (\<lambda>d. s = lower d \<or> numbered_device (lower d) = Some s) devices) ss)"

text \<open>\<^verbatim>\<open>ESC ( A\<close> with five bytes of parameters.\<close>

definition beep_prefix :: bytes where "beep_prefix = [0x1B, 0x28, 0x41, 0x05, 0x00, 0x61, 0x64]"

definition beep_command :: "beeper_configuration \<Rightarrow> bytes" where
  "beep_command c = beep_prefix @ map word_of_int [bc_count c, bc_on_ms c div 100, bc_off_ms c div 100]"

definition build_pos80_beep_command :: "int \<Rightarrow> int \<Rightarrow> int \<Rightarrow> bytes option" where
  "build_pos80_beep_command n on_ms off_ms =
     map_option beep_command (make_configuration (default_configuration\<lparr>bc_count := n, bc_on_ms := on_ms, bc_off_ms := off_ms\<rparr>))"

definition pattern_ms :: "beeper_configuration \<Rightarrow> int" where
  "pattern_ms c = bc_count c * (bc_on_ms c + bc_off_ms c)"

record beeper_target =
  bt_device :: string
  bt_host :: string
  bt_port :: int

definition make_target :: "beeper_target \<Rightarrow> beeper_target option" where
  "make_target t = (if bt_device t = [] \<or> bt_host t = [] \<or> \<not> (1 \<le> bt_port t \<and> bt_port t \<le> 65535) then None else Some t)"

text \<open>
  The command says what was configured. When the builder accepts a pattern, its command is the prefix and
  three bytes from which the number of tones and both durations are read back exactly; the pattern then
  lasts at most 63 times 51 seconds.
\<close>

theorem beep_command_exact:
  assumes "build_pos80_beep_command n on_ms off_ms = Some c"
  shows "\<exists>x y z. c = beep_prefix @ [x, y, z] \<and> uint x = n \<and> 100 * uint y = on_ms \<and> 100 * uint z = off_ms \<and>
    pattern_ms (default_configuration\<lparr>bc_count := n, bc_on_ms := on_ms, bc_off_ms := off_ms\<rparr>) \<le> 63 * 51000"
proof -
  from assms have c: "c = beep_prefix @ map word_of_int [n, on_ms div 100, off_ms div 100]"
    and ok: "1 \<le> n" "n \<le> 63" "pause_ok on_ms" "pause_ok off_ms"
    by (auto simp: build_pos80_beep_command_def make_configuration_def beep_command_def default_configuration_def split: if_splits)
  then have small: "on_ms div 100 \<in> {0..255}" "off_ms div 100 \<in> {0..255}"
    and exact: "100 * (on_ms div 100) = on_ms" "100 * (off_ms div 100) = off_ms" by (auto simp: pause_ok_def)
  have read_back: "uint (word_of_int k :: byte) = k" if "k \<in> {0..255}" for k
    using that by (simp add: uint_word_of_int take_bit_eq_mod)
  have "n * (on_ms + off_ms) \<le> 63 * 51000" using ok by (intro mult_mono) (auto simp: pause_ok_def)
  then show ?thesis
    using c read_back small exact ok by (intro exI [of _ "word_of_int n"] exI [of _ "word_of_int (on_ms div 100)"] exI [of _ "word_of_int (off_ms div 100)"])
      (simp add: pattern_ms_def default_configuration_def)
qed

theorem beep_command_exact_witness:
  "\<exists>c x y z. build_pos80_beep_command 3 300 200 = Some c \<and> c = beep_prefix @ [x, y, z] \<and> uint x = 3 \<and> 100 * uint y = 300 \<and> 100 * uint z = 200"
proof -
  have "build_pos80_beep_command 3 300 200 = Some (beep_prefix @ [3, 3, 2])"
    by (simp add: build_pos80_beep_command_def make_configuration_def beep_command_def default_configuration_def pause_ok_def)
  from beep_command_exact [OF this] this show ?thesis by blast
qed

section \<open>The dispatcher\<close>

definition recent_event_limit :: nat where "recent_event_limit = 10000"

text \<open>\<open>ds_queued\<close> is the length of the queue of a device, \<open>ds_sent\<close> the devices a command was sent to, in order.\<close>

record dispatcher =
  ds_configuration :: beeper_configuration
  ds_targets :: "string list"
  ds_queued :: "string \<Rightarrow> nat"
  ds_recent :: "(string \<times> string) list"
  ds_stopped :: bool
  ds_sent :: "string list"

definition make_dispatcher :: "beeper_configuration \<Rightarrow> beeper_target list \<Rightarrow> dispatcher option" where
  "make_dispatcher c targets = (let names = map bt_device targets in
     if 256 < length targets \<or> \<not> distinct names \<or> bc_enabled c \<and> names = [] then None
     else Some \<lparr>ds_configuration = c, ds_targets = names, ds_queued = (\<lambda>_. 0), ds_recent = [], ds_stopped = False, ds_sent = []\<rparr>)"

definition event_key :: "string \<Rightarrow> string option \<Rightarrow> (string \<times> string) option" where
  "event_key device event = map_option (\<lambda>e. (device, strip e)) event"

definition event_ok :: "string option \<Rightarrow> bool" where
  "event_ok event = (case event of None \<Rightarrow> True | Some e \<Rightarrow> strip e \<noteq> [] \<and> length (strip e) \<le> 256)"

definition remember :: "(string \<times> string) option \<Rightarrow> (string \<times> string) list \<Rightarrow> (string \<times> string) list" where
  "remember key recent = (case key of None \<Rightarrow> recent
     | Some k \<Rightarrow> let r = recent @ [k] in drop (length r - recent_event_limit) r)"

text \<open>\<^verbatim>\<open>enqueue\<close>: \<open>None\<close> where it raises.\<close>

definition enqueue :: "string \<Rightarrow> string option \<Rightarrow> dispatcher \<Rightarrow> bool option \<times> dispatcher" where
  "enqueue device event d =
     (if \<not> bc_enabled (ds_configuration d) \<or> ds_stopped d then (Some False, d)
      else if device \<notin> set (ds_targets d) then (Some False, d)
      else if \<not> event_ok event then (None, d)
      else let key = event_key device event in
        if key \<noteq> None \<and> the key \<in> set (ds_recent d) then (Some False, d)
        else if bc_queue_size (ds_configuration d) \<le> int (ds_queued d device) then (Some False, d)
        else (Some True, d\<lparr>ds_queued := (ds_queued d)(device := ds_queued d device + 1), ds_recent := remember key (ds_recent d)\<rparr>))"

definition supports :: "dispatcher \<Rightarrow> string \<Rightarrow> bool" where
  "supports d device = (device \<in> set (ds_targets d))"

text \<open>The thread of a device takes one trigger and sends the command; a failure of the socket is only logged.\<close>

definition send_next :: "string \<Rightarrow> dispatcher \<Rightarrow> dispatcher" where
  "send_next device d = (if ds_stopped d \<or> ds_queued d device = 0 then d
     else d\<lparr>ds_queued := (ds_queued d)(device := ds_queued d device - 1), ds_sent := ds_sent d @ [device]\<rparr>)"

definition close_dispatcher :: "dispatcher \<Rightarrow> dispatcher" where
  "close_dispatcher d = d\<lparr>ds_stopped := True\<rparr>"

datatype beeper_call = Enqueue string "string option" | Send string | Close

text \<open>One call, with the keys of the events that were accepted so far.\<close>

fun dispatch :: "beeper_call \<Rightarrow> dispatcher \<times> (string \<times> string) list \<Rightarrow> dispatcher \<times> (string \<times> string) list" where
  "dispatch (Enqueue device event) (d, told) = (case enqueue device event d of (r, d1) \<Rightarrow>
     (d1, if r = Some True then told @ (case event_key device event of None \<Rightarrow> [] | Some k \<Rightarrow> [k]) else told))"
| "dispatch (Send device) (d, told) = (send_next device d, told)"
| "dispatch Close (d, told) = (close_dispatcher d, told)"

section \<open>The watcher\<close>

definition max_device_entries :: nat where "max_device_entries = 512"

record dir_entry =
  de_name :: string
  de_link :: bool
  de_dir :: bool
  de_fault :: bool

datatype root_view = RootMissing | RootOther | RootFault | RootEntries "dir_entry list"

text \<open>A file that may grow: what opening, \<^verbatim>\<open>fstat\<close> and reading it give.\<close>

record growing_file =
  gf_opens :: bool
  gf_regular :: bool
  gf_size :: nat
  gf_data :: bytes
  gf_same :: bool

definition read_growing :: "nat \<Rightarrow> growing_file \<Rightarrow> bytes option" where
  "read_growing maximum f = (if \<not> gf_opens f \<or> \<not> gf_regular f \<or> \<not> (1 \<le> gf_size f \<and> gf_size f \<le> maximum) \<or> \<not> gf_same f then None
     else let p = take (gf_size f) (gf_data f) in if length p = gf_size f then Some p else None)"

type_synonym job_path = "string \<times> string"

record spool_view =
  sv_root :: "string \<Rightarrow> root_view"
  sv_size :: "job_path \<Rightarrow> nat option"
  sv_file :: "job_path \<Rightarrow> growing_file"

record watcher =
  wt_devices :: "string list"
  wt_maximum :: nat
  wt_sizes :: "(job_path \<times> nat) list"
  wt_notified :: "job_path list"
  wt_beeper :: dispatcher

datatype watch_error = ClassifierRaised esc_error | InvalidEventId

definition make_watcher :: "string list \<Rightarrow> nat \<Rightarrow> rat \<Rightarrow> dispatcher \<Rightarrow> watcher option" where
  "make_watcher devices maximum poll d = (if \<not> (1 / 20 \<le> poll \<and> poll \<le> 1) \<or> \<not> (1 \<le> maximum \<and> maximum \<le> esc_limit) \<or> devices = [] then None
     else Some \<lparr>wt_devices = uniq devices, wt_maximum = maximum, wt_sizes = [], wt_notified = [], wt_beeper = d\<rparr>)"

definition partial_suffix :: string where "partial_suffix = ''.partial''"

definition scan_candidates :: "string \<Rightarrow> root_view \<Rightarrow> job_path list" where
  "scan_candidates device view = (case view of
      RootEntries es \<Rightarrow> map (\<lambda>e. (device, de_name e)) (filter (\<lambda>e. \<not> de_fault e \<and> ends_with partial_suffix (de_name e) \<and> \<not> de_link e \<and> de_dir e)
        (take max_device_entries es))
    | _ \<Rightarrow> [])"

definition scan_job :: "(string \<Rightarrow> bytes \<Rightarrow> string option) \<Rightarrow> spool_view \<Rightarrow> job_path \<Rightarrow> watcher \<Rightarrow> watch_error + watcher" where
  "scan_job decode v path w = (if path \<in> set (wt_notified w) then Inr w
     else case sv_size v path of None \<Rightarrow> Inr w
     | Some n \<Rightarrow> if map_of (wt_sizes w) path = Some n then Inr w
       else let w1 = w\<lparr>wt_sizes := AList.update path n (wt_sizes w)\<rparr> in
         case read_growing (wt_maximum w) (sv_file v path) of None \<Rightarrow> Inr w1
         | Some data \<Rightarrow> (case is_complete_pos_command decode ''cp858'' data of Inl x \<Rightarrow> Inl (ClassifierRaised x)
           | Inr False \<Rightarrow> Inr w1
           | Inr True \<Rightarrow> (case enqueue (fst path) (Some (removesuffix partial_suffix (snd path))) (wt_beeper w1) of
               (None, d) \<Rightarrow> Inl InvalidEventId
             | (Some queued, d) \<Rightarrow> Inr (w1\<lparr>wt_beeper := d, wt_notified := (if queued then wt_notified w1 @ [path] else wt_notified w1)\<rparr>))))"

definition scan_device :: "(string \<Rightarrow> bytes \<Rightarrow> string option) \<Rightarrow> spool_view \<Rightarrow> string \<Rightarrow> watcher \<Rightarrow> watch_error + watcher" where
  "scan_device decode v device w = attempt_all (scan_job decode v) (scan_candidates device (sv_root v device)) w"

text \<open>A scan forgets what is no longer in the directories; a directory that cannot be read counts as empty.\<close>

definition scan_once :: "(string \<Rightarrow> bytes \<Rightarrow> string option) \<Rightarrow> spool_view \<Rightarrow> watcher \<Rightarrow> watch_error + watcher" where
  "scan_once decode v w = attempt (attempt_all (scan_device decode v) (wt_devices w) w) (\<lambda>w1.
     let present = concat (map (\<lambda>d. scan_candidates d (sv_root v d)) (wt_devices w)) in
     Inr (w1\<lparr>wt_sizes := filter (\<lambda>s. fst s \<in> set present) (wt_sizes w1), wt_notified := filter (\<lambda>p. p \<in> set present) (wt_notified w1)\<rparr>))"

text \<open>The thread: an error that is not an \<^verbatim>\<open>OSError\<close> ends it.\<close>

fun watch :: "(string \<Rightarrow> bytes \<Rightarrow> string option) \<Rightarrow> spool_view list \<Rightarrow> watcher \<Rightarrow> watch_error option \<times> watcher" where
  "watch decode [] w = (None, w)"
| "watch decode (v # vs) w = (case scan_once decode v w of Inl x \<Rightarrow> (Some x, w) | Inr w1 \<Rightarrow> watch decode vs w1)"

lemma enqueue_accepts:
  assumes "enqueue device event d = (Some True, e)"
  shows "event_ok event \<and> device \<in> set (ds_targets e) \<and> (\<forall>k. event_key device event = Some k \<longrightarrow> k \<in> set (ds_recent e)) \<and>
    ds_queued e device \<le> nat (bc_queue_size (ds_configuration e))"
  using assms by (auto simp: enqueue_def remember_def recent_event_limit_def Let_def split: if_splits option.splits)

section \<open>The classification agrees with the parser\<close>

lemma kitchen_among_present: "kitchen_among decode enc (filter (\<lambda>s. \<not> sg_payload s = []) segs) = kitchen_among decode enc segs"
  by (induction segs) (auto simp: attempt_def split: sum.split)

lemma kitchen_among_tickets:
  assumes "list_all2 (\<lambda>s d. segment_document env job hash g enc s = Inr (Some d)) segs docs"
  shows "kitchen_among (ee_decode env) enc segs = Inr (\<exists>d \<in> set docs. complete d \<and> doc_type d = KITCHEN_ORDER)"
  using assms
proof (induction segs docs rule: list_all2_induct)
  case (Cons s segs d docs)
  from segment_document_Some [OF Cons(1)] obtain x lm where "sg_payload s \<noteq> []" "complete d = sg_cut s"
    "read_segment (ee_decode env) enc s = Inr x" "semantic_lines (et_lines x) (sg_offset s) = Inr (doc_lines d, lm)"
    "doc_type d = fst (ticket_type (et_text x) (doc_lines d))" by blast
  with Cons(3) show ?case by (simp add: kitchen_segment_def)
qed simp

text \<open>
  C34: the notification agrees with the parser. Whenever the parser reads a payload, the fast classification
  answers, and it says yes exactly when one of the parser's documents is a complete kitchen order.
\<close>

theorem beeper_in_lockstep:
  assumes "parse_escpos env job enc bytes = Inr docs"
  shows "is_complete_pos_command (ee_decode env) enc bytes = Inr (\<exists>d \<in> set docs. complete d \<and> doc_type d = KITCHEN_ORDER)"
proof -
  from parse_escpos_each [OF assms] obtain hash g where "list_all2 (\<lambda>s d. segment_document env job hash g enc s = Inr (Some d))
    (filter (\<lambda>s. \<not> sg_payload s = []) (esc_segments (take esc_limit bytes))) docs" by blast
  from kitchen_among_tickets [OF this] show ?thesis by (simp only: kitchen_among_present is_complete_pos_command_def)
qed

section \<open>Each event is announced once\<close>

text \<open>What is remembered are the last accepted events; between two acceptances of one event lie more than the limit.\<close>

definition announced :: "dispatcher \<times> (string \<times> string) list \<Rightarrow> bool" where
  "announced s \<longleftrightarrow> (case s of (d, told) \<Rightarrow> ds_recent d = drop (length told - recent_event_limit) told \<and>
     (\<forall>i j. i < j \<longrightarrow> j < length told \<longrightarrow> told ! i = told ! j \<longrightarrow> recent_event_limit < j - i))"

lemma announced_snoc:
  assumes "announced (d, told)" and "k \<notin> set (ds_recent d)" and "ds_recent e = remember (Some k) (ds_recent d)"
  shows "announced (e, told @ [k])"
proof -
  have recent: "ds_recent d = drop (length told - recent_event_limit) told" using assms(1) by (simp add: announced_def)
  have "recent_event_limit < length told - i" if "i < length told" "told ! i = k" for i
  proof (rule ccontr)
    assume "\<not> recent_event_limit < length told - i"
    with that(1) have "told ! i \<in> set (drop (length told - recent_event_limit) told)"
      by (auto simp: in_set_conv_nth intro!: exI [of _ "i - (length told - recent_event_limit)"])
    with assms(2) recent that(2) show False by simp
  qed
  then have "recent_event_limit < j - i" if "i < j" "j < length (told @ [k])" "(told @ [k]) ! i = (told @ [k]) ! j" for i j
    using that assms(1) by (cases "j = length told") (auto simp: announced_def nth_append)
  moreover have "drop (length (ds_recent d @ [k]) - recent_event_limit) (ds_recent d @ [k]) =
      drop (length (told @ [k]) - recent_event_limit) (told @ [k])"
    unfolding recent by (cases "length told < recent_event_limit") (auto simp: recent_event_limit_def intro!: arg_cong [where f = "\<lambda>n. drop n told"])
  ultimately show ?thesis using assms(3) by (simp add: announced_def remember_def Let_def)
qed

lemma dispatch_announced: "announced s \<Longrightarrow> announced (dispatch c s)"
proof (induction c s rule: dispatch.induct)
  case (1 device event d told)
  obtain r e where en: "enqueue device event d = (r, e)" by fastforce
  show ?case
  proof (cases "r = Some True")
    case True
    with en have ok: "ds_recent e = remember (event_key device event) (ds_recent d)"
      and new: "event_key device event \<noteq> None \<longrightarrow> the (event_key device event) \<notin> set (ds_recent d)"
      by (auto simp: enqueue_def Let_def split: if_splits)
    show ?thesis
    proof (cases "event_key device event")
      case None
      with 1 ok True en show ?thesis by (simp add: announced_def remember_def)
    next
      case (Some k)
      with announced_snoc [OF 1, of k e] ok new True en show ?thesis by simp
    qed
  next
    case False
    with en have "e = d" by (auto simp: enqueue_def Let_def split: if_splits)
    with 1 False en show ?thesis by simp
  qed
qed (auto simp: announced_def send_next_def close_dispatcher_def)

text \<open>
  A capture is announced once. Whatever the watcher, the worker and the device threads do, in which order
  and with how many other events, any 10001 events that the dispatcher accepts one after the other are
  pairwise different.
\<close>

theorem event_announced_once:
  assumes "make_dispatcher c targets = Some d" and "fold dispatch calls (d, []) = (e, told)"
  shows "distinct (take 10001 (drop k told))"
proof -
  have "announced (d, [])" using assms(1) by (auto simp: make_dispatcher_def announced_def Let_def split: if_splits)
  then have "announced (fold dispatch calls (d, []))" by (induction calls arbitrary: d rule: rev_induct) (auto simp: dispatch_announced)
  with assms(2) have far: "10000 < j - i" if "i < j" "j < length told" "told ! i = told ! j" for i j
    using that by (auto simp: announced_def recent_event_limit_def)
  have "take 10001 (drop k told) ! i \<noteq> take 10001 (drop k told) ! j" if "i < j" "j < length (take 10001 (drop k told))" for i j
  proof
    assume eq: "take 10001 (drop k told) ! i = take 10001 (drop k told) ! j"
    have "k + j < length told" "j < 10001" using that by auto
    with far [of "k + i" "k + j"] that eq show False by simp
  qed
  then show ?thesis unfolding distinct_conv_nth by (metis nat_neq_iff)
qed

text \<open>The watcher and the worker announce one capture: the second announcement is refused.\<close>

theorem event_announced_once_witness:
  "\<exists>d e. make_dispatcher (default_configuration\<lparr>bc_enabled := True\<rparr>) [\<lparr>bt_device = ''pos_1'', bt_host = ''h'', bt_port = 9100\<rparr>] = Some d \<and>
     fold dispatch [Enqueue ''pos_1'' (Some ''job''), Send ''pos_1'', Enqueue ''pos_1'' (Some ''job'')] (d, []) = (e, [(''pos_1'', ''job'')]) \<and>
     distinct (take 10001 (drop 0 [(''pos_1'', ''job'')]))"
proof -
  let ?c = "default_configuration\<lparr>bc_enabled := True\<rparr>" and ?t = "[\<lparr>bt_device = ''pos_1'', bt_host = ''h'', bt_port = 9100\<rparr>]"
  obtain d where d: "make_dispatcher ?c ?t = Some d" by (simp add: make_dispatcher_def)
  have word: "strip ''job'' = ''job''" by code_simp
  from d have "\<exists>e. fold dispatch [Enqueue ''pos_1'' (Some ''job''), Send ''pos_1'', Enqueue ''pos_1'' (Some ''job'')] (d, []) = (e, [(''pos_1'', ''job'')])"
    by (auto simp: make_dispatcher_def Let_def enqueue_def default_configuration_def event_key_def event_ok_def word remember_def
        recent_event_limit_def send_next_def)
  then obtain e where e: "fold dispatch [Enqueue ''pos_1'' (Some ''job''), Send ''pos_1'', Enqueue ''pos_1'' (Some ''job'')] (d, []) = (e, [(''pos_1'', ''job'')])" ..
  from event_announced_once [OF d e, of 0] d e show ?thesis by blast
qed

end
