(* ===== verification/EscExample.thy ===== *)
theory EscExample imports Beeper begin

text \<open>A kitchen order of one word and a cut, read by the parser and by the notification.\<close>

section \<open>A ticket\<close>

definition latin1_page :: "string \<Rightarrow> bytes \<Rightarrow> string option" where
  "latin1_page enc bs = Some (map (\<lambda>b. chr (unat b)) bs)"

definition kitchen_payload :: bytes where
  "kitchen_payload = [0x43, 0x55, 0x43, 0x49, 0x4E, 0x41, 0x1D, 0x56, 0x00]"

definition kitchen_env :: esc_env where
  "kitchen_env = \<lparr>ee_uuid5 = (\<lambda>_. 0), ee_sha256 = (\<lambda>_. 0), ee_zones = (\<lambda>_. None), ee_decode = latin1_page, ee_engine = (\<lambda>_. OcrNothing),
     ee_backend = ''tesseract:none'', ee_float = (\<lambda>_. JNull)\<rparr>"

definition kitchen_job :: rch_job where
  "kitchen_job = \<lparr>job_device = ''pos_1'', job_session = None, job_id = ''job'', job_captured = 0, job_manifest = replicate 64 (CHR ''a''),
     job_path = ''/spool/pos_1/job/client.raw'', job_response_path = None, job_zone = ''Europe/Rome''\<rparr>"

definition kitchen_segment_value :: esc_segment where
  "kitchen_segment_value = \<lparr>sg_payload = kitchen_payload, sg_offset = 0, sg_cut = True\<rparr>"

definition kitchen_text :: string where "kitchen_text = ''CUCINA<ESC/POS:CUT>''"

lemma kitchen_segments: "esc_segments (take esc_limit kitchen_payload) = [kitchen_segment_value]"
proof -
  have find: "find_bytes [0x1D, 0x56] kitchen_payload 0 = Some 6" "find_bytes [0x1B, 0x6D] kitchen_payload 0 = None"
    "find_bytes [0x1B, 0x40] kitchen_payload 9 = None" by code_simp+
  have next_is: "next_cut kitchen_payload 0 = CutTo 9"
    by (simp add: next_cut_def cut_marker_def find next_init_def Let_def) (simp add: kitchen_payload_def)
  have long: "length kitchen_payload = 9" by (simp add: kitchen_payload_def)
  have "segment_loop kitchen_payload [] 0 0 = ([kitchen_segment_value], 9)"
    by (subst segment_loop.simps, simp add: next_is long max_segments_def)
      (subst segment_loop.simps, simp add: long kitchen_segment_value_def segment_def)
  moreover have "take esc_limit kitchen_payload = kitchen_payload" by (simp add: esc_limit_def long)
  ultimately show ?thesis by (simp add: esc_segments_def long max_segments_def)
qed

text \<open>The text and the one line of the ticket.\<close>

lemma kitchen_extract: "extract_lines latin1_page ''cp858'' kitchen_payload 0 =
  \<lparr>et_lines = [\<lparr>tl_text = ''CUCINA'', tl_offset = 0, tl_length = 6\<rparr>], et_text = kitchen_text, et_warnings = []\<rparr>"
proof -
  have label: "strip (''CUCINA'' @ ''<ESC/POS:CUT>'') = kitchen_text" "map (\<lambda>b. chr (unat b)) [0x43, 0x55, 0x43, 0x49, 0x4E, 0x41 :: byte] = ''CUCINA''"
    by code_simp+
  have stop: "extract_loop latin1_page kitchen_payload 0 9 x = (9, x)" for x
    by (subst extract_loop.simps) (simp add: kitchen_payload_def)
  show ?thesis
    unfolding extract_lines_def
    by (simp add: extract_loop.simps extract_step_def gs_command_def kitchen_payload_def Let_def buffered_def control_def emit_text_def decoded_def
        latin1_page_def max_output_chars_def max_text_lines_def stop [unfolded kitchen_payload_def] label [simplified] uniq_def warn_def)
qed

lemma kitchen_line:
  "squeeze ''CUCINA'' = ''CUCINA''" "rx_match course_re ''CUCINA'' = None" "rx_match covers_re ''CUCINA'' = None"
  "rx_match esc_item_re ''CUCINA'' = None" "is_non_item_line ''CUCINA'' = False" "split_amount ''CUCINA'' = None" "total_heading ''CUCINA'' = False"
  by code_simp+

lemma kitchen_semantics: "semantic_lines [\<lparr>tl_text = ''CUCINA'', tl_offset = 0, tl_length = 6\<rparr>] 0 = Inr ([], [])"
  by (simp add: semantic_lines_def semantic_step_def kitchen_line Let_def finish_active_def plain_line_def line_metadata_def)

lemma kitchen_type: "esc_classify kitchen_text = (KITCHEN_ORDER, ''COMANDA_LITERAL'')"
proof -
  have "contains ''COPIA CONFORME'' (upper kitchen_text) = False" "contains ''RISTAMPA'' (upper kitchen_text) = False"
    "contains ''ANNULL'' (upper kitchen_text) = False" "contains ''STORNO'' (upper kitchen_text) = False"
    "contains ''PRECONTO'' (upper kitchen_text) = False" "contains ''PRE-CONTO'' (upper kitchen_text) = False"
    "contains ''CUCINA'' (upper kitchen_text) = True" by code_simp+
  moreover have "rx_search negative_item_re kitchen_text = None" by code_simp
  ultimately show ?thesis by (simp add: esc_classify_def Let_def matches_def)
qed

lemma kitchen_operator: "rx_search operator_line_re kitchen_text = None"
  by code_simp

lemma kitchen_rasters: "reconstructed_rasters kitchen_payload 0 = []"
proof -
  have "find_bytes [0x1B, 0x2A] kitchen_payload 0 = None" by code_simp
  then show ?thesis by (simp add: reconstructed_rasters_def raster_loop.simps)
qed

lemma kitchen_fields: "sg_payload kitchen_segment_value \<noteq> []" "sg_cut kitchen_segment_value" "sg_offset kitchen_segment_value = 0"
  by (simp_all add: kitchen_segment_value_def kitchen_payload_def)

lemma kitchen_read: "read_segment latin1_page ''cp858'' kitchen_segment_value =
    Inr \<lparr>et_lines = [\<lparr>tl_text = ''CUCINA'', tl_offset = 0, tl_length = 6\<rparr>], et_text = kitchen_text, et_warnings = []\<rparr>"
  by (simp add: read_segment_def allowed_encodings_def kitchen_segment_value_def kitchen_extract)

lemma kitchen_parses: "\<exists>d. parse_escpos kitchen_env kitchen_job ''cp858'' kitchen_payload = Inr [d]"
proof -
  have zero: "hexdigest 0 = replicate 64 (CHR ''0'')" using example_digest(1) [of "[]"] by (simp add: example_env_def)
  have hex: "sha256_hex (replicate 64 (CHR ''0'')) = Inr (replicate 64 (CHR ''0''))" "sha256_hex (replicate 64 (CHR ''a'')) = Inr (replicate 64 (CHR ''a''))"
    using example_digest by (simp_all add: example_env_def)
  have "\<exists>d. make_document (ticket kitchen_env kitchen_job (hexdigest 0) g ''cp858'' kitchen_segment_value
     \<lparr>et_lines = [\<lparr>tl_text = ''CUCINA'', tl_offset = 0, tl_length = 6\<rparr>], et_text = kitchen_text, et_warnings = []\<rparr> [] [] ol te) = Inr d" for g ol te
    by (simp add: make_document_def ticket_def Let_def blank_document_def esc_total_def kitchen_line map_filter_simps moneys_ok_def
        kitchen_job_def zero hex)
  then obtain made where made: "make_document (ticket kitchen_env kitchen_job (hexdigest 0) g ''cp858'' kitchen_segment_value
     \<lparr>et_lines = [\<lparr>tl_text = ''CUCINA'', tl_offset = 0, tl_length = 6\<rparr>], et_text = kitchen_text, et_warnings = []\<rparr> [] [] ol te) = Inr (made g ol te)"
    for g ol te by metis
  have parts: "ee_decode kitchen_env = latin1_page" "ee_sha256 kitchen_env = (\<lambda>_. 0)"
    by (simp_all add: kitchen_env_def)
  have "\<exists>d. segment_document kitchen_env kitchen_job (hexdigest 0) g ''cp858'' kitchen_segment_value = Inr (Some d)" for g
    by (simp add: segment_document_def kitchen_fields parts kitchen_read kitchen_semantics operator_and_timestamp_def kitchen_operator made as_esc_def)
  then obtain found where "segment_document kitchen_env kitchen_job (hexdigest 0) g ''cp858'' kitchen_segment_value = Inr (Some (found g))" for g
    by metis
  then show ?thesis by (simp add: parse_escpos_def kitchen_segments Let_def parts map_filter_simps)
qed

theorem tickets_cover_capture_witness:
  "\<exists>d parts. parse_escpos kitchen_env kitchen_job ''cp858'' kitchen_payload = Inr [d] \<and>
     tickets_cover kitchen_env kitchen_job ''cp858'' (take esc_limit kitchen_payload) parts [d]"
proof -
  obtain d where d: "parse_escpos kitchen_env kitchen_job ''cp858'' kitchen_payload = Inr [d]" using kitchen_parses by blast
  from tickets_cover_capture [OF d] d show ?thesis by blast
qed

lemma kitchen_complete: "is_complete_pos_command latin1_page ''cp858'' kitchen_payload = Inr True"
  by (simp add: is_complete_pos_command_def kitchen_segments kitchen_segment_def kitchen_fields kitchen_read kitchen_semantics kitchen_type
      ticket_type_def has_decrease_def)

theorem beeper_in_lockstep_witness:
  "\<exists>d. parse_escpos kitchen_env kitchen_job ''cp858'' kitchen_payload = Inr [d] \<and>
     is_complete_pos_command latin1_page ''cp858'' kitchen_payload = Inr True \<and> complete d \<and> doc_type d = KITCHEN_ORDER"
proof -
  obtain d where d: "parse_escpos kitchen_env kitchen_job ''cp858'' kitchen_payload = Inr [d]" using kitchen_parses by blast
  with beeper_in_lockstep [OF d] d kitchen_complete show ?thesis by (auto simp: kitchen_env_def)
qed

end
