(* ===== verification/ParserWorker.thy ===== *)
theory ParserWorker imports ParserQueue RchOrigin EscExample begin

text \<open>
  \<^verbatim>\<open>parser/worker.py\<close>: one run of the parser worker over the queue of the repository. The parsers are
  \<open>parse_escpos\<close> and \<open>parse_rch\<close>; the queue of the beeper is any state with an \<open>enqueue\<close>, of which the dispatcher
  of \<open>Beeper\<close> is one. A call of the repository may find the
  database broken, which is an argument of the run.
\<close>

section \<open>One run\<close>

datatype call = LoadCall | StoreCall | FailureCall

record run_report =
  discovered :: nat
  parsed_jobs :: nat
  parsed_documents :: nat
  failed_jobs :: nat

record 'b beeper =
  bp_supports :: "string \<Rightarrow> bool"
  bp_enqueue :: "string \<Rightarrow> string \<Rightarrow> 'b \<Rightarrow> 'b"

record 'b worker =
  wk_store_env :: store_env
  wk_rch_env :: rch_env
  wk_zone :: string
  wk_esc_env :: esc_env
  wk_beeper :: "'b beeper option"
  wk_clock :: "uuid \<Rightarrow> timestamp"
  wk_broken :: "uuid \<Rightarrow> call \<Rightarrow> bool"

record 'b run =
  rn_report :: run_report
  rn_store :: store
  rn_beeper :: 'b
  rn_raised :: "worker_error option"

definition database_error :: worker_error where
  "database_error = RepositoryError ''database''"

definition rch_failure :: "rch_error \<Rightarrow> worker_error" where
  "rch_failure x = (case x of InvalidOperation \<Rightarrow> ArithmeticError | DateOverflow \<Rightarrow> ArithmeticError
     | InvalidModel \<Rightarrow> ValueError ''ValidationError'' | InvalidDigit \<Rightarrow> ValueError ''ValueError'')"

definition rch_job_of :: "'b worker \<Rightarrow> job_source \<Rightarrow> rch_job" where
  "rch_job_of w s = \<lparr>job_device = src_device s, job_session = Some (src_session s), job_id = src_source_job s,
     job_captured = src_captured s, job_manifest = src_manifest s, job_path = src_request_path s,
     job_response_path = src_response_path s, job_zone = wk_zone w\<rparr>"

definition esc_failure :: "esc_error \<Rightarrow> worker_error" where
  "esc_failure x = (case x of UnsupportedEncoding \<Rightarrow> ValueError ''ValueError'' | TooManyDigits \<Rightarrow> ValueError ''ValueError''
     | EscModel \<Rightarrow> ValueError ''ValidationError'' | EscDecimal \<Rightarrow> ArithmeticError | EscOverflow \<Rightarrow> ArithmeticError)"

text \<open>The encoding both calls leave at its default.\<close>

definition default_encoding :: string where "default_encoding = ''cp858''"

text \<open>The parser of the device; an error keeps its class.\<close>

definition parse_source :: "'b worker \<Rightarrow> job_source \<Rightarrow> worker_error + document list" where
  "parse_source w s = (if src_kind s = ''escpos''
     then map_sum esc_failure id (parse_escpos (wk_esc_env w) (rch_job_of w s) default_encoding (src_request s))
     else if src_kind s = ''rch_observed''
     then map_sum rch_failure id (parse_rch (wk_rch_env w) (rch_job_of w s) (src_request s) (src_response s))
     else Inl (ValueError (''unsupported parser kind: '' @ src_kind s)))"

text \<open>The name of the directory of the payload, the identity of the capture.\<close>

definition path_parent :: "string \<Rightarrow> string" where
  "path_parent p = (let dir = rev (dropWhile (\<lambda>c. c \<noteq> CHR ''/'') (rev p));
       up = rev (dropWhile (\<lambda>c. c = CHR ''/'') (rev dir))
     in after_last (CHR ''/'') up)"

text \<open>Whether the job is announced; the classification may raise.\<close>

definition should_beep :: "'b worker \<Rightarrow> bool \<Rightarrow> job_source \<Rightarrow> worker_error + bool" where
  "should_beep w reparse s = (case wk_beeper w of None \<Rightarrow> Inr False
     | Some b \<Rightarrow> if src_kind s = ''escpos'' \<and> \<not> reparse \<and> src_status s = ''IMPORTED'' \<and> bp_supports b (src_device s)
         then map_sum esc_failure id (is_complete_pos_command (ee_decode (wk_esc_env w)) default_encoding (src_request s)) else Inr False)"

definition announce :: "'b worker \<Rightarrow> job_source \<Rightarrow> 'b \<Rightarrow> 'b" where
  "announce w s b = (case wk_beeper w of None \<Rightarrow> b
     | Some bp \<Rightarrow> bp_enqueue bp (src_device s) (removesuffix ''.partial'' (path_parent (src_request_path s))) b)"

definition early_beep :: "'b worker \<Rightarrow> bool \<Rightarrow> job_source \<Rightarrow> 'b \<Rightarrow> worker_error + 'b" where
  "early_beep w reparse s b = map_sum id (\<lambda>due. if due then announce w s b else b) (should_beep w reparse s)"

definition checked_load :: "'b worker \<Rightarrow> store \<Rightarrow> uuid \<Rightarrow> worker_error + job_source option" where
  "checked_load w db k = (if wk_broken w k LoadCall then Inl database_error else load_job (wk_store_env w) db k)"

definition checked_store :: "'b worker \<Rightarrow> uuid \<Rightarrow> document list \<Rightarrow> store \<Rightarrow> worker_error + store \<times> nat" where
  "checked_store w k docs db = (if wk_broken w k StoreCall then Inl database_error
     else store_documents (wk_store_env w) (wk_clock w k) k docs db)"

definition error_message :: "worker_error \<Rightarrow> string" where
  "error_message x = (case x of RepositoryError m \<Rightarrow> ''ParserRepositoryError: '' @ m | ValueError m \<Rightarrow> ''ValueError: '' @ m
     | ArithmeticError \<Rightarrow> ''ArithmeticError'')"

text \<open>The \<^verbatim>\<open>except\<close> clause: a failure is counted and recorded, an \<^verbatim>\<open>ArithmeticError\<close> passes through.\<close>

definition handle_error :: "'b worker \<Rightarrow> uuid \<Rightarrow> worker_error \<Rightarrow> 'b run \<Rightarrow> 'b run" where
  "handle_error w k x r = (case x of ArithmeticError \<Rightarrow> r\<lparr>rn_raised := Some ArithmeticError\<rparr>
     | _ \<Rightarrow> r\<lparr>rn_report := (rn_report r)\<lparr>failed_jobs := failed_jobs (rn_report r) + 1\<rparr>,
          rn_store := (if wk_broken w k FailureCall then rn_store r
            else record_failure (wk_store_env w) (wk_clock w k) k (error_message x) (rn_store r))\<rparr>)"

definition run_job :: "'b worker \<Rightarrow> bool \<Rightarrow> uuid \<Rightarrow> 'b run \<Rightarrow> 'b run" where
  "run_job w reparse k r = (case checked_load w (rn_store r) k of
      Inl x \<Rightarrow> handle_error w k x r
    | Inr None \<Rightarrow> r
    | Inr (Some s) \<Rightarrow> (case early_beep w reparse s (rn_beeper r) of
        Inl x \<Rightarrow> handle_error w k x r
      | Inr b \<Rightarrow> (let r1 = r\<lparr>rn_beeper := b\<rparr> in
        case parse_source w s of
          Inl x \<Rightarrow> handle_error w k x r1
        | Inr docs \<Rightarrow> (case checked_store w k docs (rn_store r1) of
            Inl x \<Rightarrow> handle_error w k x r1
          | Inr (db, n) \<Rightarrow> r1\<lparr>rn_store := db, rn_report := (rn_report r1)\<lparr>
              parsed_documents := parsed_documents (rn_report r1) + n, parsed_jobs := parsed_jobs (rn_report r1) + 1\<rparr>\<rparr>))))"

fun run_jobs :: "'b worker \<Rightarrow> bool \<Rightarrow> uuid list \<Rightarrow> 'b run \<Rightarrow> 'b run" where
  "run_jobs w reparse [] r = r"
| "run_jobs w reparse (k # ks) r = (let r1 = run_job w reparse k r in
     if rn_raised r1 = None then run_jobs w reparse ks r1 else r1)"

definition run_once :: "'b worker \<Rightarrow> timestamp \<Rightarrow> nat \<Rightarrow> bool \<Rightarrow> store \<Rightarrow> 'b \<Rightarrow> 'b run" where
  "run_once w now limit reparse db b = (case pending_jobs (wk_store_env w) now limit reparse db of
      Inl x \<Rightarrow> \<lparr>rn_report = \<lparr>discovered = 0, parsed_jobs = 0, parsed_documents = 0, failed_jobs = 0\<rparr>,
        rn_store = db, rn_beeper = b, rn_raised = Some x\<rparr>
    | Inr ks \<Rightarrow> run_jobs w reparse ks \<lparr>rn_report = \<lparr>discovered = length ks, parsed_jobs = 0, parsed_documents = 0, failed_jobs = 0\<rparr>,
        rn_store = db, rn_beeper = b, rn_raised = None\<rparr>)"

text \<open>
  The worker over time: iterations of \<^verbatim>\<open>run_forever\<close> and the operator's runs with \<^verbatim>\<open>--once --reparse-all\<close>, in the
  order in which they happen. An error of the repository ends an iteration, any other error the process,
  and the supervisor starts it again, so that the tables are all that is left of it.
\<close>

fun service :: "'b worker \<Rightarrow> nat \<Rightarrow> (timestamp \<times> bool) list \<Rightarrow> store \<Rightarrow> 'b \<Rightarrow> store \<times> 'b" where
  "service w limit [] db b = (db, b)"
| "service w limit ((t, reparse) # ts) db b = (let r = run_once w t limit reparse db b in service w limit ts (rn_store r) (rn_beeper r))"

section \<open>Invariants of the store\<close>

text \<open>What the two writing methods of the repository keep, every run of the worker keeps.\<close>

locale store_invariant =
  fixes e :: store_env and good :: "store \<Rightarrow> bool"
  assumes stored: "store_documents e now k docs db = Inr (db1, n) \<Longrightarrow> good db \<Longrightarrow> good db1"
    and failed: "good db \<Longrightarrow> good (record_failure e now k m db)"
begin

lemma handle_error_good: "wk_store_env w = e \<Longrightarrow> good (rn_store r) \<Longrightarrow> good (rn_store (handle_error w k x r))"
  by (auto simp: handle_error_def failed split: worker_error.split)

lemma run_job_good:
  assumes "wk_store_env w = e" and "good (rn_store r)"
  shows "good (rn_store (run_job w reparse k r))"
proof -
  have "good db1" if "checked_store w k docs (rn_store r) = Inr (db1, n)" for docs db1 n
    using that stored [OF _ assms(2)] assms(1) by (auto simp: checked_store_def split: if_splits)
  with assms show ?thesis
    by (auto simp: run_job_def Let_def handle_error_good split: sum.split option.split)
qed

lemma run_jobs_good: "wk_store_env w = e \<Longrightarrow> good (rn_store r) \<Longrightarrow> good (rn_store (run_jobs w reparse ks r))"
  by (induction ks arbitrary: r) (simp_all add: Let_def run_job_good)

lemma run_once_good: "wk_store_env w = e \<Longrightarrow> good db \<Longrightarrow> good (rn_store (run_once w now limit reparse db b))"
  by (simp add: run_once_def run_jobs_good split: sum.split)

lemma service_good: "wk_store_env w = e \<Longrightarrow> good db \<Longrightarrow> good (fst (service w limit ts db b))"
  by (induction ts arbitrary: db b) (auto simp: Let_def run_once_good)

end

interpretation chains: store_invariant e "chains_ok e" for e
  by unfold_locales (simp_all add: store_documents_chains record_failure_chains)

interpretation growth: store_invariant e "versions_grow db0" for e db0
proof
  fix now k docs db db1 n
  assume "store_documents e now k docs db = Inr (db1, n)" and "versions_grow db0 db"
  with store_documents_grows versions_grow_trans show "versions_grow db0 db1" by blast
qed (simp add: versions_grow_def)

text \<open>
  C16: the interpretations of documents are append-only evidence. Whatever the worker parses, whenever
  the database fails or a parser raises, all versions stay as they were written, later ones come after
  them, and the versions of each document verify as one hash chain.
\<close>

theorem versions_are_evidence:
  assumes "chains_ok (wk_store_env w) db"
  shows "versions_grow db (fst (service w limit ts db b)) \<and>
    (\<forall>s. verify_chain (store_sha256 (wk_store_env w))
       (map (stored_record (wk_store_env w)) (chain_of (fst (service w limit ts db b)) s)) = Inr True)"
proof -
  have "versions_grow db (fst (service w limit ts db b))" by (rule growth.service_good) simp_all
  moreover have "chains_ok (wk_store_env w) (fst (service w limit ts db b))"
    by (rule chains.service_good) (use assms in simp_all)
  ultimately show ?thesis by (simp add: chains_ok_def chain_ok_def Let_def)
qed

section \<open>A job that stops the queue\<close>

lemma poison_run:
  assumes "candidates (wk_store_env w) db limit False = j # rest" and "failures (wk_store_env w) db (job_key j) = []"
    and "1 \<le> limit" and "limit \<le> 10000"
    and "checked_load w db (job_key j) = Inr (Some s)" and "should_beep w False s = Inr due" and "parse_source w s = Inl ArithmeticError"
  shows "rn_store (run_once w t limit False db b) = db \<and> rn_raised (run_once w t limit False db b) = Some ArithmeticError"
proof -
  obtain n where n: "limit = Suc n" using assms(3) by (cases limit) auto
  have "\<not> in_backoff (wk_store_env w) db t (job_key j)" using assms(2) by (simp add: in_backoff_def)
  then have "\<exists>ks. pending_jobs (wk_store_env w) t limit False db = Inr (job_key j # ks)"
    using assms(3,4) by (simp add: pending_jobs_def assms(1)) (simp add: n)
  then obtain ks where ks: "pending_jobs (wk_store_env w) t limit False db = Inr (job_key j # ks)" ..
  show ?thesis by (simp add: run_once_def ks Let_def run_job_def early_beep_def assms(5,6,7) handle_error_def)
qed

text \<open>
  C17: one capture can stop the parser for good. When the job at the head of the queue makes its parser
  raise an \<^verbatim>\<open>ArithmeticError\<close> (an amount that is too long for \<^verbatim>\<open>decimal\<close> does), no failure is recorded, so the
  job stays at the head: however often the supervisor restarts the service, no table ever changes, and
  no job behind it is parsed.
\<close>

theorem poison_job_stops_queue:
  assumes "candidates (wk_store_env w) db limit False = j # rest" and "failures (wk_store_env w) db (job_key j) = []"
    and "1 \<le> limit" and "limit \<le> 10000"
    and "checked_load w db (job_key j) = Inr (Some s)" and "should_beep w False s = Inr due" and "parse_source w s = Inl ArithmeticError"
  shows "fst (service w limit (map (\<lambda>t. (t, False)) ts) db b) = db"
  by (induction ts arbitrary: b) (simp_all add: Let_def poison_run [OF assms])

section \<open>What becomes of the jobs\<close>

interpretation processing: store_invariant e "processed e k" for e k
  by unfold_locales (blast intro: advances_processed store_documents_advances record_failure_advances)+

interpretation documented: store_invariant e "\<lambda>db. document_exists db k" for e k
proof
  have kept: "document_exists db1 k" if step: "advances db db1" and old: "document_exists db k" for db db1
  proof -
    from step obtain more where rows: "map row_id (document_rows db1) = map row_id (document_rows db) @ more"
      by (auto simp: advances_def keeps_rows_def)
    from old obtain r where "r \<in> set (document_rows db)" "row_job r = k" by (auto simp: document_exists_def list_ex_iff)
    then have "row_id r \<in> set (map row_id (document_rows db1))" unfolding rows by simp
    then obtain r1 where "r1 \<in> set (document_rows db1)" "row_job r1 = row_job r" by (auto simp: row_id_def)
    with \<open>row_job r = k\<close> show ?thesis by (auto simp: document_exists_def list_ex_iff)
  qed
  fix now k' docs db db1 n
  assume "store_documents e now k' docs db = Inr (db1, n)" and "document_exists db k"
  with kept store_documents_advances show "document_exists db1 k" by blast
next
  fix db now k' m
  assume "document_exists db k"
  then show "document_exists (record_failure e now k' m db) k" by (simp add: document_exists_def)
qed

text \<open>
  A reparse that fails promises a retry that never comes. The failure of a job that has documents
  sets it to \<^verbatim>\<open>PARSE_RETRY\<close> and, before the eighth, records that a retry is scheduled; but at no later
  time, whatever the worker does in between, does an automatic run select the job again.
\<close>

theorem failed_reparse_is_not_retried:
  assumes "job_of db k = Some j" and "document_exists db k" and "length (failures_by (job_build (wk_store_env w) db j) db k) < 7"
  shows "let db1 = record_failure (wk_store_env w) now k m db in
    job_of db1 k = Some (j\<lparr>job_status := ''PARSE_RETRY''\<rparr>) \<and> ev_retry (last (parser_events db1)) \<and>
    \<not> selects (wk_store_env w) t limit False (fst (service w batch runs db1 b)) k"
proof -
  let ?e = "wk_store_env w"
  let ?db = "record_failure ?e now k m db"
  have db1: "?db = (with_status k ''PARSE_RETRY'' db)\<lparr>parser_events := parser_events ?db\<rparr>" "ev_retry (last (parser_events ?db))"
    using assms(3) by (simp_all add: record_failure_job [OF assms(1) refl])
  have "job_of ?db k = job_of (with_status k ''PARSE_RETRY'' db) k" by (subst db1(1)) (simp add: job_of_def)
  then have "job_of ?db k = Some (j\<lparr>job_status := ''PARSE_RETRY''\<rparr>)" by (simp add: job_of_with_status assms(1))
  moreover have "document_exists (fst (service w batch runs ?db b)) k"
    by (rule documented.service_good [OF refl]) (rule documented.failed [OF assms(2)])
  then have "\<not> selects ?e t limit False (fst (service w batch runs ?db b)) k"
    by (auto simp: is_candidate_def elim!: selects_candidate)
  ultimately show ?thesis using db1(2) by (simp add: Let_def)
qed

lemma parse_source_names:
  assumes "parse_source w s = Inr docs"
  shows "\<forall>d \<in> set docs. parser_name d = kind_parser (src_kind s)"
proof (cases "src_kind s = ''escpos''")
  case True
  with assms have "parse_escpos (wk_esc_env w) (rch_job_of w s) default_encoding (src_request s) = Inr docs"
    by (cases "parse_escpos (wk_esc_env w) (rch_job_of w s) default_encoding (src_request s)") (auto simp: parse_source_def)
  from parse_escpos_names [OF this] True show ?thesis by (simp add: kind_parser_def esc_parser_name_def escpos_name_def)
next
  case False
  with assms have "parse_rch (wk_rch_env w) (rch_job_of w s) (src_request s) (src_response s) = Inr docs"
    by (cases "parse_rch (wk_rch_env w) (rch_job_of w s) (src_request s) (src_response s)") (auto simp: parse_source_def split: if_splits)
  with parse_rch_typed False show ?thesis by (auto simp: typed_document_def from_job_def kind_parser_def)
qed

text \<open>
  C19: reparsing comes to an end. Once the worker has stored what the current build of a job's parser
  makes of it, documents or none, no later reparse selects the job again, whatever the worker does
  in between.
\<close>

theorem reparse_converges:
  assumes "checked_load w db k = Inr (Some s)" and "parse_source w s = Inr docs"
    and "checked_store w k docs db = Inr (db1, n)" and "distinct (map job_key (jobs db))"
  shows "\<not> selects (wk_store_env w) t limit True (fst (service w batch runs db1 b)) k"
proof -
  let ?e = "wk_store_env w"
  from assms(3) have store: "store_documents ?e (wk_clock w k) k docs db = Inr (db1, n)" by (simp add: checked_store_def split: if_splits)
  then obtain j dv where j: "job_of db k = Some j" "device_of db (job_device_key j) = Some dv" by (rule store_documents_run)
  with assms(1) have kind: "device_parser dv = src_kind s"
    by (auto simp: checked_load_def load_job_def Let_def split: if_splits option.splits)
  have "\<forall>d \<in> set docs. parser_name d = kind_parser (src_kind s)" by (rule parse_source_names [OF assms(2)])
  moreover have "src_kind s = ''escpos'' \<or> src_kind s = ''rch_observed''" using assms(2) by (auto simp: parse_source_def split: if_splits)
  ultimately have "processed ?e k db1" using store_documents_processed [OF store assms(4) j] kind by simp
  then have "processed ?e k (fst (service w batch runs db1 b))" by (rule processing.service_good [OF refl])
  then show ?thesis by (rule processed_not_selected)
qed

section \<open>Accounting\<close>

lemma advances_keys:
  assumes "advances db db1"
  shows "map job_key (jobs db1) = map job_key (jobs db)"
proof -
  have "job_key (if job_key x = k then x\<lparr>job_status := s\<rparr> else x) = job_key x" for x k s by simp
  with assms show ?thesis by (auto simp: advances_def keeps_rows_def with_status_def comp_def)
qed

interpretation keyed: store_invariant e "\<lambda>db. map job_key (jobs db) = ks" for e ks
  by unfold_locales (simp_all add: advances_keys [OF store_documents_advances] advances_keys [OF record_failure_advances])

definition taken_up :: "uuid \<Rightarrow> store \<Rightarrow> bool" where
  "taken_up k db \<longleftrightarrow> (\<forall>j \<in> set (jobs db). job_key j = k \<longrightarrow> job_status j \<noteq> ''IMPORTED'')"

lemma advances_taken_up:
  assumes "advances db db1" and "taken_up k db"
  shows "taken_up k db1"
proof -
  from assms(1) obtain db2 k' s where db2: "jobs db2 = jobs db" "s \<noteq> ''IMPORTED''" "jobs db1 = jobs (with_status k' s db2)"
    by (auto simp: advances_def keeps_rows_def)
  show ?thesis unfolding taken_up_def
  proof (intro ballI impI)
    fix j assume "j \<in> set (jobs db1)" and k: "job_key j = k"
    then have "j \<in> (\<lambda>i. if job_key i = k' then i\<lparr>job_status := s\<rparr> else i) ` set (jobs db)"
      unfolding db2(3) by (simp add: with_status_def db2(1))
    then show "job_status j \<noteq> ''IMPORTED''" using assms(2) db2(2) k by (elim imageE) (auto simp: taken_up_def split: if_splits)
  qed
qed

interpretation uptake: store_invariant e "taken_up k" for e k
  by unfold_locales (blast intro: advances_taken_up store_documents_advances record_failure_advances)+

lemma job_of_key: "(job_of db k = None) = (k \<notin> set (map job_key (jobs db)))"
  by (auto simp: job_of_def find_None_iff)

lemma with_status_takes_up: "jobs db1 = jobs (with_status k s db) \<Longrightarrow> s \<noteq> ''IMPORTED'' \<Longrightarrow> taken_up k db1"
  by (auto simp: taken_up_def dest: statuses)

lemma checked_store_takes_up: "checked_store w k docs db = Inr (db1, n) \<Longrightarrow> taken_up k db1"
  unfolding checked_store_def
  by (auto split: if_splits elim!: store_documents_run intro!: with_status_takes_up [where s = "if docs = [] then ''PARSE_EMPTY'' else ''PARSED''"])

lemma record_failure_takes_up:
  assumes "job_of db k \<noteq> None"
  shows "taken_up k (record_failure e now k m db)"
proof -
  from assms obtain j where j: "job_of db k = Some j" by auto
  show ?thesis unfolding record_failure_job [OF j refl] by (rule with_status_takes_up, simp, split if_split) simp
qed

definition accounted :: "run_report \<Rightarrow> nat" where
  "accounted r = parsed_jobs r + failed_jobs r"

lemma run_job_accounts:
  assumes "job_of (rn_store r) k \<noteq> None" and "rn_raised r = None" and "rn_raised (run_job w reparse k r) = None" and "\<not> wk_broken w k FailureCall"
  shows "accounted (rn_report (run_job w reparse k r)) = accounted (rn_report r) + 1 \<and>
    discovered (rn_report (run_job w reparse k r)) = discovered (rn_report r) \<and> taken_up k (rn_store (run_job w reparse k r))"
proof -
  have failed: "accounted (rn_report (handle_error w k x r')) = accounted (rn_report r') + 1 \<and>
      discovered (rn_report (handle_error w k x r')) = discovered (rn_report r') \<and> taken_up k (rn_store (handle_error w k x r'))"
    if "rn_raised (handle_error w k x r') = None" "rn_store r' = rn_store r" for x and r' :: "'a run"
    using that assms(1,4) by (auto simp: handle_error_def accounted_def record_failure_takes_up split: worker_error.splits)
  have "checked_load w (rn_store r) k \<noteq> Inr None"
    using assms(1) by (auto simp: checked_load_def load_job_def Let_def split: option.splits if_splits)
  with assms(3) show ?thesis
    by (auto simp: run_job_def Let_def failed [unfolded accounted_def] accounted_def dest: checked_store_takes_up split: sum.splits option.splits)
qed

lemma run_jobs_account:
  assumes "set ks \<subseteq> set (map job_key (jobs (rn_store r)))" and "rn_raised r = None" and "rn_raised (run_jobs w reparse ks r) = None"
    and "\<forall>k. \<not> wk_broken w k FailureCall"
  shows "accounted (rn_report (run_jobs w reparse ks r)) = accounted (rn_report r) + length ks \<and>
    discovered (rn_report (run_jobs w reparse ks r)) = discovered (rn_report r) \<and> (\<forall>k \<in> set ks. taken_up k (rn_store (run_jobs w reparse ks r)))"
  using assms(1-3)
proof (induction ks arbitrary: r)
  case (Cons k ks)
  let ?r = "run_job w reparse k r"
  have raised: "rn_raised ?r = None" using Cons.prems(3) by (auto simp: Let_def split: if_splits)
  have "job_of (rn_store r) k \<noteq> None" using Cons.prems(1) by (simp add: job_of_key)
  from run_job_accounts [OF this Cons.prems(2) raised] assms(4)
  have first: "accounted (rn_report ?r) = accounted (rn_report r) + 1" "discovered (rn_report ?r) = discovered (rn_report r)"
    "taken_up k (rn_store ?r)" by blast+
  have "map job_key (jobs (rn_store ?r)) = map job_key (jobs (rn_store r))" by (rule keyed.run_job_good [OF refl refl])
  then have "set ks \<subseteq> set (map job_key (jobs (rn_store ?r)))" using Cons.prems(1) by simp
  note rest = Cons.IH [OF this raised]
  have "taken_up k (rn_store (run_jobs w reparse ks ?r))" by (rule uptake.run_jobs_good [OF refl first(3)])
  with rest first raised Cons.prems(3) show ?case by (simp add: Let_def)
qed simp


section \<open>The watcher and the worker\<close>

lemma path_parent_name:
  assumes "CHR ''/'' \<notin> set name" and "name \<noteq> []" and "CHR ''/'' \<notin> set leaf"
  shows "path_parent (dir @ ''/'' @ name @ ''/'' @ leaf) = name"
proof -
  have skip: "dropWhile (\<lambda>c. c \<noteq> CHR ''/'') (rev leaf @ CHR ''/'' # xs) = CHR ''/'' # xs" for xs
    using assms(3) by (induction leaf rule: rev_induct) auto
  have keep: "dropWhile (\<lambda>c. c = CHR ''/'') (rev name @ xs) = rev name @ xs" for xs
    using assms(1,2) by (cases name rule: rev_cases) auto
  have upto: "takeWhile (\<lambda>c. c \<noteq> CHR ''/'') (rev name @ CHR ''/'' # xs) = rev name" for xs
    using assms(1) by (simp add: takeWhile_append)
  show ?thesis by (simp add: path_parent_def Let_def after_last_def skip keep upto)
qed

lemma removesuffix_added: "removesuffix sfx (s @ sfx) = s"
  by (simp add: removesuffix_def ends_with_def)

text \<open>
  C35: a capture that the watcher announced is not announced again by the worker. When a scan announces the
  unpublished capture of a job, the event the worker derives from the path of the published job is the
  same one, and the dispatcher refuses it.
\<close>

theorem published_job_not_announced_again:
  assumes "scan_job decode v (device, job @ ''.partial'') w = Inr w1"
    and "(device, job @ ''.partial'') \<notin> set (wt_notified w)" and "(device, job @ ''.partial'') \<in> set (wt_notified w1)"
    and "job \<noteq> []" and "CHR ''/'' \<notin> set job" and "\<not> ends_with ''.partial'' job"
  shows "enqueue device (Some (removesuffix ''.partial'' (path_parent (dir @ ''/'' @ job @ ''/client.raw'')))) (wt_beeper w1) =
    (Some False, wt_beeper w1)"
proof -
  have "path_parent (dir @ ''/'' @ job @ ''/'' @ ''client.raw'') = job" by (rule path_parent_name) (use assms(4,5) in auto)
  then have event: "removesuffix ''.partial'' (path_parent (dir @ ''/'' @ job @ ''/client.raw'')) = job"
    using assms(6) by (simp add: removesuffix_def)
  from assms(1-3) obtain d0 where queued: "enqueue device (Some job) d0 = (Some True, wt_beeper w1)"
    by (auto simp: scan_job_def Let_def partial_suffix_def removesuffix_added split: option.splits if_splits sum.splits bool.splits prod.splits)
  have known: "(device, strip job) \<in> set (ds_recent (wt_beeper w1))" and ready: "event_ok (Some job)" "device \<in> set (ds_targets (wt_beeper w1))"
    using enqueue_accepts [OF queued] by (auto simp: event_key_def)
  then show ?thesis unfolding event by (simp add: enqueue_def event_key_def Let_def)
qed

section \<open>Examples\<close>

definition example_worker :: "unit worker" where
  "example_worker = \<lparr>wk_store_env = example_store_env, wk_rch_env = example_env, wk_zone = ''Europe/Rome'',
     wk_esc_env = kitchen_env, wk_beeper = None, wk_clock = (\<lambda>k. 7), wk_broken = (\<lambda>k c. False)\<rparr>"

lemma example_zero: "hexdigest 0 = replicate 64 (CHR ''0'')"
  using example_digest(1) [of "[]"] by (simp add: example_env_def)

definition example_source :: "bytes \<Rightarrow> job_source" where
  "example_source bs = \<lparr>src_job = 1, src_source_job = ''job'', src_session = ''session'', src_device = ''rch-1'', src_kind = ''rch_observed'',
     src_captured = 0, src_manifest = replicate 64 (CHR ''a''), src_request_path = ''spool/job/request.raw'', src_response_path = None,
     src_request = bs, src_response = [], src_status = ''IMPORTED''\<rparr>"

lemma example_loads: "checked_load example_worker (example_store bs) 1 = Inr (Some (example_source bs))"
  by (simp add: checked_load_def example_worker_def load_job_def job_of_def device_of_def job_raws_def role_payload_def authentic_def
      Let_def example_simps example_source_def example_zero)

lemma example_candidate: "candidates example_store_env (example_store bs) 1 False = [queued_job]"
  by (simp add: candidates_def is_candidate_def waiting_def raw_exists_def device_of_def document_exists_def example_simps)

lemma example_no_failures: "failures example_store_env (example_store bs) k = []"
  by (simp add: failures_def example_store_def)

lemma chains_ok_empty: "versions db = [] \<Longrightarrow> chains_ok e db"
  by (simp add: chains_ok_def chain_ok_def chain_of_def verify_chain_def)

theorem versions_are_evidence_witness:
  "versions_grow (example_store []) (fst (service example_worker 1 [(5, False)] (example_store []) ()))"
  using versions_are_evidence [of example_worker "example_store []" 1 "[(5, False)]" "()"] chains_ok_empty
  by (simp add: example_store_def)

text \<open>The receipt with the total of 29 digits stops the queue.\<close>

lemma oversized_parse: "parse_rch example_env job (wires oversized_capture) [] = Inl InvalidOperation"
proof -
  let ?fs = "frames_of 1 0 oversized_capture"
  obtain k f where fs: "?fs = [k, f]" and k: "frame_text k = ''=K''" and f: "frame_text f = ''=T1/$1'' @ replicate 28 (CHR ''0'')"
    using oversized_facts(3) by (auto simp only: map_eq_Cons_conv list.map_disc_iff)
  have client: "from_client k" "from_client f" using oversized_facts(4) by (simp_all add: fs [unfolded One_nat_def])
  have "list_all fr_valid ?fs" using oversized_facts(4) by (auto simp: list_all_iff from_client_def)
  then have stream: "frames (frame_stream (wires oversized_capture)) = [k, f]"
    using frame_stream_items [of oversized_capture] oversized_facts(1,2) fs
    by (simp add: max_input_bytes_def max_frames_def max_issues_def mismatches_valid)
  have other: "frame_text f \<noteq> ''=k''" by (simp add: f)
  have "commercial_frame d f = Inl InvalidOperation" for d by (rule commercial_frame_oversized [OF oversized_amount [OF f]]) simp
  moreover have "dr_kind (open_commercial status m k) = Commercial" for status m
    by (simp add: open_commercial_def new_draft_def split: option.split)
  ultimately show ?thesis
    by (simp add: parse_rch_def request_documents_def scan_status_def scan_step_def no_frames no_candidates stream cancellation_step_def client k other
        parse_step_def Let_def f with_frame_def)
qed

theorem poison_job_stops_queue_witness:
  "fst (service example_worker 1 (map (\<lambda>t. (t, False)) [5, 10, 15]) (example_store (wires oversized_capture)) ()) =
   example_store (wires oversized_capture)"
proof -
  have fails: "parse_source example_worker (example_source (wires oversized_capture)) = Inl ArithmeticError"
    by (simp add: parse_source_def example_source_def example_worker_def oversized_parse rch_failure_def)
  have env: "wk_store_env example_worker = example_store_env" and key: "job_key queued_job = 1"
    by (simp_all add: example_worker_def queued_job_def)
  have quiet: "should_beep example_worker False s = Inr False" for s by (simp add: should_beep_def example_worker_def)
  show ?thesis
    by (rule poison_job_stops_queue [of example_worker _ 1 queued_job "[]", unfolded env key, OF example_candidate example_no_failures _ _ example_loads quiet fails])
      simp_all
qed

lemma example_parses: "parse_source example_worker (example_source []) = Inr []"
proof -
  have "parse_rch example_env job [] [] = Inr []" for job
    by (simp add: parse_rch_def request_documents_def scan_status_def scan_step_def no_frames no_candidates response_document_def Let_def)
  then show ?thesis by (simp add: parse_source_def example_source_def example_worker_def)
qed

theorem reparse_converges_witness:
  "\<exists>db1 n. checked_store example_worker 1 [] (example_store []) = Inr (db1, n) \<and>
     \<not> selects example_store_env 100 5 True (fst (service example_worker 1 [(8, True)] db1 ())) 1"
proof -
  have "map_sum id snd (checked_store example_worker 1 [] (example_store [])) = Inr 0"
    by (simp add: checked_store_def example_worker_def store_documents_def job_of_def device_of_def example_simps)
  then obtain db1 n where db1: "checked_store example_worker 1 [] (example_store []) = Inr (db1, n)"
    by (auto simp: map_sum_Inr)
  have "distinct (map job_key (jobs (example_store [])))" 
    "wk_store_env example_worker = example_store_env"
    by (simp_all add: example_store_def example_worker_def)
  then show ?thesis using reparse_converges [OF example_loads example_parses db1, of 100 5 1 "[(8, True)]" "()"] db1 by auto
qed

text \<open>The same job with a document that an earlier build stored.\<close>

definition parsed_store :: store where
  "parsed_store = (example_store [])\<lparr>document_rows := [\<lparr>row_key = 9, row_job = 1, row_device = 2, row_session = 3, row_source_key = [],
     row_captured = 0, row_columns = columns_of example_parsed\<rparr>]\<rparr>"

theorem failed_reparse_is_not_retried_witness:
  "let db1 = record_failure (wk_store_env example_worker) 3 1 ''ValueError'' parsed_store in
    job_of db1 1 = Some (queued_job\<lparr>job_status := ''PARSE_RETRY''\<rparr>) \<and> ev_retry (last (parser_events db1)) \<and>
    \<not> selects (wk_store_env example_worker) 4000000000 1 False (fst (service example_worker 1 [(8, False)] db1 ())) 1"
  by (rule failed_reparse_is_not_retried)
    (simp_all add: parsed_store_def example_store_def job_of_def document_exists_def failures_by_def queued_job_def)


text \<open>The kitchen order while it is captured.\<close>

definition kitchen_watcher :: watcher where
  "kitchen_watcher = \<lparr>wt_devices = [''pos_1''], wt_maximum = esc_limit, wt_sizes = [], wt_notified = [],
     wt_beeper = \<lparr>ds_configuration = default_configuration\<lparr>bc_enabled := True\<rparr>, ds_targets = [''pos_1''], ds_queued = (\<lambda>_. 0), ds_recent = [],
       ds_stopped = False, ds_sent = []\<rparr>\<rparr>"

definition kitchen_view :: spool_view where
  "kitchen_view = \<lparr>sv_root = (\<lambda>_. RootMissing), sv_size = (\<lambda>_. Some 9),
     sv_file = (\<lambda>_. \<lparr>gf_opens = True, gf_regular = True, gf_size = 9, gf_data = kitchen_payload, gf_same = True\<rparr>)\<rparr>"

theorem published_job_not_announced_again_witness:
  "\<exists>w1. scan_job latin1_page kitchen_view (''pos_1'', ''job'' @ ''.partial'') kitchen_watcher = Inr w1 \<and>
     enqueue ''pos_1'' (Some (removesuffix ''.partial'' (path_parent (''/spool/pos_1'' @ ''/'' @ ''job'' @ ''/client.raw'')))) (wt_beeper w1) =
       (Some False, wt_beeper w1)"
proof -
  have word: "strip ''job'' = ''job''" "\<not> ends_with ''.partial'' ''job''" by code_simp+
  have read: "read_growing esc_limit \<lparr>gf_opens = True, gf_regular = True, gf_size = 9, gf_data = kitchen_payload, gf_same = True\<rparr> = Some kitchen_payload"
    by (simp add: read_growing_def esc_limit_def kitchen_payload_def)
  have "\<exists>w1. scan_job latin1_page kitchen_view (''pos_1'', ''job'' @ ''.partial'') kitchen_watcher = Inr w1 \<and>
      (''pos_1'', ''job'' @ ''.partial'') \<in> set (wt_notified w1)"
    unfolding scan_job_def fst_conv snd_conv partial_suffix_def removesuffix_added
    by (simp add: kitchen_watcher_def kitchen_view_def read kitchen_complete enqueue_def default_configuration_def event_ok_def word Let_def)
  then obtain w1 where w1: "scan_job latin1_page kitchen_view (''pos_1'', ''job'' @ ''.partial'') kitchen_watcher = Inr w1"
    "(''pos_1'', ''job'' @ ''.partial'') \<in> set (wt_notified w1)" by blast
  have "(''pos_1'', ''job'' @ ''.partial'') \<notin> set (wt_notified kitchen_watcher)" by (simp add: kitchen_watcher_def)
  from published_job_not_announced_again [OF w1(1) this w1(2), of "''/spool/pos_1''"] word(2) w1(1) show ?thesis by auto
qed

end
