(* ===== verification/Pricing.thy ===== *)
theory Pricing imports Domain HashChain Decimals begin

text \<open>
  \<^verbatim>\<open>pricing/service.py\<close>: the attribution of prices to the lines of order documents. The amounts come from
  columns of 19 digits, 4 of them after the point, for which \<^verbatim>\<open>quantize\<close> cannot exceed the precision of
  the context. The criteria keep the prices as values.
\<close>

section \<open>Lines and attributions\<close>

record price_line =
  pl_line :: uuid
  pl_document :: uuid
  pl_version :: uuid
  pl_sequence :: nat
  pl_item_code :: "string option"
  pl_description :: "string option"
  pl_quantity :: "rat option"
  pl_unit_price :: "rat option"
  pl_line_total :: "rat option"
  pl_observed :: timestamp

datatype source_kind = PREBILL_SOURCE | MANAGEMENT_SOURCE | FISCAL_SOURCE
datatype match_basis = ITEM_CODE_EXACT | DESCRIPTION_NORMALIZED_EXACT
datatype price_status = RESOLVED | AGREED | AMBIGUOUS

type_synonym signature = "rat option \<times> rat option"

record price_criteria =
  candidate_count :: nat
  candidate_price_signatures :: "signature list"
  item_code_priority :: bool
  quantity_compatibility_basis :: string
  unit_price_origin :: string
  temporal_relation :: string
  temporal_distance_seconds :: int

record attribution =
  at_id :: uuid
  at_correlation :: uuid
  at_target_document :: uuid
  at_target_version :: uuid
  at_target_line :: uuid
  at_source_document :: uuid
  at_source_version :: uuid
  at_source_line :: uuid
  at_unit_price :: "rat option"
  at_line_total :: "rat option"
  at_target_quantity :: "rat option"
  at_source_quantity :: "rat option"
  at_source_kind :: source_kind
  at_basis :: match_basis
  at_algorithm :: string
  at_confidence :: rat
  at_status :: price_status
  at_criteria :: price_criteria
  at_ambiguity_group :: "string option"
  at_fingerprint :: string
  at_source_observed :: timestamp

definition price_algorithm :: string where
  "price_algorithm = ''line-price-attribution/1.0.0''"

section \<open>Normalisation\<close>

definition normalise_code :: "string option \<Rightarrow> string option" where
  "normalise_code v = (case v of None \<Rightarrow> None | Some s \<Rightarrow> let t = strip s in if t = [] then None else Some t)"

text \<open>
  \<^verbatim>\<open>unicodedata.normalize("NFKC", c).casefold()\<close> of one Latin-1 character, as code points: the result of
  some lies outside Latin-1. Composed letters stay composed, the spacing accents become a blank and a
  combining accent.
\<close>

definition nfkc_code :: "nat \<Rightarrow> nat list" where
  "nfkc_code n =
     (if n = 160 then [32] else if n = 168 then [32, 776] else if n = 170 then [97] else if n = 175 then [32, 772]
      else if n = 178 then [50] else if n = 179 then [51] else if n = 180 then [32, 769] else if n = 181 then [956]
      else if n = 184 then [32, 807] else if n = 185 then [49] else if n = 186 then [111]
      else if n = 188 then [49, 8260, 52] else if n = 189 then [49, 8260, 50] else if n = 190 then [51, 8260, 52] else [n])"

definition casefold_code :: "nat \<Rightarrow> nat list" where
  "casefold_code n =
     (if 65 \<le> n \<and> n \<le> 90 then [n + 32] else if n = 223 then [115, 115]
      else if 192 \<le> n \<and> n \<le> 222 \<and> n \<noteq> 215 then [n + 32] else [n])"

definition space_code :: "nat \<Rightarrow> bool" where
  "space_code n = ((9 \<le> n \<and> n \<le> 13) \<or> (28 \<le> n \<and> n \<le> 32) \<or> n = 133 \<or> n = 160)"

text \<open>\<^verbatim>\<open>re.sub(r"\s+", " ", s).strip()\<close>\<close>

fun squeeze_codes :: "nat list \<Rightarrow> nat list" where
  "squeeze_codes [] = []"
| "squeeze_codes [c] = (if space_code c then [32] else [c])"
| "squeeze_codes (c # d # cs) = (if space_code c then if space_code d then squeeze_codes (d # cs) else 32 # squeeze_codes (d # cs)
     else c # squeeze_codes (d # cs))"

definition strip_codes :: "nat list \<Rightarrow> nat list" where
  "strip_codes s = rev (dropWhile space_code (rev (dropWhile space_code s)))"

definition normalise_description :: "string option \<Rightarrow> nat list option" where
  "normalise_description v = (case v of None \<Rightarrow> None
    | Some s \<Rightarrow> let t = strip_codes (squeeze_codes (concat (map (\<lambda>c. concat (map casefold_code (nfkc_code (code c)))) s)))
        in if t = [] then None else Some t)"

text \<open>\<^verbatim>\<open>quantize(Decimal("0.0001"), rounding=ROUND_HALF_UP)\<close>: halves are rounded away from zero.\<close>

definition half_up :: "rat \<Rightarrow> int" where
  "half_up x = (if 0 \<le> x then \<lfloor>x + 1 / 2\<rfloor> else - \<lfloor>- x + 1 / 2\<rfloor>)"

definition normalise_money :: "rat option \<Rightarrow> rat option" where
  "normalise_money v = map_option (\<lambda>x. of_int (half_up (x * 10 ^ 4)) / 10 ^ 4) v"

definition effective_unit :: "price_line \<Rightarrow> rat option \<times> string" where
  "effective_unit l = (case pl_unit_price l of
      Some u \<Rightarrow> (normalise_money (Some u), ''OBSERVED_UNIT_PRICE'')
    | None \<Rightarrow> (case (pl_line_total l, pl_quantity l) of
        (Some t, Some q) \<Rightarrow> if q = 0 then (None, ''UNAVAILABLE'')
          else (normalise_money (Some (dec_div t \<bar>q\<bar>)), ''DERIVED_FROM_OBSERVED_LINE_TOTAL'')
      | _ \<Rightarrow> (None, ''UNAVAILABLE'')))"

definition quantity_compatibility :: "price_line \<Rightarrow> price_line \<Rightarrow> bool \<times> string" where
  "quantity_compatibility t s = (case (pl_quantity t, pl_quantity s) of
      (Some a, Some b) \<Rightarrow> if \<bar>a\<bar> = \<bar>b\<bar> then (True, ''ABSOLUTE_EXACT'') else (False, ''CONFLICT'')
    | _ \<Rightarrow> (True, ''UNKNOWN''))"

definition price_signature :: "price_line \<Rightarrow> signature" where
  "price_signature l = (fst (effective_unit l), normalise_money (pl_line_total l))"

definition has_observed_amount :: "price_line \<Rightarrow> bool" where
  "has_observed_amount l = (pl_unit_price l \<noteq> None \<or> pl_line_total l \<noteq> None)"

section \<open>One order line against one document\<close>

definition price_candidates :: "price_line \<Rightarrow> price_line list \<Rightarrow> match_basis option \<times> price_line list" where
  "price_candidates target sources =
     (let fits = (\<lambda>s. fst (quantity_compatibility target s) \<and> has_observed_amount s);
          code = normalise_code (pl_item_code target);
          by_code = (if code = None then [] else filter (\<lambda>s. normalise_code (pl_item_code s) = code \<and> fits s) sources);
          description = normalise_description (pl_description target);
          by_description = (if description = None then []
            else filter (\<lambda>s. normalise_description (pl_description s) = description \<and> fits s) sources)
      in if by_code \<noteq> [] then (Some ITEM_CODE_EXACT, by_code)
         else if by_description \<noteq> [] then (Some DESCRIPTION_NORMALIZED_EXACT, by_description)
         else (None, []))"

definition sources_agree :: "price_line list \<Rightarrow> bool" where
  "sources_agree cs = (let sigs = map price_signature cs;
       units = remdups (List.map_filter fst sigs); totals = remdups (List.map_filter snd sigs)
     in if list_all (\<lambda>s. fst s \<noteq> None) sigs then length units = 1 \<and> length totals \<le> 1
        else if list_all (\<lambda>s. snd s \<noteq> None) sigs then length totals = 1 \<and> length units \<le> 1
        else False)"

definition price_fingerprint :: "(bytes \<Rightarrow> digest) \<Rightarrow> metadata \<Rightarrow> string" where
  "price_fingerprint sha256 p = hexdigest (sha256 (canonical_json (JObj p)))"

definition candidate_order :: "price_line \<Rightarrow> nat \<times> uuid" where
  "candidate_order l = (pl_sequence l, pl_line l)"

definition price_confidence :: "match_basis \<Rightarrow> string \<Rightarrow> string \<Rightarrow> price_status \<Rightarrow> rat" where
  "price_confidence basis quantities origin status =
     (let c0 = (if basis = ITEM_CODE_EXACT then 98 / 100 else 90 / 100);
          c1 = (if quantities = ''UNKNOWN'' then c0 - 10 / 100 else c0);
          c2 = (if origin = ''DERIVED_FROM_OBSERVED_LINE_TOTAL'' then c1 - 3 / 100
                else if origin = ''UNAVAILABLE'' then c1 - 15 / 100 else c1)
      in case status of AGREED \<Rightarrow> min (99 / 100) (c2 + 1 / 100) | AMBIGUOUS \<Rightarrow> min c2 (49 / 100) | RESOLVED \<Rightarrow> c2)"

definition price_identity :: "string \<Rightarrow> uuid \<Rightarrow> uuid \<Rightarrow> uuid \<Rightarrow> metadata" where
  "price_identity algorithm correlation target source =
     [(''algorithm_version'', JStr algorithm), (''correlation_id'', JStr (uuid_text correlation)),
      (''target_line_id'', JStr (uuid_text target)), (''source_line_id'', JStr (uuid_text source))]"

definition ambiguity_payload :: "string \<Rightarrow> uuid \<Rightarrow> uuid \<Rightarrow> uuid \<Rightarrow> price_line list \<Rightarrow> metadata" where
  "ambiguity_payload algorithm correlation target version cs =
     [(''algorithm_version'', JStr algorithm), (''correlation_id'', JStr (uuid_text correlation)),
      (''target_line_id'', JStr (uuid_text target)), (''source_document_version_id'', JStr (uuid_text version)),
      (''candidate_line_ids'', JList (map (\<lambda>c. JStr (uuid_text (pl_line c))) cs))]"

definition price_uuid :: "(string \<Rightarrow> uuid) \<Rightarrow> string \<Rightarrow> uuid" where
  "price_uuid uuid5 fingerprint = uuid5 (''retailprintguard:'' @ fingerprint)"

definition price_attribution :: "(bytes \<Rightarrow> digest) \<Rightarrow> (string \<Rightarrow> uuid) \<Rightarrow> uuid \<Rightarrow> price_line \<Rightarrow> source_kind \<Rightarrow> uuid \<Rightarrow> uuid
    \<Rightarrow> string \<Rightarrow> match_basis \<Rightarrow> price_line list \<Rightarrow> price_status \<Rightarrow> string option \<Rightarrow> price_line \<Rightarrow> attribution" where
  "price_attribution sha256 uuid5 correlation target kind document version algorithm basis cs status grp s =
     (let (unit_price, origin) = effective_unit s; quantities = snd (quantity_compatibility target s);
          seconds = whole_seconds (pl_observed s - pl_observed target);
          fingerprint = price_fingerprint sha256 (price_identity algorithm correlation (pl_line target) (pl_line s))
      in \<lparr>at_id = price_uuid uuid5 fingerprint, at_correlation = correlation, at_target_document = pl_document target,
           at_target_version = pl_version target, at_target_line = pl_line target, at_source_document = document,
           at_source_version = version, at_source_line = pl_line s, at_unit_price = unit_price,
           at_line_total = normalise_money (pl_line_total s), at_target_quantity = pl_quantity target,
           at_source_quantity = pl_quantity s, at_source_kind = kind, at_basis = basis, at_algorithm = algorithm,
           at_confidence = price_confidence basis quantities origin status, at_status = status,
           at_criteria = \<lparr>candidate_count = length cs, candidate_price_signatures = map price_signature cs,
             item_code_priority = (basis = ITEM_CODE_EXACT), quantity_compatibility_basis = quantities, unit_price_origin = origin,
             temporal_relation = (if 0 < seconds then ''SOURCE_AFTER_TARGET'' else if seconds < 0 then ''SOURCE_BEFORE_TARGET''
               else ''SIMULTANEOUS''), temporal_distance_seconds = \<bar>seconds\<bar>\<rparr>,
           at_ambiguity_group = grp, at_fingerprint = fingerprint, at_source_observed = pl_observed s\<rparr>)"

definition price_status_of :: "price_line list \<Rightarrow> price_status" where
  "price_status_of cs = (if length cs = 1 then RESOLVED else if 1 < length cs \<and> sources_agree cs then AGREED else AMBIGUOUS)"

definition ambiguity_group_of :: "(bytes \<Rightarrow> digest) \<Rightarrow> string \<Rightarrow> uuid \<Rightarrow> price_line \<Rightarrow> uuid \<Rightarrow> price_line list \<Rightarrow> string option" where
  "ambiguity_group_of sha256 algorithm correlation target version cs = (if price_status_of cs = AMBIGUOUS
     then Some (price_fingerprint sha256 (ambiguity_payload algorithm correlation (pl_line target) version cs)) else None)"

definition derive_document_attributions :: "(bytes \<Rightarrow> digest) \<Rightarrow> (string \<Rightarrow> uuid) \<Rightarrow> uuid \<Rightarrow> price_line \<Rightarrow> source_kind \<Rightarrow> uuid
    \<Rightarrow> uuid \<Rightarrow> string \<Rightarrow> price_line list \<Rightarrow> attribution list" where
  "derive_document_attributions sha256 uuid5 correlation target kind document version algorithm sources =
     (case price_candidates target sources of
        (None, _) \<Rightarrow> []
      | (Some basis, found) \<Rightarrow> (let cs = sort_key candidate_order found in
          map (price_attribution sha256 uuid5 correlation target kind document version algorithm basis cs (price_status_of cs)
              (ambiguity_group_of sha256 algorithm correlation target version cs))
            (filter (\<lambda>s. fst (quantity_compatibility target s)) cs)))"

section \<open>A transaction\<close>

text \<open>A row of \<^verbatim>\<open>document_lines\<close>, the columns the service reads.\<close>

record line_row =
  lr_id :: uuid
  lr_version :: uuid
  lr_sequence :: nat
  lr_item_code :: "string option"
  lr_description :: "string option"
  lr_quantity :: "rat option"
  lr_unit_price :: "rat option"
  lr_line_total :: "rat option"
  lr_cancelled :: bool
  lr_removed :: bool

definition evidence_line :: "document \<Rightarrow> uuid \<Rightarrow> line_row \<Rightarrow> price_line" where
  "evidence_line d version l = \<lparr>pl_line = lr_id l, pl_document = doc_id d, pl_version = version, pl_sequence = lr_sequence l,
     pl_item_code = lr_item_code l, pl_description = lr_description l, pl_quantity = lr_quantity l,
     pl_unit_price = lr_unit_price l, pl_line_total = lr_line_total l,
     pl_observed = (case document_timestamp d of Some t \<Rightarrow> t | None \<Rightarrow> captured_at d)\<rparr>"

definition price_target_types :: "document_type set" where
  "price_target_types = {ORDER, ORDER_CHANGE, KITCHEN_ORDER}"

definition source_kind_of :: "document_type \<Rightarrow> source_kind option" where
  "source_kind_of t = (case t of PRE_BILL \<Rightarrow> Some PREBILL_SOURCE | MANAGEMENT_DOCUMENT \<Rightarrow> Some MANAGEMENT_SOURCE
     | COMMERCIAL_DOCUMENT \<Rightarrow> Some FISCAL_SOURCE | _ \<Rightarrow> None)"

definition row_order :: "line_row \<Rightarrow> uuid \<times> nat \<times> uuid" where
  "row_order l = (lr_version l, lr_sequence l, lr_id l)"

definition lines_of_version :: "line_row list \<Rightarrow> uuid \<Rightarrow> line_row list" where
  "lines_of_version rows v = filter (\<lambda>l. lr_version l = v) (sort_key row_order rows)"

definition price_targets :: "document list \<Rightarrow> document list" where
  "price_targets docs = filter (\<lambda>d. doc_type d \<in> price_target_types) docs"

definition price_sources :: "document list \<Rightarrow> document list" where
  "price_sources docs = filter (\<lambda>d. source_kind_of (doc_type d) \<noteq> None \<and> complete d) docs"

definition target_evidence :: "line_row list \<Rightarrow> document \<Rightarrow> uuid \<Rightarrow> price_line list" where
  "target_evidence rows d v = map (evidence_line d v) (filter (\<lambda>l. lr_unit_price l = None) (lines_of_version rows v))"

definition source_evidence :: "line_row list \<Rightarrow> document \<Rightarrow> uuid \<Rightarrow> price_line list" where
  "source_evidence rows d v = map (evidence_line d v)
     (filter (\<lambda>l. \<not> lr_cancelled l \<and> \<not> lr_removed l \<and> (lr_unit_price l \<noteq> None \<or> lr_line_total l \<noteq> None)) (lines_of_version rows v))"

text \<open>All attributions of the order document \<open>t\<close> from the document \<open>s\<close>.\<close>

definition pair_attributions :: "(bytes \<Rightarrow> digest) \<Rightarrow> (string \<Rightarrow> uuid) \<Rightarrow> uuid \<Rightarrow> (uuid \<rightharpoonup> uuid) \<Rightarrow> line_row list \<Rightarrow> document \<Rightarrow> document
    \<Rightarrow> attribution list" where
  "pair_attributions sha256 uuid5 correlation version_ids rows t s =
     (case (version_ids (doc_id t), version_ids (doc_id s), source_kind_of (doc_type s)) of
        (Some tv, Some sv, Some kind) \<Rightarrow> (let lines = source_evidence rows s sv in
          if lines = [] then []
          else concat (map (\<lambda>l. derive_document_attributions sha256 uuid5 correlation l kind (doc_id s) sv price_algorithm lines)
            (target_evidence rows t tv)))
      | _ \<Rightarrow> [])"

definition derived_attributions :: "(bytes \<Rightarrow> digest) \<Rightarrow> (string \<Rightarrow> uuid) \<Rightarrow> uuid \<Rightarrow> document list \<Rightarrow> (uuid \<rightharpoonup> uuid) \<Rightarrow> line_row list
    \<Rightarrow> attribution list" where
  "derived_attributions sha256 uuid5 correlation docs version_ids rows =
     concat (map (\<lambda>t. concat (map (pair_attributions sha256 uuid5 correlation version_ids rows t) (price_sources docs))) (price_targets docs))"

text \<open>The rows that are new, each fingerprint once, with the fingerprints known so far.\<close>

fun missing_attributions :: "string set \<Rightarrow> attribution list \<Rightarrow> attribution list" where
  "missing_attributions existing [] = []"
| "missing_attributions existing (a # as) = (if at_fingerprint a \<in> existing then missing_attributions existing as
     else a # missing_attributions (insert (at_fingerprint a) existing) as)"

text \<open>\<^verbatim>\<open>persist_transaction_price_attributions\<close> returns the table and the number of new rows.\<close>

definition persist_attributions :: "(bytes \<Rightarrow> digest) \<Rightarrow> (string \<Rightarrow> uuid) \<Rightarrow> uuid \<Rightarrow> document list \<Rightarrow> (uuid \<rightharpoonup> uuid) \<Rightarrow> line_row list
    \<Rightarrow> attribution list \<Rightarrow> attribution list \<times> nat" where
  "persist_attributions sha256 uuid5 correlation docs version_ids rows stored =
     (let derived = derived_attributions sha256 uuid5 correlation docs version_ids rows;
          fingerprints = set (map at_fingerprint derived);
          existing = set (map at_fingerprint stored) \<inter> fingerprints;
          missing = missing_attributions existing derived
      in (stored @ missing, length missing))"

section \<open>What an attribution rests on\<close>

lemma price_candidates_in:
  assumes "price_candidates target sources = (Some basis, cs)" and "s \<in> set cs"
  shows "s \<in> set sources \<and> fst (quantity_compatibility target s) \<and> has_observed_amount s \<and>
    (basis = ITEM_CODE_EXACT \<and> normalise_code (pl_item_code s) = normalise_code (pl_item_code target) \<and> normalise_code (pl_item_code target) \<noteq> None \<or>
     basis = DESCRIPTION_NORMALIZED_EXACT \<and> normalise_description (pl_description s) = normalise_description (pl_description target) \<and>
       normalise_description (pl_description target) \<noteq> None)"
  using assms by (auto simp: price_candidates_def Let_def split: if_splits)

lemma price_confidence_bounds:
  "49 / 100 \<le> price_confidence basis q origin status \<and> price_confidence basis q origin status \<le> 99 / 100 \<and>
   (price_confidence basis q origin status < 1 / 2 \<longleftrightarrow> status = AMBIGUOUS)"
  by (cases status; cases basis) (simp_all add: price_confidence_def Let_def)

lemma quantity_compatibility_abs:
  "fst (quantity_compatibility t s) \<longleftrightarrow> (\<forall>a b. pl_quantity t = Some a \<longrightarrow> pl_quantity s = Some b \<longrightarrow> \<bar>a\<bar> = \<bar>b\<bar>)"
  by (auto simp: quantity_compatibility_def split: option.splits)

lemma derive_member:
  assumes "a \<in> set (derive_document_attributions sha256 uuid5 correlation target kind document version algorithm sources)"
  shows "\<exists>basis found s. price_candidates target sources = (Some basis, found) \<and> s \<in> set found \<and>
    a = price_attribution sha256 uuid5 correlation target kind document version algorithm basis (sort_key candidate_order found)
      (price_status_of (sort_key candidate_order found))
      (ambiguity_group_of sha256 algorithm correlation target version (sort_key candidate_order found)) s"
proof -
  obtain b found where c: "price_candidates target sources = (b, found)" by (cases "price_candidates target sources")
  with assms obtain basis where "b = Some basis" by (cases b) (simp_all add: derive_document_attributions_def)
  with c assms show ?thesis by (auto simp: derive_document_attributions_def Let_def)
qed

text \<open>The price an attribution shows: the observed unit price, or the observed total per unit.\<close>

definition shown_price :: "line_row \<Rightarrow> rat option" where
  "shown_price l = normalise_money (case lr_unit_price l of Some u \<Rightarrow> Some u
     | None \<Rightarrow> (case (lr_line_total l, lr_quantity l) of (Some t, Some q) \<Rightarrow> if q = 0 then None else Some (dec_div t \<bar>q\<bar>) | _ \<Rightarrow> None))"

lemma shown_price_effective: "fst (effective_unit (evidence_line d v l)) = shown_price l"
  by (auto simp: effective_unit_def evidence_line_def shown_price_def normalise_money_def split: option.split)

definition same_item :: "match_basis \<Rightarrow> line_row \<Rightarrow> line_row \<Rightarrow> bool" where
  "same_item basis l r = (case basis of
      ITEM_CODE_EXACT \<Rightarrow> normalise_code (lr_item_code l) \<noteq> None \<and> normalise_code (lr_item_code r) = normalise_code (lr_item_code l)
    | DESCRIPTION_NORMALIZED_EXACT \<Rightarrow> normalise_description (lr_description l) \<noteq> None \<and>
        normalise_description (lr_description r) = normalise_description (lr_description l))"

text \<open>The order line \<open>l\<close> of document \<open>t\<close> is priced from the line \<open>r\<close> of document \<open>s\<close>.\<close>

definition priced_from :: "attribution \<Rightarrow> document \<Rightarrow> line_row \<Rightarrow> document \<Rightarrow> line_row \<Rightarrow> bool" where
  "priced_from a t l s r \<longleftrightarrow>
     doc_type t \<in> price_target_types \<and> lr_unit_price l = None \<and>
     doc_type s \<in> {PRE_BILL, MANAGEMENT_DOCUMENT, COMMERCIAL_DOCUMENT} \<and> complete s \<and> \<not> lr_cancelled r \<and> \<not> lr_removed r \<and>
     (lr_unit_price r \<noteq> None \<or> lr_line_total r \<noteq> None) \<and> same_item (at_basis a) l r \<and>
     (\<forall>p q. lr_quantity l = Some p \<longrightarrow> lr_quantity r = Some q \<longrightarrow> \<bar>p\<bar> = \<bar>q\<bar>) \<and>
     at_target_line a = lr_id l \<and> at_source_line a = lr_id r \<and> at_target_document a = doc_id t \<and> at_source_document a = doc_id s \<and>
     at_unit_price a = shown_price r \<and> at_line_total a = normalise_money (lr_line_total r) \<and>
     49 / 100 \<le> at_confidence a \<and> at_confidence a \<le> 99 / 100 \<and> (at_confidence a < 1 / 2 \<longleftrightarrow> at_status a = AMBIGUOUS)"

lemma pair_attributions_from:
  assumes "a \<in> set (pair_attributions sha256 uuid5 correlation version_ids rows t s)" and "t \<in> set (price_targets docs)" and "s \<in> set (price_sources docs)"
  shows "\<exists>l \<in> set rows. \<exists>r \<in> set rows. version_ids (doc_id t) = Some (lr_version l) \<and> version_ids (doc_id s) = Some (lr_version r) \<and>
    priced_from a t l s r"
proof -
  from assms(1) have "version_ids (doc_id t) \<noteq> None" "version_ids (doc_id s) \<noteq> None" "source_kind_of (doc_type s) \<noteq> None"
    by (cases "version_ids (doc_id t)"; cases "version_ids (doc_id s)"; cases "source_kind_of (doc_type s)"; simp add: pair_attributions_def)+
  then obtain tv sv kind where v: "version_ids (doc_id t) = Some tv" "version_ids (doc_id s) = Some sv"
    and kind: "source_kind_of (doc_type s) = Some kind" by blast
  with assms(1) obtain tl where tl: "tl \<in> set (target_evidence rows t tv)"
    and a: "a \<in> set (derive_document_attributions sha256 uuid5 correlation tl kind (doc_id s) sv price_algorithm (source_evidence rows s sv))"
    by (auto simp: pair_attributions_def Let_def split: if_splits)
  from derive_member [OF a] obtain basis found status grp sl where c: "price_candidates tl (source_evidence rows s sv) = (Some basis, found)"
    "sl \<in> set found"
    and eq: "a = price_attribution sha256 uuid5 correlation tl kind (doc_id s) sv price_algorithm basis (sort_key candidate_order found) status grp sl"
    by blast
  note facts = price_candidates_in [OF c]
  from tl obtain l where l: "l \<in> set rows" "lr_version l = tv" "lr_unit_price l = None" "tl = evidence_line t tv l"
    by (auto simp: target_evidence_def lines_of_version_def)
  from facts obtain r where r: "r \<in> set rows" "lr_version r = sv" "\<not> lr_cancelled r" "\<not> lr_removed r"
    "lr_unit_price r \<noteq> None \<or> lr_line_total r \<noteq> None" "sl = evidence_line s sv r"
    by (auto simp: source_evidence_def lines_of_version_def)
  have type: "doc_type s \<in> {PRE_BILL, MANAGEMENT_DOCUMENT, COMMERCIAL_DOCUMENT}" using kind by (auto simp: source_kind_of_def split: document_type.splits)
  have "priced_from a t l s r"
    using assms(2,3) type l r facts price_confidence_bounds shown_price_effective [of s sv r]
    unfolding priced_from_def eq price_attribution_def same_item_def
    by (auto simp: price_targets_def price_sources_def quantity_compatibility_abs evidence_line_def split_def Let_def)
  with l r v show ?thesis by blast
qed

text \<open>
  C21: a price is attributed only on evidence. Every attribution of a transaction belongs to an order line
  without an observed price and rests on a line, neither cancelled nor removed and with an observed
  amount, of a complete pre-bill, management or commercial document of the transaction, with the same
  item code or description and no contradicting quantity; it shows that line's unit price, or its total
  per unit, and its confidence is below one half exactly when the candidates contradict each other.
\<close>

theorem price_rests_on_evidence:
  assumes "a \<in> set (derived_attributions sha256 uuid5 correlation docs version_ids rows)"
  shows "\<exists>t \<in> set docs. \<exists>s \<in> set docs. \<exists>l \<in> set rows. \<exists>r \<in> set rows.
    version_ids (doc_id t) = Some (lr_version l) \<and> version_ids (doc_id s) = Some (lr_version r) \<and> priced_from a t l s r"
proof -
  from assms obtain t s where ts: "t \<in> set (price_targets docs)" "s \<in> set (price_sources docs)"
    and a: "a \<in> set (pair_attributions sha256 uuid5 correlation version_ids rows t s)" by (auto simp: derived_attributions_def)
  then have "t \<in> set docs" "s \<in> set docs" by (auto simp: price_targets_def price_sources_def)
  with pair_attributions_from [OF a ts] show ?thesis by blast
qed

section \<open>Contradicting sources\<close>

lemma two_values:
  assumes "a \<in> set xs" and "b \<in> set xs" and "length (remdups xs) \<le> 1"
  shows "a = b"
proof -
  have "card (set xs) \<le> 1" using assms(3) by (simp add: length_remdups_card_conv)
  then show ?thesis using assms(1,2) card_le_Suc0_iff_eq [of "set xs"] by simp
qed

lemma agreeing_values:
  assumes "sources_agree cs"
  shows "length (remdups (List.map_filter fst (map price_signature cs))) \<le> 1 \<and> length (remdups (List.map_filter snd (map price_signature cs))) \<le> 1"
proof -
  have "n \<le> 1 \<and> m \<le> 1" if "if P then n = 1 \<and> m \<le> 1 else if Q then m = 1 \<and> n \<le> 1 else False" for n m :: nat and P Q
    using that by (auto split: if_splits)
  from this [OF assms [unfolded sources_agree_def Let_def]] show ?thesis .
qed

lemma signature_member:
  "s \<in> set cs \<Longrightarrow> fst (price_signature s) = Some x \<Longrightarrow> x \<in> set (List.map_filter fst (map price_signature cs))"
  "s \<in> set cs \<Longrightarrow> snd (price_signature s) = Some x \<Longrightarrow> x \<in> set (List.map_filter snd (map price_signature cs))"
  unfolding in_map_filter by auto

lemma sources_disagree:
  assumes "s \<in> set cs" and "r \<in> set cs"
    and "fst (price_signature s) = Some x \<and> fst (price_signature r) = Some y \<or> snd (price_signature s) = Some x \<and> snd (price_signature r) = Some y"
    and "x \<noteq> y"
  shows "\<not> sources_agree cs"
proof
  assume "sources_agree cs"
  note few = agreeing_values [OF this]
  from assms(3) have "x = y"
  proof
    assume "fst (price_signature s) = Some x \<and> fst (price_signature r) = Some y"
    then show ?thesis using two_values signature_member(1) assms(1,2) few by meson
  next
    assume "snd (price_signature s) = Some x \<and> snd (price_signature r) = Some y"
    then show ?thesis using two_values signature_member(2) assms(1,2) few by meson
  qed
  with assms(4) show False by simp
qed

text \<open>
  A contradiction between sources is shown, not resolved. When two lines of one document give an
  order line different unit prices or different totals, every attribution of that order line from that
  document is ambiguous, carries the group of the contradiction and a confidence below one half.
\<close>

theorem contradiction_is_shown:
  assumes "a \<in> set as" and "b \<in> set as" and "c \<in> set as"
    and "as = derive_document_attributions sha256 uuid5 correlation target kind document version algorithm sources"
    and "at_unit_price a = Some x \<and> at_unit_price b = Some y \<or> at_line_total a = Some x \<and> at_line_total b = Some y" and "x \<noteq> y"
  shows "at_status c = AMBIGUOUS \<and> at_ambiguity_group c \<noteq> None \<and> at_confidence c < 1 / 2"
proof -
  from assms(1,4) derive_member obtain basis found where c: "price_candidates target sources = (Some basis, found)" by blast
  let ?cs = "sort_key candidate_order found"
  define status where "status = price_status_of ?cs"
  define grp where "grp = ambiguity_group_of sha256 algorithm correlation target version ?cs"
  have as: "as = map (price_attribution sha256 uuid5 correlation target kind document version algorithm basis ?cs status grp)
     (filter (\<lambda>s. fst (quantity_compatibility target s)) ?cs)"
    unfolding assms(4) derive_document_attributions_def c by (simp add: Let_def status_def grp_def)
  have shown: "at_unit_price (price_attribution sha256 uuid5 correlation target kind document version algorithm basis ?cs status grp s) = fst (price_signature s)"
    "at_line_total (price_attribution sha256 uuid5 correlation target kind document version algorithm basis ?cs status grp s) = snd (price_signature s)"
    "at_status (price_attribution sha256 uuid5 correlation target kind document version algorithm basis ?cs status grp s) = status"
    "at_ambiguity_group (price_attribution sha256 uuid5 correlation target kind document version algorithm basis ?cs status grp s) = grp"
    "\<exists>q w. at_confidence (price_attribution sha256 uuid5 correlation target kind document version algorithm basis ?cs status grp s) =
      price_confidence basis q w status" for s
    by (auto simp: price_attribution_def price_signature_def split_def Let_def)
  from assms(1,2,5) obtain s r where sr: "s \<in> set ?cs" "r \<in> set ?cs"
    "fst (price_signature s) = Some x \<and> fst (price_signature r) = Some y \<or> snd (price_signature s) = Some x \<and> snd (price_signature r) = Some y"
    unfolding as by (auto simp: shown)
  have "\<not> sources_agree ?cs" by (rule sources_disagree [OF sr assms(6)])
  moreover have "length ?cs \<noteq> 1"
  proof
    assume "length ?cs = 1"
    then obtain z where "?cs = [z]" by (auto simp: length_Suc_conv)
    with sr assms(6) show False by auto
  qed
  ultimately have "status = AMBIGUOUS" by (simp add: status_def price_status_of_def)
  moreover from assms(3) obtain w q where "at_status c = status" "at_ambiguity_group c = grp" "at_confidence c = price_confidence basis q w status"
    unfolding as using shown by fastforce
  ultimately show ?thesis using price_confidence_bounds [of basis q w status] by (simp add: grp_def status_def ambiguity_group_of_def)
qed

section \<open>The table of attributions\<close>

lemma missing_fingerprints: "at_fingerprint ` set (missing_attributions E as) = at_fingerprint ` set as - E"
  by (induction E as rule: missing_attributions.induct) auto

lemma missing_distinct: "distinct (map at_fingerprint (missing_attributions E as))"
proof (induction E as rule: missing_attributions.induct)
  case (2 E a as)
  have "at_fingerprint a \<notin> at_fingerprint ` set (missing_attributions (insert (at_fingerprint a) E) as)"
    by (simp add: missing_fingerprints)
  with 2 show ?case by (simp add: image_iff)
qed simp

lemma missing_none: "at_fingerprint ` set as \<subseteq> E \<Longrightarrow> missing_attributions E as = []"
  by (induction E as rule: missing_attributions.induct) auto

text \<open>
  Attributions are appended, each once. Rows that are stored stay as they are, the new rows come after
  them, no fingerprint occurs twice, every derived attribution is stored under its fingerprint, and
  running the step again inserts nothing.
\<close>

theorem prices_appended_once:
  assumes "persist_attributions sha256 uuid5 correlation docs version_ids rows stored = (table, n)"
    and "distinct (map at_fingerprint stored)"
  shows "(\<exists>new. table = stored @ new \<and> length new = n) \<and> distinct (map at_fingerprint table) \<and>
    at_fingerprint ` set (derived_attributions sha256 uuid5 correlation docs version_ids rows) \<subseteq> at_fingerprint ` set table \<and>
    persist_attributions sha256 uuid5 correlation docs version_ids rows table = (table, 0)"
proof -
  let ?derived = "derived_attributions sha256 uuid5 correlation docs version_ids rows"
  let ?E = "at_fingerprint ` set stored \<inter> at_fingerprint ` set ?derived"
  let ?new = "missing_attributions ?E ?derived"
  have table: "table = stored @ ?new" and n: "length ?new = n"
    using assms(1) by (auto simp: persist_attributions_def Let_def)
  have known: "at_fingerprint ` set ?derived \<subseteq> at_fingerprint ` set table"
    unfolding table set_append image_Un missing_fingerprints by blast
  have "at_fingerprint ` set stored \<inter> at_fingerprint ` set ?new = {}"
    unfolding missing_fingerprints by blast
  then have "distinct (map at_fingerprint table)" using assms(2) missing_distinct by (simp add: table)
  moreover have "missing_attributions (at_fingerprint ` set table \<inter> at_fingerprint ` set ?derived) ?derived = []"
    using known by (intro missing_none) blast
  then have "persist_attributions sha256 uuid5 correlation docs version_ids rows table = (table, 0)"
    by (simp add: persist_attributions_def Let_def)
  ultimately show ?thesis using table n known by blast
qed

section \<open>An example\<close>

text \<open>An order of one coffee, and a pre-bill that prices it, or two that contradict each other.\<close>

definition order_row :: line_row where
  "order_row = \<lparr>lr_id = 11, lr_version = 1, lr_sequence = 1, lr_item_code = None, lr_description = Some ''Caffe'', lr_quantity = Some 1,
     lr_unit_price = None, lr_line_total = None, lr_cancelled = False, lr_removed = False\<rparr>"

definition priced_row :: "uuid \<Rightarrow> rat \<Rightarrow> line_row" where
  "priced_row k p = \<lparr>lr_id = k, lr_version = 2, lr_sequence = 1, lr_item_code = None, lr_description = Some ''CAFFE '', lr_quantity = Some 1,
     lr_unit_price = Some p, lr_line_total = None, lr_cancelled = False, lr_removed = False\<rparr>"

definition priced_documents :: "document list" where
  "priced_documents = [blank_document\<lparr>doc_id := 1, doc_type := ORDER\<rparr>, blank_document\<lparr>doc_id := 2, doc_type := PRE_BILL\<rparr>]"

definition priced_attributions :: "line_row list \<Rightarrow> attribution list" where
  "priced_attributions rows = derived_attributions (\<lambda>b. 0) (\<lambda>s. 0) 7 priced_documents [1 \<mapsto> 1, 2 \<mapsto> 2] rows"

lemma coffee: "normalise_description (Some ''Caffe'') = Some [99, 97, 102, 102, 101]"
  "normalise_description (Some ''CAFFE '') = Some [99, 97, 102, 102, 101]"
  by code_simp+

lemma priced_once: "length (priced_attributions [order_row, priced_row 12 1]) = 1"
  by (simp add: priced_attributions_def derived_attributions_def priced_documents_def price_targets_def price_sources_def blank_document_def
      price_target_types_def source_kind_of_def pair_attributions_def source_evidence_def target_evidence_def lines_of_version_def
      row_order_def order_row_def priced_row_def Let_def evidence_line_def derive_document_attributions_def price_candidates_def
      normalise_code_def quantity_compatibility_def has_observed_amount_def coffee)

theorem price_rests_on_evidence_witness:
  "\<exists>a \<in> set (priced_attributions [order_row, priced_row 12 1]). \<exists>t \<in> set priced_documents. \<exists>s \<in> set priced_documents.
     \<exists>l \<in> set [order_row, priced_row 12 1]. \<exists>r \<in> set [order_row, priced_row 12 1]. priced_from a t l s r"
proof -
  obtain a where "a \<in> set (priced_attributions [order_row, priced_row 12 1])"
    using priced_once by (cases "priced_attributions [order_row, priced_row 12 1]") auto
  with price_rests_on_evidence [OF this [unfolded priced_attributions_def]] show ?thesis by blast
qed

theorem prices_appended_once_witness:
  "\<exists>table. persist_attributions (\<lambda>b. 0) (\<lambda>s. 0) 7 priced_documents [1 \<mapsto> 1, 2 \<mapsto> 2] [order_row, priced_row 12 1] [] = (table, length table) \<and>
     persist_attributions (\<lambda>b. 0) (\<lambda>s. 0) 7 priced_documents [1 \<mapsto> 1, 2 \<mapsto> 2] [order_row, priced_row 12 1] table = (table, 0)"
  using prices_appended_once [of "\<lambda>b. 0" "\<lambda>s. 0" 7 priced_documents "[1 \<mapsto> 1, 2 \<mapsto> 2]" "[order_row, priced_row 12 1]" "[]"]
  by (auto simp: persist_attributions_def Let_def)

definition two_prices :: "attribution list" where
  "two_prices = derive_document_attributions (\<lambda>b. 0) (\<lambda>s. 0) 7 (evidence_line blank_document 1 order_row) PREBILL_SOURCE 2 2 price_algorithm
     (map (evidence_line blank_document 2) [priced_row 12 1, priced_row 13 2])"

lemma two_prices: "map at_unit_price two_prices = [Some 1, Some 2]"
proof -
  have "half_up 10000 = 10000" "half_up 20000 = 20000" by (simp_all add: half_up_def floor_eq_iff)
  then show ?thesis
    by (simp add: two_prices_def derive_document_attributions_def price_candidates_def evidence_line_def order_row_def priced_row_def Let_def
        normalise_code_def quantity_compatibility_def has_observed_amount_def coffee candidate_order_def price_attribution_def
        effective_unit_def normalise_money_def)
qed

theorem contradiction_is_shown_witness:
  "list_all (\<lambda>c. at_status c = AMBIGUOUS \<and> at_ambiguity_group c \<noteq> None \<and> at_confidence c < 1 / 2) two_prices"
  unfolding list_all_iff
proof
  fix c assume c: "c \<in> set two_prices"
  obtain a b where ab: "two_prices = [a, b]" "at_unit_price a = Some 1" "at_unit_price b = Some 2"
    using two_prices by (auto simp: map_eq_Cons_conv)
  have "a \<in> set two_prices" "b \<in> set two_prices" unfolding ab(1) by simp_all
  from contradiction_is_shown [OF this c two_prices_def, of 1 2] ab(2,3)
  show "at_status c = AMBIGUOUS \<and> at_ambiguity_group c \<noteq> None \<and> at_confidence c < 1 / 2" by simp
qed

end
