(* ===== verification/EscLines.thy ===== *)
theory EscLines imports EscBytes begin

text \<open>
  Where the text lines of \<^verbatim>\<open>_extract_lines\<close> come from: each is the reading of one stretch of bytes, and the
  stretches follow each other without overlap.
\<close>

section \<open>Stretches of text\<close>

text \<open>A tab is read as four blanks.\<close>

definition expand_tabs :: "bytes \<Rightarrow> bytes" where
  "expand_tabs bs = concat (map (\<lambda>b. if b = 0x09 then [32, 32, 32, 32] else [b]) bs)"

definition page_text :: "(string \<Rightarrow> bytes \<Rightarrow> string option) \<Rightarrow> string \<Rightarrow> bytes \<Rightarrow> string" where
  "page_text decode enc bs = (case decode enc bs of Some t \<Rightarrow> t | None \<Rightarrow> concat (map escaped_byte bs))"

text \<open>The line \<open>l\<close> is the reading of \<open>n\<close> bytes from \<open>a\<close> on, cut off where the text is too long.\<close>

fun line_at :: "(string \<Rightarrow> bytes \<Rightarrow> string option) \<Rightarrow> bytes \<Rightarrow> nat \<Rightarrow> nat \<times> nat \<Rightarrow> text_line \<Rightarrow> bool" where
  "line_at decode p base (a, n) l \<longleftrightarrow> 0 < n \<and> a + n \<le> length p \<and> tl_offset l = base + a \<and>
     tl_length l = length (expand_tabs (segment a (a + n) p)) \<and> tl_text l \<noteq> [] \<and>
     (\<exists>enc k. tl_text l = take k (page_text decode enc (expand_tabs (segment a (a + n) p))))"

definition in_order :: "nat \<Rightarrow> (nat \<times> nat) list \<Rightarrow> bool" where
  "in_order limit spans \<longleftrightarrow> sorted_wrt (\<lambda>s t. fst s + snd s \<le> fst t) spans \<and> list_all (\<lambda>s. fst s + snd s \<le> limit) spans"

definition lines_from :: "(string \<Rightarrow> bytes \<Rightarrow> string option) \<Rightarrow> bytes \<Rightarrow> nat \<Rightarrow> nat \<Rightarrow> text_line list \<Rightarrow> bool" where
  "lines_from decode p base limit ls \<longleftrightarrow> (\<exists>spans. list_all2 (line_at decode p base) spans ls \<and> in_order limit spans)"

lemma in_order_mono: "in_order m spans \<Longrightarrow> m \<le> n \<Longrightarrow> in_order n spans"
  by (auto simp: in_order_def list_all_iff)

lemma lines_from_mono: "lines_from decode p base m ls \<Longrightarrow> m \<le> n \<Longrightarrow> lines_from decode p base n ls"
  unfolding lines_from_def using in_order_mono by blast

lemma lines_from_snoc:
  assumes "lines_from decode p base a ls" and "line_at decode p base (a, n) l"
  shows "lines_from decode p base (a + n) (ls @ [l])"
proof -
  from assms(1) obtain spans where s: "list_all2 (line_at decode p base) spans ls" "in_order a spans" by (auto simp: lines_from_def)
  have "list_all2 (line_at decode p base) (spans @ [(a, n)]) (ls @ [l])" using s(1) assms(2) by (simp add: list_all2_appendI)
  moreover have "in_order (a + n) (spans @ [(a, n)])"
    using s(2) in_order_mono [of a spans "a + n"] by (auto simp: in_order_def sorted_wrt_append list_all_iff)
  ultimately show ?thesis by (auto simp: lines_from_def)
qed

section \<open>The invariant of the loop\<close>

text \<open>Before the byte \<open>i\<close>: what is buffered are the bytes since \<open>j\<close>.\<close>

definition reading :: "(string \<Rightarrow> bytes \<Rightarrow> string option) \<Rightarrow> bytes \<Rightarrow> nat \<Rightarrow> nat \<Rightarrow> extraction \<Rightarrow> bool" where
  "reading decode p base i x \<longleftrightarrow> (if ex_buffer x = [] then lines_from decode p base i (ex_lines x)
     else \<exists>j < i. i \<le> length p \<and> ex_start x = base + j \<and> ex_buffer x = expand_tabs (segment j i p) \<and> lines_from decode p base j (ex_lines x))"

lemma decoded_text: "decoded decode x = (t, y) \<Longrightarrow> t = page_text decode (ex_encoding x) (ex_buffer x) \<and> ex_lines y = ex_lines x \<and>
    ex_start y = ex_start x \<and> ex_buffer y = ex_buffer x"
  by (auto simp: decoded_def page_text_def warn_def split: option.splits)

lemma emit_text_reads:
  assumes "reading decode p base i x"
  shows "ex_buffer (emit_text decode x) = [] \<and> lines_from decode p base i (ex_lines (emit_text decode x))"
proof (cases "ex_buffer x = []")
  case True
  with assms show ?thesis by (simp add: emit_text_def reading_def)
next
  case False
  with assms obtain j where j: "j < i" "i \<le> length p" "ex_start x = base + j" "ex_buffer x = expand_tabs (segment j i p)"
    "lines_from decode p base j (ex_lines x)" by (auto simp: reading_def)
  obtain t y where y: "decoded decode x = (t, y)" by fastforce
  note yx = decoded_text [OF y]
  have old: "lines_from decode p base i (ex_lines x)" using lines_from_mono j(1,5) by simp
  have new: "lines_from decode p base i (ex_lines x @ [\<lparr>tl_text = take k t, tl_offset = ex_start x, tl_length = length (ex_buffer x)\<rparr>])"
    if "take k t \<noteq> []" for k
  proof -
    have "line_at decode p base (j, i - j) \<lparr>tl_text = take k t, tl_offset = ex_start x, tl_length = length (ex_buffer x)\<rparr>"
      using j that yx by auto
    from lines_from_snoc [OF j(5) this] j(1) show ?thesis by simp
  qed
  show ?thesis
    using False old new [of "max_output_chars - ex_chars y"] yx
    by (simp add: emit_text_def y Let_def warn_def del: take_eq_Nil)
qed

lemma control_reads: "ex_buffer (control decode label x) = ex_buffer (emit_text decode x) \<and>
    ex_lines (control decode label x) = ex_lines (emit_text decode x)"
  by (simp add: control_def Let_def warn_def)

lemma emit_text_idle: "ex_buffer x = [] \<Longrightarrow> emit_text decode x = x"
  by (simp add: emit_text_def)

text \<open>A byte is buffered, or what is buffered is emitted.\<close>

lemma extract_step_cases:
  assumes "reading decode p base i x" and "i < length p"
  shows "extract_step decode p base i x = (1, buffered (base + i) (expand_tabs [p ! i]) x) \<or>
    (let y = snd (extract_step decode p base i x) in ex_buffer y = [] \<and> lines_from decode p base i (ex_lines y))"
proof -
  note emitted = emit_text_reads [OF assms(1)]
  have idle: "ex_buffer (emit_text decode (emit_text decode x\<lparr>ex_encoding := e\<rparr>)) = [] \<and>
      ex_lines (emit_text decode (emit_text decode x\<lparr>ex_encoding := e\<rparr>)) = ex_lines (emit_text decode x)" for e
    using emitted by (simp add: emit_text_idle)
  consider "p ! i = 0x09" | "p ! i = 0x0A \<or> p ! i = 0x0D" | "p ! i \<noteq> 0x09" "p ! i \<noteq> 0x0A" "p ! i \<noteq> 0x0D" by blast
  then show ?thesis
  proof cases
    case 3
    then show ?thesis
      using emitted idle
      by (auto simp: extract_step_def Let_def control_reads expand_tabs_def split: prod.splits option.splits if_splits)
  qed (use emitted in \<open>auto simp: extract_step_def Let_def expand_tabs_def\<close>)
qed

lemma segment_Suc: "j \<le> i \<Longrightarrow> i < length p \<Longrightarrow> segment j (Suc i) p = segment j i p @ [p ! i]"
  by (simp add: segment_def Suc_diff_le take_Suc_conv_app_nth)

lemma buffered_reads:
  assumes "reading decode p base i x" and "i < length p"
  shows "reading decode p base (i + 1) (buffered (base + i) (expand_tabs [p ! i]) x)"
proof (cases "ex_buffer x = []")
  case True
  moreover have "segment i (Suc i) p = [p ! i]" using segment_Suc [of i i p] assms(2) by (simp add: segment_def)
  ultimately show ?thesis using assms by (auto simp: reading_def buffered_def expand_tabs_def intro!: exI [of _ i])
next
  case False
  with assms obtain j where j: "j < i" "ex_start x = base + j" "ex_buffer x = expand_tabs (segment j i p)"
    "lines_from decode p base j (ex_lines x)" by (auto simp: reading_def)
  then have "ex_buffer (buffered (base + i) (expand_tabs [p ! i]) x) = expand_tabs (segment j (Suc i) p)"
    using segment_Suc [of j i p] assms(2) by (simp add: buffered_def expand_tabs_def)
  moreover have "ex_start (buffered (base + i) (expand_tabs [p ! i]) x) = base + j"
    "ex_lines (buffered (base + i) (expand_tabs [p ! i]) x) = ex_lines x" "ex_buffer (buffered (base + i) (expand_tabs [p ! i]) x) \<noteq> []"
    using False j(2) by (simp_all add: buffered_def)
  ultimately show ?thesis using j(1,4) assms(2) unfolding reading_def by auto
qed

lemma extract_step_reads:
  assumes "reading decode p base i x" and "i < length p" and "extract_step decode p base i x = (k, y)"
  shows "reading decode p base (i + k) y"
proof (cases "extract_step decode p base i x = (1, buffered (base + i) (expand_tabs [p ! i]) x)")
  case True
  with assms(3) have "k = 1" "y = buffered (base + i) (expand_tabs [p ! i]) x" by simp_all
  with buffered_reads [OF assms(1,2)] show ?thesis by simp
next
  case False
  with extract_step_cases [OF assms(1,2)] assms(3) have "ex_buffer y = []" "lines_from decode p base i (ex_lines y)" by auto
  with lines_from_mono [of decode p base i "ex_lines y" "i + k"] show ?thesis by (simp add: reading_def)
qed

lemma extract_loop_reads:
  "extract_loop decode p base i x = (j, y) \<Longrightarrow> reading decode p base i x \<Longrightarrow> reading decode p base j y"
proof (induction decode p base i x arbitrary: j y rule: extract_loop.induct)
  case (1 decode p base i x)
  show ?case
  proof (cases "i < length p \<and> ex_chars x < max_output_chars")
    case True
    obtain k z where step: "extract_step decode p base i x = (k, z)" by fastforce
    with 1(2) True have "extract_loop decode p base (i + k) z = (j, y)" by (subst (asm) extract_loop.simps) simp
    with 1(1) [OF True step [symmetric]] extract_step_reads [OF 1(3) _ step] True show ?thesis by simp
  next
    case False
    with 1(2,3) show ?thesis by (subst (asm) extract_loop.simps) simp
  qed
qed

text \<open>
  A text line is the reading of one stretch of the payload. The lines of a part come from stretches that
  follow each other without overlap; each line names where its stretch begins, its text is what the code
  page makes of these bytes with a tab as four blanks (or a beginning of it), and its length is the
  number of bytes after that replacement.
\<close>

theorem text_lines_are_slices: "\<exists>spans. list_all2 (line_at decode p base) spans (et_lines (extract_lines decode enc p base)) \<and>
    sorted_wrt (\<lambda>s t. fst s + snd s \<le> fst t) spans"
proof -
  define x0 where "x0 = \<lparr>ex_buffer = [], ex_start = base, ex_encoding = enc, ex_lines = [], ex_rendered = [], ex_warnings = [], ex_chars = 0\<rparr>"
  obtain i x where run: "extract_loop decode p base 0 x0 = (i, x)" by fastforce
  have "reading decode p base 0 x0" by (auto simp: reading_def x0_def lines_from_def in_order_def intro!: exI [of _ "[]"])
  from emit_text_reads [OF extract_loop_reads [OF run this]]
  have "lines_from decode p base i (et_lines (extract_lines decode enc p base))"
    by (simp add: extract_lines_def run [unfolded x0_def] Let_def warn_def)
  then show ?thesis by (auto simp: lines_from_def in_order_def)
qed

end
