(* ===== verification/Relay.thy ===== *)
theory Relay imports Capture begin

text \<open>
  \<^verbatim>\<open>proxy/relay.py\<close>: the transparent relay between a client and a device. A session has two pumps, one
  per direction, that run concurrently: each reads a chunk, numbers it, forwards it and gives it to the
  capture. Every await is a place where the other pump, the writer thread or a timer may run, so a pump
  is a state between its awaits and a session the step relation \<open>relay_step\<close>. The relay never waits for
  the capture; what it records, numbered by counters of its own, is what the spool expects.
\<close>

section \<open>Who may connect\<close>

type_synonym ipv4 = "32 word"

text \<open>\<^verbatim>\<open>ipaddress.IPv4Address(text)\<close>: four decimal octets without leading zeros.\<close>

definition octet_of :: "string \<Rightarrow> nat option" where
  "octet_of s = (if s = [] \<or> \<not> list_all is_digit s \<or> 3 < length s \<or> (s \<noteq> ''0'' \<and> hd s = CHR ''0'')
       \<or> 255 < digits_value 0 s then None else Some (digits_value 0 s))"

definition ipv4_of_text :: "string \<Rightarrow> ipv4 option" where
  "ipv4_of_text t = (case map octet_of (split_on (CHR ''.'') [] t) of
      [Some a, Some b, Some c, Some d] \<Rightarrow> Some (of_nat (((a * 256 + b) * 256 + c) * 256 + d))
    | _ \<Rightarrow> None)"

definition ipv4_text :: "ipv4 \<Rightarrow> string" where
  "ipv4_text a = join ''.'' (map (\<lambda>k. digits (unat a div 256 ^ k mod 256)) [3, 2, 1, 0])"

text \<open>\<^verbatim>\<open>DeviceConfig\<close>, as far as the relay reads it; a network is its address and the length of its prefix.\<close>

record device_config =
  dv_id :: string
  dv_name :: string
  dv_type :: string
  dv_parser :: string
  dv_enabled :: bool
  dv_listen :: "ipv4 \<times> int"
  dv_target :: "ipv4 \<times> int"
  dv_clients :: "ipv4 list"
  dv_networks :: "(ipv4 \<times> nat) list"

definition in_network :: "ipv4 \<Rightarrow> ipv4 \<times> nat \<Rightarrow> bool" where
  "in_network a n = (and a (push_bit (32 - snd n) (mask (snd n))) = fst n)"

definition client_allowed :: "device_config \<Rightarrow> string \<Rightarrow> bool" where
  "client_allowed dev host = (case ipv4_of_text host of None \<Rightarrow> False
     | Some a \<Rightarrow> a \<in> set (dv_clients dev) \<or> list_ex (in_network a) (dv_networks dev))"

section \<open>Sessions of the service\<close>

text \<open>
  \<^verbatim>\<open>_handle_client\<close>: a connection is a task from its arrival until its writer is closed; it relays while
  it holds the lock of its target.
\<close>

datatype connection = Relaying "ipv4 \<times> int" device_config string | ClosingWriter

record service_state =
  se_tasks :: "(nat \<times> connection) list"
  se_locked :: "(ipv4 \<times> int) list"

datatype admission = ConnectionLimit | AclRejected | TargetBusy | Admitted

definition admit :: "nat \<Rightarrow> device_config \<Rightarrow> (string \<times> int) option \<Rightarrow> nat \<Rightarrow> (ipv4 \<times> int) list \<Rightarrow> admission" where
  "admit limit dev peer active locked = (if limit < active then ConnectionLimit
     else case peer of None \<Rightarrow> AclRejected
       | Some (host, _) \<Rightarrow> if \<not> client_allowed dev host then AclRejected
           else if dv_target dev \<in> set locked then TargetBusy else Admitted)"

definition arrival :: "nat \<Rightarrow> nat \<Rightarrow> device_config \<Rightarrow> (string \<times> int) option \<Rightarrow> service_state \<Rightarrow> service_state" where
  "arrival limit t dev peer s = (case admit limit dev peer (length (se_tasks s) + 1) (se_locked s) of
      Admitted \<Rightarrow> s\<lparr>se_tasks := (t, Relaying (dv_target dev) dev (fst (the peer))) # se_tasks s,
        se_locked := dv_target dev # se_locked s\<rparr>
    | _ \<Rightarrow> s\<lparr>se_tasks := (t, ClosingWriter) # se_tasks s\<rparr>)"

definition relay_over :: "nat \<Rightarrow> service_state \<Rightarrow> service_state" where
  "relay_over t s = (case map_of (se_tasks s) t of
      Some (Relaying x dev host) \<Rightarrow> s\<lparr>se_tasks := map (\<lambda>(u, c). (u, if u = t then ClosingWriter else c)) (se_tasks s), se_locked := remove1 x (se_locked s)\<rparr>
    | _ \<Rightarrow> s)"

definition writer_closed :: "nat \<Rightarrow> service_state \<Rightarrow> service_state" where
  "writer_closed t s = s\<lparr>se_tasks := filter (\<lambda>(u, _). u \<noteq> t) (se_tasks s)\<rparr>"

definition idle_service :: service_state where
  "idle_service = \<lparr>se_tasks = [], se_locked = []\<rparr>"

inductive service_step :: "nat \<Rightarrow> service_state \<Rightarrow> service_state \<Rightarrow> bool" for limit where
  connection_arrives: "t \<notin> fst ` set (se_tasks s) \<Longrightarrow> service_step limit s (arrival limit t dev peer s)"
| connection_relayed: "service_step limit s (relay_over t s)"
| connection_closed: "map_of (se_tasks s) t = Some ClosingWriter \<Longrightarrow> service_step limit s (writer_closed t s)"

inductive service_reachable :: "nat \<Rightarrow> service_state \<Rightarrow> bool" for limit where
  service_idle: "service_reachable limit idle_service"
| service_more: "service_reachable limit s \<Longrightarrow> service_step limit s s' \<Longrightarrow> service_reachable limit s'"

text \<open>
  \<^verbatim>\<open>start\<close>: the listeners, or the error that closes them all again; \<open>bind_error\<close> is what
  \<^verbatim>\<open>asyncio.start_server\<close> raises for a device.
\<close>

datatype relay_error = DuplicateTarget "ipv4 \<times> int" | BindFailed string

fun start_listeners ::
    "(device_config \<Rightarrow> string option) \<Rightarrow> device_config list \<Rightarrow> (ipv4 \<times> int) list \<Rightarrow> relay_error + string list" where
  "start_listeners bind_error [] targets = Inr []"
| "start_listeners bind_error (dev # devs) targets =
     (if \<not> dv_enabled dev then start_listeners bind_error devs targets
      else if dv_target dev \<in> set targets then Inl (DuplicateTarget (dv_target dev))
      else case bind_error dev of Some e \<Rightarrow> Inl (BindFailed e)
        | None \<Rightarrow> map_sum id ((#) (dv_id dev)) (start_listeners bind_error devs (dv_target dev # targets)))"

definition history_limit :: nat where
  "history_limit = 256"

text \<open>\<^verbatim>\<open>published_jobs\<close> keeps the latest jobs.\<close>

definition remember_published :: "'a \<Rightarrow> 'a list \<Rightarrow> 'a list" where
  "remember_published job jobs = (let all = jobs @ [job] in drop (length all - history_limit) all)"

section \<open>Counters\<close>

record relay_counters =
  rc_events :: int
  rc_bytes :: "direction \<Rightarrow> int"
  rc_chunks :: "direction \<Rightarrow> int"
  rc_sequence :: "direction \<Rightarrow> int"

definition new_counters :: relay_counters where
  "new_counters = \<lparr>rc_events = 0, rc_bytes = (\<lambda>_. 0), rc_chunks = (\<lambda>_. 0), rc_sequence = (\<lambda>_. 0)\<rparr>"

text \<open>Offset, direction sequence and observed sequence of an event, and the counters after it.\<close>

definition next_data :: "direction \<Rightarrow> int \<Rightarrow> relay_counters \<Rightarrow> (int \<times> int \<times> int) \<times> relay_counters" where
  "next_data d n c = ((rc_bytes c d, rc_sequence c d, rc_events c),
     c\<lparr>rc_bytes := bump d n (rc_bytes c), rc_chunks := bump d 1 (rc_chunks c),
       rc_sequence := bump d 1 (rc_sequence c), rc_events := rc_events c + 1\<rparr>)"

definition next_eof :: "direction \<Rightarrow> relay_counters \<Rightarrow> (int \<times> int \<times> int) \<times> relay_counters" where
  "next_eof d c = ((rc_bytes c d, rc_sequence c d, rc_events c),
     c\<lparr>rc_sequence := bump d 1 (rc_sequence c), rc_events := rc_events c + 1\<rparr>)"

section \<open>Pumps\<close>

text \<open>
  The local variables of a pump that waits for its destination; an empty payload is the end of file.
  \<open>fl_written\<close> is a ghost: whether \<^verbatim>\<open>destination.write(payload)\<close> returned, so that the transport has the bytes.
\<close>

record in_flight =
  fl_payload :: bytes
  fl_offset :: int
  fl_sequence :: int
  fl_observed :: int
  fl_captured_at :: string
  fl_monotonic :: int
  fl_written :: bool

datatype pump_result = CleanEof | PumpRaised string | PumpCancelled

datatype pump = Reading | Forwarding in_flight | Done pump_result

datatype phase = Duplex | Tail direction | Ended bool string "string list"

text \<open>
  One session. \<open>rl_disabled\<close> is the session object without a manager that stands in when the capture
  could not be opened; otherwise the object is the manager's. The last four fields are ghosts: for each direction
  \<open>rl_received\<close>, the bytes read, \<open>rl_written\<close>, the bytes handed to the transport of the destination, which may
  deliver them from then on, and \<open>rl_delivered\<close>, those of them whose \<^verbatim>\<open>drain\<close> returned without an error; and
  \<open>rl_observed\<close>, the events given to \<^verbatim>\<open>record\<close>.
\<close>

record relay =
  rl_descriptor :: session_descriptor
  rl_counters :: relay_counters
  rl_pumps :: "direction \<Rightarrow> pump"
  rl_phase :: phase
  rl_manager :: system
  rl_disabled :: "capture_session option"
  rl_received :: "direction \<Rightarrow> bytes"
  rl_written :: "direction \<Rightarrow> bytes"
  rl_delivered :: "direction \<Rightarrow> bytes"
  rl_observed :: "capture_event list"

definition rl_id :: "relay \<Rightarrow> string" where
  "rl_id r = session_id (rl_descriptor r)"

definition fresh_relay :: "session_descriptor \<Rightarrow> system \<Rightarrow> capture_session option \<Rightarrow> relay" where
  "fresh_relay d m disabled = \<lparr>rl_descriptor = d, rl_counters = new_counters, rl_pumps = (\<lambda>_. Reading), rl_phase = Duplex,
     rl_manager = m, rl_disabled = disabled, rl_received = (\<lambda>_. []), rl_written = (\<lambda>_. []), rl_delivered = (\<lambda>_. []), rl_observed = []\<rparr>"

definition open_error_text :: "open_error \<Rightarrow> string" where
  "open_error_text e = (case e of NotRunning \<Rightarrow> ''CaptureError: capture manager is not running''
     | DuplicateSession i \<Rightarrow> ''CaptureError: duplicate session id: '' @ i
     | QueueFull \<Rightarrow> ''CaptureQueueFull: bounded capture queue is full before session open'')"

text \<open>\<^verbatim>\<open>_relay_locked\<close> once the device is connected; \<open>None\<close> where the policy ends the session.\<close>

definition begin_session :: "bool \<Rightarrow> session_descriptor \<Rightarrow> system \<Rightarrow> relay option" where
  "begin_session abort d m = (case open_session_nowait d m of
      (Inr s, m') \<Rightarrow> Some (fresh_relay d m' None)
    | (Inl e, m') \<Rightarrow> if abort then None
        else Some (fresh_relay d m' (Some (disabled_session d (''capture initialization failed: '' @ open_error_text e)))))"

text \<open>
  \<^verbatim>\<open>source.read\<close> returns; the payload is numbered and written to the transport before the next await. \<open>wrote\<close> is
  whether the write returned; where it raised, the step of the forwarding gives its error.
\<close>

definition pump_read :: "direction \<Rightarrow> bytes \<Rightarrow> bool \<Rightarrow> string \<Rightarrow> int \<Rightarrow> relay \<Rightarrow> relay" where
  "pump_read d b wrote at_utc at_ns r = (case (if b = [] then next_eof d (rl_counters r) else next_data d (int (length b)) (rl_counters r)) of
      ((off, dseq, oseq), c) \<Rightarrow> r\<lparr>rl_counters := c, rl_received := (rl_received r)(d := rl_received r d @ b),
        rl_written := (if wrote then (rl_written r)(d := rl_written r d @ b) else rl_written r),
        rl_pumps := (rl_pumps r)(d := Forwarding \<lparr>fl_payload = b, fl_offset = off, fl_sequence = dseq, fl_observed = oseq,
          fl_captured_at = at_utc, fl_monotonic = at_ns, fl_written = wrote\<rparr>)\<rparr>)"

definition pump_event :: "direction \<Rightarrow> in_flight \<Rightarrow> string option \<Rightarrow> string \<Rightarrow> capture_event" where
  "pump_event d f err at_utc = \<lparr>ev_sequence = 0, observed_sequence = fl_observed f, direction_sequence = fl_sequence f,
     ev_direction = d, kind = (if fl_payload f = [] then ''eof'' else ''data''), captured_at_utc = fl_captured_at f,
     captured_monotonic_ns = fl_monotonic f, ev_offset = fl_offset f, ev_payload = fl_payload f,
     forwarded = (err = None), forwarded_at_utc = at_utc, forward_error = err\<rparr>"

text \<open>\<^verbatim>\<open>capture.record(...)\<close> on the session of the relay: whether it accepted, the message of its last failure.\<close>

definition relay_record :: "capture_event \<Rightarrow> relay \<Rightarrow> bool \<times> string \<times> relay" where
  "relay_record e r = (let i = rl_id r; m = rl_manager r; r' = r\<lparr>rl_observed := rl_observed r @ [e]\<rparr> in
     case rl_disabled r of
       Some s \<Rightarrow> (case record_event (Some (observed_sequence e)) e s m of
           (ok, s', m') \<Rightarrow> (ok, failure_message s', r'\<lparr>rl_disabled := Some s', rl_manager := m'\<rparr>))
     | None \<Rightarrow> (case objects m i of None \<Rightarrow> (False, [], r')
         | Some s \<Rightarrow> (case record_event (Some (observed_sequence e)) e s m of
             (ok, s', m') \<Rightarrow> (ok, failure_message s', r'\<lparr>rl_manager := m'\<lparr>objects := (objects m')(i \<mapsto> s'),
               attempts := (attempts m')(i := attempts m' i @ [e]),
               queued := (if ok then (queued m')(i := queued m' i @ [e\<lparr>ev_sequence := session_sequence s,
                 observed_sequence := observed_sequence e\<rparr>]) else queued m')\<rparr>\<rparr>))))"

definition error_or :: "string option \<Rightarrow> string \<Rightarrow> string" where
  "error_or err t = (case err of None \<Rightarrow> t | Some e \<Rightarrow> if e = [] then t else e)"

text \<open>Whether the pump goes on after an event.\<close>

definition pump_after :: "bool \<Rightarrow> bytes \<Rightarrow> string option \<Rightarrow> bool \<Rightarrow> string \<Rightarrow> pump" where
  "pump_after abort b err ok message = (if b = []
     then (if \<not> ok \<and> abort \<or> err \<noteq> None then Done (PumpRaised (''CaptureAbort: '' @ error_or err message)) else Done CleanEof)
     else if err \<noteq> None then Done (PumpRaised (''RelayError: '' @ error_or err ''forwarding failed''))
     else if \<not> ok \<and> abort then Done (PumpRaised (''CaptureAbort: '' @ message)) else Reading)"

text \<open>The wait for the destination is over: it has taken the payload, or \<open>err\<close> is the error of the attempt.\<close>

definition pump_forward :: "bool \<Rightarrow> direction \<Rightarrow> in_flight \<Rightarrow> string option \<Rightarrow> string \<Rightarrow> relay \<Rightarrow> relay" where
  "pump_forward abort d f err at_utc r = (case relay_record (pump_event d f err at_utc) r of
      (ok, message, r') \<Rightarrow> r'\<lparr>rl_pumps := (rl_pumps r')(d := pump_after abort (fl_payload f) err ok message),
        rl_delivered := (if err = None then (rl_delivered r')(d := rl_delivered r' d @ fl_payload f) else rl_delivered r')\<rparr>)"

section \<open>Both directions\<close>

text \<open>\<^verbatim>\<open>_first_task_error\<close> of the finished pumps, in the order the set is visited.\<close>

definition result_error :: "pump_result \<Rightarrow> string option" where
  "result_error p = (case p of CleanEof \<Rightarrow> None | PumpRaised t \<Rightarrow> Some t | PumpCancelled \<Rightarrow> Some ''relay pump was cancelled'')"

fun first_task_error :: "pump_result list \<Rightarrow> string option" where
  "first_task_error [] = None"
| "first_task_error (p # ps) = (case result_error p of Some e \<Rightarrow> Some e | None \<Rightarrow> first_task_error ps)"

text \<open>What \<^verbatim>\<open>asyncio.wait\<close> found done: the idle timer, the failure watcher with its message, the pumps.\<close>

record wakeup =
  wk_idle :: bool
  wk_failure :: "string option"
  wk_pumps :: "direction list"

definition done_results :: "relay \<Rightarrow> direction list \<Rightarrow> pump_result list" where
  "done_results r ds = map (\<lambda>d. case rl_pumps r d of Done p \<Rightarrow> p | _ \<Rightarrow> CleanEof) ds"

definition is_done :: "relay \<Rightarrow> direction \<Rightarrow> bool" where
  "is_done r d = (case rl_pumps r d of Done _ \<Rightarrow> True | _ \<Rightarrow> False)"

text \<open>\<^verbatim>\<open>_cancel_tasks\<close> on the pumps that still run.\<close>

definition cancel_pumps :: "relay \<Rightarrow> relay" where
  "cancel_pumps r = r\<lparr>rl_pumps := (\<lambda>d. if is_done r d then rl_pumps r d else Done PumpCancelled)\<rparr>"

definition end_session :: "bool \<Rightarrow> string \<Rightarrow> string list \<Rightarrow> relay \<Rightarrow> relay" where
  "end_session finished_ok reason errs r = (cancel_pumps r)\<lparr>rl_phase := Ended finished_ok reason errs\<rparr>"

text \<open>What both waits do first: \<open>None\<close> where the session goes on.\<close>

definition interrupted :: "bool \<Rightarrow> string \<Rightarrow> string \<Rightarrow> wakeup \<Rightarrow> relay \<Rightarrow> relay option" where
  "interrupted abort idle_reason idle_text w r = (if wk_idle w then Some (end_session False idle_reason [idle_text] r)
     else case (if abort then wk_failure w else None) of
       Some e \<Rightarrow> Some (end_session False ''storage_failure'' [e] r)
     | None \<Rightarrow> (case first_task_error (done_results r (wk_pumps w)) of
           Some e \<Rightarrow> Some (end_session False ''transport_error'' [e] r) | None \<Rightarrow> None))"

definition first_wait :: "bool \<Rightarrow> wakeup \<Rightarrow> relay \<Rightarrow> relay" where
  "first_wait abort w r = (case interrupted abort ''session_idle_timeout''
       ''no traffic in either direction before the configured timeout'' w r of
      Some r' \<Rightarrow> r'
    | None \<Rightarrow> (case filter (\<lambda>d. \<not> is_done r d) [ClientToDevice, DeviceToClient] of
          [] \<Rightarrow> end_session True ''clean_bidirectional_eof'' [] r
        | d # _ \<Rightarrow> r\<lparr>rl_phase := Tail d\<rparr>))"

definition tail_wait :: "bool \<Rightarrow> wakeup \<Rightarrow> relay \<Rightarrow> relay" where
  "tail_wait abort w r = (case interrupted abort ''half_close_tail_idle_timeout''
       ''opposite direction was idle after half-close for the configured response-tail timeout'' w r of
      Some r' \<Rightarrow> r'
    | None \<Rightarrow> end_session True ''clean_bidirectional_eof'' [] r)"

text \<open>The session object, wherever it lives, and whether a wake-up is one the event loop can give.\<close>

definition rl_session :: "relay \<Rightarrow> capture_session option" where
  "rl_session r = (case rl_disabled r of Some s \<Rightarrow> Some s | None \<Rightarrow> objects (rl_manager r) (rl_id r))"

definition awake :: "bool \<Rightarrow> relay \<Rightarrow> direction list \<Rightarrow> wakeup \<Rightarrow> bool" where
  "awake abort r watched w \<longleftrightarrow> distinct (wk_pumps w) \<and> set (wk_pumps w) = {d \<in> set watched. is_done r d} \<and>
     (case wk_failure w of None \<Rightarrow> True | Some t \<Rightarrow> abort \<and> rl_disabled r = None \<and>
        (case rl_session r of None \<Rightarrow> False | Some s \<Rightarrow> failed s \<and> t = failure_message s)) \<and>
     (wk_idle w \<or> wk_failure w \<noteq> None \<or> wk_pumps w \<noteq> [])"

definition ended :: "relay \<Rightarrow> bool" where
  "ended r = (case rl_phase r of Ended _ _ _ \<Rightarrow> True | _ \<Rightarrow> False)"

text \<open>
  The steps of a session. The rest of the process (the writer thread, the callbacks, other sessions) takes
  steps of \<open>capture_step\<close> in between; it records nothing for this session and does not close it.
\<close>

inductive relay_step :: "(bytes \<Rightarrow> digest) \<Rightarrow> bool \<Rightarrow> relay \<Rightarrow> relay \<Rightarrow> bool" for sha256 abort where
  relay_read: "\<not> ended r \<Longrightarrow> rl_pumps r d = Reading \<Longrightarrow> relay_step sha256 abort r (pump_read d b wrote at_utc at_ns r)"
| relay_read_error: "\<not> ended r \<Longrightarrow> rl_pumps r d = Reading \<Longrightarrow>
    relay_step sha256 abort r (r\<lparr>rl_pumps := (rl_pumps r)(d := Done (PumpRaised t))\<rparr>)"
| relay_forward: "\<not> ended r \<Longrightarrow> rl_pumps r d = Forwarding f \<Longrightarrow> fl_written f \<or> err \<noteq> None \<Longrightarrow> err \<noteq> Some [] \<Longrightarrow>
    relay_step sha256 abort r (pump_forward abort d f err at_utc r)"
| relay_process: "capture_step sha256 (rl_manager r) m \<Longrightarrow> attempts m (rl_id r) = attempts (rl_manager r) (rl_id r) \<Longrightarrow>
    rl_id r \<in> closing m \<longleftrightarrow> rl_id r \<in> closing (rl_manager r) \<Longrightarrow> relay_step sha256 abort r (r\<lparr>rl_manager := m\<rparr>)"
| relay_first_wait: "rl_phase r = Duplex \<Longrightarrow> awake abort r [ClientToDevice, DeviceToClient] w \<Longrightarrow>
    relay_step sha256 abort r (first_wait abort w r)"
| relay_tail_wait: "rl_phase r = Tail d \<Longrightarrow> awake abort r [d] w \<Longrightarrow> relay_step sha256 abort r (tail_wait abort w r)"
| relay_shutdown: "\<not> ended r \<Longrightarrow>
    relay_step sha256 abort r (end_session False ''service_shutdown'' [''session task cancelled''] r)"

inductive relay_reachable :: "(bytes \<Rightarrow> digest) \<Rightarrow> bool \<Rightarrow> relay \<Rightarrow> bool" for sha256 abort where
  relay_begins: "reachable sha256 m \<Longrightarrow> objects m (session_id d) = None \<Longrightarrow> begin_session abort d m = Some r \<Longrightarrow>
    relay_reachable sha256 abort r"
| relay_goes_on: "relay_reachable sha256 abort r \<Longrightarrow> relay_step sha256 abort r r' \<Longrightarrow> relay_reachable sha256 abort r'"

text \<open>The summary the finalizer is given, and the manager once the finalizer has asked for the close.\<close>

definition relay_summary :: "string \<Rightarrow> int \<Rightarrow> relay \<Rightarrow> close_summary" where
  "relay_summary at_utc at_ns r = (case (case rl_phase r of Ended finished_ok reason errs \<Rightarrow> (finished_ok, reason, errs)
       | _ \<Rightarrow> (False, ''internal_error'', [])) of
      (finished_ok, reason, errs) \<Rightarrow> \<lparr>closed_at_utc = at_utc, closed_monotonic_ns = at_ns, close_reason = reason,
        transport_complete = finished_ok,
        observed_bytes = map (\<lambda>d. (direction_value d, rc_bytes (rl_counters r) d)) [ClientToDevice, DeviceToClient],
        observed_chunks = map (\<lambda>d. (direction_value d, rc_chunks (rl_counters r) d)) [ClientToDevice, DeviceToClient],
        transport_errors = errs\<rparr>)"

definition finalized :: "string \<Rightarrow> int \<Rightarrow> relay \<Rightarrow> system option" where
  "finalized at_utc at_ns r = (let m = rl_manager r in Option.bind (objects m (rl_id r)) (\<lambda>s.
     map_option (\<lambda>c. m\<lparr>closing := insert (rl_id r) (closing m), waiting_closes := waiting_closes m @ [c]\<rparr>)
       (close_command s (relay_summary at_utc at_ns r))))"

section \<open>Numbered events\<close>

text \<open>An event the spool expects after the given ones, up to its sequence number.\<close>

definition follows :: "capture_event list \<Rightarrow> capture_event \<Rightarrow> bool" where
  "follows es e \<longleftrightarrow> direction_sequence e = int (length (filter (\<lambda>x. ev_direction x = ev_direction e) es)) \<and>
     ev_offset e = int (length (stream (ev_direction e) es)) \<and>
     (kind e = ''data'' \<and> ev_payload e \<noteq> [] \<or> kind e = ''eof'' \<and> ev_payload e = [])"

definition well_numbered :: "capture_event list \<Rightarrow> bool" where
  "well_numbered es \<longleftrightarrow> (\<forall>k < length es. follows (take k es) (es ! k))"

lemma well_numbered_Nil [simp]: "well_numbered []"
  by (simp add: well_numbered_def)

lemma well_numbered_snoc: "well_numbered (es @ [e]) \<longleftrightarrow> well_numbered es \<and> follows es e"
  by (auto simp: well_numbered_def nth_append less_Suc_eq)

lemma well_numbered_take: "well_numbered es \<Longrightarrow> well_numbered (take k es)"
  by (auto simp: well_numbered_def min_def)

lemma appends_well_numbered:
  "well_numbered es \<Longrightarrow> numbered es \<Longrightarrow> \<exists>s. appends sha256 es (open_spool desc) = Some s"
proof (induction es rule: rev_induct)
  case Nil
  show ?case by (simp add: appends_def)
next
  case (snoc e es)
  then obtain s where s: "appends sha256 es (open_spool desc) = Some s" "follows es e"
    by (auto simp: well_numbered_snoc numbered_snoc)
  have "append_error s e = None"
    using appends_holds [OF s(1)] s(2) snoc.prems(2)
    by (auto simp: append_error_def holds_def follows_def numbered_snoc Let_def)
  with s(1) show ?case by (auto simp: appends_snoc)
qed

definition unsequenced :: "capture_event \<Rightarrow> capture_event" where
  "unsequenced e = e\<lparr>ev_sequence := 0\<rparr>"

lemma unsequenced_fields [simp]:
  "direction_sequence (unsequenced e) = direction_sequence e" "ev_direction (unsequenced e) = ev_direction e"
  "ev_offset (unsequenced e) = ev_offset e" "ev_payload (unsequenced e) = ev_payload e" "kind (unsequenced e) = kind e"
  "observed_sequence (unsequenced e) = observed_sequence e" "unsequenced (e\<lparr>ev_sequence := n\<rparr>) = unsequenced e"
  by (simp_all add: unsequenced_def)

lemma stream_unsequenced [simp]: "stream d (map unsequenced es) = stream d es"
  by (induction es) (auto simp: stream_def)

lemma well_numbered_unsequenced: "well_numbered (map unsequenced es) \<longleftrightarrow> well_numbered es"
proof -
  have "length (filter (\<lambda>x. ev_direction x = d) (map unsequenced xs)) = length (filter (\<lambda>x. ev_direction x = d) xs)" for d xs
    by (induction xs) auto
  then have "follows (map unsequenced xs) (unsequenced e) = follows xs e" for xs e
    by (simp add: follows_def)
  then show ?thesis by (simp add: well_numbered_def take_map)
qed

section \<open>The invariant of a session\<close>

definition quiet :: "direction \<Rightarrow> capture_event list \<Rightarrow> relay_counters \<Rightarrow> bytes \<Rightarrow> bytes \<Rightarrow> bytes \<Rightarrow> bool" where
  "quiet d es c got wrote sent \<longleftrightarrow> got = stream d es \<and> wrote = got \<and> sent = got \<and> rc_bytes c d = int (length got) \<and>
     rc_chunks c d = count_of d ''data'' es \<and> rc_sequence c d = int (length (filter (\<lambda>x. ev_direction x = d) es))"

text \<open>
  What one direction has read, written, delivered and recorded. While a pump reads, all four agree; a pump that
  forwards has read and perhaps written one chunk that is not recorded, and if it is cancelled it stays so; a
  pump that raised has recorded all it read, but may not have written or delivered the last chunk.
\<close>

definition pump_ok :: "direction \<Rightarrow> capture_event list \<Rightarrow> relay_counters \<Rightarrow> bytes \<Rightarrow> bytes \<Rightarrow> bytes \<Rightarrow> pump \<Rightarrow> bool" where
  "pump_ok d es c got wrote sent p = (case p of
      Reading \<Rightarrow> quiet d es c got wrote sent
    | Forwarding f \<Rightarrow> got = stream d es @ fl_payload f \<and> wrote = stream d es @ (if fl_written f then fl_payload f else []) \<and>
        sent = stream d es \<and> rc_bytes c d = int (length got) \<and>
        rc_chunks c d = count_of d ''data'' es + (if fl_payload f = [] then 0 else 1) \<and>
        rc_sequence c d = fl_sequence f + 1 \<and> fl_sequence f = int (length (filter (\<lambda>x. ev_direction x = d) es)) \<and>
        fl_offset f = int (length (stream d es)) \<and> 0 \<le> fl_observed f \<and> fl_observed f < rc_events c \<and>
        fl_observed f \<notin> observed_sequence ` set es
    | Done CleanEof \<Rightarrow> quiet d es c got wrote sent \<and> list_ex (\<lambda>e. ev_direction e = d \<and> kind e = ''eof'') es
    | Done (PumpRaised _) \<Rightarrow> got = stream d es \<and> prefix sent wrote \<and> prefix wrote got \<and> 0 \<le> rc_sequence c d
    | Done PumpCancelled \<Rightarrow> sent = stream d es \<and> prefix sent got \<and> (wrote = sent \<or> wrote = got) \<and> 0 \<le> rc_sequence c d)"

definition other :: "direction \<Rightarrow> direction" where
  "other d = (if d = ClientToDevice then DeviceToClient else ClientToDevice)"

definition phase_ok :: "phase \<Rightarrow> (direction \<Rightarrow> pump) \<Rightarrow> bool" where
  "phase_ok ph p = (case ph of Duplex \<Rightarrow> True | Tail d \<Rightarrow> p (other d) = Done CleanEof
     | Ended finished_ok _ errs \<Rightarrow> (finished_ok \<longrightarrow> errs = [] \<and> p = (\<lambda>_. Done CleanEof)))"

definition relay_ok :: "relay \<Rightarrow> bool" where
  "relay_ok r \<longleftrightarrow> well_numbered (rl_observed r) \<and> list_all (\<lambda>e. ev_sequence e = 0) (rl_observed r) \<and>
     (\<forall>d. pump_ok d (rl_observed r) (rl_counters r) (rl_received r d) (rl_written r d) (rl_delivered r d) (rl_pumps r d)) \<and>
     distinct (map observed_sequence (rl_observed r)) \<and>
     list_all (\<lambda>e. 0 \<le> observed_sequence e \<and> observed_sequence e < rc_events (rl_counters r)) (rl_observed r) \<and>
     (\<forall>f g. rl_pumps r ClientToDevice = Forwarding f \<and> rl_pumps r DeviceToClient = Forwarding g \<longrightarrow> fl_observed f \<noteq> fl_observed g) \<and>
     rc_events (rl_counters r) = rc_sequence (rl_counters r) ClientToDevice + rc_sequence (rl_counters r) DeviceToClient \<and>
     phase_ok (rl_phase r) (rl_pumps r)"

lemma all_directions: "(\<forall>d. P d) \<longleftrightarrow> P ClientToDevice \<and> P DeviceToClient"
  by (metis direction.exhaust)

lemma other_simps [simp]: "other d \<noteq> d" "d \<noteq> other d" "other (other d) = d"
  by (cases d; simp add: other_def)+

lemma not_direction: "x \<noteq> d \<longleftrightarrow> x = other d"
  by (cases d; cases x; simp add: other_def)

lemma direction_cases: "(\<forall>x. P x) \<longleftrightarrow> P d \<and> P (other d)"
  by (cases d) (simp_all add: all_directions other_def conj_commute)

text \<open>What the events and counters of the other direction do not touch.\<close>

lemma pump_ok_frame:
  assumes "pump_ok x es c got wrote sent p"
    and "rc_bytes c' x = rc_bytes c x" "rc_chunks c' x = rc_chunks c x" "rc_sequence c' x = rc_sequence c x"
      "rc_events c \<le> rc_events c'"
  shows "pump_ok x es c' got wrote sent p"
  using assms by (auto simp: pump_ok_def quiet_def split: pump.splits pump_result.splits if_splits)

lemma pump_ok_event:
  assumes "pump_ok x es c got wrote sent p" and "ev_direction e \<noteq> x"
    and "\<And>f. p = Forwarding f \<Longrightarrow> fl_observed f \<noteq> observed_sequence e"
  shows "pump_ok x (es @ [e]) c got wrote sent p"
  using assms by (auto simp: pump_ok_def quiet_def count_of_def split: pump.splits pump_result.splits if_splits)

lemma relay_record_frame:
  assumes "relay_record e r = (ok, message, r')"
  shows "rl_observed r' = rl_observed r @ [e]" "rl_counters r' = rl_counters r" "rl_pumps r' = rl_pumps r"
    "rl_phase r' = rl_phase r" "rl_received r' = rl_received r" "rl_delivered r' = rl_delivered r"
    "rl_descriptor r' = rl_descriptor r" "rl_disabled r' = None \<longleftrightarrow> rl_disabled r = None"
    "rl_written r' = rl_written r"
  using assms by (auto simp: relay_record_def Let_def split: option.splits prod.splits)

lemma relay_okD:
  assumes "relay_ok r"
  shows "well_numbered (rl_observed r)" "list_all (\<lambda>e. ev_sequence e = 0) (rl_observed r)"
    "pump_ok d (rl_observed r) (rl_counters r) (rl_received r d) (rl_written r d) (rl_delivered r d) (rl_pumps r d)"
    "distinct (map observed_sequence (rl_observed r))"
    "list_all (\<lambda>e. 0 \<le> observed_sequence e \<and> observed_sequence e < rc_events (rl_counters r)) (rl_observed r)"
    "rl_pumps r d = Forwarding f \<Longrightarrow> rl_pumps r (other d) = Forwarding g \<Longrightarrow> fl_observed f \<noteq> fl_observed g"
    "rc_events (rl_counters r) = rc_sequence (rl_counters r) d + rc_sequence (rl_counters r) (other d)"
    "phase_ok (rl_phase r) (rl_pumps r)"
  using assms by (cases d; auto simp: relay_ok_def all_directions other_def)+

lemma relay_okI:
  assumes "well_numbered (rl_observed r)" "list_all (\<lambda>e. ev_sequence e = 0) (rl_observed r)"
    "pump_ok d (rl_observed r) (rl_counters r) (rl_received r d) (rl_written r d) (rl_delivered r d) (rl_pumps r d)"
    "pump_ok (other d) (rl_observed r) (rl_counters r) (rl_received r (other d)) (rl_written r (other d)) (rl_delivered r (other d)) (rl_pumps r (other d))"
    "distinct (map observed_sequence (rl_observed r))"
    "list_all (\<lambda>e. 0 \<le> observed_sequence e \<and> observed_sequence e < rc_events (rl_counters r)) (rl_observed r)"
    "\<And>f g. rl_pumps r d = Forwarding f \<Longrightarrow> rl_pumps r (other d) = Forwarding g \<Longrightarrow> fl_observed f \<noteq> fl_observed g"
    "rc_events (rl_counters r) = rc_sequence (rl_counters r) d + rc_sequence (rl_counters r) (other d)"
    "phase_ok (rl_phase r) (rl_pumps r)"
  shows "relay_ok r"
proof -
  have "fl_observed f \<noteq> fl_observed g"
    if "rl_pumps r ClientToDevice = Forwarding f" "rl_pumps r DeviceToClient = Forwarding g" for f g
    using that assms(7) [of f g] assms(7) [of g f] by (cases d) (auto simp: other_def)
  with assms(1-6,8,9) show ?thesis by (cases d) (auto simp: relay_ok_def all_directions other_def)
qed

text \<open>The phase survives a change of a pump that had not finished.\<close>

lemma phase_ok_running:
  assumes "phase_ok ph p" and "p d \<noteq> Done CleanEof" and "case ph of Ended _ _ _ \<Rightarrow> False | _ \<Rightarrow> True"
  shows "phase_ok ph (p(d := q))"
  using assms by (auto simp: phase_ok_def split: phase.splits)

lemma not_ended: "\<not> ended r \<Longrightarrow> case rl_phase r of Ended _ _ _ \<Rightarrow> False | _ \<Rightarrow> True"
  by (auto simp: ended_def split: phase.splits)

lemma sequence_nonneg: "pump_ok d es c got wrote sent p \<Longrightarrow> 0 \<le> rc_sequence c d"
  by (auto simp: pump_ok_def quiet_def split: pump.splits pump_result.splits if_splits)

lemma read_ok:
  assumes ok: "relay_ok r" and "\<not> ended r" and reading: "rl_pumps r d = Reading"
  shows "relay_ok (pump_read d b wrote at_utc at_ns r)"
proof -
  let ?r = "pump_read d b wrote at_utc at_ns r" and ?c = "rl_counters r"
  note old = relay_okD [OF ok]
  have q: "quiet d (rl_observed r) ?c (rl_received r d) (rl_written r d) (rl_delivered r d)"
    using old(3) [of d] by (simp add: pump_ok_def reading)
  define f where "f = \<lparr>fl_payload = b, fl_offset = rc_bytes ?c d, fl_sequence = rc_sequence ?c d,
    fl_observed = rc_events ?c, fl_captured_at = at_utc, fl_monotonic = at_ns, fl_written = wrote\<rparr>"
  have f: "rl_pumps ?r = (rl_pumps r)(d := Forwarding f)" "fl_payload f = b" "fl_offset f = rc_bytes ?c d"
    "fl_sequence f = rc_sequence ?c d" "fl_observed f = rc_events ?c" "fl_written f = wrote"
    by (simp_all add: f_def pump_read_def next_data_def next_eof_def)
  have c: "rc_events (rl_counters ?r) = rc_events ?c + 1" "rc_sequence (rl_counters ?r) = bump d 1 (rc_sequence ?c)"
    "rc_bytes (rl_counters ?r) = bump d (int (length b)) (rc_bytes ?c)"
    "rc_chunks (rl_counters ?r) = bump d (if b = [] then 0 else 1) (rc_chunks ?c)"
    by (auto simp: pump_read_def next_data_def next_eof_def bump_def)
  have same: "rl_observed ?r = rl_observed r" "rl_received ?r = (rl_received r)(d := rl_received r d @ b)"
    "rl_written ?r = (rl_written r)(d := rl_written r d @ (if wrote then b else []))"
    "rl_delivered ?r = rl_delivered r" "rl_phase ?r = rl_phase r"
    by (auto simp: pump_read_def next_data_def next_eof_def)
  have fresh: "0 \<le> rc_events ?c" "rc_events ?c \<notin> observed_sequence ` set (rl_observed r)"
    using old(5) old(7) [of d] sequence_nonneg [OF old(3) [of d]] sequence_nonneg [OF old(3) [of "other d"]]
    by (auto simp: list_all_iff)
  show ?thesis
  proof (rule relay_okI [where d = d])
    show "pump_ok d (rl_observed ?r) (rl_counters ?r) (rl_received ?r d) (rl_written ?r d) (rl_delivered ?r d) (rl_pumps ?r d)"
      using q fresh by (simp add: same f c pump_ok_def quiet_def bump_def)
    show "pump_ok (other d) (rl_observed ?r) (rl_counters ?r) (rl_received ?r (other d)) (rl_written ?r (other d)) (rl_delivered ?r (other d))
        (rl_pumps ?r (other d))"
      using pump_ok_frame [OF old(3) [of "other d"], of "rl_counters ?r"] by (simp add: same f c bump_def)
    show "phase_ok (rl_phase ?r) (rl_pumps ?r)"
      using phase_ok_running [OF old(8) _ not_ended [OF assms(2)]] by (simp add: same f reading)
    show "fl_observed g \<noteq> fl_observed h" if "rl_pumps ?r d = Forwarding g" "rl_pumps ?r (other d) = Forwarding h" for g h
      using that old(3) [of "other d"] f by (auto simp: pump_ok_def)
  qed (use old in \<open>auto simp: same c bump_def list_all_iff\<close>)
qed

lemma read_error_ok:
  assumes ok: "relay_ok r" and "\<not> ended r" and reading: "rl_pumps r d = Reading"
  shows "relay_ok (r\<lparr>rl_pumps := (rl_pumps r)(d := Done (PumpRaised t))\<rparr>)" (is "relay_ok ?r")
proof (rule relay_okI [where d = d])
  note old = relay_okD [OF ok]
  show "pump_ok d (rl_observed ?r) (rl_counters ?r) (rl_received ?r d) (rl_written ?r d) (rl_delivered ?r d) (rl_pumps ?r d)"
    using old(3) [of d] by (simp add: pump_ok_def reading quiet_def)
  show "phase_ok (rl_phase ?r) (rl_pumps ?r)"
    using phase_ok_running [OF old(8) _ not_ended [OF assms(2)]] by (simp add: reading)
qed (use relay_okD [OF ok] in auto)

lemma forward_ok:
  assumes ok: "relay_ok r" and "\<not> ended r" and pump: "rl_pumps r d = Forwarding f" and wrote: "fl_written f \<or> err \<noteq> None"
  shows "relay_ok (pump_forward abort d f err at_utc r)"
proof -
  let ?e = "pump_event d f err at_utc" and ?r = "pump_forward abort d f err at_utc r"
  note old = relay_okD [OF ok]
  obtain acc message r' where rec: "relay_record ?e r = (acc, message, r')" by (cases "relay_record ?e r")
  note frame = relay_record_frame [OF rec]
  have r: "?r = r'\<lparr>rl_pumps := (rl_pumps r')(d := pump_after abort (fl_payload f) err acc message),
      rl_delivered := (if err = None then (rl_delivered r')(d := rl_delivered r' d @ fl_payload f) else rl_delivered r')\<rparr>"
    by (simp add: pump_forward_def rec)
  have held: "rl_received r d = stream d (rl_observed r) @ fl_payload f" "rl_delivered r d = stream d (rl_observed r)"
    "rl_written r d = stream d (rl_observed r) @ (if fl_written f then fl_payload f else [])"
    "rc_bytes (rl_counters r) d = int (length (rl_received r d))"
    "rc_chunks (rl_counters r) d = count_of d ''data'' (rl_observed r) + (if fl_payload f = [] then 0 else 1)"
    "rc_sequence (rl_counters r) d = fl_sequence f + 1" "fl_sequence f = int (length (filter (\<lambda>x. ev_direction x = d) (rl_observed r)))"
    "fl_offset f = int (length (stream d (rl_observed r)))" "0 \<le> fl_observed f" "fl_observed f < rc_events (rl_counters r)"
    "fl_observed f \<notin> observed_sequence ` set (rl_observed r)"
    using old(3) [of d] by (simp_all add: pump_ok_def pump)
  have e: "ev_direction ?e = d" "observed_sequence ?e = fl_observed f" "ev_payload ?e = fl_payload f" "ev_sequence ?e = 0"
    "kind ?e = (if fl_payload f = [] then ''eof'' else ''data'')" "follows (rl_observed r) ?e"
    using held by (simp_all add: pump_event_def follows_def)
  show ?thesis
  proof (rule relay_okI [where d = d])
    show "pump_ok d (rl_observed ?r) (rl_counters ?r) (rl_received ?r d) (rl_written ?r d) (rl_delivered ?r d) (rl_pumps ?r d)"
      using held wrote by (auto simp: r frame pump_ok_def pump_after_def quiet_def pump_event_def count_of_def)
    show "pump_ok (other d) (rl_observed ?r) (rl_counters ?r) (rl_received ?r (other d)) (rl_written ?r (other d)) (rl_delivered ?r (other d))
        (rl_pumps ?r (other d))"
    proof -
      have "fl_observed g \<noteq> observed_sequence ?e" if "rl_pumps r (other d) = Forwarding g" for g
        using old(6) [OF pump that] by (simp add: e)
      with pump_ok_event [OF old(3) [of "other d"], of ?e] show ?thesis by (auto simp: r frame e)
    qed
    show "phase_ok (rl_phase ?r) (rl_pumps ?r)"
      using phase_ok_running [OF old(8) _ not_ended [OF assms(2)]] by (simp add: r frame pump)
    show "fl_observed g \<noteq> fl_observed h" if "rl_pumps ?r d = Forwarding g" "rl_pumps ?r (other d) = Forwarding h" for g h
      using that by (auto simp: r pump_after_def split: if_splits)
    show "well_numbered (rl_observed ?r)" using old(1) e(6) by (simp add: r frame well_numbered_snoc)
  qed (use old(2,4,5) old(7) [of d] held in \<open>auto simp: r frame e\<close>)
qed

lemma cancel_pump_ok:
  assumes "pump_ok d es c got wrote sent p" shows "pump_ok d es c got wrote sent (if (case p of Done _ \<Rightarrow> True | _ \<Rightarrow> False) then p else Done PumpCancelled)"
  using assms by (cases p) (auto simp: pump_ok_def quiet_def split: pump_result.splits)

lemma end_ok:
  assumes ok: "relay_ok r" and finished: "finished_ok \<Longrightarrow> errs = [] \<and> rl_pumps r = (\<lambda>_. Done CleanEof)"
  shows "relay_ok (end_session finished_ok reason errs r)" (is "relay_ok ?r")
proof (rule relay_okI [where d = ClientToDevice])
  note old = relay_okD [OF ok]
  have same: "rl_observed ?r = rl_observed r" "rl_counters ?r = rl_counters r" "rl_received ?r = rl_received r"
    "rl_written ?r = rl_written r" "rl_delivered ?r = rl_delivered r" "rl_phase ?r = Ended finished_ok reason errs"
    "rl_pumps ?r = (\<lambda>d. if is_done r d then rl_pumps r d else Done PumpCancelled)"
    by (simp_all add: end_session_def cancel_pumps_def)
  show "pump_ok d (rl_observed ?r) (rl_counters ?r) (rl_received ?r d) (rl_written ?r d) (rl_delivered ?r d) (rl_pumps ?r d)"
    for d using cancel_pump_ok [OF old(3) [of d]] by (simp add: same is_done_def)
  then show "pump_ok (other ClientToDevice) (rl_observed ?r) (rl_counters ?r) (rl_received ?r (other ClientToDevice)) (rl_written ?r (other ClientToDevice))
      (rl_delivered ?r (other ClientToDevice)) (rl_pumps ?r (other ClientToDevice))" .
  show "phase_ok (rl_phase ?r) (rl_pumps ?r)"
    using finished by (auto simp: same phase_ok_def is_done_def fun_eq_iff)
  show "fl_observed f \<noteq> fl_observed g" if "rl_pumps ?r ClientToDevice = Forwarding f" "rl_pumps ?r (other ClientToDevice) = Forwarding g"
    for f g using that by (auto simp: same is_done_def split: if_splits pump.splits)
qed (use relay_okD [OF ok] in \<open>simp_all add: end_session_def cancel_pumps_def\<close>)

lemma first_task_error_clean:
  "first_task_error ps = None \<Longrightarrow> p \<in> set ps \<Longrightarrow> p = CleanEof"
  by (induction ps) (auto simp: result_error_def split: pump_result.splits option.splits)

lemma awakeD: "awake abort r watched w \<Longrightarrow> x \<in> set (wk_pumps w) \<Longrightarrow> x \<in> set watched \<and> is_done r x"
  by (simp add: awake_def)

text \<open>A wait that is not interrupted has found a finished pump, and the finished ones ended cleanly.\<close>

lemma not_interrupted:
  assumes "interrupted abort t u w r = None" and "awake abort r watched w"
  shows "wk_pumps w \<noteq> []" and "\<And>d. d \<in> set watched \<Longrightarrow> is_done r d \<Longrightarrow> rl_pumps r d = Done CleanEof"
proof -
  have none: "\<not> wk_idle w" "(if abort then wk_failure w else None) = None" "first_task_error (done_results r (wk_pumps w)) = None"
    using assms(1) by (simp_all add: interrupted_def split: if_split_asm option.split_asm)
  with assms(2) show "wk_pumps w \<noteq> []" by (cases "wk_failure w") (simp_all add: awake_def)
  fix d assume "d \<in> set watched" "is_done r d"
  with assms(2) have "d \<in> set (wk_pumps w)" by (simp add: awake_def)
  obtain p where p: "rl_pumps r d = Done p" using \<open>is_done r d\<close> by (auto simp: is_done_def split: pump.splits)
  then have "p \<in> set (done_results r (wk_pumps w))"
    using \<open>d \<in> set (wk_pumps w)\<close> by (force simp: done_results_def)
  then have "p = CleanEof" by (rule first_task_error_clean [OF none(3)])
  with p show "rl_pumps r d = Done CleanEof" by simp
qed

lemma interrupted_ends:
  assumes "interrupted abort t u w r = Some r'" shows "\<exists>reason errs. r' = end_session False reason errs r"
proof (cases "wk_idle w")
  case True
  with assms have "r' = end_session False t [u] r" by (simp add: interrupted_def)
  then show ?thesis by blast
next
  case False
  note idle = this
  show ?thesis
  proof (cases "if abort then wk_failure w else None")
    case None
    with idle assms show ?thesis
      by (cases "first_task_error (done_results r (wk_pumps w))") (auto simp: interrupted_def)
  next
    case (Some e)
    with idle assms have "r' = end_session False ''storage_failure'' [e] r" by (simp add: interrupted_def)
    then show ?thesis by blast
  qed
qed

lemma interrupted_ok:
  assumes "relay_ok r" and "interrupted abort t u w r = Some r'" shows "relay_ok r'"
proof -
  obtain reason errs where "r' = end_session False reason errs r" using interrupted_ends [OF assms(2)] by blast
  with end_ok [OF assms(1), of False] show ?thesis by simp
qed

lemma relay_ok_phase: "relay_ok (r\<lparr>rl_phase := p\<rparr>) \<longleftrightarrow> relay_ok (r\<lparr>rl_phase := Duplex\<rparr>) \<and> phase_ok p (rl_pumps r)"
  by (simp add: relay_ok_def phase_ok_def [of Duplex])

lemma first_wait_ok:
  assumes ok: "relay_ok r" and "awake abort r [ClientToDevice, DeviceToClient] w"
  shows "relay_ok (first_wait abort w r)"
proof (cases "interrupted abort ''session_idle_timeout'' ''no traffic in either direction before the configured timeout'' w r")
  case None
  note clean = not_interrupted(2) [OF None assms(2)]
  show ?thesis
  proof (cases "filter (\<lambda>d. \<not> is_done r d) [ClientToDevice, DeviceToClient]")
    case Nil
    then have "is_done r d" for d by (cases d) (auto split: if_splits)
    with clean have "rl_pumps r d = Done CleanEof" for d by (cases d) auto
    then have "rl_pumps r = (\<lambda>_. Done CleanEof)" by auto
    then have "relay_ok (end_session True ''clean_bidirectional_eof'' [] r)" by (intro end_ok [OF ok]) simp
    with Nil None show ?thesis by (simp only: first_wait_def option.case list.case)
  next
    case (Cons d ds)
    have "wk_pumps w \<noteq> []" by (rule not_interrupted(1) [OF None assms(2)])
    then have "hd (wk_pumps w) \<in> set (wk_pumps w)" by simp
    then obtain x where x: "is_done r x" using awakeD [OF assms(2)] by blast
    have "d \<in> set (filter (\<lambda>d. \<not> is_done r d) [ClientToDevice, DeviceToClient])" unfolding Cons by simp
    then have "\<not> is_done r d" unfolding set_filter by (elim CollectE conjE)
    with x have "other d = x" by (metis not_direction)
    moreover have "x \<in> set [ClientToDevice, DeviceToClient]" by (cases x) simp_all
    ultimately have "rl_pumps r (other d) = Done CleanEof" using clean [OF _ x] by simp
    moreover have "relay_ok (r\<lparr>rl_phase := rl_phase r\<rparr>)" using ok by simp
    ultimately have "relay_ok (r\<lparr>rl_phase := Tail d\<rparr>)"
      unfolding relay_ok_phase [where r = r and p = "rl_phase r"] relay_ok_phase [where r = r and p = "Tail d"] by (simp add: phase_ok_def)
    with Cons None show ?thesis by (simp only: first_wait_def option.case list.case)
  qed
next
  case (Some r')
  with interrupted_ok [OF ok Some] show ?thesis by (simp add: first_wait_def)
qed

lemma tail_wait_ok:
  assumes ok: "relay_ok r" and tail: "rl_phase r = Tail d" and "awake abort r [d] w"
  shows "relay_ok (tail_wait abort w r)"
proof (cases "interrupted abort ''half_close_tail_idle_timeout''
    ''opposite direction was idle after half-close for the configured response-tail timeout'' w r")
  case None
  have "hd (wk_pumps w) \<in> set (wk_pumps w)" using not_interrupted(1) [OF None assms(3)] by simp
  then have "is_done r d" using awakeD [OF assms(3)] by fastforce
  with not_interrupted(2) [OF None assms(3)] have "rl_pumps r d = Done CleanEof" by simp
  moreover have "rl_pumps r (other d) = Done CleanEof"
    using relay_okD(8) [OF ok] by (simp add: tail phase_ok_def)
  ultimately have "rl_pumps r = (\<lambda>_. Done CleanEof)" by (metis not_direction)
  then have "relay_ok (end_session True ''clean_bidirectional_eof'' [] r)" by (intro end_ok [OF ok]) simp
  with None show ?thesis by (simp only: tail_wait_def option.case)
next
  case (Some r')
  with interrupted_ok [OF ok Some] show ?thesis by (simp add: tail_wait_def)
qed

lemma relay_step_ok: "relay_step sha256 abort r r' \<Longrightarrow> relay_ok r \<Longrightarrow> relay_ok r'"
proof (induction rule: relay_step.induct)
  case (relay_process r m)
  have "relay_ok (r\<lparr>rl_manager := m\<rparr>) = relay_ok r" by (simp add: relay_ok_def)
  with relay_process show ?case by simp
qed (auto intro: read_ok read_error_ok forward_ok first_wait_ok tail_wait_ok end_ok)

lemma begin_ok: "begin_session abort d m = Some r \<Longrightarrow> relay_ok r"
  by (auto simp: begin_session_def fresh_relay_def relay_ok_def pump_ok_def quiet_def new_counters_def count_of_def phase_ok_def
      split: prod.splits sum.splits if_splits)

lemma relay_reachable_ok: "relay_reachable sha256 abort r \<Longrightarrow> relay_ok r"
  by (induction rule: relay_reachable.induct) (auto intro: begin_ok relay_step_ok)

text \<open>
  C5: the relay is transparent. In every interleaving of the two pumps with the timers, the writer thread
  and other sessions, whatever the network and the capture do, and under either storage policy, each direction
  reads a stream of which it has handed a prefix to the destination's transport and recorded a prefix, without
  a byte changed, added or dropped in between; what was delivered without an error is a prefix of both. While the
  pump waits for input the four are equal. A chunk that is read and not recorded is one the pump still
  forwards, or was forwarding when it was cancelled: then the destination may have the chunk and the record
  not. A pump that stopped by itself has recorded every byte it read, and one that ended cleanly has also
  delivered them. The events carry gap-free direction sequences and offsets and distinct observation numbers. A
  session that ends as complete delivered and recorded every byte of both directions up to their ends of file.
\<close>

theorem relay_transparent:
  assumes "relay_reachable sha256 abort r"
  shows "prefix (rl_delivered r d) (rl_written r d) \<and> prefix (rl_written r d) (rl_received r d) \<and>
    prefix (rl_delivered r d) (stream d (rl_observed r)) \<and> prefix (stream d (rl_observed r)) (rl_received r d) \<and>
    (case rl_pumps r d of
       Reading \<Rightarrow> rl_delivered r d = rl_received r d \<and> rl_written r d = rl_received r d \<and> stream d (rl_observed r) = rl_received r d
     | Forwarding f \<Rightarrow> rl_received r d = stream d (rl_observed r) @ fl_payload f \<and> rl_delivered r d = stream d (rl_observed r)
     | Done CleanEof \<Rightarrow> rl_delivered r d = rl_received r d \<and> rl_written r d = rl_received r d \<and> stream d (rl_observed r) = rl_received r d
     | Done (PumpRaised _) \<Rightarrow> stream d (rl_observed r) = rl_received r d
     | Done PumpCancelled \<Rightarrow> rl_delivered r d = stream d (rl_observed r) \<and>
         (rl_written r d = stream d (rl_observed r) \<or> rl_written r d = rl_received r d)) \<and>
    well_numbered (rl_observed r) \<and> distinct (map observed_sequence (rl_observed r)) \<and>
    (\<forall>reason errs. rl_phase r = Ended True reason errs \<longrightarrow> errs = [] \<and> rl_delivered r d = rl_received r d \<and>
      stream d (rl_observed r) = rl_received r d \<and> list_ex (\<lambda>e. ev_direction e = d \<and> kind e = ''eof'') (rl_observed r))"
proof -
  note ok = relay_okD [OF relay_reachable_ok [OF assms]]
  have "prefix (rl_delivered r d) (rl_written r d) \<and> prefix (rl_written r d) (rl_received r d) \<and>
      prefix (rl_delivered r d) (stream d (rl_observed r)) \<and> prefix (stream d (rl_observed r)) (rl_received r d)"
    using ok(3) [of d] by (auto simp: pump_ok_def quiet_def dest: prefix_order.trans split: pump.splits pump_result.splits if_splits)
  moreover have "rl_phase r = Ended True reason errs \<longrightarrow> errs = [] \<and> rl_delivered r d = rl_received r d \<and>
      stream d (rl_observed r) = rl_received r d \<and> list_ex (\<lambda>e. ev_direction e = d \<and> kind e = ''eof'') (rl_observed r)" for reason errs
    using ok(3) [of d] ok(8) by (auto simp: pump_ok_def phase_ok_def quiet_def)
  ultimately show ?thesis using ok(1,4) ok(3) [of d] by (auto simp: pump_ok_def quiet_def split: pump.splits pump_result.splits)
qed

section \<open>One session per target\<close>

definition relaying :: "service_state \<Rightarrow> (ipv4 \<times> int) list" where
  "relaying s = concat (map (\<lambda>(t, c). case c of Relaying x _ _ \<Rightarrow> [x] | ClosingWriter \<Rightarrow> []) (se_tasks s))"

definition service_ok :: "nat \<Rightarrow> service_state \<Rightarrow> bool" where
  "service_ok limit s \<longleftrightarrow> distinct (map fst (se_tasks s)) \<and> mset (relaying s) = mset (se_locked s) \<and> distinct (se_locked s) \<and>
     length (relaying s) \<le> limit \<and>
     list_all (\<lambda>(t, c). case c of Relaying x dev host \<Rightarrow> x = dv_target dev \<and> client_allowed dev host | ClosingWriter \<Rightarrow> True) (se_tasks s)"

lemma length_relaying: "length (relaying s) \<le> length (se_tasks s)"
proof -
  have "length (concat (map (\<lambda>(t, c). case c of Relaying x _ _ \<Rightarrow> [x] | ClosingWriter \<Rightarrow> []) ts)) \<le> length ts" for ts :: "(nat \<times> connection) list"
    by (induction ts) (auto split: connection.splits)
  then show ?thesis by (simp add: relaying_def)
qed

lemma arrival_ok:
  assumes "service_ok limit s" and "t \<notin> fst ` set (se_tasks s)"
  shows "service_ok limit (arrival limit t dev peer s)"
proof (cases "admit limit dev peer (length (se_tasks s) + 1) (se_locked s)")
  case Admitted
  then obtain host port where peer: "peer = Some (host, port)" "client_allowed dev host" "dv_target dev \<notin> set (se_locked s)"
    "length (se_tasks s) < limit"
    by (auto simp: admit_def split: if_splits option.splits prod.splits)
  with assms length_relaying [of s] Admitted show ?thesis
    by (auto simp: arrival_def service_ok_def relaying_def)
qed (use assms in \<open>auto simp: arrival_def service_ok_def relaying_def\<close>)

lemma close_task:
  assumes "distinct (map fst ts)" and "map_of ts t = Some (Relaying x dev host)"
  shows "mset (concat (map (\<lambda>(t, c). case c of Relaying x _ _ \<Rightarrow> [x] | ClosingWriter \<Rightarrow> []) ts)) =
    add_mset x (mset (concat (map (\<lambda>(t, c). case c of Relaying x _ _ \<Rightarrow> [x] | ClosingWriter \<Rightarrow> [])
      (map (\<lambda>(u, c). (u, if u = t then ClosingWriter else c)) ts))))"
  using assms
proof (induction ts)
  case (Cons p ts)
  obtain u c where p: "p = (u, c)" by (cases p)
  show ?case
  proof (cases "u = t")
    case True
    then have "map (\<lambda>(u, c). (u, if u = t then ClosingWriter else c)) ts = ts"
      using Cons.prems(1) by (intro map_idI) (force simp: p)
    with True Cons.prems(2) show ?thesis by (simp add: p)
  next
    case False
    with Cons show ?thesis by (simp add: p)
  qed
qed simp

lemma over_ok:
  assumes ok: "service_ok limit s" shows "service_ok limit (relay_over t s)"
proof (cases "map_of (se_tasks s) t")
  case (Some c)
  show ?thesis
  proof (cases c)
    case (Relaying x dev host)
    have keys: "fst \<circ> (\<lambda>(u, c). (u, if u = t then ClosingWriter else c)) = fst" by auto
    have parts: "distinct (map fst (se_tasks s))" "mset (relaying s) = mset (se_locked s)" "distinct (se_locked s)"
      "length (relaying s) \<le> limit"
      using ok by (simp_all add: service_ok_def)
    have moved: "mset (relaying s) = add_mset x (mset (relaying (relay_over t s)))"
      using close_task [OF parts(1)] Some Relaying by (simp add: relay_over_def relaying_def)
    then have "length (relaying (relay_over t s)) < length (relaying s)"
      by (metis lessI size_add_mset size_mset)
    moreover have "mset (relaying (relay_over t s)) = mset (remove1 x (se_locked s))"
      using moved parts(2) by simp
    moreover have "list_all (\<lambda>(t, c). case c of Relaying x dev host \<Rightarrow> x = dv_target dev \<and> client_allowed dev host | ClosingWriter \<Rightarrow> True)
        (map (\<lambda>(u, c). (u, if u = t then ClosingWriter else c)) (se_tasks s))"
      using ok by (auto simp: service_ok_def list_all_iff split: if_splits)
    ultimately show ?thesis
      using parts Some Relaying keys by (simp add: service_ok_def relay_over_def)
  qed (use ok Some in \<open>simp add: relay_over_def\<close>)
qed (use ok in \<open>simp add: relay_over_def\<close>)

lemma closed_ok:
  assumes ok: "service_ok limit s" and "map_of (se_tasks s) t = Some ClosingWriter"
  shows "service_ok limit (writer_closed t s)"
proof -
  have "concat (map (\<lambda>(t, c). case c of Relaying x _ _ \<Rightarrow> [x] | ClosingWriter \<Rightarrow> []) (filter (\<lambda>(u, _). u \<noteq> t) ts)) =
      concat (map (\<lambda>(t, c). case c of Relaying x _ _ \<Rightarrow> [x] | ClosingWriter \<Rightarrow> []) ts)"
    if "distinct (map fst ts)" "map_of ts t = Some ClosingWriter" for ts
    using that
  proof (induction ts)
    case (Cons p ts)
    obtain u c where p: "p = (u, c)" by (cases p)
    have "filter (\<lambda>(u, _). u \<noteq> t) ts = ts" if "u = t"
      using Cons.prems(1) that by (force simp: p filter_id_conv)
    with Cons show ?case by (cases "u = t") (auto simp: p)
  qed simp
  with assms have "relaying (writer_closed t s) = relaying s"
    by (simp add: relaying_def writer_closed_def service_ok_def)
  with ok show ?thesis by (auto simp: service_ok_def writer_closed_def distinct_map_filter list_all_iff)
qed

lemma service_reachable_ok: "service_reachable limit s \<Longrightarrow> service_ok limit s"
proof (induction rule: service_reachable.induct)
  case service_idle
  show ?case by (simp add: service_ok_def idle_service_def relaying_def)
next
  case (service_more s s')
  from service_more(2,3) show ?case
    by (induction rule: service_step.induct) (auto intro: arrival_ok over_ok closed_ok)
qed

text \<open>
  C36: jobs never mix. In every order of arrivals and endings, at most one connection relays to a target
  at a time, every connection that relays comes from an allowed client and goes to the target of its own
  listener, and never more connections relay than the configured limit.
\<close>

theorem one_session_per_target:
  assumes "service_reachable limit s"
  shows "distinct (relaying s) \<and> length (relaying s) \<le> limit \<and> set (relaying s) = set (se_locked s) \<and>
    list_all (\<lambda>(t, c). case c of Relaying x dev host \<Rightarrow> x = dv_target dev \<and> client_allowed dev host | ClosingWriter \<Rightarrow> True) (se_tasks s)"
proof -
  note ok = service_reachable_ok [OF assms, unfolded service_ok_def]
  then have "distinct (relaying s)" "set (relaying s) = set (se_locked s)"
    by (metis mset_eq_imp_distinct_iff, metis mset_eq_setD)
  with ok show ?thesis by blast
qed

text \<open>A start that succeeds listens for every enabled device, and their targets differ.\<close>

lemma start_listeners_all:
  "start_listeners bind_error devs targets = Inr ids \<Longrightarrow>
    ids = map dv_id (filter dv_enabled devs) \<and> distinct (map dv_target (filter dv_enabled devs)) \<and>
    set targets \<inter> dv_target ` set (filter dv_enabled devs) = {} \<and> list_all (\<lambda>d. bind_error d = None) (filter dv_enabled devs)"
proof (induction devs arbitrary: targets ids)
  case (Cons d devs)
  show ?case
  proof (cases "dv_enabled d")
    case True
    with Cons.prems obtain rest where "dv_target d \<notin> set targets" "bind_error d = None"
      "start_listeners bind_error devs (dv_target d # targets) = Inr rest" "ids = dv_id d # rest"
      by (cases "start_listeners bind_error devs (dv_target d # targets)") (auto split: if_splits option.splits)
    with True Cons.IH show ?thesis by fastforce
  qed (use Cons in simp)
qed simp

lemma published_history: "length (remember_published job jobs) = min (length jobs + 1) history_limit"
  "last (remember_published job jobs) = job"
  by (auto simp: remember_published_def Let_def history_limit_def)

end
