(* ===== verification/RelayCapture.thy ===== *)
theory RelayCapture imports Relay begin

text \<open>
  The relay of \<^verbatim>\<open>proxy/relay.py\<close> and the capture of \<^verbatim>\<open>proxy/spool.py\<close> together: every call of \<^verbatim>\<open>record\<close> is a step
  of the capture, what the relay queues is what a spool accepts, a job published as complete is the whole
  conversation of the session, and under the policy \<^verbatim>\<open>continue\<close> the network cannot tell what the capture does.
\<close>

section \<open>What the capture is given\<close>

text \<open>A session that accepts has no error, in every reachable state of the capture.\<close>

lemma mark_failure_fields [simp]:
  "\<not> accepting (mark_failure err s)" "session_errors (mark_failure err s) \<noteq> []"
  "session_descriptor (mark_failure err s) = session_descriptor s" "session_sequence (mark_failure err s) = session_sequence s"
  by (auto simp: mark_failure_def Let_def)

definition accepts_clean :: "system \<Rightarrow> bool" where
  "accepts_clean m \<longleftrightarrow> (\<forall>i s. objects m i = Some s \<and> accepting s \<longrightarrow> session_errors s = [])"

lemma record_accepting:
  assumes "record_event observed e s m = (ok, s', m')" and "accepting s'"
  shows "accepting s \<and> session_errors s' = session_errors s"
  using assms by (auto simp: record_event_def drop_payload_def split: if_splits option.splits)

lemma put_objects: "put_nowait c m = Some m' \<Longrightarrow> objects m' = objects m \<and> attempts m' = attempts m \<and> queued m' = queued m \<and> closing m' = closing m"
  by (auto simp: put_nowait_def split: if_splits)

lemma record_objects: "record_event observed e s m = (ok, s', m') \<Longrightarrow>
    objects m' = objects m \<and> attempts m' = attempts m \<and> queued m' = queued m \<and> closing m' = closing m"
  by (auto simp: record_event_def put_event_def dest: put_objects split: if_splits option.splits)

lemma process_objects: "objects (process sha256 disk c m) = objects m"
  by (auto simp: process_def threadsafe_failure_def split: command.splits option.splits prod.splits)

lemma capture_step_clean: "capture_step sha256 m m' \<Longrightarrow> accepts_clean m \<Longrightarrow> accepts_clean m'"
proof (induction rule: capture_step.induct)
  case (step_open m d)
  then show ?case
    by (auto simp: accepts_clean_def open_session_nowait_def new_session_def Let_def dest: put_objects split: option.splits)
next
  case (step_record m i s observed e ok s' m')
  then show ?case using record_accepting [OF step_record(3)] record_objects [OF step_record(3)]
    by (auto simp: accepts_clean_def)
next
  case (step_put_close c m m')
  then show ?case using put_objects [OF step_put_close(2)] by (simp add: accepts_clean_def)
next
  case (step_stop m m')
  then show ?case using put_objects [OF step_stop(1)] by (simp add: accepts_clean_def)
next
  case (step_work disk m m')
  then have "objects m' = objects m" by (auto simp: work_def process_objects split: if_splits list.splits)
  with step_work show ?case by (simp add: accepts_clean_def)
next
  case (step_notify m i err cs)
  then show ?case by (auto simp: accepts_clean_def notify_failure_def)
qed (auto simp: accepts_clean_def)

lemma reachable_clean: "reachable sha256 m \<Longrightarrow> accepts_clean m"
  by (induction rule: reachable.induct) (auto simp: accepts_clean_def started_def intro: capture_step_clean [unfolded accepts_clean_def, rule_format])

text \<open>A step that adds no attempt to a session adds nothing to what it queued.\<close>

lemma capture_step_queued:
  assumes "capture_step sha256 m m'" and "attempts m' i = attempts m i"
  shows "queued m' i = queued m i"
  using assms
proof (induction rule: capture_step.induct)
  case (step_open m d)
  then show ?case by (auto simp: open_session_nowait_def Let_def dest: put_objects split: option.splits)
next
  case (step_record m j s observed e ok s' m')
  then show ?case using record_objects [OF step_record(3)] by (auto split: if_splits)
next
  case (step_work disk m m')
  then show ?case by (auto simp: work_def process_fields split: if_splits list.splits)
qed (auto simp: notify_failure_def dest: put_objects)

lemma capture_step_object:
  assumes "capture_step sha256 m m'" and "objects m i = Some s" and "attempts m' i = attempts m i"
  shows "\<exists>s'. objects m' i = Some s' \<and> (accepting s' \<longrightarrow> accepting s)"
  using assms
proof (induction rule: capture_step.induct)
  case (step_open m d)
  then show ?case by (auto simp: open_session_nowait_def Let_def dest: put_objects split: option.splits)
next
  case (step_record m j s observed e ok s' m')
  then show ?case using record_objects [OF step_record(3)] by (auto split: if_splits)
next
  case (step_work disk m m')
  then show ?case by (auto simp: work_def process_objects split: if_splits list.splits)
next
  case (step_notify m j err cs)
  then show ?case by (auto simp: notify_failure_def)
qed (auto dest: put_objects)

text \<open>
  The session of a relay in the state of the capture: what it was given is what the relay observed, what
  it took is the first part of that, all of it as long as it accepts.
\<close>

definition linked_capture :: "relay \<Rightarrow> system \<Rightarrow> bool" where
  "linked_capture r m \<longleftrightarrow> attempts m (rl_id r) = rl_observed r \<and>
     map unsequenced (queued m (rl_id r)) = take (length (queued m (rl_id r))) (rl_observed r) \<and>
     (\<exists>s. objects m (rl_id r) = Some s \<and> (accepting s \<longrightarrow> length (queued m (rl_id r)) = length (rl_observed r)))"

definition capture_ok :: "(bytes \<Rightarrow> digest) \<Rightarrow> relay \<Rightarrow> bool" where
  "capture_ok sha256 r \<longleftrightarrow> rl_disabled r = None \<longrightarrow>
     reachable sha256 (rl_manager r) \<and> rl_id r \<notin> closing (rl_manager r) \<and> linked_capture r (rl_manager r)"

lemma capture_ok_same:
  "rl_descriptor r' = rl_descriptor r \<Longrightarrow> rl_manager r' = rl_manager r \<Longrightarrow> rl_disabled r' = rl_disabled r \<Longrightarrow>
    rl_observed r' = rl_observed r \<Longrightarrow> capture_ok sha256 r \<Longrightarrow> capture_ok sha256 r'"
  by (simp add: capture_ok_def linked_capture_def rl_id_def)

lemma capture_ok_begin:
  assumes "reachable sha256 m" and "objects m (session_id d) = None" and "begin_session abort d m = Some r"
  shows "capture_ok sha256 r"
proof -
  have fresh: "attempts m (session_id d) = []" "queued m (session_id d) = []" "session_id d \<notin> closing m"
    using system_okD(3) [OF reachable_ok [OF assms(1)], of "session_id d"] assms(2) by (simp_all add: session_ok_def)
  obtain e m' where opened_as: "open_session_nowait d m = (e, m')" by (cases "open_session_nowait d m")
  show ?thesis
  proof (cases e)
    case (Inl x)
    with assms(3) opened_as show ?thesis by (auto simp: begin_session_def capture_ok_def fresh_relay_def split: if_splits)
  next
    case (Inr s)
    have "reachable sha256 m'" using reachable_step [OF assms(1) step_open [OF assms(2)]] by (simp add: opened_as)
    moreover have "objects m' (session_id d) = Some s \<and> attempts m' = attempts m \<and> queued m' = queued m \<and> closing m' = closing m"
      using opened_as Inr by (auto simp: open_session_nowait_def Let_def dest: put_objects split: if_splits option.splits)
    moreover have "r = fresh_relay d m' None" using assms(3) opened_as Inr by (simp add: begin_session_def)
    ultimately show ?thesis using fresh by (simp add: capture_ok_def linked_capture_def fresh_relay_def rl_id_def)
  qed
qed

lemma capture_ok_process:
  assumes ok: "capture_ok sha256 r" and step: "capture_step sha256 (rl_manager r) m"
    and same: "attempts m (rl_id r) = attempts (rl_manager r) (rl_id r)" "rl_id r \<in> closing m \<longleftrightarrow> rl_id r \<in> closing (rl_manager r)"
  shows "capture_ok sha256 (r\<lparr>rl_manager := m\<rparr>)"
proof (cases "rl_disabled r")
  case None
  with ok have old: "reachable sha256 (rl_manager r)" "rl_id r \<notin> closing (rl_manager r)" "linked_capture r (rl_manager r)"
    by (simp_all add: capture_ok_def)
  from old(3) obtain s where "objects (rl_manager r) (rl_id r) = Some s" by (auto simp: linked_capture_def)
  from capture_step_object [OF step this same(1)] capture_step_queued [OF step same(1)] old(3) same(1)
  have "linked_capture r m" using \<open>objects (rl_manager r) (rl_id r) = Some s\<close> by (auto simp: linked_capture_def)
  with old same(2) reachable_step [OF old(1) step] show ?thesis by (simp add: capture_ok_def linked_capture_def rl_id_def)
qed (simp add: capture_ok_def)

text \<open>A call of \<^verbatim>\<open>record\<close> is a step of the capture.\<close>

lemma relay_record_step:
  assumes rec: "relay_record e r = (ok, message, r')" and s: "objects (rl_manager r) (rl_id r) = Some s"
    and "rl_disabled r = None" and "rl_id r \<notin> closing (rl_manager r)"
  obtains s' m' where "record_event (Some (observed_sequence e)) e s (rl_manager r) = (ok, s', m')"
    and "rl_manager r' = m'\<lparr>objects := (objects m')(rl_id r \<mapsto> s'), attempts := (attempts m')(rl_id r := attempts m' (rl_id r) @ [e]),
      queued := (if ok then (queued m')(rl_id r := queued m' (rl_id r) @ [e\<lparr>ev_sequence := session_sequence s,
        observed_sequence := observed_sequence e\<rparr>]) else queued m')\<rparr>"
    and "capture_step sha256 (rl_manager r) (rl_manager r')"
proof -
  obtain ok' s' m' where ev: "record_event (Some (observed_sequence e)) e s (rl_manager r) = (ok', s', m')"
    by (cases "record_event (Some (observed_sequence e)) e s (rl_manager r)")
  have r': "ok' = ok" "rl_manager r' = m'\<lparr>objects := (objects m')(rl_id r \<mapsto> s'), attempts := (attempts m')(rl_id r := attempts m' (rl_id r) @ [e]),
      queued := (if ok then (queued m')(rl_id r := queued m' (rl_id r) @ [e\<lparr>ev_sequence := session_sequence s,
        observed_sequence := observed_sequence e\<rparr>]) else queued m')\<rparr>"
    using rec s assms(3) ev by (auto simp: relay_record_def Let_def)
  have "capture_step sha256 (rl_manager r) (rl_manager r')"
    using step_record [OF s assms(4) ev [unfolded r'(1)], of sha256] by (simp only: r'(2) option.case)
  with ev r' show thesis using that by blast
qed

lemma capture_ok_record:
  assumes rec: "relay_record e r = (ok, message, r')" and old: "capture_ok sha256 r" and "ev_sequence e = 0"
  shows "capture_ok sha256 r'"
proof (cases "rl_disabled r")
  case None
  with old have reach: "reachable sha256 (rl_manager r)" and opened_as: "rl_id r \<notin> closing (rl_manager r)"
    and link: "linked_capture r (rl_manager r)"
    by (simp_all add: capture_ok_def)
  from link obtain s where s: "objects (rl_manager r) (rl_id r) = Some s"
    "accepting s \<Longrightarrow> length (queued (rl_manager r) (rl_id r)) = length (rl_observed r)" by (auto simp: linked_capture_def)
  obtain s' m' where ev: "record_event (Some (observed_sequence e)) e s (rl_manager r) = (ok, s', m')"
    and m: "rl_manager r' = m'\<lparr>objects := (objects m')(rl_id r \<mapsto> s'), attempts := (attempts m')(rl_id r := attempts m' (rl_id r) @ [e]),
      queued := (if ok then (queued m')(rl_id r := queued m' (rl_id r) @ [e\<lparr>ev_sequence := session_sequence s,
        observed_sequence := observed_sequence e\<rparr>]) else queued m')\<rparr>"
    and step: "capture_step sha256 (rl_manager r) (rl_manager r')"
    using relay_record_step [OF rec s(1) None opened_as] .
  note objects = record_objects [OF ev]
  have attached: "accepting s \<Longrightarrow> attached s"
    using reachable_clean [OF reach] system_okD(3) [OF reachable_ok [OF reach], of "rl_id r"] s(1)
    by (auto simp: accepts_clean_def session_ok_def)
  have taken: "ok \<Longrightarrow> accepting s" "accepting s' \<Longrightarrow> accepting s \<and> ok"
    using ev attached by (auto simp: record_event_def drop_payload_def split: if_splits option.splits)
  have same: "unsequenced (e\<lparr>ev_sequence := n, observed_sequence := observed_sequence e\<rparr>) = e" "unsequenced e = e" for n
    using assms(3) by (cases e; simp add: unsequenced_def)+
  have le: "length (queued (rl_manager r) (rl_id r)) \<le> length (rl_observed r)"
    using link arg_cong [where f = length] unfolding linked_capture_def by (metis length_map length_take min.cobounded1)
  note frame = relay_record_frame [OF rec]
  have "linked_capture r' (rl_manager r')"
    using link taken s(2) objects le by (auto simp: linked_capture_def rl_id_def frame m same)
  with reachable_step [OF reach step] opened_as objects show ?thesis
    by (simp add: capture_ok_def rl_id_def frame m)
next
  case (Some s)
  with relay_record_frame(8) [OF rec] show ?thesis by (auto simp: capture_ok_def)
qed

lemma capture_ok_forward:
  assumes "capture_ok sha256 r" shows "capture_ok sha256 (pump_forward abort d f err at_utc r)"
proof -
  obtain ok message r' where rec: "relay_record (pump_event d f err at_utc) r = (ok, message, r')"
    by (cases "relay_record (pump_event d f err at_utc) r")
  have "capture_ok sha256 r'" by (rule capture_ok_record [OF rec assms]) (simp add: pump_event_def)
  then show ?thesis by (rule capture_ok_same [rotated 4]) (simp_all add: pump_forward_def rec)
qed

lemma wait_same:
  "rl_descriptor (end_session b x errs r) = rl_descriptor r" "rl_manager (end_session b x errs r) = rl_manager r"
  "rl_disabled (end_session b x errs r) = rl_disabled r" "rl_observed (end_session b x errs r) = rl_observed r"
  by (simp_all add: end_session_def cancel_pumps_def)

lemma capture_ok_wait: "capture_ok sha256 r \<Longrightarrow> capture_ok sha256 (first_wait abort w r)"
  "capture_ok sha256 r \<Longrightarrow> capture_ok sha256 (tail_wait abort w r)"
proof -
  have end_same: "capture_ok sha256 r \<Longrightarrow> capture_ok sha256 (end_session b x errs r)" for b x errs
    by (rule capture_ok_same [rotated 4]) (simp_all add: wait_same)
  then have stop: "capture_ok sha256 r \<Longrightarrow> interrupted abort t u w r = Some r' \<Longrightarrow> capture_ok sha256 r'" for t u r'
    using interrupted_ends by blast
  show "capture_ok sha256 r \<Longrightarrow> capture_ok sha256 (tail_wait abort w r)"
    using end_same stop unfolding tail_wait_def by (simp split: option.split)
  have "capture_ok sha256 r \<Longrightarrow> capture_ok sha256 (r\<lparr>rl_phase := p\<rparr>)" for p
    by (rule capture_ok_same [rotated 4]) simp_all
  then show "capture_ok sha256 r \<Longrightarrow> capture_ok sha256 (first_wait abort w r)"
    using end_same stop unfolding first_wait_def by (simp split: option.split list.split)
qed

lemma relay_step_capture: "relay_step sha256 abort r r' \<Longrightarrow> capture_ok sha256 r \<Longrightarrow> capture_ok sha256 r'"
proof (induction rule: relay_step.induct)
  case (relay_read r d b wrote at_utc at_ns)
  then show ?case by (elim capture_ok_same [rotated 4]) (auto simp: pump_read_def next_data_def next_eof_def)
next
  case (relay_read_error r d t)
  then show ?case by (elim capture_ok_same [rotated 4]) simp_all
next
  case (relay_shutdown r)
  then show ?case by (elim capture_ok_same [rotated 4]) (simp_all add: wait_same)
qed (auto intro: capture_ok_process capture_ok_forward capture_ok_wait)

lemma relay_reachable_capture: "relay_reachable sha256 abort r \<Longrightarrow> capture_ok sha256 r"
  by (induction rule: relay_reachable.induct) (auto intro: capture_ok_begin relay_step_capture)

text \<open>What a session has queued for the writer.\<close>

lemma queued_events:
  assumes "relay_reachable sha256 abort r" and "rl_disabled r = None"
  shows "numbered (queued (rl_manager r) (rl_id r))" and "well_numbered (queued (rl_manager r) (rl_id r))"
    and "map unsequenced (queued (rl_manager r) (rl_id r)) = take (length (queued (rl_manager r) (rl_id r))) (rl_observed r)"
    and "rl_session r = Some x \<Longrightarrow> accepting x \<Longrightarrow> map unsequenced (queued (rl_manager r) (rl_id r)) = rl_observed r"
proof -
  let ?es = "queued (rl_manager r) (rl_id r)" and ?k = "length (queued (rl_manager r) (rl_id r))"
  have reach: "reachable sha256 (rl_manager r)" and link: "linked_capture r (rl_manager r)"
    using relay_reachable_capture [OF assms(1)] assms(2) by (simp_all add: capture_ok_def)
  show "numbered ?es"
    using system_okD(3) [OF reachable_ok [OF reach], of "rl_id r"] link
    by (auto simp: session_ok_def linked_capture_def)
  show es: "map unsequenced ?es = take ?k (rl_observed r)" using link by (simp add: linked_capture_def)
  have "well_numbered (map unsequenced ?es)"
    unfolding es by (rule well_numbered_take [OF relay_okD(1) [OF relay_reachable_ok [OF assms(1)]]])
  then show "well_numbered ?es" by (simp add: well_numbered_unsequenced)
  show "map unsequenced ?es = rl_observed r" if "rl_session r = Some x" "accepting x"
    using that link assms(2) es by (auto simp: linked_capture_def rl_session_def)
qed

text \<open>
  C9: what the relay counts is what the spool expects. The events a session has queued for the writer
  are numbered without gaps, have their directions, offsets and distinct observation numbers as
  \<^verbatim>\<open>append\<close> and the inspection of a timeline demand, and a sound disk takes them all: a capture can only
  fail through the disk or the queue, never through the order in which the two pumps ran. While the
  session accepts, nothing the relay saw is missing.
\<close>

theorem relay_feeds_spool:
  assumes "relay_reachable sha256 abort r" and "rl_disabled r = None"
  shows "\<exists>s es. queued (rl_manager r) (rl_id r) = es \<and> appends sha256 es (open_spool desc) = Some s \<and> numbered es \<and>
    list_all (observable []) es \<and> distinct (map observed_sequence es) \<and>
    (\<forall>x. rl_session r = Some x \<and> accepting x \<longrightarrow> map unsequenced es = rl_observed r)"
proof -
  let ?es = "queued (rl_manager r) (rl_id r)" and ?k = "length (queued (rl_manager r) (rl_id r))"
  note ok = relay_okD [OF relay_reachable_ok [OF assms(1)]] and queue = queued_events [OF assms]
  have "map observed_sequence ?es = map observed_sequence (map unsequenced ?es)" by simp
  then have obs: "map observed_sequence ?es = take ?k (map observed_sequence (rl_observed r))"
    unfolding queue(3) by (simp add: take_map)
  have "list_all (\<lambda>n. 0 \<le> n) (map observed_sequence ?es)"
    unfolding obs using ok(5) by (auto simp: list_all_iff dest!: in_set_takeD)
  moreover have "list_all (\<lambda>e. kind e = ''data'' \<longrightarrow> ev_payload e \<noteq> []) ?es"
    using queue(2) by (auto simp: well_numbered_def follows_def list_all_length)
  ultimately have "list_all (observable []) ?es" by (auto simp: observable_def list_all_iff)
  moreover have "distinct (map observed_sequence ?es)" unfolding obs using ok(4) by (rule distinct_take)
  ultimately show ?thesis using queue(1,4) appends_well_numbered [OF queue(2,1)] by blast
qed

text \<open>A session that ended cleanly with everything taken is published as complete.\<close>

lemma clean_session_complete:
  assumes "relay_reachable sha256 abort r" and "rl_disabled r = None" and "rl_phase r = Ended True reason errs"
    and "rl_session r = Some x" and "accepting x" and "appends sha256 (queued (rl_manager r) (rl_id r)) (open_spool desc) = Some s"
  shows "get (manifest sha256 (relay_summary at_utc at_ns r) [] 0 n s) ''status'' = JStr ''COMPLETE''"
proof -
  let ?es = "queued (rl_manager r) (rl_id r)"
  note ok = relay_okD [OF relay_reachable_ok [OF assms(1)]]
  have es: "map unsequenced ?es = rl_observed r" by (rule queued_events(4) [OF assms(1,2,4,5)])
  have "errs = []" "rl_pumps r = (\<lambda>_. Done CleanEof)" using ok(8) by (simp_all add: assms(3) phase_ok_def)
  then have quiet: "quiet d (rl_observed r) (rl_counters r) (rl_received r d) (rl_written r d) (rl_delivered r d)" for d
    using ok(3) [of d] by (simp add: pump_ok_def)
  have "stream d (rl_observed r) = stream d ?es" "count_of d ''data'' (rl_observed r) = count_of d ''data'' ?es" for d
    unfolding es [symmetric] by (simp_all add: count_of_def filter_map comp_def)
  then have counts: "rc_bytes (rl_counters r) d = captured_bytes s d" "rc_chunks (rl_counters r) d = captured_chunks s d"
    "spool_errors s = []" for d
    using quiet [of d] appends_holds [OF assms(6)] by (simp_all add: quiet_def holds_def)
  show ?thesis
    unfolding manifest_fields
    by (simp add: relay_summary_def assms(3) both_equal_def lookup_def direction_value_def counts \<open>errs = []\<close>)
qed

section \<open>From the wire to the published job\<close>

text \<open>Once a session is being closed, its commands and its published jobs carry one summary.\<close>

definition summarised :: "(bytes \<Rightarrow> digest) \<Rightarrow> string \<Rightarrow> close_summary \<Rightarrow> capture_event list \<Rightarrow> system \<Rightarrow> bool" where
  "summarised sha256 i sm es m \<longleftrightarrow> reachable sha256 m \<and> i \<in> closing m \<and> attempts m i = es \<and>
     (\<forall>c \<in> set (pipeline i m). is_close_command c \<longrightarrow> (\<exists>errs k n. c = CloseCommand i sm errs k n)) \<and>
     (\<forall>p. Inr p \<in> set (results i m) \<longrightarrow> (\<exists>errs k n w. pub_manifest p = manifest sha256 sm errs k n w))"

lemma summarised_same:
  assumes "summarised sha256 i sm es m" and "reachable sha256 m'" and "i \<in> closing m'" and "attempts m' i = attempts m i"
    and "\<And>c. c \<in> set (pipeline i m') \<Longrightarrow> is_close_command c \<Longrightarrow> c \<in> set (pipeline i m)"
    and "results i m' = results i m"
  shows "summarised sha256 i sm es m'"
  using assms by (auto simp: summarised_def)

lemma work_summarised:
  assumes old: "summarised sha256 i sm es m" and step: "work sha256 disk m = Some m'" and reach: "reachable sha256 m'"
  shows "summarised sha256 i sm es m'"
proof -
  obtain c q where q: "command_queue m = c # q" and m': "m' = process sha256 disk c (m\<lparr>command_queue := q\<rparr>)"
    using step by (auto simp: work_def split: if_splits list.splits)
  have same: "closing m' = closing m" "attempts m' = attempts m" "waiting_closes m' = waiting_closes m" "command_queue m' = q"
    unfolding m' by (simp_all add: process_fields)
  have sub: "x \<in> set (pipeline i m)" if "x \<in> set (pipeline i m')" for x
    using that by (auto simp: pipeline_def same q split: if_splits)
  show ?thesis
  proof (cases "\<exists>errs k n s. c = CloseCommand i s errs k n")
    case True
    then obtain errs k n s where c: "c = CloseCommand i s errs k n" by blast
    then have "c \<in> set (pipeline i m)" by (simp add: pipeline_def q concerns_def)
    then have "s = sm" using old c by (fastforce simp: summarised_def)
    have "\<exists>r. results i m' = results i m @ [r] \<and> (\<forall>p. r = Inr p \<longrightarrow> (\<exists>w. pub_manifest p = manifest sha256 sm errs k n w))"
      by (auto simp: m' c process_def results_def finalize_def Let_def \<open>s = sm\<close> split: option.splits)
    with old same sub reach show ?thesis unfolding summarised_def by (metis Un_iff empty_iff empty_set insertE list.simps(15) set_append)
  next
    case False
    then have "results i m' = results i m"
      by (cases c) (auto simp: m' process_def results_def threadsafe_failure_def split: option.splits prod.splits)
    with old same sub reach show ?thesis by (intro summarised_same [OF old]) (auto simp: summarised_def)
  qed
qed

lemma step_summarised:
  assumes "capture_step sha256 m m'" and old: "summarised sha256 i sm es m"
  shows "summarised sha256 i sm es m'"
proof -
  have reach: "reachable sha256 m" "reachable sha256 m'" and cl: "i \<in> closing m"
    using old reachable_step [OF _ assms(1)] by (auto simp: summarised_def)
  note same = summarised_same [OF old reach(2)]
  from assms(1) show ?thesis
  proof (cases rule: capture_step.cases)
    case (step_open d)
    then show ?thesis
      by (intro same) (use cl in \<open>auto simp: open_session_nowait_def put_nowait_def pipeline_def results_def Let_def split: if_splits\<close>)
  next
    case (step_record j s observed e ok s' m1)
    have "j \<noteq> i" using step_record(3) cl by auto
    from step_record(4) show ?thesis
      by (cases rule: record_cases; intro same)
        (use cl \<open>j \<noteq> i\<close> in \<open>auto simp: step_record(1) pipeline_def results_def split: if_splits\<close>)
  next
    case (step_finalize j s summary c)
    then have "session_id (session_descriptor s) = j" "j \<noteq> i"
      using system_okD(3) [OF reachable_ok [OF reach(1)], of j] cl by (auto simp: session_ok_def)
    then have "\<not> concerns i c" using step_finalize(4) by (auto simp: close_command_def concerns_def split: if_splits)
    then show ?thesis by (intro same) (use cl in \<open>auto simp: step_finalize(1) pipeline_def results_def\<close>)
  next
    case (step_put_close c m1)
    then show ?thesis by (intro same) (use cl in \<open>auto simp: put_nowait_def pipeline_def results_def dest: notin_set_remove1 split: if_splits\<close>)
  next
    case (step_close_timeout c)
    then show ?thesis by (intro same) (use cl in \<open>auto simp: pipeline_def results_def dest: notin_set_remove1\<close>)
  next
    case (step_stop)
    then show ?thesis by (intro same) (use cl in \<open>auto simp: put_nowait_def pipeline_def results_def concerns_def split: if_splits\<close>)
  next
    case (step_work disk)
    from work_summarised [OF old this reach(2)] show ?thesis .
  next
    case (step_notify j err cs)
    have "command_queue m' = command_queue m \<and> waiting_closes m' = waiting_closes m \<and> closing m' = closing m \<and>
        attempts m' = attempts m \<and> outcomes m' = outcomes m"
      by (simp add: step_notify(1) notify_failure_def)
    then show ?thesis by (intro same) (use cl in \<open>simp_all add: pipeline_def results_def\<close>)
  qed (intro same; use cl in \<open>auto simp: pipeline_def results_def\<close>)+
qed

lemma steps_summarised: "(capture_step sha256)\<^sup>*\<^sup>* m m' \<Longrightarrow> summarised sha256 i sm es m \<Longrightarrow> summarised sha256 i sm es m'"
  by (induction rule: rtranclp_induct) (auto intro: step_summarised)

lemma finalized_summarised:
  assumes "relay_reachable sha256 abort r" and "rl_disabled r = None" and "finalized at_utc at_ns r = Some m"
  shows "summarised sha256 (rl_id r) (relay_summary at_utc at_ns r) (rl_observed r) m"
proof -
  let ?i = "rl_id r" and ?m = "rl_manager r" and ?sm = "relay_summary at_utc at_ns r"
  have reach: "reachable sha256 ?m" and unclosed: "?i \<notin> closing ?m" and link: "linked_capture r ?m"
    using relay_reachable_capture [OF assms(1)] assms(2) by (simp_all add: capture_ok_def)
  from assms(3) obtain s c where s: "objects ?m ?i = Some s" "close_command s ?sm = Some c"
    and m: "m = ?m\<lparr>closing := insert ?i (closing ?m), waiting_closes := waiting_closes ?m @ [c]\<rparr>"
    by (auto simp: finalized_def Let_def bind_eq_Some_conv)
  have ok: "session_ok sha256 ?i (pipeline ?i ?m) (writers ?m ?i) (Some s) False (attempts ?m ?i) (queued ?m ?i) (results ?i ?m)"
    using system_okD(3) [OF reachable_ok [OF reach], of ?i] s(1) unclosed by simp
  have c: "c = CloseCommand ?i ?sm (session_errors s) (dropped_chunks s) (dropped_bytes s)"
    using s(2) ok by (auto simp: close_command_def session_ok_def split: if_splits)
  have "pipeline ?i m = pipeline ?i ?m @ [c]" by (simp add: m pipeline_def c concerns_def)
  moreover have "\<not> is_close_command x" if "x \<in> set (pipeline ?i ?m)" for x
    using ok that flows_unclosed by (auto simp: session_ok_def)
  moreover have "Inr p \<notin> set (results ?i m)" for p
    using ok by (auto simp: session_ok_def m results_def)
  moreover have "reachable sha256 m"
    using reachable_step [OF reach step_finalize [OF s(1) unclosed s(2)]] by (simp add: m)
  ultimately show ?thesis using link by (auto simp: summarised_def m c linked_capture_def)
qed

lemma published_exact:
  assumes "reachable sha256 m" and "(i, Inr p) \<in> set (outcomes m)" shows "exact p (attempts m i)"
proof -
  have "Inr p \<in> set (results i m)" using assms(2) by (force simp: results_def)
  with system_okD(3) [OF reachable_ok [OF assms(1)], of i] show ?thesis
    by (auto simp: session_ok_def split: option.splits)
qed

text \<open>
  C6: a job published as complete is the whole conversation. Let a session of the relay be over and its
  finalizer have asked for the close; whatever the process does from there, if a job of this session is
  published as COMPLETE, its two directional files hold exactly the bytes the relay read from the client
  and from the device, every one of which was delivered to the other side, and the timeline counts every
  event the relay saw.
\<close>

theorem complete_job_is_conversation:
  assumes "relay_reachable sha256 abort r" and "rl_disabled r = None" and "finalized at_utc at_ns r = Some m"
    and "(capture_step sha256)\<^sup>*\<^sup>* m m'" and "(rl_id r, Inr p) \<in> set (outcomes m')"
    and "get (pub_manifest p) ''status'' = JStr ''COMPLETE''"
  shows "map_of (pub_files p) (raw_file d) = Some (rl_received r d) \<and> rl_delivered r d = rl_received r d \<and>
    get (pub_manifest p) ''timeline_events'' = JInt (int (length (rl_observed r)))"
proof -
  have sm: "summarised sha256 (rl_id r) (relay_summary at_utc at_ns r) (rl_observed r) m'"
    by (rule steps_summarised [OF assms(4) finalized_summarised [OF assms(1-3)]])
  then have "reachable sha256 m'" and tried: "attempts m' (rl_id r) = rl_observed r" by (simp_all add: summarised_def)
  have files: "map_of (pub_files p) ''client.raw'' = Some (stream ClientToDevice (rl_observed r))"
    "map_of (pub_files p) ''device.raw'' = Some (stream DeviceToClient (rl_observed r))"
    "get (pub_manifest p) ''timeline_events'' = JInt (int (length (rl_observed r)))"
    using published_exact [OF \<open>reachable sha256 m'\<close> assms(5)] assms(6) by (simp_all add: exact_def tried)
  have "Inr p \<in> set (results (rl_id r) m')" using assms(5) by (force simp: results_def)
  with sm obtain errs k n w where "pub_manifest p = manifest sha256 (relay_summary at_utc at_ns r) errs k n w"
    by (auto simp: summarised_def)
  with assms(6) have "transport_complete (relay_summary at_utc at_ns r)"
    by (simp add: manifest_fields split: if_splits)
  then obtain reason es where over: "rl_phase r = Ended True reason es"
    by (auto simp: relay_summary_def split: phase.splits)
  note ok = relay_okD [OF relay_reachable_ok [OF assms(1)]]
  have "rl_pumps r d = Done CleanEof" using ok(8) by (simp add: over phase_ok_def)
  with ok(3) [of d] have "rl_received r d = stream d (rl_observed r)" "rl_delivered r d = rl_received r d"
    by (simp_all add: pump_ok_def quiet_def)
  with files show ?thesis by (cases d) (simp_all add: raw_file_def)
qed

section \<open>The traffic does not depend on the capture\<close>

definition traffic :: "relay \<Rightarrow> relay_counters \<times> (direction \<Rightarrow> pump) \<times> phase \<times> (direction \<Rightarrow> bytes) \<times> (direction \<Rightarrow> bytes) \<times> (direction \<Rightarrow> bytes) \<times> capture_event list" where
  "traffic r = (rl_counters r, rl_pumps r, rl_phase r, rl_received r, rl_written r, rl_delivered r, rl_observed r)"

lemma traffic_fields:
  "traffic q = traffic r \<longleftrightarrow> rl_counters q = rl_counters r \<and> rl_pumps q = rl_pumps r \<and> rl_phase q = rl_phase r \<and>
    rl_received q = rl_received r \<and> rl_written q = rl_written r \<and> rl_delivered q = rl_delivered r \<and> rl_observed q = rl_observed r"
  by (auto simp: traffic_def)

lemma traffic_read: "traffic q = traffic r \<Longrightarrow> traffic (pump_read d b wrote at_utc at_ns q) = traffic (pump_read d b wrote at_utc at_ns r)"
  by (auto simp: traffic_fields pump_read_def split: prod.splits)

lemma pump_after_continue: "err \<noteq> Some [] \<Longrightarrow> pump_after False b err ok message = pump_after False b err ok' message'"
  by (auto simp: pump_after_def error_or_def split: option.splits)

lemma traffic_forward:
  assumes "traffic q = traffic r" and "err \<noteq> Some []"
  shows "traffic (pump_forward False d f err at_utc q) = traffic (pump_forward False d f err at_utc r)"
proof -
  let ?e = "pump_event d f err at_utc"
  obtain ok t q' where q: "relay_record ?e q = (ok, t, q')" by (cases "relay_record ?e q")
  obtain ok' t' r' where r: "relay_record ?e r = (ok', t', r')" by (cases "relay_record ?e r")
  show ?thesis
    using assms(1) pump_after_continue [OF assms(2), of "fl_payload f" ok t ok' t']
    by (simp add: pump_forward_def q r traffic_fields relay_record_frame [OF q] relay_record_frame [OF r])
qed

lemma traffic_end: "traffic q = traffic r \<Longrightarrow> traffic (end_session b t errs q) = traffic (end_session b t errs r)"
  by (auto simp: traffic_fields end_session_def cancel_pumps_def is_done_def)

lemma traffic_done: "traffic q = traffic r \<Longrightarrow> is_done q = is_done r \<and> done_results q = done_results r \<and> ended q = ended r"
  by (auto simp: traffic_fields is_done_def done_results_def ended_def fun_eq_iff)

lemma traffic_interrupted:
  assumes "traffic q = traffic r"
  shows "map_option traffic (interrupted False t u w q) = map_option traffic (interrupted False t u w r)"
  using traffic_end [OF assms] traffic_done [OF assms] by (simp add: interrupted_def split: option.split)

lemma traffic_wait:
  assumes "traffic q = traffic r"
  shows "traffic (first_wait False w q) = traffic (first_wait False w r)"
    and "traffic (tail_wait False w q) = traffic (tail_wait False w r)"
proof -
  have tail: "traffic (q\<lparr>rl_phase := p\<rparr>) = traffic (r\<lparr>rl_phase := p\<rparr>)" for p
    using assms by (simp add: traffic_fields)
  note facts = traffic_end [OF assms] traffic_done [OF assms] tail
  show "traffic (first_wait False w q) = traffic (first_wait False w r)"
    using traffic_interrupted [OF assms, of "''session_idle_timeout''" "''no traffic in either direction before the configured timeout''" w] facts
    unfolding first_wait_def by (auto split: option.splits list.split)
  show "traffic (tail_wait False w q) = traffic (tail_wait False w r)"
    using traffic_interrupted [OF assms, of "''half_close_tail_idle_timeout''"
      "''opposite direction was idle after half-close for the configured response-tail timeout''" w] facts
    unfolding tail_wait_def by (auto split: option.splits)
qed

lemma traffic_awake: "traffic q = traffic r \<Longrightarrow> awake False r ds w \<Longrightarrow> awake False q ds w"
  using traffic_done [of q r] by (auto simp: awake_def split: option.splits)

lemma traffic_step:
  assumes "relay_step sha256 False r r'" and same: "traffic q = traffic r"
  shows "\<exists>q'. (relay_step sha256 False)\<^sup>*\<^sup>* q q' \<and> traffic q' = traffic r'"
proof -
  note same_done = traffic_done [OF same] and fields = same [unfolded traffic_fields]
  have step: "?thesis" if "relay_step sha256 False q q'" "traffic q' = traffic r'" for q'
    using that by blast
  from assms(1) show ?thesis
  proof (cases rule: relay_step.cases)
    case (relay_read d b wrote at_utc at_ns)
    then show ?thesis using same_done fields traffic_read [OF same] by (intro step [OF relay_step.relay_read]) auto
  next
    case (relay_read_error d t)
    then show ?thesis using same_done fields by (intro step [OF relay_step.relay_read_error]) (auto simp: traffic_fields)
  next
    case (relay_forward d f err at_utc)
    then have "relay_step sha256 False q (pump_forward False d f err at_utc q)"
      using same_done fields by (intro relay_step.relay_forward) simp_all
    from step [OF this] relay_forward traffic_forward [OF same, of err d f at_utc] show ?thesis by simp
  next
    case (relay_process m)
    then have "traffic q = traffic r'" using fields by (simp add: traffic_fields)
    then show ?thesis by blast
  next
    case (relay_first_wait w)
    then show ?thesis using fields traffic_awake [OF same] traffic_wait [OF same] by (intro step [OF relay_step.relay_first_wait]) auto
  next
    case (relay_tail_wait d w)
    then show ?thesis using fields traffic_awake [OF same] traffic_wait [OF same] by (intro step [OF relay_step.relay_tail_wait]) auto
  next
    case relay_shutdown
    then show ?thesis using same_done traffic_end [OF same] by (intro step [OF relay_step.relay_shutdown]) auto
  qed
qed

text \<open>
  C10: under the policy \<^verbatim>\<open>continue\<close> the capture is invisible to the network. Whatever run a session has, with
  a full queue, a broken disk or a capture that never opened, a session with any other state of the
  capture, in particular with none at all, can read, forward, count and end in exactly the same way.
\<close>

theorem capture_is_invisible:
  assumes "relay_reachable sha256 False r"
  shows "\<exists>q. (relay_step sha256 False)\<^sup>*\<^sup>* (fresh_relay desc m disabled) q \<and> traffic q = traffic r"
  using assms
proof (induction rule: relay_reachable.induct)
  case (relay_begins m' d r)
  then have "traffic (fresh_relay desc m disabled) = traffic r"
    by (auto simp: begin_session_def fresh_relay_def traffic_def split: prod.splits sum.splits)
  then show ?case by blast
next
  case (relay_goes_on r r')
  then obtain q where q: "(relay_step sha256 False)\<^sup>*\<^sup>* (fresh_relay desc m disabled) q" "traffic q = traffic r" by blast
  obtain q' where "(relay_step sha256 False)\<^sup>*\<^sup>* q q'" "traffic q' = traffic r'"
    using traffic_step [OF relay_goes_on(2) q(2)] by blast
  with q(1) show ?case by (meson rtranclp_trans)
qed

end
