(* ===== verification/RelayExample.thy ===== *)
theory RelayExample imports RelayCapture begin

text \<open>
  One session from its first byte to its published job, on which the theorems about the relay are applied.
\<close>

section \<open>Example\<close>

text \<open>A client sends two bytes and closes, the device closes, the writer thread publishes.\<close>

definition exchange :: "direction \<Rightarrow> bytes \<Rightarrow> relay \<Rightarrow> relay" where
  "exchange d b r = (let r' = pump_read d b True [] 0 r in
     case rl_pumps r' d of Forwarding f \<Rightarrow> pump_forward False d f None [] r' | _ \<Rightarrow> r')"

definition talk0 :: relay where
  "talk0 = (fresh_relay example_descriptor opened None)\<lparr>rl_manager := ready\<rparr>"

definition talk1 :: relay where
  "talk1 = exchange ClientToDevice [27, 64] talk0"

definition talk2 :: relay where
  "talk2 = exchange ClientToDevice [] talk1"

definition talk3 :: relay where
  "talk3 = exchange DeviceToClient [] talk2"

definition both_done :: wakeup where
  "both_done = \<lparr>wk_idle = False, wk_failure = None, wk_pumps = [ClientToDevice, DeviceToClient]\<rparr>"

definition conversation :: relay where
  "conversation = first_wait False both_done talk3"

lemma exchange_reachable:
  assumes "relay_reachable sha256 False r" and "\<not> ended r" and "rl_pumps r d = Reading"
  shows "relay_reachable sha256 False (exchange d b r)"
proof -
  let ?r = "pump_read d b True [] 0 r"
  have read: "relay_reachable sha256 False ?r" by (rule relay_goes_on [OF assms(1) relay_read [OF assms(2,3)]])
  have "\<exists>f. rl_pumps ?r d = Forwarding f \<and> fl_written f" by (simp add: pump_read_def next_eof_def next_data_def)
  then obtain f where f: "rl_pumps ?r d = Forwarding f" and wrote: "fl_written f \<or> (None :: string option) \<noteq> None" by blast
  have "\<not> ended ?r" using assms(2) by (auto simp: ended_def pump_read_def split: prod.splits)
  from relay_goes_on [OF read relay_forward [OF this f wrote]] show ?thesis by (simp add: exchange_def f Let_def)
qed

lemma talk0_reachable: "relay_reachable toy_digest False talk0"
proof -
  have "begin_session False example_descriptor (started 4) = Some (fresh_relay example_descriptor opened None)"
    by (simp add: begin_session_def open_session_nowait_def put_defs run_defs example_descriptor_def Let_def)
  moreover have "objects (started 4) (session_id example_descriptor) = None" by (simp add: started_def)
  ultimately have start: "relay_reachable toy_digest False (fresh_relay example_descriptor opened None)"
    using relay_begins [OF reachable_start] by blast
  have "work toy_digest calm opened = Some ready"
    by (simp add: work_def process_def calm_def run_defs example_descriptor_def)
  then have "capture_step toy_digest opened ready" by (rule step_work)
  then have "relay_step toy_digest False (fresh_relay example_descriptor opened None) talk0"
    unfolding talk0_def by (intro relay_process) (simp_all add: fresh_relay_def run_defs)
  with start show ?thesis by (rule relay_goes_on)
qed

lemmas talk_defs = exchange_def pump_read_def next_eof_def next_data_def pump_forward_def relay_record_def
  record_event_def put_defs pump_event_def pump_after_def Let_def

lemma talk0_facts:
  "rl_pumps talk0 = (\<lambda>_. Reading)" "rl_phase talk0 = Duplex" "rl_disabled talk0 = None" "rl_id talk0 = ''s''"
  "command_queue (rl_manager talk0) = []" "objects (rl_manager talk0) ''s'' = Some (new_session True example_descriptor None)"
  "writers (rl_manager talk0) ''s'' = Some (open_spool example_descriptor)" "capacity (rl_manager talk0) = 4"
  "running (rl_manager talk0)" "worker_alive (rl_manager talk0)" "waiting_closes (rl_manager talk0) = []" "outcomes (rl_manager talk0) = []"
  "queued (rl_manager talk0) ''s'' = []"
  "rl_counters talk0 = new_counters" "rl_observed talk0 = []" "rl_received talk0 = (\<lambda>_. [])"
  by (simp_all add: talk0_def fresh_relay_def run_defs rl_id_def example_descriptor_def)

text \<open>What one exchange does while the capture takes everything.\<close>

lemma exchange_facts:
  assumes "rl_pumps r d = Reading" and "rl_disabled r = None" and "objects (rl_manager r) (rl_id r) = Some s"
    and "accepting s" "attached s" "running (rl_manager r)" "length (command_queue (rl_manager r)) < capacity (rl_manager r)"
  shows "rl_pumps (exchange d b r) = (rl_pumps r)(d := if b = [] then Done CleanEof else Reading)"
    and "rl_phase (exchange d b r) = rl_phase r" and "rl_disabled (exchange d b r) = None" and "rl_id (exchange d b r) = rl_id r"
    and "rl_received (exchange d b r) = (rl_received r)(d := rl_received r d @ b)"
    and "objects (rl_manager (exchange d b r)) (rl_id r) = Some (s\<lparr>session_sequence := session_sequence s + 1\<rparr>)"
    and "rl_counters (exchange d b r) = snd (if b = [] then next_eof d (rl_counters r) else next_data d (int (length b)) (rl_counters r))"
    and "\<exists>e. command_queue (rl_manager (exchange d b r)) = command_queue (rl_manager r) @ [EventCommand (session_id (session_descriptor s)) e] \<and>
      queued (rl_manager (exchange d b r)) (rl_id r) = queued (rl_manager r) (rl_id r) @ [e]"
    and "writers (rl_manager (exchange d b r)) = writers (rl_manager r)" "worker_alive (rl_manager (exchange d b r)) = worker_alive (rl_manager r)"
      "capacity (rl_manager (exchange d b r)) = capacity (rl_manager r)" "running (rl_manager (exchange d b r)) = running (rl_manager r)"
      "waiting_closes (rl_manager (exchange d b r)) = waiting_closes (rl_manager r)" "outcomes (rl_manager (exchange d b r)) = outcomes (rl_manager r)"
  using assms by (simp_all add: talk_defs rl_id_def unsequenced_def)

text \<open>A session at work while the capture takes everything and the writer thread sleeps.\<close>

definition talking :: "relay \<Rightarrow> capture_event list \<Rightarrow> (direction \<Rightarrow> pump) \<Rightarrow> (direction \<Rightarrow> bytes) \<Rightarrow> bool" where
  "talking r es p got \<longleftrightarrow> relay_reachable toy_digest False r \<and> rl_phase r = Duplex \<and> rl_disabled r = None \<and> rl_id r = ''s'' \<and>
     rl_pumps r = p \<and> rl_received r = got \<and>
     command_queue (rl_manager r) = map (EventCommand ''s'') es \<and> queued (rl_manager r) ''s'' = es \<and>
     objects (rl_manager r) ''s'' = Some ((new_session True example_descriptor None)\<lparr>session_sequence := int (length es)\<rparr>) \<and>
     writers (rl_manager r) ''s'' = Some (open_spool example_descriptor) \<and> capacity (rl_manager r) = 4 \<and>
     running (rl_manager r) \<and> worker_alive (rl_manager r) \<and> waiting_closes (rl_manager r) = [] \<and> outcomes (rl_manager r) = []"

lemma new_session_update: "(new_session True example_descriptor None)\<lparr>session_sequence := 0\<rparr> = new_session True example_descriptor None"
  by (simp add: new_session_def)

lemma example_session_id: "session_id (session_descriptor (new_session True example_descriptor None)) = ''s''"
  by (simp add: new_session_def example_descriptor_def)

lemma talking_start: "talking talk0 [] (\<lambda>_. Reading) (\<lambda>_. [])"
  using talk0_reachable by (simp add: talking_def talk0_facts new_session_update)

lemma talking_exchange:
  assumes "talking r es p got" and "p d = Reading" and "length es < 4"
  shows "\<exists>e. talking (exchange d b r) (es @ [e]) (p(d := if b = [] then Done CleanEof else Reading)) (got(d := got d @ b))"
proof -
  let ?s = "(new_session True example_descriptor None)\<lparr>session_sequence := int (length es)\<rparr>"
  have s: "accepting ?s" "attached ?s" "session_id (session_descriptor ?s) = ''s''" "session_sequence ?s = int (length es)"
    by (simp_all add: new_session_def example_descriptor_def)
  have old: "relay_reachable toy_digest False r" "rl_phase r = Duplex" "rl_disabled r = None" "rl_id r = ''s''" "rl_pumps r = p"
    "rl_received r = got" "command_queue (rl_manager r) = map (EventCommand ''s'') es" "queued (rl_manager r) ''s'' = es"
    "objects (rl_manager r) ''s'' = Some ?s" "capacity (rl_manager r) = 4" "running (rl_manager r)"
    using assms(1) by (simp_all add: talking_def)
  have "rl_pumps r d = Reading" "objects (rl_manager r) (rl_id r) = Some ?s" "length (command_queue (rl_manager r)) < capacity (rl_manager r)"
    using assms(2,3) old by simp_all
  note new = exchange_facts [OF this(1) old(3) this(2) s(1,2) old(11) this(3), where b = b]
  from new(8) obtain e where e: "command_queue (rl_manager (exchange d b r)) = map (EventCommand ''s'') (es @ [e])"
    "queued (rl_manager (exchange d b r)) ''s'' = es @ [e]"
    by (auto simp: old example_session_id)
  have "relay_reachable toy_digest False (exchange d b r)"
    using exchange_reachable [OF old(1)] assms(2) by (simp add: ended_def old)
  moreover have "objects (rl_manager (exchange d b r)) ''s'' =
      Some ((new_session True example_descriptor None)\<lparr>session_sequence := int (length (es @ [e]))\<rparr>)"
    using new(6) by (simp add: old)
  ultimately have "talking (exchange d b r) (es @ [e]) (p(d := if b = [] then Done CleanEof else Reading)) (got(d := got d @ b))"
    using assms(1) e by (simp add: talking_def new del: fun_upd_apply)
  then show ?thesis by blast
qed

lemma talking_end: "\<exists>es. length es = 3 \<and> talking talk3 es (\<lambda>_. Done CleanEof) ((\<lambda>_. [])(ClientToDevice := [27, 64]))"
proof -
  obtain e1 where "talking talk1 [e1] (\<lambda>_. Reading) ((\<lambda>_. [])(ClientToDevice := [27, 64]))"
    using talking_exchange [OF talking_start, of ClientToDevice "[27, 64]"] by (auto simp: talk1_def fun_upd_idem)
  from talking_exchange [OF this, of ClientToDevice "[]"] obtain e2 where
    "talking talk2 [e1, e2] ((\<lambda>_. Reading)(ClientToDevice := Done CleanEof)) ((\<lambda>_. [])(ClientToDevice := [27, 64]))"
    by (auto simp: talk2_def fun_upd_idem)
  from talking_exchange [OF this, of DeviceToClient "[]"] obtain e3 where
    "talking talk3 [e1, e2, e3] ((\<lambda>_. Reading)(ClientToDevice := Done CleanEof, DeviceToClient := Done CleanEof))
      ((\<lambda>_. [])(ClientToDevice := [27, 64]))"
    by (auto simp: talk3_def fun_upd_idem)
  moreover have "(\<lambda>_. Reading)(ClientToDevice := Done CleanEof, DeviceToClient := Done CleanEof) = (\<lambda>_. Done CleanEof)"
    by (rule ext) (auto simp: direction.exhaust intro: direction.exhaust)
  ultimately show ?thesis by (intro exI [of _ "[e1, e2, e3]"]) simp
qed

lemma conversation_state:
  "relay_reachable toy_digest False conversation" "rl_phase conversation = Ended True ''clean_bidirectional_eof'' []"
  "rl_manager conversation = rl_manager talk3" "rl_id conversation = ''s''" "rl_disabled conversation = None"
  "rl_received conversation ClientToDevice = [27, 64]" "rl_session conversation = objects (rl_manager talk3) ''s''"
proof -
  obtain es where t: "talking talk3 es (\<lambda>_. Done CleanEof) ((\<lambda>_. [])(ClientToDevice := [27, 64]))" using talking_end by blast
  then have r: "relay_reachable toy_digest False talk3" "rl_phase talk3 = Duplex" "rl_pumps talk3 = (\<lambda>_. Done CleanEof)"
    "rl_disabled talk3 = None" "rl_id talk3 = ''s''" "rl_received talk3 ClientToDevice = [27, 64]"
    by (simp_all add: talking_def)
  have "{d. d = ClientToDevice \<or> d = DeviceToClient} = UNIV" using direction.exhaust by blast
  then have "awake False talk3 [ClientToDevice, DeviceToClient] both_done"
    by (auto simp: awake_def both_done_def is_done_def r)
  from relay_goes_on [OF r(1) relay_first_wait [OF r(2) this]] show "relay_reachable toy_digest False conversation"
    by (simp add: conversation_def)
  have over: "conversation = end_session True ''clean_bidirectional_eof'' [] talk3"
    by (simp add: conversation_def first_wait_def interrupted_def both_done_def done_results_def is_done_def r result_error_def)
  show "rl_phase conversation = Ended True ''clean_bidirectional_eof'' []"
    "rl_manager conversation = rl_manager talk3" "rl_id conversation = ''s''" "rl_disabled conversation = None"
    "rl_received conversation ClientToDevice = [27, 64]" "rl_session conversation = objects (rl_manager talk3) ''s''"
    using r by (simp_all add: over end_session_def cancel_pumps_def rl_id_def rl_session_def)
qed

text \<open>The writer thread on the queue of one session.\<close>

lemma drain_steps: "drain sha256 ds m = Some m' \<Longrightarrow> (capture_step sha256)\<^sup>*\<^sup>* m m'"
proof (induction ds arbitrary: m)
  case (Cons d ds)
  then obtain m1 where "work sha256 d m = Some m1" "drain sha256 ds m1 = Some m'" by (auto simp: bind_eq_Some_conv)
  with Cons.IH show ?case using step_work converse_rtranclp_into_rtranclp by metis
qed simp

lemma try_append_write: "try_append sha256 e s = Some s' \<Longrightarrow> write_event sha256 NoFault e s = (None, s')"
  by (auto simp: try_append_def write_event_def split: prod.splits option.splits)

lemma drain_session:
  assumes "command_queue m = map (EventCommand i) es @ [CloseCommand i sm errs k n]" and "worker_alive m"
    and "writers m i = Some w0" and "appends sha256 es w0 = Some w"
  shows "\<exists>m'. drain sha256 (replicate (length es + 1) calm) m = Some m' \<and>
    outcomes m' = outcomes m @ [(i, finalize sha256 None None sm errs k n w)]"
  using assms
proof (induction es arbitrary: m w0)
  case Nil
  then show ?case by (simp add: work_def process_def calm_def appends_def)
next
  case (Cons e es)
  then obtain w1 where w1: "try_append sha256 e w0 = Some w1" "appends sha256 es w1 = Some w"
    by (auto simp: appends_def split: option.splits)
  let ?q = "map (EventCommand i) es @ [CloseCommand i sm errs k n]"
  let ?m = "m\<lparr>command_queue := ?q, writers := (writers m)(i \<mapsto> w1)\<rparr>"
  have "work sha256 calm m = Some ?m"
    using Cons.prems try_append_write [OF w1(1)] by (simp add: work_def process_def calm_def)
  moreover obtain m' where "drain sha256 (replicate (length es + 1) calm) ?m = Some m'"
    "outcomes m' = outcomes ?m @ [(i, finalize sha256 None None sm errs k n w)]"
    using Cons.IH [of ?m w1] Cons.prems(2) w1(2) by auto
  ultimately show ?case by auto
qed

theorem complete_job_is_conversation_witness:
  "\<exists>(m' :: system) p. (rl_id conversation, Inr p) \<in> set (outcomes m') \<and>
     map_of (pub_files p) ''client.raw'' = Some [27, 64] \<and> rl_delivered conversation ClientToDevice = [27, 64]"
proof -
  note c = conversation_state
  obtain es where len: "length es = 3" and t: "talking talk3 es (\<lambda>_. Done CleanEof) ((\<lambda>_. [])(ClientToDevice := [27, 64]))"
    using talking_end by blast
  let ?m = "rl_manager talk3" and ?sm = "relay_summary [] 0 conversation"
  let ?s = "(new_session True example_descriptor None)\<lparr>session_sequence := 3\<rparr>" and ?c = "CloseCommand ''s'' ?sm [] 0 0"
  have s: "objects ?m ''s'' = Some ?s" "accepting ?s" "close_command ?s ?sm = Some ?c"
    using t len by (simp_all add: talking_def new_session_def close_command_def example_descriptor_def)
  let ?m1 = "?m\<lparr>closing := insert ''s'' (closing ?m), waiting_closes := [?c]\<rparr>"
  let ?m2 = "?m1\<lparr>command_queue := map (EventCommand ''s'') es @ [?c], waiting_closes := []\<rparr>"
  have fin: "finalized [] 0 conversation = Some ?m1"
    using t s by (simp add: finalized_def Let_def c talking_def)
  have "put_nowait ?c ?m1 = Some (?m1\<lparr>command_queue := map (EventCommand ''s'') es @ [?c]\<rparr>)"
    using t len by (simp add: put_nowait_def talking_def)
  from step_put_close [OF _ this, of toy_digest] have put: "capture_step toy_digest ?m1 ?m2" by simp
  have queue: "queued (rl_manager conversation) (rl_id conversation) = es" using t by (simp add: c talking_def)
  obtain w where w: "appends toy_digest es (open_spool example_descriptor) = Some w"
    using appends_well_numbered [OF queued_events(2,1) [OF c(1,5)]] unfolding queue by blast
  have complete: "get (manifest toy_digest ?sm [] 0 0 w) ''status'' = JStr ''COMPLETE''"
    using clean_session_complete [OF c(1,5,2) _ s(2), of example_descriptor w] w queue s(1) by (simp add: c)
  obtain m' where m': "drain toy_digest (replicate (length es + 1) calm) ?m2 = Some m'"
    "outcomes m' = outcomes ?m2 @ [(''s'', finalize toy_digest None None ?sm [] 0 0 w)]"
    using drain_session [of ?m2 "''s''" es ?sm "[]" 0 0 "open_spool example_descriptor" toy_digest w] t w
    by (auto simp: talking_def)
  obtain p where p: "finalize toy_digest None None ?sm [] 0 0 w = Inr p" "pub_manifest p = manifest toy_digest ?sm [] 0 0 w"
    by (simp add: finalize_def Let_def)
  have out: "(rl_id conversation, Inr p) \<in> set (outcomes m')" using m'(2) p(1) by (simp add: c)
  have steps: "(capture_step toy_digest)\<^sup>*\<^sup>* ?m1 m'"
    using put drain_steps [OF m'(1)] by (rule converse_rtranclp_into_rtranclp)
  from complete_job_is_conversation [OF c(1,5) fin steps out, where d = ClientToDevice] complete p(2) out c(6)
  have "map_of (pub_files p) ''client.raw'' = Some [27, 64] \<and> rl_delivered conversation ClientToDevice = [27, 64]"
    by (simp add: raw_file_def)
  with out show ?thesis by (intro exI [of _ m'] exI [of _ p]) simp
qed

text \<open>A service that is stopped while a chunk waits for its destination: the transport has it, the record has not.\<close>

definition cut_short :: relay where
  "cut_short = end_session False ''service_shutdown'' [''session task cancelled'']
     (pump_read ClientToDevice [27, 64] True [] 0 talk0)"

lemma cut_short_state: "relay_reachable toy_digest False cut_short" "rl_pumps cut_short ClientToDevice = Done PumpCancelled"
  "rl_written cut_short ClientToDevice = [27, 64]" "rl_observed cut_short = []"
proof -
  have start: "\<not> ended talk0" "rl_pumps talk0 d = Reading" for d by (simp_all add: talk0_def fresh_relay_def ended_def)
  let ?r = "pump_read ClientToDevice [27, 64] True [] 0 talk0"
  have "relay_reachable toy_digest False ?r" by (rule relay_goes_on [OF talk0_reachable relay_read [OF start]])
  moreover have "\<not> ended ?r" using start(1) by (auto simp: ended_def pump_read_def split: prod.splits)
  ultimately show "relay_reachable toy_digest False cut_short"
    unfolding cut_short_def by (rule relay_goes_on [OF _ relay_shutdown])
  show "rl_pumps cut_short ClientToDevice = Done PumpCancelled" "rl_written cut_short ClientToDevice = [27, 64]" "rl_observed cut_short = []"
    by (simp_all add: cut_short_def end_session_def cancel_pumps_def is_done_def pump_read_def next_data_def talk0_def fresh_relay_def)
qed

theorem relay_transparent_witness:
  "rl_delivered conversation ClientToDevice = [27, 64] \<and> stream ClientToDevice (rl_observed conversation) = [27, 64] \<and>
   rl_written cut_short ClientToDevice = [27, 64] \<and> rl_received cut_short ClientToDevice = [27, 64] \<and>
   rl_delivered cut_short ClientToDevice = [] \<and> stream ClientToDevice (rl_observed cut_short) = []"
  using relay_transparent [OF conversation_state(1), of ClientToDevice] conversation_state(2,6)
    relay_transparent [OF cut_short_state(1), of ClientToDevice] cut_short_state(2-4) by (auto simp: stream_def)

theorem relay_feeds_spool_witness:
  "\<exists>s es. queued (rl_manager conversation) ''s'' = es \<and> appends toy_digest es (open_spool example_descriptor) = Some s"
  using relay_feeds_spool [OF conversation_state(1,5), of example_descriptor] conversation_state(4) by auto

theorem capture_is_invisible_witness:
  "\<exists>q. (relay_step toy_digest False)\<^sup>*\<^sup>* (fresh_relay example_descriptor (started 0)
     (Some (disabled_session example_descriptor ''disk full''))) q \<and> rl_received q ClientToDevice = [27, 64]"
proof -
  obtain q where "(relay_step toy_digest False)\<^sup>*\<^sup>* (fresh_relay example_descriptor (started 0)
     (Some (disabled_session example_descriptor ''disk full''))) q" "traffic q = traffic conversation"
    using capture_is_invisible [OF conversation_state(1)] by blast
  then show ?thesis using conversation_state(6) by (intro exI [of _ q]) (simp add: traffic_fields)
qed

definition example_device :: device_config where
  "example_device = \<lparr>dv_id = ''pos_01'', dv_name = ''Kitchen'', dv_type = ''pos'', dv_parser = ''escpos'', dv_enabled = True,
     dv_listen = (0, 9100), dv_target = (1, 9100), dv_clients = [167772161], dv_networks = []\<rparr>"

theorem one_session_per_target_witness:
  "relaying (arrival 2 4 example_device (Some (''10.0.0.1'', 5001)) (arrival 2 3 example_device (Some (''10.0.0.1'', 5000)) idle_service))
     = [(1, 9100)]"
proof -
  let ?s = "arrival 2 3 example_device (Some (''10.0.0.1'', 5000)) idle_service"
  let ?t = "arrival 2 4 example_device (Some (''10.0.0.1'', 5001)) ?s"
  have "ipv4_of_text ''10.0.0.1'' = Some 167772161"
    by (simp add: ipv4_of_text_def octet_of_def is_digit_def code_def)
  then have allowed: "client_allowed example_device ''10.0.0.1''" by (simp add: client_allowed_def example_device_def)
  have s: "?s = \<lparr>se_tasks = [(3, Relaying (1, 9100) example_device ''10.0.0.1'')], se_locked = [(1, 9100)]\<rparr>"
    by (simp add: arrival_def admit_def idle_service_def allowed) (simp add: example_device_def)
  have t: "se_tasks ?t = (4, ClosingWriter) # se_tasks ?s" "se_locked ?t = [(1, 9100)]"
    unfolding s by (simp_all add: arrival_def admit_def allowed) (simp_all add: example_device_def)
  have "service_reachable 2 ?s" by (rule service_more [OF service_idle connection_arrives]) (simp add: idle_service_def)
  then have "service_reachable 2 ?t" by (rule service_more) (rule connection_arrives, simp add: s)
  from one_session_per_target [OF this] have "distinct (relaying ?t)" "set (relaying ?t) = {(1, 9100)}" by (simp_all add: t)
  moreover have "length (relaying ?t) = 1" unfolding relaying_def t(1) by (simp add: s)
  ultimately show ?thesis by (cases "relaying ?t") auto
qed

end
