(* ===== verification/Ingest.thy ===== *)
theory Ingest imports Recovery Relay begin

text \<open>
  \<^verbatim>\<open>ingestion/adapters.py\<close> and \<^verbatim>\<open>ingestion/canonical.py\<close>: reading a published capture back. Everything the
  manifest, the timeline and the raw files say is checked against everything else, and the chunks handed to the
  database are slices of the raw files. \<^verbatim>\<open>json.loads\<close> with its hooks, \<^verbatim>\<open>datetime.fromisoformat\<close> and SHA-256
  are parameters; paths are the names of files in a job directory.
\<close>

section \<open>Validation\<close>

text \<open>\<^verbatim>\<open>SourceValidationError\<close> and \<^verbatim>\<open>SourceBusyError\<close>, with their texts.\<close>

datatype ingest_error = SourceInvalid string | SourceBusy string

definition andthen :: "ingest_error + 'a \<Rightarrow> ('a \<Rightarrow> ingest_error + 'b) \<Rightarrow> ingest_error + 'b" where
  "andthen x f = (case x of Inl e \<Rightarrow> Inl e | Inr a \<Rightarrow> f a)"

definition ensure :: "bool \<Rightarrow> string \<Rightarrow> ingest_error + unit" where
  "ensure b t = (if b then Inr () else Inl (SourceInvalid t))"

definition max_int64 :: int where
  "max_int64 = 2 ^ 63 - 1"

definition require_string :: "jval \<Rightarrow> string \<Rightarrow> nat \<Rightarrow> ingest_error + string" where
  "require_string v label maximum = (case v of
      JStr s \<Rightarrow> if s = [] \<or> maximum < length s
        then Inl (SourceInvalid (label @ '' must be a non-empty string up to '' @ show_int (int maximum) @ '' characters'')) else Inr s
    | _ \<Rightarrow> Inl (SourceInvalid (label @ '' must be a non-empty string up to '' @ show_int (int maximum) @ '' characters'')))"

definition require_optional_string :: "jval \<Rightarrow> string \<Rightarrow> nat \<Rightarrow> ingest_error + string option" where
  "require_optional_string v label maximum = (if v = JNull then Inr None
     else andthen (require_string v label maximum) (\<lambda>s. Inr (Some s)))"

definition require_int :: "jval \<Rightarrow> string \<Rightarrow> int \<Rightarrow> int \<Rightarrow> ingest_error + int" where
  "require_int v label minimum maximum = (case v of
      JInt i \<Rightarrow> if minimum \<le> i \<and> i \<le> maximum then Inr i
        else Inl (SourceInvalid (label @ '' must be an integer between '' @ show_int minimum @ '' and '' @ show_int maximum))
    | _ \<Rightarrow> Inl (SourceInvalid (label @ '' must be an integer between '' @ show_int minimum @ '' and '' @ show_int maximum)))"

definition require_bool :: "jval \<Rightarrow> string \<Rightarrow> ingest_error + bool" where
  "require_bool v label = (case v of JBool b \<Rightarrow> Inr b | _ \<Rightarrow> Inl (SourceInvalid (label @ '' must be a boolean'')))"

definition is_sha256_text :: "string \<Rightarrow> bool" where
  "is_sha256_text s = (length s = 64 \<and> list_all is_hex_lower s)"

definition require_sha256 :: "jval \<Rightarrow> string \<Rightarrow> ingest_error + string" where
  "require_sha256 v label = (case v of
      JStr s \<Rightarrow> if is_sha256_text s then Inr s else Inl (SourceInvalid (label @ '' must be a lowercase SHA-256 digest''))
    | _ \<Rightarrow> Inl (SourceInvalid (label @ '' must be a lowercase SHA-256 digest'')))"

text \<open>\<^verbatim>\<open>uuid.UUID(text)\<close>: prefixes, braces and hyphens aside, 32 characters that \<^verbatim>\<open>int(hex, 16)\<close> takes.\<close>

fun remove_text :: "string \<Rightarrow> string \<Rightarrow> string" where
  "remove_text w [] = []"
| "remove_text w (c # s) = (if starts_with w (c # s) then remove_text w (drop (length w - 1) s) else c # remove_text w s)"

fun hex_groups :: "string \<Rightarrow> bool" where
  "hex_groups [] = False"
| "hex_groups [c] = (is_hex_lower c \<or> is_hex_lower (hd (lower [c])))"
| "hex_groups (c # d # r) = ((is_hex_lower c \<or> is_hex_lower (hd (lower [c]))) \<and>
     (if d = CHR ''_'' then hex_groups r else hex_groups (d # r)))"

definition hex_int_ok :: "string \<Rightarrow> bool" where
  "hex_int_ok t = (let s = strip t; s1 = (if s \<noteq> [] \<and> hd s = CHR ''+'' then tl s else s);
       s2 = (if starts_with ''0x'' (lower s1) then (let r = drop 2 s1 in if r \<noteq> [] \<and> hd r = CHR ''_'' then tl r else r) else s1)
     in hex_groups s2)"

definition is_uuid_text :: "string \<Rightarrow> bool" where
  "is_uuid_text t = (let braces = (\<lambda>c. c = CHR 0x7B \<or> c = CHR 0x7D); s = remove_text ''uuid:'' (remove_text ''urn:'' t);
       inner = rev (dropWhile braces (rev (dropWhile braces s))); h = filter (\<lambda>c. c \<noteq> CHR ''-'') inner
     in length h = 32 \<and> hex_int_ok h)"

definition require_uuid :: "jval \<Rightarrow> string \<Rightarrow> ingest_error + string" where
  "require_uuid v label = andthen (require_string v label 64) (\<lambda>t.
     if is_uuid_text t then Inr t else Inl (SourceInvalid (label @ '' must be a UUID'')))"

text \<open>\<^verbatim>\<open>datetime.fromisoformat\<close>: whether the time has a zone, and its instant in UTC.\<close>

type_synonym iso_reader = "string \<Rightarrow> (bool \<times> timestamp) option"

definition zulu :: "string \<Rightarrow> string" where
  "zulu t = concat (map (\<lambda>c. if c = CHR ''Z'' then ''+00:00'' else [c]) t)"

definition parse_datetime :: "iso_reader \<Rightarrow> jval \<Rightarrow> string \<Rightarrow> ingest_error + timestamp" where
  "parse_datetime read_iso v label = andthen (require_string v label 64) (\<lambda>t.
     case read_iso (zulu t) of
       None \<Rightarrow> Inl (SourceInvalid (label @ '' must be an ISO-8601 timestamp''))
     | Some (aware, t) \<Rightarrow> if aware then Inr t else Inl (SourceInvalid (label @ '' must include a timezone'')))"

record net_endpoint =
  ne_ip :: string
  ne_port :: int

definition endpoint :: "jval \<Rightarrow> jval \<Rightarrow> string \<Rightarrow> ingest_error + net_endpoint" where
  "endpoint ip port label = andthen (require_string ip (label @ ''.ip'') 45) (\<lambda>t.
     case ipv4_of_text t of None \<Rightarrow> Inl (SourceInvalid (label @ ''.ip must be an IPv4 address''))
     | Some a \<Rightarrow> andthen (require_int port (label @ ''.port'') 1 65535) (\<lambda>n. Inr \<lparr>ne_ip = ipv4_text a, ne_port = n\<rparr>))"

definition optional_endpoint :: "jval \<Rightarrow> jval \<Rightarrow> string \<Rightarrow> ingest_error + net_endpoint option" where
  "optional_endpoint ip port label = (if port = JNull \<or> port = JInt 0 \<or> port = JBool False
     then andthen (require_string ip (label @ ''.ip'') 45) (\<lambda>t.
       case ipv4_of_text t of None \<Rightarrow> Inl (SourceInvalid (label @ ''.ip must be an IPv4 address'')) | Some a \<Rightarrow> Inr None)
     else andthen (endpoint ip port label) (\<lambda>e. Inr (Some e)))"

definition resolve_device :: "((string \<times> int) \<times> string) list \<Rightarrow> net_endpoint \<Rightarrow> ingest_error + string" where
  "resolve_device mapping e = (case map_of mapping (ne_ip e, ne_port e) of
      None \<Rightarrow> Inl (SourceInvalid (''captured target endpoint is not mapped to an enabled configured device: ''
        @ ne_ip e @ '':'' @ show_int (ne_port e)))
    | Some i \<Rightarrow> Inr i)"

definition require_mapping :: "jval \<Rightarrow> string \<Rightarrow> ingest_error + metadata" where
  "require_mapping v label = (case v of JObj ms \<Rightarrow> Inr ms | _ \<Rightarrow> Inl (SourceInvalid (label @ '' must be a JSON object'')))"

definition string_int_map :: "jval \<Rightarrow> string \<Rightarrow> ingest_error + (direction \<Rightarrow> int)" where
  "string_int_map v label = andthen (require_mapping v label) (\<lambda>ms.
     andthen (require_int (get ms ''client_to_device'') (label @ ''.client_to_device'') 0 max_int64) (\<lambda>a.
     andthen (require_int (get ms ''device_to_client'') (label @ ''.device_to_client'') 0 max_int64) (\<lambda>b.
       Inr (\<lambda>d. if d = ClientToDevice then a else b))))"

section \<open>The timeline\<close>

text \<open>\<^verbatim>\<open>bytes.splitlines()\<close>: line feeds, carriage returns and pairs of them; the flag is a carriage return just seen.\<close>

fun byte_lines :: "bool \<Rightarrow> bytes \<Rightarrow> bytes \<Rightarrow> bytes list" where
  "byte_lines cr w [] = (if w = [] then [] else [w])"
| "byte_lines cr w (b # bs) = (if b = 10 then (if cr then byte_lines False w bs else w # byte_lines False [] bs)
     else if b = 13 then w # byte_lines True [] bs else byte_lines False (w @ [b]) bs)"

record stream_chunk =
  sc_sequence :: int
  sc_direction :: direction
  sc_received_at :: timestamp
  sc_received_unix_ns :: "int option"
  sc_forwarded_unix_ns :: "int option"
  sc_drain_unix_ns :: "int option"
  sc_monotonic_ns :: "int option"
  sc_job_offset :: int
  sc_session_offset :: int
  sc_byte_count :: int
  sc_sha256 :: string
  sc_drain_completed :: "bool option"
  sc_forward_status :: "string option"
  sc_error :: "string option"
  sc_observed :: "int option"
  sc_direction_sequence :: "int option"
  sc_kind :: string
  sc_forwarded_at :: "timestamp option"

record timeline_state =
  tl_offsets :: "direction \<Rightarrow> int"
  tl_sequences :: "direction \<Rightarrow> int"
  tl_data :: "direction \<Rightarrow> int"
  tl_eof :: "direction \<Rightarrow> int"
  tl_previous :: "string option"
  tl_observed :: "int list"
  tl_chunks :: "stream_chunk list"

definition new_timeline :: timeline_state where
  "new_timeline = \<lparr>tl_offsets = (\<lambda>_. 0), tl_sequences = (\<lambda>_. 0), tl_data = (\<lambda>_. 0), tl_eof = (\<lambda>_. 0),
     tl_previous = None, tl_observed = [], tl_chunks = []\<rparr>"

definition max_line_bytes :: nat where
  "max_line_bytes = 65536"

definition max_timeline_events :: nat where
  "max_timeline_events = 100000"

text \<open>What a line is checked against: the bytes of the job and its identity.\<close>

record job_view =
  jv_streams :: "direction \<Rightarrow> bytes"
  jv_session :: string
  jv_job :: string
  jv_device :: string

definition slice :: "int \<Rightarrow> int \<Rightarrow> bytes \<Rightarrow> bytes" where
  "slice off len b = take (nat len) (drop (nat off) b)"

text \<open>The fields of one event once its hash, its link, its identity and its sequence numbers are checked.\<close>

definition chunk_of_fields ::
    "iso_reader \<Rightarrow> metadata \<Rightarrow> direction \<Rightarrow> int \<Rightarrow> int \<Rightarrow> int \<Rightarrow> string \<Rightarrow> int \<Rightarrow> int \<Rightarrow> string \<Rightarrow> ingest_error + stream_chunk" where
  "chunk_of_fields read_iso ms d seq observed dseq k off len h =
     andthen (require_bool (get ms ''forwarded'') ''timeline.forwarded'') (\<lambda>fwd.
     andthen (parse_datetime read_iso (get ms ''forwarded_at_utc'') ''timeline.forwarded_at_utc'') (\<lambda>fwd_at.
     andthen (parse_datetime read_iso (get ms ''captured_at_utc'') ''timeline.captured_at_utc'') (\<lambda>received.
     andthen (require_int (get ms ''captured_monotonic_ns'') ''timeline.captured_monotonic_ns'' 0 max_int64) (\<lambda>at_ns.
     andthen (require_optional_string (get ms ''forward_error'') ''timeline.forward_error'' 4096) (\<lambda>err.
       Inr \<lparr>sc_sequence = seq, sc_direction = d, sc_received_at = received, sc_received_unix_ns = None,
         sc_forwarded_unix_ns = None, sc_drain_unix_ns = None, sc_monotonic_ns = Some at_ns, sc_job_offset = off,
         sc_session_offset = off, sc_byte_count = len, sc_sha256 = h, sc_drain_completed = Some fwd,
         sc_forward_status = Some (if fwd then ''FORWARDED'' else ''FAILED''), sc_error = err,
         sc_observed = Some observed, sc_direction_sequence = Some dseq, sc_kind = k, sc_forwarded_at = Some fwd_at\<rparr>)))))"

definition advance :: "direction \<Rightarrow> string \<Rightarrow> int \<Rightarrow> string \<Rightarrow> int \<Rightarrow> stream_chunk \<Rightarrow> timeline_state \<Rightarrow> timeline_state" where
  "advance d k len h observed c s = s\<lparr>
     tl_offsets := (if k = ''data'' then bump d len (tl_offsets s) else tl_offsets s),
     tl_sequences := bump d 1 (tl_sequences s),
     tl_data := (if k = ''data'' then bump d 1 (tl_data s) else tl_data s),
     tl_eof := (if k = ''data'' then tl_eof s else bump d 1 (tl_eof s)),
     tl_previous := Some h, tl_observed := observed # tl_observed s, tl_chunks := tl_chunks s @ [c]\<rparr>"

text \<open>
  One line of the timeline, its number counted from one: the object it holds with its hash, its two sequence
  numbers and its direction; then the slice of the raw file it stands for.
\<close>

definition event_header ::
    "(bytes \<Rightarrow> digest) \<Rightarrow> (bytes \<Rightarrow> string + jval) \<Rightarrow> job_view \<Rightarrow> nat \<Rightarrow> bytes \<Rightarrow> timeline_state
     \<Rightarrow> ingest_error + metadata \<times> string \<times> int \<times> int \<times> direction \<times> int" where
  "event_header sha256 loads jv n line s = (let number = show_int (int n) in
     andthen (ensure (line \<noteq> [] \<and> length line \<le> max_line_bytes) (''invalid canonical timeline line '' @ number)) (\<lambda>_.
     andthen (case loads line of Inl t \<Rightarrow> Inl (SourceInvalid (''invalid JSON in canonical timeline line '' @ number @ '': '' @ t))
       | Inr v \<Rightarrow> require_mapping v (''canonical timeline line '' @ number)) (\<lambda>ms.
     andthen (require_sha256 (get ms ''event_sha256'') (''timeline['' @ number @ ''].event_sha256'')) (\<lambda>h.
     andthen (ensure (sha256_text sha256 (canonical_json (JObj (without ''event_sha256'' ms))) = h)
       (''event hash mismatch at timeline line '' @ number)) (\<lambda>_.
     andthen (ensure (get ms ''previous_event_sha256'' = opt_str (tl_previous s))
       (''event hash-chain mismatch at timeline line '' @ number)) (\<lambda>_.
     andthen (require_int (get ms ''schema_version'') ''timeline.schema_version'' 1 max_int64) (\<lambda>ver.
     andthen (ensure (ver = 1) ''unsupported canonical timeline schema'') (\<lambda>_.
     andthen (ensure (get ms ''session_id'' = JStr (jv_session jv) \<and> get ms ''job_id'' = JStr (jv_job jv) \<and>
       get ms ''device_id'' = JStr (jv_device jv)) ''canonical timeline identity binding mismatch'') (\<lambda>_.
     andthen (require_int (get ms ''sequence'') ''timeline.sequence'' 0 max_int64) (\<lambda>seq.
     andthen (ensure (seq = int (length (tl_chunks s))) ''canonical timeline sequence is not contiguous from zero'') (\<lambda>_.
     andthen (require_int (get ms ''observed_sequence'') ''timeline.observed_sequence'' 0 max_int64) (\<lambda>observed.
     andthen (ensure (observed \<notin> set (tl_observed s)) ''canonical observed sequence is duplicated'') (\<lambda>_.
     andthen (require_string (get ms ''direction'') ''timeline.direction'' 32) (\<lambda>dir.
     andthen (case direction_of dir of None \<Rightarrow> Inl (SourceInvalid (''unsupported canonical direction: '' @ repr_str dir))
       | Some d \<Rightarrow> Inr d) (\<lambda>d.
     andthen (require_int (get ms ''direction_sequence'') ''timeline.direction_sequence'' 0 max_int64) (\<lambda>dseq.
     andthen (ensure (dseq = tl_sequences s d) ''canonical direction sequence is not contiguous'') (\<lambda>_.
       Inr (ms, h, seq, observed, d, dseq))))))))))))))))))"

definition event_slice ::
    "(bytes \<Rightarrow> digest) \<Rightarrow> job_view \<Rightarrow> nat \<Rightarrow> timeline_state \<Rightarrow> metadata \<Rightarrow> direction
     \<Rightarrow> ingest_error + string \<times> int \<times> int \<times> string" where
  "event_slice sha256 jv n s ms d = (let number = show_int (int n) in
     andthen (require_string (get ms ''kind'') ''timeline.kind'' 16) (\<lambda>k.
     andthen (ensure (k = ''data'' \<or> k = ''eof'') (''unsupported canonical event kind: '' @ repr_str k)) (\<lambda>_.
     andthen (require_int (get ms ''offset'') ''timeline.offset'' 0 max_int64) (\<lambda>off.
     andthen (require_int (get ms ''length'') ''timeline.length'' 0 max_int64) (\<lambda>len.
     andthen (ensure (off = tl_offsets s d) ''canonical timeline has a directional gap or overlap'') (\<lambda>_.
     andthen (ensure (off + len \<le> int (length (jv_streams jv d)))
       ''canonical timeline addresses bytes outside directional RAW'') (\<lambda>_.
     andthen (ensure (\<not> (k = ''eof'' \<and> len \<noteq> 0)) ''canonical EOF event carries bytes'') (\<lambda>_.
     andthen (ensure (\<not> (k = ''data'' \<and> len < 1)) ''canonical data event is empty'') (\<lambda>_.
     andthen (require_sha256 (get ms ''payload_sha256'') (''timeline['' @ number @ ''].payload_sha256'')) (\<lambda>ph.
     andthen (ensure (sha256_text sha256 (slice off len (jv_streams jv d)) = ph)
       (''payload hash mismatch at timeline line '' @ number)) (\<lambda>_.
       Inr (k, off, len, ph))))))))))))"

definition parse_event ::
    "(bytes \<Rightarrow> digest) \<Rightarrow> (bytes \<Rightarrow> string + jval) \<Rightarrow> iso_reader \<Rightarrow> job_view \<Rightarrow> nat \<Rightarrow> bytes \<Rightarrow> timeline_state
     \<Rightarrow> ingest_error + timeline_state" where
  "parse_event sha256 loads read_iso jv n line s =
     andthen (event_header sha256 loads jv n line s) (\<lambda>(ms, h, seq, observed, d, dseq).
     andthen (event_slice sha256 jv n s ms d) (\<lambda>(k, off, len, ph).
     andthen (chunk_of_fields read_iso ms d seq observed dseq k off len ph) (\<lambda>c.
       Inr (advance d k len h observed c s))))"

fun parse_events ::
    "(bytes \<Rightarrow> digest) \<Rightarrow> (bytes \<Rightarrow> string + jval) \<Rightarrow> iso_reader \<Rightarrow> job_view \<Rightarrow> nat \<Rightarrow> bytes list \<Rightarrow> timeline_state
     \<Rightarrow> ingest_error + timeline_state" where
  "parse_events sha256 loads read_iso jv n [] s = Inr s"
| "parse_events sha256 loads read_iso jv n (l # ls) s =
     andthen (parse_event sha256 loads read_iso jv n l s) (parse_events sha256 loads read_iso jv (n + 1) ls)"

definition same_totals :: "(direction \<Rightarrow> int) \<Rightarrow> (direction \<Rightarrow> int) \<Rightarrow> bool" where
  "same_totals f g = (f ClientToDevice = g ClientToDevice \<and> f DeviceToClient = g DeviceToClient)"

text \<open>The totals of the manifest, at the end of \<^verbatim>\<open>_parse_timeline\<close>.\<close>

definition check_totals :: "bool \<Rightarrow> (direction \<Rightarrow> bytes) \<Rightarrow> metadata \<Rightarrow> timeline_state \<Rightarrow> ingest_error + unit" where
  "check_totals allow_trailing streams m s =
     andthen (require_int (get m ''timeline_events'') ''manifest.timeline_events'' 0 (int max_timeline_events)) (\<lambda>expected.
     andthen (ensure (int (length (tl_chunks s)) = expected) ''canonical timeline event count differs from manifest'') (\<lambda>_.
     andthen (ensure (get m ''last_event_sha256'' = opt_str (tl_previous s)) ''canonical timeline head differs from manifest'') (\<lambda>_.
     andthen (string_int_map (get m ''captured_bytes'') ''manifest.captured_bytes'') (\<lambda>captured.
     andthen (ensure (same_totals captured (\<lambda>d. int (length (streams d)))) ''captured byte totals differ from directional RAW files'') (\<lambda>_.
     andthen (if same_totals (tl_offsets s) captured then Inr ()
       else if \<not> allow_trailing then Inl (SourceInvalid ''captured byte totals differ from canonical timeline'')
       else andthen (string_int_map (get m ''timeline_covered_bytes'') ''manifest.timeline_covered_bytes'') (\<lambda>covered.
         ensure (same_totals (tl_offsets s) covered \<and> list_all (\<lambda>d. tl_offsets s d \<le> captured d) [ClientToDevice, DeviceToClient])
           ''partial recovery timeline coverage differs from its manifest'')) (\<lambda>_.
     andthen (string_int_map (get m ''captured_chunks'') ''manifest.captured_chunks'') (\<lambda>chunks.
     andthen (ensure (same_totals (tl_data s) chunks) ''captured chunk totals differ from canonical timeline'') (\<lambda>_.
     andthen (string_int_map (get m ''eof_events'') ''manifest.eof_events'') (\<lambda>eofs.
     andthen (ensure (same_totals (tl_eof s) eofs) ''EOF totals differ from canonical timeline'') (\<lambda>_.
       ensure (\<not> (get m ''status'' = JStr ''COMPLETE'' \<and> set (tl_observed s) \<noteq> set (map int [0..<length (tl_chunks s)])))
         ''complete canonical timeline observed sequence is not contiguous from zero''))))))))))"

definition parse_timeline ::
    "(bytes \<Rightarrow> digest) \<Rightarrow> (bytes \<Rightarrow> string + jval) \<Rightarrow> iso_reader \<Rightarrow> job_view \<Rightarrow> bool \<Rightarrow> metadata \<Rightarrow> bytes
     \<Rightarrow> ingest_error + stream_chunk list" where
  "parse_timeline sha256 loads read_iso jv allow_trailing m raw =
     andthen (ensure (raw = [] \<or> last raw = newline) ''canonical timeline has a truncated final record'') (\<lambda>_.
     andthen (ensure (length (byte_lines False [] raw) \<le> max_timeline_events) ''canonical timeline exceeds the event limit'') (\<lambda>_.
     andthen (parse_events sha256 loads read_iso jv 1 (byte_lines False [] raw) new_timeline) (\<lambda>s.
     andthen (check_totals allow_trailing (jv_streams jv) m s) (\<lambda>_. Inr (tl_chunks s)))))"

section \<open>When validation succeeds\<close>

named_theorems ingest_simps \<open>what a successful check of the ingestion says\<close>

lemma andthen_ok [ingest_simps]: "andthen x f = Inr y \<longleftrightarrow> (\<exists>a. x = Inr a \<and> f a = Inr y)"
  by (auto simp: andthen_def split: sum.split)

lemma ensure_ok [ingest_simps]: "ensure b t = Inr u \<longleftrightarrow> b"
  by (simp add: ensure_def)

lemma require_string_ok [ingest_simps]:
  "require_string v label maximum = Inr s \<longleftrightarrow> v = JStr s \<and> s \<noteq> [] \<and> length s \<le> maximum"
  by (auto simp: require_string_def split: jval.split)

lemma require_optional_string_ok [ingest_simps]:
  "require_optional_string v label maximum = Inr s \<longleftrightarrow>
    (v = JNull \<and> s = None \<or> (\<exists>t. v = JStr t \<and> s = Some t \<and> t \<noteq> [] \<and> length t \<le> maximum))"
  by (auto simp: require_optional_string_def ingest_simps)

lemma require_int_ok [ingest_simps]:
  "require_int v label minimum maximum = Inr i \<longleftrightarrow> v = JInt i \<and> minimum \<le> i \<and> i \<le> maximum"
  by (auto simp: require_int_def split: jval.split)

lemma require_bool_ok [ingest_simps]: "require_bool v label = Inr b \<longleftrightarrow> v = JBool b"
  by (auto simp: require_bool_def split: jval.split)

lemma require_sha256_ok [ingest_simps]: "require_sha256 v label = Inr s \<longleftrightarrow> v = JStr s \<and> is_sha256_text s"
  by (auto simp: require_sha256_def split: jval.split)

lemma require_uuid_ok [ingest_simps]:
  "require_uuid v label = Inr s \<longleftrightarrow> v = JStr s \<and> s \<noteq> [] \<and> length s \<le> 64 \<and> is_uuid_text s"
  by (auto simp: require_uuid_def ingest_simps)

lemma require_mapping_ok [ingest_simps]: "require_mapping v label = Inr ms \<longleftrightarrow> v = JObj ms"
  by (auto simp: require_mapping_def split: jval.split)

lemma instant_ok:
  "(case read_iso t of None \<Rightarrow> Inl e | Some (aware, x) \<Rightarrow> if aware then Inr x else Inl e') = Inr y \<longleftrightarrow> read_iso t = Some (True, y)"
  by (auto split: option.split prod.split if_splits)

lemma parse_datetime_ok [ingest_simps]:
  "parse_datetime read_iso v label = Inr x \<longleftrightarrow>
    (\<exists>t. v = JStr t \<and> t \<noteq> [] \<and> length t \<le> 64 \<and> read_iso (zulu t) = Some (True, x))"
  unfolding parse_datetime_def andthen_ok require_string_ok instant_ok by blast

lemma loaded_ok [ingest_simps]: "(case x of Inl t \<Rightarrow> Inl (e t) | Inr v \<Rightarrow> f v) = Inr y \<longleftrightarrow> (\<exists>v. x = Inr v \<and> f v = Inr y)"
  by (auto split: sum.split)

lemma found_ok [ingest_simps]: "(case x of None \<Rightarrow> Inl e | Some v \<Rightarrow> Inr v) = Inr y \<longleftrightarrow> x = Some y"
  by (auto split: option.split)

lemma string_int_map_ok [ingest_simps]:
  "string_int_map v label = Inr f \<longleftrightarrow> (\<exists>ms a b. v = JObj ms \<and> get ms ''client_to_device'' = JInt a \<and> 0 \<le> a \<and> a \<le> max_int64 \<and>
    get ms ''device_to_client'' = JInt b \<and> 0 \<le> b \<and> b \<le> max_int64 \<and> f = (\<lambda>d. if d = ClientToDevice then a else b))"
  by (auto simp: string_int_map_def ingest_simps)

text \<open>What an accepted line says of its chunk.\<close>

definition chunk_ok :: "(bytes \<Rightarrow> digest) \<Rightarrow> job_view \<Rightarrow> timeline_state \<Rightarrow> stream_chunk \<Rightarrow> bool" where
  "chunk_ok sha256 jv s c \<longleftrightarrow> (let d = sc_direction c; off = sc_job_offset c; len = sc_byte_count c in
     sc_sequence c = int (length (tl_chunks s)) \<and> off = tl_offsets s d \<and> 0 \<le> len \<and> off + len \<le> int (length (jv_streams jv d)) \<and>
     (sc_kind c = ''data'' \<and> 1 \<le> len \<or> sc_kind c = ''eof'' \<and> len = 0) \<and>
     sc_sha256 c = sha256_text sha256 (slice off len (jv_streams jv d)) \<and>
     (\<exists>n. sc_observed c = Some n \<and> 0 \<le> n \<and> n \<notin> set (tl_observed s)))"

lemma chunk_of_fields_ok:
  "chunk_of_fields read_iso ms d seq observed dseq k off len h = Inr c \<Longrightarrow>
    sc_sequence c = seq \<and> sc_direction c = d \<and> sc_job_offset c = off \<and> sc_byte_count c = len \<and> sc_sha256 c = h \<and>
    sc_observed c = Some observed \<and> sc_kind c = k"
  unfolding chunk_of_fields_def ingest_simps sum.inject by (elim exE conjE, hypsubst) (simp (no_asm))

lemma event_header_ok:
  "event_header sha256 loads jv n line s = Inr (ms, h, seq, observed, d, dseq) \<Longrightarrow>
    seq = int (length (tl_chunks s)) \<and> 0 \<le> observed \<and> observed \<notin> set (tl_observed s)"
  unfolding event_header_def Let_def ingest_simps prod.inject sum.inject
  by (elim exE conjE, hypsubst) (intro conjI, (assumption | rule refl)+)

lemma event_slice_ok:
  "event_slice sha256 jv n s ms d = Inr (k, off, len, ph) \<Longrightarrow>
    (k = ''data'' \<or> k = ''eof'') \<and> 0 \<le> len \<and> off = tl_offsets s d \<and> off + len \<le> int (length (jv_streams jv d)) \<and>
    \<not> (k = ''eof'' \<and> len \<noteq> 0) \<and> \<not> (k = ''data'' \<and> len < 1) \<and> sha256_text sha256 (slice off len (jv_streams jv d)) = ph"
  unfolding event_slice_def Let_def ingest_simps prod.inject sum.inject
  by (elim exE conjE, hypsubst) (intro conjI, (assumption | rule refl)+)

lemma parse_event_ok:
  assumes "parse_event sha256 loads read_iso jv n line s = Inr s'"
  shows "\<exists>c h. chunk_ok sha256 jv s c \<and> s' = advance (sc_direction c) (sc_kind c) (sc_byte_count c) h (the (sc_observed c)) c s"
proof -
  from assms obtain ms h seq observed d dseq k off len ph c where
    header: "event_header sha256 loads jv n line s = Inr (ms, h, seq, observed, d, dseq)"
    and slice: "event_slice sha256 jv n s ms d = Inr (k, off, len, ph)"
    and c: "chunk_of_fields read_iso ms d seq observed dseq k off len ph = Inr c" and s': "advance d k len h observed c s = s'"
    by (simp only: parse_event_def andthen_ok split_paired_Ex prod.case sum.inject) blast
  note fields = chunk_of_fields_ok [OF c]
  have "chunk_ok sha256 jv s c"
    using event_header_ok [OF header] event_slice_ok [OF slice] fields by (auto simp: chunk_ok_def Let_def)
  moreover have "s' = advance (sc_direction c) (sc_kind c) (sc_byte_count c) h (the (sc_observed c)) c s"
    using s' fields by simp
  ultimately show ?thesis by blast
qed

section \<open>The chunks tile the raw files\<close>

definition data_chunks :: "direction \<Rightarrow> stream_chunk list \<Rightarrow> stream_chunk list" where
  "data_chunks d cs = filter (\<lambda>c. sc_direction c = d \<and> sc_kind c = ''data'') cs"

definition chunk_bytes :: "(direction \<Rightarrow> bytes) \<Rightarrow> stream_chunk \<Rightarrow> bytes" where
  "chunk_bytes streams c = slice (sc_job_offset c) (sc_byte_count c) (streams (sc_direction c))"

text \<open>The state of the parser after some lines: what it has covered of each file is what its chunks say.\<close>

definition tiled :: "(bytes \<Rightarrow> digest) \<Rightarrow> job_view \<Rightarrow> timeline_state \<Rightarrow> bool" where
  "tiled sha256 jv s \<longleftrightarrow> (\<forall>d. 0 \<le> tl_offsets s d \<and> tl_offsets s d \<le> int (length (jv_streams jv d)) \<and>
       concat (map (chunk_bytes (jv_streams jv)) (data_chunks d (tl_chunks s))) = take (nat (tl_offsets s d)) (jv_streams jv d)) \<and>
     map sc_sequence (tl_chunks s) = map int [0..<length (tl_chunks s)] \<and>
     map sc_observed (tl_chunks s) = map Some (rev (tl_observed s)) \<and> distinct (tl_observed s) \<and>
     list_all (\<lambda>c. sc_sha256 c = sha256_text sha256 (chunk_bytes (jv_streams jv) c)) (tl_chunks s)"

lemma tiled_new: "tiled sha256 jv new_timeline"
  by (simp add: tiled_def new_timeline_def data_chunks_def)

lemma tiled_step:
  assumes old: "tiled sha256 jv s" and c: "chunk_ok sha256 jv s c"
  shows "tiled sha256 jv (advance (sc_direction c) (sc_kind c) (sc_byte_count c) h (the (sc_observed c)) c s)" (is "tiled _ _ ?s")
proof -
  let ?d = "sc_direction c"
  from c obtain m where facts: "sc_sequence c = int (length (tl_chunks s))" "sc_job_offset c = tl_offsets s ?d" "0 \<le> sc_byte_count c"
    "tl_offsets s ?d + sc_byte_count c \<le> int (length (jv_streams jv ?d))" "sc_kind c = ''data'' \<or> sc_kind c = ''eof'' \<and> sc_byte_count c = 0"
    "sc_sha256 c = sha256_text sha256 (chunk_bytes (jv_streams jv) c)" "sc_observed c = Some m" "m \<notin> set (tl_observed s)"
    by (auto simp: chunk_ok_def chunk_bytes_def Let_def)
  have "0 \<le> tl_offsets ?s d \<and> tl_offsets ?s d \<le> int (length (jv_streams jv d)) \<and>
      concat (map (chunk_bytes (jv_streams jv)) (data_chunks d (tl_chunks ?s))) = take (nat (tl_offsets ?s d)) (jv_streams jv d)" for d
  proof (cases "d = ?d \<and> sc_kind c = ''data''")
    case True
    have off: "0 \<le> tl_offsets s ?d" using old by (simp add: tiled_def)
    then have "take (nat (tl_offsets s ?d)) (jv_streams jv ?d) @ chunk_bytes (jv_streams jv) c =
        take (nat (tl_offsets s ?d + sc_byte_count c)) (jv_streams jv ?d)"
      using facts(2,3) by (simp add: chunk_bytes_def slice_def nat_add_distrib take_add)
    with True off old facts show ?thesis by (auto simp: advance_def tiled_def data_chunks_def bump_def)
  next
    case False
    then have "tl_offsets ?s d = tl_offsets s d" "data_chunks d (tl_chunks ?s) = data_chunks d (tl_chunks s)"
      by (auto simp: advance_def data_chunks_def bump_def)
    with old show ?thesis by (simp add: tiled_def)
  qed
  moreover have "map sc_sequence (tl_chunks ?s) = map int [0..<length (tl_chunks ?s)]"
    "map sc_observed (tl_chunks ?s) = map Some (rev (tl_observed ?s))" "distinct (tl_observed ?s)"
    "list_all (\<lambda>c. sc_sha256 c = sha256_text sha256 (chunk_bytes (jv_streams jv) c)) (tl_chunks ?s)"
    using old facts by (simp_all add: tiled_def advance_def)
  ultimately show ?thesis unfolding tiled_def by blast
qed

lemma parse_events_tiled:
  "parse_events sha256 loads read_iso jv n ls s = Inr s' \<Longrightarrow> tiled sha256 jv s \<Longrightarrow> tiled sha256 jv s'"
proof (induction ls arbitrary: n s)
  case (Cons l ls)
  then obtain s1 where "parse_event sha256 loads read_iso jv n l s = Inr s1" "parse_events sha256 loads read_iso jv (n + 1) ls s1 = Inr s'"
    by (auto simp: ingest_simps)
  moreover from parse_event_ok [OF this(1)] have "tiled sha256 jv s1" using tiled_step [OF Cons.prems(2)] by auto
  ultimately show ?case using Cons.IH by blast
qed simp

lemma check_totals_ok:
  assumes "check_totals allow streams m s = Inr u" and "\<not> allow"
  shows "same_totals (tl_offsets s) (\<lambda>d. int (length (streams d)))"
  using assms by (auto simp: check_totals_def ingest_simps same_totals_def split: if_splits)

text \<open>
  C8: nothing enters the database that the raw files do not say. Whatever timeline and manifest lie in a job
  directory: if the ingestion accepts them, the chunks are numbered from zero without gaps, their observation
  numbers differ, the digest of each is that of its slice of the raw file, and the data chunks of a direction,
  put one after another, are an initial part of its raw file: all of it, unless the job is a remnant of a crash.
\<close>

theorem ingested_chunks_tile_raw:
  assumes "parse_timeline sha256 loads read_iso jv allow m raw = Inr cs"
  shows "map sc_sequence cs = map int [0..<length cs] \<and> distinct (map sc_observed cs) \<and>
    list_all (\<lambda>c. sc_sha256 c = sha256_text sha256 (chunk_bytes (jv_streams jv) c)) cs \<and>
    prefix (concat (map (chunk_bytes (jv_streams jv)) (data_chunks d cs))) (jv_streams jv d) \<and>
    (\<not> allow \<longrightarrow> concat (map (chunk_bytes (jv_streams jv)) (data_chunks d cs)) = jv_streams jv d)"
proof -
  from assms obtain s where s: "parse_events sha256 loads read_iso jv 1 (byte_lines False [] raw) new_timeline = Inr s"
    "check_totals allow (jv_streams jv) m s = Inr ()" "cs = tl_chunks s"
    by (auto simp: parse_timeline_def ingest_simps)
  note tiled = parse_events_tiled [OF s(1) tiled_new, unfolded tiled_def]
  have "distinct (map sc_observed cs)" using tiled by (simp add: s(3) distinct_map)
  moreover have "concat (map (chunk_bytes (jv_streams jv)) (data_chunks d cs)) = take (nat (tl_offsets s d)) (jv_streams jv d)"
    using tiled by (simp add: s(3))
  moreover have "\<not> allow \<longrightarrow> tl_offsets s d = int (length (jv_streams jv d))"
    using check_totals_ok [OF s(2)] by (cases d) (auto simp: same_totals_def)
  ultimately show ?thesis using tiled by (auto simp: s(3) take_is_prefix)
qed

end
