(* ===== verification/IngestSpool.thy ===== *)
theory IngestSpool imports Ingest begin

text \<open>
  What the capture publishes and what the ingestion accepts: the spool of \<^verbatim>\<open>proxy/spool.py\<close> and the reader
  of \<^verbatim>\<open>ingestion/canonical.py\<close> are two programs that share a directory. A timeline written by the first is read
  back by the second, event by event; a timeline whose last line was torn by a full disk is refused.
\<close>

section \<open>The lines of a timeline\<close>

lemma byte_lines_word: "10 \<notin> set l \<Longrightarrow> 13 \<notin> set l \<Longrightarrow> byte_lines False w (l @ 10 # r) = (w @ l) # byte_lines False [] r"
  by (induction l arbitrary: w) auto

lemma byte_lines_append:
  "c \<noteq> [] \<Longrightarrow> last c = 10 \<Longrightarrow> (cr \<Longrightarrow> w = []) \<Longrightarrow> byte_lines cr w (c @ r) = byte_lines cr w c @ byte_lines False [] r"
  by (induction c arbitrary: cr w) (auto split: if_splits)

lemma byte_lines_line:
  assumes "c = [] \<or> last c = newline" and "10 \<notin> set l" and "13 \<notin> set l"
  shows "byte_lines False [] (c @ l @ [newline]) = byte_lines False [] c @ [l]"
  using byte_lines_append [of c False "[]" "l @ [newline]"] byte_lines_word [OF assms(2,3), of "[]" "[]"] assms(1)
  by (cases "c = []") (auto simp: newline_def)

lemma utf8_char_control: "32 \<le> code c \<Longrightarrow> b \<in> set (utf8_char c) \<Longrightarrow> 32 \<le> unat b"
  using utf8_char_cases [of c] code_less [of c] by (auto simp: unat_byte simp del: of_nat_add)

lemma canonical_json_control: "b \<in> set (canonical_json v) \<Longrightarrow> 32 \<le> unat b"
  using json_text_printable(1) utf8_char_control by (auto simp: canonical_json_def utf8_def)

lemma canonical_json_lines: "10 \<notin> set (canonical_json v)" "13 \<notin> set (canonical_json v)"
  using canonical_json_control [of 10 v] canonical_json_control [of 13 v] by auto

lemma canonical_json_nonempty: "canonical_json (JObj ms) \<noteq> []"
  by (simp add: canonical_json_def utf8_def utf8_char_nonempty)

section \<open>What the ingestion makes of an event\<close>

text \<open>What the ingestion asks of an event beyond what \<^verbatim>\<open>append\<close> checks.\<close>

definition readable_time :: "iso_reader \<Rightarrow> string \<Rightarrow> bool" where
  "readable_time read_iso t \<longleftrightarrow> t \<noteq> [] \<and> length t \<le> 64 \<and> (case read_iso (zulu t) of Some (True, x) \<Rightarrow> True | _ \<Rightarrow> False)"

definition instant :: "iso_reader \<Rightarrow> string \<Rightarrow> timestamp" where
  "instant read_iso t = snd (the (read_iso (zulu t)))"

definition ingestible :: "iso_reader \<Rightarrow> capture_event \<Rightarrow> bool" where
  "ingestible read_iso e \<longleftrightarrow> (kind e = ''data'' \<longrightarrow> ev_payload e \<noteq> []) \<and>
     0 \<le> observed_sequence e \<and> observed_sequence e \<le> max_int64 \<and>
     0 \<le> captured_monotonic_ns e \<and> captured_monotonic_ns e \<le> max_int64 \<and>
     readable_time read_iso (captured_at_utc e) \<and> readable_time read_iso (forwarded_at_utc e) \<and>
     (case forward_error e of None \<Rightarrow> True | Some t \<Rightarrow> t \<noteq> [] \<and> length t \<le> 4096)"

text \<open>The chunk that stands for an event.\<close>

definition chunk_of_event :: "(bytes \<Rightarrow> digest) \<Rightarrow> iso_reader \<Rightarrow> capture_event \<Rightarrow> stream_chunk" where
  "chunk_of_event sha256 read_iso e =
     \<lparr>sc_sequence = ev_sequence e, sc_direction = ev_direction e, sc_received_at = instant read_iso (captured_at_utc e),
      sc_received_unix_ns = None, sc_forwarded_unix_ns = None, sc_drain_unix_ns = None,
      sc_monotonic_ns = Some (captured_monotonic_ns e), sc_job_offset = ev_offset e, sc_session_offset = ev_offset e,
      sc_byte_count = int (length (ev_payload e)), sc_sha256 = sha256_text sha256 (ev_payload e),
      sc_drain_completed = Some (forwarded e), sc_forward_status = Some (if forwarded e then ''FORWARDED'' else ''FAILED''),
      sc_error = forward_error e, sc_observed = Some (observed_sequence e), sc_direction_sequence = Some (direction_sequence e),
      sc_kind = kind e, sc_forwarded_at = Some (instant read_iso (forwarded_at_utc e))\<rparr>"

text \<open>The state the reader reaches on the timeline of a spool that took the events \<open>es\<close>.\<close>

definition read_back :: "(bytes \<Rightarrow> digest) \<Rightarrow> iso_reader \<Rightarrow> capture_event list \<Rightarrow> spool \<Rightarrow> timeline_state" where
  "read_back sha256 read_iso es s = \<lparr>tl_offsets = captured_bytes s, tl_sequences = next_direction_sequence s,
     tl_data = captured_chunks s, tl_eof = eof_events s, tl_previous = previous_event_sha256 s,
     tl_observed = rev (map observed_sequence es), tl_chunks = map (chunk_of_event sha256 read_iso) es\<rparr>"

text \<open>
  The law of \<^verbatim>\<open>parse_json_bytes\<close> the reader relies on: it reads an object back from its canonical text, with the
  members in the order of the text, where no key occurs twice (the hook \<^verbatim>\<open>_unique_object\<close> refuses those), no member is
  a list or an object and the integers are natural numbers of 63 bits.
\<close>

definition plain_object :: "metadata \<Rightarrow> bool" where
  "plain_object ms \<longleftrightarrow> distinct (map fst ms) \<and> list_all (\<lambda>m. scalar (snd m) \<and>
     (case snd m of JInt i \<Rightarrow> 0 \<le> i \<and> i \<le> max_int64 | _ \<Rightarrow> True)) ms"

definition reads_objects :: "(bytes \<Rightarrow> string + jval) \<Rightarrow> bool" where
  "reads_objects loads \<longleftrightarrow> (\<forall>ms. plain_object ms \<longrightarrow> loads (canonical_json (JObj ms)) = Inr (sort_keys (JObj ms)))"

section \<open>Reading one line back\<close>

lemma andthen_Inr [simp]: "andthen (Inr a) f = f a"
  by (simp add: andthen_def)

lemma andthen_Inl [simp]: "andthen (Inl e) f = Inl e"
  by (simp add: andthen_def)

lemma ensure_simps [simp]: "ensure True t = Inr ()" "ensure False t = Inl (SourceInvalid t)"
  by (simp_all add: ensure_def)

lemma require_simps:
  "s \<noteq> [] \<Longrightarrow> length s \<le> maximum \<Longrightarrow> require_string (JStr s) label maximum = Inr s"
  "minimum \<le> i \<Longrightarrow> i \<le> limit \<Longrightarrow> require_int (JInt i) label minimum limit = Inr i"
  "require_bool (JBool b) label = Inr b" "require_mapping (JObj ms) label = Inr ms"
  by (simp_all add: require_string_def require_int_def require_bool_def require_mapping_def)

lemma require_digest: "require_sha256 (JStr (sha256_text sha256 b)) label = Inr (sha256_text sha256 b)"
proof -
  have "list_all is_hex_lower (sha256_text sha256 b)"
    using hexdigest_ok(2) [of "sha256 b"] by (simp add: sha256_text_def list_all_iff list_ex_iff)
  then show ?thesis by (simp add: require_sha256_def is_sha256_text_def) (simp add: sha256_text_def)
qed

lemma require_time: "readable_time read_iso t \<Longrightarrow> parse_datetime read_iso (JStr t) label = Inr (instant read_iso t)"
  by (auto simp: readable_time_def parse_datetime_def require_simps instant_def split: option.splits bool.splits)

lemma require_forward_error:
  "(case v of None \<Rightarrow> True | Some t \<Rightarrow> t \<noteq> [] \<and> length t \<le> 4096) \<Longrightarrow>
    require_optional_string (opt_str v) label 4096 = Inr v"
  by (cases v) (simp_all add: require_optional_string_def opt_str_def require_simps)

section \<open>The round trip\<close>

definition full_entry :: "(bytes \<Rightarrow> digest) \<Rightarrow> spool \<Rightarrow> capture_event \<Rightarrow> metadata" where
  "full_entry sha256 s e = event_body sha256 s e @ [(''event_sha256'', JStr (event_digest sha256 s e))]"

lemma full_entry_sorted: "sort_keys (JObj (full_entry sha256 s e)) = JObj (sort_key fst (full_entry sha256 s e))"
  using event_body_scalar by (intro sort_scalar_object) (simp add: full_entry_def)

lemma full_entry_body:
  "canonical_json (JObj (without ''event_sha256'' (sort_key fst (full_entry sha256 s e)))) = canonical_json (JObj (event_body sha256 s e))"
proof -
  have "without ''event_sha256'' (full_entry sha256 s e) = event_body sha256 s e"
    by (simp add: full_entry_def without_def event_body_def)
  then have "without ''event_sha256'' (sort_key fst (full_entry sha256 s e)) = sort_key fst (event_body sha256 s e)"
    by (simp only: without_def filter_sort)
  then show ?thesis by (simp only: canonical_sorted_body)
qed

lemma full_entry_fields:
  "get (full_entry sha256 s e) ''event_sha256'' = JStr (event_digest sha256 s e)"
  "get (full_entry sha256 s e) ''previous_event_sha256'' = opt_str (previous_event_sha256 s)"
  "get (full_entry sha256 s e) ''schema_version'' = JInt schema_version"
  "get (full_entry sha256 s e) ''session_id'' = JStr (session_id (descriptor s))"
  "get (full_entry sha256 s e) ''job_id'' = JStr (job_id (descriptor s))"
  "get (full_entry sha256 s e) ''device_id'' = JStr (device_id (descriptor s))"
  "get (full_entry sha256 s e) ''sequence'' = JInt (ev_sequence e)"
  "get (full_entry sha256 s e) ''observed_sequence'' = JInt (observed_sequence e)"
  "get (full_entry sha256 s e) ''direction'' = JStr (direction_value (ev_direction e))"
  "get (full_entry sha256 s e) ''direction_sequence'' = JInt (direction_sequence e)"
  "get (full_entry sha256 s e) ''kind'' = JStr (kind e)"
  "get (full_entry sha256 s e) ''offset'' = JInt (ev_offset e)"
  "get (full_entry sha256 s e) ''length'' = JInt (int (length (ev_payload e)))"
  "get (full_entry sha256 s e) ''payload_sha256'' = JStr (sha256_text sha256 (ev_payload e))"
  "get (full_entry sha256 s e) ''forwarded'' = JBool (forwarded e)"
  "get (full_entry sha256 s e) ''forwarded_at_utc'' = JStr (forwarded_at_utc e)"
  "get (full_entry sha256 s e) ''forward_error'' = opt_str (forward_error e)"
  "get (full_entry sha256 s e) ''captured_at_utc'' = JStr (captured_at_utc e)"
  "get (full_entry sha256 s e) ''captured_monotonic_ns'' = JInt (captured_monotonic_ns e)"
  by (simp_all add: get_def full_entry_def event_body_def)

text \<open>
  The job the reader looks at: the identity of the session, and raw files that begin with what the spool holds
  and are not longer than an integer of the reader.
\<close>

definition views :: "session_descriptor \<Rightarrow> spool \<Rightarrow> job_view \<Rightarrow> bool" where
  "views desc s jv \<longleftrightarrow> jv_session jv = session_id desc \<and> jv_job jv = job_id desc \<and> jv_device jv = device_id desc \<and>
     (\<forall>d. prefix (raw_files s d) (jv_streams jv d) \<and> int (length (jv_streams jv d)) \<le> max_int64)"

lemma event_facts:
  assumes "holds desc es s" and "append_error s e = None"
  shows "ev_sequence e = int (length es)" "ev_offset e = captured_bytes s (ev_direction e)"
    "direction_sequence e = next_direction_sequence s (ev_direction e)"
    "0 \<le> captured_bytes s d" "0 \<le> next_direction_sequence s d" "next_direction_sequence s d \<le> int (length es)"
    "captured_bytes s d = int (length (raw_files s d))"
  using assms by (auto simp: append_error_def holds_def Let_def split: if_splits)

lemma slice_payload:
  assumes "prefix (r @ p) b" shows "slice (int (length r)) (int (length p)) b = p"
  using assms by (auto simp: slice_def prefix_def)

lemma event_header_appended:
  assumes loads: "loads (canonical_json (JObj (full_entry sha256 s e))) = Inr (sort_keys (JObj (full_entry sha256 s e)))"
    and h: "holds desc es s" and ok: "append_error s e = None" and jv: "views desc s' jv"
    and e: "ingestible read_iso e" "observed_sequence e \<notin> set (map observed_sequence es)"
    and line: "length (canonical_json (JObj (full_entry sha256 s e))) \<le> max_line_bytes" and few: "length es < max_timeline_events"
  shows "event_header sha256 loads jv n (canonical_json (JObj (full_entry sha256 s e))) (read_back sha256 read_iso es s) =
    Inr (sort_key fst (full_entry sha256 s e), event_digest sha256 s e, ev_sequence e, observed_sequence e, ev_direction e,
      direction_sequence e)"
proof -
  have loads: "loads (canonical_json (JObj (full_entry sha256 s e))) = Inr (JObj (sort_key fst (full_entry sha256 s e)))"
    using loads by (simp only: full_entry_sorted)
  have dir: "direction_value (ev_direction e) \<noteq> []" "length (direction_value (ev_direction e)) \<le> 32"
    by (simp_all add: direction_value_def split: direction.split)
  have desc: "descriptor s = desc" using h by (simp add: holds_def)
  have bounds: "ev_sequence e \<le> max_int64" "direction_sequence e \<le> max_int64"
    using event_facts(1,3) [OF h ok] event_facts(6) [OF h ok, of "ev_direction e"] few
    by (simp_all add: max_timeline_events_def max_int64_def)
  have digest: "sha256_text sha256 (canonical_json (JObj (event_body sha256 s e))) = event_digest sha256 s e"
    "require_sha256 (JStr (event_digest sha256 s e)) label = Inr (event_digest sha256 s e)" for label
    by (simp_all only: event_digest_def require_digest)
  have who: "jv_session jv = session_id (descriptor s)" "jv_job jv = job_id (descriptor s)" "jv_device jv = device_id (descriptor s)"
    using jv desc by (simp_all add: views_def)
  have observed: "0 \<le> observed_sequence e" "observed_sequence e \<le> max_int64" using e(1) by (simp_all add: ingestible_def)
  have low: "0 \<le> ev_sequence e" "0 \<le> direction_sequence e"
    using event_facts(1,3) [OF h ok] event_facts(5) [OF h ok, of "ev_direction e"] by simp_all
  have one: "require_int (JInt schema_version) ''timeline.schema_version'' 1 max_int64 = Inr 1"
    by (simp add: require_int_def schema_version_def max_int64_def)
  have state: "tl_previous (read_back sha256 read_iso es s) = previous_event_sha256 s"
    "int (length (tl_chunks (read_back sha256 read_iso es s))) = ev_sequence e"
    "set (tl_observed (read_back sha256 read_iso es s)) = set (map observed_sequence es)"
    "tl_sequences (read_back sha256 read_iso es s) (ev_direction e) = direction_sequence e"
    using event_facts(1,3) [OF h ok] by (simp_all add: read_back_def)
  note checks = loads digest full_entry_body full_entry_fields who one state require_simps(4) require_simps(1) [OF dir]
    require_simps(2) [OF low(1) bounds(1)] require_simps(2) [OF low(2) bounds(2)] require_simps(2) [OF observed]
  show ?thesis
    using e(2) line unfolding event_header_def Let_def
    by (simp only: checks get_sort sum.case andthen_Inr ensure_simps direction_of_value option.case canonical_json_nonempty
        not_False_eq_True simp_thms if_True)
qed

lemma event_slice_appended:
  assumes h: "holds desc es s" and ok: "append_error s e = None" and e: "ingestible read_iso e"
    and jv: "views desc (write_raw (ev_direction e) (ev_payload e) s) jv"
  shows "event_slice sha256 jv n (read_back sha256 read_iso es s) (sort_key fst (full_entry sha256 s e)) (ev_direction e) =
    Inr (kind e, ev_offset e, int (length (ev_payload e)), sha256_text sha256 (ev_payload e))"
proof -
  let ?d = "ev_direction e"
  note off = event_facts(2) [OF h ok] event_facts(7) [OF h ok, of ?d]
  have pre: "prefix (raw_files s ?d @ ev_payload e) (jv_streams jv ?d)" and top: "int (length (jv_streams jv ?d)) \<le> max_int64"
    using jv by (auto simp: views_def write_raw_def dest: spec [of _ ?d])
  have ends: "captured_bytes s ?d + int (length (ev_payload e)) \<le> int (length (jv_streams jv ?d))"
    using prefix_length_le [OF pre] off by simp
  have cut: "slice (ev_offset e) (int (length (ev_payload e))) (jv_streams jv ?d) = ev_payload e"
    using slice_payload [OF pre] off by simp
  have "kind e = ''data'' \<and> ev_payload e \<noteq> [] \<or> kind e = ''eof'' \<and> ev_payload e = []"
    using append_error_kind [OF ok] e by (auto simp: ingestible_def)
  then show ?thesis
    using ends top off(1) event_facts(4) [OF h ok, of ?d] cut
    unfolding event_slice_def Let_def
    by (auto simp: require_simps require_digest full_entry_fields read_back_def Suc_le_eq)
qed

lemma parse_appended:
  assumes loads: "loads (canonical_json (JObj (full_entry sha256 s e))) = Inr (sort_keys (JObj (full_entry sha256 s e)))"
    and h: "holds desc es s" and ok: "append_error s e = None"
    and jv: "views desc (write_raw (ev_direction e) (ev_payload e) s) jv"
    and e: "ingestible read_iso e" "observed_sequence e \<notin> set (map observed_sequence es)"
    and line: "length (canonical_json (JObj (full_entry sha256 s e))) \<le> max_line_bytes" and few: "length es < max_timeline_events"
  shows "parse_event sha256 loads read_iso jv n (canonical_json (JObj (full_entry sha256 s e))) (read_back sha256 read_iso es s) =
    Inr (read_back sha256 read_iso (es @ [e]) (count_event (event_digest sha256 s e) e
      (write_timeline l (write_raw (ev_direction e) (ev_payload e) s))))"
proof -
  note header = event_header_appended [where loads = loads, OF loads h ok jv e line few]
  note slice = event_slice_appended [OF h ok e(1) jv]
  have chunk: "chunk_of_fields read_iso (sort_key fst (full_entry sha256 s e)) (ev_direction e) (ev_sequence e)
      (observed_sequence e) (direction_sequence e) (kind e) (ev_offset e) (int (length (ev_payload e)))
      (sha256_text sha256 (ev_payload e)) = Inr (chunk_of_event sha256 read_iso e)"
    using e(1) unfolding chunk_of_fields_def
    by (simp add: full_entry_fields require_simps require_time require_forward_error ingestible_def chunk_of_event_def)
  have "advance (ev_direction e) (kind e) (int (length (ev_payload e))) (event_digest sha256 s e) (observed_sequence e)
      (chunk_of_event sha256 read_iso e) (read_back sha256 read_iso es s) =
    read_back sha256 read_iso (es @ [e]) (count_event (event_digest sha256 s e) e
      (write_timeline l (write_raw (ev_direction e) (ev_payload e) s)))"
    by (simp add: advance_def read_back_def count_event_def write_timeline_def write_raw_def Let_def)
  then show ?thesis by (simp add: parse_event_def header slice chunk)
qed

lemma parse_events_append:
  "parse_events sha256 loads read_iso jv n (xs @ ys) s =
    andthen (parse_events sha256 loads read_iso jv n xs s) (parse_events sha256 loads read_iso jv (n + length xs) ys)"
proof (induction xs arbitrary: n s)
  case (Cons x xs)
  then show ?case by (cases "parse_event sha256 loads read_iso jv n x s") simp_all
qed simp

lemma timeline_line_entry: "timeline_line sha256 s e = canonical_json (JObj (full_entry sha256 s e)) @ [newline]"
  by (simp only: timeline_line_def full_entry_def)

text \<open>
  How long a line can be. Every character of a string takes at most six bytes (\<^verbatim>\<open>\\u001f\<close>), an integer of 64 bits
  at most twenty: a line with an error text of 4096 characters still fits into the 64 KiB of the reader.
\<close>

lemma utf8_append [simp]: "utf8 (s @ t) = utf8 s @ utf8 t"
  by (simp add: utf8_def)

lemma utf8_Cons [simp]: "utf8 (c # t) = utf8_char c @ utf8 t" and utf8_Nil [simp]: "utf8 [] = []"
  by (simp_all add: utf8_def)

lemma utf8_char_length: "length (utf8_char c) \<le> 2" "code c < 128 \<Longrightarrow> length (utf8_char c) = 1"
  by (simp_all add: utf8_char_def Let_def)

lemma hex_digit_ascii: "n < 16 \<Longrightarrow> code (hex_digit n) < 128"
  by (simp add: hex_digit_def code_chr)

lemma json_char_length: "length (utf8 (json_char c)) \<le> 6"
proof -
  have "code (hex_digit (code c mod 16)) < 128" "code (hex_digit (code c div 16)) < 128"
    using code_less [of c] by (intro hex_digit_ascii, simp)+
  moreover have "length (utf8_char c) \<le> 6" using utf8_char_length(1) [of c] by linarith
  ultimately show ?thesis
    by (simp add: json_char_def Let_def utf8_char_length code_literal code_punctuation char_codes)
qed

lemma json_string_length: "length (utf8 (json_string s)) \<le> 2 + 6 * length s"
proof -
  have "length (utf8 (concat (map json_char s))) \<le> 6 * length s"
  proof (induction s)
    case (Cons c s)
    then show ?case using json_char_length [of c] by simp
  qed simp
  then show ?thesis by (simp add: json_string_def utf8_char_length char_codes)
qed

lemma digits_length: "n < 10 ^ Suc k \<Longrightarrow> length (utf8 (digits n)) \<le> Suc k"
proof (induction k arbitrary: n)
  case 0
  then show ?case by (simp add: digits.simps [of n] utf8_char_length code_chr)
next
  case (Suc k)
  have "code (chr (48 + n mod 10)) < 128" by (simp add: code_chr)
  moreover have "n div 10 < 10 ^ Suc k" using Suc.prems by (simp add: div_less_iff_less_mult)
  ultimately show ?case
    using Suc.IH [of "n div 10"] by (subst digits.simps) (simp add: utf8_char_length code_chr)
qed

lemma show_int_length: "0 \<le> i \<Longrightarrow> i \<le> max_int64 \<Longrightarrow> length (utf8 (show_int i)) \<le> 20"
  using digits_length [of "nat i" 19] by (simp add: show_int_def max_int64_def nat_less_iff)

lemma members_length:
  "length (utf8 (json_members ms)) \<le> 1 + (\<Sum>(k, v) \<leftarrow> ms. 4 + 6 * length k + length (utf8 (json_text v)))"
proof (induction ms rule: induct_list012)
  case (2 m)
  then show ?case using json_string_length [of "fst m"] by (cases m) (simp add: utf8_char_length char_codes code_literal code_punctuation)
next
  case (3 m m' ms)
  then show ?case using json_string_length [of "fst m"] by (cases m) (simp add: utf8_char_length char_codes code_literal code_punctuation)
qed (simp add: utf8_char_length char_codes code_literal code_punctuation)

lemma object_length:
  assumes "list_all (\<lambda>p. scalar (snd p)) ms"
  shows "length (canonical_json (JObj ms)) \<le> 2 + (\<Sum>(k, v) \<leftarrow> ms. 4 + 6 * length k + length (utf8 (json_text v)))"
proof -
  have "mset (sort_key fst ms) = mset ms" by simp
  then have "(\<Sum>x \<leftarrow> sort_key fst ms. f x) = (\<Sum>x \<leftarrow> ms. f x)" for f :: "_ \<Rightarrow> nat"
    by (metis mset_map sum_mset_sum_list)
  with members_length [of "sort_key fst ms"] show ?thesis
    by (simp add: canonical_json_def sort_scalar_members [OF assms] utf8_char_length code_punctuation)
qed

definition short_names :: "session_descriptor \<Rightarrow> bool" where
  "short_names desc \<longleftrightarrow> length (session_id desc) \<le> 64 \<and> length (job_id desc) \<le> 64 \<and> length (device_id desc) \<le> 64"

lemma text_length: "length s \<le> k \<Longrightarrow> length (utf8 (json_text (JStr s))) \<le> 2 + 6 * k"
  using json_string_length [of s] by simp

lemma opt_str_length: "(case v of None \<Rightarrow> True | Some s \<Rightarrow> length s \<le> k) \<Longrightarrow> length (utf8 (json_text (opt_str v))) \<le> 4 + 6 * k"
  using json_string_length [of "the v"]
  by (cases v) (simp_all add: opt_str_def utf8_char_length char_codes code_literal code_punctuation)

lemma entry_integers:
  assumes h: "holds desc es s" and ok: "append_error s e = None" and e: "ingestible read_iso e"
    and jv: "views desc (write_raw (ev_direction e) (ev_payload e) s) jv" and few: "length es < max_timeline_events"
  shows "list_all (\<lambda>i. 0 \<le> i \<and> i \<le> max_int64) [schema_version, ev_sequence e, observed_sequence e, direction_sequence e,
    captured_monotonic_ns e, ev_offset e, int (length (ev_payload e))]"
proof -
  let ?d = "ev_direction e"
  have "prefix (raw_files s ?d @ ev_payload e) (jv_streams jv ?d)" and "int (length (jv_streams jv ?d)) \<le> max_int64"
    using jv by (auto simp: views_def write_raw_def dest: spec [of _ ?d])
  then have raw: "captured_bytes s ?d + int (length (ev_payload e)) \<le> max_int64"
    using prefix_length_le event_facts(7) [OF h ok, of ?d] by fastforce
  have large: "int max_timeline_events \<le> max_int64" "0 \<le> schema_version" "schema_version \<le> max_int64"
    by (simp_all add: max_timeline_events_def max_int64_def schema_version_def)
  show ?thesis
    using event_facts(1,2,3) [OF h ok] event_facts(4,5,6) [OF h ok, of ?d] few raw large e
    by (simp add: ingestible_def)
qed

lemma entry_plain:
  assumes "holds desc es s" and "append_error s e = None" and "ingestible read_iso e"
    and "views desc (write_raw (ev_direction e) (ev_payload e) s) jv" and "length es < max_timeline_events"
  shows "plain_object (full_entry sha256 s e)"
proof -
  have "distinct (map fst (full_entry sha256 s e))" by (simp add: full_entry_def event_body_def)
  moreover have "case opt_str v of JInt i \<Rightarrow> 0 \<le> i \<and> i \<le> max_int64 | _ \<Rightarrow> True" for v
    by (cases v) (simp_all add: opt_str_def)
  ultimately show ?thesis
    using entry_integers [OF assms] by (simp add: plain_object_def full_entry_def event_body_def)
qed

lemma entry_short:
  assumes h: "holds desc es s" and ok: "append_error s e = None" and e: "ingestible read_iso e"
    and jv: "views desc (write_raw (ev_direction e) (ev_payload e) s) jv" and few: "length es < max_timeline_events"
    and names: "short_names desc" and prev: "case previous_event_sha256 s of None \<Rightarrow> True | Some x \<Rightarrow> length x \<le> 64"
  shows "length (canonical_json (JObj (full_entry sha256 s e))) \<le> max_line_bytes"
proof -
  let ?d = "ev_direction e" and ?size = "\<lambda>v. length (utf8 (json_text v))"
  have ints: "?size (JInt schema_version) \<le> 20" "?size (JInt (ev_sequence e)) \<le> 20" "?size (JInt (observed_sequence e)) \<le> 20"
    "?size (JInt (direction_sequence e)) \<le> 20" "?size (JInt (captured_monotonic_ns e)) \<le> 20" "?size (JInt (ev_offset e)) \<le> 20"
    "?size (JInt (int (length (ev_payload e)))) \<le> 20"
    using entry_integers [OF h ok e jv few] by (simp_all add: show_int_length)
  have desc: "descriptor s = desc" using h by (simp add: holds_def)
  have digest: "?size (JStr (sha256_text sha256 b)) \<le> 386" for b
    using text_length [of "sha256_text sha256 b" 64] by (simp add: sha256_text_def)
  have "kind e = ''data'' \<or> kind e = ''eof''" using append_error_kind [OF ok] by blast
  then have "length (kind e) \<le> 4" by auto
  moreover have "length (direction_value ?d) \<le> 16" by (cases ?d) (simp_all add: direction_value_def)
  ultimately have words: "?size (JStr (kind e)) \<le> 26" "?size (JStr (direction_value ?d)) \<le> 98"
    using text_length [of "kind e" 4] text_length [of "direction_value ?d" 16] by simp_all
  have ids: "?size (JStr (session_id desc)) \<le> 386" "?size (JStr (job_id desc)) \<le> 386" "?size (JStr (device_id desc)) \<le> 386"
    using names text_length [of _ 64] by (simp_all add: short_names_def del: json_text.simps)
  have times: "?size (JStr (captured_at_utc e)) \<le> 386" "?size (JStr (forwarded_at_utc e)) \<le> 386"
    using e text_length [of _ 64] by (simp_all add: ingestible_def readable_time_def del: json_text.simps)
  have err: "?size (opt_str (forward_error e)) \<le> 24580" "?size (opt_str (previous_event_sha256 s)) \<le> 388"
    using e prev opt_str_length [where v = "forward_error e" and k = 4096]
      opt_str_length [where v = "previous_event_sha256 s" and k = 64]
    by (simp_all add: ingestible_def split: option.splits)
  have flag: "?size (JBool (forwarded e)) \<le> 5" by (simp add: utf8_char_length char_codes code_literal code_punctuation)
  have "list_all (\<lambda>p. scalar (snd p)) (full_entry sha256 s e)" using event_body_scalar by (simp add: full_entry_def)
  note object_length [OF this]
  also have "(\<Sum>(k, v) \<leftarrow> full_entry sha256 s e. 4 + 6 * length k + ?size v) \<le> 40000"
    using ints digest [of "ev_payload e"] digest [of "canonical_json (JObj (event_body sha256 s e))"] words ids times err flag desc
    unfolding full_entry_def event_body_def [of sha256 s e] event_digest_def
    by (simp del: json_text.simps)
  finally show ?thesis by (simp add: max_line_bytes_def)
qed

lemma timeline_ends:
  assumes "appends sha256 es (open_spool desc) = Some t"
  shows "timeline_file t = [] \<or> last (timeline_file t) = newline"
proof (cases es rule: rev_cases)
  case Nil
  with assms have "t = open_spool desc" by (simp add: appends_def)
  then show ?thesis by (simp add: open_spool_def)
next
  case (snoc xs x)
  with assms obtain u where "t = count_event (event_digest sha256 u x) x
      (write_timeline (timeline_line sha256 u x) (write_raw (ev_direction x) (ev_payload x) u))"
    by (auto simp: appends_snoc)
  then have "timeline_file t = timeline_file u @ timeline_line sha256 u x"
    by (simp add: count_event_def write_timeline_def write_raw_def Let_def)
  then show ?thesis by (simp add: timeline_line_def)
qed

lemma byte_lines_appends:
  "appends sha256 es (open_spool desc) = Some t \<Longrightarrow> length (byte_lines False [] (timeline_file t)) = length es"
proof (induction es arbitrary: t rule: rev_induct)
  case Nil
  then have "t = open_spool desc" by (simp add: appends_def)
  then show ?case by (simp add: open_spool_def)
next
  case (snoc x xs)
  from snoc.prems obtain u where u: "appends sha256 xs (open_spool desc) = Some u"
    and "timeline_file t = timeline_file u @ canonical_json (JObj (full_entry sha256 u x)) @ [newline]"
    by (auto simp: appends_snoc count_event_def write_timeline_def write_raw_def Let_def timeline_line_entry)
  with snoc.IH [OF u] byte_lines_line [OF _ canonical_json_lines] timeline_ends [OF u] show ?case by simp
qed

lemma previous_digest:
  assumes "appends sha256 es (open_spool desc) = Some t"
  shows "case previous_event_sha256 t of None \<Rightarrow> True | Some x \<Rightarrow> length x \<le> 64"
proof (cases es rule: rev_cases)
  case Nil
  with assms have "t = open_spool desc" by (simp add: appends_def)
  then show ?thesis by (simp add: open_spool_def)
next
  case (snoc xs x)
  with assms obtain u where "t = count_event (event_digest sha256 u x) x
      (write_timeline (timeline_line sha256 u x) (write_raw (ev_direction x) (ev_payload x) u))"
    by (auto simp: appends_snoc)
  then have "previous_event_sha256 t = Some (event_digest sha256 u x)" by (simp add: count_event_def Let_def)
  then show ?thesis by (simp add: event_digest_def sha256_text_def)
qed

lemma parse_appends:
  assumes loads: "reads_objects loads"
    and "appends sha256 es (open_spool desc) = Some s" and "views desc s jv"
    and "list_all (ingestible read_iso) es" and "distinct (map observed_sequence es)"
    and "short_names desc" and "length es \<le> max_timeline_events"
  shows "parse_events sha256 loads read_iso jv 1 (byte_lines False [] (timeline_file s)) new_timeline = Inr (read_back sha256 read_iso es s)
    \<and> (timeline_file s = [] \<or> last (timeline_file s) = newline) \<and> length (byte_lines False [] (timeline_file s)) = length es"
  using assms(2-)
proof (induction es arbitrary: s rule: rev_induct)
  case Nil
  then have "s = open_spool desc" by (simp add: appends_def)
  then show ?case by (simp add: open_spool_def read_back_def new_timeline_def)
next
  case (snoc e es)
  from snoc.prems(1) obtain t where t: "appends sha256 es (open_spool desc) = Some t" "append_error t e = None"
    and s: "s = count_event (event_digest sha256 t e) e
      (write_timeline (timeline_line sha256 t e) (write_raw (ev_direction e) (ev_payload e) t))"
    by (auto simp: appends_snoc)
  let ?l = "canonical_json (JObj (full_entry sha256 t e))"
  have content: "timeline_file s = timeline_file t @ ?l @ [newline]"
    by (simp add: s count_event_def write_timeline_def write_raw_def Let_def timeline_line_entry)
  have raw: "raw_files s = raw_files (write_raw (ev_direction e) (ev_payload e) t)"
    by (simp add: s count_event_def write_timeline_def Let_def)
  then have views: "views desc (write_raw (ev_direction e) (ev_payload e) t) jv"
    using snoc.prems(2) by (simp add: views_def)
  have "prefix (raw_files t d) (raw_files s d)" for d by (simp add: raw write_raw_def)
  then have "views desc t jv" using snoc.prems(2) prefix_order.trans unfolding views_def by blast
  moreover have "last (timeline_file t) = newline \<or> timeline_file t = []"
    using timeline_ends [OF t(1)] by blast
  then have lines: "byte_lines False [] (timeline_file s) = byte_lines False [] (timeline_file t) @ [?l]"
    unfolding content by (intro byte_lines_line canonical_json_lines) blast
  ultimately have IH: "parse_events sha256 loads read_iso jv 1 (byte_lines False [] (timeline_file t)) new_timeline =
      Inr (read_back sha256 read_iso es t)" "length (byte_lines False [] (timeline_file t)) = length es"
    using snoc.IH [OF t(1)] snoc.prems by simp_all
  have "parse_event sha256 loads read_iso jv (1 + length es) ?l (read_back sha256 read_iso es t) = Inr (read_back sha256 read_iso (es @ [e]) s)"
    unfolding s
  proof (rule parse_appended [OF _ appends_holds [OF t(1)] t(2) views])
    show e: "ingestible read_iso e" "observed_sequence e \<notin> set (map observed_sequence es)" "length es < max_timeline_events"
      using snoc.prems by auto
    show "loads (canonical_json (JObj (full_entry sha256 t e))) = Inr (sort_keys (JObj (full_entry sha256 t e)))"
      using loads entry_plain [OF appends_holds [OF t(1)] t(2) e(1) views e(3)] by (simp add: reads_objects_def)
    show "length ?l \<le> max_line_bytes"
      using entry_short [OF appends_holds [OF t(1)] t(2) e(1) views e(3) snoc.prems(5) previous_digest [OF t(1)]] .
  qed
  then show ?case using IH lines content by (simp add: parse_events_append)
qed

section \<open>The manifest\<close>

lemma get_parsed: "get (sort_members ms) k = sort_keys (get ms k)"
  by (simp add: get_def sort_members_map map_of_map split: option.split)

lemma parsed_counters:
  assumes "\<And>d. 0 \<le> f d" and "\<And>d. f d \<le> max_int64"
  shows "string_int_map (sort_keys (per_direction f)) label = Inr f"
proof -
  have "sort_keys (per_direction f) = JObj (sort_key fst [(''client_to_device'', JInt (f ClientToDevice)), (''device_to_client'', JInt (f DeviceToClient))])"
    by (simp add: per_direction_def direction_value_def)
  moreover have "(\<lambda>d. if d = ClientToDevice then f ClientToDevice else f DeviceToClient) = f"
    by (rule ext) (metis direction.exhaust)
  ultimately show ?thesis using assms
    by (simp add: string_int_map_def require_simps) (simp add: get_def require_simps assms)
qed

lemma published_fields:
  "get (manifest sha256 summary errs dc db s) ''timeline_events'' = JInt (timeline_events s)"
  "get (manifest sha256 summary errs dc db s) ''last_event_sha256'' = opt_str (previous_event_sha256 s)"
  "get (manifest sha256 summary errs dc db s) ''captured_bytes'' = per_direction (captured_bytes s)"
  "get (manifest sha256 summary errs dc db s) ''captured_chunks'' = per_direction (captured_chunks s)"
  "get (manifest sha256 summary errs dc db s) ''eof_events'' = per_direction (eof_events s)"
  by (simp_all add: manifest_def Let_def get_def)

text \<open>The job a reader sees in a published directory: the files under their names, the manifest as JSON reads it.\<close>

definition published_file :: "published \<Rightarrow> string \<Rightarrow> bytes" where
  "published_file p name = the (map_of (pub_files p) name)"

definition published_view :: "session_descriptor \<Rightarrow> published \<Rightarrow> job_view" where
  "published_view desc p = \<lparr>jv_streams = (\<lambda>d. published_file p (raw_file d)), jv_session = session_id desc,
     jv_job = job_id desc, jv_device = device_id desc\<rparr>"

definition parsed_manifest :: "published \<Rightarrow> metadata" where
  "parsed_manifest p = (case sort_keys (JObj (pub_manifest p)) of JObj ms \<Rightarrow> ms | _ \<Rightarrow> [])"

lemma published_files:
  assumes "finalize sha256 None None summary errs dc db s = Inr p"
  shows "published_file p (raw_file d) = raw_files s d" "published_file p ''timeline.jsonl'' = timeline_file s"
    "pub_manifest p = manifest sha256 summary errs dc db s"
  using assms by (cases d; auto simp: finalize_def published_file_def job_files_def raw_file_def Let_def)+

lemma count_bounds: "0 \<le> count_of d k es" "count_of d k es \<le> int (length es)"
  by (simp_all add: count_of_def)

lemma check_totals_published:
  assumes h: "holds desc es s" and fin: "finalize sha256 None None summary errs dc db s = Inr p"
    and few: "length es \<le> max_timeline_events" and sizes: "\<And>d. int (length (raw_files s d)) \<le> max_int64"
    and whole: "get (pub_manifest p) ''status'' = JStr ''COMPLETE'' \<longrightarrow> set (map observed_sequence es) = set (map int [0..<length es])"
  shows "check_totals allow (raw_files s) (parsed_manifest p) (read_back sha256 read_iso es s) = Inr ()"
proof -
  have m: "get (parsed_manifest p) k = sort_keys (get (manifest sha256 summary errs dc db s) k)" for k
    using published_files(3) [OF fin] by (simp add: parsed_manifest_def get_parsed)
  have events: "require_int (JInt (timeline_events s)) l 0 (int max_timeline_events) = Inr (int (length es))" for l
    using h few by (simp add: require_int_def holds_def)
  have counters: "string_int_map (sort_keys (per_direction (captured_bytes s))) l = Inr (captured_bytes s)"
    "string_int_map (sort_keys (per_direction (captured_chunks s))) l = Inr (captured_chunks s)"
    "string_int_map (sort_keys (per_direction (eof_events s))) l = Inr (eof_events s)" for l
    using h sizes few count_bounds(2) [THEN order_trans, of es "max_int64"]
    by (auto intro!: parsed_counters simp: holds_def count_bounds max_timeline_events_def max_int64_def)
  have status: "get (parsed_manifest p) ''status'' = JStr ''COMPLETE'' \<longleftrightarrow> get (pub_manifest p) ''status'' = JStr ''COMPLETE''"
    unfolding m published_files(3) [OF fin] by (simp add: manifest_def Let_def get_def)
  have same: "same_totals f f" for f by (simp add: same_totals_def)
  have bytes: "same_totals (captured_bytes s) (\<lambda>d. int (length (raw_files s d)))"
    using h by (simp add: same_totals_def holds_def)
  have head: "sort_keys (opt_str x) = opt_str x" for x by (simp add: sort_keys_scalar)
  show ?thesis
    using whole status unfolding check_totals_def
    by (simp add: m published_fields events counters same bytes head read_back_def)
qed

lemma published_accepted:
  assumes "reads_objects loads"
    and "appends sha256 es (open_spool desc) = Some s" and "finalize sha256 None None summary errs dc db s = Inr p"
    and "list_all (ingestible read_iso) es" and "distinct (map observed_sequence es)"
    and "get (pub_manifest p) ''status'' = JStr ''COMPLETE'' \<longrightarrow> set (map observed_sequence es) = set (map int [0..<length es])"
    and "short_names desc" and "length es \<le> max_timeline_events" and "\<And>d. int (length (stream d es)) \<le> max_int64"
  shows "parse_timeline sha256 loads read_iso (published_view desc p) allow (parsed_manifest p) (published_file p ''timeline.jsonl'') =
    Inr (map (chunk_of_event sha256 read_iso) es)"
proof -
  note h = appends_holds [OF assms(2)]
  have streams: "jv_streams (published_view desc p) = raw_files s"
    using published_files(1) [OF assms(3)] by (simp add: published_view_def)
  have sizes: "int (length (raw_files s d)) \<le> max_int64" for d using h assms(9) by (simp add: holds_def)
  then have views: "views desc s (published_view desc p)" by (simp add: views_def streams) (simp add: published_view_def)
  note read = parse_appends [OF assms(1,2) views assms(4,5,7,8)]
  note totals = check_totals_published [OF h assms(3,8) sizes assms(6)]
  show ?thesis
    using read assms(8) unfolding parse_timeline_def published_files(2) [OF assms(3)] streams
    by (simp add: totals) (simp add: read_back_def)
qed

text \<open>
  C7: what the capture publishes, the ingestion accepts, within the bounds of the reader. Let \<^verbatim>\<open>append\<close> have taken a
  list of events without a disk fault: each with data unless it is an end of file, times in ISO format, distinct
  observation numbers and clocks below two to the 63 and an error text of at most 4096 characters, in a session
  with names of at most 64 characters; and let the observation numbers of a job published as COMPLETE be those
  from zero on. Up to 100000 events, \<^verbatim>\<open>_parse_timeline\<close> reads the published files without complaint and yields one
  chunk per event, in order, each with the fields of its event: none is lost, none made up, and no total of the
  manifest disagrees. Beyond, it refuses the whole timeline, which the spool does not limit.
\<close>

theorem published_job_is_ingested:
  assumes "reads_objects loads"
    and "appends sha256 es (open_spool desc) = Some s" and "finalize sha256 None None summary errs dc db s = Inr p"
    and "list_all (ingestible read_iso) es" and "distinct (map observed_sequence es)"
    and "get (pub_manifest p) ''status'' = JStr ''COMPLETE'' \<longrightarrow> set (map observed_sequence es) = set (map int [0..<length es])"
    and "short_names desc" and "\<And>d. int (length (stream d es)) \<le> max_int64"
  shows "parse_timeline sha256 loads read_iso (published_view desc p) allow (parsed_manifest p) (published_file p ''timeline.jsonl'') =
    (if length es \<le> max_timeline_events then Inr (map (chunk_of_event sha256 read_iso) es)
     else Inl (SourceInvalid ''canonical timeline exceeds the event limit''))"
proof (cases "length es \<le> max_timeline_events")
  case True
  from published_accepted [OF assms(1-7) True assms(8)] True show ?thesis by simp
next
  case False
  have "length (byte_lines False [] (published_file p ''timeline.jsonl'')) = length es"
    "published_file p ''timeline.jsonl'' = [] \<or> last (published_file p ''timeline.jsonl'') = newline"
    using byte_lines_appends [OF assms(2)] timeline_ends [OF assms(2)] published_files(2) [OF assms(3)] by simp_all
  with False show ?thesis unfolding parse_timeline_def by (simp only: ensure_simps andthen_Inr andthen_Inl if_False)
qed

text \<open>
  C11: a capture whose disk failed in the middle of a timeline line is refused for good. The spool remembers
  the error and goes on, and the job is published as PARTIAL with its files, the torn line included; the
  ingestion refuses it whatever it expects, although every byte before the torn line is intact and covered by
  the chain.
\<close>

theorem torn_timeline_is_refused:
  assumes "appends sha256 es (open_spool desc) = Some s" and "append_error s e = None"
    and "0 < n" and "n \<le> length (canonical_json (JObj (full_entry sha256 s e)))"
    and "finalize sha256 None None summary errs dc db (snd (write_event sha256 (TimelineFault n t) e s)) = Inr p"
  shows "get (pub_manifest p) ''status'' = JStr ''PARTIAL'' \<and>
    parse_timeline sha256 loads read_iso jv allow m (published_file p ''timeline.jsonl'') =
      Inl (SourceInvalid ''canonical timeline has a truncated final record'')"
proof -
  let ?l = "canonical_json (JObj (full_entry sha256 s e))" and ?s = "snd (write_event sha256 (TimelineFault n t) e s)"
  have torn: "timeline_file ?s = timeline_file s @ take n ?l" and failed: "spool_errors ?s \<noteq> []"
    using assms(2,4) by (simp_all add: write_event_def append_def mark_error_def write_timeline_def write_raw_def
        timeline_line_entry Let_def)
  have some: "take n ?l \<noteq> []" using assms(3) canonical_json_nonempty by simp
  then have "last (take n ?l) \<in> set ?l" by (meson in_set_takeD last_in_set)
  then have "last (timeline_file ?s) \<noteq> newline" "timeline_file ?s \<noteq> []"
    using some canonical_json_lines(1) by (auto simp: torn newline_def)
  moreover have "get (manifest sha256 summary errs dc db ?s) ''status'' = JStr ''PARTIAL''"
    using failed by (simp add: manifest_def Let_def get_def)
  ultimately show ?thesis
    using published_files(2,3) [OF assms(5)] by (simp add: parse_timeline_def)
qed

section \<open>Examples\<close>

text \<open>\<^verbatim>\<open>json.loads\<close> and a reader of times, as functions.\<close>

definition read_text :: "bytes \<Rightarrow> string + jval" where
  "read_text b = (case read_line b of None \<Rightarrow> Inl ''Expecting value'' | Some v \<Rightarrow> Inr v)"

definition read_noon :: iso_reader where
  "read_noon t = (if t = ''2024-01-01T12:00:00+00:00'' then Some (True, 1704110400000000) else None)"

lemma read_text_canonical: "read_text (canonical_json v) = Inr (sort_keys v)"
proof -
  have "decode_utf8 (canonical_json v) = Some (json_text (sort_keys v))"
    using decode_utf8_utf8 [of "json_text (sort_keys v)" "[]"] by (simp add: canonical_json_def)
  moreover have "read_value (length (json_text (sort_keys v))) (json_text (sort_keys v)) = Some (sort_keys v, [])"
    using read_json(1) [of "[]" "sort_keys v" "length (json_text (sort_keys v))"] by (simp add: stops_def)
  ultimately show ?thesis by (simp add: read_text_def read_line_def)
qed

lemma read_text_objects: "reads_objects read_text"
  by (simp add: reads_objects_def read_text_canonical)

definition noon_event :: "int \<Rightarrow> string \<Rightarrow> int \<Rightarrow> bytes \<Rightarrow> capture_event" where
  "noon_event n k off b = (example_event n k off b)
     \<lparr>captured_at_utc := ''2024-01-01T12:00:00Z'', forwarded_at_utc := ''2024-01-01T12:00:00Z''\<rparr>"

definition noon_events :: "capture_event list" where
  "noon_events = [noon_event 0 ''data'' 0 [27, 64], noon_event 1 ''eof'' 2 []]"

lemma noon_appends: "\<exists>s. appends toy_digest noon_events (open_spool example_descriptor) = Some s"
  by (simp add: appends_def noon_events_def noon_event_def try_append_def append_def append_error_def example_event_def
      open_spool_def count_event_def write_timeline_def write_raw_def bump_def)

definition quiet_close :: close_summary where
  "quiet_close = \<lparr>closed_at_utc = ''2024-01-01T12:00:01Z'', closed_monotonic_ns = 1, close_reason = ''eof'', transport_complete = True,
     observed_bytes = [(''client_to_device'', 2)], observed_chunks = [(''client_to_device'', 1)], transport_errors = []\<rparr>"

lemma noon_readable: "readable_time read_noon ''2024-01-01T12:00:00Z''"
  by (simp add: readable_time_def zulu_def read_noon_def)

lemma noon_ok: "list_all (ingestible read_noon) noon_events" "distinct (map observed_sequence noon_events)"
  "set (map observed_sequence noon_events) = set (map int [0..<length noon_events])" "short_names example_descriptor"
  "length noon_events \<le> max_timeline_events" "int (length (stream d noon_events)) \<le> max_int64"
  by (auto simp: noon_events_def noon_event_def example_event_def ingestible_def noon_readable max_int64_def short_names_def
      example_descriptor_def max_timeline_events_def stream_def)

lemma noon_published:
  "\<exists>s p. appends toy_digest noon_events (open_spool example_descriptor) = Some s \<and>
     finalize toy_digest None None quiet_close [] 0 0 s = Inr p"
  using noon_appends by (auto simp: finalize_def Let_def)

theorem published_job_is_ingested_witness:
  "\<exists>p. parse_timeline toy_digest read_text read_noon (published_view example_descriptor p) False (parsed_manifest p)
     (published_file p ''timeline.jsonl'') = Inr (map (chunk_of_event toy_digest read_noon) noon_events)"
proof -
  obtain s p where run: "appends toy_digest noon_events (open_spool example_descriptor) = Some s"
    "finalize toy_digest None None quiet_close [] 0 0 s = Inr p"
    using noon_published by blast
  have "parse_timeline toy_digest read_text read_noon (published_view example_descriptor p) False (parsed_manifest p)
     (published_file p ''timeline.jsonl'') = Inr (map (chunk_of_event toy_digest read_noon) noon_events)"
    using published_job_is_ingested [OF read_text_objects run noon_ok(1,2) _ noon_ok(4,6)] noon_ok(3,5) by simp
  then show ?thesis by blast
qed

theorem ingested_chunks_tile_raw_witness:
  "\<exists>p cs. parse_timeline toy_digest read_text read_noon (published_view example_descriptor p) False (parsed_manifest p)
      (published_file p ''timeline.jsonl'') = Inr cs \<and> length cs = 2 \<and>
     concat (map (chunk_bytes (jv_streams (published_view example_descriptor p))) (data_chunks ClientToDevice cs)) =
       jv_streams (published_view example_descriptor p) ClientToDevice"
proof -
  obtain s p where run: "appends toy_digest noon_events (open_spool example_descriptor) = Some s"
    "finalize toy_digest None None quiet_close [] 0 0 s = Inr p"
    using noon_published by blast
  have parsed: "parse_timeline toy_digest read_text read_noon (published_view example_descriptor p) False (parsed_manifest p)
     (published_file p ''timeline.jsonl'') = Inr (map (chunk_of_event toy_digest read_noon) noon_events)"
    by (rule published_accepted [OF read_text_objects run noon_ok(1,2)]) (use noon_ok in blast)+
  have two: "length (map (chunk_of_event toy_digest read_noon) noon_events) = 2" by (simp add: noon_events_def)
  from ingested_chunks_tile_raw [OF parsed, of ClientToDevice] parsed two show ?thesis by blast
qed

theorem torn_timeline_is_refused_witness:
  "\<exists>p. get (pub_manifest p) ''status'' = JStr ''PARTIAL'' \<and>
     parse_timeline toy_digest read_text read_noon (published_view example_descriptor p) True (parsed_manifest p)
       (published_file p ''timeline.jsonl'') = Inl (SourceInvalid ''canonical timeline has a truncated final record'')"
proof -
  let ?s = "open_spool example_descriptor" and ?e = "noon_event 0 ''data'' 0 [27, 64]"
  have run: "appends toy_digest [] ?s = Some ?s" by (simp add: appends_def)
  have ok: "append_error ?s ?e = None"
    by (simp add: append_error_def open_spool_def noon_event_def example_event_def)
  have short: "1 \<le> length (canonical_json (JObj (full_entry toy_digest ?s ?e)))"
    using canonical_json_nonempty [of "full_entry toy_digest ?s ?e"] by (simp add: Suc_le_eq)
  obtain p where fin: "finalize toy_digest None None quiet_close [] 0 0 (snd (write_event toy_digest (TimelineFault 1 ''OSError: disk full'') ?e ?s)) = Inr p"
    by (auto simp: finalize_def Let_def)
  show ?thesis by (rule exI [of _ p], rule torn_timeline_is_refused [OF run ok _ short fin]) simp
qed

end
