(* ===== verification/IngestWorker.thy ===== *)
theory IngestWorker imports Ingest begin

text \<open>
  \<^verbatim>\<open>ingestion/worker.py\<close> over the reference repository of \<^verbatim>\<open>ingestion/repository.py\<close>, and the rotation of the
  discovery in \<^verbatim>\<open>ingestion/canonical.py\<close>. The repository may be out of reach at any call: the list \<open>outages\<close> says
  at which of the coming calls it is. The list \<open>calls\<close> keeps what the worker has called so far, the sleeps
  included, in order. An adapter is what it discovers and what it loads.
\<close>

section \<open>The repository\<close>

record candidate =
  cand_instance :: string
  cand_key :: string
  cand_path :: string
  cand_kind :: string

record quarantine_record =
  qr_instance :: string
  qr_key :: string
  qr_path :: string
  qr_kind :: string
  qr_reason :: string

record retry_record =
  rr_key :: string
  rr_attempt :: nat
  rr_delay :: rat
  rr_error :: string

datatype disposition = Imported | Duplicate

text \<open>The calls of the worker, those that fail included.\<close>

datatype repository_call = StoreCall | QuarantineCall | RetryCall nat rat | SleepCall rat

record 'e repository =
  stored :: "(string \<times> 'e) list"
  retries :: "retry_record list"
  quarantines :: "(string \<times> quarantine_record) list"
  outages :: "bool list"
  calls :: "repository_call list"

definition down :: "'e repository \<Rightarrow> bool" where
  "down r = (case outages r of [] \<Rightarrow> False | b # _ \<Rightarrow> b)"

text \<open>Whether the repository is out of reach at the \<open>i\<close>-th of the coming calls.\<close>

definition down_at :: "'e repository \<Rightarrow> nat \<Rightarrow> bool" where
  "down_at r i \<longleftrightarrow> i < length (outages r) \<and> outages r ! i"

definition called :: "repository_call \<Rightarrow> 'e repository \<Rightarrow> 'e repository" where
  "called x r = r\<lparr>outages := tl (outages r), calls := calls r @ [x]\<rparr>"

text \<open>The three methods; \<open>None\<close> is \<^verbatim>\<open>RepositoryUnavailable\<close>. An envelope is its source key and its content.\<close>

definition store_import :: "string \<times> 'e \<Rightarrow> 'e repository \<Rightarrow> disposition option \<times> 'e repository" where
  "store_import env r = (if down r then (None, called StoreCall r)
     else if map_of (stored r) (fst env) \<noteq> None then (Some Duplicate, called StoreCall r)
     else (Some Imported, (called StoreCall r)\<lparr>stored := stored r @ [env]\<rparr>))"

definition record_retry :: "retry_record \<Rightarrow> 'e repository \<Rightarrow> 'e repository" where
  "record_retry x r = (let r' = called (RetryCall (rr_attempt x) (rr_delay x)) r in
     if down r then r' else r'\<lparr>retries := retries r @ [x]\<rparr>)"

definition quarantine :: "quarantine_record \<Rightarrow> 'e repository \<Rightarrow> bool \<times> 'e repository" where
  "quarantine q r = (if down r then (False, called QuarantineCall r)
     else if map_of (quarantines r) (qr_key q) \<noteq> None then (True, called QuarantineCall r)
     else (True, (called QuarantineCall r)\<lparr>quarantines := quarantines r @ [(qr_key q, q)]\<rparr>))"

definition sleep :: "rat \<Rightarrow> 'e repository \<Rightarrow> 'e repository" where
  "sleep d r = r\<lparr>calls := calls r @ [SleepCall d]\<rparr>"

section \<open>The worker\<close>

record ingest_report =
  rep_discovered :: nat
  rep_imported :: nat
  rep_duplicates :: nat
  rep_quarantined :: nat
  rep_exhausted :: nat
  rep_busy :: nat
  rep_errors :: "string list"
  rep_keys :: "string list"

definition new_report :: ingest_report where
  "new_report = \<lparr>rep_discovered = 0, rep_imported = 0, rep_duplicates = 0, rep_quarantined = 0, rep_exhausted = 0,
     rep_busy = 0, rep_errors = [], rep_keys = []\<rparr>"

definition merge :: "ingest_report \<Rightarrow> ingest_report \<Rightarrow> ingest_report" where
  "merge a b = \<lparr>rep_discovered = rep_discovered a + rep_discovered b, rep_imported = rep_imported a + rep_imported b,
     rep_duplicates = rep_duplicates a + rep_duplicates b, rep_quarantined = rep_quarantined a + rep_quarantined b,
     rep_exhausted = rep_exhausted a + rep_exhausted b, rep_busy = rep_busy a + rep_busy b,
     rep_errors = rep_errors a @ rep_errors b, rep_keys = rep_keys a @ filter (\<lambda>k. k \<notin> set (rep_keys a)) (rep_keys b)\<rparr>"

record worker_config =
  wc_initial :: rat
  wc_max :: rat
  wc_attempts :: nat

datatype interval_error = InvalidInterval | InvalidAttempts

definition make_worker :: "rat \<Rightarrow> rat \<Rightarrow> int \<Rightarrow> interval_error + worker_config" where
  "make_worker initial limit tries =
     (if initial \<le> 0 \<or> limit < initial then Inl InvalidInterval
      else if tries < 1 \<or> 100 < tries then Inl InvalidAttempts
      else Inr \<lparr>wc_initial = initial, wc_max = limit, wc_attempts = nat tries\<rparr>)"

text \<open>The text of \<^verbatim>\<open>RepositoryUnavailable\<close> is an argument of the worker.\<close>

definition retry_of :: "string \<Rightarrow> string \<Rightarrow> nat \<Rightarrow> rat \<Rightarrow> retry_record" where
  "retry_of unavailable k turn delay = \<lparr>rr_key = k, rr_attempt = turn, rr_delay = delay,
     rr_error = take 4096 (''RepositoryUnavailable: '' @ unavailable)\<rparr>"

definition backoff :: "worker_config \<Rightarrow> rat \<Rightarrow> rat" where
  "backoff c delay = min (wc_max c) (delay * 2)"

text \<open>
  The loop \<^verbatim>\<open>for attempt in range(1, retry_attempts + 1)\<close> of \<^verbatim>\<open>_store_with_retry\<close> and of \<^verbatim>\<open>_quarantine\<close>: the
  attempts left, the number of the next one and its delay; \<open>None\<close> when the last turn failed.
\<close>

fun attempt_loop ::
    "worker_config \<Rightarrow> string \<Rightarrow> string \<Rightarrow> ('e repository \<Rightarrow> 'a option \<times> 'e repository) \<Rightarrow> nat \<Rightarrow> nat \<Rightarrow> rat
     \<Rightarrow> 'e repository \<Rightarrow> 'a option \<times> 'e repository" where
  "attempt_loop c unavailable k call 0 turn delay r = (None, r)"
| "attempt_loop c unavailable k call (Suc left) turn delay r = (case call r of
      (Some a, r') \<Rightarrow> (Some a, r')
    | (None, r') \<Rightarrow> (let r'' = record_retry (retry_of unavailable k turn delay) r' in
        if left = 0 then (None, r'')
        else attempt_loop c unavailable k call left (turn + 1) (backoff c delay) (sleep delay r'')))"

definition quarantine_call :: "quarantine_record \<Rightarrow> 'e repository \<Rightarrow> unit option \<times> 'e repository" where
  "quarantine_call q r = (case quarantine q r of (True, r') \<Rightarrow> (Some (), r') | (False, r') \<Rightarrow> (None, r'))"

definition quarantine_with_retry ::
    "worker_config \<Rightarrow> string \<Rightarrow> quarantine_record \<Rightarrow> ingest_report \<times> 'e repository \<Rightarrow> ingest_report \<times> 'e repository" where
  "quarantine_with_retry c unavailable q = (\<lambda>(rep, r).
     case attempt_loop c unavailable (qr_key q) (quarantine_call (q\<lparr>qr_reason := take 4096 (qr_reason q)\<rparr>)) (wc_attempts c) 1 (wc_initial c) r of
       (Some _, r') \<Rightarrow> (rep\<lparr>rep_quarantined := rep_quarantined rep + 1\<rparr>, r')
     | (None, r') \<Rightarrow> (rep\<lparr>rep_exhausted := rep_exhausted rep + 1, rep_errors := rep_errors rep @
         [''repository unavailable while quarantining '' @ qr_key q @ '': '' @ unavailable]\<rparr>, r'))"

definition store_with_retry ::
    "worker_config \<Rightarrow> string \<Rightarrow> string \<times> 'e \<Rightarrow> ingest_report \<times> 'e repository \<Rightarrow> ingest_report \<times> 'e repository" where
  "store_with_retry c unavailable env = (\<lambda>(rep, r).
     case attempt_loop c unavailable (fst env) (store_import env) (wc_attempts c) 1 (wc_initial c) r of
       (Some Imported, r') \<Rightarrow> (rep\<lparr>rep_imported := rep_imported rep + 1\<rparr>, r')
     | (Some Duplicate, r') \<Rightarrow> (rep\<lparr>rep_duplicates := rep_duplicates rep + 1\<rparr>, r')
     | (None, r') \<Rightarrow> (rep\<lparr>rep_exhausted := rep_exhausted rep + 1, rep_errors := rep_errors rep @
         [''repository retry exhausted for '' @ fst env @ '': '' @ unavailable]\<rparr>, r'))"

record 'e adapter =
  ad_instance :: string
  ad_root :: string
  ad_kind :: string
  ad_discover :: "nat \<Rightarrow> ingest_error + candidate list"
  ad_load :: "candidate \<Rightarrow> ingest_error + string \<times> 'e"

definition scan_candidate ::
    "worker_config \<Rightarrow> string \<Rightarrow> 'e adapter \<Rightarrow> candidate \<Rightarrow> ingest_report \<times> 'e repository \<Rightarrow> ingest_report \<times> 'e repository" where
  "scan_candidate c unavailable ad x = (\<lambda>(rep, r).
     let rep' = rep\<lparr>rep_discovered := rep_discovered rep + 1,
       rep_keys := (if cand_key x \<in> set (rep_keys rep) then rep_keys rep else rep_keys rep @ [cand_key x])\<rparr>
     in case ad_load ad x of
       Inl (SourceBusy t) \<Rightarrow> (rep'\<lparr>rep_busy := rep_busy rep' + 1,
         rep_errors := rep_errors rep' @ [''source candidate busy '' @ cand_key x @ '': '' @ t]\<rparr>, r)
     | Inl (SourceInvalid t) \<Rightarrow> quarantine_with_retry c unavailable \<lparr>qr_instance = cand_instance x, qr_key = cand_key x,
         qr_path = cand_path x, qr_kind = cand_kind x, qr_reason = ''SourceValidationError: '' @ t\<rparr> (rep', r)
     | Inr env \<Rightarrow> store_with_retry c unavailable env (rep', r))"

definition scan_adapter ::
    "worker_config \<Rightarrow> string \<Rightarrow> nat \<Rightarrow> 'e adapter \<Rightarrow> 'e repository \<Rightarrow> ingest_report \<times> 'e repository" where
  "scan_adapter c unavailable maximum ad r = (case ad_discover ad maximum of
      Inl (SourceBusy t) \<Rightarrow> (new_report\<lparr>rep_busy := 1,
        rep_errors := [''source snapshot busy at '' @ ad_root ad @ '': '' @ t]\<rparr>, r)
    | Inl (SourceInvalid t) \<Rightarrow> quarantine_with_retry c unavailable \<lparr>qr_instance = ad_instance ad,
        qr_key = ad_instance ad @ '':discovery:'' @ ad_root ad, qr_path = ad_root ad, qr_kind = ad_kind ad,
        qr_reason = ''SourceValidationError: '' @ t\<rparr> (new_report, r)
    | Inr xs \<Rightarrow> fold (scan_candidate c unavailable ad) xs (new_report, r))"

text \<open>\<^verbatim>\<open>run_once\<close> over a repository that keeps no import reports, as the reference one.\<close>

definition run_adapters ::
    "worker_config \<Rightarrow> string \<Rightarrow> nat \<Rightarrow> 'e adapter list \<Rightarrow> 'e repository \<Rightarrow> ingest_report \<times> 'e repository" where
  "run_adapters c unavailable maximum ads r = fold (\<lambda>ad (rep, r). case scan_adapter c unavailable maximum ad r of
     (one, r') \<Rightarrow> (merge rep one, r')) ads (new_report, r)"

section \<open>The rotation of the discovery\<close>

definition rotating_markers :: "'a list \<Rightarrow> nat \<Rightarrow> nat \<Rightarrow> 'a list \<times> nat" where
  "rotating_markers ms maximum cursor = (if length ms \<le> maximum then (ms, 0)
     else let start = cursor mod length ms in
       (take maximum (drop start ms @ take start ms), (start + maximum) mod length ms))"

fun discovery_rounds :: "'a list \<Rightarrow> nat \<Rightarrow> nat \<Rightarrow> nat \<Rightarrow> 'a list list" where
  "discovery_rounds ms maximum 0 cursor = []"
| "discovery_rounds ms maximum (Suc n) cursor = (case rotating_markers ms maximum cursor of
     (chosen, cursor') \<Rightarrow> chosen # discovery_rounds ms maximum n cursor')"

section \<open>What a call leaves behind\<close>

text \<open>The contents of a repository, without the calls and the waits.\<close>

definition same_contents :: "'e repository \<Rightarrow> 'e repository \<Rightarrow> bool" where
  "same_contents r s \<longleftrightarrow> stored s = stored r \<and> quarantines s = quarantines r"

lemma retry_of_simps [simp]:
  "rr_attempt (retry_of u k turn delay) = turn" "rr_delay (retry_of u k turn delay) = delay"
  by (simp_all add: retry_of_def)

lemma record_retry_keeps [simp]:
  "stored (record_retry x r) = stored r" "quarantines (record_retry x r) = quarantines r"
  "calls (record_retry x r) = calls r @ [RetryCall (rr_attempt x) (rr_delay x)]"
  "outages (record_retry x r) = tl (outages r)"
  by (simp_all add: record_retry_def called_def Let_def)

lemma sleep_simps [simp]:
  "stored (sleep d r) = stored r" "quarantines (sleep d r) = quarantines r" "calls (sleep d r) = calls r @ [SleepCall d]"
  "outages (sleep d r) = outages r"
  by (simp_all add: sleep_def)

lemma store_import_result:
  "store_import env r = (None, r') \<Longrightarrow> same_contents r r'"
  "store_import env r = (Some Duplicate, r') \<Longrightarrow> same_contents r r' \<and> map_of (stored r) (fst env) \<noteq> None"
  "store_import env r = (Some Imported, r') \<Longrightarrow>
    map_of (stored r) (fst env) = None \<and> stored r' = stored r @ [env] \<and> quarantines r' = quarantines r"
  "calls (snd (store_import env r)) = calls r @ [StoreCall] \<and> outages (snd (store_import env r)) = tl (outages r) \<and>
    (fst (store_import env r) = None \<longleftrightarrow> down_at r 0)"
  by (auto simp: store_import_def called_def same_contents_def down_def down_at_def split: if_splits list.splits)

lemma quarantine_call_result:
  "quarantine_call q r = (None, r') \<Longrightarrow> same_contents r r'"
  "stored (snd (quarantine_call q r)) = stored r"
  by (auto simp: quarantine_call_def quarantine_def called_def same_contents_def split: if_splits)

text \<open>The loop over a call whose failures change no contents is one call over a repository with the same contents.\<close>

lemma attempt_loop_call:
  assumes fails: "\<And>r r'. call r = (None, r') \<Longrightarrow> same_contents r r'"
    and "0 < left" and "attempt_loop c u k call left turn delay r = (d, r')"
  shows "\<exists>s s'. same_contents r s \<and> call s = (d, s') \<and> same_contents s' r'"
  using assms(2,3)
proof (induction left arbitrary: turn delay r)
  case (Suc left)
  obtain x s where x: "call r = (x, s)" by fastforce
  show ?case
  proof (cases x)
    case None
    then have s: "same_contents r s" using fails x by blast
    show ?thesis
    proof (cases "left = 0")
      case True
      with Suc.prems x None have "d = None" "same_contents s r'" by (auto simp: Let_def same_contents_def)
      with x None show ?thesis by (intro exI [of _ r] exI [of _ s]) (simp add: same_contents_def)
    next
      case False
      with Suc.prems x None have "attempt_loop c u k call left (turn + 1) (backoff c delay)
          (sleep delay (record_retry (retry_of u k turn delay) s)) = (d, r')"
        by (simp add: Let_def)
      from Suc.IH [OF _ this] False s show ?thesis by (auto simp: same_contents_def)
    qed
  next
    case (Some y)
    with Suc.prems x show ?thesis by (intro exI [of _ r] exI [of _ s]) (auto simp: same_contents_def)
  qed
qed simp

text \<open>
  The loop seen from outside: a number of failed turns, each followed by the note of the retry and a sleep, then
  the turn that decides; the loop gives up only at its last turn, and that turn is noted but not slept after.
\<close>

definition turns :: "repository_call \<Rightarrow> (nat \<Rightarrow> rat) \<Rightarrow> nat \<Rightarrow> nat \<Rightarrow> repository_call list" where
  "turns x pause turn n = concat (map (\<lambda>i. [x, RetryCall (turn + i) (pause i), SleepCall (pause i)]) [0..<n])"

lemma turns_Suc: "turns x pause turn (Suc n) =
    [x, RetryCall turn (pause 0), SleepCall (pause 0)] @ turns x (\<lambda>i. pause (Suc i)) (turn + 1) n"
  by (simp add: turns_def upt_conv_Cons map_Suc_upt [symmetric] del: upt_Suc) (simp add: comp_def)

lemma down_at_Suc:
  assumes "outages s = tl (outages r)"
  shows "down_at s i \<longleftrightarrow> down_at r (Suc i)"
  using assms by (cases "outages r") (auto simp: down_at_def)

lemma attempt_loop_calls:
  assumes one: "\<And>r. calls (snd (call r)) = calls r @ [x] \<and> outages (snd (call r)) = tl (outages r) \<and>
      (fst (call r) = None \<longleftrightarrow> down_at r 0)"
    and "attempt_loop c u k call (Suc left) turn delay r = (d, r')"
  shows "\<exists>n\<le>left. (d = None \<longrightarrow> n = left) \<and> (\<forall>i<n. down_at r (2 * i)) \<and> (d = None \<longleftrightarrow> down_at r (2 * n)) \<and>
    calls r' = calls r @ turns x (\<lambda>i. (backoff c ^^ i) delay) turn n @
      (if d = None then [x, RetryCall (turn + n) ((backoff c ^^ n) delay)] else [x])"
  using assms(2)
proof (induction left arbitrary: turn delay r)
  case 0
  obtain y s where y: "call r = (y, s)" by fastforce
  with one [of r] have "calls s = calls r @ [x]" "y = None \<longleftrightarrow> down_at r 0" by auto
  with 0 y show ?case by (cases y) (auto simp: turns_def)
next
  case (Suc left)
  obtain y s where y: "call r = (y, s)" by fastforce
  with one [of r] have s: "calls s = calls r @ [x]" "outages s = tl (outages r)" "y = None \<longleftrightarrow> down_at r 0" by auto
  show ?case
  proof (cases y)
    case None
    let ?r = "sleep delay (record_retry (retry_of u k turn delay) s)"
    have later: "down_at ?r i \<longleftrightarrow> down_at r (Suc (Suc i))" for i
      using down_at_Suc [of ?r s i] down_at_Suc [OF s(2), of "Suc i"] by simp
    from Suc.prems y None have "attempt_loop c u k call (Suc left) (turn + 1) (backoff c delay) ?r = (d, r')"
      by (simp add: Let_def)
    note IH = Suc.IH [OF this]
    have power: "(backoff c ^^ Suc i) delay = (backoff c ^^ i) (backoff c delay)" for i
      by (simp only: funpow_Suc_right comp_apply)
    from IH obtain n where n: "n \<le> left" "d = None \<longrightarrow> n = left" "\<forall>i<n. down_at ?r (2 * i)"
      "d = None \<longleftrightarrow> down_at ?r (2 * n)" and
      rest: "calls r' = calls ?r @ turns x (\<lambda>i. (backoff c ^^ i) (backoff c delay)) (turn + 1) n @
        (if d = None then [x, RetryCall (turn + 1 + n) ((backoff c ^^ n) (backoff c delay))] else [x])"
      by blast
    have "calls r' = calls r @ turns x (\<lambda>i. (backoff c ^^ i) delay) turn (Suc n) @
        (if d = None then [x, RetryCall (turn + Suc n) ((backoff c ^^ Suc n) delay)] else [x])"
      unfolding rest turns_Suc power by (simp add: s(1))
    moreover have "d = None \<longleftrightarrow> down_at r (2 * Suc n)" and outs: "\<forall>i<n. down_at r (2 * Suc i)"
      using n by (simp_all add: later)
    moreover have "\<forall>i<Suc n. down_at r (2 * i)"
      using outs s(3) None by (auto simp: less_Suc_eq_0_disj)
    moreover have "Suc n \<le> Suc left" "d = None \<longrightarrow> Suc n = Suc left" using n(1,2) by simp_all
    ultimately show ?thesis by blast
  next
    case (Some a)
    with Suc.prems y s show ?thesis by (intro exI [of _ 0]) (auto simp: turns_def)
  qed
qed

lemma make_worker_attempts: "make_worker initial limit tries = Inr c \<Longrightarrow> 0 < wc_attempts c"
  by (auto simp: make_worker_def split: if_splits)

lemma backoff_power:
  assumes "0 < wc_initial c" and "wc_initial c \<le> wc_max c"
  shows "(backoff c ^^ i) (wc_initial c) = min (wc_max c) (wc_initial c * 2 ^ i)"
  using assms by (induction i) (auto simp: backoff_def min_def)

section \<open>One candidate\<close>

lemma store_loop_result:
  assumes "0 < wc_attempts c" and "attempt_loop c u (fst env) (store_import env) (wc_attempts c) 1 (wc_initial c) r = (d, r')"
  shows "d = None \<Longrightarrow> same_contents r r'"
    and "d = Some Duplicate \<Longrightarrow> same_contents r r' \<and> map_of (stored r) (fst env) \<noteq> None"
    and "d = Some Imported \<Longrightarrow> map_of (stored r) (fst env) = None \<and> stored r' = stored r @ [env]"
proof -
  obtain s s' where s: "same_contents r s" "store_import env s = (d, s')" "same_contents s' r'"
    using attempt_loop_call [where call = "store_import env", OF store_import_result(1) [of env] assms] by blast
  with store_import_result(1-3) [of env s s'] show "d = None \<Longrightarrow> same_contents r r'"
    "d = Some Duplicate \<Longrightarrow> same_contents r r' \<and> map_of (stored r) (fst env) \<noteq> None"
    "d = Some Imported \<Longrightarrow> map_of (stored r) (fst env) = None \<and> stored r' = stored r @ [env]"
    by (auto simp: same_contents_def)
qed

lemma quarantine_loop_stored:
  assumes "0 < wc_attempts c"
    and "attempt_loop c u k (quarantine_call q) (wc_attempts c) 1 (wc_initial c) r = (d, r')"
  shows "stored r' = stored r"
proof -
  obtain s s' where "same_contents r s" "quarantine_call q s = (d, s')" "same_contents s' r'"
    using attempt_loop_call [where call = "quarantine_call q", OF quarantine_call_result(1) [of q] assms] by blast
  with quarantine_call_result(2) [of q s] show ?thesis by (simp add: same_contents_def)
qed

text \<open>What the report and the repository say of each other while candidates are scanned.\<close>

definition handled :: "ingest_report \<Rightarrow> nat" where
  "handled rep = rep_imported rep + rep_duplicates rep + rep_quarantined rep + rep_exhausted rep + rep_busy rep"

definition scan_accounted :: "'e repository \<Rightarrow> ingest_report \<Rightarrow> 'e repository \<Rightarrow> bool" where
  "scan_accounted r0 rep r \<longleftrightarrow> handled rep = rep_discovered rep \<and> prefix (stored r0) (stored r) \<and>
     length (stored r) = length (stored r0) + rep_imported rep \<and>
     (distinct (map fst (stored r0)) \<longrightarrow> distinct (map fst (stored r)))"

lemma scan_accounted_refl: "scan_accounted r new_report r"
  by (simp add: scan_accounted_def handled_def new_report_def)

lemma store_step:
  assumes "0 < wc_attempts c" and "store_with_retry c u env (rep, r) = (rep', r')"
  shows "handled rep' = Suc (handled rep)" "rep_discovered rep' = rep_discovered rep" "rep_exhausted rep \<le> rep_exhausted rep'"
    "(rep_imported rep' = Suc (rep_imported rep) \<and> map_of (stored r) (fst env) = None \<and> stored r' = stored r @ [env]) \<or>
      (rep_imported rep' = rep_imported rep \<and> stored r' = stored r \<and>
        (map_of (stored r) (fst env) \<noteq> None \<or> rep_exhausted rep < rep_exhausted rep'))"
proof -
  obtain d s where d: "attempt_loop c u (fst env) (store_import env) (wc_attempts c) 1 (wc_initial c) r = (d, s)" by fastforce
  note result = store_loop_result [OF assms(1) d]
  show "handled rep' = Suc (handled rep)" "rep_discovered rep' = rep_discovered rep" "rep_exhausted rep \<le> rep_exhausted rep'"
    "(rep_imported rep' = Suc (rep_imported rep) \<and> map_of (stored r) (fst env) = None \<and> stored r' = stored r @ [env]) \<or>
      (rep_imported rep' = rep_imported rep \<and> stored r' = stored r \<and>
        (map_of (stored r) (fst env) \<noteq> None \<or> rep_exhausted rep < rep_exhausted rep'))"
    using assms(2) d result
    by (auto simp: store_with_retry_def handled_def same_contents_def split: option.splits disposition.splits)
qed

lemma quarantine_step:
  assumes "0 < wc_attempts c" and "quarantine_with_retry c u q (rep, r) = (rep', r')"
  shows "handled rep' = Suc (handled rep)" "rep_discovered rep' = rep_discovered rep" "rep_exhausted rep \<le> rep_exhausted rep'"
    "rep_imported rep' = rep_imported rep" "stored r' = stored r"
proof -
  let ?call = "quarantine_call (q\<lparr>qr_reason := take 4096 (qr_reason q)\<rparr>)"
  obtain d s where d: "attempt_loop c u (qr_key q) ?call (wc_attempts c) 1 (wc_initial c) r = (d, s)" by fastforce
  note stored = quarantine_loop_stored [OF assms(1) d]
  show "handled rep' = Suc (handled rep)" "rep_discovered rep' = rep_discovered rep" "rep_exhausted rep \<le> rep_exhausted rep'"
    "rep_imported rep' = rep_imported rep" "stored r' = stored r"
    using assms(2) d stored by (auto simp: quarantine_with_retry_def handled_def split: option.splits)
qed

section \<open>A scan\<close>

lemma candidate_step:
  assumes "0 < wc_attempts c" and "scan_candidate c u ad x (rep, r) = (rep', r')"
  shows "rep_discovered rep' = Suc (rep_discovered rep)" "handled rep' = Suc (handled rep)" "rep_exhausted rep \<le> rep_exhausted rep'"
    "(\<exists>env. ad_load ad x = Inr env \<and> rep_imported rep' = Suc (rep_imported rep) \<and> map_of (stored r) (fst env) = None \<and>
        stored r' = stored r @ [env]) \<or>
      (rep_imported rep' = rep_imported rep \<and> stored r' = stored r \<and>
        (\<forall>env. ad_load ad x = Inr env \<longrightarrow> map_of (stored r) (fst env) \<noteq> None \<or> rep_exhausted rep < rep_exhausted rep'))"
proof -
  let ?rep = "rep\<lparr>rep_discovered := rep_discovered rep + 1,
       rep_keys := (if cand_key x \<in> set (rep_keys rep) then rep_keys rep else rep_keys rep @ [cand_key x])\<rparr>"
  have same: "handled ?rep = handled rep" "rep_imported ?rep = rep_imported rep" "rep_exhausted ?rep = rep_exhausted rep"
    "rep_discovered ?rep = Suc (rep_discovered rep)" by (simp_all add: handled_def)
  consider (busy) t where "ad_load ad x = Inl (SourceBusy t)" "handled rep' = Suc (handled rep)" "stored r' = stored r"
      "rep_imported rep' = rep_imported rep" "rep_exhausted rep' = rep_exhausted rep" "rep_discovered rep' = Suc (rep_discovered rep)"
    | (invalid) t q where "ad_load ad x = Inl (SourceInvalid t)" "quarantine_with_retry c u q (?rep, r) = (rep', r')"
    | (loaded) env where "ad_load ad x = Inr env" "store_with_retry c u env (?rep, r) = (rep', r')"
    using assms(2) by (auto simp: scan_candidate_def Let_def handled_def split: sum.splits ingest_error.splits)
  then have "rep_discovered rep' = Suc (rep_discovered rep) \<and> handled rep' = Suc (handled rep) \<and> rep_exhausted rep \<le> rep_exhausted rep' \<and>
     ((\<exists>env. ad_load ad x = Inr env \<and> rep_imported rep' = Suc (rep_imported rep) \<and> map_of (stored r) (fst env) = None \<and>
        stored r' = stored r @ [env]) \<or>
      (rep_imported rep' = rep_imported rep \<and> stored r' = stored r \<and>
        (\<forall>env. ad_load ad x = Inr env \<longrightarrow> map_of (stored r) (fst env) \<noteq> None \<or> rep_exhausted rep < rep_exhausted rep')))"
  proof cases
    case invalid
    from quarantine_step [OF assms(1) invalid(2)] invalid(1) show ?thesis unfolding same by simp
  next
    case loaded
    from store_step [OF assms(1) loaded(2)] loaded(1) show ?thesis unfolding same by auto
  qed simp
  then show "rep_discovered rep' = Suc (rep_discovered rep)" "handled rep' = Suc (handled rep)" "rep_exhausted rep \<le> rep_exhausted rep'"
    "(\<exists>env. ad_load ad x = Inr env \<and> rep_imported rep' = Suc (rep_imported rep) \<and> map_of (stored r) (fst env) = None \<and>
        stored r' = stored r @ [env]) \<or>
      (rep_imported rep' = rep_imported rep \<and> stored r' = stored r \<and>
        (\<forall>env. ad_load ad x = Inr env \<longrightarrow> map_of (stored r) (fst env) \<noteq> None \<or> rep_exhausted rep < rep_exhausted rep'))"
    by blast+
qed

text \<open>The scan of a list of candidates, with what it says of those that could be loaded.\<close>

definition imported_all :: "'e adapter \<Rightarrow> candidate list \<Rightarrow> 'e repository \<Rightarrow> bool" where
  "imported_all ad xs r \<longleftrightarrow> list_all (\<lambda>x. \<forall>env. ad_load ad x = Inr env \<longrightarrow> map_of (stored r) (fst env) \<noteq> None) xs"

lemma scan_all:
  assumes pos: "0 < wc_attempts c" and "fold (scan_candidate c u ad) xs (rep, r) = (rep', r')" and "scan_accounted r0 rep r"
  shows "scan_accounted r0 rep' r' \<and> rep_discovered rep' = rep_discovered rep + length xs \<and> rep_exhausted rep \<le> rep_exhausted rep' \<and>
    prefix (stored r) (stored r') \<and> (rep_exhausted rep' = rep_exhausted rep \<longrightarrow> imported_all ad xs r') \<and>
    (imported_all ad xs r \<longrightarrow> rep_imported rep' = rep_imported rep \<and> stored r' = stored r)"
  using assms(2,3)
proof (induction xs arbitrary: rep r)
  case (Cons x xs)
  obtain rep1 r1 where one: "scan_candidate c u ad x (rep, r) = (rep1, r1)" by fastforce
  note step = candidate_step [OF pos one]
  have acc: "scan_accounted r0 rep1 r1"
    using Cons.prems(2) step by (auto simp: scan_accounted_def prefix_def map_of_eq_None_iff)
  have pre: "prefix (stored r) (stored r1)" using step(4) by auto
  have rest: "fold (scan_candidate c u ad) xs (rep1, r1) = (rep', r')" using Cons.prems(1) one by simp
  note IH = Cons.IH [OF rest acc]
  have keep: "map_of (stored r') k \<noteq> None" if "map_of (stored s) k \<noteq> None" "prefix (stored s) (stored r')" for s k
    using that by (auto simp: prefix_def map_of_eq_None_iff)
  have head: "imported_all ad [x] r'" if "rep_exhausted rep1 = rep_exhausted rep"
  proof (cases "ad_load ad x")
    case (Inr env)
    have "map_of (stored r1) (fst env) \<noteq> None" using step(4) Inr that by (auto simp: map_of_eq_None_iff)
    then show ?thesis using keep [of r1] IH Inr by (cases env) (simp add: imported_all_def)
  qed (simp add: imported_all_def)
  have same: "rep_imported rep1 = rep_imported rep \<and> stored r1 = stored r" if "imported_all ad [x] r"
    using step(4) that by (auto simp: imported_all_def)
  have tail: "imported_all ad xs r1" if "imported_all ad xs r" "stored r1 = stored r"
    using that by (simp add: imported_all_def)
  have split: "imported_all ad (x # xs) q \<longleftrightarrow> imported_all ad [x] q \<and> imported_all ad xs q" for q by (simp add: imported_all_def)
  show ?case
    using IH pre step(1,3) head same tail unfolding split by (auto intro: prefix_order.trans)
qed (simp add: imported_all_def)

text \<open>
  C37: a scan accounts for everything it finds. Whatever the adapter yields and however often the repository is
  out of reach, every candidate ends as imported, duplicate, quarantined, exhausted or busy, and as exactly one
  of these; the repository grows by exactly the imported ones, nothing stored before is changed, and no source
  key is ever stored twice. Unless the retries of a call ran out, every capture that could be loaded is stored.
\<close>

theorem scan_accounts_for_candidates:
  assumes "make_worker initial limit tries = Inr c" and "ad_discover ad maximum = Inr xs"
    and "scan_adapter c unavailable maximum ad r = (rep, r')" and "distinct (map fst (stored r))"
  shows "rep_discovered rep = length xs \<and>
    rep_imported rep + rep_duplicates rep + rep_quarantined rep + rep_exhausted rep + rep_busy rep = length xs \<and>
    prefix (stored r) (stored r') \<and> length (stored r') = length (stored r) + rep_imported rep \<and>
    distinct (map fst (stored r')) \<and> (rep_exhausted rep = 0 \<longrightarrow> imported_all ad xs r')"
proof -
  have "fold (scan_candidate c unavailable ad) xs (new_report, r) = (rep, r')" using assms(2,3) by (simp add: scan_adapter_def)
  from scan_all [OF make_worker_attempts [OF assms(1)] this scan_accounted_refl] assms(4) show ?thesis
    by (simp add: scan_accounted_def handled_def new_report_def)
qed

text \<open>
  C38: importing again imports nothing. After a scan whose retries did not run out, scanning the same candidates
  again, whatever the repository does this time, imports none of them and leaves the stored captures as they are.
\<close>

theorem second_scan_imports_nothing:
  assumes "make_worker initial limit tries = Inr c" and "ad_discover ad maximum = Inr xs"
    and "scan_adapter c unavailable maximum ad r = (rep, r')" and "rep_exhausted rep = 0"
  shows "rep_imported (fst (scan_adapter c unavailable maximum ad (r'\<lparr>outages := later\<rparr>))) = 0 \<and>
    stored (snd (scan_adapter c unavailable maximum ad (r'\<lparr>outages := later\<rparr>))) = stored r'"
proof -
  let ?r = "r'\<lparr>outages := later\<rparr>"
  note pos = make_worker_attempts [OF assms(1)]
  have "fold (scan_candidate c unavailable ad) xs (new_report, r) = (rep, r')" using assms(2,3) by (simp add: scan_adapter_def)
  from scan_all [OF pos this scan_accounted_refl] assms(4) have "imported_all ad xs ?r"
    by (simp add: imported_all_def new_report_def)
  moreover obtain rep2 r2 where two: "fold (scan_candidate c unavailable ad) xs (new_report, ?r) = (rep2, r2)" by fastforce
  ultimately have "rep_imported rep2 = 0 \<and> stored r2 = stored r'"
    using scan_all [OF pos two scan_accounted_refl] by (simp add: new_report_def)
  then show ?thesis using two assms(2) by (simp add: scan_adapter_def)
qed

text \<open>
  C39: the calls of a store. Whatever the repository does, a store makes \<open>n\<close> rounds of a store call that finds the
  repository out of reach, the note of the retry under its number and a sleep, then a last store call, and no other
  call: at most the configured number of store calls. The sleeps start with the initial delay and double up to the
  maximal one. The last store call is the first that reaches the repository; if none does, all the configured calls
  are made, the last one is noted but not slept after, and the report counts the exhaustion.
\<close>

theorem store_waits_double:
  assumes "make_worker initial limit tries = Inr c" and "store_with_retry c unavailable env (rep, r) = (rep', r')"
  shows "\<exists>n<nat tries. (\<forall>i<n. down_at r (2 * i)) \<and> (down_at r (2 * n) \<longrightarrow> n + 1 = nat tries) \<and>
    calls r' = calls r @
      concat (map (\<lambda>i. [StoreCall, RetryCall (i + 1) (min limit (initial * 2 ^ i)), SleepCall (min limit (initial * 2 ^ i))]) [0..<n]) @
      (if down_at r (2 * n) then [StoreCall, RetryCall (n + 1) (min limit (initial * 2 ^ n))] else [StoreCall]) \<and>
    rep_exhausted rep' = rep_exhausted rep + (if down_at r (2 * n) then 1 else 0)"
proof -
  have c: "wc_initial c = initial" "wc_max c = limit" "wc_attempts c = Suc (nat tries - 1)" "0 < nat tries" "0 < initial" "initial \<le> limit"
    using assms(1) by (auto simp: make_worker_def split: if_splits)
  then obtain m where m: "nat tries = Suc m" by (cases "nat tries") auto
  obtain d s where loop: "attempt_loop c unavailable (fst env) (store_import env) (Suc (nat tries - 1)) 1 initial r = (d, s)"
    by fastforce
  with assms(2) have out: "r' = s" "rep_exhausted rep' = rep_exhausted rep + (if d = None then 1 else 0)"
    by (auto simp: store_with_retry_def c split: option.splits disposition.splits)
  from attempt_loop_calls [where call = "store_import env", OF store_import_result(4) loop] obtain n where
    n: "n \<le> nat tries - 1" "d = None \<longrightarrow> n = nat tries - 1" "\<forall>i<n. down_at r (2 * i)" "d = None \<longleftrightarrow> down_at r (2 * n)" and
    calls: "calls s = calls r @ turns StoreCall (\<lambda>i. (backoff c ^^ i) initial) 1 n @
      (if d = None then [StoreCall, RetryCall (1 + n) ((backoff c ^^ n) initial)] else [StoreCall])"
    by blast
  have "(backoff c ^^ i) initial = min limit (initial * 2 ^ i)" for i
    using backoff_power [of c i] c by simp
  with calls have "calls s = calls r @ turns StoreCall (\<lambda>i. min limit (initial * 2 ^ i)) 1 n @
      (if down_at r (2 * n) then [StoreCall, RetryCall (1 + n) (min limit (initial * 2 ^ n))] else [StoreCall])"
    unfolding n(4) by (simp only:)
  then show ?thesis using n(1-3) unfolding out turns_def n(4) m
    by (intro exI [of _ n] conjI) (simp_all add: add.commute)
qed

section \<open>Fairness of the discovery\<close>

lemma rotation_nth:
  assumes "maximum < length ms"
  shows "rotating_markers ms maximum cursor =
    (map (\<lambda>i. ms ! ((cursor + i) mod length ms)) [0..<maximum], (cursor + maximum) mod length ms)"
proof -
  let ?n = "length ms" and ?s = "cursor mod length ms"
  have s: "?s < ?n" using assms by (intro mod_less_divisor) linarith
  have "take maximum (drop ?s ms @ take ?s ms) = map (\<lambda>i. ms ! ((cursor + i) mod ?n)) [0..<maximum]"
  proof (rule nth_equalityI)
    fix i assume "i < length (take maximum (drop ?s ms @ take ?s ms))"
    then have i: "i < maximum" by simp
    have "(cursor + i) mod ?n = (?s + i) mod ?n" by (simp add: mod_add_left_eq)
    also have "\<dots> = (if ?s + i < ?n then ?s + i else ?s + i - ?n)"
    proof (cases "?s + i < ?n")
      case False
      then have "(?s + i) mod ?n = (?s + i - ?n) mod ?n" by (intro le_mod_geq) simp
      also have "\<dots> = ?s + i - ?n" using s i assms by (intro mod_less) linarith
      finally show ?thesis using False by simp
    qed simp
    finally have index: "(cursor + i) mod ?n = (if ?s + i < ?n then ?s + i else ?s + i - ?n)" .
    show "take maximum (drop ?s ms @ take ?s ms) ! i = map (\<lambda>i. ms ! ((cursor + i) mod ?n)) [0..<maximum] ! i"
      using i s assms unfolding index [symmetric]
      by (auto simp: nth_append index less_diff_conv add.commute)
  qed (use assms s in simp)
  then show ?thesis using assms by (simp add: rotating_markers_def Let_def mod_add_left_eq)
qed

lemma rounds_nth:
  assumes "maximum < length ms"
  shows "concat (discovery_rounds ms maximum n cursor) = map (\<lambda>i. ms ! ((cursor + i) mod length ms)) [0..<n * maximum]"
proof (induction n arbitrary: cursor)
  case (Suc n)
  have "[0..<Suc n * maximum] = [0..<maximum] @ map (\<lambda>i. i + maximum) [0..<n * maximum]"
    by (simp add: upt_add_eq_append [of 0 maximum "n * maximum", simplified] map_add_upt add.commute)
  then show ?case
    by (simp add: rotation_nth [OF assms] Suc.IH mod_simps add.commute add.left_commute)
qed simp

text \<open>
  C40: the discovery starves no capture. While the set of published captures stays as it is, any run of scans long
  enough to hold all of them selects every one, from whatever position the cursor starts; a scan never selects
  more than its maximum.
\<close>

theorem discovery_is_fair:
  assumes "0 < maximum" and "length ms \<le> n * maximum" and "0 < n"
  shows "set (concat (discovery_rounds ms maximum n cursor)) = set ms \<and>
    list_all (\<lambda>xs. length xs \<le> maximum) (discovery_rounds ms maximum n cursor)"
proof (cases "maximum < length ms")
  case True
  let ?L = "length ms"
  have ne: "ms \<noteq> []" using True by (cases ms) simp_all
  have "(\<lambda>i. (cursor + i) mod ?L) ` {0..<n * maximum} = {0..<?L}"
  proof (intro equalityI subsetI)
    fix j assume j: "j \<in> {0..<?L}"
    let ?i = "(j + (?L - cursor mod ?L)) mod ?L"
    have pos: "0 < ?L" using True by linarith
    then have "?i < n * maximum" using mod_less_divisor [OF pos, of "j + (?L - cursor mod ?L)"] assms(2) by linarith
    moreover have "(cursor + ?i) mod ?L = j"
    proof -
      have le: "cursor mod ?L \<le> ?L" using pos by (simp add: less_imp_le)
      have "(cursor + ?i) mod ?L = (cursor mod ?L + (j + (?L - cursor mod ?L))) mod ?L" by (simp add: mod_simps)
      also have "cursor mod ?L + (j + (?L - cursor mod ?L)) = j + ?L" using le by linarith
      finally show ?thesis using j by simp
    qed
    ultimately show "j \<in> (\<lambda>i. (cursor + i) mod ?L) ` {0..<n * maximum}" by force
  qed (use ne in auto)
  then have positions: "{0..<?L} = (\<lambda>i. (cursor + i) mod ?L) ` {0..<n * maximum}" ..
  have "set (concat (discovery_rounds ms maximum n cursor)) = (!) ms ` {0..<?L}"
    unfolding rounds_nth [OF True] positions by (simp add: image_image)
  moreover have "list_all (\<lambda>xs. length xs \<le> maximum) (discovery_rounds ms maximum n cursor)"
    by (induction n arbitrary: cursor) (simp_all add: rotation_nth [OF True])
  moreover have "set ms = (!) ms ` {0..<?L}" by (auto simp: set_conv_nth)
  ultimately show ?thesis by simp
next
  case False
  then have rounds: "discovery_rounds ms maximum n cursor = replicate n ms"
    by (induction n arbitrary: cursor) (simp_all add: rotating_markers_def)
  show ?thesis using assms False unfolding rounds by (auto simp: list_all_iff)
qed

section \<open>Examples\<close>

definition spool_candidate :: "string \<Rightarrow> candidate" where
  "spool_candidate k = \<lparr>cand_instance = ''spool'', cand_key = k, cand_path = k, cand_kind = ''canonical''\<rparr>"

definition example_adapter :: "nat adapter" where
  "example_adapter = \<lparr>ad_instance = ''spool'', ad_root = ''/spool'', ad_kind = ''CanonicalCaptureV1Adapter'',
     ad_discover = (\<lambda>maximum. Inr (take maximum [spool_candidate ''a'', spool_candidate ''b'', spool_candidate ''c''])),
     ad_load = (\<lambda>x. if cand_key x = ''b'' then Inl (SourceInvalid ''torn'') else Inr (cand_key x, 7))\<rparr>"

definition patient_worker :: worker_config where
  "patient_worker = \<lparr>wc_initial = 2, wc_max = 300, wc_attempts = 5\<rparr>"

lemma patient_worker_made: "make_worker 2 300 5 = Inr patient_worker"
  by (simp add: make_worker_def patient_worker_def)

text \<open>A repository that is out of reach at its first call.\<close>

definition flaky_repository :: "nat repository" where
  "flaky_repository = \<lparr>stored = [], retries = [], quarantines = [], outages = [True, False, False], calls = []\<rparr>"

lemma example_discovers: "ad_discover example_adapter 3 =
    Inr [spool_candidate ''a'', spool_candidate ''b'', spool_candidate ''c'']"
  by (simp add: example_adapter_def)

lemma example_not_exhausted:
  "rep_exhausted (fst (scan_adapter patient_worker ''gone'' 3 example_adapter flaky_repository)) = 0"
  by code_simp

theorem scan_accounts_for_candidates_witness:
  "rep_discovered (fst (scan_adapter patient_worker ''gone'' 3 example_adapter flaky_repository)) = 3 \<and>
   imported_all example_adapter [spool_candidate ''a'', spool_candidate ''b'', spool_candidate ''c'']
     (snd (scan_adapter patient_worker ''gone'' 3 example_adapter flaky_repository))"
proof -
  obtain rep r where run: "scan_adapter patient_worker ''gone'' 3 example_adapter flaky_repository = (rep, r)" by fastforce
  have "distinct (map fst (stored flaky_repository))" by (simp add: flaky_repository_def)
  from scan_accounts_for_candidates [OF patient_worker_made example_discovers run this] example_not_exhausted run
  show ?thesis by simp
qed

theorem second_scan_imports_nothing_witness:
  "rep_imported (fst (scan_adapter patient_worker ''gone'' 3 example_adapter
     ((snd (scan_adapter patient_worker ''gone'' 3 example_adapter flaky_repository))\<lparr>outages := [True]\<rparr>))) = 0"
proof -
  obtain rep r where run: "scan_adapter patient_worker ''gone'' 3 example_adapter flaky_repository = (rep, r)" by fastforce
  with example_not_exhausted have "rep_exhausted rep = 0" by simp
  from second_scan_imports_nothing [OF patient_worker_made example_discovers run this] run show ?thesis by simp
qed

text \<open>A repository that is out of reach at the first store and at the note of its retry.\<close>

theorem store_waits_double_witness:
  "calls (snd (store_with_retry patient_worker ''gone'' (''k'', 1 :: nat)
     (new_report, flaky_repository\<lparr>outages := [True, True]\<rparr>))) = [StoreCall, RetryCall 1 2, SleepCall 2, StoreCall]"
proof -
  let ?r = "flaky_repository\<lparr>outages := [True, True]\<rparr>"
  obtain rep r where run: "store_with_retry patient_worker ''gone'' (''k'', 1 :: nat) (new_report, ?r) = (rep, r)" by fastforce
  have start: "calls ?r = []" "down_at ?r i \<longleftrightarrow> i < 2" for i
    by (auto simp: flaky_repository_def down_at_def less_Suc_eq numeral_2_eq_2)
  from store_waits_double [OF patient_worker_made run] obtain n where n: "n < nat 5" "\<forall>i<n. down_at ?r (2 * i)" 
    "down_at ?r (2 * n) \<longrightarrow> n + 1 = nat 5" and calls: "calls r = calls ?r @
      concat (map (\<lambda>i. [StoreCall, RetryCall (i + 1) (min 300 (2 * 2 ^ i)), SleepCall (min 300 (2 * 2 ^ i))]) [0..<n]) @
      (if down_at ?r (2 * n) then [StoreCall, RetryCall (n + 1) (min 300 (2 * 2 ^ n))] else [StoreCall])"
    by blast
  have "\<not> 1 < n" using n(2) start(2) [of 2] by auto
  moreover have "n \<noteq> 0" using n(3) start(2) [of 0] by (cases n) auto
  ultimately have "n = 1" by simp
  with calls start show ?thesis unfolding run by simp
qed

theorem discovery_is_fair_witness:
  "set (concat (discovery_rounds [1, 2, 3, 4, 5 :: nat] 2 3 4)) = {1, 2, 3, 4, 5}"
  using discovery_is_fair [of 2 "[1, 2, 3, 4, 5 :: nat]" 3 4] by simp

end
